(* ===== verification/Orchid_Prelude.thy ===== *)
theory Orchid_Prelude
  imports Main "HOL-Library.Word" "HOL-Library.AList" "HOL-Library.Char_ord"
    "HOL-Library.List_Lexorder" "HOL-Library.Multiset" "HOL-Library.Sublist"
begin

text \<open>
  Shared vocabulary of the development.

  \<^item> Machine integers are words of their width; a signed Rust integer is read with
    \<^const>\<open>sint\<close>.  Floating-point numbers are kept as their IEEE bit patterns
    (\<open>to_bits\<close>), because the modelled code copies, hashes and frames them but does
    not compute with them.
  \<^item> A Rust \<open>String\<close> is its UTF-8 byte sequence, a \<^typ>\<open>string\<close> (HOL characters are
    bytes); \<open>utf8_valid\<close> is the type's invariant.
  \<^item> \<open>Result<T, E>\<close> is \<^typ>\<open>'e + 'a\<close> with \<open>Inl\<close> the error.
  \<^item> \<open>HashMap\<close>/\<open>BTreeMap\<close> are association lists with the library's
    \<^const>\<open>AList.update\<close> and \<^const>\<open>AList.delete\<close>; \<open>HashSet\<close> is a set.

  The generic facts on byte encodings and on keyed association lists that the
  component theories use are collected under the named theorems below.
\<close>

named_theorems byte_simps \<open>evaluation and round trips of byte encodings\<close>
named_theorems alist_simps \<open>lookups in updated association lists\<close>

type_synonym u8 = "8 word"
type_synonym u16 = "16 word"
type_synonym u32 = "32 word"
type_synonym u64 = "64 word"
type_synonym i8 = "8 word"
type_synonym i16 = "16 word"
type_synonym i32 = "32 word"
type_synonym i64 = "64 word"
type_synonym f32 = "32 word"
type_synonym f64 = "64 word"
type_synonym bytes = "u8 list"

section \<open>Results\<close>

definition bind_res :: "'e + 'a \<Rightarrow> ('a \<Rightarrow> 'e + 'b) \<Rightarrow> 'e + 'b" where
  "bind_res m f = (case m of Inl e \<Rightarrow> Inl e | Inr a \<Rightarrow> f a)"

lemma bind_res_simps [simp]:
  "bind_res (Inl e) f = Inl e"
  "bind_res (Inr a) f = f a"
  by (simp_all add: bind_res_def)

lemma bind_res_eq_Inr:
  "bind_res m f = Inr b \<longleftrightarrow> (\<exists>a. m = Inr a \<and> f a = Inr b)"
  by (cases m) auto

definition ok_or :: "'a option \<Rightarrow> 'e \<Rightarrow> 'e + 'a" where
  "ok_or x e = (case x of None \<Rightarrow> Inl e | Some a \<Rightarrow> Inr a)"

lemma ok_or_simps [simp]: "ok_or None e = Inl e" "ok_or (Some a) e = Inr a"
  by (simp_all add: ok_or_def)

section \<open>Words as bytes\<close>

fun le_nat :: "nat \<Rightarrow> nat \<Rightarrow> bytes" where
  "le_nat 0 k = []"
| "le_nat (Suc n) k = of_nat (k mod 256) # le_nat n (k div 256)"

fun le_val :: "bytes \<Rightarrow> nat" where
  "le_val [] = 0"
| "le_val (b # bs) = unat b + 256 * le_val bs"

definition to_le_bytes :: "'a::len word \<Rightarrow> bytes" where
  "to_le_bytes w = le_nat (LENGTH('a) div 8) (unat w)"

definition to_be_bytes :: "'a::len word \<Rightarrow> bytes" where
  "to_be_bytes w = rev (to_le_bytes w)"

definition from_le_bytes :: "bytes \<Rightarrow> 'a::len word" where
  "from_le_bytes bs = of_nat (le_val bs)"

lemma length_le_nat [simp]: "length (le_nat n k) = n"
  by (induction n arbitrary: k) auto

lemma unat_byte_mod: "unat (of_nat (k mod 256) :: u8) = k mod 256"
  by (simp add: unat_of_nat)

lemma le_val_le_nat: "le_val (le_nat n k) = k mod 256 ^ n"
proof (induction n arbitrary: k)
  case 0
  then show ?case by simp
next
  case (Suc n)
  have "le_val (le_nat (Suc n) k) = k mod 256 + 256 * (k div 256 mod 256 ^ n)"
    by (simp add: Suc.IH unat_byte_mod)
  also have "\<dots> = k mod 256 ^ Suc n"
    by (simp add: mod_mult2_eq)
  finally show ?case .
qed

lemma le_nat_inject:
  assumes "le_nat n a = le_nat n b" "a < 256 ^ n" "b < 256 ^ n"
  shows "a = b"
proof -
  have "a mod 256 ^ n = b mod 256 ^ n"
    using assms(1) le_val_le_nat [of n a] le_val_le_nat [of n b] by simp
  then show ?thesis
    using assms(2,3) by (simp only: mod_less)
qed

lemma length_to_le_bytes [simp]:
  "length (to_le_bytes (w :: 'a::len word)) = LENGTH('a) div 8"
  by (simp add: to_le_bytes_def)

lemma length_to_be_bytes [simp]:
  "length (to_be_bytes (w :: 'a::len word)) = LENGTH('a) div 8"
  by (simp add: to_be_bytes_def)

lemma from_to_le_bytes:
  assumes "8 dvd LENGTH('a)"
  shows "from_le_bytes (to_le_bytes (w :: 'a::len word)) = w"
proof -
  have "(256::nat) ^ (LENGTH('a) div 8) = 2 ^ (8 * (LENGTH('a) div 8))"
    by (simp add: power_mult)
  also have "8 * (LENGTH('a) div 8) = LENGTH('a)"
    using assms by simp
  finally have "unat w mod 256 ^ (LENGTH('a) div 8) = unat w"
    using unsigned_less [of w] by simp
  then show ?thesis
    by (simp add: from_le_bytes_def to_le_bytes_def le_val_le_nat)
qed

lemma from_to_le_bytes_widths [byte_simps]:
  "from_le_bytes (to_le_bytes (a :: u16)) = a"
  "from_le_bytes (to_le_bytes (b :: u32)) = b"
  "from_le_bytes (to_le_bytes (c :: u64)) = c"
  by (rule from_to_le_bytes, simp)+

lemma to_le_bytes_inject:
  "to_le_bytes (a :: u64) = to_le_bytes b \<longleftrightarrow> a = b"
  by (metis from_to_le_bytes_widths(3))

lemma to_be_bytes_inject [simp]:
  "to_be_bytes (a :: u64) = to_be_bytes b \<longleftrightarrow> a = b"
  by (simp add: to_be_bytes_def to_le_bytes_inject)

section \<open>Length framing\<close>

text \<open>A big-endian 64-bit length followed by the bytes, as the key encoders write it.\<close>

definition be_len :: "'a list \<Rightarrow> bytes" where
  "be_len xs = to_be_bytes (of_nat (length xs) :: u64)"

lemma length_be_len [simp]: "length (be_len xs) = 8"
  by (simp add: be_len_def)

lemma be_len_ne [simp]: "be_len xs \<noteq> []" "[] \<noteq> be_len xs"
  by (metis length_be_len list.size(3) zero_neq_numeral)+

lemma unat_of_nat_u64: "a < 2 ^ 64 \<Longrightarrow> unat (of_nat a :: u64) = a"
  by (simp add: unat_of_nat)

lemma u64_of_nat_inject:
  assumes "a < 2 ^ 64" "b < 2 ^ 64"
  shows "(of_nat a :: u64) = of_nat b \<longleftrightarrow> a = b"
  using unat_of_nat_u64 [OF assms(1)] unat_of_nat_u64 [OF assms(2)] by metis

lemma be_len_inject:
  "length xs < 2 ^ 64 \<Longrightarrow> length ys < 2 ^ 64 \<Longrightarrow>
    be_len xs = be_len ys \<longleftrightarrow> length xs = length ys"
  by (simp add: be_len_def u64_of_nat_inject)

section \<open>Decimal text\<close>

text \<open>\<open>to_string\<close> and \<open>str::parse\<close> of Rust's integers, and \<open>str::split\<close>/\<open>split_once\<close>.\<close>

definition digit_char :: "nat \<Rightarrow> char" where
  "digit_char d = char_of (48 + d)"

definition digit_val :: "char \<Rightarrow> nat option" where
  "digit_val c = (let n = of_char c in if 48 \<le> n \<and> n \<le> 57 then Some (n - 48) else None)"

fun show_nat :: "nat \<Rightarrow> string" where
  "show_nat n = (if n < 10 then [digit_char n] else show_nat (n div 10) @ [digit_char (n mod 10)])"

declare show_nat.simps [simp del]

definition show_int :: "int \<Rightarrow> string" where
  "show_int n = (if n < 0 then CHR ''-'' # show_nat (nat (- n)) else show_nat (nat n))"

fun parse_digits :: "nat \<Rightarrow> string \<Rightarrow> nat option" where
  "parse_digits acc [] = Some acc"
| "parse_digits acc (c # cs) =
     (case digit_val c of None \<Rightarrow> None | Some d \<Rightarrow> parse_digits (10 * acc + d) cs)"

definition parse_int :: "string \<Rightarrow> int option" where
  "parse_int s =
     (case s of
        [] \<Rightarrow> None
      | c # cs \<Rightarrow>
          if c = CHR ''-'' then (if cs = [] then None else map_option (\<lambda>n. - int n) (parse_digits 0 cs))
          else if c = CHR ''+'' then (if cs = [] then None else map_option int (parse_digits 0 cs))
          else map_option int (parse_digits 0 s))"

definition show_i64 :: "i64 \<Rightarrow> string" where
  "show_i64 w = show_int (sint w)"

definition parse_i64 :: "string \<Rightarrow> i64 option" where
  "parse_i64 s =
     (case parse_int s of
        None \<Rightarrow> None
      | Some n \<Rightarrow> if - (2 ^ 63) \<le> n \<and> n < 2 ^ 63 then Some (of_int n) else None)"

fun split_on :: "char \<Rightarrow> string \<Rightarrow> string list" where
  "split_on c [] = [[]]"
| "split_on c (x # xs) =
     (if x = c then [] # split_on c xs
      else (case split_on c xs of [] \<Rightarrow> [[x]] | y # ys \<Rightarrow> (x # y) # ys))"

fun split_once :: "char \<Rightarrow> string \<Rightarrow> (string \<times> string) option" where
  "split_once c [] = None"
| "split_once c (x # xs) =
     (if x = c then Some ([], xs)
      else map_option (\<lambda>(a, b). (x # a, b)) (split_once c xs))"

lemma digit_val_digit_char: "d < 10 \<Longrightarrow> digit_val (digit_char d) = Some d"
  by (simp add: digit_val_def digit_char_def)

lemma parse_digits_append:
  "parse_digits acc (xs @ ys) =
     (case parse_digits acc xs of None \<Rightarrow> None | Some k \<Rightarrow> parse_digits k ys)"
  by (induction xs arbitrary: acc) (auto split: option.splits)

lemma parse_digits_show_nat: "parse_digits 0 (show_nat n) = Some n"
proof (induction n rule: show_nat.induct)
  case (1 n)
  show ?case
  proof (cases "n < 10")
    case True
    then show ?thesis by (simp add: show_nat.simps [of n] digit_val_digit_char)
  next
    case False
    then have "parse_digits 0 (show_nat (n div 10)) = Some (n div 10)"
      by (rule 1)
    with False show ?thesis
      by (simp add: show_nat.simps [of n] parse_digits_append digit_val_digit_char)
  qed
qed

lemma digit_char_range: "d < 10 \<Longrightarrow> 48 \<le> (of_char (digit_char d) :: nat) \<and> (of_char (digit_char d) :: nat) \<le> 57"
  by (simp add: digit_char_def)

lemma show_nat_chars: "c \<in> set (show_nat n) \<Longrightarrow> 48 \<le> (of_char c :: nat) \<and> (of_char c :: nat) \<le> 57"
proof (induction n rule: show_nat.induct)
  case (1 n)
  show ?case
  proof (cases "n < 10")
    case True
    then have "show_nat n = [digit_char n]" by (subst show_nat.simps) simp
    with True "1.prems" digit_char_range [of n] show ?thesis by simp
  next
    case False
    then have "show_nat n = show_nat (n div 10) @ [digit_char (n mod 10)]"
      by (subst show_nat.simps) simp
    with "1.prems" consider "c \<in> set (show_nat (n div 10))" | "c = digit_char (n mod 10)"
      by auto
    then show ?thesis
      by cases (use False "1.IH" digit_char_range [of "n mod 10"] in auto)
  qed
qed

lemma show_nat_nonempty [simp]: "show_nat n \<noteq> []"
  by (subst show_nat.simps) simp

lemma show_nat_first: "show_nat n = c # cs \<Longrightarrow> c \<noteq> CHR ''-'' \<and> c \<noteq> CHR ''+''"
  using show_nat_chars [of c n] by auto

lemma parse_int_show_int: "parse_int (show_int n) = Some n"
proof (cases "n < 0")
  case True
  then show ?thesis
    by (simp add: show_int_def parse_int_def parse_digits_show_nat)
next
  case False
  obtain c cs where c: "show_nat (nat n) = c # cs"
    by (cases "show_nat (nat n)") auto
  with show_nat_first [OF c] parse_digits_show_nat [of "nat n"] False show ?thesis
    by (simp add: show_int_def parse_int_def)
qed

lemma parse_i64_show_i64: "parse_i64 (show_i64 w) = Some w"
proof -
  have "- (2 ^ 63) \<le> sint w \<and> sint w < 2 ^ 63"
    using sint_greater_eq [of w] sint_less [of w] by simp
  then show ?thesis
    by (simp add: parse_i64_def show_i64_def parse_int_show_int)
qed

lemma bar_notin_show_i64: "CHR ''|'' \<notin> set (show_i64 w)"
  using show_nat_chars by (fastforce simp: show_i64_def show_int_def split: if_splits)

lemma split_on_ne: "split_on c xs \<noteq> []"
  by (cases xs) (auto split: list.splits)

lemma split_on_sep: "c \<notin> set a \<Longrightarrow> split_on c (a @ c # b) = a # split_on c b"
  by (induction a) auto

lemma split_on_last: "c \<notin> set a \<Longrightarrow> split_on c a = [a]"
  by (induction a) auto

lemma split_once_sep: "c \<notin> set a \<Longrightarrow> split_once c (a @ c # b) = Some (a, b)"
  by (induction a) auto

section \<open>Ordered maps\<close>

text \<open>A \<open>BTreeMap\<close> as the list of its entries with strictly increasing keys.\<close>

definition bt_ordered :: "('k::linorder \<times> 'v) list \<Rightarrow> bool" where
  "bt_ordered m \<longleftrightarrow> sorted_wrt (<) (map fst m)"

fun bt_insert :: "'k::linorder \<Rightarrow> 'v \<Rightarrow> ('k \<times> 'v) list \<Rightarrow> ('k \<times> 'v) list" where
  "bt_insert k v [] = [(k, v)]"
| "bt_insert k v (e # es) =
     (if k < fst e then (k, v) # e # es
      else if k = fst e then (k, v) # es
      else e # bt_insert k v es)"

definition bt_remove :: "'k \<Rightarrow> ('k \<times> 'v) list \<Rightarrow> ('k \<times> 'v) list" where
  "bt_remove k m = filter (\<lambda>e. fst e \<noteq> k) m"

definition bt_or_insert :: "'k::linorder \<Rightarrow> 'v \<Rightarrow> ('k \<times> 'v) list \<Rightarrow> ('k \<times> 'v) list" where
  "bt_or_insert k v m = (case map_of m k of None \<Rightarrow> bt_insert k v m | Some _ \<Rightarrow> m)"

definition bt_of_entries :: "('k::linorder \<times> 'v) list \<Rightarrow> ('k \<times> 'v) list" where
  "bt_of_entries es = fold (\<lambda>e m. bt_insert (fst e) (snd e) m) es []"

lemma keys_bt_insert: "fst ` set (bt_insert k v m) = insert k (fst ` set m)"
  by (induction m) auto

lemma bt_ordered_insert: "bt_ordered m \<Longrightarrow> bt_ordered (bt_insert k v m)"
proof (induction m)
  case (Cons e es)
  have keys: "fst ` set (bt_insert k v es) = insert k (fst ` set es)"
    by (rule keys_bt_insert)
  show ?case
    using Cons keys by (auto simp: bt_ordered_def image_iff)
qed (simp add: bt_ordered_def)

lemma map_of_bt_insert: "bt_ordered m \<Longrightarrow> map_of (bt_insert k v m) = (map_of m)(k \<mapsto> v)"
proof (induction m)
  case (Cons e es)
  have "map_of es k = None" if "k < fst e"
    using that Cons.prems by (auto simp: bt_ordered_def map_of_eq_None_iff)
  then show ?case
    using Cons by (auto simp: bt_ordered_def fun_eq_iff)
qed simp

lemma bt_insert_last:
  "(\<And>e. e \<in> set m \<Longrightarrow> fst e < k) \<Longrightarrow> bt_insert k v m = m @ [(k, v)]"
proof (induction m)
  case (Cons e es)
  have "fst e < k" using Cons.prems by simp
  then have "\<not> k < fst e" "k \<noteq> fst e" by auto
  then show ?case using Cons by simp
qed simp

lemma bt_fold_ordered:
  "bt_ordered (m @ es) \<Longrightarrow> fold (\<lambda>e m. bt_insert (fst e) (snd e) m) es m = m @ es"
proof (induction es arbitrary: m)
  case (Cons e es)
  have "bt_insert (fst e) (snd e) m = m @ [e]"
    using Cons.prems by (subst bt_insert_last) (auto simp: bt_ordered_def sorted_wrt_append)
  with Cons show ?case by simp
qed simp

lemma bt_of_entries_ordered: "bt_ordered es \<Longrightarrow> bt_of_entries es = es"
  using bt_fold_ordered [of "[]" es] by (simp add: bt_of_entries_def)

lemma bt_ordered_remove: "bt_ordered m \<Longrightarrow> bt_ordered (bt_remove k m)"
  by (simp add: bt_ordered_def bt_remove_def sorted_wrt_map sorted_wrt_filter)

lemma values_bt_insert: "snd ` set (bt_insert k v m) \<subseteq> insert v (snd ` set m)"
  by (induction m) auto

lemma bt_ordered_of_entries: "bt_ordered (bt_of_entries es)"
proof -
  have "bt_ordered m \<Longrightarrow> bt_ordered (fold (\<lambda>e m. bt_insert (fst e) (snd e) m) es m)" for m
    by (induction es arbitrary: m) (auto simp: bt_ordered_insert)
  then show ?thesis by (simp add: bt_of_entries_def bt_ordered_def)
qed

lemma values_bt_of_entries: "snd ` set (bt_of_entries es) \<subseteq> snd ` set es"
proof -
  have "snd ` set (fold (\<lambda>e m. bt_insert (fst e) (snd e) m) es m) \<subseteq> snd ` set m \<union> snd ` set es" for m
  proof (induction es arbitrary: m)
    case (Cons e es)
    from Cons.IH [of "bt_insert (fst e) (snd e) m"] values_bt_insert [of "fst e" "snd e" m]
    show ?case by auto
  qed simp
  from this [of "[]"] show ?thesis by (simp add: bt_of_entries_def)
qed

section \<open>First occurrences\<close>

text \<open>Keeping the first element of each key: a loop that inserts into a set of seen keys.\<close>

fun keep_first :: "('a \<Rightarrow> 'k) \<Rightarrow> 'k set \<Rightarrow> 'a list \<Rightarrow> 'a list" where
  "keep_first key seen [] = []"
| "keep_first key seen (x # xs) =
     (if key x \<in> seen then keep_first key seen xs else x # keep_first key (insert (key x) seen) xs)"

lemma upt_Suc_map: "[0..<Suc n] = 0 # map Suc [0..<n]"
  by (simp add: upt_conv_Cons map_Suc_upt del: upt_Suc)

lemma keep_first_indices:
  "keep_first k seen xs =
     map ((!) xs) (filter (\<lambda>i. k (xs ! i) \<notin> seen \<and> (\<forall>j < i. k (xs ! j) \<noteq> k (xs ! i))) [0..<length xs])"
proof (induction xs arbitrary: seen)
  case Nil
  then show ?case by simp
next
  case (Cons x xs)
  let ?first = "\<lambda>i. \<forall>j < i. k (xs ! j) \<noteq> k (xs ! i)"
  have shift: "filter (\<lambda>i. k ((x # xs) ! i) \<notin> seen \<and> (\<forall>j < i. k ((x # xs) ! j) \<noteq> k ((x # xs) ! i)))
        [0..<length (x # xs)] =
      (if k x \<in> seen then [] else [0]) @
      map Suc (filter (\<lambda>i. k (xs ! i) \<notin> insert (k x) seen \<and> ?first i) [0..<length xs])"
  proof -
    have "(k ((x # xs) ! Suc i) \<notin> seen \<and> (\<forall>j < Suc i. k ((x # xs) ! j) \<noteq> k ((x # xs) ! Suc i)))
        \<longleftrightarrow> k (xs ! i) \<notin> insert (k x) seen \<and> ?first i" for i
      by (auto simp: less_Suc_eq_0_disj)
    then show ?thesis
      by (simp only: list.size(4) add_0_right add_Suc_right One_nat_def upt_Suc_map filter.simps
          filter_map comp_def nth_Cons_0) simp
  qed
  show ?case
    by (simp only: shift) (simp add: Cons.IH insert_absorb comp_def del: insert_iff)
qed

lemma keep_first_keys: "k ` set (keep_first k seen xs) = k ` set xs - seen"
  by (induction xs arbitrary: seen) auto

lemma keep_first_subset: "set (keep_first k seen xs) \<subseteq> set xs"
  by (induction k seen xs rule: keep_first.induct) auto

lemma keep_first_distinct: "distinct (map k (keep_first k seen xs))"
proof (induction xs arbitrary: seen)
  case (Cons x xs)
  have "k x \<notin> k ` set (keep_first k (insert (k x) seen) xs)"
    by (simp add: keep_first_keys)
  with Cons.IH show ?case by simp
qed simp

text \<open>Only the partition of the elements by key matters, not the keys.\<close>

lemma keep_first_same_kernel:
  assumes "\<forall>x \<in> set xs. \<forall>y \<in> set xs. k x = k y \<longleftrightarrow> l x = l y"
  shows "keep_first k {} xs = keep_first l {} xs"
proof -
  have "(\<forall>j < i. k (xs ! j) \<noteq> k (xs ! i)) \<longleftrightarrow> (\<forall>j < i. l (xs ! j) \<noteq> l (xs ! i))" if "i < length xs" for i
    using assms that by simp
  then have "filter (\<lambda>i. \<forall>j < i. k (xs ! j) \<noteq> k (xs ! i)) [0..<length xs] =
      filter (\<lambda>i. \<forall>j < i. l (xs ! j) \<noteq> l (xs ! i)) [0..<length xs]"
    by (intro filter_cong) auto
  then show ?thesis
    by (simp add: keep_first_indices)
qed

end
