(* ===== verification/Wire_Reader.thy ===== *)
theory Wire_Reader
  imports Orchid_Prelude
begin

text \<open>
  The byte reader and the primitive writers of the snapshot format
  (\<open>src/src/ir/catalog/snapshot/binary.rs\<close>: \<open>Reader\<close>, \<open>finish\<close> and the
  \<open>put_*\<close> functions), UTF-8 validity as \<open>String::from_utf8\<close> checks it, and the
  contract every encoder/decoder pair of the format meets: the locale
  \<open>wire_format\<close>, in which round trip, unambiguity, rejection of trailing bytes
  and rejection of truncated input are proved once.  A reader computation has type
  \<open>'a rd\<close>; \<open>rbind\<close> is the sequencing that \<open>?\<close> performs in the source.
\<close>

section \<open>Strings and UTF-8\<close>

definition str_bytes :: "string \<Rightarrow> bytes" where
  "str_bytes s = map (\<lambda>c. of_nat (of_char c)) s"

definition bytes_str :: "bytes \<Rightarrow> string" where
  "bytes_str bs = map (\<lambda>b. char_of (unat b)) bs"

lemma unat_of_char_byte: "unat (of_nat (of_char c) :: u8) = of_char c"
  using nat_of_char_less_256 [of c] by (simp add: unat_of_nat)

lemma bytes_str_str_bytes [simp]: "bytes_str (str_bytes s) = s"
  by (simp add: bytes_str_def str_bytes_def unat_of_char_byte comp_def)

lemma length_str_bytes [simp]: "length (str_bytes s) = length s"
  by (simp add: str_bytes_def)

lemma str_bytes_inject [simp]: "str_bytes s = str_bytes t \<longleftrightarrow> s = t"
  by (metis bytes_str_str_bytes)

definition utf8_cont :: "u8 \<Rightarrow> bool" where
  "utf8_cont b \<longleftrightarrow> 0x80 \<le> b \<and> b \<le> 0xBF"

text \<open>The number of continuation bytes after a lead byte, if the sequence is well formed.\<close>

definition utf8_seq :: "u8 \<Rightarrow> bytes \<Rightarrow> nat option" where
  "utf8_seq b bs =
     (if b < 0x80 then Some 0
      else if 0xC2 \<le> b \<and> b \<le> 0xDF then
        (case bs of c # _ \<Rightarrow> if utf8_cont c then Some 1 else None | _ \<Rightarrow> None)
      else if 0xE0 \<le> b \<and> b \<le> 0xEF then
        (case bs of c # d # _ \<Rightarrow>
           if (if b = 0xE0 then 0xA0 \<le> c \<and> c \<le> 0xBF
               else if b = 0xED then 0x80 \<le> c \<and> c \<le> 0x9F
               else utf8_cont c) \<and> utf8_cont d then Some 2 else None
         | _ \<Rightarrow> None)
      else if 0xF0 \<le> b \<and> b \<le> 0xF4 then
        (case bs of c # d # e # _ \<Rightarrow>
           if (if b = 0xF0 then 0x90 \<le> c \<and> c \<le> 0xBF
               else if b = 0xF4 then 0x80 \<le> c \<and> c \<le> 0x8F
               else utf8_cont c) \<and> utf8_cont d \<and> utf8_cont e then Some 3 else None
         | _ \<Rightarrow> None)
      else None)"

fun utf8_bytes_valid :: "bytes \<Rightarrow> bool" where
  "utf8_bytes_valid [] = True"
| "utf8_bytes_valid (b # bs) =
     (case utf8_seq b bs of None \<Rightarrow> False | Some k \<Rightarrow> utf8_bytes_valid (drop k bs))"

definition utf8_valid :: "string \<Rightarrow> bool" where
  "utf8_valid s \<longleftrightarrow> utf8_bytes_valid (str_bytes s)"

section \<open>Primitive writers\<close>

definition put_u8 :: "u8 \<Rightarrow> bytes" where "put_u8 v = [v]"
definition put_u16 :: "u16 \<Rightarrow> bytes" where "put_u16 v = to_le_bytes v"
definition put_i16 :: "i16 \<Rightarrow> bytes" where "put_i16 v = to_le_bytes v"
definition put_u32 :: "u32 \<Rightarrow> bytes" where "put_u32 v = to_le_bytes v"
definition put_u64 :: "u64 \<Rightarrow> bytes" where "put_u64 v = to_le_bytes v"
definition put_i64 :: "i64 \<Rightarrow> bytes" where "put_i64 v = to_le_bytes v"
definition put_f32 :: "f32 \<Rightarrow> bytes" where "put_f32 v = to_le_bytes v"
definition put_f64 :: "f64 \<Rightarrow> bytes" where "put_f64 v = to_le_bytes v"

definition put_str :: "string \<Rightarrow> bytes" where
  "put_str s = put_u64 (of_nat (length s)) @ str_bytes s"

definition put_bytes :: "bytes \<Rightarrow> bytes" where
  "put_bytes b = put_u64 (of_nat (length b)) @ b"

definition put_str_list :: "string list \<Rightarrow> bytes" where
  "put_str_list xs = put_u64 (of_nat (length xs)) @ concat (map put_str xs)"

section \<open>The reader\<close>

datatype decode_error =
    UnexpectedEnd
  | CountExceedsRemaining
  | InvalidUtf8
  | TrailingBytes
  | UnknownTag u8
  | InvalidCardinality
  | InvalidPayload string
  | OutOfFuel

record reader =
  buf :: bytes
  pos :: nat

type_synonym 'a rd = "reader \<Rightarrow> decode_error + ('a \<times> reader)"

definition new_reader :: "bytes \<Rightarrow> reader" where
  "new_reader b = \<lparr>buf = b, pos = 0\<rparr>"

definition remaining :: "reader \<Rightarrow> nat" where
  "remaining r = length (buf r) - pos r"

definition rd_is_empty :: "reader \<Rightarrow> bool" where
  "rd_is_empty r \<longleftrightarrow> length (buf r) \<le> pos r"

definition rret :: "'a \<Rightarrow> 'a rd" where "rret a r = Inr (a, r)"

definition rfail :: "decode_error \<Rightarrow> 'a rd" where "rfail e r = Inl e"

definition rbind :: "'a rd \<Rightarrow> ('a \<Rightarrow> 'b rd) \<Rightarrow> 'b rd" where
  "rbind p f r = (case p r of Inl e \<Rightarrow> Inl e | Inr (a, r') \<Rightarrow> f a r')"

definition rlift :: "decode_error + 'a \<Rightarrow> 'a rd" where
  "rlift x r = (case x of Inl e \<Rightarrow> Inl e | Inr a \<Rightarrow> Inr (a, r))"

definition rd_take :: "nat \<Rightarrow> bytes rd" where
  "rd_take n r =
     (if remaining r < n then Inl UnexpectedEnd
      else Inr (take n (drop (pos r) (buf r)), r\<lparr>pos := pos r + n\<rparr>))"

definition rd_u8 :: "u8 rd" where
  "rd_u8 = rbind (rd_take 1) (\<lambda>b. rret (hd b))"
definition rd_u16 :: "u16 rd" where
  "rd_u16 = rbind (rd_take 2) (\<lambda>b. rret (from_le_bytes b))"
definition rd_i16 :: "i16 rd" where
  "rd_i16 = rbind (rd_take 2) (\<lambda>b. rret (from_le_bytes b))"
definition rd_u32 :: "u32 rd" where
  "rd_u32 = rbind (rd_take 4) (\<lambda>b. rret (from_le_bytes b))"
definition rd_u64 :: "u64 rd" where
  "rd_u64 = rbind (rd_take 8) (\<lambda>b. rret (from_le_bytes b))"
definition rd_i64 :: "i64 rd" where
  "rd_i64 = rbind (rd_take 8) (\<lambda>b. rret (from_le_bytes b))"
definition rd_f32 :: "f32 rd" where
  "rd_f32 = rbind (rd_take 4) (\<lambda>b. rret (from_le_bytes b))"
definition rd_f64 :: "f64 rd" where
  "rd_f64 = rbind (rd_take 8) (\<lambda>b. rret (from_le_bytes b))"

definition rd_str :: "string rd" where
  "rd_str = rbind rd_u64 (\<lambda>n. rbind (rd_take (unat n)) (\<lambda>b.
     if utf8_bytes_valid b then rret (bytes_str b) else rfail InvalidUtf8))"

definition rd_blob :: "bytes rd" where
  "rd_blob = rbind rd_u64 (\<lambda>n. rd_take (unat n))"

definition rd_count :: "nat rd" where
  "rd_count = rbind rd_u64 (\<lambda>n r.
     if remaining r < unat n then Inl CountExceedsRemaining else Inr (unat n, r))"

text \<open>The \<open>for _ in 0..n\<close> loops that push one decoded item per round.\<close>

primrec rd_many :: "nat \<Rightarrow> 'a rd \<Rightarrow> 'a list rd" where
  "rd_many 0 p = rret []"
| "rd_many (Suc n) p = rbind p (\<lambda>x. rbind (rd_many n p) (\<lambda>xs. rret (x # xs)))"

definition decode_str_list :: "string list rd" where
  "decode_str_list = rbind rd_count (\<lambda>n. rd_many n rd_str)"

definition finish :: "reader \<Rightarrow> decode_error + unit" where
  "finish r = (if rd_is_empty r then Inr () else Inl TrailingBytes)"

text \<open>Decode exactly one item: \<open>Reader::new\<close>, the decoder, \<open>finish\<close>.\<close>

definition decode_exactly :: "'a rd \<Rightarrow> bytes \<Rightarrow> decode_error + 'a" where
  "decode_exactly p data =
     (case p (new_reader data) of
        Inl e \<Rightarrow> Inl e
      | Inr (a, r) \<Rightarrow> (case finish r of Inl e \<Rightarrow> Inl e | Inr _ \<Rightarrow> Inr a))"

section \<open>What a decoder reads\<close>

text \<open>
  \<open>reads p bs a\<close>: wherever the bytes \<open>bs\<close> stand in a buffer, running \<open>p\<close> at
  their start returns \<open>a\<close> and leaves the position just behind them.
  \<open>stable p\<close>: a successful run stays inside the buffer, never moves back, and is
  not changed by bytes appended behind it.
\<close>

definition reads :: "'a rd \<Rightarrow> bytes \<Rightarrow> 'a \<Rightarrow> bool" where
  "reads p bs a \<longleftrightarrow>
     (\<forall>pre post. p \<lparr>buf = pre @ bs @ post, pos = length pre\<rparr>
        = Inr (a, \<lparr>buf = pre @ bs @ post, pos = length pre + length bs\<rparr>))"

definition stable :: "'a rd \<Rightarrow> bool" where
  "stable p \<longleftrightarrow>
     (\<forall>b n a r' ext. n \<le> length b \<longrightarrow> p \<lparr>buf = b, pos = n\<rparr> = Inr (a, r') \<longrightarrow>
        buf r' = b \<and> n \<le> pos r' \<and> pos r' \<le> length b \<and>
        p \<lparr>buf = b @ ext, pos = n\<rparr> = Inr (a, \<lparr>buf = b @ ext, pos = pos r'\<rparr>))"

named_theorems reads_intros \<open>compositional rules for what a decoder reads\<close>
named_theorems stable_intros \<open>compositional rules for stable decoders\<close>

lemma readsD:
  "reads p bs a \<Longrightarrow> p \<lparr>buf = pre @ bs @ post, pos = length pre\<rparr>
     = Inr (a, \<lparr>buf = pre @ bs @ post, pos = length pre + length bs\<rparr>)"
  by (simp add: reads_def)

lemma reads_rret [reads_intros]: "reads (rret a) [] a"
  by (simp add: reads_def rret_def)

lemma reads_rlift [reads_intros]: "x = Inr a \<Longrightarrow> reads (rlift x) [] a"
  by (simp add: reads_def rlift_def)

lemma reads_rbind [reads_intros]:
  assumes p: "reads p bs a" and f: "reads (f a) cs b"
  shows "reads (rbind p f) (bs @ cs) b"
proof -
  have "rbind p f \<lparr>buf = pre @ (bs @ cs) @ post, pos = length pre\<rparr>
      = Inr (b, \<lparr>buf = pre @ (bs @ cs) @ post, pos = length pre + length (bs @ cs)\<rparr>)" for pre post
    using readsD [OF p, of pre "cs @ post"] readsD [OF f, of "pre @ bs" post]
    by (simp add: rbind_def add.assoc)
  then show ?thesis by (simp add: reads_def)
qed

lemma reads_rbind_ret:
  assumes "reads p bs a"
  shows "reads (rbind p (\<lambda>x. rret (f x))) bs (f a)"
  using reads_rbind [OF assms, of "\<lambda>x. rret (f x)" "[]" "f a"] by (simp add: reads_rret)

lemma reads_take [reads_intros]: "n = length bs \<Longrightarrow> reads (rd_take n) bs bs"
  by (simp add: reads_def rd_take_def remaining_def)

lemma reads_u8 [reads_intros]: "reads rd_u8 (put_u8 b) b"
proof -
  have "reads (rd_take 1) [b] [b]"
    by (rule reads_take) simp
  then have "reads rd_u8 [b] (hd [b])"
    unfolding rd_u8_def by (rule reads_rbind_ret)
  then show ?thesis by (simp add: put_u8_def)
qed

lemma reads_le_bytes:
  fixes w :: "'a::len word"
  assumes "8 dvd LENGTH('a)" and "n = LENGTH('a) div 8"
  shows "reads (rbind (rd_take n) (\<lambda>b. rret (from_le_bytes b))) (to_le_bytes w) w"
proof -
  have "reads (rd_take n) (to_le_bytes w) (to_le_bytes w)"
    by (rule reads_take) (simp add: assms)
  from reads_rbind_ret [OF this, of "from_le_bytes :: bytes \<Rightarrow> 'a word"]
  show ?thesis by (simp add: from_to_le_bytes assms)
qed

lemma reads_words [reads_intros]:
  "reads rd_u16 (put_u16 a) a"
  "reads rd_i16 (put_i16 a) a"
  "reads rd_u32 (put_u32 b) b"
  "reads rd_u64 (put_u64 c) c"
  "reads rd_i64 (put_i64 c) c"
  "reads rd_f32 (put_f32 b) b"
  "reads rd_f64 (put_f64 c) c"
  unfolding rd_u16_def rd_i16_def rd_u32_def rd_u64_def rd_i64_def rd_f32_def rd_f64_def
    put_u16_def put_i16_def put_u32_def put_u64_def put_i64_def put_f32_def put_f64_def
  by (rule reads_le_bytes; simp)+

lemma reads_str [reads_intros]:
  assumes "utf8_valid s" and "length s < 2 ^ 64"
  shows "reads rd_str (put_str s) s"
proof -
  have n: "unat (of_nat (length s) :: u64) = length s"
    by (rule unat_of_nat_u64 [OF assms(2)])
  have "reads (rd_take (length s)) (str_bytes s) (str_bytes s)"
    by (rule reads_take) simp
  moreover have "reads (if utf8_bytes_valid (str_bytes s)
      then rret (bytes_str (str_bytes s)) else rfail InvalidUtf8) [] s"
    using assms(1) reads_rret [of s] by (simp add: utf8_valid_def)
  ultimately have "reads (rbind (rd_take (length s)) (\<lambda>b.
      if utf8_bytes_valid b then rret (bytes_str b) else rfail InvalidUtf8))
      (str_bytes s @ []) s"
    by (rule reads_rbind)
  then show ?thesis
    unfolding rd_str_def put_str_def
    by (intro reads_rbind [OF reads_words(4)]) (simp add: n)
qed

lemma reads_blob [reads_intros]:
  assumes "length b < 2 ^ 64"
  shows "reads rd_blob (put_bytes b) b"
  unfolding rd_blob_def put_bytes_def
  by (rule reads_rbind [OF reads_words(4)], rule reads_take)
    (rule unat_of_nat_u64 [OF assms])

lemma reads_count_then:
  assumes f: "reads (f n) cs b" and n: "n < 2 ^ 64" "n \<le> length cs"
  shows "reads (rbind rd_count f) (put_u64 (of_nat n) @ cs) b"
proof -
  have u: "unat (of_nat n :: u64) = n"
    by (rule unat_of_nat_u64 [OF n(1)])
  have "rd_count \<lparr>buf = pre @ put_u64 (of_nat n) @ (cs @ post), pos = length pre\<rparr> =
      Inr (n, \<lparr>buf = pre @ put_u64 (of_nat n) @ (cs @ post),
        pos = length pre + length (put_u64 (of_nat n))\<rparr>)" for pre post
    using readsD [OF reads_words(4), of pre "of_nat n" "cs @ post"] n(2)
    by (simp add: rd_count_def rbind_def u remaining_def)
  then show ?thesis
    using readsD [OF f, of "_ @ put_u64 (of_nat n)"]
    by (simp add: reads_def rbind_def add.assoc)
qed

lemma reads_many [reads_intros]:
  assumes "\<And>x. x \<in> set xs \<Longrightarrow> reads p (e x) x" and "n = length xs"
  shows "reads (rd_many n p) (concat (map e xs)) xs"
  using assms
proof (induction xs arbitrary: n)
  case Nil
  then show ?case by (simp add: reads_rret)
next
  case (Cons x xs)
  have "reads (rd_many (length xs) p) (concat (map e xs)) xs"
    by (rule Cons.IH) (simp_all add: Cons.prems)
  then have "reads (rbind (rd_many (length xs) p) (\<lambda>ys. rret (x # ys))) (concat (map e xs)) (x # xs)"
    by (rule reads_rbind_ret)
  then have "reads (rbind p (\<lambda>x. rbind (rd_many (length xs) p) (\<lambda>ys. rret (x # ys))))
      (e x @ concat (map e xs)) (x # xs)"
    by (intro reads_rbind [where a = x]) (simp_all add: Cons.prems)
  then show ?case
    using Cons.prems by simp
qed

lemma length_put [simp]:
  "length (put_u8 a) = 1" "length (put_u64 b) = 8" "length (put_i64 b) = 8"
  "length (put_str s) = 8 + length s" "length (put_bytes bs) = 8 + length bs"
  by (simp_all add: put_u8_def put_u64_def put_i64_def put_str_def put_bytes_def)

lemma length_concat_ge:
  assumes "\<And>x. x \<in> set xs \<Longrightarrow> 1 \<le> length (e x)"
  shows "length xs \<le> length (concat (map e xs))"
  using assms by (induction xs) fastforce+

lemma reads_str_list:
  assumes "\<And>s. s \<in> set xs \<Longrightarrow> utf8_valid s \<and> length s < 2 ^ 64" and "length xs < 2 ^ 64"
  shows "reads decode_str_list (put_str_list xs) xs"
  unfolding decode_str_list_def put_str_list_def
  by (rule reads_count_then, rule reads_many)
    (use assms in \<open>auto intro: reads_str length_concat_ge\<close>)

section \<open>Stability\<close>

lemma stableD:
  assumes "stable p" "n \<le> length b" "p \<lparr>buf = b, pos = n\<rparr> = Inr (a, r')"
  shows "buf r' = b" "n \<le> pos r'" "pos r' \<le> length b"
    "p \<lparr>buf = b @ ext, pos = n\<rparr> = Inr (a, \<lparr>buf = b @ ext, pos = pos r'\<rparr>)"
  using assms by (auto simp: stable_def)

lemma stable_rret [stable_intros]: "stable (rret a)"
  by (auto simp: stable_def rret_def)

lemma stable_rfail [stable_intros]: "stable (rfail e)"
  by (simp add: stable_def rfail_def)

lemma stable_rlift [stable_intros]: "stable (rlift x)"
  by (auto simp: stable_def rlift_def split: sum.splits)

lemma stable_take [stable_intros]: "stable (rd_take n)"
  by (auto simp: stable_def rd_take_def remaining_def split: if_splits)

lemma stable_rbind [stable_intros]:
  assumes p: "stable p" and f: "\<And>a. stable (f a)"
  shows "stable (rbind p f)"
proof -
  have "buf r' = b \<and> n \<le> pos r' \<and> pos r' \<le> length b \<and>
      rbind p f \<lparr>buf = b @ ext, pos = n\<rparr> = Inr (c, \<lparr>buf = b @ ext, pos = pos r'\<rparr>)"
    if n: "n \<le> length b" and run: "rbind p f \<lparr>buf = b, pos = n\<rparr> = Inr (c, r')" for b n c r' ext
  proof -
    from run obtain a q where a: "p \<lparr>buf = b, pos = n\<rparr> = Inr (a, q)" and fa: "f a q = Inr (c, r')"
      by (auto simp: rbind_def split: sum.splits)
    note pq = stableD [OF p n a]
    have "f a \<lparr>buf = b, pos = pos q\<rparr> = Inr (c, r')"
      using fa pq(1) by (cases q) simp
    note fq = stableD [OF f pq(3) this]
    show ?thesis
      using pq(2) pq(4) [of ext] fq(1-3) fq(4) [of ext] by (simp add: rbind_def)
  qed
  then show ?thesis by (simp add: stable_def)
qed

lemma stable_if [stable_intros]:
  "(c \<Longrightarrow> stable p) \<Longrightarrow> (\<not> c \<Longrightarrow> stable q) \<Longrightarrow> stable (if c then p else q)"
  by simp

lemma stable_many [stable_intros]: "stable p \<Longrightarrow> stable (rd_many n p)"
  by (induction n) (auto intro!: stable_intros)

lemma stable_prims [stable_intros]:
  "stable rd_u8" "stable rd_u16" "stable rd_i16" "stable rd_u32" "stable rd_u64"
  "stable rd_i64" "stable rd_f32" "stable rd_f64" "stable rd_blob" "stable rd_str"
  unfolding rd_u8_def rd_u16_def rd_i16_def rd_u32_def rd_u64_def rd_i64_def rd_f32_def rd_f64_def
    rd_blob_def rd_str_def
  by (intro stable_intros)+

lemma stable_count [stable_intros]: "stable rd_count"
  unfolding rd_count_def
  by (rule stable_rbind [OF stable_prims(5)]) (auto simp: stable_def remaining_def split: if_splits)

lemma stable_str_list [stable_intros]: "stable decode_str_list"
  unfolding decode_str_list_def by (intro stable_intros)

section \<open>Fuel\<close>

text \<open>
  \<open>fueled n p\<close>: on every reader with at most \<open>n\<close> bytes left, \<open>p\<close> does not run out
  of fuel.  \<open>extends p q\<close>: \<open>q\<close> returns whatever \<open>p\<close> returns successfully.
\<close>

definition fueled :: "nat \<Rightarrow> 'a rd \<Rightarrow> bool" where
  "fueled n p \<longleftrightarrow>
     (\<forall>b k. k \<le> length b \<longrightarrow> length b - k \<le> n \<longrightarrow> p \<lparr>buf = b, pos = k\<rparr> \<noteq> Inl OutOfFuel)"

definition extends :: "'a rd \<Rightarrow> 'a rd \<Rightarrow> bool" where
  "extends p q \<longleftrightarrow> (\<forall>r x. p r = Inr x \<longrightarrow> q r = Inr x)"

named_theorems fueled_intros \<open>compositional rules for decoders that do not run out of fuel\<close>
named_theorems extends_intros \<open>compositional rules for decoders given more fuel\<close>

lemma fueled_pure [fueled_intros]:
  "fueled n (rret a)" "e \<noteq> OutOfFuel \<Longrightarrow> fueled n (rfail e)" "fueled n (rd_take k)"
  by (simp_all add: fueled_def rret_def rfail_def rd_take_def)

lemma fueled_rlift [fueled_intros]: "x \<noteq> Inl OutOfFuel \<Longrightarrow> fueled n (rlift x)"
  by (auto simp: fueled_def rlift_def split: sum.splits)

lemma fueled_rbind_step:
  assumes "stable p" "fueled n p" "\<And>a b k r'. k \<le> length b \<Longrightarrow> length b - k \<le> n \<Longrightarrow>
      p \<lparr>buf = b, pos = k\<rparr> = Inr (a, r') \<Longrightarrow> f a \<lparr>buf = b, pos = pos r'\<rparr> \<noteq> Inl OutOfFuel"
  shows "fueled n (rbind p f)"
proof -
  have "rbind p f \<lparr>buf = b, pos = k\<rparr> \<noteq> Inl OutOfFuel" if k: "k \<le> length b" "length b - k \<le> n" for b k
  proof (cases "p \<lparr>buf = b, pos = k\<rparr>")
    case (Inl e)
    then show ?thesis
      using assms(2) k by (auto simp: fueled_def rbind_def)
  next
    case (Inr x)
    obtain a r' where x: "x = (a, r')" by (cases x)
    have "buf r' = b"
      using stableD(1) [OF assms(1) k(1) Inr [unfolded x]] .
    then have "r' = \<lparr>buf = b, pos = pos r'\<rparr>" by (cases r') simp
    then show ?thesis
      using assms(3) [OF k Inr [unfolded x]] by (simp add: rbind_def Inr x)
  qed
  then show ?thesis by (simp add: fueled_def)
qed

lemma fueled_rbind [fueled_intros]:
  assumes "stable p" "fueled n p" "\<And>a. fueled n (f a)"
  shows "fueled n (rbind p f)"
proof (rule fueled_rbind_step [OF assms(1,2)])
  fix a b k r'
  assume k: "k \<le> length b" "length b - k \<le> n" and run: "p \<lparr>buf = b, pos = k\<rparr> = Inr (a, r')"
  have "pos r' \<le> length b \<and> length b - pos r' \<le> n"
    using stableD(2,3) [OF assms(1) k(1) run] k(2) by linarith
  then show "f a \<lparr>buf = b, pos = pos r'\<rparr> \<noteq> Inl OutOfFuel"
    using assms(3) [of a] by (simp add: fueled_def)
qed

lemma fueled_prims [fueled_intros]:
  "fueled n rd_u8" "fueled n rd_u16" "fueled n rd_i16" "fueled n rd_u32" "fueled n rd_u64"
  "fueled n rd_i64" "fueled n rd_f32" "fueled n rd_f64" "fueled n rd_blob"
  unfolding rd_u8_def rd_u16_def rd_i16_def rd_u32_def rd_u64_def rd_i64_def rd_f32_def rd_f64_def
    rd_blob_def
  by (intro fueled_intros stable_intros)+

lemma fueled_str [fueled_intros]: "fueled n rd_str"
  unfolding rd_str_def
  by (intro fueled_intros stable_intros) (simp add: fueled_pure)

lemma fueled_count [fueled_intros]: "fueled n rd_count"
  unfolding rd_count_def
  by (rule fueled_rbind [OF stable_prims(5) fueled_prims(5)]) (simp add: fueled_def)

lemma fueled_many [fueled_intros]: "stable p \<Longrightarrow> fueled n p \<Longrightarrow> fueled n (rd_many m p)"
  by (induction m) (auto intro!: fueled_intros stable_intros)

lemma fueled_str_list [fueled_intros]: "fueled n decode_str_list"
  unfolding decode_str_list_def by (intro fueled_intros stable_intros)

lemma fueled_if [fueled_intros]:
  "(c \<Longrightarrow> fueled n p) \<Longrightarrow> (\<not> c \<Longrightarrow> fueled n q) \<Longrightarrow> fueled n (if c then p else q)"
  by simp

text \<open>Reading a tag byte pays for one unit of fuel.\<close>

lemma fueled_tag:
  assumes "\<And>a. fueled n (f a)"
  shows "fueled (Suc n) (rbind rd_u8 f)"
proof (rule fueled_rbind_step [OF stable_prims(1) fueled_prims(1)])
  fix a b k r'
  assume k: "k \<le> length b" "length b - k \<le> Suc n" and run: "rd_u8 \<lparr>buf = b, pos = k\<rparr> = Inr (a, r')"
  have "pos r' = Suc k" "pos r' \<le> length b"
    using run stableD(3) [OF stable_prims(1) k(1) run]
    by (auto simp: rd_u8_def rbind_def rd_take_def rret_def split: if_splits)
  then show "f a \<lparr>buf = b, pos = pos r'\<rparr> \<noteq> Inl OutOfFuel"
    using assms [of a] k by (simp add: fueled_def)
qed

lemma extends_refl [extends_intros]: "extends p p"
  by (simp add: extends_def)

lemma extends_rbind [extends_intros]:
  assumes "extends p q" "\<And>a. extends (f a) (g a)"
  shows "extends (rbind p f) (rbind q g)"
  using assms by (force simp: extends_def rbind_def split: sum.splits)

lemma extends_many [extends_intros]: "extends p q \<Longrightarrow> extends (rd_many n p) (rd_many n q)"
  by (induction n) (auto intro!: extends_intros)

lemma extends_if [extends_intros]:
  "(c \<Longrightarrow> extends p p') \<Longrightarrow> (\<not> c \<Longrightarrow> extends q q') \<Longrightarrow>
    extends (if c then p else q) (if c then p' else q')"
  by simp

section \<open>What a decoder can return\<close>

text \<open>\<open>yields p P\<close>: whatever \<open>p\<close> returns, from any bytes, satisfies \<open>P\<close>.\<close>

definition yields :: "'a rd \<Rightarrow> ('a \<Rightarrow> bool) \<Rightarrow> bool" where
  "yields p P \<longleftrightarrow> (\<forall>r a r'. p r = Inr (a, r') \<longrightarrow> P a)"

named_theorems yields_intros \<open>compositional rules for what a decoder can return\<close>

lemma yields_any: "yields p (\<lambda>_. True)"
  by (simp add: yields_def)

lemma yields_rret [yields_intros]: "P a \<Longrightarrow> yields (rret a) P"
  by (simp add: yields_def rret_def)

lemma yields_rfail [yields_intros]: "yields (rfail e) P"
  by (simp add: yields_def rfail_def)

lemma yields_if [yields_intros]:
  "(c \<Longrightarrow> yields p P) \<Longrightarrow> (\<not> c \<Longrightarrow> yields q P) \<Longrightarrow> yields (if c then p else q) P"
  by simp

lemma yields_rbind:
  assumes "yields p P" "\<And>a. P a \<Longrightarrow> yields (f a) Q"
  shows "yields (rbind p f) Q"
  using assms by (fastforce simp: yields_def rbind_def split: sum.splits)

lemma yields_many [yields_intros]: "yields p P \<Longrightarrow> yields (rd_many n p) (list_all P)"
proof (induction n)
  case (Suc n)
  then show ?case
    by (auto intro!: yields_rbind [OF Suc.prems] yields_rbind [OF Suc.IH] yields_rret)
qed (simp add: yields_rret)

section \<open>The contract of a wire format\<close>

text \<open>
  An encoder and a decoder that agree on the well-formed values.  Everything a client
  of the format needs follows: decoding returns what was encoded, encodings cannot be
  confused even when more bytes follow, and both trailing and missing bytes are errors.
\<close>

locale wire_format =
  fixes enc :: "'a \<Rightarrow> bytes" and dec :: "'a rd" and ok :: "'a \<Rightarrow> bool"
  assumes reads_enc: "ok a \<Longrightarrow> reads dec (enc a) a"
    and stable_dec: "stable dec"
begin

lemma run_enc:
  assumes "ok a"
  shows "dec \<lparr>buf = enc a @ xs, pos = 0\<rparr> = Inr (a, \<lparr>buf = enc a @ xs, pos = length (enc a)\<rparr>)"
  using readsD [OF reads_enc [OF assms], of "[]" xs] by simp

lemma roundtrip: "ok a \<Longrightarrow> decode_exactly dec (enc a) = Inr a"
  using run_enc [of a "[]"]
  by (simp add: decode_exactly_def new_reader_def finish_def rd_is_empty_def)

lemma trailing_rejected:
  "ok a \<Longrightarrow> xs \<noteq> [] \<Longrightarrow> decode_exactly dec (enc a @ xs) = Inl TrailingBytes"
  using run_enc [of a xs]
  by (simp add: decode_exactly_def new_reader_def finish_def rd_is_empty_def)

lemma unambiguous:
  assumes "ok a" "ok b" "enc a @ xs = enc b @ ys"
  shows "a = b \<and> xs = ys"
  using run_enc [OF assms(1), of xs] run_enc [OF assms(2), of ys] assms(3) by auto

lemma truncated_rejected:
  assumes a: "ok a" and split: "enc a = xs @ ys" and ys: "ys \<noteq> []"
  shows "\<exists>e. decode_exactly dec xs = Inl e"
proof (cases "dec \<lparr>buf = xs, pos = 0\<rparr>")
  case (Inl e)
  then show ?thesis by (simp add: decode_exactly_def new_reader_def)
next
  case (Inr x)
  obtain b r' where x: "x = (b, r')" by (cases x)
  note st = stableD [OF stable_dec _ Inr [unfolded x]]
  have "dec \<lparr>buf = xs @ ys, pos = 0\<rparr> = Inr (b, \<lparr>buf = xs @ ys, pos = pos r'\<rparr>)"
    using st(4) by simp
  then have "pos r' = length (enc a)"
    using run_enc [OF a, of "[]"] split by simp
  moreover have "pos r' \<le> length xs"
    using st(3) by simp
  ultimately show ?thesis
    using split ys by simp
qed

end

interpretation str_format: wire_format put_str rd_str "\<lambda>s. utf8_valid s \<and> length s < 2 ^ 64"
  by unfold_locales (auto intro: reads_str stable_prims)

interpretation str_list_format: wire_format put_str_list decode_str_list
  "\<lambda>xs. (\<forall>s \<in> set xs. utf8_valid s \<and> length s < 2 ^ 64) \<and> length xs < 2 ^ 64"
  by unfold_locales (auto intro: reads_str_list stable_intros)

end
