(* ===== verification/Graph_Values.thy ===== *)
theory Graph_Values
  imports Wire_Reader
begin

text \<open>
  The dynamic value model: Arrow scalars and typed element identities
  (\<open>src/src/ir/identity.rs\<close>), the typed temporal values
  (\<open>src/src/ir/temporal/value.rs\<close>), the \<open>Value\<close> enum and its structural
  queries (\<open>src/src/ir/value.rs\<close>).

  Third-party pieces appear in two ways.  The data types the source pattern matches on
  are datatypes with the constructors the source names; \<open>SV_Other\<close> and \<open>DT_Other\<close>
  stand for the remaining variants of Arrow's enums, with a numeral for the payload.
  The third-party functions the source calls (Arrow IPC, decimal and big-integer text,
  chrono formatting and parsing) are the fields of the record \<open>value_lib\<close>, an
  argument of every definition that uses them.
\<close>

section \<open>Arrow types and scalars\<close>

datatype (plugins only: code size) data_type =
    DT_Null | DT_Boolean
  | DT_Int8 | DT_Int16 | DT_Int32 | DT_Int64
  | DT_UInt8 | DT_UInt16 | DT_UInt32 | DT_UInt64
  | DT_Float16 | DT_Float32 | DT_Float64
  | DT_Utf8 | DT_LargeUtf8 | DT_Utf8View
  | DT_Binary | DT_LargeBinary | DT_BinaryView | DT_FixedSizeBinary i32
  | DT_Decimal32 u8 i8 | DT_Decimal64 u8 i8 | DT_Decimal128 u8 i8 | DT_Decimal256 u8 i8
  | DT_Date32 | DT_Date64 | DT_Timestamp nat | DT_Time32 nat | DT_Time64 nat
  | DT_Duration nat | DT_Interval nat
  | DT_Dictionary data_type data_type
  | DT_Struct "(string \<times> data_type) list"
  | DT_Other nat

text \<open>
  \<open>SV_Null t\<close> is a \<open>None\<close> payload of type \<open>t\<close>; \<open>SV_Struct n nul cs\<close> a
  struct array of \<open>n\<close> rows whose row 0 is null iff \<open>nul\<close>, with the value of each
  column at row 0.
\<close>

datatype (plugins only: code size) scalar_value =
    SV_Null data_type
  | SV_Boolean bool
  | SV_Int8 i8 | SV_Int16 i16 | SV_Int32 i32 | SV_Int64 i64
  | SV_UInt8 u8 | SV_UInt16 u16 | SV_UInt32 u32 | SV_UInt64 u64
  | SV_Float32 f32 | SV_Float64 f64
  | SV_Utf8 string | SV_LargeUtf8 string | SV_Utf8View string
  | SV_Date32 i32
  | SV_Struct nat bool "(string \<times> scalar_value) list"
  | SV_Other data_type nat

fun sv_data_type :: "scalar_value \<Rightarrow> data_type" where
  "sv_data_type (SV_Null t) = t"
| "sv_data_type (SV_Boolean _) = DT_Boolean"
| "sv_data_type (SV_Int8 _) = DT_Int8"
| "sv_data_type (SV_Int16 _) = DT_Int16"
| "sv_data_type (SV_Int32 _) = DT_Int32"
| "sv_data_type (SV_Int64 _) = DT_Int64"
| "sv_data_type (SV_UInt8 _) = DT_UInt8"
| "sv_data_type (SV_UInt16 _) = DT_UInt16"
| "sv_data_type (SV_UInt32 _) = DT_UInt32"
| "sv_data_type (SV_UInt64 _) = DT_UInt64"
| "sv_data_type (SV_Float32 _) = DT_Float32"
| "sv_data_type (SV_Float64 _) = DT_Float64"
| "sv_data_type (SV_Utf8 _) = DT_Utf8"
| "sv_data_type (SV_LargeUtf8 _) = DT_LargeUtf8"
| "sv_data_type (SV_Utf8View _) = DT_Utf8View"
| "sv_data_type (SV_Date32 _) = DT_Date32"
| "sv_data_type (SV_Struct _ _ cs) = DT_Struct (map (\<lambda>c. (fst c, sv_data_type (snd c))) cs)"
| "sv_data_type (SV_Other t _) = t"

definition sv_is_null :: "scalar_value \<Rightarrow> bool" where
  "sv_is_null v = (case v of SV_Null _ \<Rightarrow> True | SV_Struct _ nul _ \<Rightarrow> nul | _ \<Rightarrow> False)"

fun is_integer_type :: "data_type \<Rightarrow> bool" where
  "is_integer_type t =
     (t \<in> {DT_Int8, DT_Int16, DT_Int32, DT_Int64, DT_UInt8, DT_UInt16, DT_UInt32, DT_UInt64})"

fun is_scalar_identity_type :: "data_type \<Rightarrow> bool" where
  "is_scalar_identity_type (DT_Dictionary _ t) = is_scalar_identity_type t"
| "is_scalar_identity_type (DT_FixedSizeBinary _) = True"
| "is_scalar_identity_type (DT_Decimal32 _ _) = True"
| "is_scalar_identity_type (DT_Decimal64 _ _) = True"
| "is_scalar_identity_type (DT_Decimal128 _ _) = True"
| "is_scalar_identity_type (DT_Decimal256 _ _) = True"
| "is_scalar_identity_type (DT_Timestamp _) = True"
| "is_scalar_identity_type (DT_Time32 _) = True"
| "is_scalar_identity_type (DT_Time64 _) = True"
| "is_scalar_identity_type (DT_Duration _) = True"
| "is_scalar_identity_type (DT_Interval _) = True"
| "is_scalar_identity_type t =
     (is_integer_type t \<or>
      t \<in> {DT_Boolean, DT_Float16, DT_Float32, DT_Float64, DT_Utf8, DT_LargeUtf8, DT_Utf8View,
           DT_Binary, DT_LargeBinary, DT_BinaryView, DT_Date32, DT_Date64})"

text \<open>A sparse union of identities: every field name carries the reserved prefix.\<close>

definition is_identity_union :: "data_type \<Rightarrow> bool" where
  "is_identity_union t =
     (case t of
        DT_Struct fs \<Rightarrow> fs \<noteq> [] \<and> list_all (\<lambda>f. prefix ''__orchid_key_'' (fst f)) fs
      | _ \<Rightarrow> False)"

section \<open>Element identities\<close>

datatype element_id = ElementId (eid_scalar: scalar_value)

definition bad_component :: "scalar_value \<Rightarrow> bool" where
  "bad_component v \<longleftrightarrow> sv_is_null v \<or> \<not> is_scalar_identity_type (sv_data_type v)"

text \<open>\<open>ElementId::from_components\<close> on two or more components: a struct with fields \<open>k0, k1, \<dots>\<close>.\<close>

definition composite_id :: "scalar_value list \<Rightarrow> string + element_id" where
  "composite_id vs =
     (if list_ex bad_component vs
      then Inl ''composite identity components must be non-null scalars''
      else Inr (ElementId (SV_Struct 1 False
             (map (\<lambda>(i, v). (CHR ''k'' # show_nat i, v)) (enumerate 0 vs)))))"

lemma size_struct_column:
  "c \<in> set cs \<Longrightarrow> size (snd c) < size (SV_Struct n nul cs)"
  by (induction cs) auto

function element_new :: "scalar_value \<Rightarrow> string + element_id" where
  "element_new v =
     (case v of
        SV_Struct n nul cs \<Rightarrow>
          if n \<noteq> 1 \<or> nul then Inl ''element identity cannot be null''
          else if is_identity_union (sv_data_type v) then
            (case filter (\<lambda>x. \<not> sv_is_null x) (map snd cs) of
               [] \<Rightarrow> Inl ''null element identity''
             | [key] \<Rightarrow> element_new key
             | _ \<Rightarrow> Inl ''ambiguous identity union'')
          else (case map snd cs of
               [] \<Rightarrow> Inl ''element identity cannot be empty''
             | [key] \<Rightarrow> element_new key
             | vs \<Rightarrow> composite_id vs)
      | _ \<Rightarrow>
          if bad_component v then Inl ''element identity requires non-null scalar components''
          else Inr (ElementId v))"
  by pat_completeness auto
termination
proof (relation "measure size", goal_cases)
  case 1
  then show ?case by simp
next
  case (2 v n nul cs key)
  then have "key \<in> set (filter (\<lambda>x. \<not> sv_is_null x) (map snd cs))"
    by (metis list.set_intros(1))
  then have "key \<in> set (map snd cs)" by auto
  with 2 show ?case by (auto dest: size_struct_column)
next
  case (3 v n nul cs key)
  then have "key \<in> set (map snd cs)"
    by (metis list.set_intros(1))
  with 3 show ?case by (auto dest: size_struct_column)
qed

declare element_new.simps [simp del]

definition element_from_components :: "scalar_value list \<Rightarrow> string + element_id" where
  "element_from_components vs =
     (case vs of
        [] \<Rightarrow> Inl ''element identity cannot be empty''
      | [v] \<Rightarrow> element_new v
      | _ \<Rightarrow> composite_id vs)"

definition eid_components :: "element_id \<Rightarrow> scalar_value list" where
  "eid_components e =
     (case eid_scalar e of SV_Struct _ _ cs \<Rightarrow> map snd cs | v \<Rightarrow> [v])"

definition eid_as_i64 :: "element_id \<Rightarrow> i64 option" where
  "eid_as_i64 e = (case eid_scalar e of SV_Int64 n \<Rightarrow> Some n | _ \<Rightarrow> None)"

definition eid_of_i64 :: "i64 \<Rightarrow> element_id" where
  "eid_of_i64 n = ElementId (SV_Int64 n)"

text \<open>The identities the constructors produce: \<open>ElementId::new\<close> accepts their scalar unchanged.\<close>

definition eid_ok :: "element_id \<Rightarrow> bool" where
  "eid_ok e \<longleftrightarrow> element_new (eid_scalar e) = Inr e"

section \<open>Temporal values\<close>

text \<open>
  chrono's naive dates and times by the components the source reads; a zoned datetime is
  its local date and time, its offset in seconds and the optional zone name.  Equality of
  \<open>TemporalValue\<close> compares the constructor and every component, so it is equality here.
\<close>

record naive_date =
  nd_year :: int
  nd_month :: nat
  nd_day :: nat

record naive_time =
  nt_secs :: nat
  nt_nanos :: nat

record calendar_date =
  cd_year :: int
  cd_month :: nat
  cd_day :: nat

datatype (plugins only: code size) temporal =
    T_Date naive_date
  | T_WideDate calendar_date
  | T_LocalTime naive_time
  | T_Time naive_time int
  | T_LocalDateTime naive_date naive_time
  | T_WideLocalDateTime calendar_date naive_time
  | T_DateTime naive_date naive_time int "string option"
  | T_Duration i64 i64 i64 i32

definition temporal_kind :: "temporal \<Rightarrow> string" where
  "temporal_kind t =
     (case t of
        T_Date _ \<Rightarrow> ''date'' | T_WideDate _ \<Rightarrow> ''date''
      | T_LocalTime _ \<Rightarrow> ''localtime'' | T_Time _ _ \<Rightarrow> ''time''
      | T_LocalDateTime _ _ \<Rightarrow> ''localdatetime'' | T_WideLocalDateTime _ _ \<Rightarrow> ''localdatetime''
      | T_DateTime _ _ _ _ \<Rightarrow> ''datetime''
      | T_Duration _ _ _ _ \<Rightarrow> ''duration'')"

section \<open>Values\<close>

text \<open>
  A \<open>BigDecimal\<close> is its unscaled integer and its scale; a \<open>BTreeMap\<close> the list of its
  entries in key order.
\<close>

datatype (plugins only: code size) val =
    V_Scalar scalar_value
  | V_Null
  | V_Bool bool
  | V_Byte i8 | V_UInt8 u8 | V_Short i16 | V_UInt16 u16
  | V_Int i64 | V_UInt32 u32 | V_Long i64 | V_UInt64 u64
  | V_Float32 f32 | V_Float f64
  | V_BigInt int | V_UInt128 int | V_BigDecimal int int
  | V_DateTime string
  | V_Temporal temporal
  | V_InternalId i64 i64
  | V_String string
  | V_Node string element_id
  | V_Edge string element_id string element_id string element_id "string list option"
  | V_VertexProperty i64 val string val
  | V_Property val string val
  | V_List "val list"
  | V_Set "val list"
  | V_Map "(string \<times> val) list"
  | V_TypedMap "(val \<times> val) list"
  | V_MapEntry val val
  | V_CardinalityValue string val
  | V_BulkSet "val list"
  | V_Token string
  | V_Direction string
  | V_Path "val list"

text \<open>The third-party operations the value layer calls.\<close>

record value_lib =
  scalar_ipc :: "scalar_value \<Rightarrow> bytes"
  scalar_of_ipc :: "bytes \<Rightarrow> scalar_value option"
  bigint_text :: "int \<Rightarrow> string"
  bigint_of_text :: "string \<Rightarrow> int option"
  bigint_signed_bytes :: "int \<Rightarrow> bytes"
  decimal_text :: "int \<Rightarrow> int \<Rightarrow> string"
  decimal_of_text :: "string \<Rightarrow> (int \<times> int) option"
  decimal_same :: "int \<Rightarrow> int \<Rightarrow> int \<Rightarrow> int \<Rightarrow> bool"
  temporal_display :: "temporal \<Rightarrow> string"
  temporal_parse :: "string \<Rightarrow> string \<Rightarrow> string + temporal"

text \<open>\<open>TemporalValue::encode\<close> and \<open>decode\<close>: durations field by field, the rest through their display text.\<close>

definition temporal_encode :: "value_lib \<Rightarrow> temporal \<Rightarrow> string" where
  "temporal_encode L t =
     (case t of
        T_Duration months days seconds nanos \<Rightarrow>
          ''duration|'' @ show_i64 months @ ''|'' @ show_i64 days @ ''|'' @ show_i64 seconds
            @ ''|'' @ show_i64 (scast nanos)
      | _ \<Rightarrow> temporal_kind t @ ''|'' @ temporal_display L t)"

definition temporal_decode :: "value_lib \<Rightarrow> string \<Rightarrow> string + temporal" where
  "temporal_decode L text =
     (case split_once (CHR ''|'') text of
        None \<Rightarrow> Inl ''Invalid temporal payload''
      | Some (kind, payload) \<Rightarrow>
          if kind = ''duration'' then
            (case those (map parse_i64 (split_on (CHR ''|'') payload)) of
               None \<Rightarrow> Inl ''invalid integer''
             | Some parts \<Rightarrow>
                 (case parts of
                    [months, days, seconds, nanos] \<Rightarrow>
                      if - (2 ^ 31) \<le> sint nanos \<and> sint nanos < 2 ^ 31
                      then Inr (T_Duration months days seconds (scast nanos))
                      else Inl ''out of range''
                  | _ \<Rightarrow> Inl ''Invalid duration payload''))
          else temporal_parse L kind payload)"

text \<open>What the code relies on from chrono's formatting and from \<open>parse\<close>: they are inverse on \<open>t\<close>.\<close>

definition temporal_ok :: "value_lib \<Rightarrow> temporal \<Rightarrow> bool" where
  "temporal_ok L t \<longleftrightarrow>
     (case t of T_Duration _ _ _ _ \<Rightarrow> True
      | _ \<Rightarrow> temporal_parse L (temporal_kind t) (temporal_display L t) = Inr t)"

lemma sint_scast_i32: "sint (scast (n :: i32) :: i64) = sint n"
  by (rule sint_up_scast) (simp add: is_up)

lemma scast_scast_i32: "scast (scast (n :: i32) :: i64) = n"
  by (subst scast_eq) (simp add: sint_scast_i32)

lemma duration_decode_encode:
  "temporal_decode L (temporal_encode L (T_Duration m d s n)) = Inr (T_Duration m d s n)"
proof -
  have bounds: "- (2 ^ 31) \<le> sint n \<and> sint n < 2 ^ 31"
    using sint_greater_eq [of n] sint_less [of n] by simp
  have once: "split_once (CHR ''|'') (''duration|'' @ rest) = Some (''duration'', rest)" for rest
    using split_once_sep [of "CHR ''|''" "''duration''" rest] by simp
  have "split_on (CHR ''|'') (show_i64 m @ ''|'' @ show_i64 d @ ''|'' @ show_i64 s @ ''|'' @
      show_i64 (scast n)) = [show_i64 m, show_i64 d, show_i64 s, show_i64 (scast n)]"
    by (simp add: split_on_sep split_on_last bar_notin_show_i64)
  then show ?thesis
    using bounds once
    by (simp add: temporal_decode_def temporal_encode_def parse_i64_show_i64 sint_scast_i32 scast_scast_i32)
qed

lemma temporal_decode_encode:
  assumes "temporal_ok L t"
  shows "temporal_decode L (temporal_encode L t) = Inr t"
proof (cases "\<exists>m d s n. t = T_Duration m d s n")
  case True
  then show ?thesis using duration_decode_encode by auto
next
  case False
  then have enc: "temporal_encode L t = temporal_kind t @ CHR ''|'' # temporal_display L t"
    and parse: "temporal_parse L (temporal_kind t) (temporal_display L t) = Inr t"
    and kind: "CHR ''|'' \<notin> set (temporal_kind t)" "temporal_kind t \<noteq> ''duration''"
    using assms by (cases t; simp add: temporal_encode_def temporal_ok_def temporal_kind_def)+
  show ?thesis
    by (simp add: temporal_decode_def enc split_once_sep [OF kind(1)] kind(2) parse)
qed

lemma size_val_list: "v \<in> set vs \<Longrightarrow> size v < Suc (size_list size vs)"
  by (induction vs) auto

lemma size_val_map:
  "p \<in> set m \<Longrightarrow> size (snd p) < Suc (size_list (size_prod (\<lambda>_. 0) size) m)"
  by (induction m) auto

lemma size_val_entries:
  "p \<in> set m \<Longrightarrow> size (fst p) < Suc (size_list (size_prod size size) m)"
  "p \<in> set m \<Longrightarrow> size (snd p) < Suc (size_list (size_prod size size) m)"
  by (induction m) auto

function (sequential) contains_cardinality_value :: "val \<Rightarrow> bool" where
  "contains_cardinality_value (V_CardinalityValue _ _) = True"
| "contains_cardinality_value (V_List xs) = list_ex contains_cardinality_value xs"
| "contains_cardinality_value (V_Set xs) = list_ex contains_cardinality_value xs"
| "contains_cardinality_value (V_BulkSet xs) = list_ex contains_cardinality_value xs"
| "contains_cardinality_value (V_Path xs) = list_ex contains_cardinality_value xs"
| "contains_cardinality_value (V_Map m) = list_ex (\<lambda>p. contains_cardinality_value (snd p)) m"
| "contains_cardinality_value (V_TypedMap m) =
     list_ex (\<lambda>p. contains_cardinality_value (fst p) \<or> contains_cardinality_value (snd p)) m"
| "contains_cardinality_value (V_MapEntry k x) =
     (contains_cardinality_value k \<or> contains_cardinality_value x)"
| "contains_cardinality_value (V_VertexProperty _ _ _ x) = contains_cardinality_value x"
| "contains_cardinality_value (V_Property _ _ x) = contains_cardinality_value x"
| "contains_cardinality_value _ = False"
  by pat_completeness auto
termination
  by (relation "measure size") (auto simp: size_val_list size_val_map size_val_entries)

section \<open>A concrete library\<close>

text \<open>
  One instance of the third-party operations, used where a statement is exhibited on
  concrete data: integers and decimals by their decimal text, text scalars by their
  bytes, and temporal values other than durations not parsed.
\<close>

definition text_lib :: value_lib where
  "text_lib = \<lparr>
     scalar_ipc = (\<lambda>v. case v of SV_Utf8 s \<Rightarrow> str_bytes s | _ \<Rightarrow> []),
     scalar_of_ipc = (\<lambda>b. Some (SV_Utf8 (bytes_str b))),
     bigint_text = show_int,
     bigint_of_text = parse_int,
     bigint_signed_bytes = (\<lambda>n. str_bytes (show_int n)),
     decimal_text = (\<lambda>n s. show_int n @ ''e'' @ show_int s),
     decimal_of_text = (\<lambda>t. case split_once (CHR ''e'') t of
        None \<Rightarrow> None
      | Some (a, b) \<Rightarrow> (case (parse_int a, parse_int b) of (Some n, Some s) \<Rightarrow> Some (n, s) | _ \<Rightarrow> None)),
     decimal_same = (\<lambda>a s b t. a * 10 ^ nat t = b * 10 ^ nat s),
     temporal_display = (\<lambda>_. []),
     temporal_parse = (\<lambda>_ _. Inl ''unsupported'')\<rparr>"

end
