(* ===== verification/Value_Identity.thy ===== *)
theory Value_Identity
  imports Graph_Values
begin

text \<open>
  Typed identity of values (\<open>src/src/ir/value.rs\<close>: \<open>set_member_key\<close>,
  \<open>gremlin_set\<close>, \<open>set_eq\<close>, \<open>PartialEq for Value\<close>) and of element keys
  (\<open>src/src/ir/identity.rs\<close>: \<open>encode\<close>, \<open>decode\<close>).  The byte key of a value
  decides an abstract identity \<open>ident_of\<close>: atoms, sequences, and bags for the
  unordered containers.
\<close>

section \<open>Floating-point bit patterns\<close>

unbundle bit_operations_syntax

definition f64_is_nan :: "f64 \<Rightarrow> bool" where
  "f64_is_nan w \<longleftrightarrow> 0x7FF0000000000000 < w AND 0x7FFFFFFFFFFFFFFF"

definition f32_is_nan :: "f32 \<Rightarrow> bool" where
  "f32_is_nan w \<longleftrightarrow> 0x7F800000 < w AND 0x7FFFFFFF"

text \<open>IEEE equality: a NaN equals nothing, the two zeros are equal.\<close>

definition f64_eq :: "f64 \<Rightarrow> f64 \<Rightarrow> bool" where
  "f64_eq a b \<longleftrightarrow> \<not> f64_is_nan a \<and> \<not> f64_is_nan b \<and>
     (a = b \<or> (a AND 0x7FFFFFFFFFFFFFFF = 0 \<and> b AND 0x7FFFFFFFFFFFFFFF = 0))"

definition f32_eq :: "f32 \<Rightarrow> f32 \<Rightarrow> bool" where
  "f32_eq a b \<longleftrightarrow> \<not> f32_is_nan a \<and> \<not> f32_is_nan b \<and>
     (a = b \<or> (a AND 0x7FFFFFFF = 0 \<and> b AND 0x7FFFFFFF = 0))"

definition canonical_f64 :: "f64 \<Rightarrow> f64" where
  "canonical_f64 w = (if f64_is_nan w then 0x7FF8000000000000 else w)"

definition canonical_f32 :: "f32 \<Rightarrow> f32" where
  "canonical_f32 w = (if f32_is_nan w then 0x7FC00000 else w)"

section \<open>Element keys\<close>

definition eid_encode :: "value_lib \<Rightarrow> element_id \<Rightarrow> bytes" where
  "eid_encode L e =
     (case eid_as_i64 e of
        Some n \<Rightarrow> 0 # to_le_bytes n
      | None \<Rightarrow> 1 # scalar_ipc L (eid_scalar e))"

definition eid_decode :: "value_lib \<Rightarrow> bytes \<Rightarrow> string + element_id" where
  "eid_decode L bs =
     (case bs of
        [] \<Rightarrow> Inl ''invalid key encoding''
      | b # rest \<Rightarrow>
          if b = 0 \<and> length bs = 9 then Inr (eid_of_i64 (from_le_bytes rest))
          else if b = 1 then
            (case scalar_of_ipc L rest of
               None \<Rightarrow> Inl ''invalid scalar key batch''
             | Some v \<Rightarrow> element_new v)
          else Inl ''invalid key encoding'')"

text \<open>The Arrow IPC stream of a one-row batch decodes to the scalar it was written from.\<close>

definition ipc_ok :: "value_lib \<Rightarrow> scalar_value \<Rightarrow> bool" where
  "ipc_ok L v \<longleftrightarrow> scalar_of_ipc L (scalar_ipc L v) = Some v"

lemma eid_decode_encode:
  assumes "eid_ok e" and "eid_as_i64 e = None \<Longrightarrow> ipc_ok L (eid_scalar e)"
  shows "eid_decode L (eid_encode L e) = Inr e"
proof (cases "eid_as_i64 e")
  case None
  then show ?thesis
    using assms by (simp add: eid_decode_def eid_encode_def ipc_ok_def eid_ok_def)
next
  case (Some n)
  then have "e = eid_of_i64 n"
    by (cases e) (auto simp: eid_as_i64_def eid_of_i64_def split: scalar_value.splits)
  then show ?thesis
    using Some by (simp add: eid_decode_def eid_encode_def byte_simps)
qed

lemma eid_ok_of_i64 [simp]: "eid_ok (eid_of_i64 n)"
  by (simp add: eid_ok_def eid_of_i64_def element_new.simps bad_component_def sv_is_null_def)

section \<open>Framing\<close>

definition framed :: "u8 \<Rightarrow> bytes list \<Rightarrow> bytes" where
  "framed tag parts = tag # concat (map (\<lambda>p. be_len p @ p) parts)"

lemma framed_concat_inject:
  assumes "concat (map (\<lambda>p. be_len p @ p) ps) = concat (map (\<lambda>p. be_len p @ p) qs)"
    and "\<forall>p \<in> set ps. length p < 2 ^ 64" and "\<forall>q \<in> set qs. length q < 2 ^ 64"
  shows "ps = qs"
  using assms
proof (induction ps arbitrary: qs)
  case Nil
  then show ?case by (cases qs) auto
next
  case (Cons p ps)
  then obtain q qs' where qs: "qs = q # qs'"
    by (cases qs) auto
  from Cons.prems(1) have eq: "be_len p @ (p @ concat (map (\<lambda>p. be_len p @ p) ps)) =
      be_len q @ (q @ concat (map (\<lambda>p. be_len p @ p) qs'))"
    by (simp add: qs)
  then have "be_len p = be_len q"
    and rest: "p @ concat (map (\<lambda>p. be_len p @ p) ps) = q @ concat (map (\<lambda>p. be_len p @ p) qs')"
    by (simp_all add: append_eq_append_conv)
  then have len: "length p = length q"
    using Cons.prems(2,3) be_len_inject by (auto simp: qs)
  with rest have pq: "p = q" and "concat (map (\<lambda>p. be_len p @ p) ps) = concat (map (\<lambda>p. be_len p @ p) qs')"
    by (simp_all add: append_eq_append_conv)
  then have "ps = qs'"
    using Cons.IH Cons.prems(2,3) qs by simp
  with pq qs show ?case by simp
qed

lemma length_part_framed: "p \<in> set parts \<Longrightarrow> length p < length (framed tag parts)"
  by (induction parts) (auto simp: framed_def)

lemma framed_inject:
  assumes "length (framed t ps) < 2 ^ 64" "length (framed u qs) < 2 ^ 64"
  shows "framed t ps = framed u qs \<longleftrightarrow> t = u \<and> ps = qs"
proof
  assume eq: "framed t ps = framed u qs"
  have "length p < 2 ^ 64" if "p \<in> set ps" for p
    using length_part_framed [OF that, of t] assms(1) by linarith
  moreover have "length q < 2 ^ 64" if "q \<in> set qs" for q
    using length_part_framed [OF that, of u] assms(2) by linarith
  ultimately have "ps = qs"
    using eq by (intro framed_concat_inject) (auto simp: framed_def)
  with eq show "t = u \<and> ps = qs" by (simp add: framed_def)
qed simp

section \<open>The member key\<close>

definition map_key :: "bytes list \<Rightarrow> bytes" where
  "map_key pairs = framed 8 (sort pairs)"

function (sequential) set_member_key :: "value_lib \<Rightarrow> val \<Rightarrow> bytes" where
  "set_member_key L (V_Scalar s) = framed 35 [scalar_ipc L s]"
| "set_member_key L V_Null = [0]"
| "set_member_key L (V_Bool b) = framed 1 [[if b then 1 else 0]]"
| "set_member_key L (V_Byte n) = framed 12 [[n]]"
| "set_member_key L (V_UInt8 n) = framed 18 [[n]]"
| "set_member_key L (V_Short n) = framed 13 [to_be_bytes n]"
| "set_member_key L (V_UInt16 n) = framed 19 [to_be_bytes n]"
| "set_member_key L (V_Int n) = framed 2 [to_be_bytes n]"
| "set_member_key L (V_UInt32 n) = framed 20 [to_be_bytes n]"
| "set_member_key L (V_Long n) = framed 14 [to_be_bytes n]"
| "set_member_key L (V_UInt64 n) = framed 21 [to_be_bytes n]"
| "set_member_key L (V_Float32 x) = framed 15 [to_be_bytes (canonical_f32 x)]"
| "set_member_key L (V_Float x) = framed 3 [to_be_bytes (canonical_f64 x)]"
| "set_member_key L (V_BigInt n) = framed 10 [bigint_signed_bytes L n]"
| "set_member_key L (V_UInt128 n) = framed 22 [bigint_signed_bytes L n]"
| "set_member_key L (V_BigDecimal n scale) =
     framed 11 [bigint_signed_bytes L n, to_be_bytes (of_int scale :: i64)]"
| "set_member_key L (V_String s) = framed 4 [str_bytes s]"
| "set_member_key L (V_DateTime s) = framed 16 [str_bytes s]"
| "set_member_key L (V_Temporal t) = framed 30 [str_bytes (temporal_encode L t)]"
| "set_member_key L (V_Token s) = framed 24 [str_bytes s]"
| "set_member_key L (V_Direction s) = framed 25 [str_bytes s]"
| "set_member_key L (V_InternalId table offset) = framed 17 [to_be_bytes table, to_be_bytes offset]"
| "set_member_key L (V_Node label e) = framed 5 [str_bytes label, eid_encode L e]"
| "set_member_key L (V_Edge rel e _ _ _ _ _) = framed 6 [str_bytes rel, eid_encode L e]"
| "set_member_key L (V_VertexProperty n _ _ _) = framed 0x40 [to_be_bytes n]"
| "set_member_key L (V_Property _ key v) = framed 0x41 [str_bytes key, set_member_key L v]"
| "set_member_key L (V_List xs) = framed 7 (map (set_member_key L) xs)"
| "set_member_key L (V_Path xs) = framed 9 (map (set_member_key L) xs)"
| "set_member_key L (V_Set xs) = framed 28 (sort (map (set_member_key L) xs))"
| "set_member_key L (V_BulkSet xs) = framed 26 (sort (map (set_member_key L) xs))"
| "set_member_key L (V_CardinalityValue c v) = framed 29 [str_bytes c, set_member_key L v]"
| "set_member_key L (V_MapEntry k v) = framed 27 [set_member_key L k, set_member_key L v]"
| "set_member_key L (V_Map m) =
     map_key (map (\<lambda>p. framed 27 [framed 4 [str_bytes (fst p)], set_member_key L (snd p)]) m)"
| "set_member_key L (V_TypedMap m) =
     map_key (map (\<lambda>p. framed 27 [set_member_key L (fst p), set_member_key L (snd p)]) m)"
  by pat_completeness auto
termination
  by (relation "measure (\<lambda>(L, v). size v)") (auto simp: size_val_list size_val_map size_val_entries)

text \<open>\<open>gremlin_set\<close>: keep the first member of each key, in encounter order.\<close>

fun gremlin_set_loop :: "value_lib \<Rightarrow> bytes set \<Rightarrow> val list \<Rightarrow> val list" where
  "gremlin_set_loop L seen [] = []"
| "gremlin_set_loop L seen (x # xs) =
     (let k = set_member_key L x in
      if k \<in> seen then gremlin_set_loop L seen xs
      else x # gremlin_set_loop L (insert k seen) xs)"

definition gremlin_set :: "value_lib \<Rightarrow> val list \<Rightarrow> val" where
  "gremlin_set L xs = V_Set (gremlin_set_loop L {} xs)"

definition as_gremlin_set :: "val \<Rightarrow> val list option" where
  "as_gremlin_set v = (case v of V_Set xs \<Rightarrow> Some xs | _ \<Rightarrow> None)"

definition set_eq :: "value_lib \<Rightarrow> val list \<Rightarrow> val list \<Rightarrow> bool" where
  "set_eq L left right \<longleftrightarrow>
     length left = length right \<and>
     sort (map (set_member_key L) left) = sort (map (set_member_key L) right)"

section \<open>Abstract identity\<close>

datatype (plugins only: code size) ident =
    IdAtom u8 "bytes list"
  | IdSeq u8 "ident list"
  | IdTagged u8 bytes ident
  | IdBag u8 "ident multiset"
  | IdRaw bytes

primrec key_of_ident :: "ident \<Rightarrow> bytes" where
  "key_of_ident (IdAtom t parts) = framed t parts"
| "key_of_ident (IdSeq t xs) = framed t (map key_of_ident xs)"
| "key_of_ident (IdTagged t b i) = framed t [b, key_of_ident i]"
| "key_of_ident (IdBag t M) = framed t (sorted_list_of_multiset (image_mset key_of_ident M))"
| "key_of_ident (IdRaw b) = b"

text \<open>
  A key format fixes the shape that each tag stands for; \<open>IdRaw\<close> is a key without a frame, which is
  told from the others by its first byte.
\<close>

primrec ident_ok :: "(u8 \<Rightarrow> nat) \<Rightarrow> ident \<Rightarrow> bool" where
  "ident_ok shape (IdAtom t parts) = (shape t = 0)"
| "ident_ok shape (IdSeq t xs) = (shape t = 1 \<and> list_all id (map (ident_ok shape) xs))"
| "ident_ok shape (IdTagged t b i) = (shape t = 2 \<and> ident_ok shape i)"
| "ident_ok shape (IdBag t M) = (shape t = 3 \<and> (\<forall>b \<in># image_mset (ident_ok shape) M. b))"
| "ident_ok shape (IdRaw b) = (b \<noteq> [] \<and> shape (hd b) = 4)"

definition ident_shape :: "u8 \<Rightarrow> nat" where
  "ident_shape t =
     (if t \<in> {7, 9, 27} then 1 else if t \<in> {29, 0x41} then 2
      else if t \<in> {8, 26, 28} then 3 else 0)"

lemma hd_framed [simp]: "hd (framed t ps) = t" and framed_nonempty [simp]: "framed t ps \<noteq> []" "[] \<noteq> framed t ps"
  by (simp_all add: framed_def)

lemma key_of_ident_inject:
  "ident_ok shape i \<Longrightarrow> ident_ok shape j \<Longrightarrow> length (key_of_ident i) < 2 ^ 64 \<Longrightarrow>
    length (key_of_ident j) < 2 ^ 64 \<Longrightarrow> key_of_ident i = key_of_ident j \<Longrightarrow> i = j"
proof (induction i arbitrary: j)
  case (IdAtom t parts)
  then show ?case
    by (cases j) (auto simp: framed_inject)
next
  case (IdSeq t xs)
  from IdSeq.prems obtain js where j: "j = IdSeq t js"
    and eq: "map key_of_ident xs = map key_of_ident js"
    by (cases j) (auto simp: framed_inject)
  have "x = y" if "x \<in> set xs" "y \<in> set js" "key_of_ident x = key_of_ident y" for x y
  proof (rule IdSeq.IH [OF that(1) _ _ _ _ that(3)])
    show "length (key_of_ident x) < 2 ^ 64" "length (key_of_ident y) < 2 ^ 64"
      using IdSeq.prems(3,4) length_part_framed [of "key_of_ident x" "map key_of_ident xs" t]
        length_part_framed [of "key_of_ident y" "map key_of_ident js" t] that(1,2) j by auto
    show "ident_ok shape x" "ident_ok shape y"
      using IdSeq.prems(1,2) that(1,2) j by (auto simp: list_all_iff)
  qed
  then show ?case
    using list.inj_map_strong [OF _ eq] j by blast
next
  case (IdTagged t b i)
  then obtain i' where j: "j = IdTagged t b i'" and eq: "key_of_ident i = key_of_ident i'"
    by (cases j) (auto simp: framed_inject)
  have "length (key_of_ident i) < 2 ^ 64"
    using IdTagged.prems(3) length_part_framed [of "key_of_ident i" "[b, key_of_ident i]" t] by simp
  then show ?case
    using IdTagged.IH [of i'] IdTagged.prems(1,2) eq j by simp
next
  case (IdBag t M)
  then obtain N where j: "j = IdBag t N"
    and "sorted_list_of_multiset (image_mset key_of_ident M) = sorted_list_of_multiset (image_mset key_of_ident N)"
    by (cases j) (auto simp: framed_inject)
  then have eq: "image_mset key_of_ident M = image_mset key_of_ident N"
    by (metis mset_sorted_list_of_multiset)
  have "x = y" if "x \<in># M" "y \<in># N" "key_of_ident x = key_of_ident y" for x y
  proof (rule IdBag.IH [OF that(1) _ _ _ _ that(3)])
    show "length (key_of_ident x) < 2 ^ 64" "length (key_of_ident y) < 2 ^ 64"
      using IdBag.prems(3,4) that(1,2) j
        length_part_framed [of "key_of_ident x" "sorted_list_of_multiset (image_mset key_of_ident M)" t]
        length_part_framed [of "key_of_ident y" "sorted_list_of_multiset (image_mset key_of_ident N)" t]
      by auto
    show "ident_ok shape x" "ident_ok shape y"
      using IdBag.prems(1,2) that(1,2) j by auto
  qed
  then show ?case
    using multiset.inj_map_strong [OF _ eq] j by blast
next
  case (IdRaw b)
  then show ?case
    by (cases j) auto
qed

function (sequential) ident_of :: "value_lib \<Rightarrow> val \<Rightarrow> ident" where
  "ident_of L (V_List xs) = IdSeq 7 (map (ident_of L) xs)"
| "ident_of L (V_Path xs) = IdSeq 9 (map (ident_of L) xs)"
| "ident_of L (V_Set xs) = IdBag 28 (mset (map (ident_of L) xs))"
| "ident_of L (V_BulkSet xs) = IdBag 26 (mset (map (ident_of L) xs))"
| "ident_of L (V_MapEntry k v) = IdSeq 27 [ident_of L k, ident_of L v]"
| "ident_of L (V_Map m) =
     IdBag 8 (mset (map (\<lambda>p. IdSeq 27 [IdAtom 4 [str_bytes (fst p)], ident_of L (snd p)]) m))"
| "ident_of L (V_TypedMap m) =
     IdBag 8 (mset (map (\<lambda>p. IdSeq 27 [ident_of L (fst p), ident_of L (snd p)]) m))"
| "ident_of L (V_Property _ key v) = IdTagged 0x41 (str_bytes key) (ident_of L v)"
| "ident_of L (V_CardinalityValue c v) = IdTagged 29 (str_bytes c) (ident_of L v)"
| "ident_of L (V_Scalar s) = IdAtom 35 [scalar_ipc L s]"
| "ident_of L V_Null = IdAtom 0 []"
| "ident_of L (V_Bool b) = IdAtom 1 [[if b then 1 else 0]]"
| "ident_of L (V_Byte n) = IdAtom 12 [[n]]"
| "ident_of L (V_UInt8 n) = IdAtom 18 [[n]]"
| "ident_of L (V_Short n) = IdAtom 13 [to_be_bytes n]"
| "ident_of L (V_UInt16 n) = IdAtom 19 [to_be_bytes n]"
| "ident_of L (V_Int n) = IdAtom 2 [to_be_bytes n]"
| "ident_of L (V_UInt32 n) = IdAtom 20 [to_be_bytes n]"
| "ident_of L (V_Long n) = IdAtom 14 [to_be_bytes n]"
| "ident_of L (V_UInt64 n) = IdAtom 21 [to_be_bytes n]"
| "ident_of L (V_Float32 x) = IdAtom 15 [to_be_bytes (canonical_f32 x)]"
| "ident_of L (V_Float x) = IdAtom 3 [to_be_bytes (canonical_f64 x)]"
| "ident_of L (V_BigInt n) = IdAtom 10 [bigint_signed_bytes L n]"
| "ident_of L (V_UInt128 n) = IdAtom 22 [bigint_signed_bytes L n]"
| "ident_of L (V_BigDecimal n s) = IdAtom 11 [bigint_signed_bytes L n, to_be_bytes (of_int s :: i64)]"
| "ident_of L (V_String s) = IdAtom 4 [str_bytes s]"
| "ident_of L (V_DateTime s) = IdAtom 16 [str_bytes s]"
| "ident_of L (V_Temporal t) = IdAtom 30 [str_bytes (temporal_encode L t)]"
| "ident_of L (V_Token s) = IdAtom 24 [str_bytes s]"
| "ident_of L (V_Direction s) = IdAtom 25 [str_bytes s]"
| "ident_of L (V_InternalId t o') = IdAtom 17 [to_be_bytes t, to_be_bytes o']"
| "ident_of L (V_Node label e) = IdAtom 5 [str_bytes label, eid_encode L e]"
| "ident_of L (V_Edge rel e _ _ _ _ _) = IdAtom 6 [str_bytes rel, eid_encode L e]"
| "ident_of L (V_VertexProperty n _ _ _) = IdAtom 0x40 [to_be_bytes n]"
  by pat_completeness auto
termination
  by (relation "measure (\<lambda>(L, v). size v)") (auto simp: size_val_list size_val_map size_val_entries)

lemma ident_shape_simps [simp]:
  "ident_shape 7 = 1" "ident_shape 9 = 1" "ident_shape 27 = 1"
  "ident_shape 29 = 2" "ident_shape 0x41 = 2"
  "ident_shape 8 = 3" "ident_shape 26 = 3" "ident_shape 28 = 3"
  "ident_shape 0 = 0" "ident_shape 1 = 0" "ident_shape 2 = 0" "ident_shape 3 = 0"
  "ident_shape 4 = 0" "ident_shape 5 = 0" "ident_shape 6 = 0" "ident_shape 10 = 0"
  "ident_shape 11 = 0" "ident_shape 12 = 0" "ident_shape 13 = 0" "ident_shape 14 = 0"
  "ident_shape 15 = 0" "ident_shape 16 = 0" "ident_shape 17 = 0" "ident_shape 18 = 0"
  "ident_shape 19 = 0" "ident_shape 20 = 0" "ident_shape 21 = 0" "ident_shape 22 = 0"
  "ident_shape 24 = 0" "ident_shape 25 = 0" "ident_shape 30 = 0" "ident_shape 35 = 0"
  "ident_shape 0x40 = 0"
  by (simp_all add: ident_shape_def)

lemma ident_ok_ident_of: "ident_ok ident_shape (ident_of L v)"
  by (induction L v rule: ident_of.induct) (auto simp: list_all_iff)

lemma set_member_key_ident: "set_member_key L v = key_of_ident (ident_of L v)"
proof (induction L v rule: ident_of.induct)
qed (simp_all add: framed_def map_key_def comp_def image_mset.compositionality
    flip: mset_map cong: map_cong)

section \<open>Native sets\<close>

lemma gremlin_set_loop_keep_first: "gremlin_set_loop L seen xs = keep_first (set_member_key L) seen xs"
  by (induction L seen xs rule: gremlin_set_loop.induct) (simp_all add: Let_def)

lemmas gremlin_set_loop_first = keep_first_indices [of "set_member_key L" seen xs for L seen xs,
    folded gremlin_set_loop_keep_first]

lemmas gremlin_set_loop_keys = keep_first_keys [of "set_member_key L" seen xs for L seen xs,
    folded gremlin_set_loop_keep_first]

lemmas gremlin_set_loop_subset = keep_first_subset [of "set_member_key L" seen xs for L seen xs,
    folded gremlin_set_loop_keep_first]

lemmas gremlin_set_loop_distinct = keep_first_distinct [of "set_member_key L" seen xs for L seen xs,
    folded gremlin_set_loop_keep_first]

lemma sort_eq_iff_mset: "sort xs = sort ys \<longleftrightarrow> mset xs = mset (ys :: 'a::linorder list)"
  by (metis mset_sort sorted_list_of_multiset_mset)

lemma set_eq_iff_mset:
  "set_eq L xs ys \<longleftrightarrow> mset (map (set_member_key L) xs) = mset (map (set_member_key L) ys)"
proof -
  have "length xs = length ys"
    if "mset (map (set_member_key L) xs) = mset (map (set_member_key L) ys)"
    using arg_cong [OF that, of size] by simp
  then show ?thesis by (auto simp: set_eq_def sort_eq_iff_mset)
qed

section \<open>Constructed element keys\<close>

lemma show_nat_not_reserved: "\<not> prefix ''__orchid_key_'' (CHR ''k'' # s)"
  by simp

lemma map_snd_enumerate_keys:
  "map snd (map (\<lambda>(i, v). (f i, v)) (enumerate n vs)) = vs"
  by (simp add: comp_def case_prod_unfold)

lemma composite_id_ok:
  assumes "composite_id (v # w # vs) = Inr e"
  shows "eid_ok e"
proof -
  let ?cs = "map (\<lambda>(i, x). (CHR ''k'' # show_nat i, x)) (enumerate 0 (v # w # vs))"
  have good: "\<not> list_ex bad_component (v # w # vs)" and e: "e = ElementId (SV_Struct 1 False ?cs)"
    using assms by (auto simp: composite_id_def split: if_splits)
  have "\<not> is_identity_union (sv_data_type (SV_Struct 1 False ?cs))"
    by (simp add: is_identity_union_def)
  moreover have "map snd ?cs = v # w # vs"
    by (rule map_snd_enumerate_keys)
  ultimately have "element_new (SV_Struct 1 False ?cs) = composite_id (v # w # vs)"
    by (subst element_new.simps) simp
  with assms e show ?thesis by (simp add: eid_ok_def)
qed

lemma element_new_struct:
  "element_new (SV_Struct n nul cs) =
     (if n \<noteq> 1 \<or> nul then Inl ''element identity cannot be null''
      else if is_identity_union (sv_data_type (SV_Struct n nul cs)) then
        (case filter (\<lambda>x. \<not> sv_is_null x) (map snd cs) of
           [] \<Rightarrow> Inl ''null element identity''
         | [key] \<Rightarrow> element_new key
         | _ \<Rightarrow> Inl ''ambiguous identity union'')
      else element_from_components (map snd cs))"
  by (subst element_new.simps) (simp add: element_from_components_def split: list.split)

lemma element_new_ok: "element_new v = Inr e \<Longrightarrow> eid_ok e"
proof (induction v rule: element_new.induct)
  case (1 v)
  show ?case
  proof (cases "\<exists>n nul cs. v = SV_Struct n nul cs")
    case False
    then have "element_new v = (if bad_component v
        then Inl ''element identity requires non-null scalar components'' else Inr (ElementId v))"
      by (subst element_new.simps) (auto split: scalar_value.splits)
    with "1.prems" show ?thesis
      by (auto simp: eid_ok_def split: if_splits)
  next
    case True
    then obtain n nul cs where v: "v = SV_Struct n nul cs" by blast
    show ?thesis
      using "1.prems" "1.IH" unfolding v
      by (auto simp: element_new_struct element_from_components_def
          split: if_splits list.splits intro: composite_id_ok)
  qed
qed

section \<open>Shared equality\<close>

text \<open>\<open>PartialEq for Value\<close>: exact runtime equality; native sets compare by member key.\<close>

function (sequential) value_eq :: "value_lib \<Rightarrow> val \<Rightarrow> val \<Rightarrow> bool" where
  "value_eq L V_Null w = (w = V_Null)"
| "value_eq L (V_Scalar a) w = (w = V_Scalar a)"
| "value_eq L (V_Bool a) w = (w = V_Bool a)"
| "value_eq L (V_Temporal a) w = (w = V_Temporal a)"
| "value_eq L (V_Byte a) w = (w = V_Byte a)"
| "value_eq L (V_UInt8 a) w = (w = V_UInt8 a)"
| "value_eq L (V_Short a) w = (w = V_Short a)"
| "value_eq L (V_UInt16 a) w = (w = V_UInt16 a)"
| "value_eq L (V_Int a) w = (w = V_Int a)"
| "value_eq L (V_Long a) w = (w = V_Long a)"
| "value_eq L (V_UInt32 a) w = (w = V_UInt32 a)"
| "value_eq L (V_UInt64 a) w = (w = V_UInt64 a)"
| "value_eq L (V_Float32 a) w = (case w of V_Float32 b \<Rightarrow> f32_eq a b | _ \<Rightarrow> False)"
| "value_eq L (V_Float a) w = (case w of V_Float b \<Rightarrow> f64_eq a b | _ \<Rightarrow> False)"
| "value_eq L (V_BigInt a) w = (w = V_BigInt a)"
| "value_eq L (V_UInt128 a) w = (w = V_UInt128 a)"
| "value_eq L (V_BigDecimal a s) w =
     (case w of V_BigDecimal b t \<Rightarrow> decimal_same L a s b t | _ \<Rightarrow> False)"
| "value_eq L (V_String a) w = (w = V_String a)"
| "value_eq L (V_DateTime a) w = (w = V_DateTime a)"
| "value_eq L (V_Token a) w = (w = V_Token a)"
| "value_eq L (V_Direction a) w = (w = V_Direction a)"
| "value_eq L (V_InternalId a x) w = (w = V_InternalId a x)"
| "value_eq L (V_Node a x) w = (w = V_Node a x)"
| "value_eq L (V_VertexProperty a _ _ _) w =
     (case w of V_VertexProperty b _ _ _ \<Rightarrow> a = b | _ \<Rightarrow> False)"
| "value_eq L (V_Property _ a x) w =
     (case w of V_Property _ b y \<Rightarrow> a = b \<and> set_member_key L x = set_member_key L y | _ \<Rightarrow> False)"
| "value_eq L (V_Edge a b c d e f g) w = (w = V_Edge a b c d e f g)"
| "value_eq L (V_List xs) w =
     (case w of V_List ys \<Rightarrow> length xs = length ys \<and>
        list_all (\<lambda>p. value_eq L (fst p) (snd p)) (zip xs ys) | _ \<Rightarrow> False)"
| "value_eq L (V_Path xs) w =
     (case w of V_Path ys \<Rightarrow> length xs = length ys \<and>
        list_all (\<lambda>p. value_eq L (fst p) (snd p)) (zip xs ys) | _ \<Rightarrow> False)"
| "value_eq L (V_BulkSet xs) w =
     (case w of V_BulkSet ys \<Rightarrow> length xs = length ys \<and>
        list_all (\<lambda>p. value_eq L (fst p) (snd p)) (zip xs ys) | _ \<Rightarrow> False)"
| "value_eq L (V_Set xs) w = (case w of V_Set ys \<Rightarrow> set_eq L xs ys | _ \<Rightarrow> False)"
| "value_eq L (V_Map xs) w =
     (case w of V_Map ys \<Rightarrow> length xs = length ys \<and>
        list_all (\<lambda>p. fst (fst p) = fst (snd p) \<and> value_eq L (snd (fst p)) (snd (snd p))) (zip xs ys)
      | _ \<Rightarrow> False)"
| "value_eq L (V_TypedMap xs) w =
     (case w of V_TypedMap ys \<Rightarrow> length xs = length ys \<and>
        list_all (\<lambda>p. value_eq L (fst (fst p)) (fst (snd p)) \<and>
          value_eq L (snd (fst p)) (snd (snd p))) (zip xs ys)
      | _ \<Rightarrow> False)"
| "value_eq L (V_MapEntry k x) w =
     (case w of V_MapEntry l y \<Rightarrow> value_eq L k l \<and> value_eq L x y | _ \<Rightarrow> False)"
| "value_eq L (V_CardinalityValue a x) w =
     (case w of V_CardinalityValue b y \<Rightarrow> a = b \<and> set_member_key L x = set_member_key L y
      | _ \<Rightarrow> False)"
  by pat_completeness auto
termination
  by (relation "measure (\<lambda>(L, v, w). size v)")
    (auto dest!: set_zip_leftD simp: size_val_list size_val_map size_val_entries
      dest: size_val_list size_val_map size_val_entries)

function (sequential) exposes_nan :: "val \<Rightarrow> bool" where
  "exposes_nan (V_Float32 x) = f32_is_nan x"
| "exposes_nan (V_Float x) = f64_is_nan x"
| "exposes_nan (V_List xs) = list_ex exposes_nan xs"
| "exposes_nan (V_Path xs) = list_ex exposes_nan xs"
| "exposes_nan (V_BulkSet xs) = list_ex exposes_nan xs"
| "exposes_nan (V_Map m) = list_ex (\<lambda>p. exposes_nan (snd p)) m"
| "exposes_nan (V_TypedMap m) = list_ex (\<lambda>p. exposes_nan (fst p) \<or> exposes_nan (snd p)) m"
| "exposes_nan (V_MapEntry k v) = (exposes_nan k \<or> exposes_nan v)"
| "exposes_nan _ = False"
  by pat_completeness auto
termination
  by (relation "measure size") (auto simp: size_val_list size_val_map size_val_entries)

lemma list_all_zip_same: "list_all P (zip xs xs) \<longleftrightarrow> (\<forall>x \<in> set xs. P (x, x))"
  by (induction xs) auto

section \<open>Properties\<close>

text \<open>
  C6: the byte key computed for a value decides its abstract identity: two values have
  the same key exactly when their identities agree, where lists, paths and map entries are
  sequences, sets, bulk sets and maps are bags of member identities, and every scalar keeps
  its type and width.  Keys shorter than \<open>2^64\<close> bytes, as every in-memory key is.
\<close>

theorem member_key_decides_identity:
  assumes "length (set_member_key L a) < 2 ^ 64" and "length (set_member_key L b) < 2 ^ 64"
  shows "set_member_key L a = set_member_key L b \<longleftrightarrow> ident_of L a = ident_of L b"
  using assms key_of_ident_inject [OF ident_ok_ident_of ident_ok_ident_of]
  by (auto simp: set_member_key_ident)

theorem member_key_decides_identity_witness:
  "set_member_key text_lib (V_Set [V_Int 1, V_Bool True]) = set_member_key text_lib (V_Set [V_Bool True, V_Int 1])
   \<longleftrightarrow> ident_of text_lib (V_Set [V_Int 1, V_Bool True]) = ident_of text_lib (V_Set [V_Bool True, V_Int 1])"
  by (rule member_key_decides_identity; simp add: framed_def)

text \<open>
  a native set keeps exactly the first member of each key, in encounter order.
\<close>

theorem gremlin_set_first_occurrences:
  "gremlin_set L xs =
     V_Set (map ((!) xs) (filter (\<lambda>i. set_member_key L (xs ! i) \<notin>
       set_member_key L ` set (take i xs)) [0..<length xs]))"
proof -
  have "(\<forall>j < i. set_member_key L (xs ! j) \<noteq> set_member_key L (xs ! i)) \<longleftrightarrow>
      set_member_key L (xs ! i) \<notin> set_member_key L ` set (take i xs)" if "i < length xs" for i
    using that by (simp add: nth_image [of i xs, symmetric] image_image image_iff) (metis atLeast0LessThan lessThan_iff)
  then have "filter (\<lambda>i. \<forall>j < i. set_member_key L (xs ! j) \<noteq> set_member_key L (xs ! i)) [0..<length xs] =
      filter (\<lambda>i. set_member_key L (xs ! i) \<notin> set_member_key L ` set (take i xs)) [0..<length xs]"
    by (intro filter_cong) (simp_all only: set_upt atLeastLessThan_iff)
  then show ?thesis
    by (simp add: gremlin_set_def gremlin_set_loop_first)
qed

text \<open>
  two native sets are equal exactly when they were built from members with the same
  keys: insertion order and repetition do not matter.
\<close>

theorem native_set_equality:
  "value_eq L (gremlin_set L xs) (gremlin_set L ys) \<longleftrightarrow>
     set_member_key L ` set xs = set_member_key L ` set ys"
proof -
  have "set (map (set_member_key L) (gremlin_set_loop L {} zs)) = set_member_key L ` set zs" for zs
    using gremlin_set_loop_keys [of L "{}" zs] by simp
  then show ?thesis
    using set_eq_iff_mset_eq_distinct [OF gremlin_set_loop_distinct gremlin_set_loop_distinct, of L "{}" xs L "{}" ys]
    by (simp add: gremlin_set_def set_eq_iff_mset)
qed

text \<open>
  every element identity that the constructor accepts survives the key encoding:
  decoding the encoded key gives the identity back, for integer keys and, given that
  Arrow's IPC stream of the scalar reads back, for every other key, composite ones included.
\<close>

theorem element_key_roundtrip:
  assumes "element_new v = Inr e" and "eid_as_i64 e = None \<Longrightarrow> ipc_ok L (eid_scalar e)"
  shows "eid_decode L (eid_encode L e) = Inr e"
  using eid_decode_encode [OF element_new_ok [OF assms(1)] assms(2)] .

theorem element_key_roundtrip_witness:
  "eid_decode text_lib (eid_encode text_lib (ElementId (SV_Utf8 ''ab''))) = Inr (ElementId (SV_Utf8 ''ab''))"
  by (rule element_key_roundtrip [of "SV_Utf8 ''ab''"])
    (simp_all add: element_new.simps bad_component_def sv_is_null_def ipc_ok_def text_lib_def)

text \<open>
  shared equality is reflexive exactly on the values that expose no NaN; a NaN inside
  a native set, a property or a cardinality wrapper is compared by member key and does not
  count.
\<close>

theorem value_eq_reflexive_iff:
  assumes "\<And>n s. decimal_same L n s n s"
  shows "value_eq L v v \<longleftrightarrow> \<not> exposes_nan v"
proof (induction v rule: exposes_nan.induct)
qed (simp_all add: f32_eq_def f64_eq_def set_eq_def list_ex_iff list_all_zip_same assms)

theorem value_eq_reflexive_iff_witness:
  "value_eq text_lib (V_List [V_Float 0x7FF8000000000001]) (V_List [V_Float 0x7FF8000000000001])
     \<longleftrightarrow> \<not> exposes_nan (V_List [V_Float 0x7FF8000000000001])"
  by (rule value_eq_reflexive_iff) (simp add: text_lib_def)

end
