(* ===== verification/Snapshot_Codec.thy ===== *)
theory Snapshot_Codec
  imports Value_Identity
begin

text \<open>
  The value codec of the snapshot format (\<open>src/src/ir/catalog/snapshot/binary.rs\<close>):
  \<open>encode_value\<close>, \<open>decode_value\<close>, \<open>encode_value_bytes\<close>,
  \<open>decode_value_bytes\<close>, and the metadata normalisation \<open>decode_map\<close> applies
  (\<open>src/src/ir/value.rs\<close>, \<open>normalize_struct_metadata\<close>).

  The decoder recurses on the bytes it is given.  The model passes fuel, one unit per
  nested value; \<open>decode_value\<close> starts with one unit more than there are bytes left, and
  since every value starts with a tag byte that is always enough
  (\<open>decode_value_total\<close>).  The codec meets the contract \<open>wire_format\<close>.
\<close>

section \<open>Encoding\<close>

function (sequential) encode_value :: "value_lib \<Rightarrow> val \<Rightarrow> bytes" where
  "encode_value L (V_VertexProperty n owner key v) =
     put_u8 0x40 @ put_i64 n @ encode_value L owner @ put_str key @ encode_value L v"
| "encode_value L (V_Property owner key v) =
     put_u8 0x41 @ encode_value L owner @ put_str key @ encode_value L v"
| "encode_value L (V_Scalar s) = put_u8 35 @ put_bytes (scalar_ipc L s)"
| "encode_value L V_Null = put_u8 0"
| "encode_value L (V_Bool b) = put_u8 1 @ put_u8 (if b then 1 else 0)"
| "encode_value L (V_Byte v) = put_u8 2 @ put_u8 v"
| "encode_value L (V_UInt8 v) = put_u8 3 @ put_u8 v"
| "encode_value L (V_Short v) = put_u8 4 @ put_i16 v"
| "encode_value L (V_UInt16 v) = put_u8 5 @ put_u16 v"
| "encode_value L (V_Int v) = put_u8 6 @ put_i64 v"
| "encode_value L (V_UInt32 v) = put_u8 7 @ put_u32 v"
| "encode_value L (V_Long v) = put_u8 8 @ put_i64 v"
| "encode_value L (V_UInt64 v) = put_u8 9 @ put_u64 v"
| "encode_value L (V_Float32 v) = put_u8 10 @ put_f32 v"
| "encode_value L (V_Float v) = put_u8 11 @ put_f64 v"
| "encode_value L (V_BigInt v) = put_u8 12 @ put_str (bigint_text L v)"
| "encode_value L (V_UInt128 v) = put_u8 13 @ put_str (bigint_text L v)"
| "encode_value L (V_BigDecimal v s) = put_u8 14 @ put_str (decimal_text L v s)"
| "encode_value L (V_Temporal t) = put_u8 30 @ put_str (temporal_encode L t)"
| "encode_value L (V_DateTime s) = put_u8 15 @ put_str s"
| "encode_value L (V_InternalId table offset) = put_u8 16 @ put_i64 table @ put_i64 offset"
| "encode_value L (V_String s) = put_u8 17 @ put_str s"
| "encode_value L (V_Node label e) = put_u8 33 @ put_str label @ put_bytes (eid_encode L e)"
| "encode_value L (V_Edge rel e src_label src dst_label dst projected) =
     put_u8 34 @ put_str rel @ put_bytes (eid_encode L e) @
     put_str src_label @ put_bytes (eid_encode L src) @
     put_str dst_label @ put_bytes (eid_encode L dst) @
     (case projected of None \<Rightarrow> put_u8 0 | Some keys \<Rightarrow> put_u8 1 @ put_str_list keys)"
| "encode_value L (V_List xs) =
     put_u8 20 @ put_u64 (of_nat (length xs)) @ concat (map (encode_value L) xs)"
| "encode_value L (V_Map m) =
     put_u8 21 @ put_u64 (of_nat (length m)) @
     concat (map (\<lambda>p. put_str (fst p) @ encode_value L (snd p)) m)"
| "encode_value L (V_CardinalityValue c v) = put_u8 29 @ put_str c @ encode_value L v"
| "encode_value L (V_MapEntry k v) = put_u8 27 @ encode_value L k @ encode_value L v"
| "encode_value L (V_TypedMap m) =
     put_u8 23 @ put_u64 (of_nat (length m)) @
     concat (map (\<lambda>p. encode_value L (fst p) @ encode_value L (snd p)) m)"
| "encode_value L (V_Token s) = put_u8 24 @ put_str s"
| "encode_value L (V_Direction s) = put_u8 25 @ put_str s"
| "encode_value L (V_BulkSet xs) =
     put_u8 26 @ put_u64 (of_nat (length xs)) @ concat (map (encode_value L) xs)"
| "encode_value L (V_Set xs) =
     put_u8 28 @ put_u64 (of_nat (length xs)) @ concat (map (encode_value L) xs)"
| "encode_value L (V_Path xs) =
     put_u8 22 @ put_u64 (of_nat (length xs)) @ concat (map (encode_value L) xs)"
  by pat_completeness auto
termination
  by (relation "measure (\<lambda>(L, v). size v)") (auto simp: size_val_list size_val_map size_val_entries)

definition encode_value_bytes :: "value_lib \<Rightarrow> val \<Rightarrow> bytes" where
  "encode_value_bytes L v = encode_value L v"

section \<open>Reserved struct metadata\<close>

definition STRUCT_ORDER_KEY :: string where "STRUCT_ORDER_KEY = ''__orchiddb_struct_order''"
definition STRUCT_TYPES_KEY :: string where "STRUCT_TYPES_KEY = ''__orchiddb_struct_types''"

definition legacy_key :: "string \<Rightarrow> string \<Rightarrow> string \<Rightarrow> bool" where
  "legacy_key sfx canonical key \<longleftrightarrow>
     prefix ''__'' key \<and> suffix sfx key \<and> key \<noteq> canonical"

definition move_to_canonical :: "string \<Rightarrow> string \<Rightarrow> (string \<times> val) list \<Rightarrow> (string \<times> val) list" where
  "move_to_canonical canonical key m =
     (case map_of m key of
        None \<Rightarrow> m
      | Some v \<Rightarrow> bt_or_insert canonical v (bt_remove key m))"

definition normalize_suffix :: "string \<times> string \<Rightarrow> (string \<times> val) list \<Rightarrow> (string \<times> val) list" where
  "normalize_suffix p m =
     fold (move_to_canonical (snd p)) (filter (legacy_key (fst p) (snd p)) (map fst m)) m"

definition normalize_struct_metadata :: "(string \<times> val) list \<Rightarrow> (string \<times> val) list" where
  "normalize_struct_metadata m =
     fold normalize_suffix
       [(''_struct_order'', STRUCT_ORDER_KEY), (''_struct_types'', STRUCT_TYPES_KEY)] m"

section \<open>Decoding\<close>

definition payload :: "string + 'a \<Rightarrow> 'a rd" where
  "payload x = rlift (case x of Inl e \<Rightarrow> Inl (InvalidPayload e) | Inr a \<Rightarrow> Inr a)"

definition rd_element_id :: "value_lib \<Rightarrow> element_id rd" where
  "rd_element_id L = rbind rd_blob (\<lambda>b. payload (eid_decode L b))"

definition rd_projected :: "string list option rd" where
  "rd_projected = rbind rd_u8 (\<lambda>b.
     if b \<noteq> 0 then rbind decode_str_list (\<lambda>ks. rret (Some ks)) else rret None)"

definition decode_values :: "val rd \<Rightarrow> val list rd" where
  "decode_values rec = rbind rd_count (\<lambda>n. rd_many n rec)"

definition decode_map :: "val rd \<Rightarrow> (string \<times> val) list rd" where
  "decode_map rec = rbind rd_count (\<lambda>n.
     rbind (rd_many n (rbind rd_str (\<lambda>k. rbind rec (\<lambda>v. rret (k, v))))) (\<lambda>es.
       rret (normalize_struct_metadata (bt_of_entries es))))"

definition decode_entries :: "val rd \<Rightarrow> (val \<times> val) list rd" where
  "decode_entries rec = rbind rd_count (\<lambda>n.
     rd_many n (rbind rec (\<lambda>k. rbind rec (\<lambda>v. rret (k, v)))))"

definition decode_tag :: "value_lib \<Rightarrow> val rd \<Rightarrow> u8 \<Rightarrow> val rd" where
  "decode_tag L rec tag =
    (if tag = 0x40 then rbind rd_i64 (\<lambda>n. rbind rec (\<lambda>owner. rbind rd_str (\<lambda>key. rbind rec (\<lambda>v.
        rret (V_VertexProperty n owner key v)))))
     else if tag = 0x41 then rbind rec (\<lambda>owner. rbind rd_str (\<lambda>key. rbind rec (\<lambda>v.
        rret (V_Property owner key v))))
     else if tag = 0 then rret V_Null
     else if tag = 1 then rbind rd_u8 (\<lambda>b. rret (V_Bool (b \<noteq> 0)))
     else if tag = 2 then rbind rd_u8 (\<lambda>b. rret (V_Byte b))
     else if tag = 3 then rbind rd_u8 (\<lambda>b. rret (V_UInt8 b))
     else if tag = 4 then rbind rd_i16 (\<lambda>n. rret (V_Short n))
     else if tag = 5 then rbind rd_u16 (\<lambda>n. rret (V_UInt16 n))
     else if tag = 6 then rbind rd_i64 (\<lambda>n. rret (V_Int n))
     else if tag = 7 then rbind rd_u32 (\<lambda>n. rret (V_UInt32 n))
     else if tag = 8 then rbind rd_i64 (\<lambda>n. rret (V_Long n))
     else if tag = 9 then rbind rd_u64 (\<lambda>n. rret (V_UInt64 n))
     else if tag = 10 then rbind rd_f32 (\<lambda>x. rret (V_Float32 x))
     else if tag = 11 then rbind rd_f64 (\<lambda>x. rret (V_Float x))
     else if tag = 12 then rbind rd_str (\<lambda>s.
        rbind (payload (ok_or (bigint_of_text L s) ''invalid BigInt'')) (\<lambda>n. rret (V_BigInt n)))
     else if tag = 13 then rbind rd_str (\<lambda>s.
        rbind (payload (ok_or (bigint_of_text L s) ''invalid UInt128'')) (\<lambda>n. rret (V_UInt128 n)))
     else if tag = 14 then rbind rd_str (\<lambda>s.
        rbind (payload (ok_or (decimal_of_text L s) ''invalid BigDecimal''))
          (\<lambda>d. rret (V_BigDecimal (fst d) (snd d))))
     else if tag = 15 then rbind rd_str (\<lambda>s. rret (V_DateTime s))
     else if tag = 30 then rbind rd_str (\<lambda>s.
        rbind (payload (temporal_decode L s)) (\<lambda>t. rret (V_Temporal t)))
     else if tag = 16 then rbind rd_i64 (\<lambda>t. rbind rd_i64 (\<lambda>n. rret (V_InternalId t n)))
     else if tag = 17 then rbind rd_str (\<lambda>s. rret (V_String s))
     else if tag = 33 then rbind rd_str (\<lambda>l. rbind (rd_element_id L) (\<lambda>e. rret (V_Node l e)))
     else if tag = 34 then rbind rd_str (\<lambda>rel. rbind (rd_element_id L) (\<lambda>e.
        rbind rd_str (\<lambda>sl. rbind (rd_element_id L) (\<lambda>s.
        rbind rd_str (\<lambda>dl. rbind (rd_element_id L) (\<lambda>d.
        rbind rd_projected (\<lambda>ks. rret (V_Edge rel e sl s dl d ks))))))))
     else if tag = 35 then rbind rd_blob (\<lambda>b.
        rbind (payload (ok_or (scalar_of_ipc L b) ''invalid scalar'')) (\<lambda>s. rret (V_Scalar s)))
     else if tag = 18 then rbind rd_str (\<lambda>l. rbind rd_i64 (\<lambda>n. rret (V_Node l (eid_of_i64 n))))
     else if tag = 19 then rbind rd_str (\<lambda>rel. rbind rd_i64 (\<lambda>e.
        rbind rd_str (\<lambda>sl. rbind rd_i64 (\<lambda>s. rbind rd_str (\<lambda>dl. rbind rd_i64 (\<lambda>d.
        rbind rd_projected (\<lambda>ks.
          rret (V_Edge rel (eid_of_i64 e) sl (eid_of_i64 s) dl (eid_of_i64 d) ks))))))))
     else if tag = 20 then rbind (decode_values rec) (\<lambda>xs. rret (V_List xs))
     else if tag = 21 then rbind (decode_map rec) (\<lambda>m. rret (V_Map m))
     else if tag = 22 then rbind (decode_values rec) (\<lambda>xs. rret (V_Path xs))
     else if tag = 29 then rbind rd_str (\<lambda>c.
        if c \<in> {''single'', ''list'', ''set''} then rbind rec (\<lambda>v. rret (V_CardinalityValue c v))
        else rfail InvalidCardinality)
     else if tag = 27 then rbind rec (\<lambda>k. rbind rec (\<lambda>v. rret (V_MapEntry k v)))
     else if tag = 23 then rbind (decode_entries rec) (\<lambda>m. rret (V_TypedMap m))
     else if tag = 24 then rbind rd_str (\<lambda>s. rret (V_Token s))
     else if tag = 25 then rbind rd_str (\<lambda>s. rret (V_Direction s))
     else if tag = 26 then rbind (decode_values rec) (\<lambda>xs. rret (V_BulkSet xs))
     else if tag = 28 then rbind (decode_values rec) (\<lambda>xs. rret (gremlin_set L xs))
     else rfail (UnknownTag tag))"

primrec decode_fuel :: "value_lib \<Rightarrow> nat \<Rightarrow> val rd" where
  "decode_fuel L 0 = rfail OutOfFuel"
| "decode_fuel L (Suc n) = rbind rd_u8 (decode_tag L (decode_fuel L n))"

definition decode_value :: "value_lib \<Rightarrow> val rd" where
  "decode_value L r = decode_fuel L (Suc (remaining r)) r"

definition decode_value_bytes :: "value_lib \<Rightarrow> bytes \<Rightarrow> decode_error + val" where
  "decode_value_bytes L data = decode_exactly (decode_value L) data"

section \<open>Stability and fuel of the decoder\<close>

lemma decode_tag_simps:
  "decode_tag L rec 0x40 = rbind rd_i64 (\<lambda>n. rbind rec (\<lambda>owner. rbind rd_str
     (\<lambda>key. rbind rec (\<lambda>v. rret (V_VertexProperty n owner key v)))))"
  "decode_tag L rec 0x41 = rbind rec (\<lambda>owner. rbind rd_str (\<lambda>key. rbind rec
     (\<lambda>v. rret (V_Property owner key v))))"
  "decode_tag L rec 0 = rret V_Null"
  "decode_tag L rec 1 = rbind rd_u8 (\<lambda>b. rret (V_Bool (b \<noteq> 0)))"
  "decode_tag L rec 2 = rbind rd_u8 (\<lambda>b. rret (V_Byte b))"
  "decode_tag L rec 3 = rbind rd_u8 (\<lambda>b. rret (V_UInt8 b))"
  "decode_tag L rec 4 = rbind rd_i16 (\<lambda>n. rret (V_Short n))"
  "decode_tag L rec 5 = rbind rd_u16 (\<lambda>n. rret (V_UInt16 n))"
  "decode_tag L rec 6 = rbind rd_i64 (\<lambda>n. rret (V_Int n))"
  "decode_tag L rec 7 = rbind rd_u32 (\<lambda>n. rret (V_UInt32 n))"
  "decode_tag L rec 8 = rbind rd_i64 (\<lambda>n. rret (V_Long n))"
  "decode_tag L rec 9 = rbind rd_u64 (\<lambda>n. rret (V_UInt64 n))"
  "decode_tag L rec 10 = rbind rd_f32 (\<lambda>x. rret (V_Float32 x))"
  "decode_tag L rec 11 = rbind rd_f64 (\<lambda>x. rret (V_Float x))"
  "decode_tag L rec 12 = rbind rd_str (\<lambda>s. rbind (payload (ok_or (bigint_of_text L s)
     ''invalid BigInt'')) (\<lambda>n. rret (V_BigInt n)))"
  "decode_tag L rec 13 = rbind rd_str (\<lambda>s. rbind (payload (ok_or (bigint_of_text L s)
     ''invalid UInt128'')) (\<lambda>n. rret (V_UInt128 n)))"
  "decode_tag L rec 14 = rbind rd_str (\<lambda>s. rbind (payload (ok_or (decimal_of_text L s)
     ''invalid BigDecimal'')) (\<lambda>d. rret (V_BigDecimal (fst d) (snd d))))"
  "decode_tag L rec 15 = rbind rd_str (\<lambda>s. rret (V_DateTime s))"
  "decode_tag L rec 30 = rbind rd_str (\<lambda>s. rbind (payload (temporal_decode L s))
     (\<lambda>t. rret (V_Temporal t)))"
  "decode_tag L rec 16 = rbind rd_i64 (\<lambda>t. rbind rd_i64 (\<lambda>n. rret (V_InternalId
     t n)))"
  "decode_tag L rec 17 = rbind rd_str (\<lambda>s. rret (V_String s))"
  "decode_tag L rec 33 = rbind rd_str (\<lambda>l. rbind (rd_element_id L) (\<lambda>e. rret
     (V_Node l e)))"
  "decode_tag L rec 34 = rbind rd_str (\<lambda>rel. rbind (rd_element_id L) (\<lambda>e. rbind
     rd_str (\<lambda>sl. rbind (rd_element_id L) (\<lambda>s. rbind rd_str (\<lambda>dl. rbind
     (rd_element_id L) (\<lambda>d. rbind rd_projected (\<lambda>ks. rret (V_Edge rel e sl s dl
     d ks))))))))"
  "decode_tag L rec 35 = rbind rd_blob (\<lambda>b. rbind (payload (ok_or (scalar_of_ipc L b)
     ''invalid scalar'')) (\<lambda>s. rret (V_Scalar s)))"
  "decode_tag L rec 18 = rbind rd_str (\<lambda>l. rbind rd_i64 (\<lambda>n. rret (V_Node l
     (eid_of_i64 n))))"
  "decode_tag L rec 19 = rbind rd_str (\<lambda>rel. rbind rd_i64 (\<lambda>e. rbind rd_str
     (\<lambda>sl. rbind rd_i64 (\<lambda>s. rbind rd_str (\<lambda>dl. rbind rd_i64
     (\<lambda>d. rbind rd_projected (\<lambda>ks. rret (V_Edge rel (eid_of_i64 e) sl
     (eid_of_i64 s) dl (eid_of_i64 d) ks))))))))"
  "decode_tag L rec 20 = rbind (decode_values rec) (\<lambda>xs. rret (V_List xs))"
  "decode_tag L rec 21 = rbind (decode_map rec) (\<lambda>m. rret (V_Map m))"
  "decode_tag L rec 22 = rbind (decode_values rec) (\<lambda>xs. rret (V_Path xs))"
  "decode_tag L rec 29 = rbind rd_str (\<lambda>c. if c \<in> {''single'', ''list'', ''set''}
     then rbind rec (\<lambda>v. rret (V_CardinalityValue c v)) else rfail InvalidCardinality)"
  "decode_tag L rec 27 = rbind rec (\<lambda>k. rbind rec (\<lambda>v. rret (V_MapEntry k v)))"
  "decode_tag L rec 23 = rbind (decode_entries rec) (\<lambda>m. rret (V_TypedMap m))"
  "decode_tag L rec 24 = rbind rd_str (\<lambda>s. rret (V_Token s))"
  "decode_tag L rec 25 = rbind rd_str (\<lambda>s. rret (V_Direction s))"
  "decode_tag L rec 26 = rbind (decode_values rec) (\<lambda>xs. rret (V_BulkSet xs))"
  "decode_tag L rec 28 = rbind (decode_values rec) (\<lambda>xs. rret (gremlin_set L xs))"
  by (simp_all add: decode_tag_def)

lemma stable_payload [stable_intros]: "stable (payload x)"
  by (simp add: payload_def stable_intros)

lemma stable_pieces [stable_intros]:
  "stable (rd_element_id L)" "stable rd_projected"
  "stable rec \<Longrightarrow> stable (decode_values rec)"
  "stable rec \<Longrightarrow> stable (decode_map rec)"
  "stable rec \<Longrightarrow> stable (decode_entries rec)"
  unfolding rd_element_id_def rd_projected_def decode_values_def decode_map_def decode_entries_def
  by (intro stable_intros; assumption)+

lemma stable_decode_tag: "stable rec \<Longrightarrow> stable (decode_tag L rec tag)"
  unfolding decode_tag_def by (intro stable_intros; assumption)

lemma stable_decode_fuel: "stable (decode_fuel L n)"
  by (induction n) (auto intro!: stable_intros stable_decode_tag)

lemma fueled_payload [fueled_intros]: "fueled n (payload x)"
  by (auto simp: payload_def split: sum.splits intro!: fueled_intros)

lemma fueled_pieces [fueled_intros]:
  "fueled n (rd_element_id L)" "fueled n rd_projected"
  "stable rec \<Longrightarrow> fueled n rec \<Longrightarrow> fueled n (decode_values rec)"
  "stable rec \<Longrightarrow> fueled n rec \<Longrightarrow> fueled n (decode_map rec)"
  "stable rec \<Longrightarrow> fueled n rec \<Longrightarrow> fueled n (decode_entries rec)"
  unfolding rd_element_id_def rd_projected_def decode_values_def decode_map_def decode_entries_def
  by (intro fueled_intros stable_intros; assumption)+

lemma fueled_decode_tag: "stable rec \<Longrightarrow> fueled n rec \<Longrightarrow> fueled n (decode_tag L rec tag)"
  unfolding decode_tag_def
  by (intro fueled_intros stable_intros; (assumption | simp))

lemma fueled_decode_fuel: "fueled n (decode_fuel L (Suc n))"
proof (induction n)
  case 0
  show ?case
    by (simp add: fueled_def rbind_def rd_u8_def rd_take_def remaining_def)
next
  case (Suc n)
  show ?case
    by (subst decode_fuel.simps) (intro fueled_tag fueled_decode_tag stable_decode_fuel Suc.IH)
qed

lemma extends_decode_tag: "extends p q \<Longrightarrow> extends (decode_tag L p tag) (decode_tag L q tag)"
  unfolding decode_tag_def decode_values_def decode_map_def decode_entries_def
  by (intro extends_intros; assumption)

lemma extends_decode_fuel_Suc: "extends (decode_fuel L n) (decode_fuel L (Suc n))"
proof (induction n)
  case 0
  show ?case by (simp add: extends_def rfail_def)
next
  case (Suc n)
  show ?case
    by (subst (1 2) decode_fuel.simps) (intro extends_rbind extends_refl extends_decode_tag Suc.IH)
qed

lemma decode_fuel_mono:
  assumes "decode_fuel L n r = Inr x" "n \<le> m"
  shows "decode_fuel L m r = Inr x"
  using assms(2,1)
  by (induction m rule: dec_induct) (use extends_decode_fuel_Suc [unfolded extends_def] in blast)+

lemma stable_decode_value: "stable (decode_value L)"
proof -
  have "buf r' = b \<and> n \<le> pos r' \<and> pos r' \<le> length b \<and>
      decode_value L \<lparr>buf = b @ ext, pos = n\<rparr> = Inr (a, \<lparr>buf = b @ ext, pos = pos r'\<rparr>)"
    if n: "n \<le> length b" and run: "decode_value L \<lparr>buf = b, pos = n\<rparr> = Inr (a, r')" for b n a r' ext
  proof -
    from run have "decode_fuel L (Suc (length b - n)) \<lparr>buf = b, pos = n\<rparr> = Inr (a, r')"
      by (simp add: decode_value_def remaining_def del: decode_fuel.simps)
    note st = stableD [OF stable_decode_fuel n this]
    have "decode_fuel L (Suc (length (b @ ext) - n)) \<lparr>buf = b @ ext, pos = n\<rparr> =
        Inr (a, \<lparr>buf = b @ ext, pos = pos r'\<rparr>)"
      by (rule decode_fuel_mono [OF st(4)]) simp
    then show ?thesis
      using st(1-3) by (simp add: decode_value_def remaining_def del: decode_fuel.simps)
  qed
  then show ?thesis by (simp add: stable_def)
qed

section \<open>Values that survive a snapshot\<close>

definition snapshot_id :: "value_lib \<Rightarrow> element_id \<Rightarrow> bool" where
  "snapshot_id L e \<longleftrightarrow> eid_ok e \<and> (eid_as_i64 e = None \<longrightarrow> ipc_ok L (eid_scalar e))"

definition plain_map_keys :: "string list \<Rightarrow> bool" where
  "plain_map_keys ks \<longleftrightarrow> list_all (\<lambda>k. utf8_valid k \<and>
     \<not> legacy_key ''_struct_order'' STRUCT_ORDER_KEY k \<and>
     \<not> legacy_key ''_struct_types'' STRUCT_TYPES_KEY k) ks"

function (sequential) snapshot_ok :: "value_lib \<Rightarrow> val \<Rightarrow> bool" where
  "snapshot_ok L (V_VertexProperty n owner key v) \<longleftrightarrow>
     snapshot_ok L owner \<and> utf8_valid key \<and> snapshot_ok L v"
| "snapshot_ok L (V_Property owner key v) \<longleftrightarrow>
     snapshot_ok L owner \<and> utf8_valid key \<and> snapshot_ok L v"
| "snapshot_ok L (V_Scalar s) \<longleftrightarrow> ipc_ok L s"
| "snapshot_ok L (V_BigInt n) \<longleftrightarrow>
     bigint_of_text L (bigint_text L n) = Some n \<and> utf8_valid (bigint_text L n)"
| "snapshot_ok L (V_UInt128 n) \<longleftrightarrow>
     bigint_of_text L (bigint_text L n) = Some n \<and> utf8_valid (bigint_text L n)"
| "snapshot_ok L (V_BigDecimal n s) \<longleftrightarrow>
     decimal_of_text L (decimal_text L n s) = Some (n, s) \<and> utf8_valid (decimal_text L n s)"
| "snapshot_ok L (V_Temporal t) \<longleftrightarrow> temporal_ok L t \<and> utf8_valid (temporal_encode L t)"
| "snapshot_ok L (V_DateTime s) \<longleftrightarrow> utf8_valid s"
| "snapshot_ok L (V_String s) \<longleftrightarrow> utf8_valid s"
| "snapshot_ok L (V_Token s) \<longleftrightarrow> utf8_valid s"
| "snapshot_ok L (V_Direction s) \<longleftrightarrow> utf8_valid s"
| "snapshot_ok L (V_Node l e) \<longleftrightarrow> utf8_valid l \<and> snapshot_id L e"
| "snapshot_ok L (V_Edge rel e sl s dl d ks) \<longleftrightarrow>
     utf8_valid rel \<and> snapshot_id L e \<and> utf8_valid sl \<and> snapshot_id L s \<and>
     utf8_valid dl \<and> snapshot_id L d \<and> list_all utf8_valid (case ks of None \<Rightarrow> [] | Some k \<Rightarrow> k)"
| "snapshot_ok L (V_List xs) \<longleftrightarrow> list_all (snapshot_ok L) xs"
| "snapshot_ok L (V_BulkSet xs) \<longleftrightarrow> list_all (snapshot_ok L) xs"
| "snapshot_ok L (V_Path xs) \<longleftrightarrow> list_all (snapshot_ok L) xs"
| "snapshot_ok L (V_Set xs) \<longleftrightarrow>
     distinct (map (set_member_key L) xs) \<and> list_all (snapshot_ok L) xs"
| "snapshot_ok L (V_Map m) \<longleftrightarrow>
     bt_ordered m \<and> plain_map_keys (map fst m) \<and> list_all (\<lambda>p. snapshot_ok L (snd p)) m"
| "snapshot_ok L (V_TypedMap m) \<longleftrightarrow>
     list_all (\<lambda>p. snapshot_ok L (fst p) \<and> snapshot_ok L (snd p)) m"
| "snapshot_ok L (V_MapEntry k v) \<longleftrightarrow> snapshot_ok L k \<and> snapshot_ok L v"
| "snapshot_ok L (V_CardinalityValue c v) \<longleftrightarrow>
     c \<in> {''single'', ''list'', ''set''} \<and> snapshot_ok L v"
| "snapshot_ok L _ \<longleftrightarrow> True"
  by pat_completeness auto
termination
  by (relation "measure (\<lambda>(L, v). size v)") (auto simp: size_val_list size_val_map size_val_entries)

lemma encode_value_nonempty: "1 \<le> length (encode_value L v)"
  by (cases v) simp_all

lemma reads_payload:
  assumes "reads p bs a" "g a = Inr b"
  shows "reads (rbind p (\<lambda>x. rbind (payload (g x)) (\<lambda>y. rret (f y)))) bs (f b)"
proof -
  have "reads (rbind (payload (g a)) (\<lambda>y. rret (f y))) [] (f b)"
    by (rule reads_rbind_ret) (simp add: payload_def assms(2) reads_rlift)
  from reads_rbind [where f = "\<lambda>x. rbind (payload (g x)) (\<lambda>y. rret (f y))", OF assms(1) this]
  show ?thesis by simp
qed

lemma reads_element_id:
  assumes "snapshot_id L e" "length (eid_encode L e) < 2 ^ 64"
  shows "reads (rd_element_id L) (put_bytes (eid_encode L e)) e"
proof -
  have "eid_decode L (eid_encode L e) = Inr e"
    using assms(1) by (simp add: snapshot_id_def eid_decode_encode)
  then have "reads (payload (eid_decode L (eid_encode L e))) [] e"
    by (simp add: payload_def reads_rlift)
  from reads_rbind [where f = "\<lambda>b. payload (eid_decode L b)", OF reads_blob [OF assms(2)] this]
  show ?thesis by (simp add: rd_element_id_def)
qed

lemma length_put_str_list: "length ks \<le> length (put_str_list ks)"
  "k \<in> set ks \<Longrightarrow> length k \<le> length (put_str_list ks)"
  unfolding put_str_list_def
  by (auto intro!: le_trans [OF length_concat_ge [of ks put_str]]) (induction ks, auto)

lemma reads_projected:
  assumes "list_all utf8_valid (case ks of None \<Rightarrow> [] | Some k \<Rightarrow> k)"
    and "length (case ks of None \<Rightarrow> put_u8 0 | Some k \<Rightarrow> put_u8 1 @ put_str_list k) < 2 ^ 64"
  shows "reads rd_projected (case ks of None \<Rightarrow> put_u8 0 | Some k \<Rightarrow> put_u8 1 @ put_str_list k) ks"
proof (cases ks)
  case None
  have "reads rd_projected (put_u8 0 @ []) None"
    unfolding rd_projected_def by (rule reads_rbind [OF reads_u8]) (simp add: reads_rret)
  then show ?thesis by (simp add: None)
next
  case (Some k)
  have "length s < 2 ^ 64" if "s \<in> set k" for s
    using length_put_str_list(2) [OF that] assms(2) by (simp add: Some)
  moreover have "length k < 2 ^ 64"
    using length_put_str_list(1) [of k] assms(2) by (simp add: Some)
  ultimately have "reads decode_str_list (put_str_list k) k"
    using assms(1) by (intro reads_str_list) (auto simp: Some list_all_iff)
  then have "reads rd_projected (put_u8 1 @ put_str_list k) (Some k)"
    unfolding rd_projected_def
    by (intro reads_rbind [OF reads_u8]) (simp add: reads_rbind_ret)
  then show ?thesis by (simp add: Some)
qed

lemma reads_items:
  assumes "\<And>x. x \<in> set xs \<Longrightarrow> reads p (e x) x" "\<And>x. x \<in> set xs \<Longrightarrow> 1 \<le> length (e x)"
    and "length (concat (map e xs)) < 2 ^ 64"
  shows "reads (rbind rd_count (\<lambda>n. rd_many n p)) (put_u64 (of_nat (length xs)) @ concat (map e xs)) xs"
proof (rule reads_count_then)
  show "length xs \<le> length (concat (map e xs))"
    by (rule length_concat_ge [OF assms(2)])
  then show "length xs < 2 ^ 64" using assms(3) by linarith
qed (rule reads_many; simp add: assms(1))

lemma length_le_concat: "x \<in> set xs \<Longrightarrow> length (e x) \<le> length (concat (map e xs))"
  by (induction xs) auto

lemma normalize_plain:
  assumes "plain_map_keys (map fst m)"
  shows "normalize_struct_metadata m = m"
  using assms
  by (simp add: normalize_struct_metadata_def normalize_suffix_def plain_map_keys_def
      list_all_iff filter_empty_conv)

lemma gremlin_set_loop_id:
  "distinct (map (set_member_key L) xs) \<Longrightarrow> set_member_key L ` set xs \<inter> seen = {} \<Longrightarrow>
    gremlin_set_loop L seen xs = xs"
  by (induction xs arbitrary: seen) auto

lemma gremlin_set_id: "distinct (map (set_member_key L) xs) \<Longrightarrow> gremlin_set L xs = V_Set xs"
  by (simp add: gremlin_set_def gremlin_set_loop_id)

section \<open>Reading back an encoded value\<close>

lemma reads_tagged:
  assumes "length bs < f" "\<And>g. length bs \<le> g \<Longrightarrow> reads (decode_tag L (decode_fuel L g) t) bs v"
  shows "reads (decode_fuel L f) (put_u8 t @ bs) v"
proof -
  from assms(1) obtain g where f: "f = Suc g" "length bs \<le> g" by (cases f) auto
  show ?thesis
    by (simp add: f(1)) (rule reads_rbind [OF reads_u8], rule assms(2) [OF f(2)])
qed

lemma reads_bare_tag:
  assumes "0 < f" "\<And>g. reads (decode_tag L (decode_fuel L g) t) [] v"
  shows "reads (decode_fuel L f) (put_u8 t) v"
  using reads_tagged [of "[]" f L t v] assms by simp

lemmas reads_leaf_rules = reads_rbind_ret reads_u8 reads_words reads_rbind

lemma reads_values:
  assumes "\<And>x. x \<in> set xs \<Longrightarrow> reads rec (encode_value L x) x"
    and "length (concat (map (encode_value L) xs)) < 2 ^ 64"
  shows "reads (decode_values rec)
    (put_u64 (of_nat (length xs)) @ concat (map (encode_value L) xs)) xs"
  unfolding decode_values_def
  by (rule reads_items [OF assms(1) encode_value_nonempty assms(2)])

lemma reads_map:
  assumes "\<And>p. p \<in> set m \<Longrightarrow> reads rec (encode_value L (snd p)) (snd p)"
    and "bt_ordered m" "plain_map_keys (map fst m)"
    and len: "length (concat (map (\<lambda>p. put_str (fst p) @ encode_value L (snd p)) m)) < 2 ^ 64"
  shows "reads (decode_map rec) (put_u64 (of_nat (length m)) @
    concat (map (\<lambda>p. put_str (fst p) @ encode_value L (snd p)) m)) m"
proof -
  let ?e = "\<lambda>p. put_str (fst p) @ encode_value L (snd p)"
  have "reads (rbind rd_str (\<lambda>k. rbind rec (\<lambda>v. rret (k, v)))) (?e p) p" if p: "p \<in> set m" for p
  proof -
    have "utf8_valid (fst p)" "length (fst p) < 2 ^ 64"
      using assms(3) p length_le_concat [OF p, of ?e] len by (auto simp: plain_map_keys_def list_all_iff)
    then show ?thesis
      using reads_rbind [OF reads_str reads_rbind_ret [OF assms(1) [OF p]], of "fst p" Pair] by simp
  qed
  then have "reads (rd_many (length m) (rbind rd_str (\<lambda>k. rbind rec (\<lambda>v. rret (k, v)))))
      (concat (map ?e m)) m"
    by (rule reads_many) simp_all
  from reads_rbind_ret [OF this, of "\<lambda>es. normalize_struct_metadata (bt_of_entries es)"]
  have "reads (rbind (rd_many (length m) (rbind rd_str (\<lambda>k. rbind rec (\<lambda>v. rret (k, v)))))
      (\<lambda>es. rret (normalize_struct_metadata (bt_of_entries es)))) (concat (map ?e m)) m"
    by (simp add: bt_of_entries_ordered assms(2) normalize_plain [OF assms(3)])
  moreover have "length m \<le> length (concat (map ?e m))"
    by (rule length_concat_ge) simp
  ultimately show ?thesis
    unfolding decode_map_def using len by (intro reads_count_then) simp_all
qed

lemma reads_entries:
  assumes "\<And>p. p \<in> set m \<Longrightarrow> reads rec (encode_value L (fst p)) (fst p)"
    and "\<And>p. p \<in> set m \<Longrightarrow> reads rec (encode_value L (snd p)) (snd p)"
    and "length (concat (map (\<lambda>p. encode_value L (fst p) @ encode_value L (snd p)) m)) < 2 ^ 64"
  shows "reads (decode_entries rec) (put_u64 (of_nat (length m)) @
    concat (map (\<lambda>p. encode_value L (fst p) @ encode_value L (snd p)) m)) m"
  unfolding decode_entries_def
proof (rule reads_items [OF _ _ assms(3)])
  fix p assume p: "p \<in> set m"
  show "reads (rbind rec (\<lambda>k. rbind rec (\<lambda>v. rret (k, v)))) (encode_value L (fst p) @ encode_value L (snd p)) p"
    using reads_rbind [OF assms(1) [OF p] reads_rbind_ret [OF assms(2) [OF p]], of Pair] by simp
  show "1 \<le> length (encode_value L (fst p) @ encode_value L (snd p))"
    using encode_value_nonempty [of L "fst p"] by simp
qed

lemma reads_cardinality:
  assumes "c \<in> {''single'', ''list'', ''set''}" "reads rec bs v"
  shows "reads (decode_tag L rec 29) (put_str c @ bs) (V_CardinalityValue c v)"
proof -
  have "utf8_valid c" "length c < 2 ^ 64"
    using assms(1) by (auto simp: utf8_valid_def str_bytes_def utf8_seq_def)
  moreover have "reads (if c \<in> {''single'', ''list'', ''set''}
      then rbind rec (\<lambda>v. rret (V_CardinalityValue c v)) else rfail InvalidCardinality) bs (V_CardinalityValue c v)"
    using assms by (simp only: if_True) (rule reads_rbind_ret)
  ultimately show ?thesis
    unfolding decode_tag_simps by (intro reads_rbind [OF reads_str])
qed

lemma reads_str_in:
  "utf8_valid s \<Longrightarrow> length (put_str s) < 2 ^ 64 \<Longrightarrow> reads rd_str (put_str s) s"
  by (rule reads_str) simp_all

lemma reads_id_in:
  "snapshot_id L e \<Longrightarrow> length (put_bytes (eid_encode L e)) < 2 ^ 64 \<Longrightarrow>
    reads (rd_element_id L) (put_bytes (eid_encode L e)) e"
  by (rule reads_element_id) simp_all

text \<open>\<open>decodes L v\<close>: with at least as much fuel as bytes, the encoding of \<open>v\<close> reads back.\<close>

definition decodes :: "value_lib \<Rightarrow> val \<Rightarrow> bool" where
  "decodes L v \<longleftrightarrow> (\<forall>f. length (encode_value L v) \<le> f \<longrightarrow> reads (decode_fuel L f) (encode_value L v) v)"

lemma decodesD: "decodes L v \<Longrightarrow> length (encode_value L v) \<le> f \<Longrightarrow>
    reads (decode_fuel L f) (encode_value L v) v"
  by (simp add: decodes_def)

lemma decodes_tagged:
  assumes "encode_value L v = put_u8 t @ bs"
    and "\<And>g. length bs \<le> g \<Longrightarrow> reads (decode_tag L (decode_fuel L g) t) bs v"
  shows "decodes L v"
  unfolding decodes_def assms(1) by (auto intro!: reads_tagged assms(2))

lemma decodes_tag_only:
  assumes "encode_value L v = put_u8 t" "\<And>g. reads (decode_tag L (decode_fuel L g) t) [] v"
  shows "decodes L v"
  by (rule decodes_tagged [of L v t "[]"]) (simp_all add: assms)

lemma decodes_words [simp]:
  "decodes L V_Null" "decodes L (V_Bool b)" "decodes L (V_Byte n8)" "decodes L (V_UInt8 n8)"
  "decodes L (V_Short n16)" "decodes L (V_UInt16 n16)" "decodes L (V_Int n64)"
  "decodes L (V_UInt32 n32)" "decodes L (V_Long n64)" "decodes L (V_UInt64 n64)"
  "decodes L (V_Float32 n32)" "decodes L (V_Float n64)" "decodes L (V_InternalId n64 m64)"
proof -
  show "decodes L (V_Bool b)"
    using reads_rbind_ret [OF reads_u8, of "\<lambda>n. V_Bool (n \<noteq> 0)" "if b then 1 else 0"]
    by (intro decodes_tagged [OF encode_value.simps(5)]) (cases b; simp add: decode_tag_simps)
qed (rule decodes_tag_only [OF encode_value.simps(4)] decodes_tagged [OF encode_value.simps(6)]
      decodes_tagged [OF encode_value.simps(7)] decodes_tagged [OF encode_value.simps(8)]
      decodes_tagged [OF encode_value.simps(9)] decodes_tagged [OF encode_value.simps(10)]
      decodes_tagged [OF encode_value.simps(11)] decodes_tagged [OF encode_value.simps(12)]
      decodes_tagged [OF encode_value.simps(13)] decodes_tagged [OF encode_value.simps(14)]
      decodes_tagged [OF encode_value.simps(15)] decodes_tagged [OF encode_value.simps(21)],
     simp only: decode_tag_simps,
     intro reads_rret reads_rbind_ret reads_u8 reads_words reads_rbind [OF reads_words(5)])+

lemma decodes_decimal:
  assumes "snapshot_ok L (V_BigDecimal n s)" "length (encode_value L (V_BigDecimal n s)) < 2 ^ 64"
  shows "decodes L (V_BigDecimal n s)"
proof -
  have "reads rd_str (put_str (decimal_text L n s)) (decimal_text L n s)"
    using assms by (intro reads_str_in) simp_all
  from reads_payload [OF this, of "\<lambda>s. ok_or (decimal_of_text L s) ''invalid BigDecimal''" "(n, s)"
      "\<lambda>d. V_BigDecimal (fst d) (snd d)"]
  show ?thesis
    using assms by (intro decodes_tagged [OF encode_value.simps(18)]) (simp add: decode_tag_simps)
qed

lemma decodes_texts:
  "snapshot_ok L (V_BigInt n) \<Longrightarrow> length (encode_value L (V_BigInt n)) < 2 ^ 64 \<Longrightarrow> decodes L (V_BigInt n)"
  "snapshot_ok L (V_UInt128 n) \<Longrightarrow> length (encode_value L (V_UInt128 n)) < 2 ^ 64 \<Longrightarrow> decodes L (V_UInt128 n)"
  "snapshot_ok L (V_Temporal t) \<Longrightarrow> length (encode_value L (V_Temporal t)) < 2 ^ 64 \<Longrightarrow> decodes L (V_Temporal t)"
  "snapshot_ok L (V_DateTime x) \<Longrightarrow> length (encode_value L (V_DateTime x)) < 2 ^ 64 \<Longrightarrow> decodes L (V_DateTime x)"
  "snapshot_ok L (V_String x) \<Longrightarrow> length (encode_value L (V_String x)) < 2 ^ 64 \<Longrightarrow> decodes L (V_String x)"
  "snapshot_ok L (V_Token x) \<Longrightarrow> length (encode_value L (V_Token x)) < 2 ^ 64 \<Longrightarrow> decodes L (V_Token x)"
  "snapshot_ok L (V_Direction x) \<Longrightarrow> length (encode_value L (V_Direction x)) < 2 ^ 64 \<Longrightarrow> decodes L (V_Direction x)"
  "snapshot_ok L (V_Scalar sv) \<Longrightarrow> length (encode_value L (V_Scalar sv)) < 2 ^ 64 \<Longrightarrow> decodes L (V_Scalar sv)"
  by (rule decodes_tagged [OF encode_value.simps(16)] decodes_tagged [OF encode_value.simps(17)]
       decodes_tagged [OF encode_value.simps(19)] decodes_tagged [OF encode_value.simps(20)]
       decodes_tagged [OF encode_value.simps(22)] decodes_tagged [OF encode_value.simps(30)]
       decodes_tagged [OF encode_value.simps(31)] decodes_tagged [OF encode_value.simps(3)],
     simp only: decode_tag_simps, intro reads_payload [OF reads_str_in] reads_payload [OF reads_blob] reads_rbind_ret reads_str_in;
     simp add: temporal_decode_encode ipc_ok_def)+

lemma decodes_elements:
  "snapshot_ok L (V_Node l e) \<Longrightarrow> length (encode_value L (V_Node l e)) < 2 ^ 64 \<Longrightarrow> decodes L (V_Node l e)"
  "snapshot_ok L (V_Edge rel e sl s dl d ks) \<Longrightarrow>
     length (encode_value L (V_Edge rel e sl s dl d ks)) < 2 ^ 64 \<Longrightarrow> decodes L (V_Edge rel e sl s dl d ks)"
  by (rule decodes_tagged [OF encode_value.simps(23)] decodes_tagged [OF encode_value.simps(24)],
     simp only: decode_tag_simps,
     intro reads_rbind_ret reads_rbind [OF reads_str_in] reads_rbind [OF reads_id_in] reads_id_in
       reads_projected; simp)+

lemma decodes_nested:
  "decodes L owner \<Longrightarrow> decodes L v \<Longrightarrow> utf8_valid key \<Longrightarrow>
     length (encode_value L (V_VertexProperty n owner key v)) < 2 ^ 64 \<Longrightarrow>
     decodes L (V_VertexProperty n owner key v)"
  "decodes L owner \<Longrightarrow> decodes L v \<Longrightarrow> utf8_valid key \<Longrightarrow>
     length (encode_value L (V_Property owner key v)) < 2 ^ 64 \<Longrightarrow> decodes L (V_Property owner key v)"
  "decodes L k \<Longrightarrow> decodes L v \<Longrightarrow> decodes L (V_MapEntry k v)"
  "decodes L v \<Longrightarrow> c \<in> {''single'', ''list'', ''set''} \<Longrightarrow> decodes L (V_CardinalityValue c v)"
proof -
  assume "decodes L v" "c \<in> {''single'', ''list'', ''set''}"
  then show "decodes L (V_CardinalityValue c v)"
    by (intro decodes_tagged [OF encode_value.simps(27)] reads_cardinality decodesD) simp_all
qed (rule decodes_tagged [OF encode_value.simps(1)] decodes_tagged [OF encode_value.simps(2)]
       decodes_tagged [OF encode_value.simps(28)],
     simp only: decode_tag_simps,
     intro reads_rbind_ret reads_rbind [OF reads_words(5)] reads_rbind [OF reads_str_in]
       reads_rbind [OF decodesD] decodesD; simp)+

lemma decodes_lists:
  assumes "\<And>x. x \<in> set xs \<Longrightarrow> decodes L x" "length (concat (map (encode_value L) xs)) < 2 ^ 64"
  shows "decodes L (V_List xs)" "decodes L (V_BulkSet xs)" "decodes L (V_Path xs)"
    "distinct (map (set_member_key L) xs) \<Longrightarrow> decodes L (V_Set xs)"
proof -
  have body: "reads (decode_values (decode_fuel L g))
      (put_u64 (of_nat (length xs)) @ concat (map (encode_value L) xs)) xs"
    if "length (put_u64 (of_nat (length xs)) @ concat (map (encode_value L) xs)) \<le> g" for g
    using that length_le_concat [of _ xs "encode_value L"]
    by (intro reads_values [OF decodesD [OF assms(1)] assms(2)]) force+
  show "decodes L (V_List xs)"
    by (rule decodes_tagged [OF encode_value.simps(25)])
      (simp only: decode_tag_simps reads_rbind_ret [OF body])
  show "decodes L (V_BulkSet xs)"
    by (rule decodes_tagged [OF encode_value.simps(32)])
      (simp only: decode_tag_simps reads_rbind_ret [OF body])
  show "decodes L (V_Path xs)"
    by (rule decodes_tagged [OF encode_value.simps(34)])
      (simp only: decode_tag_simps reads_rbind_ret [OF body])
  show "decodes L (V_Set xs)" if "distinct (map (set_member_key L) xs)"
    by (rule decodes_tagged [OF encode_value.simps(33)])
      (simp only: decode_tag_simps reads_rbind_ret [OF body] gremlin_set_id [OF that, symmetric])
qed

lemma decodes_maps:
  "(\<And>p. p \<in> set m \<Longrightarrow> decodes L (snd p)) \<Longrightarrow> bt_ordered m \<Longrightarrow> plain_map_keys (map fst m) \<Longrightarrow>
     length (encode_value L (V_Map m)) < 2 ^ 64 \<Longrightarrow> decodes L (V_Map m)"
  "(\<And>p. p \<in> set ps \<Longrightarrow> decodes L (fst p) \<and> decodes L (snd p)) \<Longrightarrow>
     length (encode_value L (V_TypedMap ps)) < 2 ^ 64 \<Longrightarrow> decodes L (V_TypedMap ps)"
proof -
  assume m: "\<And>p. p \<in> set m \<Longrightarrow> decodes L (snd p)" "bt_ordered m" "plain_map_keys (map fst m)"
    "length (encode_value L (V_Map m)) < 2 ^ 64"
  let ?e = "\<lambda>p. put_str (fst p) @ encode_value L (snd p)"
  have "length (encode_value L (snd p)) \<le> length (concat (map ?e m))" if "p \<in> set m" for p
    using length_le_concat [OF that, of ?e] by simp
  with m show "decodes L (V_Map m)"
    by (intro decodes_tagged [OF encode_value.simps(26)])
      (simp only: decode_tag_simps, intro reads_rbind_ret reads_map decodesD, force+)
next
  assume ps: "\<And>p. p \<in> set ps \<Longrightarrow> decodes L (fst p) \<and> decodes L (snd p)"
    "length (encode_value L (V_TypedMap ps)) < 2 ^ 64"
  let ?e = "\<lambda>p. encode_value L (fst p) @ encode_value L (snd p)"
  have "length (?e p) \<le> length (concat (map ?e ps))" if "p \<in> set ps" for p
    using length_le_concat [OF that, of ?e] by simp
  with ps show "decodes L (V_TypedMap ps)"
    by (intro decodes_tagged [OF encode_value.simps(29)])
      (simp only: decode_tag_simps, intro reads_rbind_ret reads_entries decodesD, force+)
qed

lemma length_parts:
  "x \<in> set xs \<Longrightarrow> length (encode_value L x) \<le> length (encode_value L (V_List xs))"
  "x \<in> set xs \<Longrightarrow> length (encode_value L x) \<le> length (encode_value L (V_Set xs))"
  "x \<in> set xs \<Longrightarrow> length (encode_value L x) \<le> length (encode_value L (V_BulkSet xs))"
  "x \<in> set xs \<Longrightarrow> length (encode_value L x) \<le> length (encode_value L (V_Path xs))"
  "p \<in> set m \<Longrightarrow> length (encode_value L (snd p)) \<le> length (encode_value L (V_Map m))"
  "q \<in> set ps \<Longrightarrow> length (encode_value L (fst q)) \<le> length (encode_value L (V_TypedMap ps))"
  "q \<in> set ps \<Longrightarrow> length (encode_value L (snd q)) \<le> length (encode_value L (V_TypedMap ps))"
  using length_le_concat [of x xs "encode_value L"]
    length_le_concat [of p m "\<lambda>p. put_str (fst p) @ encode_value L (snd p)"]
    length_le_concat [of q ps "\<lambda>p. encode_value L (fst p) @ encode_value L (snd p)"]
  by auto

lemma decodes_ok:
  assumes "snapshot_ok L v" "length (encode_value L v) < 2 ^ 64"
  shows "decodes L v"
  using assms
proof (induction L v rule: encode_value.induct)
  case (25 L xs)
  have "decodes L x" if "x \<in> set xs" for x
    using "25.IH" [OF that] "25.prems" le_less_trans [OF length_parts(1) [OF that, of L]]
    by (simp add: list_all_iff that)
  then show ?case
    using "25.prems" by (intro decodes_lists) simp_all
next
  case (26 L m)
  have snd: "decodes L (snd p)" if "p \<in> set m" for p
    using "26.IH" [OF that] "26.prems" le_less_trans [OF length_parts(5) [OF that, of L]]
    by (simp add: list_all_iff that)
  show ?case
    using "26.prems" snd by (intro decodes_maps) simp_all
next
  case (29 L m)
  have fst: "decodes L (fst p)" if "p \<in> set m" for p
    using "29.IH"(1) [OF that] "29.prems" le_less_trans [OF length_parts(6) [OF that, of L]]
    by (simp add: list_all_iff that)
  have snd: "decodes L (snd p)" if "p \<in> set m" for p
    using "29.IH"(2) [OF that] "29.prems" le_less_trans [OF length_parts(7) [OF that, of L]]
    by (simp add: list_all_iff that)
  show ?case
    using "29.prems" fst snd by (intro decodes_maps) simp_all
next
  case (32 L xs)
  have "decodes L x" if "x \<in> set xs" for x
    using "32.IH" [OF that] "32.prems" le_less_trans [OF length_parts(3) [OF that, of L]]
    by (simp add: list_all_iff that)
  then show ?case
    using "32.prems" by (intro decodes_lists) simp_all
next
  case (33 L xs)
  have "decodes L x" if "x \<in> set xs" for x
    using "33.IH" [OF that] "33.prems" le_less_trans [OF length_parts(2) [OF that, of L]]
    by (simp add: list_all_iff that)
  then show ?case
    using "33.prems" by (intro decodes_lists) simp_all
next
  case (34 L xs)
  have "decodes L x" if "x \<in> set xs" for x
    using "34.IH" [OF that] "34.prems" le_less_trans [OF length_parts(4) [OF that, of L]]
    by (simp add: list_all_iff that)
  then show ?case
    using "34.prems" by (intro decodes_lists) simp_all
qed ((rule decodes_words decodes_texts decodes_decimal decodes_elements decodes_nested; simp)+)

definition snapshot_fits :: "value_lib \<Rightarrow> val \<Rightarrow> bool" where
  "snapshot_fits L v \<longleftrightarrow> snapshot_ok L v \<and> length (encode_value L v) < 2 ^ 64"

lemma reads_decode_value:
  assumes "snapshot_fits L v"
  shows "reads (decode_value L) (encode_value L v) v"
proof -
  have "decode_value L \<lparr>buf = pre @ encode_value L v @ post, pos = length pre\<rparr> =
      Inr (v, \<lparr>buf = pre @ encode_value L v @ post, pos = length pre + length (encode_value L v)\<rparr>)" for pre post
    unfolding decode_value_def
    by (rule readsD, rule decodesD)
      (use assms in \<open>auto simp: remaining_def snapshot_fits_def intro: decodes_ok\<close>)
  then show ?thesis by (simp add: reads_def)
qed

interpretation snapshot: wire_format "encode_value L" "decode_value L" "snapshot_fits L" for L
  by unfold_locales (auto intro: reads_decode_value stable_decode_value)

section \<open>What a decoded value looks like\<close>

text \<open>
  The shape every decoded value has, whatever bytes it came from: accepted identities,
  known cardinalities, sets without two members of one key, string maps in key order whose
  struct metadata stands under the current names only.
\<close>

definition no_legacy :: "string list \<Rightarrow> bool" where
  "no_legacy ks \<longleftrightarrow> list_all (\<lambda>k.
     \<not> legacy_key ''_struct_order'' STRUCT_ORDER_KEY k \<and>
     \<not> legacy_key ''_struct_types'' STRUCT_TYPES_KEY k) ks"

function (sequential) value_wf :: "value_lib \<Rightarrow> val \<Rightarrow> bool" where
  "value_wf L (V_VertexProperty n owner key v) \<longleftrightarrow> value_wf L owner \<and> value_wf L v"
| "value_wf L (V_Property owner key v) \<longleftrightarrow> value_wf L owner \<and> value_wf L v"
| "value_wf L (V_Node l e) \<longleftrightarrow> eid_ok e"
| "value_wf L (V_Edge rel e sl s dl d ks) \<longleftrightarrow> eid_ok e \<and> eid_ok s \<and> eid_ok d"
| "value_wf L (V_List xs) \<longleftrightarrow> list_all (value_wf L) xs"
| "value_wf L (V_BulkSet xs) \<longleftrightarrow> list_all (value_wf L) xs"
| "value_wf L (V_Path xs) \<longleftrightarrow> list_all (value_wf L) xs"
| "value_wf L (V_Set xs) \<longleftrightarrow> distinct (map (set_member_key L) xs) \<and> list_all (value_wf L) xs"
| "value_wf L (V_Map m) \<longleftrightarrow>
     bt_ordered m \<and> no_legacy (map fst m) \<and> list_all (\<lambda>p. value_wf L (snd p)) m"
| "value_wf L (V_TypedMap m) \<longleftrightarrow> list_all (\<lambda>p. value_wf L (fst p) \<and> value_wf L (snd p)) m"
| "value_wf L (V_MapEntry k v) \<longleftrightarrow> value_wf L k \<and> value_wf L v"
| "value_wf L (V_CardinalityValue c v) \<longleftrightarrow> c \<in> {''single'', ''list'', ''set''} \<and> value_wf L v"
| "value_wf L _ \<longleftrightarrow> True"
  by pat_completeness auto
termination
  by (relation "measure (\<lambda>(L, v). size v)") (auto simp: size_val_list size_val_map size_val_entries)

lemma move_to_canonical_ordered: "bt_ordered m \<Longrightarrow> bt_ordered (move_to_canonical c k m)"
  by (auto simp: move_to_canonical_def bt_or_insert_def bt_ordered_insert bt_ordered_remove
      split: option.splits)

lemma move_to_canonical_keys:
  "fst ` set (move_to_canonical c k m) \<subseteq> insert c (fst ` set m - {k})"
proof (cases "map_of m k")
  case None
  then have "k \<notin> fst ` set m" by (simp add: map_of_eq_None_iff)
  then show ?thesis using None by (auto simp: move_to_canonical_def)
next
  case (Some v)
  have "fst ` set (bt_remove k m) = fst ` set m - {k}"
    by (auto simp: bt_remove_def image_iff)
  then show ?thesis
    using Some keys_bt_insert [of c v "bt_remove k m"]
    by (auto simp: move_to_canonical_def bt_or_insert_def split: option.splits)
qed

lemma move_to_canonical_values:
  "snd ` set (move_to_canonical c k m) \<subseteq> snd ` set m"
proof (cases "map_of m k")
  case (Some v)
  have "v \<in> snd ` set m" using map_of_SomeD [OF Some] by force
  moreover have "snd ` set (bt_remove k m) \<subseteq> snd ` set m" by (auto simp: bt_remove_def)
  ultimately show ?thesis
    using values_bt_insert [of c v "bt_remove k m"]
    by (simp add: move_to_canonical_def bt_or_insert_def Some split: option.splits) blast
qed (simp add: move_to_canonical_def)

lemma normalize_suffix_wf:
  assumes "bt_ordered m"
  shows "bt_ordered (normalize_suffix (sfx, c) m)"
    and "snd ` set (normalize_suffix (sfx, c) m) \<subseteq> snd ` set m"
    and "k \<in> fst ` set (normalize_suffix (sfx, c) m) \<Longrightarrow> k = c \<or> k \<in> fst ` set m \<and> \<not> legacy_key sfx c k"
proof -
  have fold: "bt_ordered (fold (move_to_canonical c) ks m) \<and>
      snd ` set (fold (move_to_canonical c) ks m) \<subseteq> snd ` set m \<and>
      fst ` set (fold (move_to_canonical c) ks m) \<subseteq> insert c (fst ` set m - set ks)"
    if "bt_ordered m" for ks m
    using that
  proof (induction ks arbitrary: m)
    case (Cons k ks)
    have "bt_ordered (move_to_canonical c k m)"
      by (rule move_to_canonical_ordered [OF Cons.prems])
    note IH = Cons.IH [OF this]
    have "snd ` set (fold (move_to_canonical c) (k # ks) m) \<subseteq> snd ` set m"
      using IH move_to_canonical_values [of c k m] by (simp only: fold_Cons comp_apply) blast
    moreover have "fst ` set (fold (move_to_canonical c) (k # ks) m) \<subseteq> insert c (fst ` set m - set (k # ks))"
      using IH move_to_canonical_keys [of c k m] by (simp only: fold_Cons comp_apply list.set) blast
    ultimately show ?case using IH by simp
  qed auto
  from fold [OF assms, of "filter (legacy_key sfx c) (map fst m)"]
  show "bt_ordered (normalize_suffix (sfx, c) m)"
    "snd ` set (normalize_suffix (sfx, c) m) \<subseteq> snd ` set m"
    "k \<in> fst ` set (normalize_suffix (sfx, c) m) \<Longrightarrow> k = c \<or> k \<in> fst ` set m \<and> \<not> legacy_key sfx c k"
    by (auto simp: normalize_suffix_def)
qed

lemma canonical_not_legacy [simp]:
  "\<not> legacy_key sfx c c"
  "\<not> legacy_key ''_struct_types'' STRUCT_TYPES_KEY STRUCT_ORDER_KEY"
  "\<not> legacy_key ''_struct_order'' STRUCT_ORDER_KEY STRUCT_TYPES_KEY"
  by (auto simp: legacy_key_def STRUCT_ORDER_KEY_def STRUCT_TYPES_KEY_def suffix_to_prefix)

lemma normalize_struct_metadata_wf:
  assumes "bt_ordered m"
  shows "bt_ordered (normalize_struct_metadata m)"
    and "no_legacy (map fst (normalize_struct_metadata m))"
    and "snd ` set (normalize_struct_metadata m) \<subseteq> snd ` set m"
proof -
  define m1 where "m1 = normalize_suffix (''_struct_order'', STRUCT_ORDER_KEY) m"
  have m2: "normalize_struct_metadata m = normalize_suffix (''_struct_types'', STRUCT_TYPES_KEY) m1"
    by (simp add: normalize_struct_metadata_def m1_def)
  note n1 = normalize_suffix_wf [OF assms, where sfx = "''_struct_order''" and c = STRUCT_ORDER_KEY, folded m1_def]
  note n2 = normalize_suffix_wf [OF n1(1), where sfx = "''_struct_types''" and c = STRUCT_TYPES_KEY, folded m2]
  show "bt_ordered (normalize_struct_metadata m)" by (rule n2(1))
  show "snd ` set (normalize_struct_metadata m) \<subseteq> snd ` set m" using n2(2) n1(2) by blast
  have "\<not> legacy_key ''_struct_order'' STRUCT_ORDER_KEY k \<and> \<not> legacy_key ''_struct_types'' STRUCT_TYPES_KEY k"
    if "k \<in> fst ` set (normalize_struct_metadata m)" for k
    using n2(3) [OF that] n1(3) [of k] canonical_not_legacy by metis
  then show "no_legacy (map fst (normalize_struct_metadata m))"
    by (simp add: no_legacy_def list_all_iff)
qed

lemma yields_payload [yields_intros]:
  "(\<And>a. x = Inr a \<Longrightarrow> P a) \<Longrightarrow> yields (payload x) P"
  by (auto simp: yields_def payload_def rlift_def split: sum.splits)

lemma yields_element_id [yields_intros]: "yields (rd_element_id L) eid_ok"
  unfolding rd_element_id_def
proof (rule yields_rbind [OF yields_any yields_payload])
  fix b e assume "eid_decode L b = Inr e"
  then show "eid_ok e"
    by (auto simp: eid_decode_def split: list.splits if_splits option.splits intro: element_new_ok)
qed

lemma yields_containers [yields_intros]:
  assumes "yields rec (value_wf L)"
  shows "yields (decode_values rec) (list_all (value_wf L))"
    and "yields (decode_entries rec) (list_all (\<lambda>p. value_wf L (fst p) \<and> value_wf L (snd p)))"
    and "yields (decode_map rec) (\<lambda>m. value_wf L (V_Map m))"
proof -
  show "yields (decode_values rec) (list_all (value_wf L))"
    unfolding decode_values_def by (intro yields_rbind [OF yields_any] yields_many assms)
  have "yields (rbind rec (\<lambda>k. rbind rec (\<lambda>v. rret (k, v)))) (\<lambda>p. value_wf L (fst p) \<and> value_wf L (snd p))"
    by (intro yields_rbind [OF assms] yields_rret) simp
  then show "yields (decode_entries rec) (list_all (\<lambda>p. value_wf L (fst p) \<and> value_wf L (snd p)))"
    unfolding decode_entries_def by (intro yields_rbind [OF yields_any yields_many])
  have "yields (rbind rd_str (\<lambda>k. rbind rec (\<lambda>v. rret (k, v)))) (\<lambda>p. value_wf L (snd p))"
    by (intro yields_rbind [OF yields_any] yields_rbind [OF assms] yields_rret) simp
  then have entries: "yields (rd_many n (rbind rd_str (\<lambda>k. rbind rec (\<lambda>v. rret (k, v)))))
      (list_all (\<lambda>p. value_wf L (snd p)))" for n
    by (rule yields_many)
  show "yields (decode_map rec) (\<lambda>m. value_wf L (V_Map m))"
    unfolding decode_map_def
  proof (rule yields_rbind [OF yields_any], rule yields_rbind [OF entries], rule yields_rret)
    fix es :: "(string \<times> val) list" assume es: "list_all (\<lambda>p. value_wf L (snd p)) es"
    then have "\<forall>v \<in> snd ` set es. value_wf L v" by (simp add: list_all_iff)
    moreover have "snd ` set (normalize_struct_metadata (bt_of_entries es)) \<subseteq> snd ` set es"
      using normalize_struct_metadata_wf(3) [OF bt_ordered_of_entries, of es] values_bt_of_entries [of es]
      by (rule subset_trans)
    ultimately have "\<forall>v \<in> snd ` set (normalize_struct_metadata (bt_of_entries es)). value_wf L v"
      by blast
    then show "value_wf L (V_Map (normalize_struct_metadata (bt_of_entries es)))"
      using normalize_struct_metadata_wf(1,2) [OF bt_ordered_of_entries, of es]
      by (simp add: list_all_iff)
  qed
qed

lemma value_wf_gremlin_set: "list_all (value_wf L) xs \<Longrightarrow> value_wf L (gremlin_set L xs)"
  using gremlin_set_loop_distinct [of L "{}" xs] gremlin_set_loop_subset [of L "{}" xs]
  by (auto simp: gremlin_set_def list_all_iff)

lemma yields_decode_tag:
  assumes "yields rec (value_wf L)"
  shows "yields (decode_tag L rec tag) (value_wf L)"
  unfolding decode_tag_def
  by (intro yields_if yields_rfail yields_rret yields_rbind [OF assms] yields_rbind [OF yields_element_id]
      yields_rbind [OF yields_containers(1) [OF assms]] yields_rbind [OF yields_containers(2) [OF assms]]
      yields_rbind [OF yields_containers(3) [OF assms]] yields_rbind [OF yields_any];
      simp add: value_wf_gremlin_set)

lemma yields_decode_fuel: "yields (decode_fuel L n) (value_wf L)"
proof (induction n)
  case (Suc n)
  show ?case
    by (simp add: yields_rbind [OF yields_any] yields_decode_tag [OF Suc])
qed (simp add: yields_rfail)

section \<open>Properties\<close>



text \<open>
  the snapshot format is unambiguous: the encodings of two values, followed by
  anything, coincide only when the values and what follows coincide.
\<close>

theorem snapshot_values_unambiguous:
  assumes "snapshot_fits L v" and "snapshot_fits L w"
    and "encode_value_bytes L v @ xs = encode_value_bytes L w @ ys"
  shows "v = w \<and> xs = ys"
  using snapshot.unambiguous [OF assms(1,2)] assms(3) by (simp add: encode_value_bytes_def)

theorem snapshot_values_unambiguous_witness: "V_Int 1 = V_Int 1 \<and> [5 :: u8] = [5]"
  by (rule snapshot_values_unambiguous [of text_lib]) (simp_all add: snapshot_fits_def)

text \<open>Bytes left over after one value are an error.\<close>

theorem snapshot_trailing_bytes_rejected:
  assumes "snapshot_fits L v" and "xs \<noteq> []"
  shows "decode_value_bytes L (encode_value_bytes L v @ xs) = Inl TrailingBytes"
  unfolding decode_value_bytes_def encode_value_bytes_def
  by (rule snapshot.trailing_rejected [OF assms])

theorem snapshot_trailing_bytes_rejected_witness:
  "decode_value_bytes text_lib (encode_value_bytes text_lib (V_String ''ab'') @ [0]) = Inl TrailingBytes"
  by (rule snapshot_trailing_bytes_rejected)
    (simp_all add: snapshot_fits_def utf8_valid_def str_bytes_def utf8_seq_def)

text \<open>every proper prefix of an encoded value is rejected: a torn write cannot be read as a value.\<close>

theorem snapshot_truncation_rejected:
  assumes "snapshot_fits L v" and "encode_value_bytes L v = xs @ ys" and "ys \<noteq> []"
  shows "\<exists>e. decode_value_bytes L xs = Inl e"
  unfolding decode_value_bytes_def
  using snapshot.truncated_rejected [OF assms(1) _ assms(3)] assms(2) by (simp add: encode_value_bytes_def)

theorem snapshot_truncation_rejected_witness:
  "\<exists>e. decode_value_bytes text_lib [20, 2, 0, 0, 0, 0, 0, 0, 0, 1, 1] = Inl e"
  by (rule snapshot_truncation_rejected [of text_lib "V_List [V_Bool True, V_Null]" _ "[0]"])
    (simp add: snapshot_fits_def, code_simp, simp)

text \<open>
  C15: decoding arbitrary bytes always returns a value or one of the decoder's own errors:
  the recursion is bounded by the input, whatever counts and tags it claims.
\<close>

theorem decode_value_total: "decode_value_bytes L data \<noteq> Inl OutOfFuel"
proof -
  have "decode_value L (new_reader data) \<noteq> Inl OutOfFuel"
    using fueled_decode_fuel [of "length data" L]
    by (simp add: fueled_def decode_value_def new_reader_def remaining_def del: decode_fuel.simps)
  then show ?thesis
    by (auto simp: decode_value_bytes_def decode_exactly_def finish_def split: sum.splits if_splits)
qed

text \<open>
  C16: whatever bytes a value was decoded from, it is well formed: native sets hold one
  member per key, string maps are ordered and carry struct metadata only under its current
  names, cardinality wrappers are one of the three known ones and every element identity is
  one the constructor accepts.
\<close>

theorem decoded_value_well_formed:
  assumes "decode_value_bytes L data = Inr v"
  shows "value_wf L v"
proof -
  obtain r where "decode_fuel L (Suc (remaining (new_reader data))) (new_reader data) = Inr (v, r)"
    using assms by (auto simp: decode_value_bytes_def decode_exactly_def decode_value_def
        simp del: decode_fuel.simps split: sum.splits prod.splits)
  then show ?thesis
    using yields_decode_fuel [of L] by (auto simp: yields_def simp del: decode_fuel.simps)
qed

theorem decoded_value_well_formed_witness:
  "value_wf text_lib (V_Set [V_Bool True])"
  by (rule decoded_value_well_formed [of text_lib "[28, 2, 0, 0, 0, 0, 0, 0, 0, 1, 1, 1, 1]"])
    code_simp

end
