(* ===== verification/Orchid_Text.thy ===== *)
theory Orchid_Text
  imports Orchid_Prelude "HOL-Library.Signed_Division"
begin

text \<open>
  Text and integer operations of the Rust standard library that the textual components share:
  trimming and splitting on white space, ASCII case, integers with a width (\<open>checked_*\<close>,
  wrap-around, \<open>FromStr\<close>) and zero-padded decimal output (\<open>{:04}\<close>).  An integer whose
  arithmetic is modelled is an \<^typ>\<open>int\<close> with its range written out: \<open>fits w\<close> is the range of
  a signed integer of \<open>w\<close> bits, \<open>checked w\<close> the result of a checked operation and \<open>wrap w\<close>
  that of an unchecked one in a release build.  Division and remainder truncate.
\<close>

section \<open>Trimming\<close>

text \<open>The UTF-8 encodings of the characters \<open>str::trim\<close> removes.\<close>

definition ws_seqs :: "string list" where
  "ws_seqs = [[CHR 0x20], [CHR 0x09], [CHR 0x0A], [CHR 0x0B], [CHR 0x0C], [CHR 0x0D],
     [CHR 0xC2, CHR 0x85], [CHR 0xC2, CHR 0xA0], [CHR 0xE1, CHR 0x9A, CHR 0x80],
     [CHR 0xE2, CHR 0x80, CHR 0x80], [CHR 0xE2, CHR 0x80, CHR 0x81], [CHR 0xE2, CHR 0x80, CHR 0x82],
     [CHR 0xE2, CHR 0x80, CHR 0x83], [CHR 0xE2, CHR 0x80, CHR 0x84], [CHR 0xE2, CHR 0x80, CHR 0x85],
     [CHR 0xE2, CHR 0x80, CHR 0x86], [CHR 0xE2, CHR 0x80, CHR 0x87], [CHR 0xE2, CHR 0x80, CHR 0x88],
     [CHR 0xE2, CHR 0x80, CHR 0x89], [CHR 0xE2, CHR 0x80, CHR 0x8A], [CHR 0xE2, CHR 0x80, CHR 0xA8],
     [CHR 0xE2, CHR 0x80, CHR 0xA9], [CHR 0xE2, CHR 0x80, CHR 0xAF], [CHR 0xE2, CHR 0x81, CHR 0x9F],
     [CHR 0xE3, CHR 0x80, CHR 0x80]]"

function strip_seqs :: "string list \<Rightarrow> string \<Rightarrow> string" where
  "strip_seqs ws s =
     (case find (\<lambda>w. w \<noteq> [] \<and> prefix w s) ws of
        None \<Rightarrow> s
      | Some w \<Rightarrow> strip_seqs ws (drop (length w) s))"
  by pat_completeness auto
termination
  by (relation "measure (\<lambda>(ws, s). length s)")
    (auto simp: find_Some_iff prefix_def)

declare strip_seqs.simps [simp del]

definition trim :: "string \<Rightarrow> string" where
  "trim s = rev (strip_seqs (map rev ws_seqs) (rev (strip_seqs ws_seqs s)))"

lemma length_strip_seqs: "length (strip_seqs ws s) \<le> length s"
proof (induction ws s rule: strip_seqs.induct)
  case (1 ws s)
  show ?case
    by (subst strip_seqs.simps) (use 1 in \<open>fastforce split: option.splits\<close>)
qed

lemma length_trim: "length (trim s) \<le> length s"
  using length_strip_seqs [of "map rev ws_seqs" "rev (strip_seqs ws_seqs s)"]
    length_strip_seqs [of ws_seqs s]
  by (simp add: trim_def)

subsection \<open>Trimming leaves the text alone\<close>

lemma strip_seqs_head:
  "c \<notin> hd ` set ws \<Longrightarrow> strip_seqs ws (c # s) = c # s"
proof -
  assume c: "c \<notin> hd ` set ws"
  have "\<not> (w \<noteq> [] \<and> prefix w (c # s))" if "w \<in> set ws" for w
    using c that by (cases w) force+
  then have "find (\<lambda>w. w \<noteq> [] \<and> prefix w (c # s)) ws = None"
    by (simp add: find_None_iff)
  then show ?thesis by (subst strip_seqs.simps) simp
qed

definition tight :: "string \<Rightarrow> bool" where
  "tight s \<longleftrightarrow> s \<noteq> [] \<and> hd s \<notin> hd ` set ws_seqs \<and> last s \<notin> last ` set ws_seqs"

lemma trim_tight: "tight s \<Longrightarrow> trim s = s"
proof -
  assume t: "tight s"
  have "strip_seqs ws_seqs s = s"
    using t strip_seqs_head [of "hd s" ws_seqs "tl s"] by (simp add: tight_def)
  moreover have "hd (rev s) \<notin> hd ` set (map rev ws_seqs)"
    using t by (auto simp: tight_def hd_rev ws_seqs_def)
  then have "strip_seqs (map rev ws_seqs) (rev s) = rev s"
    using t strip_seqs_head [of "hd (rev s)" "map rev ws_seqs" "tl (rev s)"] by (simp add: tight_def)
  ultimately show ?thesis by (simp add: trim_def)
qed

lemma trim_space_tight: "tight s \<Longrightarrow> trim (CHR '' '' # s) = s"
proof -
  assume t: "tight s"
  have "strip_seqs ws_seqs (CHR '' '' # s) = strip_seqs ws_seqs s"
    by (subst strip_seqs.simps) (simp add: ws_seqs_def)
  with trim_tight [OF t] show ?thesis by (simp add: trim_def)
qed

lemma trim_empty [simp]: "trim [] = []"
  by (simp add: trim_def strip_seqs.simps ws_seqs_def)

section \<open>Delimited text\<close>

definition strip_both :: "string \<Rightarrow> string \<Rightarrow> string \<Rightarrow> string option" where
  "strip_both p q s =
     (if prefix p s \<and> suffix q (drop (length p) s)
      then Some (take (length s - length p - length q) (drop (length p) s)) else None)"

lemma length_strip_both: "strip_both p q s = Some t \<Longrightarrow> p \<noteq> [] \<Longrightarrow> length t < length s"
  by (cases p) (auto simp: strip_both_def prefix_def split: if_splits)

lemma strip_both_wrap [simp]: "strip_both p q (p @ t @ q) = Some t"
  by (simp add: strip_both_def suffix_def)

section \<open>Splitting on white space\<close>

text \<open>\<open>str::split_whitespace\<close>: \<open>acc\<close> is the word being read.\<close>

definition ws_prefix :: "string \<Rightarrow> string option" where
  "ws_prefix s = find (\<lambda>w. w \<noteq> [] \<and> prefix w s) ws_seqs"

definition flush_word :: "string \<Rightarrow> string list" where
  "flush_word acc = (if acc = [] then [] else [acc])"

function split_ws :: "string \<Rightarrow> string \<Rightarrow> string list" where
  "split_ws acc [] = flush_word acc"
| "split_ws acc (c # cs) =
     (case ws_prefix (c # cs) of
        Some w \<Rightarrow> flush_word acc @ split_ws [] (drop (length w) (c # cs))
      | None \<Rightarrow> split_ws (acc @ [c]) cs)"
  by pat_completeness auto
termination
  by (relation "measure (\<lambda>(acc, s). length s)") (auto simp: ws_prefix_def find_Some_iff prefix_def)

definition split_whitespace :: "string \<Rightarrow> string list" where
  "split_whitespace s = split_ws [] s"

text \<open>Printable ASCII other than the space: no byte of it starts or ends white space.\<close>

definition graphic :: "char \<Rightarrow> bool" where
  "graphic c \<longleftrightarrow> 33 \<le> (of_char c :: nat) \<and> (of_char c :: nat) \<le> 126"

lemma graphic_not_ws_head: "graphic c \<Longrightarrow> c \<notin> hd ` set ws_seqs"
  by (auto simp: graphic_def ws_seqs_def)

lemma graphic_not_ws_last: "graphic c \<Longrightarrow> c \<notin> last ` set ws_seqs"
  by (auto simp: graphic_def ws_seqs_def)

lemma tight_graphic: "s \<noteq> [] \<Longrightarrow> graphic (hd s) \<Longrightarrow> graphic (last s) \<Longrightarrow> tight s"
  by (simp add: tight_def graphic_not_ws_head graphic_not_ws_last)

lemma ws_prefix_graphic: "graphic c \<Longrightarrow> ws_prefix (c # s) = None"
  using graphic_not_ws_head [of c] by (force simp: ws_prefix_def find_None_iff prefix_def Cons_eq_append_conv)

lemma ws_prefix_space: "ws_prefix (CHR '' '' # s) = Some '' ''"
  by (simp add: ws_prefix_def ws_seqs_def)

lemma split_ws_word:
  "list_all graphic w \<Longrightarrow> split_ws acc (w @ s) = split_ws (acc @ w) s"
  by (induction w arbitrary: acc) (simp_all add: ws_prefix_graphic)

lemma split_whitespace_word:
  assumes "list_all graphic w" "w \<noteq> []"
  shows "split_whitespace (w @ CHR '' '' # s) = w # split_whitespace s"
  using assms by (simp add: split_whitespace_def split_ws_word ws_prefix_space flush_word_def)

lemma split_whitespace_last:
  assumes "list_all graphic w" "w \<noteq> []"
  shows "split_whitespace w = [w]"
  using split_ws_word [OF assms(1), of "[]" "[]"] assms(2) by (simp add: split_whitespace_def flush_word_def)

fun unwords :: "string list \<Rightarrow> string" where
  "unwords [] = []"
| "unwords [w] = w"
| "unwords (w # v # ws) = w @ CHR '' '' # unwords (v # ws)"

lemma split_whitespace_unwords:
  "list_all (\<lambda>w. w \<noteq> [] \<and> list_all graphic w) ws \<Longrightarrow> split_whitespace (unwords ws) = ws"
proof (induction ws rule: unwords.induct)
  case 1
  then show ?case by (simp add: split_whitespace_def flush_word_def)
qed (simp_all add: split_whitespace_word split_whitespace_last)

lemma unwords_nonempty: "ws \<noteq> [] \<Longrightarrow> list_all (\<lambda>w. w \<noteq> []) ws \<Longrightarrow> unwords ws \<noteq> []"
  by (induction ws rule: unwords.induct) auto

lemma hd_unwords: "ws \<noteq> [] \<Longrightarrow> list_all (\<lambda>w. w \<noteq> []) ws \<Longrightarrow> hd (unwords ws) = hd (hd ws)"
  by (induction ws rule: unwords.induct) auto

lemma last_unwords: "ws \<noteq> [] \<Longrightarrow> list_all (\<lambda>w. w \<noteq> []) ws \<Longrightarrow> last (unwords ws) = last (last ws)"
  by (induction ws rule: unwords.induct) (auto simp: unwords_nonempty)

lemma tight_unwords:
  assumes "ws \<noteq> []" "list_all (\<lambda>w. w \<noteq> [] \<and> list_all graphic w) ws"
  shows "tight (unwords ws)"
proof (rule tight_graphic)
  have ne: "list_all (\<lambda>w. w \<noteq> []) ws" using assms(2) by (simp add: list_all_iff)
  show "unwords ws \<noteq> []" by (rule unwords_nonempty [OF assms(1) ne])
  have "hd ws \<in> set ws" "last ws \<in> set ws" using assms(1) by auto
  then have "hd ws \<noteq> []" "last ws \<noteq> []" "list_all graphic (hd ws)" "list_all graphic (last ws)"
    using assms(2) by (auto simp: list_all_iff)
  then show "graphic (hd (unwords ws))" "graphic (last (unwords ws))"
    by (simp_all add: hd_unwords [OF assms(1) ne] last_unwords [OF assms(1) ne] list_all_iff)
qed

section \<open>Characters\<close>

definition is_ascii_digit :: "char \<Rightarrow> bool" where
  "is_ascii_digit c \<longleftrightarrow> 48 \<le> (of_char c :: nat) \<and> (of_char c :: nat) \<le> 57"

definition lower_char :: "char \<Rightarrow> char" where
  "lower_char c = (let n = of_char c :: nat in if 65 \<le> n \<and> n \<le> 90 then char_of (n + 32) else c)"

definition to_ascii_lowercase :: "string \<Rightarrow> string" where
  "to_ascii_lowercase s = map lower_char s"

text \<open>The first \<open>n\<close> characters of UTF-8 text: a continuation byte belongs to the character before it.\<close>

definition continuation :: "char \<Rightarrow> bool" where
  "continuation c \<longleftrightarrow> 128 \<le> (of_char c :: nat) \<and> (of_char c :: nat) < 192"

fun take_chars :: "nat \<Rightarrow> string \<Rightarrow> string" where
  "take_chars n [] = []"
| "take_chars n (c # cs) =
     (if continuation c then c # take_chars n cs
      else (case n of 0 \<Rightarrow> [] | Suc m \<Rightarrow> c # take_chars m cs))"

lemma take_chars_ascii:
  "list_all (\<lambda>c. \<not> continuation c) s \<Longrightarrow> take_chars n s = take n s"
  by (induction n s rule: take_chars.induct) (auto split: nat.split)

section \<open>Integers with a width\<close>

definition fits :: "nat \<Rightarrow> int \<Rightarrow> bool" where
  "fits w n \<longleftrightarrow> - (2 ^ (w - 1)) \<le> n \<and> n < 2 ^ (w - 1)"

definition checked :: "nat \<Rightarrow> int \<Rightarrow> int option" where
  "checked w n = (if fits w n then Some n else None)"

definition wrap :: "nat \<Rightarrow> int \<Rightarrow> int" where
  "wrap w n = (n + 2 ^ (w - 1)) mod 2 ^ w - 2 ^ (w - 1)"

lemma checked_fits [simp]: "fits w n \<Longrightarrow> checked w n = Some n"
  by (simp add: checked_def)

lemma checked_eq_Some: "checked w n = Some m \<longleftrightarrow> m = n \<and> fits w n"
  by (auto simp: checked_def)

lemma wrap_fits [simp]: "0 < w \<Longrightarrow> fits w n \<Longrightarrow> wrap w n = n"
  by (cases w) (simp_all add: wrap_def fits_def)

lemma fits_wrap: "0 < w \<Longrightarrow> fits w (wrap w n)"
  by (cases w) (simp_all add: wrap_def fits_def pos_mod_bound [THEN less_le_trans])

definition parse_signed :: "nat \<Rightarrow> string \<Rightarrow> int option" where
  "parse_signed w s = (case parse_int s of None \<Rightarrow> None | Some n \<Rightarrow> checked w n)"

definition parse_unsigned :: "nat \<Rightarrow> string \<Rightarrow> int option" where
  "parse_unsigned w s =
     (if prefix ''-'' s then None
      else (case parse_int s of None \<Rightarrow> None | Some n \<Rightarrow> if n < 2 ^ w then Some n else None))"

section \<open>Zero-padded decimals\<close>

text \<open>\<open>{:0w}\<close>: the sign counts for the width and precedes the zeros.\<close>

definition pad_zeros :: "nat \<Rightarrow> string \<Rightarrow> string" where
  "pad_zeros w ds = replicate (w - length ds) (CHR ''0'') @ ds"

definition show_padded :: "nat \<Rightarrow> int \<Rightarrow> string" where
  "show_padded w n =
     (if n < 0 then CHR ''-'' # pad_zeros (w - 1) (show_nat (nat (- n))) else pad_zeros w (show_nat (nat n)))"

lemma parse_digits_zeros: "parse_digits 0 (replicate k (CHR ''0'') @ ds) = parse_digits 0 ds"
  by (induction k) (simp_all add: digit_val_def)

lemma parse_digits_pad_zeros: "parse_digits 0 (pad_zeros w (show_nat n)) = Some n"
  by (simp add: pad_zeros_def parse_digits_zeros parse_digits_show_nat)

lemma pad_zeros_nonempty [simp]: "pad_zeros w (show_nat n) \<noteq> []"
  by (simp add: pad_zeros_def)

lemma digits_show_nat: "list_all is_ascii_digit (show_nat n)"
  using show_nat_chars by (auto simp: list_all_iff is_ascii_digit_def)

lemma digits_pad_zeros: "list_all is_ascii_digit (pad_zeros w (show_nat n))"
  using digits_show_nat [of n] by (auto simp: pad_zeros_def list_all_iff is_ascii_digit_def)

lemma digits_show_padded: "0 \<le> n \<Longrightarrow> list_all is_ascii_digit (show_padded w n)"
  by (simp add: show_padded_def digits_pad_zeros)

lemma digits_show_int: "0 \<le> n \<Longrightarrow> list_all is_ascii_digit (show_int n)"
  by (simp add: show_int_def digits_show_nat)

lemma digit_graphic: "is_ascii_digit c \<Longrightarrow> graphic c"
  by (simp add: is_ascii_digit_def graphic_def)

lemma digits_graphic: "list_all is_ascii_digit s \<Longrightarrow> list_all graphic s"
  by (simp add: list_all_iff digit_graphic)

lemma digits_notin: "list_all is_ascii_digit s \<Longrightarrow> \<not> is_ascii_digit c \<Longrightarrow> c \<notin> set s"
  by (auto simp: list_all_iff)

lemma not_digit_chars [simp]:
  "\<not> is_ascii_digit (CHR ''-'')" "\<not> is_ascii_digit (CHR ''+'')" "\<not> is_ascii_digit (CHR '':'')"
  "\<not> is_ascii_digit (CHR ''.'')" "\<not> is_ascii_digit (CHR '' '')" "\<not> is_ascii_digit (CHR ''T'')"
  "\<not> is_ascii_digit (CHR ''Z'')"
  by (simp_all add: is_ascii_digit_def)

lemma parse_int_digits:
  assumes "list_all is_ascii_digit s" "s \<noteq> []"
  shows "parse_int s = map_option int (parse_digits 0 s)"
proof -
  obtain c cs where s: "s = c # cs" using assms(2) by (cases s) auto
  with assms(1) have "c \<noteq> CHR ''-''" "c \<noteq> CHR ''+''" by auto
  then show ?thesis by (simp add: s parse_int_def)
qed

lemma show_padded_nonempty [simp]: "show_padded w n \<noteq> []"
  by (simp add: show_padded_def)

lemma parse_int_show_padded: "parse_int (show_padded w n) = Some n"
proof (cases "n < 0")
  case True
  then show ?thesis by (simp add: show_padded_def parse_int_def parse_digits_pad_zeros)
next
  case False
  then show ?thesis
    by (simp add: show_padded_def parse_int_digits [OF digits_pad_zeros] parse_digits_pad_zeros)
qed

lemma parse_signed_show_padded: "fits k n \<Longrightarrow> parse_signed k (show_padded w n) = Some n"
  by (simp add: parse_signed_def parse_int_show_padded)

lemma parse_signed_show_int: "fits k n \<Longrightarrow> parse_signed k (show_int n) = Some n"
  by (simp add: parse_signed_def parse_int_show_int)

lemma parse_unsigned_show_padded:
  assumes "0 \<le> n" "n < 2 ^ k"
  shows "parse_unsigned k (show_padded w n) = Some n"
proof -
  have "\<not> prefix ''-'' (show_padded w n)"
    using digits_notin [OF digits_show_padded [OF assms(1), of w], of "CHR ''-''"]
    by (cases "show_padded w n") (auto simp: prefix_def)
  with assms show ?thesis by (simp add: parse_unsigned_def parse_int_show_padded)
qed

end
