(* ===== verification/Debug_Values.thy ===== *)
theory Debug_Values
  imports Snapshot_Codec Orchid_Text
begin

text \<open>
  The textual values of Arrow string columns tagged \<open>map\<close> or \<open>value\<close>
  (\<open>src/src/ir/catalog/values.rs\<close>): \<open>parse_debug_value\<close> and its helpers
  \<open>split_debug_items\<close>, \<open>split_debug_map_entry\<close>, \<open>split_top_level_once\<close>,
  \<open>unescape_debug_string\<close>.  The text is what the derived \<open>Debug\<close> of \<open>Value\<close>
  prints; \<open>debug_text\<close> writes that text and the parser reads it back.
\<close>

section \<open>Scanning\<close>

text \<open>
  One step of the scanners: \<open>quote\<close>, \<open>escape\<close> and the bracket depth
  (\<open>saturating_sub\<close> is subtraction on \<^typ>\<open>nat\<close>).
\<close>

fun split_items_loop :: "bool \<Rightarrow> bool \<Rightarrow> nat \<Rightarrow> string \<Rightarrow> string \<Rightarrow> string list" where
  "split_items_loop q e d acc [] = (if trim acc = [] then [] else [trim acc])"
| "split_items_loop q e d acc (c # cs) =
     (if q then
        split_items_loop (e \<or> c \<noteq> CHR 0x22) (\<not> e \<and> c = CHR 0x5C) d (acc @ [c]) cs
      else if c = CHR 0x22 then split_items_loop True e d (acc @ [c]) cs
      else if c \<in> {CHR ''('', CHR ''['', CHR 0x7B} then split_items_loop q e (d + 1) (acc @ [c]) cs
      else if c \<in> {CHR '')'', CHR '']'', CHR 0x7D} then split_items_loop q e (d - 1) (acc @ [c]) cs
      else if c = CHR '','' \<and> d = 0 then trim acc # split_items_loop q e d [] cs
      else split_items_loop q e d (acc @ [c]) cs)"

definition split_debug_items :: "string \<Rightarrow> string list" where
  "split_debug_items s = split_items_loop False False 0 [] s"

fun split_once_loop :: "char \<Rightarrow> bool \<Rightarrow> bool \<Rightarrow> nat \<Rightarrow> string \<Rightarrow> string \<Rightarrow> (string \<times> string) option" where
  "split_once_loop n q e d before [] = None"
| "split_once_loop n q e d before (c # cs) =
     (if q then
        split_once_loop n (e \<or> c \<noteq> CHR 0x22) (\<not> e \<and> c = CHR 0x5C) d (before @ [c]) cs
      else if c = CHR 0x22 then split_once_loop n True e d (before @ [c]) cs
      else if c \<in> {CHR ''('', CHR ''['', CHR 0x7B} then split_once_loop n q e (d + 1) (before @ [c]) cs
      else if c \<in> {CHR '')'', CHR '']'', CHR 0x7D} then split_once_loop n q e (d - 1) (before @ [c]) cs
      else if c = n \<and> d = 0 then Some (before, cs)
      else split_once_loop n q e d (before @ [c]) cs)"

definition split_top_level_once :: "string \<Rightarrow> char \<Rightarrow> (string \<times> string) option" where
  "split_top_level_once s n = split_once_loop n False False 0 [] s"

fun unescape_debug_string :: "string \<Rightarrow> string" where
  "unescape_debug_string [] = []"
| "unescape_debug_string (c # cs) =
     (if c \<noteq> CHR 0x5C then c # unescape_debug_string cs
      else (case cs of
          [] \<Rightarrow> [CHR 0x5C]
        | d # ds \<Rightarrow>
            (if d = CHR ''0'' then CHR 0x00 # unescape_debug_string ds
             else if d = CHR 0x22 then CHR 0x22 # unescape_debug_string ds
             else if d = CHR 0x27 then CHR 0x27 # unescape_debug_string ds
             else if d = CHR 0x5C then CHR 0x5C # unescape_debug_string ds
             else if d = CHR ''n'' then CHR 0x0A # unescape_debug_string ds
             else if d = CHR ''r'' then CHR 0x0D # unescape_debug_string ds
             else if d = CHR ''t'' then CHR 0x09 # unescape_debug_string ds
             else CHR 0x5C # d # unescape_debug_string ds)))"

definition split_debug_map_entry :: "string \<Rightarrow> (string \<times> string) option" where
  "split_debug_map_entry entry =
     (case split_top_level_once entry (CHR '':'') of
        None \<Rightarrow> None
      | Some (key, v) \<Rightarrow>
          (let t = trim key in
           if prefix [CHR 0x22] t \<and> suffix [CHR 0x22] (drop 1 t)
           then Some (unescape_debug_string (butlast (drop 1 t)), v) else None))"

lemma length_split_items:
  "x \<in> set (split_items_loop q e d acc s) \<Longrightarrow> length x \<le> length acc + length s"
proof (induction s arbitrary: q e d acc)
  case Nil
  then show ?case using length_trim [of acc] by (auto split: if_splits)
next
  case (Cons c cs)
  have "(\<exists>q e d. x \<in> set (split_items_loop q e d (acc @ [c]) cs)) \<or>
      x = trim acc \<or> (\<exists>q e d. x \<in> set (split_items_loop q e d [] cs))"
    using Cons.prems by (simp split: if_splits) blast+
  then show ?case
    using Cons.IH length_trim [of acc] by fastforce
qed

lemma length_split_debug_items: "x \<in> set (split_debug_items s) \<Longrightarrow> length x \<le> length s"
  using length_split_items [of x False False 0 "[]" s] by (simp add: split_debug_items_def)

lemma split_once_loop_suffix:
  "split_once_loop n q e d before s = Some (a, b) \<Longrightarrow> length b < length s"
  by (induction n q e d before s rule: split_once_loop.induct) (auto split: if_splits)

lemma length_split_debug_map_entry:
  "split_debug_map_entry s = Some (k, v) \<Longrightarrow> length v < length s"
  by (auto simp: split_debug_map_entry_def split_top_level_once_def Let_def
      dest: split_once_loop_suffix split: option.splits if_splits)

section \<open>The parser\<close>

record float_lib =
  f64_of_text :: "string \<Rightarrow> f64 option"
  f32_of_text :: "string \<Rightarrow> f32 option"

definition parse_within :: "nat \<Rightarrow> string \<Rightarrow> 'a::len word option" where
  "parse_within bits s =
     (case parse_int s of
        None \<Rightarrow> None
      | Some n \<Rightarrow> if - (2 ^ (bits - 1)) \<le> n \<and> n < 2 ^ (bits - 1) then Some (of_int n) else None)"

definition wrapped :: "string \<Rightarrow> (string \<Rightarrow> val option) \<Rightarrow> string \<Rightarrow> val option option" where
  "wrapped name f s = map_option f (strip_both (name @ ''('') '')'' s)"

definition quoted :: "string \<Rightarrow> (string \<Rightarrow> val) \<Rightarrow> string \<Rightarrow> val option option" where
  "quoted name f s =
     map_option (\<lambda>t. Some (f (unescape_debug_string t)))
       (strip_both (name @ ''('' @ [CHR 0x22]) [CHR 0x22, CHR '')''] s)"

fun first_match :: "(string \<Rightarrow> 'a option) list \<Rightarrow> string \<Rightarrow> 'a option" where
  "first_match [] s = None"
| "first_match (p # ps) s = (case p s of None \<Rightarrow> first_match ps s | Some a \<Rightarrow> Some a)"

text \<open>The unstructured forms, in the order the parser tries them.\<close>

definition parse_debug_leaf :: "value_lib \<Rightarrow> float_lib \<Rightarrow> string \<Rightarrow> val option option" where
  "parse_debug_leaf L F s =
     (if s = ''Null'' then Some (Some V_Null)
      else if s = ''Bool(true)'' then Some (Some (V_Bool True))
      else if s = ''Bool(false)'' then Some (Some (V_Bool False))
      else first_match
        [wrapped ''Int'' (\<lambda>t. map_option V_Int (parse_within 64 t)),
         wrapped ''Byte'' (\<lambda>t. map_option V_Byte (parse_within 8 t)),
         wrapped ''Short'' (\<lambda>t. map_option V_Short (parse_within 16 t)),
         wrapped ''Long'' (\<lambda>t. map_option V_Long (parse_within 64 t)),
         wrapped ''Float'' (\<lambda>t. map_option V_Float (f64_of_text F t)),
         wrapped ''Float32'' (\<lambda>t. map_option V_Float32 (f32_of_text F t)),
         wrapped ''BigInt'' (\<lambda>t. map_option V_BigInt (bigint_of_text L t)),
         wrapped ''BigDecimal'' (\<lambda>t. map_option (\<lambda>d. V_BigDecimal (fst d) (snd d)) (decimal_of_text L t)),
         quoted ''String'' V_String,
         quoted ''DateTime'' V_DateTime] s)"

function parse_debug_value :: "value_lib \<Rightarrow> float_lib \<Rightarrow> string \<Rightarrow> val option" where
  "parse_debug_value L F input =
     (case parse_debug_leaf L F (trim input) of
        Some r \<Rightarrow> r
      | None \<Rightarrow>
          (case strip_both ''List(['' ''])'' (trim input) of
             Some inner \<Rightarrow>
               (if trim inner = [] then Some (V_List [])
                else map_option V_List
                  (those (map (parse_debug_value L F) (split_debug_items inner))))
           | None \<Rightarrow>
               (case strip_both (''Map('' @ [CHR 0x7B]) [CHR 0x7D, CHR '')''] (trim input) of
                  None \<Rightarrow> None
                | Some inner \<Rightarrow>
                    (if trim inner = [] then Some (V_Map [])
                     else map_option (\<lambda>es. V_Map (normalize_struct_metadata (bt_of_entries es)))
                       (those (map (\<lambda>entry.
                          case split_debug_map_entry entry of
                            None \<Rightarrow> None
                          | Some (k, v) \<Rightarrow> map_option (Pair k) (parse_debug_value L F (trim v)))
                        (split_debug_items inner)))))))"
  by pat_completeness auto
termination
proof (relation "measure (\<lambda>(L, F, s). length s)", goal_cases)
  case 1
  show ?case by simp
next
  case (2 L F input inner x p k v)
  then have "length (trim v) < length x"
    using length_trim [of v] length_split_debug_map_entry [of x k v] by auto
  then show ?case
    using 2 length_split_debug_items [of x inner] length_strip_both [of _ _ "trim input" inner]
      length_trim [of input] by fastforce
next
  case (3 L F input inner x)
  then show ?case
    using length_split_debug_items [of x inner] length_strip_both [of _ _ "trim input" inner]
      length_trim [of input] by fastforce
qed

declare parse_debug_value.simps [simp del]

section \<open>The text the parser reads\<close>

text \<open>
  Rust's derived \<open>Debug\<close> on the values below, with \<open>str::escape_debug\<close> on the ASCII
  characters it prints as themselves or with a one-letter escape.
\<close>

definition escape_char :: "char \<Rightarrow> string" where
  "escape_char c =
     (if c = CHR 0x00 then [CHR 0x5C, CHR ''0'']
      else if c = CHR 0x09 then [CHR 0x5C, CHR ''t'']
      else if c = CHR 0x0A then [CHR 0x5C, CHR ''n'']
      else if c = CHR 0x0D then [CHR 0x5C, CHR ''r'']
      else if c = CHR 0x22 then [CHR 0x5C, CHR 0x22]
      else if c = CHR 0x5C then [CHR 0x5C, CHR 0x5C]
      else [c])"

definition debug_string :: "string \<Rightarrow> string" where
  "debug_string s = [CHR 0x22] @ concat (map escape_char s) @ [CHR 0x22]"

definition debug_ascii :: "string \<Rightarrow> bool" where
  "debug_ascii s \<longleftrightarrow> list_all (\<lambda>c. c \<in> {CHR 0x00, CHR 0x09, CHR 0x0A, CHR 0x0D} \<or>
     (32 \<le> (of_char c :: nat) \<and> (of_char c :: nat) \<le> 126)) s"

fun join :: "string \<Rightarrow> string list \<Rightarrow> string" where
  "join sep [] = []"
| "join sep [x] = x"
| "join sep (x # xs) = x @ sep @ join sep xs"

function (sequential) debug_text :: "val \<Rightarrow> string" where
  "debug_text (V_Bool b) = ''Bool('' @ (if b then ''true'' else ''false'') @ '')''"
| "debug_text (V_Int n) = ''Int('' @ show_int (sint n) @ '')''"
| "debug_text (V_Byte n) = ''Byte('' @ show_int (sint n) @ '')''"
| "debug_text (V_Short n) = ''Short('' @ show_int (sint n) @ '')''"
| "debug_text (V_Long n) = ''Long('' @ show_int (sint n) @ '')''"
| "debug_text (V_String s) = ''String('' @ debug_string s @ '')''"
| "debug_text (V_DateTime s) = ''DateTime('' @ debug_string s @ '')''"
| "debug_text (V_List xs) = ''List(['' @ join '', '' (map debug_text xs) @ ''])''"
| "debug_text (V_Map m) =
     ''Map('' @ [CHR 0x7B] @
       join '', '' (map (\<lambda>p. debug_string (fst p) @ '': '' @ debug_text (snd p)) m) @ [CHR 0x7D, CHR '')'']"
| "debug_text _ = ''Null''"
  by pat_completeness auto
termination
  by (relation "measure size") (auto simp: size_val_list size_val_map)

function (sequential) debug_ok :: "val \<Rightarrow> bool" where
  "debug_ok V_Null = True"
| "debug_ok (V_Bool b) = True"
| "debug_ok (V_Int n) = True"
| "debug_ok (V_Byte n) = True"
| "debug_ok (V_Short n) = True"
| "debug_ok (V_Long n) = True"
| "debug_ok (V_String s) = debug_ascii s"
| "debug_ok (V_DateTime s) = debug_ascii s"
| "debug_ok (V_List xs) = list_all debug_ok xs"
| "debug_ok (V_Map m) = (bt_ordered m \<and> no_legacy (map fst m) \<and>
     list_all (\<lambda>p. debug_ascii (fst p) \<and> debug_ok (snd p)) m)"
| "debug_ok _ = False"
  by pat_completeness auto
termination
  by (relation "measure size") (auto simp: size_val_list size_val_map)

lemma unescape_escape: "unescape_debug_string (concat (map escape_char s)) = s"
  by (induction s) (auto simp: escape_char_def)

lemma tight_debug_text: "debug_ok v \<Longrightarrow> tight (debug_text v)"
  by (cases v) (simp_all add: tight_def ws_seqs_def)

section \<open>Scanning past balanced text\<close>

definition passes :: "nat \<Rightarrow> string \<Rightarrow> bool" where
  "passes d t \<longleftrightarrow> (\<forall>acc rest. split_items_loop False False d acc (t @ rest) =
     split_items_loop False False d (acc @ t) rest)"

named_theorems passes_intros \<open>texts the item scanner keeps together\<close>

lemma passesD: "passes d t \<Longrightarrow>
    split_items_loop False False d acc (t @ rest) = split_items_loop False False d (acc @ t) rest"
  by (simp add: passes_def)

lemma passes_append: "passes d s \<Longrightarrow> passes d t \<Longrightarrow> passes d (s @ t)"
  by (simp add: passes_def)

lemma passes_plain:
  "list_all (\<lambda>c. c \<notin> {CHR 0x22, CHR ''('', CHR ''['', CHR 0x7B, CHR '')'', CHR '']'', CHR 0x7D} \<and>
     (c = CHR '','' \<longrightarrow> 0 < d)) t \<Longrightarrow> passes d t"
  by (induction t) (auto simp: passes_def)

lemma passes_bracket:
  assumes "passes (Suc d) t" "a \<in> {CHR ''('', CHR ''['', CHR 0x7B}" "b \<in> {CHR '')'', CHR '']'', CHR 0x7D}"
  shows "passes d (a # t @ [b])"
  using assms(2,3) passesD [OF assms(1)] by (auto simp: passes_def)

lemma scan_escaped:
  "split_items_loop True False d acc (concat (map escape_char s) @ rest) =
     split_items_loop True False d (acc @ concat (map escape_char s)) rest"
  by (induction s arbitrary: acc) (auto simp: escape_char_def)

lemma passes_debug_string: "passes d (debug_string s)"
  by (simp add: passes_def debug_string_def scan_escaped)

lemma passes_show_int: "passes d (show_int n)"
proof (rule passes_plain)
  have "c \<in> set (show_int n) \<Longrightarrow> (48 \<le> (of_char c :: nat) \<and> (of_char c :: nat) \<le> 57) \<or> c = CHR ''-''" for c
    using show_nat_chars by (auto simp: show_int_def split: if_splits)
  then show "list_all (\<lambda>c. c \<notin> {CHR 0x22, CHR ''('', CHR ''['', CHR 0x7B, CHR '')'', CHR '']'', CHR 0x7D} \<and>
     (c = CHR '','' \<longrightarrow> 0 < d)) (show_int n)"
    by (fastforce simp: list_all_iff)
qed

lemma passes_join:
  "(\<And>x. x \<in> set xs \<Longrightarrow> passes (Suc d) x) \<Longrightarrow> passes (Suc d) (join '', '' xs)"
proof (induction "'', ''" xs rule: join.induct)
  case 1
  show ?case by (simp add: passes_def)
next
  case (3 x y xs)
  have "passes (Suc d) '', ''" by (rule passes_plain) simp
  with 3 have "passes (Suc d) (x @ '', '' @ join '', '' (y # xs))"
    by (intro passes_append) simp_all
  then show ?case by simp
qed simp

lemma passes_wrapped: "passes (Suc d) t \<Longrightarrow> list_all (\<lambda>c. c \<notin> {CHR 0x22, CHR ''('', CHR ''['', CHR 0x7B,
     CHR '')'', CHR '']'', CHR 0x7D, CHR '',''}) name \<Longrightarrow> passes d (name @ ''('' @ t @ '')'')"
  using passes_append [OF passes_plain passes_bracket, of d name t "CHR ''(''" "CHR '')''"]
  by (auto simp: list_all_iff)

lemma passes_debug_text: "debug_ok v \<Longrightarrow> passes d (debug_text v)"
proof (induction v arbitrary: d rule: debug_text.induct)
  case (1 b)
  have "passes d ''Bool''" "passes (Suc d) (if b then ''true'' else ''false'')"
    by (auto intro!: passes_plain)
  then have "passes d (''Bool'' @ (CHR ''('' # (if b then ''true'' else ''false'') @ '')''))"
    by (intro passes_append passes_bracket) simp_all
  then show ?case by simp
next
  case (8 xs)
  have "passes (Suc d) (CHR ''['' # join '', '' (map debug_text xs) @ '']'')"
    using 8 by (intro passes_bracket passes_join) (auto simp: list_all_iff)
  from passes_wrapped [OF this, of "''List''"] show ?case by simp
next
  case (9 m)
  let ?e = "\<lambda>p. debug_string (fst p) @ '': '' @ debug_text (snd p)"
  have "passes d' (?e p)" if "p \<in> set m" for p d'
  proof (intro passes_append passes_debug_string)
    show "passes d' '': ''" by (rule passes_plain) simp
    show "passes d' (debug_text (snd p))" using 9 that by (auto simp: list_all_iff)
  qed
  then have "passes (Suc d) (CHR 0x7B # join '', '' (map ?e m) @ [CHR 0x7D])"
    by (intro passes_bracket passes_join) auto
  from passes_wrapped [OF this, of "''Map''"] show ?case by simp
qed (auto intro!: passes_plain passes_wrapped [of _ _ "''Int''", simplified] passes_wrapped [of _ _ "''Byte''", simplified]
      passes_wrapped [of _ _ "''Short''", simplified] passes_wrapped [of _ _ "''Long''", simplified] passes_wrapped [of _ _ "''String''", simplified]
      passes_wrapped [of _ _ "''DateTime''", simplified] passes_show_int passes_debug_string)

lemma split_joined:
  assumes "\<And>x. x \<in> set xs \<Longrightarrow> tight x \<and> passes 0 x" "xs \<noteq> []"
  shows "split_debug_items (join '', '' xs) = xs"
proof -
  have item: "trim (pre @ x) = x" if "tight x" "pre \<in> {[], '' ''}" for pre x :: string
    using that trim_tight trim_space_tight by auto
  have "split_items_loop False False 0 pre (join '', '' xs) = xs"
    if "pre \<in> {[], '' ''}" "\<And>x. x \<in> set xs \<Longrightarrow> tight x \<and> passes 0 x" "xs \<noteq> []" for pre xs
    using that
  proof (induction "'', ''" xs arbitrary: pre rule: join.induct)
    case (2 x)
    then have "split_items_loop False False 0 pre (x @ []) = [x]"
      using item [of x pre] by (subst passesD) (auto simp: tight_def)
    then show ?case by simp
  next
    case (3 x y xs)
    have x: "trim (pre @ x) = x" "passes 0 x"
      using 3 by (auto intro: item)
    have "split_items_loop False False 0 '' '' (join '', '' (y # xs)) = y # xs"
      using 3 by (intro "3.hyps") auto
    then show ?case
      using x by (simp add: passesD)
  qed simp
  from this [of "[]"] assms show ?thesis by (simp add: split_debug_items_def)
qed

lemma scan_once_escaped:
  "split_once_loop n True False d acc (concat (map escape_char s) @ rest) =
     split_once_loop n True False d (acc @ concat (map escape_char s)) rest"
  by (induction s arbitrary: acc) (auto simp: escape_char_def)

lemma split_debug_map_entry_text:
  "split_debug_map_entry (debug_string k @ '': '' @ t) = Some (k, CHR '' '' # t)"
proof -
  have "split_top_level_once (debug_string k @ '': '' @ t) (CHR '':'') = Some (debug_string k, CHR '' '' # t)"
    by (simp add: split_top_level_once_def debug_string_def scan_once_escaped)
  moreover have "trim (debug_string k) = debug_string k"
    by (rule trim_tight) (simp add: tight_def debug_string_def ws_seqs_def)
  ultimately show ?thesis
    by (simp add: split_debug_map_entry_def debug_string_def unescape_escape suffix_def)
qed

section \<open>Round trip\<close>

lemma parse_within_sint:
  "LENGTH('a::len) = bits \<Longrightarrow> parse_within bits (show_int (sint (w :: 'a word))) = Some w"
  using sint_greater_eq [of w] sint_less [of w] by (simp add: parse_within_def parse_int_show_int)

lemma strip_both_text:
  "strip_both (name @ ''('') '')'' (name @ ''('' @ t @ '')'') = Some t"
  "strip_both (name @ ''('' @ [CHR 0x22]) [CHR 0x22, CHR '')''] (name @ ''('' @ debug_string s @ '')'') =
     Some (concat (map escape_char s))"
  using strip_both_wrap [of "name @ ''(''" "'')''" t]
    strip_both_wrap [of "name @ ''('' @ [CHR 0x22]" "[CHR 0x22, CHR '')'']" "concat (map escape_char s)"]
  by (simp_all add: debug_string_def)

lemma strip_both_other: "\<not> prefix p s \<Longrightarrow> strip_both p q s = None"
  by (simp add: strip_both_def)

lemmas leaf_simps = parse_debug_leaf_def wrapped_def quoted_def strip_both_other strip_both_text [simplified]
  parse_within_sint unescape_escape

lemma parse_leaf_text:
  "parse_debug_leaf L F ''Null'' = Some (Some V_Null)"
  "parse_debug_leaf L F (debug_text (V_Bool b)) = Some (Some (V_Bool b))"
  "parse_debug_leaf L F (debug_text (V_Int n)) = Some (Some (V_Int n))"
  "parse_debug_leaf L F (debug_text (V_Byte n8)) = Some (Some (V_Byte n8))"
  "parse_debug_leaf L F (debug_text (V_Short n16)) = Some (Some (V_Short n16))"
  "parse_debug_leaf L F (debug_text (V_Long n)) = Some (Some (V_Long n))"
  "parse_debug_leaf L F (debug_text (V_String s)) = Some (Some (V_String s))"
  "parse_debug_leaf L F (debug_text (V_DateTime s)) = Some (Some (V_DateTime s))"
  "parse_debug_leaf L F (debug_text (V_List xs)) = None"
  "parse_debug_leaf L F (debug_text (V_Map m)) = None"
  using strip_both_text(1) [of "''Int''"] strip_both_text(1) [of "''Byte''"]
    strip_both_text(1) [of "''Short''"] strip_both_text(1) [of "''Long''"]
    strip_both_text(2) [of "''String''"] strip_both_text(2) [of "''DateTime''"]
  by (simp_all add: leaf_simps)

lemma those_map_id: "(\<And>x. x \<in> set xs \<Longrightarrow> f x = Some (g x)) \<Longrightarrow> those (map f xs) = Some (map g xs)"
  by (induction xs) auto

lemma join_ne: "(\<And>x. x \<in> set xs \<Longrightarrow> tight x) \<Longrightarrow> xs \<noteq> [] \<Longrightarrow> tight (join '', '' xs)"
proof (induction "'', ''" xs rule: join.induct)
  case (3 x y xs)
  then have "tight x" "tight (join '', '' (y # xs))" by simp_all
  then show ?case by (auto simp: tight_def)
qed simp_all

lemma joined_items:
  assumes "\<forall>x \<in> set xs. tight (e x) \<and> passes 0 (e x)" "xs \<noteq> []"
  shows "split_debug_items (join '', '' (map e xs)) = map e xs" "trim (join '', '' (map e xs)) \<noteq> []"
proof -
  show "split_debug_items (join '', '' (map e xs)) = map e xs"
    using assms by (intro split_joined) auto
  have "tight (join '', '' (map e xs))"
    using assms by (intro join_ne) auto
  then show "trim (join '', '' (map e xs)) \<noteq> []"
    by (simp add: trim_tight) (simp add: tight_def)
qed

lemma normalize_no_legacy: "no_legacy (map fst m) \<Longrightarrow> normalize_struct_metadata m = m"
  by (simp add: normalize_struct_metadata_def normalize_suffix_def no_legacy_def
      list_all_iff filter_empty_conv)

lemma parse_list_step:
  assumes "trim s = s" "parse_debug_leaf L F s = None" "strip_both ''List(['' ''])'' s = Some inner"
  shows "parse_debug_value L F s = (if trim inner = [] then Some (V_List [])
    else map_option V_List (those (map (parse_debug_value L F) (split_debug_items inner))))"
  by (subst parse_debug_value.simps) (simp only: assms option.case)

lemma parse_map_step:
  assumes "trim s = s" "parse_debug_leaf L F s = None" "strip_both ''List(['' ''])'' s = None"
    "strip_both (''Map('' @ [CHR 0x7B]) [CHR 0x7D, CHR '')''] s = Some inner"
  shows "parse_debug_value L F s = (if trim inner = [] then Some (V_Map [])
    else map_option (\<lambda>es. V_Map (normalize_struct_metadata (bt_of_entries es)))
      (those (map (\<lambda>entry. case split_debug_map_entry entry of None \<Rightarrow> None
         | Some (k, v) \<Rightarrow> map_option (Pair k) (parse_debug_value L F (trim v))) (split_debug_items inner))))"
  by (subst parse_debug_value.simps) (simp only: assms option.case)

lemma parse_list_text:
  assumes "\<And>x. x \<in> set xs \<Longrightarrow> parse_debug_value L F (debug_text x) = Some x" "list_all debug_ok xs"
  shows "parse_debug_value L F (debug_text (V_List xs)) = Some (V_List xs)"
proof -
  have t: "trim (debug_text (V_List xs)) = debug_text (V_List xs)"
    using assms(2) by (intro trim_tight tight_debug_text) simp
  have inner: "strip_both ''List(['' ''])'' (debug_text (V_List xs)) = Some (join '', '' (map debug_text xs))"
    using strip_both_wrap [of "''List([''" "''])''" "join '', '' (map debug_text xs)"] by simp
  have items: "split_debug_items (join '', '' (map debug_text xs)) = map debug_text xs"
    "trim (join '', '' (map debug_text xs)) \<noteq> []" if "xs \<noteq> []"
    using joined_items [of xs debug_text] assms(2) that
    by (simp_all add: list_all_iff tight_debug_text passes_debug_text)
  have "those (map (\<lambda>x. parse_debug_value L F (debug_text x)) xs) = Some (map (\<lambda>x. x) xs)"
    using assms(1) by (rule those_map_id)
  then show ?thesis
    using items by (simp only: parse_list_step [OF t parse_leaf_text(9) inner]) (cases "xs = []"; simp add: comp_def)
qed

lemma parse_map_text:
  assumes "\<And>p. p \<in> set m \<Longrightarrow> parse_debug_value L F (debug_text (snd p)) = Some (snd p)" "debug_ok (V_Map m)"
  shows "parse_debug_value L F (debug_text (V_Map m)) = Some (V_Map m)"
proof -
  let ?e = "\<lambda>p. debug_string (fst p) @ '': '' @ debug_text (snd p)"
  have t: "trim (debug_text (V_Map m)) = debug_text (V_Map m)"
    by (rule trim_tight [OF tight_debug_text [OF assms(2)]])
  have inner: "strip_both (''Map('' @ [CHR 0x7B]) [CHR 0x7D, CHR '')''] (debug_text (V_Map m)) =
      Some (join '', '' (map ?e m))"
    using strip_both_wrap [of "''Map('' @ [CHR 0x7B]" "[CHR 0x7D, CHR '')'']" "join '', '' (map ?e m)"] by simp
  have no_list: "strip_both ''List(['' ''])'' (debug_text (V_Map m)) = None"
    by (simp add: strip_both_other)
  have ok: "debug_ok (snd p)" if "p \<in> set m" for p
    using assms(2) that by (simp add: list_all_iff)
  have e: "tight (?e p)" "passes 0 (?e p)" if "p \<in> set m" for p
  proof -
    show "passes 0 (?e p)"
      by (intro passes_append passes_debug_string passes_debug_text ok [OF that]) (rule passes_plain, simp)
    show "tight (?e p)"
      using tight_debug_text [OF ok [OF that]] by (auto simp: tight_def debug_string_def ws_seqs_def)
  qed
  have items: "split_debug_items (join '', '' (map ?e m)) = map ?e m" "trim (join '', '' (map ?e m)) \<noteq> []"
    if "m \<noteq> []"
    using joined_items [of m ?e] e that by blast+
  have "those (map (\<lambda>p. case split_debug_map_entry (?e p) of None \<Rightarrow> None
      | Some (k, v) \<Rightarrow> map_option (Pair k) (parse_debug_value L F (trim v))) m) = Some (map (\<lambda>p. p) m)"
    using assms(1) by (intro those_map_id)
      (simp only: split_debug_map_entry_text option.case prod.case trim_space_tight [OF tight_debug_text [OF ok]],
       simp)
  moreover have "normalize_struct_metadata (bt_of_entries m) = m"
    using assms(2) by (simp add: bt_of_entries_ordered normalize_no_legacy)
  ultimately show ?thesis
    using items by (simp only: parse_map_step [OF t parse_leaf_text(10) no_list inner])
      (cases "m = []"; simp add: comp_def)
qed

lemma parse_leaf_value:
  assumes "debug_ok v" "parse_debug_leaf L F (debug_text v) = Some (Some v)"
  shows "parse_debug_value L F (debug_text v) = Some v"
  by (subst parse_debug_value.simps) (simp add: trim_tight [OF tight_debug_text [OF assms(1)]] assms(2))

lemma parse_debug_text: "debug_ok v \<Longrightarrow> parse_debug_value L F (debug_text v) = Some v"
proof (induction v rule: debug_ok.induct)
  case 1
  show ?case by (rule parse_leaf_value) (simp_all add: parse_leaf_text)
next
  case (9 xs)
  then show ?case by (intro parse_list_text) (auto simp: list_all_iff)
next
  case (10 m)
  then show ?case by (intro parse_map_text) (auto simp: list_all_iff)
qed (auto intro!: parse_leaf_value simp: parse_leaf_text simp del: debug_text.simps)

section \<open>Properties\<close>


text \<open>Float text outside the decimal fragment is not parsed in the concrete instance.\<close>

definition no_floats :: float_lib where
  "no_floats = \<lparr>f64_of_text = (\<lambda>_. None), f32_of_text = (\<lambda>_. None)\<rparr>"


text \<open>
  a \<open>\u{...}\<close> escape is not undone.  \<open>Debug\<close> prints the one-character string
  U+0001 as \<open>String("\u{1}")\<close>; the parser returns the five characters of the escape.
\<close>

theorem unicode_escape_not_undone:
  "parse_debug_value L F (''String('' @ [CHR 0x22, CHR 0x5C, CHR ''u'', CHR 0x7B, CHR ''1'', CHR 0x7D, CHR 0x22] @ '')'') =
     Some (V_String [CHR 0x5C, CHR ''u'', CHR 0x7B, CHR ''1'', CHR 0x7D])"
proof -
  let ?t = "''String('' @ [CHR 0x22, CHR 0x5C, CHR ''u'', CHR 0x7B, CHR ''1'', CHR 0x7D, CHR 0x22] @ '')''"
  have "trim ?t = ?t"
    by (rule trim_tight) (simp add: tight_def ws_seqs_def)
  moreover have "parse_debug_leaf L F ?t = Some (Some (V_String [CHR 0x5C, CHR ''u'', CHR 0x7B, CHR ''1'', CHR 0x7D]))"
    by (simp add: parse_debug_leaf_def wrapped_def quoted_def strip_both_def suffix_to_prefix)
  ultimately show ?thesis
    by (subst parse_debug_value.simps) simp
qed

end
