(* ===== verification/Graph_Mapping.thy ===== *)
theory Graph_Mapping
  imports Debug_Values
begin

text \<open>
  How labels and relationship types are routed to a physical schema: element keys as
  values and under a declared type (\<open>src/src/ir/identity.rs\<close>), key columns, node and
  edge mappings and the write route of an endpoint pair
  (\<open>src/src/ir/rel/mapping.rs\<close>).

  \<open>graph_lib\<close> extends the third-party operations of \<open>value_lib\<close> by the ones the
  graph store calls: Arrow's cast, comparison and display of scalars, and the conversion
  of extension-typed Arrow cells.
\<close>

record graph_lib =
  gl_values :: value_lib
  gl_floats :: float_lib
  scalar_cast :: "scalar_value \<Rightarrow> data_type \<Rightarrow> string + scalar_value"
  date_scalar :: "temporal \<Rightarrow> string + scalar_value"
  id_le :: "element_id \<Rightarrow> element_id \<Rightarrow> bool"
  id_text :: "element_id \<Rightarrow> string"
  extension_cell :: "scalar_value \<Rightarrow> val option"
  semantic_cell :: "scalar_value \<Rightarrow> val option"

fun collect_res :: "('e + 'a) list \<Rightarrow> 'e + 'a list" where
  "collect_res [] = Inr []"
| "collect_res (Inl e # xs) = Inl e"
| "collect_res (Inr a # xs) = bind_res (collect_res xs) (\<lambda>as. Inr (a # as))"

lemma collect_res_Inr: "collect_res (map (\<lambda>x. Inr (f x)) xs) = Inr (map f xs)"
  by (induction xs) auto

lemma collect_res_all:
  "(\<And>x. x \<in> set xs \<Longrightarrow> g x = Inr (f x)) \<Longrightarrow> collect_res (map g xs) = Inr (map f xs)"
  by (induction xs) auto

section \<open>Keys as values\<close>

definition type_name :: "val \<Rightarrow> string" where
  "type_name v = (case v of
     V_Scalar _ \<Rightarrow> ''scalar'' | V_Null \<Rightarrow> ''null'' | V_Bool _ \<Rightarrow> ''bool'' | V_Byte _ \<Rightarrow> ''byte''
   | V_UInt8 _ \<Rightarrow> ''uint8'' | V_Short _ \<Rightarrow> ''short'' | V_UInt16 _ \<Rightarrow> ''uint16'' | V_Int _ \<Rightarrow> ''int''
   | V_UInt32 _ \<Rightarrow> ''uint32'' | V_Long _ \<Rightarrow> ''long'' | V_UInt64 _ \<Rightarrow> ''uint64''
   | V_Float32 _ \<Rightarrow> ''float'' | V_Float _ \<Rightarrow> ''float'' | V_BigInt _ \<Rightarrow> ''bigint''
   | V_UInt128 _ \<Rightarrow> ''uint128'' | V_BigDecimal _ _ \<Rightarrow> ''bigdecimal'' | V_DateTime _ \<Rightarrow> ''datetime''
   | V_Temporal t \<Rightarrow> temporal_kind t | V_InternalId _ _ \<Rightarrow> ''internal_id'' | V_String _ \<Rightarrow> ''string''
   | V_Node _ _ \<Rightarrow> ''node'' | V_Edge _ _ _ _ _ _ _ \<Rightarrow> ''edge''
   | V_VertexProperty _ _ _ _ \<Rightarrow> ''vertex property'' | V_Property _ _ _ \<Rightarrow> ''property''
   | V_List _ \<Rightarrow> ''list'' | V_Set _ \<Rightarrow> ''set'' | V_Map _ \<Rightarrow> ''map'' | V_TypedMap _ \<Rightarrow> ''map''
   | V_MapEntry _ _ \<Rightarrow> ''map entry'' | V_CardinalityValue _ _ \<Rightarrow> ''cardinality value''
   | V_BulkSet _ \<Rightarrow> ''bulkset'' | V_Token _ \<Rightarrow> ''token'' | V_Direction _ \<Rightarrow> ''direction''
   | V_Path _ \<Rightarrow> ''path'')"

definition map_from_entries :: "(val \<times> val) list \<Rightarrow> val" where
  "map_from_entries es =
     (if list_all (\<lambda>e. case fst e of V_String _ \<Rightarrow> True | _ \<Rightarrow> False) es
      then V_Map (bt_of_entries (map (\<lambda>e. (case fst e of V_String k \<Rightarrow> k | _ \<Rightarrow> [], snd e)) es))
      else V_TypedMap es)"

text \<open>\<open>ElementId::try_from\<close> on a value that is not a list.\<close>

definition element_of_leaf :: "graph_lib \<Rightarrow> val \<Rightarrow> string + element_id" where
  "element_of_leaf G v =
     (case v of
        V_Scalar s \<Rightarrow> element_new s
      | V_Temporal t \<Rightarrow>
          if temporal_kind t = ''date'' then bind_res (date_scalar G t) element_new
          else Inl (''unsupported element key '' @ type_name v)
      | V_BigInt n \<Rightarrow> element_new (SV_Utf8 (bigint_text (gl_values G) n))
      | V_UInt128 n \<Rightarrow> element_new (SV_Utf8 (bigint_text (gl_values G) n))
      | V_BigDecimal n s \<Rightarrow> element_new (SV_Utf8 (decimal_text (gl_values G) n s))
      | V_Int n \<Rightarrow> element_new (SV_Int64 n)
      | V_Long n \<Rightarrow> element_new (SV_Int64 n)
      | V_Byte n \<Rightarrow> element_new (SV_Int8 n)
      | V_Short n \<Rightarrow> element_new (SV_Int16 n)
      | V_UInt8 n \<Rightarrow> element_new (SV_UInt8 n)
      | V_UInt16 n \<Rightarrow> element_new (SV_UInt16 n)
      | V_UInt32 n \<Rightarrow> element_new (SV_UInt32 n)
      | V_UInt64 n \<Rightarrow> element_new (SV_UInt64 n)
      | V_Float32 x \<Rightarrow> element_new (SV_Float32 x)
      | V_Float x \<Rightarrow> element_new (SV_Float64 x)
      | V_Bool b \<Rightarrow> element_new (SV_Boolean b)
      | V_String s \<Rightarrow> element_new (SV_Utf8 s)
      | _ \<Rightarrow> Inl (''unsupported element key '' @ type_name v))"

definition element_part :: "graph_lib \<Rightarrow> val \<Rightarrow> string + scalar_value" where
  "element_part G v =
     (case v of
        V_List _ \<Rightarrow> Inl ''nested composite identities are not supported''
      | _ \<Rightarrow> bind_res (element_of_leaf G v) (\<lambda>k.
               if length (eid_components k) \<noteq> 1
               then Inl ''nested composite identities are not supported''
               else Inr (eid_scalar k)))"

definition element_of_value :: "graph_lib \<Rightarrow> val \<Rightarrow> string + element_id" where
  "element_of_value G v =
     (case v of
        V_List parts \<Rightarrow> bind_res (collect_res (map (element_part G) parts)) element_from_components
      | _ \<Rightarrow> element_of_leaf G v)"

definition scalar_to_value :: "scalar_value \<Rightarrow> val" where
  "scalar_to_value s =
     (case s of
        SV_Boolean b \<Rightarrow> V_Bool b
      | SV_Int8 n \<Rightarrow> V_Byte n
      | SV_Int16 n \<Rightarrow> V_Short n
      | SV_Int32 n \<Rightarrow> V_Int (scast n)
      | SV_Int64 n \<Rightarrow> V_Int n
      | SV_Utf8 t \<Rightarrow> V_String t
      | SV_LargeUtf8 t \<Rightarrow> V_String t
      | SV_Utf8View t \<Rightarrow> V_String t
      | SV_Float32 x \<Rightarrow> V_Float32 x
      | SV_Float64 x \<Rightarrow> V_Float x
      | _ \<Rightarrow> V_Scalar s)"

definition element_to_value :: "element_id \<Rightarrow> val" where
  "element_to_value e =
     (case eid_scalar e of
        SV_Struct _ _ _ \<Rightarrow> V_List (map scalar_to_value (eid_components e))
      | s \<Rightarrow> scalar_to_value s)"

text \<open>\<open>cast_to\<close> casts component by component.\<close>

definition key_types_of :: "data_type \<Rightarrow> data_type list" where
  "key_types_of kind =
     (case kind of
        DT_Struct fs \<Rightarrow> if is_identity_union kind then [kind] else map snd fs
      | _ \<Rightarrow> [kind])"

definition element_cast :: "graph_lib \<Rightarrow> element_id \<Rightarrow> data_type \<Rightarrow> string + element_id" where
  "element_cast G e kind =
     (let vs = eid_components e; ts = key_types_of kind in
      if length vs \<noteq> length ts then Inl ''element identity arity does not match its mapping''
      else bind_res (collect_res (map (\<lambda>(v, t). scalar_cast G v t) (zip vs ts))) element_from_components)"

section \<open>Key columns\<close>

type_synonym key_columns = "string list"

definition kc_validate :: "key_columns \<Rightarrow> bool" where
  "kc_validate ks \<longleftrightarrow> ks \<noteq> [] \<and> [] \<notin> set ks \<and> distinct ks"

definition kc_values :: "key_columns \<Rightarrow> element_id \<Rightarrow> string + (string \<times> scalar_value) list" where
  "kc_values ks e =
     (if length (eid_components e) \<noteq> length ks
      then Inl ''key component count does not match physical columns''
      else Inr (bt_of_entries (zip ks (eid_components e))))"

section \<open>Mappings\<close>

datatype mapped_source = MS_Table string | MS_Query string | MS_Computed nat | MS_Cypher nat

datatype fk_endpoint = FK_Source | FK_Destination

record node_mapping =
  nm_label :: string
  nm_labels_column :: "string option"
  nm_source :: mapped_source
  nm_id_column :: key_columns
  nm_properties :: "(string \<times> string) list"

record edge_mapping =
  em_foreign_key :: "fk_endpoint option"
  em_rel_type :: string
  em_source :: mapped_source
  em_src_column :: key_columns
  em_dst_column :: key_columns
  em_src_label :: string
  em_dst_label :: string
  em_id_column :: "key_columns option"
  em_properties :: "(string \<times> string) list"

definition foreign_key :: "fk_endpoint \<Rightarrow> edge_mapping \<Rightarrow> edge_mapping" where
  "foreign_key child e = e\<lparr>em_foreign_key := Some child,
     em_id_column := Some (case child of FK_Source \<Rightarrow> em_src_column e | FK_Destination \<Rightarrow> em_dst_column e)\<rparr>"

definition foreign_key_columns ::
  "edge_mapping \<Rightarrow> (string \<times> key_columns \<times> string \<times> key_columns) option" where
  "foreign_key_columns e = map_option (\<lambda>child. case child of
       FK_Source \<Rightarrow> (em_src_label e, em_src_column e, em_dst_label e, em_dst_column e)
     | FK_Destination \<Rightarrow> (em_dst_label e, em_dst_column e, em_src_label e, em_src_column e))
     (em_foreign_key e)"

record graph_mapping =
  gm_nodes :: "(string \<times> node_mapping) list"
  gm_edges :: "(string \<times> edge_mapping) list"
  gm_edge_partitions :: "(string \<times> edge_mapping list) list"
  gm_edge_instances :: "(string \<times> edge_mapping) list"
  gm_node_instances :: "(string \<times> node_mapping) list"

definition map_node :: "node_mapping \<Rightarrow> graph_mapping \<Rightarrow> graph_mapping" where
  "map_node n g = g\<lparr>gm_nodes := bt_insert (nm_label n) n (gm_nodes g)\<rparr>"

definition map_edge :: "edge_mapping \<Rightarrow> graph_mapping \<Rightarrow> graph_mapping" where
  "map_edge e g = g\<lparr>gm_edge_partitions := bt_remove (em_rel_type e) (gm_edge_partitions g),
     gm_edges := bt_insert (em_rel_type e) e (gm_edges g)\<rparr>"

definition bt_default :: "'v \<Rightarrow> ('k \<times> 'v) list \<Rightarrow> 'k \<Rightarrow> 'v" where
  "bt_default d m k = (case map_of m k of None \<Rightarrow> d | Some v \<Rightarrow> v)"

definition map_edge_partition :: "edge_mapping \<Rightarrow> graph_mapping \<Rightarrow> graph_mapping" where
  "map_edge_partition e g =
     (if map_of (gm_edges g) (em_rel_type e) \<noteq> None
      then g\<lparr>gm_edge_partitions := bt_insert (em_rel_type e)
             (bt_default [] (gm_edge_partitions g) (em_rel_type e) @ [e]) (gm_edge_partitions g)\<rparr>
      else g\<lparr>gm_edges := bt_insert (em_rel_type e) e (gm_edges g)\<rparr>)"

definition edge_partitions :: "graph_mapping \<Rightarrow> string \<Rightarrow> edge_mapping list" where
  "edge_partitions g rel =
     (case map_of (gm_edge_instances g) rel of
        Some e \<Rightarrow> [e]
      | None \<Rightarrow> (case map_of (gm_edges g) rel of None \<Rightarrow> [] | Some e \<Rightarrow> [e]) @
                bt_default [] (gm_edge_partitions g) rel)"

fun endpoint_pairs_unique :: "edge_mapping list \<Rightarrow> (string \<times> string) set \<Rightarrow> bool" where
  "endpoint_pairs_unique [] seen = True"
| "endpoint_pairs_unique (e # es) seen =
     ((case em_source e of MS_Table _ \<Rightarrow> True | _ \<Rightarrow> False) \<and>
      (em_src_label e, em_dst_label e) \<notin> seen \<and>
      endpoint_pairs_unique es (insert (em_src_label e, em_dst_label e) seen))"

definition validate_partitioned_writes :: "graph_mapping \<Rightarrow> string + unit" where
  "validate_partitioned_writes g =
     (case find (\<lambda>rel. \<not> endpoint_pairs_unique (edge_partitions g rel) {}) (map fst (gm_edge_partitions g)) of
        None \<Rightarrow> Inr ()
      | Some rel \<Rightarrow> Inl (''partitioned relationship `'' @ rel @
          ''` needs writable tables and unique endpoint pairs''))"

definition edge_for_endpoints :: "graph_mapping \<Rightarrow> string \<Rightarrow> string \<Rightarrow> string \<Rightarrow> string + edge_mapping" where
  "edge_for_endpoints g rel src dst =
     (case filter (\<lambda>e. em_src_label e = src \<and> em_dst_label e = dst) (edge_partitions g rel) of
        [e] \<Rightarrow> Inr e
      | _ \<Rightarrow> Inl (''relationship `'' @ rel @ ''` has no unique write route for `'' @ src @ ''` -> `'' @ dst @ ''`''))"

definition mapping_node :: "graph_mapping \<Rightarrow> string \<Rightarrow> node_mapping option" where
  "mapping_node g l = (case map_of (gm_node_instances g) l of Some n \<Rightarrow> Some n | None \<Rightarrow> map_of (gm_nodes g) l)"

definition mapping_edge :: "graph_mapping \<Rightarrow> string \<Rightarrow> edge_mapping option" where
  "mapping_edge g r = (case map_of (gm_edge_instances g) r of Some e \<Rightarrow> Some e | None \<Rightarrow> map_of (gm_edges g) r)"

section \<open>Lemmas\<close>

lemma endpoint_pairs_unique_distinct:
  "endpoint_pairs_unique es seen \<Longrightarrow>
     distinct (map (\<lambda>e. (em_src_label e, em_dst_label e)) es) \<and>
     (\<lambda>e. (em_src_label e, em_dst_label e)) ` set es \<inter> seen = {}"
  by (induction es arbitrary: seen) fastforce+

lemma filter_distinct_key:
  "distinct (map f xs) \<Longrightarrow> x \<in> set xs \<Longrightarrow> filter (\<lambda>y. f y = f x) xs = [x]"
  by (induction xs) (auto simp: filter_empty_conv image_iff)

text \<open>The scalars whose value form keeps their Arrow type.\<close>

definition value_typed :: "scalar_value \<Rightarrow> bool" where
  "value_typed s = (case s of SV_Int32 _ \<Rightarrow> False | SV_LargeUtf8 _ \<Rightarrow> False | SV_Utf8View _ \<Rightarrow> False
     | SV_Struct _ _ _ \<Rightarrow> False | _ \<Rightarrow> True)"

lemma scalar_roundtrip:
  assumes "\<not> bad_component s" "value_typed s"
  shows "element_of_leaf G (scalar_to_value s) = Inr (ElementId s)"
    and "\<nexists>xs. scalar_to_value s = V_List xs"
    and "element_part G (scalar_to_value s) = Inr s"
  using assms
  by (cases s; simp add: element_of_leaf_def scalar_to_value_def element_new.simps value_typed_def
      element_part_def eid_components_def)+

lemma element_of_leaf_value: "\<nexists>xs. v = V_List xs \<Longrightarrow> element_of_value G v = element_of_leaf G v"
  by (cases v) (auto simp: element_of_value_def)

lemma element_new_cases:
  assumes "element_new v = Inr e"
  shows "(\<exists>s. e = ElementId s \<and> \<not> bad_component s \<and> eid_components e = [s]) \<or>
    (\<exists>a b vs. composite_id (a # b # vs) = Inr e)"
  using assms
proof (induction v rule: element_new.induct)
  case (1 v)
  show ?case
  proof (cases "\<exists>n nul cs. v = SV_Struct n nul cs")
    case False
    then have "element_new v = (if bad_component v
        then Inl ''element identity requires non-null scalar components'' else Inr (ElementId v))"
      by (subst element_new.simps) (auto split: scalar_value.splits)
    with "1.prems" False show ?thesis
      by (auto simp: eid_components_def split: if_splits scalar_value.splits)
  next
    case True
    then obtain n nul cs where v: "v = SV_Struct n nul cs" by blast
    show ?thesis
      using "1.prems" "1.IH" unfolding v
      by (auto simp: element_new_struct element_from_components_def split: if_splits list.splits)
  qed
qed

lemma composite_components:
  assumes "composite_id vs = Inr e"
  shows "eid_components e = vs" "\<forall>v \<in> set vs. \<not> bad_component v" "\<exists>cs. eid_scalar e = SV_Struct 1 False cs"
  using assms map_snd_enumerate_keys [of "\<lambda>i. CHR ''k'' # show_nat i" 0 vs]
  by (auto simp: composite_id_def eid_components_def list_ex_iff split: if_splits)

lemma components_rebuild:
  assumes "element_new v = Inr e"
  shows "element_from_components (eid_components e) = Inr e" "\<forall>s \<in> set (eid_components e). \<not> bad_component s"
  using element_new_cases [OF assms] element_new_ok [OF assms]
  by (auto simp: element_from_components_def eid_ok_def composite_components)

section \<open>Properties\<close>

text \<open>
  An accepted element identity, scalar or composite, survives the trip through a
  language value when the value form keeps each component's Arrow type.
\<close>

theorem element_value_roundtrip:
  assumes "element_new v = Inr e" and "list_all value_typed (eid_components e)"
  shows "element_of_value G (element_to_value e) = Inr e"
  using element_new_cases [OF assms(1)]
proof
  assume "\<exists>s. e = ElementId s \<and> \<not> bad_component s \<and> eid_components e = [s]"
  then obtain s where s: "e = ElementId s" "\<not> bad_component s" "eid_components e = [s]" by blast
  then have "value_typed s" using assms(2) by simp
  moreover from this have "element_to_value e = scalar_to_value s"
    using s(1) by (cases s) (simp_all add: element_to_value_def value_typed_def)
  ultimately show ?thesis
    using scalar_roundtrip [OF s(2)] s(1) by (simp add: element_of_leaf_value)
next
  assume "\<exists>a b vs. composite_id (a # b # vs) = Inr e"
  then obtain a b vs where c: "composite_id (a # b # vs) = Inr e" by blast
  have "element_to_value e = V_List (map scalar_to_value (eid_components e))"
    using composite_components(3) [OF c] by (auto simp: element_to_value_def)
  moreover have "collect_res (map (element_part G) (map scalar_to_value (eid_components e))) =
      Inr (map (\<lambda>s. s) (eid_components e))"
    using scalar_roundtrip(3) components_rebuild(2) [OF assms(1)] assms(2)
    by (simp only: map_map) (rule collect_res_all, simp add: list_all_iff)
  ultimately show ?thesis
    using components_rebuild(1) [OF assms(1)] by (simp add: element_of_value_def)
qed

text \<open>A concrete library: integers compare by value, casts keep the type.\<close>

definition text_graph_lib :: graph_lib where
  "text_graph_lib = \<lparr>
     gl_values = text_lib,
     gl_floats = no_floats,
     scalar_cast = (\<lambda>v t. if sv_data_type v = t then Inr v else Inl ''unsupported cast''),
     date_scalar = (\<lambda>_. Inl ''unsupported''),
     id_le = (\<lambda>a b. case (eid_as_i64 a, eid_as_i64 b) of (Some m, Some n) \<Rightarrow> m <=s n | _ \<Rightarrow> True),
     id_text = (\<lambda>e. case eid_as_i64 e of Some n \<Rightarrow> show_i64 n | None \<Rightarrow> ''?''),
     extension_cell = (\<lambda>_. None),
     semantic_cell = (\<lambda>_. None)\<rparr>"

theorem element_value_roundtrip_witness:
  "element_of_value text_graph_lib (element_to_value (ElementId (SV_Struct 1 False [(''k0'', SV_Int64 5), (''k1'', SV_Utf8 ''x'')]))) =
     Inr (ElementId (SV_Struct 1 False [(''k0'', SV_Int64 5), (''k1'', SV_Utf8 ''x'')]))"
  by (rule element_value_roundtrip [of "SV_Struct 1 False [(''a'', SV_Int64 5), (''b'', SV_Utf8 ''x'')]"])
    (code_simp, simp add: eid_components_def value_typed_def)

text \<open>
  when the partitioned write routes validate, every mapped partition of a partitioned
  relationship type is the one route of its endpoint pair.
\<close>

theorem partition_write_route:
  assumes "validate_partitioned_writes g = Inr ()"
    and "rel \<in> fst ` set (gm_edge_partitions g)" and "e \<in> set (edge_partitions g rel)"
  shows "edge_for_endpoints g rel (em_src_label e) (em_dst_label e) = Inr e"
proof -
  have "endpoint_pairs_unique (edge_partitions g rel) {}"
    using assms(1,2) by (auto simp: validate_partitioned_writes_def find_None_iff split: option.splits)
  then have "filter (\<lambda>x. (em_src_label x, em_dst_label x) = (em_src_label e, em_dst_label e))
      (edge_partitions g rel) = [e]"
    using endpoint_pairs_unique_distinct assms(3) by (intro filter_distinct_key) blast+
  then show ?thesis by (simp add: edge_for_endpoints_def)
qed

text \<open>A mapping whose relationship type has two partitions.\<close>

definition two_routes :: graph_mapping where
  "two_routes =
     (let e = \<lparr>em_foreign_key = None, em_rel_type = ''LIKES'', em_source = MS_Table ''t'',
                em_src_column = [''s''], em_dst_column = [''d''], em_src_label = ''A'', em_dst_label = ''B'',
                em_id_column = None, em_properties = []\<rparr> in
      map_edge_partition (e\<lparr>em_src_label := ''B''\<rparr>)
       (map_edge_partition e \<lparr>gm_nodes = [], gm_edges = [], gm_edge_partitions = [],
          gm_edge_instances = [], gm_node_instances = []\<rparr>))"

theorem partition_write_route_witness:
  "\<exists>e. edge_for_endpoints two_routes ''LIKES'' ''B'' ''B'' = Inr e \<and> em_src_label e = ''B''"
proof -
  let ?e = "edge_partitions two_routes ''LIKES'' ! 1"
  have "edge_for_endpoints two_routes ''LIKES'' (em_src_label ?e) (em_dst_label ?e) = Inr ?e"
    by (rule partition_write_route)
      (simp_all add: two_routes_def map_edge_partition_def edge_partitions_def bt_default_def
        validate_partitioned_writes_def Let_def)
  then show ?thesis
    by (simp add: two_routes_def map_edge_partition_def edge_partitions_def bt_default_def Let_def)
qed

end
