(* ===== verification/Graph_Store.thy ===== *)
theory Graph_Store
  imports Graph_Mapping
begin

text \<open>
  The property graph (\<open>src/src/ir/catalog.rs\<close>, \<open>src/src/ir/catalog/keyed.rs\<close>,
  \<open>src/src/ir/catalog/source.rs\<close>): immutable base tables with their indexes, the session
  overlay of writes, the pending-change sets, and the optional external source.

  An Arrow batch is its columns (name, value-type tag, cells).  A \<open>HashMap\<close> is an
  association list; where the source iterates a hash map the model iterates the list, one
  of the orders the source may take.  A \<open>BTreeMap\<close> with string keys is kept in key order;
  one keyed by element addresses is an association list that is sorted where it is iterated.
  The trait object \<open>GraphSource\<close> is a record of its methods.  Operations that write
  through \<open>&self\<close> (interior mutability) or \<open>&mut self\<close> return the graph they leave behind,
  on error paths too.
\<close>

section \<open>Errors\<close>

datatype catalog_error =
    UnknownLabel string | UnknownRelType string | Schema string | DeleteIntegrity string

section \<open>Arrow batches\<close>

record record_batch =
  rb_rows :: nat
  rb_columns :: "(string \<times> string option \<times> scalar_value list) list"

definition ascii_lower :: "char \<Rightarrow> char" where
  "ascii_lower c =
     (let n = (of_char c :: nat) in if 65 \<le> n \<and> n \<le> 90 then char_of (n + 32) else c)"

definition eq_ignore_case :: "string \<Rightarrow> string \<Rightarrow> bool" where
  "eq_ignore_case a b \<longleftrightarrow> map ascii_lower a = map ascii_lower b"

fun find_index :: "('a \<Rightarrow> bool) \<Rightarrow> 'a list \<Rightarrow> nat option" where
  "find_index P [] = None"
| "find_index P (x # xs) = (if P x then Some 0 else map_option Suc (find_index P xs))"

text \<open>The only element satisfying a test, as \<open>next()?\<close> and \<open>next().is_none()\<close> compute it.\<close>

definition only :: "'a list \<Rightarrow> 'a option" where
  "only xs = (case xs of [x] \<Rightarrow> Some x | _ \<Rightarrow> None)"

definition schema_index :: "record_batch \<Rightarrow> string \<Rightarrow> nat option" where
  "schema_index b name =
     (case find_index (\<lambda>c. fst c = name) (rb_columns b) of
        Some i \<Rightarrow> Some i
      | None \<Rightarrow> only (filter (\<lambda>i. eq_ignore_case (fst (rb_columns b ! i)) name)
                  [0..<length (rb_columns b)]))"

text \<open>
  \<open>array_value\<close>: extension types first, then by the Arrow type of the column.
  \<open>DT_Other\<close> 0, 1 and 2 stand for \<open>List\<close>, \<open>LargeList\<close> and \<open>FixedSizeList\<close>.
\<close>

definition is_list_type :: "data_type \<Rightarrow> bool" where
  "is_list_type t = (case t of DT_Other n \<Rightarrow> n < 3 | _ \<Rightarrow> False)"

definition cell_value :: "graph_lib \<Rightarrow> string option \<Rightarrow> scalar_value \<Rightarrow> val" where
  "cell_value G tag c =
     (if sv_is_null c then V_Null
      else case extension_cell G c of
        Some v \<Rightarrow> v
      | None \<Rightarrow>
          (case c of
             SV_Date32 _ \<Rightarrow> (case semantic_cell G c of Some v \<Rightarrow> v | None \<Rightarrow> V_Null)
           | SV_Int64 n \<Rightarrow> V_Int n
           | SV_Int32 n \<Rightarrow> V_Int (scast n)
           | SV_Float64 x \<Rightarrow> V_Float x
           | SV_Boolean b \<Rightarrow> V_Bool b
           | SV_Utf8 s \<Rightarrow>
               if tag = Some ''datetime'' then V_DateTime s
               else if tag = Some ''map'' \<or> tag = Some ''value'' then
                 (case parse_debug_value (gl_values G) (gl_floats G) s of Some v \<Rightarrow> v | None \<Rightarrow> V_Null)
               else V_String s
           | SV_Other t _ \<Rightarrow>
               if is_list_type t then (case semantic_cell G c of Some v \<Rightarrow> v | None \<Rightarrow> V_Scalar c)
               else V_Scalar c
           | _ \<Rightarrow> V_Scalar c))"

definition array_value :: "graph_lib \<Rightarrow> string option \<times> scalar_value list \<Rightarrow> nat \<Rightarrow> val" where
  "array_value G col row = (if length (snd col) \<le> row then V_Null else cell_value G (fst col) (snd col ! row))"

definition column_value :: "graph_lib \<Rightarrow> record_batch \<Rightarrow> string \<Rightarrow> i64 \<Rightarrow> val" where
  "column_value G b name row =
     (case schema_index b name of
        None \<Rightarrow> V_Null
      | Some i \<Rightarrow> array_value G (snd (rb_columns b ! i)) (unat row))"

definition map_property_value_if_present :: "(string \<times> val) list \<Rightarrow> string \<Rightarrow> val option" where
  "map_property_value_if_present m key =
     (case map_of m key of
        Some v \<Rightarrow> Some v
      | None \<Rightarrow> only (map snd (filter (\<lambda>e. eq_ignore_case (fst e) key) m)))"

definition map_property_value :: "(string \<times> val) list \<Rightarrow> string \<Rightarrow> val" where
  "map_property_value m key =
     (case map_property_value_if_present m key of Some v \<Rightarrow> v | None \<Rightarrow> V_Null)"

definition table_property_keys :: "record_batch \<Rightarrow> string list \<Rightarrow> string list" where
  "table_property_keys b excluded = filter (\<lambda>k. k \<notin> set excluded) (map fst (rb_columns b))"

definition array_key :: "record_batch \<Rightarrow> nat \<Rightarrow> nat \<Rightarrow> catalog_error + element_id" where
  "array_key b col row =
     (case element_new (snd (snd (rb_columns b ! col)) ! row) of
        Inl e \<Rightarrow> Inl (Schema e) | Inr k \<Rightarrow> Inr k)"

section \<open>State\<close>

type_synonym addr = "string \<times> element_id"
type_synonym element_addr = "bool \<times> string \<times> element_id"
type_synonym endpoints = "string \<times> element_id \<times> string \<times> element_id"
type_synonym props = "(string \<times> val) list"

record node_table =
  tb_label :: string
  tb_batch :: record_batch

record edge_table =
  et_rel_type :: string
  et_src_label :: string
  et_dst_label :: string
  et_batch :: record_batch

record edge_ref =
  er_row :: element_id
  er_label :: string
  er_id :: element_id

record row_location =
  rl_table :: nat
  rl_row :: i64

record inserted_edge =
  ie_src_label :: string
  ie_src_id :: element_id
  ie_dst_label :: string
  ie_dst_id :: element_id
  ie_props :: props

record vertex_property_record =
  vp_id :: i64
  vp_value :: val
  vp_public :: "val option"
  vp_meta :: props

record graph_overlay =
  ov_allow_null :: bool
  ov_label_sets :: "(addr \<times> string set) list"
  ov_cypher_ids :: "(element_addr \<times> i64) list"
  ov_edge_nulls :: "(addr \<times> string set) list"
  ov_vertex_props :: "(addr \<times> (string \<times> vertex_property_record list) list) list"
  ov_next_property_id :: i64
  ov_public_ids :: "(element_addr \<times> val) list"
  ov_public_lookup :: "(string \<times> element_addr list) list"
  ov_unassigned :: "element_addr list"
  ov_inserted_nodes :: "(addr \<times> props) list"
  ov_node_overrides :: "(addr \<times> props) list"
  ov_deleted_nodes :: "addr set"
  ov_inserted_edges :: "(addr \<times> inserted_edge) list"
  ov_edge_overrides :: "(addr \<times> props) list"
  ov_deleted_edges :: "addr set"
  ov_node_counts :: "(string \<times> i64) list"
  ov_edge_counts :: "(string \<times> i64) list"
  ov_out_adj :: "(addr \<times> addr list) list"
  ov_in_adj :: "(addr \<times> addr list) list"
  ov_replaced_nodes :: "addr set"
  ov_replaced_edges :: "addr set"
  ov_inserted_node_keys :: "(string \<times> string list) list"
  ov_override_node_keys :: "(string \<times> string list) list"
  ov_inserted_edge_keys :: "(string \<times> string list) list"
  ov_override_edge_keys :: "(string \<times> string list) list"

record pending_changes =
  pc_nodes :: "addr set"
  pc_edges :: "addr set"

record native_state =
  ns_node :: "val option"
  ns_public_id :: "val option"
  ns_labels :: "string list option"
  ns_cypher_id :: "i64 option"
  ns_null_keys :: "string set"
  ns_allow_null :: bool

record graph_source =
  gs_dynamic :: bool
  gs_generated_key :: "bool \<Rightarrow> string \<Rightarrow> (string + element_id) option"
  gs_generated_edge_key :: "string \<Rightarrow> string \<Rightarrow> string \<Rightarrow> (string + element_id) option"
  gs_edge_defaults :: "string \<Rightarrow> string \<Rightarrow> string \<Rightarrow> (string + (props \<times> string list)) option"
  gs_public_addresses :: "val \<Rightarrow> bool \<Rightarrow> element_addr list"
  gs_native_state :: "bool \<Rightarrow> string \<Rightarrow> element_id \<Rightarrow> native_state option"
  gs_property_handle :: "string \<Rightarrow> element_id \<Rightarrow> string \<Rightarrow> i64"
  gs_property :: "bool \<Rightarrow> string \<Rightarrow> element_id \<Rightarrow> string \<Rightarrow> val"
  gs_ids :: "bool \<Rightarrow> string \<Rightarrow> element_id list"
  gs_endpoints :: "string \<Rightarrow> element_id \<Rightarrow> endpoints option"
  gs_exists :: "bool \<Rightarrow> string \<Rightarrow> element_id \<Rightarrow> bool"
  gs_neighbors :: "bool \<Rightarrow> string \<Rightarrow> element_id \<Rightarrow> string list \<Rightarrow> endpoints list"

record property_graph =
  pg_source_keys :: bool
  pg_hydrated :: "element_addr set"
  pg_source :: "graph_source option"
  pg_mapping :: "graph_mapping option"
  pg_nodes :: "(string \<times> node_table) list"
  pg_node_keys :: "(string \<times> element_id list) list"
  pg_mapped_defaults :: "((bool \<times> string) \<times> props) list"
  pg_unsupported_defaults :: "((bool \<times> string) \<times> string list) list"
  pg_key_types :: "((bool \<times> string) \<times> data_type) list"
  pg_node_locations :: "(addr \<times> nat) list"
  pg_edge_keys :: "(string \<times> element_id list) list"
  pg_edges :: "(string \<times> edge_table) list"
  pg_edge_tables :: "(string \<times> edge_table list) list"
  pg_edge_locations :: "(addr \<times> row_location) list"
  pg_edge_counts :: "(string \<times> i64) list"
  pg_node_order :: "string list"
  pg_edge_order :: "string list"
  pg_out_adj :: "((string \<times> element_id \<times> string) \<times> edge_ref list) list"
  pg_in_adj :: "((string \<times> element_id \<times> string) \<times> edge_ref list) list"
  pg_overlay :: graph_overlay
  pg_pending :: pending_changes

definition empty_overlay :: graph_overlay where
  "empty_overlay = \<lparr>
     ov_allow_null = False, ov_label_sets = [], ov_cypher_ids = [], ov_edge_nulls = [],
     ov_vertex_props = [], ov_next_property_id = 0, ov_public_ids = [], ov_public_lookup = [],
     ov_unassigned = [], ov_inserted_nodes = [], ov_node_overrides = [], ov_deleted_nodes = {},
     ov_inserted_edges = [], ov_edge_overrides = [], ov_deleted_edges = {}, ov_node_counts = [],
     ov_edge_counts = [], ov_out_adj = [], ov_in_adj = [], ov_replaced_nodes = {},
     ov_replaced_edges = {}, ov_inserted_node_keys = [], ov_override_node_keys = [],
     ov_inserted_edge_keys = [], ov_override_edge_keys = []\<rparr>"

definition no_pending :: pending_changes where
  "no_pending = \<lparr>pc_nodes = {}, pc_edges = {}\<rparr>"

definition new_graph :: property_graph where
  "new_graph = \<lparr>
     pg_source_keys = False, pg_hydrated = {}, pg_source = None, pg_mapping = None, pg_nodes = [],
     pg_node_keys = [], pg_mapped_defaults = [], pg_unsupported_defaults = [], pg_key_types = [],
     pg_node_locations = [], pg_edge_keys = [], pg_edges = [], pg_edge_tables = [],
     pg_edge_locations = [], pg_edge_counts = [], pg_node_order = [], pg_edge_order = [],
     pg_out_adj = [], pg_in_adj = [], pg_overlay = empty_overlay, pg_pending = no_pending\<rparr>"

section \<open>Association lists\<close>

definition al_default :: "'v \<Rightarrow> ('k \<times> 'v) list \<Rightarrow> 'k \<Rightarrow> 'v" where
  "al_default d m k = (case map_of m k of None \<Rightarrow> d | Some v \<Rightarrow> v)"

text \<open>\<open>entry(k).or_default()\<close> followed by an update in place.\<close>

definition al_upd :: "'v \<Rightarrow> ('v \<Rightarrow> 'v) \<Rightarrow> 'k \<Rightarrow> ('k \<times> 'v) list \<Rightarrow> ('k \<times> 'v) list" where
  "al_upd d f k m = AList.update k (f (al_default d m k)) m"

lemma map_of_al_upd [simp]: "map_of (al_upd d f k m) = (map_of m)(k \<mapsto> f (al_default d m k))"
  by (simp add: al_upd_def update_conv')

lemma al_default_upd [simp]:
  "al_default d (al_upd d f k m) j = (if j = k then f (al_default d m k) else al_default d m j)"
  by (simp add: al_default_def)

fun note_key_list :: "string list \<Rightarrow> string \<Rightarrow> string list" where
  "note_key_list ks k = (if k \<in> set ks then ks else ks @ [k])"

definition note_keys :: "string \<Rightarrow> props \<Rightarrow> (string \<times> string list) list \<Rightarrow> (string \<times> string list) list" where
  "note_keys label ps keys =
     (if ps = [] then keys
      else al_upd [] (\<lambda>ks. fold (\<lambda>p ks. if snd p = V_Null then ks else note_key_list ks (fst p)) ps ks) label keys)"

definition note_key :: "string \<Rightarrow> string \<Rightarrow> (string \<times> string list) list \<Rightarrow> (string \<times> string list) list" where
  "note_key label key keys = al_upd [] (\<lambda>ks. note_key_list ks key) label keys"

section \<open>Building the base tables\<close>

definition validate_keys :: "element_id list \<Rightarrow> nat \<Rightarrow> bool" where
  "validate_keys keys rows \<longleftrightarrow> length keys = rows \<and> distinct keys"

definition row_keys :: "i64 \<Rightarrow> nat \<Rightarrow> element_id list" where
  "row_keys base n = map (\<lambda>row. eid_of_i64 (base + of_nat row)) [0..<n]"

definition add_keyed_nodes ::
  "node_table \<Rightarrow> element_id list \<Rightarrow> property_graph \<Rightarrow> (catalog_error + unit) \<times> property_graph" where
  "add_keyed_nodes t keys g =
     (let label = tb_label t in
      if \<not> validate_keys keys (rb_rows (tb_batch t))
      then (Inl (Schema ''primary keys must be unique and match the row count''), g)
      else if keys \<noteq> [] \<and> list_ex (\<lambda>k. sv_data_type (eid_scalar k) \<noteq> sv_data_type (eid_scalar (hd keys))) keys
      then (Inl (Schema ''primary keys must have one declared Arrow type''), g)
      else (Inr (), g\<lparr>
        pg_key_types := (if keys = [] then pg_key_types g
          else AList.update (False, label) (sv_data_type (eid_scalar (hd keys))) (pg_key_types g)),
        pg_source_keys := pg_source_keys g \<or>
          list_ex (\<lambda>(row, k). eid_as_i64 k \<noteq> Some (of_nat row)) (enumerate 0 keys),
        pg_node_order := note_key_list (pg_node_order g) label,
        pg_node_locations := fold (\<lambda>(row, k). AList.update (label, k) row) (enumerate 0 keys)
          (filter (\<lambda>e. fst (fst e) \<noteq> label) (pg_node_locations g)),
        pg_node_keys := AList.update label keys (pg_node_keys g),
        pg_nodes := AList.update label t (pg_nodes g)\<rparr>))"

definition add_nodes :: "node_table \<Rightarrow> property_graph \<Rightarrow> (catalog_error + unit) \<times> property_graph" where
  "add_nodes t g =
     add_keyed_nodes t (row_keys 0 (rb_rows (tb_batch t)))
       (g\<lparr>pg_node_order := note_key_list (pg_node_order g) (tb_label t)\<rparr>)"

definition edge_schema_ok :: "record_batch \<Rightarrow> bool" where
  "edge_schema_ok b \<longleftrightarrow> 2 \<le> length (rb_columns b) \<and>
     fst (rb_columns b ! 0) = ''__src_id'' \<and> fst (rb_columns b ! 1) = ''__dst_id''"

definition edge_count :: "property_graph \<Rightarrow> string \<Rightarrow> i64" where
  "edge_count g rel = al_default 0 (pg_edge_counts g) rel"

definition row_endpoints :: "record_batch \<Rightarrow> nat \<Rightarrow> catalog_error + element_id \<times> element_id" where
  "row_endpoints b row = bind_res (array_key b 0 row) (\<lambda>s. bind_res (array_key b 1 row) (\<lambda>d. Inr (s, d)))"

definition add_edge_row ::
  "edge_table \<Rightarrow> nat \<Rightarrow> nat \<times> element_id \<times> element_id \<times> element_id \<Rightarrow> property_graph \<Rightarrow> property_graph" where
  "add_edge_row t table_index entry g =
     (case entry of (row, key, s, d) \<Rightarrow> g\<lparr>
        pg_out_adj := al_upd [] (\<lambda>rs. rs @ [\<lparr>er_row = key, er_label = et_dst_label t, er_id = d\<rparr>])
          (et_src_label t, s, et_rel_type t) (pg_out_adj g),
        pg_in_adj := al_upd [] (\<lambda>rs. rs @ [\<lparr>er_row = key, er_label = et_src_label t, er_id = s\<rparr>])
          (et_dst_label t, d, et_rel_type t) (pg_in_adj g),
        pg_edge_locations := AList.update (et_rel_type t, key)
          \<lparr>rl_table = table_index, rl_row = of_nat row\<rparr> (pg_edge_locations g)\<rparr>)"

definition add_keyed_edges ::
  "edge_table \<Rightarrow> element_id list \<Rightarrow> property_graph \<Rightarrow> (catalog_error + unit) \<times> property_graph" where
  "add_keyed_edges t keys g =
     (let rel = et_rel_type t; b = et_batch t; rows = rb_rows b in
      if \<not> edge_schema_ok b
      then (Inl (Schema ''edge table must start with __src_id and __dst_id''), g)
      else if \<not> validate_keys keys rows
      then (Inl (Schema ''primary keys must be unique and match the row count''), g)
      else
        let g = g\<lparr>pg_source_keys := pg_source_keys g \<or>
              list_ex (\<lambda>(row, k). eid_as_i64 k \<noteq> Some (edge_count g rel + of_nat row)) (enumerate 0 keys)\<rparr> in
        if list_ex (\<lambda>k. map_of (pg_edge_locations g) (rel, k) \<noteq> None) keys
        then (Inl (Schema ''duplicate edge identity''), g)
        else case collect_res (map (row_endpoints b) [0..<rows]) of
          Inl e \<Rightarrow> (Inl e, g)
        | Inr ends \<Rightarrow>
            let index = length (al_default [] (pg_edge_tables g) rel);
                g = fold (add_edge_row t index) (zip [0..<rows] (zip keys ends)) g in
            (Inr (), g\<lparr>
               pg_edge_order := note_key_list (pg_edge_order g) rel,
               pg_edge_counts := al_upd 0 (\<lambda>n. n + of_nat rows) rel (pg_edge_counts g),
               pg_edges := (if map_of (pg_edges g) rel = None then AList.update rel t (pg_edges g) else pg_edges g),
               pg_edge_keys := al_upd [] (\<lambda>ks. ks @ keys) rel (pg_edge_keys g),
               pg_edge_tables := al_upd [] (\<lambda>ts. ts @ [t]) rel (pg_edge_tables g)\<rparr>))"

definition add_edges :: "edge_table \<Rightarrow> property_graph \<Rightarrow> (catalog_error + unit) \<times> property_graph" where
  "add_edges t g =
     (if \<not> edge_schema_ok (et_batch t)
      then (Inl (Schema (''edge table `'' @ et_rel_type t @ ''` must start with __src_id, __dst_id'')), g)
      else add_keyed_edges t (row_keys (edge_count g (et_rel_type t)) (rb_rows (et_batch t))) g)"

end
