(* ===== verification/Graph_Reads.thy ===== *)
theory Graph_Reads
  imports Graph_Store
begin

text \<open>
  Reading the property graph through its overlay (\<open>src/src/ir/catalog.rs\<close>: \<open>out_edges\<close>,
  \<open>in_edges\<close>, \<open>node_property\<close>, \<open>edge_property\<close>, \<open>edge_ids\<close>, \<open>node_ids\<close>,
  \<open>edge_endpoints\<close>, \<open>live_edge_endpoints\<close>, \<open>node_is_live\<close>, the key lists), and the
  agreement of the base adjacency indexes with the edge rows that
  \<open>add_keyed_edges\<close> establishes.
\<close>

section \<open>Sorting with a comparison of element keys\<close>

fun insert_by :: "('a \<Rightarrow> 'a \<Rightarrow> bool) \<Rightarrow> 'a \<Rightarrow> 'a list \<Rightarrow> 'a list" where
  "insert_by le x [] = [x]"
| "insert_by le x (y # ys) = (if le x y then x # y # ys else y # insert_by le x ys)"

definition sort_by :: "('a \<Rightarrow> 'a \<Rightarrow> bool) \<Rightarrow> 'a list \<Rightarrow> 'a list" where
  "sort_by le xs = foldr (insert_by le) xs []"

lemma mset_insert_by [simp]: "mset (insert_by le x xs) = add_mset x (mset xs)"
  by (induction xs) auto

lemma mset_sort_by [simp]: "mset (sort_by le xs) = mset xs"
  by (induction xs) (simp_all add: sort_by_def)

lemma set_sort_by [simp]: "set (sort_by le xs) = set xs"
  by (metis mset_sort_by set_mset_mset)

lemma sort_by_empty [simp]: "sort_by le xs = [] \<longleftrightarrow> xs = []"
  by (metis mset_sort_by mset_zero_iff)

section \<open>Liveness\<close>

definition edge_is_live :: "graph_overlay \<Rightarrow> string \<Rightarrow> element_id \<Rightarrow> bool" where
  "edge_is_live ov rel row \<longleftrightarrow> (rel, row) \<notin> ov_deleted_edges ov"

definition node_is_live :: "property_graph \<Rightarrow> string \<Rightarrow> element_id \<Rightarrow> bool" where
  "node_is_live g label i =
     (if (label, i) \<in> ov_deleted_nodes (pg_overlay g) then False
      else if map_of (ov_inserted_nodes (pg_overlay g)) (label, i) \<noteq> None then True
      else case pg_source g of
        None \<Rightarrow> map_of (pg_node_locations g) (label, i) \<noteq> None
      | Some s \<Rightarrow> gs_exists s False label i)"

section \<open>Edges\<close>

definition base_endpoints :: "property_graph \<Rightarrow> string \<Rightarrow> element_id \<Rightarrow> endpoints option" where
  "base_endpoints g rel row =
     (case map_of (pg_edge_locations g) (rel, row) of
        None \<Rightarrow> None
      | Some loc \<Rightarrow>
          (case map_of (pg_edge_tables g) rel of
             None \<Rightarrow> None
           | Some ts \<Rightarrow>
               if length ts \<le> rl_table loc then None
               else let t = ts ! rl_table loc; r = unat (rl_row loc) in
                 (case (array_key (et_batch t) 0 r, array_key (et_batch t) 1 r) of
                    (Inr s, Inr d) \<Rightarrow> Some (et_src_label t, s, et_dst_label t, d)
                  | _ \<Rightarrow> None)))"

definition edge_endpoints :: "property_graph \<Rightarrow> string \<Rightarrow> element_id \<Rightarrow> endpoints option" where
  "edge_endpoints g rel row =
     (case map_of (ov_inserted_edges (pg_overlay g)) (rel, row) of
        Some e \<Rightarrow> Some (ie_src_label e, ie_src_id e, ie_dst_label e, ie_dst_id e)
      | None \<Rightarrow>
          (case pg_source g of
             Some s \<Rightarrow> gs_endpoints s rel row
           | None \<Rightarrow> base_endpoints g rel row))"

definition live_edge_endpoints :: "property_graph \<Rightarrow> string \<Rightarrow> element_id \<Rightarrow> endpoints option" where
  "live_edge_endpoints g rel row =
     (if edge_is_live (pg_overlay g) rel row then edge_endpoints g rel row else None)"

definition rel_endpoint_labels :: "property_graph \<Rightarrow> string \<Rightarrow> (string \<times> string) list" where
  "rel_endpoint_labels g rel =
     (case map_of (pg_edge_tables g) rel of
        Some ts \<Rightarrow> map (\<lambda>t. (et_src_label t, et_dst_label t)) ts
      | None \<Rightarrow> (case map_of (pg_edges g) rel of
          Some t \<Rightarrow> [(et_src_label t, et_dst_label t)] | None \<Rightarrow> []))"

text \<open>
  \<open>out_edges\<close> and \<open>in_edges\<close>: the source's neighbours that the overlay has neither deleted
  nor replaced, then the base adjacency, then the adjacency of inserted edges.
\<close>

definition source_neighbors ::
  "property_graph \<Rightarrow> bool \<Rightarrow> string \<Rightarrow> element_id \<Rightarrow> string list \<Rightarrow> endpoints list" where
  "source_neighbors g incoming label i rels =
     filter (\<lambda>(rel, row, l, n). edge_is_live (pg_overlay g) rel row \<and>
         map_of (ov_inserted_edges (pg_overlay g)) (rel, row) = None \<and>
         (l, n) \<notin> ov_deleted_nodes (pg_overlay g))
       (case pg_source g of None \<Rightarrow> [] | Some s \<Rightarrow> gs_neighbors s incoming label i rels)"

definition base_neighbors ::
  "property_graph \<Rightarrow> ((string \<times> element_id \<times> string) \<times> edge_ref list) list \<Rightarrow> string \<Rightarrow> element_id \<Rightarrow>
     string list \<Rightarrow> endpoints list" where
  "base_neighbors g adj label i rels =
     concat (map (\<lambda>rel. map (\<lambda>r. (rel, er_row r, er_label r, er_id r))
         (filter (\<lambda>r. (er_label r, er_id r) \<notin> ov_deleted_nodes (pg_overlay g) \<and>
             edge_is_live (pg_overlay g) rel (er_row r))
           (al_default [] adj (label, i, rel))))
       (if rels = [] then map fst (pg_edges g) else rels))"

definition inserted_neighbors ::
  "property_graph \<Rightarrow> (addr \<times> addr list) list \<Rightarrow> (inserted_edge \<Rightarrow> addr) \<Rightarrow> addr \<Rightarrow> string list \<Rightarrow> endpoints list" where
  "inserted_neighbors g adj other node rels =
     concat (map (\<lambda>(rel, row).
         if rels \<noteq> [] \<and> rel \<notin> set rels then []
         else case map_of (ov_inserted_edges (pg_overlay g)) (rel, row) of
           None \<Rightarrow> []
         | Some e \<Rightarrow>
             if \<not> edge_is_live (pg_overlay g) rel row \<or> other e \<in> ov_deleted_nodes (pg_overlay g) then []
             else [(rel, row, fst (other e), snd (other e))])
       (al_default [] adj node))"

definition ie_src :: "inserted_edge \<Rightarrow> addr" where "ie_src e = (ie_src_label e, ie_src_id e)"
definition ie_dst :: "inserted_edge \<Rightarrow> addr" where "ie_dst e = (ie_dst_label e, ie_dst_id e)"

definition out_edges :: "property_graph \<Rightarrow> string \<Rightarrow> element_id \<Rightarrow> string list \<Rightarrow> endpoints list" where
  "out_edges g label i rels =
     source_neighbors g False label i rels @
     (if (label, i) \<in> ov_deleted_nodes (pg_overlay g) then []
      else base_neighbors g (pg_out_adj g) label i rels @
           inserted_neighbors g (ov_out_adj (pg_overlay g)) ie_dst (label, i) rels)"

definition in_edges :: "property_graph \<Rightarrow> string \<Rightarrow> element_id \<Rightarrow> string list \<Rightarrow> endpoints list" where
  "in_edges g label i rels =
     source_neighbors g True label i rels @
     (if (label, i) \<in> ov_deleted_nodes (pg_overlay g) then []
      else base_neighbors g (pg_in_adj g) label i rels @
           inserted_neighbors g (ov_in_adj (pg_overlay g)) ie_src (label, i) rels)"

section \<open>Properties\<close>

definition node_property :: "graph_lib \<Rightarrow> property_graph \<Rightarrow> string \<Rightarrow> element_id \<Rightarrow> string \<Rightarrow> val" where
  "node_property G g label i key =
     (let ov = pg_overlay g; k = (label, i) in
      if k \<in> ov_deleted_nodes ov then V_Null
      else case map_of (ov_inserted_nodes ov) k of
        Some ps \<Rightarrow> map_property_value ps key
      | None \<Rightarrow>
          (case Option.bind (map_of (ov_node_overrides ov) k) (\<lambda>ps. map_property_value_if_present ps key) of
             Some v \<Rightarrow> v
           | None \<Rightarrow>
               if k \<in> ov_replaced_nodes ov then V_Null
               else case pg_source g of
                 Some s \<Rightarrow> gs_property s False label i key
               | None \<Rightarrow>
                   (case map_of (pg_nodes g) label of
                      None \<Rightarrow> V_Null
                    | Some t \<Rightarrow>
                        (case map_of (pg_node_locations g) k of
                           None \<Rightarrow> V_Null
                         | Some row \<Rightarrow> column_value G (tb_batch t) key (of_nat row)))))"

definition edge_property :: "graph_lib \<Rightarrow> property_graph \<Rightarrow> string \<Rightarrow> element_id \<Rightarrow> string \<Rightarrow> val" where
  "edge_property G g rel row key =
     (let ov = pg_overlay g; k = (rel, row) in
      if k \<in> ov_deleted_edges ov then V_Null
      else case map_of (ov_inserted_edges ov) k of
        Some e \<Rightarrow> map_property_value (ie_props e) key
      | None \<Rightarrow>
          (case Option.bind (map_of (ov_edge_overrides ov) k) (\<lambda>ps. map_property_value_if_present ps key) of
             Some v \<Rightarrow> v
           | None \<Rightarrow>
               if k \<in> ov_replaced_edges ov then V_Null
               else case pg_source g of
                 Some s \<Rightarrow> gs_property s True rel row key
               | None \<Rightarrow>
                   (case map_of (pg_edge_locations g) k of
                      Some loc \<Rightarrow>
                        (case map_of (pg_edge_tables g) rel of
                           None \<Rightarrow> V_Null
                         | Some ts \<Rightarrow>
                             if length ts \<le> rl_table loc then V_Null
                             else column_value G (et_batch (ts ! rl_table loc)) key (rl_row loc))
                    | None \<Rightarrow>
                        (case map_of (pg_edges g) rel of
                           None \<Rightarrow> V_Null
                         | Some t \<Rightarrow>
                             (case eid_as_i64 row of
                                None \<Rightarrow> V_Null
                              | Some n \<Rightarrow> column_value G (et_batch t) key n)))))"

section \<open>Listing elements\<close>

definition edge_ids :: "graph_lib \<Rightarrow> property_graph \<Rightarrow> string \<Rightarrow> element_id list" where
  "edge_ids G g rel =
     filter (\<lambda>i. edge_is_live (pg_overlay g) rel i \<and> map_of (ov_inserted_edges (pg_overlay g)) (rel, i) = None)
       (case pg_source g of Some s \<Rightarrow> gs_ids s True rel | None \<Rightarrow> al_default [] (pg_edge_keys g) rel) @
     filter (edge_is_live (pg_overlay g) rel)
       (sort_by (id_le G) (map snd (filter (\<lambda>k. fst k = rel) (map fst (ov_inserted_edges (pg_overlay g))))))"

definition node_ids :: "graph_lib \<Rightarrow> property_graph \<Rightarrow> string \<Rightarrow> catalog_error + element_id list" where
  "node_ids G g label =
     (let ov = pg_overlay g;
          base = filter (\<lambda>i. (label, i) \<notin> ov_deleted_nodes ov \<and> map_of (ov_inserted_nodes ov) (label, i) = None)
            (case pg_source g of Some s \<Rightarrow> gs_ids s False label | None \<Rightarrow> al_default [] (pg_node_keys g) label);
          inserted = map snd (filter (\<lambda>k. fst k = label) (map fst (ov_inserted_nodes ov)));
          ids = sort_by (id_le G) (base @ filter (\<lambda>i. (label, i) \<notin> ov_deleted_nodes ov) inserted) in
      if ids = [] \<and> map_of (pg_nodes g) label = None \<and> inserted = []
      then Inl (UnknownLabel label) else Inr ids)"

definition graph_labels :: "property_graph \<Rightarrow> string list" where
  "graph_labels g = sort (fold (\<lambda>k out. note_key_list out (fst k)) (map fst (ov_inserted_nodes (pg_overlay g)))
     (map fst (pg_nodes g)))"

definition rel_types :: "property_graph \<Rightarrow> string list" where
  "rel_types g = sort (fold (\<lambda>k out. note_key_list out (fst k)) (map fst (ov_inserted_edges (pg_overlay g)))
     (fold (\<lambda>r out. note_key_list out r) (map fst (pg_edges g)) (map fst (pg_edge_tables g))))"

definition write_mapping :: "property_graph \<Rightarrow> graph_mapping option" where
  "write_mapping g =
     (if (case pg_source g of Some s \<Rightarrow> gs_dynamic s | None \<Rightarrow> False) then None else pg_mapping g)"

definition add_missing :: "string list \<Rightarrow> string list \<Rightarrow> string list" where
  "add_missing ks out = fold (\<lambda>k out. note_key_list out k) ks out"

definition node_property_keys :: "property_graph \<Rightarrow> bool \<Rightarrow> string \<Rightarrow> string list" where
  "node_property_keys g keep_id label =
     add_missing (al_default [] (ov_inserted_node_keys (pg_overlay g)) label @
                  al_default [] (ov_override_node_keys (pg_overlay g)) label)
       (case map_of (pg_nodes g) label of
          Some t \<Rightarrow> table_property_keys (tb_batch t) (if keep_id then [] else [''id''])
        | None \<Rightarrow> [])"

definition edge_reserved :: "string list" where
  "edge_reserved = [''src'', ''dst'', ''id'', ''__src_id'', ''__dst_id'']"

definition edge_property_keys :: "property_graph \<Rightarrow> string \<Rightarrow> string list" where
  "edge_property_keys g rel =
     (let base = (case map_of (pg_edge_tables g) rel of
            Some ts \<Rightarrow> fold (\<lambda>t. add_missing (table_property_keys (et_batch t) edge_reserved)) ts []
          | None \<Rightarrow> (case map_of (pg_edges g) rel of
              Some t \<Rightarrow> table_property_keys (et_batch t) edge_reserved | None \<Rightarrow> []));
          mapped = (case write_mapping g of
            None \<Rightarrow> base
          | Some mp \<Rightarrow> fold (\<lambda>p. add_missing (map fst (em_properties p))) (edge_partitions mp rel) base) in
      add_missing (al_default [] (ov_inserted_edge_keys (pg_overlay g)) rel @
                   al_default [] (ov_override_edge_keys (pg_overlay g)) rel) mapped)"

definition has_mutations :: "property_graph \<Rightarrow> bool" where
  "has_mutations g =
     (if (case pg_source g of Some s \<Rightarrow> gs_dynamic s | None \<Rightarrow> False)
      then pc_nodes (pg_pending g) \<noteq> {} \<or> pc_edges (pg_pending g) \<noteq> {}
      else let ov = pg_overlay g in
        ov_label_sets ov \<noteq> [] \<or> ov_node_counts ov \<noteq> [] \<or> ov_edge_counts ov \<noteq> [] \<or>
        ov_node_overrides ov \<noteq> [] \<or> ov_edge_overrides ov \<noteq> [] \<or>
        ov_deleted_nodes ov \<noteq> {} \<or> ov_deleted_edges ov \<noteq> {} \<or>
        ov_replaced_nodes ov \<noteq> {} \<or> ov_replaced_edges ov \<noteq> {})"

definition restore_execution_overlay :: "property_graph \<Rightarrow> property_graph \<Rightarrow> property_graph" where
  "restore_execution_overlay checkpoint g = g\<lparr>pg_overlay := pg_overlay checkpoint,
     pg_pending := pg_pending checkpoint, pg_hydrated := pg_hydrated checkpoint\<rparr>"

section \<open>Base indexes agree with the edge rows\<close>

text \<open>
  The two adjacency indexes hold exactly the base edges, each under its source and its
  target, and every recorded row location names a table and a row of it.
\<close>

definition base_wf :: "property_graph \<Rightarrow> bool" where
  "base_wf g \<longleftrightarrow>
     (\<forall>sl s rel r. r \<in> set (al_default [] (pg_out_adj g) (sl, s, rel)) \<longleftrightarrow>
        base_endpoints g rel (er_row r) = Some (sl, s, er_label r, er_id r)) \<and>
     (\<forall>dl d rel r. r \<in> set (al_default [] (pg_in_adj g) (dl, d, rel)) \<longleftrightarrow>
        base_endpoints g rel (er_row r) = Some (er_label r, er_id r, dl, d)) \<and>
     (\<forall>rel k loc. map_of (pg_edge_locations g) (rel, k) = Some loc \<longrightarrow>
        rl_table loc < length (al_default [] (pg_edge_tables g) rel) \<and>
        base_endpoints g rel k \<noteq> None)"

lemma base_wf_new: "base_wf new_graph"
  by (simp add: base_wf_def new_graph_def al_default_def base_endpoints_def)

lemma fold_add_edge_row_out:
  "r \<in> set (al_default [] (pg_out_adj (fold (add_edge_row t n) es g)) (sl, s, rel)) \<longleftrightarrow>
     r \<in> set (al_default [] (pg_out_adj g) (sl, s, rel)) \<or>
     (\<exists>row k a d. (row, k, a, d) \<in> set es \<and> (et_src_label t, a, et_rel_type t) = (sl, s, rel) \<and>
        r = \<lparr>er_row = k, er_label = et_dst_label t, er_id = d\<rparr>)"
  by (induction es arbitrary: g) (auto simp: add_edge_row_def split: if_splits)

lemma fold_add_edge_row_in:
  "r \<in> set (al_default [] (pg_in_adj (fold (add_edge_row t n) es g)) (dl, e, rel)) \<longleftrightarrow>
     r \<in> set (al_default [] (pg_in_adj g) (dl, e, rel)) \<or>
     (\<exists>row k a d. (row, k, a, d) \<in> set es \<and> (et_dst_label t, d, et_rel_type t) = (dl, e, rel) \<and>
        r = \<lparr>er_row = k, er_label = et_src_label t, er_id = a\<rparr>)"
  by (induction es arbitrary: g) (auto simp: add_edge_row_def split: if_splits)

lemma fold_add_edge_row_tables: "pg_edge_tables (fold (add_edge_row t n) es g) = pg_edge_tables g"
  by (induction es arbitrary: g) (auto simp: add_edge_row_def)

definition location_entry ::
  "edge_table \<Rightarrow> nat \<Rightarrow> nat \<times> element_id \<times> element_id \<times> element_id \<Rightarrow> addr \<times> row_location" where
  "location_entry t n e = ((et_rel_type t, fst (snd e)), \<lparr>rl_table = n, rl_row = of_nat (fst e)\<rparr>)"

lemma add_edge_row_locations:
  "map_of (pg_edge_locations (add_edge_row t n e g)) = (map_of (pg_edge_locations g))
     (fst (location_entry t n e) \<mapsto> snd (location_entry t n e))"
  by (simp add: add_edge_row_def location_entry_def update_conv' split: prod.split)

lemma fold_add_edge_row_locations:
  assumes "distinct (map (\<lambda>e. fst (snd e)) es)"
  shows "map_of (pg_edge_locations (fold (add_edge_row t n) es g)) =
    map_of (pg_edge_locations g) ++ map_of (map (location_entry t n) es)"
  using assms
proof (induction es arbitrary: g)
  case (Cons e es)
  have "fst (location_entry t n e) \<notin> fst ` set (map (location_entry t n) es)"
    using Cons.prems by (force simp: location_entry_def)
  then have "map_of (map (location_entry t n) es) (fst (location_entry t n e)) = None"
    by (simp only: map_of_eq_None_iff not_False_eq_True)
  with Cons show ?case
    by (auto simp: add_edge_row_locations fun_eq_iff map_add_def split: option.splits)
qed simp

lemma base_endpoints_at:
  assumes "map_of (pg_edge_locations g) (rel, k) = Some loc" "map_of (pg_edge_tables g) rel = Some ts"
    "rl_table loc < length ts" "row_endpoints (et_batch (ts ! rl_table loc)) (unat (rl_row loc)) = Inr (s, d)"
  shows "base_endpoints g rel k =
    Some (et_src_label (ts ! rl_table loc), s, et_dst_label (ts ! rl_table loc), d)"
  using assms by (auto simp: base_endpoints_def row_endpoints_def bind_res_eq_Inr Let_def)

lemma collect_res_nth:
  "collect_res xs = Inr ys \<Longrightarrow> length ys = length xs \<and> (\<forall>i < length xs. xs ! i = Inr (ys ! i))"
proof (induction xs arbitrary: ys rule: collect_res.induct)
  case (3 a xs)
  then show ?case by (auto simp: bind_res_eq_Inr nth_Cons split: nat.splits)
qed simp_all

lemma base_endpoints_cong:
  "map_of (pg_edge_locations g') = map_of (pg_edge_locations g) \<Longrightarrow>
   map_of (pg_edge_tables g') = map_of (pg_edge_tables g) \<Longrightarrow> base_endpoints g' = base_endpoints g"
  by (intro ext) (simp add: base_endpoints_def split: option.split)

text \<open>One table more: the base edges are the old ones and the rows of the table.\<close>

definition table_rows :: "edge_table \<Rightarrow> (nat \<times> element_id \<times> element_id \<times> element_id) list \<Rightarrow> bool" where
  "table_rows t es \<longleftrightarrow> distinct (map (\<lambda>e. fst (snd e)) es) \<and>
     (\<forall>(row, k, s, d) \<in> set es. row < 2 ^ 64 \<and> row_endpoints (et_batch t) row = Inr (s, d))"

lemma base_endpoints_add:
  assumes wf: "base_wf g" and rows: "table_rows t es"
    and fresh: "\<And>row k s d. (row, k, s, d) \<in> set es \<Longrightarrow> map_of (pg_edge_locations g) (et_rel_type t, k) = None"
    and locs: "map_of (pg_edge_locations g') = map_of (pg_edge_locations g) ++
      map_of (map (location_entry t (length (al_default [] (pg_edge_tables g) (et_rel_type t)))) es)"
    and tabs: "pg_edge_tables g' = al_upd [] (\<lambda>ts. ts @ [t]) (et_rel_type t) (pg_edge_tables g)"
  shows "base_endpoints g' rel k = Some q \<longleftrightarrow> base_endpoints g rel k = Some q \<or>
    rel = et_rel_type t \<and> (\<exists>row s d. (row, k, s, d) \<in> set es \<and> q = (et_src_label t, s, et_dst_label t, d))"
proof (cases "rel = et_rel_type t \<and> (\<exists>row s d. (row, k, s, d) \<in> set es)")
  case True
  let ?ts = "al_default [] (pg_edge_tables g) rel" and ?loc = "\<lambda>row. \<lparr>rl_table = length (al_default [] (pg_edge_tables g) rel), rl_row = of_nat row\<rparr>"
  from True obtain row s d where rel: "rel = et_rel_type t" and e: "(row, k, s, d) \<in> set es" by blast
  have dist: "distinct (map fst (map (location_entry t (length ?ts)) es))"
    using rows rel by (simp add: table_rows_def location_entry_def comp_def distinct_map inj_on_def)
  have "((rel, k), ?loc row) \<in> set (map (location_entry t (length ?ts)) es)"
    using e rel by (force simp: location_entry_def image_iff)
  then have "map_of (map (location_entry t (length ?ts)) es) (rel, k) = Some (?loc row)"
    using dist by (simp only: map_of_eq_Some_iff)
  then have loc: "map_of (pg_edge_locations g') (rel, k) = Some (?loc row)"
    using locs rel by (simp add: map_add_Some_iff)
  have new: "base_endpoints g' rel k = Some (et_src_label t, s, et_dst_label t, d)"
    using base_endpoints_at [OF loc, of "?ts @ [t]" s d] rows e tabs rel
    by (auto simp: table_rows_def unat_of_nat_u64)
  have old: "base_endpoints g rel k = None"
    using fresh [OF e] rel by (simp add: base_endpoints_def)
  have uniq: "s' = s \<and> d' = d" if "(row', k, s', d') \<in> set es" for row' s' d'
  proof -
    have "inj_on (\<lambda>e. fst (snd e)) (set es)"
      using rows by (simp add: table_rows_def distinct_map)
    from inj_onD [OF this _ that e] show ?thesis by simp
  qed
  have "(\<exists>row s d. (row, k, s, d) \<in> set es \<and> q = (et_src_label t, s, et_dst_label t, d)) \<longleftrightarrow>
      q = (et_src_label t, s, et_dst_label t, d)"
    using e uniq by blast
  then show ?thesis using new old rel by (metis option.distinct(1) option.inject)
next
  case False
  then have "(rel, k) \<notin> fst ` set (map (location_entry t n) es)" for n
    by (force simp: location_entry_def)
  then have same: "map_of (pg_edge_locations g') (rel, k) = map_of (pg_edge_locations g) (rel, k)"
    using locs by (simp add: map_add_dom_app_simps dom_map_of_conv_image_fst)
  have "base_endpoints g' rel k = base_endpoints g rel k"
  proof (cases "map_of (pg_edge_locations g) (rel, k)")
    case None
    then show ?thesis by (simp add: base_endpoints_def same)
  next
    case (Some loc)
    then have "rl_table loc < length (al_default [] (pg_edge_tables g) rel)"
      using wf by (simp add: base_wf_def)
    then show ?thesis
      by (auto simp: base_endpoints_def same Some tabs al_default_def nth_append Let_def split: option.splits)
  qed
  then show ?thesis using False by auto
qed

lemma zip_rows:
  assumes "length keys = n" "length ends = n" "(row, k, s, d) \<in> set (zip [0..<n] (zip keys ends))"
  shows "row < n \<and> ends ! row = (s, d) \<and> keys ! row = k"
  using assms by (auto simp: in_set_conv_nth)

lemma fold_add_edge_row_source_keys:
  "fold (add_edge_row t n) es (g\<lparr>pg_source_keys := b\<rparr>) = (fold (add_edge_row t n) es g)\<lparr>pg_source_keys := b\<rparr>"
proof (induction es arbitrary: g)
  case (Cons e es)
  have "add_edge_row t n e (g\<lparr>pg_source_keys := b\<rparr>) = (add_edge_row t n e g)\<lparr>pg_source_keys := b\<rparr>"
    by (cases e) (simp add: add_edge_row_def)
  with Cons show ?case by simp
qed simp

lemma add_keyed_edges_cases:
  assumes "add_keyed_edges t keys g = (Inr (), g')" "rb_rows (et_batch t) < 2 ^ 64"
  obtains es where "table_rows t es" "map (\<lambda>e. fst (snd e)) es = keys"
    "\<And>row k s d. (row, k, s, d) \<in> set es \<Longrightarrow> map_of (pg_edge_locations g) (et_rel_type t, k) = None"
    "\<And>f. f \<in> {pg_out_adj, pg_in_adj} \<Longrightarrow>
       f g' = f (fold (add_edge_row t (length (al_default [] (pg_edge_tables g) (et_rel_type t)))) es g)"
    "map_of (pg_edge_locations g') = map_of (pg_edge_locations g) ++
       map_of (map (location_entry t (length (al_default [] (pg_edge_tables g) (et_rel_type t)))) es)"
    "pg_edge_tables g' = al_upd [] (\<lambda>ts. ts @ [t]) (et_rel_type t) (pg_edge_tables g)"
proof -
  define rows where "rows = rb_rows (et_batch t)"
  define n where "n = length (al_default [] (pg_edge_tables g) (et_rel_type t))"
  from assms(1) obtain ends where keys: "length keys = rows" "distinct keys"
    and fresh: "\<forall>k \<in> set keys. map_of (pg_edge_locations g) (et_rel_type t, k) = None"
    and ends: "collect_res (map (row_endpoints (et_batch t)) [0..<rows]) = Inr ends"
    and g': "g' = (fold (add_edge_row t n) (zip [0..<rows] (zip keys ends)) g)\<lparr>
        pg_source_keys := pg_source_keys g', pg_edge_order := pg_edge_order g',
        pg_edge_counts := pg_edge_counts g', pg_edges := pg_edges g', pg_edge_keys := pg_edge_keys g',
        pg_edge_tables := al_upd [] (\<lambda>ts. ts @ [t]) (et_rel_type t) (pg_edge_tables g)\<rparr>"
    by (auto simp: add_keyed_edges_def Let_def validate_keys_def list_ex_iff rows_def n_def
        fold_add_edge_row_source_keys fold_add_edge_row_tables split: if_splits sum.splits)
  let ?es = "zip [0..<rows] (zip keys ends)"
  have len: "length ends = rows" and at: "\<And>i. i < rows \<Longrightarrow> row_endpoints (et_batch t) i = Inr (ends ! i)"
    using collect_res_nth [OF ends] by auto
  have ks: "map (\<lambda>e. fst (snd e)) ?es = keys"
    using keys len by (intro nth_equalityI) auto
  have rows_ok: "table_rows t ?es"
    using keys len zip_rows [OF keys(1) len] at assms(2) ks
    by (fastforce simp: table_rows_def rows_def)
  show thesis
  proof (rule that [OF rows_ok ks])
    show "map_of (pg_edge_locations g) (et_rel_type t, k) = None" if "(row, k, s, d) \<in> set ?es" for row k s d
      using fresh zip_rows [OF keys(1) len that] keys(1) by (metis nth_mem)
    show "map_of (pg_edge_locations g') = map_of (pg_edge_locations g) ++
       map_of (map (location_entry t (length (al_default [] (pg_edge_tables g) (et_rel_type t)))) ?es)"
      using fold_add_edge_row_locations [of ?es t n g] keys(2) ks
      by (subst g') (simp add: n_def)
  qed (subst g', auto simp: n_def)+
qed

lemma add_keyed_edges_wf:
  assumes ok: "add_keyed_edges t keys g = (Inr (), g')" and wf: "base_wf g"
    and rows: "rb_rows (et_batch t) < 2 ^ 64"
  shows "base_wf g'"
proof -
  obtain es where es: "table_rows t es"
    "\<And>row k s d. (row, k, s, d) \<in> set es \<Longrightarrow> map_of (pg_edge_locations g) (et_rel_type t, k) = None"
    "\<And>f. f \<in> {pg_out_adj, pg_in_adj} \<Longrightarrow>
       f g' = f (fold (add_edge_row t (length (al_default [] (pg_edge_tables g) (et_rel_type t)))) es g)"
    "map_of (pg_edge_locations g') = map_of (pg_edge_locations g) ++
       map_of (map (location_entry t (length (al_default [] (pg_edge_tables g) (et_rel_type t)))) es)"
    "pg_edge_tables g' = al_upd [] (\<lambda>ts. ts @ [t]) (et_rel_type t) (pg_edge_tables g)"
    using add_keyed_edges_cases [OF ok rows] by metis
  have ends: "base_endpoints g' rel k = Some q \<longleftrightarrow> base_endpoints g rel k = Some q \<or>
      rel = et_rel_type t \<and> (\<exists>row s d. (row, k, s, d) \<in> set es \<and> q = (et_src_label t, s, et_dst_label t, d))"
    for rel k q
    by (rule base_endpoints_add [OF wf es(1) _ es(4,5)]) (rule es(2))
  have out: "r \<in> set (al_default [] (pg_out_adj g') (sl, s, rel)) \<longleftrightarrow>
      base_endpoints g' rel (er_row r) = Some (sl, s, er_label r, er_id r)" for sl s rel r
    using wf by (cases r) (auto simp: es(3) ends fold_add_edge_row_out base_wf_def)
  have inc: "r \<in> set (al_default [] (pg_in_adj g') (dl, d, rel)) \<longleftrightarrow>
      base_endpoints g' rel (er_row r) = Some (er_label r, er_id r, dl, d)" for dl d rel r
    using wf by (cases r) (auto simp: es(3) ends fold_add_edge_row_in base_wf_def)
  have "rl_table loc < length (al_default [] (pg_edge_tables g') rel) \<and> base_endpoints g' rel k \<noteq> None"
    if "map_of (pg_edge_locations g') (rel, k) = Some loc" for rel k loc
  proof -
    from that es(4) consider "map_of (pg_edge_locations g) (rel, k) = Some loc"
      | e where "e \<in> set es" "location_entry t (length (al_default [] (pg_edge_tables g) (et_rel_type t))) e = ((rel, k), loc)"
      by (fastforce simp: map_add_Some_iff dest: map_of_SomeD)
    then show ?thesis
    proof cases
      case 1
      then show ?thesis using wf ends by (fastforce simp: base_wf_def es(5))
    next
      case 2
      then obtain row s d where "(row, k, s, d) \<in> set es" "rel = et_rel_type t"
        and loc: "rl_table loc = length (al_default [] (pg_edge_tables g) rel)"
        by (cases e rule: prod_cases4) (auto simp: location_entry_def)
      then have "base_endpoints g' rel k = Some (et_src_label t, s, et_dst_label t, d)"
        using ends by blast
      then show ?thesis using loc \<open>rel = et_rel_type t\<close> by (simp add: es(5))
    qed
  qed
  with out inc show ?thesis by (simp add: base_wf_def)
qed

section \<open>Native key numbering\<close>

text \<open>
  The row indexes list exactly the declared keys; while no source keys have been
  declared, the keys of a label or relationship type are row numbers.
\<close>

definition rows_numbered :: "element_id list \<Rightarrow> bool" where
  "rows_numbered ks \<longleftrightarrow> (\<forall>k \<in> set ks. \<exists>n < length ks. k = eid_of_i64 (of_nat n))"

definition keys_wf :: "property_graph \<Rightarrow> bool" where
  "keys_wf g \<longleftrightarrow>
     (\<forall>label k. map_of (pg_node_locations g) (label, k) \<noteq> None \<longleftrightarrow> k \<in> set (al_default [] (pg_node_keys g) label)) \<and>
     (\<forall>rel k. map_of (pg_edge_locations g) (rel, k) \<noteq> None \<longleftrightarrow> k \<in> set (al_default [] (pg_edge_keys g) rel)) \<and>
     (\<forall>label. length (al_default [] (pg_node_keys g) label) =
        (case map_of (pg_nodes g) label of None \<Rightarrow> 0 | Some t \<Rightarrow> rb_rows (tb_batch t))) \<and>
     (\<forall>rel. edge_count g rel = of_nat (length (al_default [] (pg_edge_keys g) rel))) \<and>
     (\<forall>label. \<not> pg_source_keys g \<longrightarrow> rows_numbered (al_default [] (pg_node_keys g) label)) \<and>
     (\<forall>rel. \<not> pg_source_keys g \<longrightarrow> rows_numbered (al_default [] (pg_edge_keys g) rel))"

lemma keys_wfD:
  assumes "keys_wf g"
  shows "map_of (pg_node_locations g) (label, k) \<noteq> None \<longleftrightarrow> k \<in> set (al_default [] (pg_node_keys g) label)"
    "map_of (pg_edge_locations g) (rel, k) \<noteq> None \<longleftrightarrow> k \<in> set (al_default [] (pg_edge_keys g) rel)"
    "length (al_default [] (pg_node_keys g) label) =
        (case map_of (pg_nodes g) label of None \<Rightarrow> 0 | Some t \<Rightarrow> rb_rows (tb_batch t))"
    "edge_count g rel = of_nat (length (al_default [] (pg_edge_keys g) rel))"
    "\<not> pg_source_keys g \<Longrightarrow> rows_numbered (al_default [] (pg_node_keys g) label)"
    "\<not> pg_source_keys g \<Longrightarrow> rows_numbered (al_default [] (pg_edge_keys g) rel)"
  using assms unfolding keys_wf_def by blast+

lemma eid_as_i64_Some: "eid_as_i64 k = Some n \<longleftrightarrow> k = eid_of_i64 n"
  by (cases k) (auto simp: eid_as_i64_def eid_of_i64_def split: scalar_value.splits)

lemma keys_wf_new: "keys_wf new_graph"
  by (simp add: keys_wf_def new_graph_def al_default_def edge_count_def rows_numbered_def)

lemma node_locations_fold:
  "map_of (fold (\<lambda>(row, k). AList.update (label, k) row) es m) (l, k) \<noteq> None \<longleftrightarrow>
     map_of m (l, k) \<noteq> None \<or> l = label \<and> k \<in> snd ` set es"
  by (induction es arbitrary: m) (auto simp: update_conv' split: if_splits)

lemma map_of_filter_label:
  "map_of (filter (\<lambda>e. fst (fst e) \<noteq> label) m) (l, k) = (if l = label then None else map_of m (l, k))"
  by (induction m) auto

lemma al_default_update: "al_default d (AList.update k v m) j = (if j = k then v else al_default d m j)"
  by (simp add: al_default_def update_conv')

lemma snd_enumerate: "snd ` set (enumerate n xs) = set xs"
  by (metis list.set_map map_snd_enumerate)

lemma not_source_keys_rows:
  assumes "\<not> list_ex (\<lambda>(row, k). eid_as_i64 k \<noteq> Some (base + of_nat row)) (enumerate 0 keys)" "k \<in> set keys"
  shows "\<exists>n < length keys. k = eid_of_i64 (base + of_nat n)"
proof -
  from assms(2) obtain n where "n < length keys" "keys ! n = k" by (auto simp: in_set_conv_nth)
  then have "(n, k) \<in> set (enumerate 0 keys)" by (auto simp: in_set_enumerate_eq)
  then show ?thesis using assms(1) \<open>n < length keys\<close> by (auto simp: list_ex_iff eid_as_i64_Some)
qed

lemma add_keyed_nodes_fields:
  assumes "add_keyed_nodes t keys g = (Inr (), g')"
  shows "length keys = rb_rows (tb_batch t)"
    "pg_node_keys g' = AList.update (tb_label t) keys (pg_node_keys g)"
    "pg_nodes g' = AList.update (tb_label t) t (pg_nodes g)"
    "pg_node_locations g' = fold (\<lambda>(row, k). AList.update (tb_label t, k) row) (enumerate 0 keys)
       (filter (\<lambda>e. fst (fst e) \<noteq> tb_label t) (pg_node_locations g))"
    "pg_source_keys g' = (pg_source_keys g \<or> list_ex (\<lambda>(row, k). eid_as_i64 k \<noteq> Some (of_nat row)) (enumerate 0 keys))"
    "pg_edge_locations g' = pg_edge_locations g" "pg_edge_keys g' = pg_edge_keys g"
    "pg_edge_tables g' = pg_edge_tables g" "pg_edge_counts g' = pg_edge_counts g"
    "pg_out_adj g' = pg_out_adj g" "pg_in_adj g' = pg_in_adj g" "pg_overlay g' = pg_overlay g"
    "pg_source g' = pg_source g" "pg_mapping g' = pg_mapping g" "pg_edges g' = pg_edges g"
  using assms by (auto simp: add_keyed_nodes_def Let_def validate_keys_def split: if_splits)

lemma add_keyed_nodes_keys:
  assumes "add_keyed_nodes t keys g = (Inr (), g')" "keys_wf g"
  shows "keys_wf g'"
proof -
  note f = add_keyed_nodes_fields [OF assms(1)] and wf = keys_wfD [OF assms(2)]
  show ?thesis
    unfolding keys_wf_def
  proof (intro conjI allI impI)
    show "(map_of (pg_node_locations g') (l, k) \<noteq> None) = (k \<in> set (al_default [] (pg_node_keys g') l))" for l k
      using wf(1) [of l k]
      by (simp only: f node_locations_fold map_of_filter_label al_default_update snd_enumerate) simp
    show "(map_of (pg_edge_locations g') (r, k) \<noteq> None) = (k \<in> set (al_default [] (pg_edge_keys g') r))" for r k
      using wf(2) by (simp only: f)
    show "length (al_default [] (pg_node_keys g') l) =
        (case map_of (pg_nodes g') l of None \<Rightarrow> 0 | Some t \<Rightarrow> rb_rows (tb_batch t))" for l
      using wf(3) [of l] by (simp add: f al_default_update update_conv')
    show "edge_count g' r = of_nat (length (al_default [] (pg_edge_keys g') r))" for r
      using wf(4) [of r] by (simp add: f edge_count_def)
  next
    fix l assume "\<not> pg_source_keys g'"
    then have "rows_numbered keys" "rows_numbered (al_default [] (pg_node_keys g) l)"
      using wf(5) not_source_keys_rows [of 0 keys] by (simp_all add: f(5) rows_numbered_def)
    then show "rows_numbered (al_default [] (pg_node_keys g') l)"
      by (simp add: f al_default_update)
  next
    fix r assume "\<not> pg_source_keys g'"
    then show "rows_numbered (al_default [] (pg_edge_keys g') r)"
      using wf(6) by (simp add: f)
  qed
qed

lemma add_edge_row_other:
  "pg_edge_keys (fold (add_edge_row t n) es h) = pg_edge_keys h"
  "pg_edge_counts (fold (add_edge_row t n) es h) = pg_edge_counts h"
  "pg_source_keys (fold (add_edge_row t n) es h) = pg_source_keys h"
  "pg_node_locations (fold (add_edge_row t n) es h) = pg_node_locations h"
  "pg_node_keys (fold (add_edge_row t n) es h) = pg_node_keys h"
  "pg_nodes (fold (add_edge_row t n) es h) = pg_nodes h"
  "pg_overlay (fold (add_edge_row t n) es h) = pg_overlay h"
  "pg_source (fold (add_edge_row t n) es h) = pg_source h"
  "pg_mapping (fold (add_edge_row t n) es h) = pg_mapping h"
  by (induction es arbitrary: h) (simp_all add: add_edge_row_def split: prod.split)

lemma add_keyed_edges_fields:
  assumes "add_keyed_edges t keys g = (Inr (), g')"
  shows "length keys = rb_rows (et_batch t)"
    "pg_edge_keys g' = al_upd [] (\<lambda>ks. ks @ keys) (et_rel_type t) (pg_edge_keys g)"
    "pg_edge_counts g' = al_upd 0 (\<lambda>n. n + of_nat (rb_rows (et_batch t))) (et_rel_type t) (pg_edge_counts g)"
    "pg_source_keys g' = (pg_source_keys g \<or>
       list_ex (\<lambda>(row, k). eid_as_i64 k \<noteq> Some (edge_count g (et_rel_type t) + of_nat row)) (enumerate 0 keys))"
    "pg_node_locations g' = pg_node_locations g" "pg_node_keys g' = pg_node_keys g"
    "pg_nodes g' = pg_nodes g" "pg_overlay g' = pg_overlay g"
    "pg_source g' = pg_source g" "pg_mapping g' = pg_mapping g"
  using assms by (auto simp: add_keyed_edges_def Let_def validate_keys_def add_edge_row_other
      split: if_splits sum.splits)

lemma rows_numbered_append:
  assumes "rows_numbered ks" "\<And>k. k \<in> set js \<Longrightarrow> \<exists>n < length js. k = eid_of_i64 (of_nat (length ks) + of_nat n)"
  shows "rows_numbered (ks @ js)"
  unfolding rows_numbered_def
proof
  fix k assume "k \<in> set (ks @ js)"
  then consider "k \<in> set ks" | "k \<in> set js" by auto
  then show "\<exists>n < length (ks @ js). k = eid_of_i64 (of_nat n)"
  proof cases
    case 1
    then obtain n where "n < length ks" "k = eid_of_i64 (of_nat n)"
      using assms(1) by (auto simp: rows_numbered_def)
    then show ?thesis by (intro exI [of _ n]) simp
  next
    case 2
    then obtain n where "n < length js" "k = eid_of_i64 (of_nat (length ks) + of_nat n)"
      using assms(2) by blast
    then show ?thesis by (intro exI [of _ "length ks + n"]) simp
  qed
qed

lemma add_keyed_edges_keys:
  assumes ok: "add_keyed_edges t keys g = (Inr (), g')" and "keys_wf g" and small: "rb_rows (et_batch t) < 2 ^ 64"
  shows "keys_wf g'"
proof -
  note f = add_keyed_edges_fields [OF ok] and wf = keys_wfD [OF assms(2)]
  obtain es where es: "map (\<lambda>e. fst (snd e)) es = keys"
    "map_of (pg_edge_locations g') = map_of (pg_edge_locations g) ++
       map_of (map (location_entry t (length (al_default [] (pg_edge_tables g) (et_rel_type t)))) es)"
    using add_keyed_edges_cases [OF ok small] by metis
  have dom: "dom (map_of (map (location_entry t n) es)) = Pair (et_rel_type t) ` set keys" for n
    unfolding es(1) [symmetric] by (force simp: dom_map_of_conv_image_fst location_entry_def)
  show ?thesis
    unfolding keys_wf_def
  proof (intro conjI allI impI)
    show "(map_of (pg_edge_locations g') (r, k) \<noteq> None) = (k \<in> set (al_default [] (pg_edge_keys g') r))" for r k
    proof -
      let ?m = "map_of (map (location_entry t (length (al_default [] (pg_edge_tables g) (et_rel_type t)))) es)"
      have "map_of (pg_edge_locations g') (r, k) \<noteq> None \<longleftrightarrow>
          map_of (pg_edge_locations g) (r, k) \<noteq> None \<or> (r, k) \<in> dom ?m"
        by (auto simp: es(2) map_add_def split: option.splits)
      then show ?thesis
        using wf(2) [of r k] by (simp only: dom) (auto simp: f)
    qed
    show "edge_count g' r = of_nat (length (al_default [] (pg_edge_keys g') r))" for r
      using wf(4) [of r] wf(4) [of "et_rel_type t"] f(1) by (simp add: f edge_count_def)
  next
    fix r assume no: "\<not> pg_source_keys g'"
    have "rows_numbered (al_default [] (pg_edge_keys g) (et_rel_type t) @ keys)"
      using no wf(4,6) not_source_keys_rows [of "edge_count g (et_rel_type t)" keys]
      by (intro rows_numbered_append) (simp_all add: f(4))
    then show "rows_numbered (al_default [] (pg_edge_keys g') r)"
      using no wf(6) by (simp add: f)
  qed (use wf f in simp_all)
qed

section \<open>Graphs built from tables\<close>

inductive built :: "property_graph \<Rightarrow> bool" where
  built_new: "built new_graph"
| built_nodes: "built g \<Longrightarrow> add_keyed_nodes t keys g = (r, g') \<Longrightarrow> built g'"
| built_edges: "built g \<Longrightarrow> rb_rows (et_batch t) < 2 ^ 64 \<Longrightarrow> add_keyed_edges t keys g = (r, g') \<Longrightarrow> built g'"

lemma base_wf_cong:
  "pg_edge_locations g' = pg_edge_locations g \<Longrightarrow> pg_edge_tables g' = pg_edge_tables g \<Longrightarrow>
   pg_out_adj g' = pg_out_adj g \<Longrightarrow> pg_in_adj g' = pg_in_adj g \<Longrightarrow> base_wf g \<Longrightarrow> base_wf g'"
  using base_endpoints_cong [of g' g] by (simp add: base_wf_def)

lemma add_keyed_nodes_error: "add_keyed_nodes t keys g = (Inl e, g') \<Longrightarrow> g' = g"
  by (auto simp: add_keyed_nodes_def Let_def split: if_splits)

lemma add_keyed_edges_error:
  "add_keyed_edges t keys g = (Inl e, g') \<Longrightarrow> \<exists>b. g' = g\<lparr>pg_source_keys := pg_source_keys g \<or> b\<rparr>"
  by (auto simp: add_keyed_edges_def Let_def intro: exI [of _ False] split: if_splits sum.splits)

lemma keys_wf_source_keys: "keys_wf g \<Longrightarrow> keys_wf (g\<lparr>pg_source_keys := pg_source_keys g \<or> b\<rparr>)"
  by (auto simp: keys_wf_def edge_count_def)

lemma built_wf: "built g \<Longrightarrow> base_wf g \<and> keys_wf g"
proof (induction rule: built.induct)
  case built_new
  show ?case by (simp add: base_wf_new keys_wf_new)
next
  case (built_nodes g t keys r g')
  then show ?case
    using add_keyed_nodes_error add_keyed_nodes_keys add_keyed_nodes_fields(6,8,10,11)
    by (cases r) (metis base_wf_cong unit.exhaust)+
next
  case (built_edges g t keys r g')
  show ?case
  proof (cases r)
    case (Inl e)
    then obtain b where "g' = g\<lparr>pg_source_keys := pg_source_keys g \<or> b\<rparr>"
      using built_edges add_keyed_edges_error by blast
    then show ?thesis
      using built_edges.IH keys_wf_source_keys [of g b] base_wf_cong [of g' g] by simp
  next
    case (Inr u)
    then have "add_keyed_edges t keys g = (Inr (), g')" using built_edges by simp
    then show ?thesis
      using built_edges add_keyed_edges_wf add_keyed_edges_keys by blast
  qed
qed

section \<open>Theorems about the base\<close>


definition one_edge_table :: edge_table where
  "one_edge_table = \<lparr>et_rel_type = ''R'', et_src_label = ''A'', et_dst_label = ''B'',
     et_batch = \<lparr>rb_rows = 1, rb_columns = [(''__src_id'', None, [SV_Int64 4]), (''__dst_id'', None, [SV_Int64 5])]\<rparr>\<rparr>"

lemma element_new_i64: "element_new (SV_Int64 n) = Inr (eid_of_i64 n)"
  using eid_ok_of_i64 [of n] by (simp add: eid_ok_def eid_of_i64_def)


text \<open>
  An edge table rejected for a duplicate identity leaves the graph unchanged except
  for the source-key flag, which the check before it may already have set: afterwards
  native inserts into the graph fail although no keyed table was accepted.
\<close>

theorem rejected_edges_set_source_keys:
  assumes "edge_schema_ok (et_batch t)" and "validate_keys keys (rb_rows (et_batch t))"
    and "k \<in> set keys" and "map_of (pg_edge_locations g) (et_rel_type t, k) \<noteq> None"
  shows "add_keyed_edges t keys g =
    (Inl (Schema ''duplicate edge identity''),
     g\<lparr>pg_source_keys := pg_source_keys g \<or>
        list_ex (\<lambda>(row, k). eid_as_i64 k \<noteq> Some (edge_count g (et_rel_type t) + of_nat row)) (enumerate 0 keys)\<rparr>)"
  using assms by (auto simp: add_keyed_edges_def Let_def list_ex_iff)

lemma add_keyed_edges_ok:
  assumes "edge_schema_ok (et_batch t)" "validate_keys keys (rb_rows (et_batch t))"
    "\<forall>k \<in> set keys. map_of (pg_edge_locations g) (et_rel_type t, k) = None"
    "\<forall>i < rb_rows (et_batch t). \<exists>p. row_endpoints (et_batch t) i = Inr p"
  shows "fst (add_keyed_edges t keys g) = Inr ()"
proof -
  from assms(4) obtain f where "\<forall>i < rb_rows (et_batch t). row_endpoints (et_batch t) i = Inr (f i)" by metis
  then have "collect_res (map (row_endpoints (et_batch t)) [0..<rb_rows (et_batch t)]) = Inr (map f [0..<rb_rows (et_batch t)])"
    by (intro collect_res_all) simp
  then show ?thesis
    using assms(1-3) by (simp add: add_keyed_edges_def Let_def list_ex_iff)
qed

theorem rejected_edges_set_source_keys_witness:
  "let g = snd (add_edges one_edge_table new_graph) in
   \<not> pg_source_keys g \<and>
   fst (add_keyed_edges one_edge_table [eid_of_i64 0] g) = Inl (Schema ''duplicate edge identity'') \<and>
   pg_source_keys (snd (add_keyed_edges one_edge_table [eid_of_i64 0] g))"
proof -
  let ?g = "snd (add_edges one_edge_table new_graph)"
  have rows: "row_endpoints (et_batch one_edge_table) 0 = Inr (eid_of_i64 4, eid_of_i64 5)"
    by (simp add: row_endpoints_def array_key_def one_edge_table_def element_new_i64)
  have "fst (add_edges one_edge_table new_graph) = Inr ()"
    using add_keyed_edges_ok [of one_edge_table "row_keys 0 1" new_graph] rows
    by (simp add: add_edges_def edge_schema_ok_def row_keys_def validate_keys_def edge_count_def
        new_graph_def al_default_def one_edge_table_def)
  then have ok: "add_keyed_edges one_edge_table [eid_of_i64 0] new_graph = (Inr (), ?g)"
    by (simp add: add_edges_def one_edge_table_def edge_schema_ok_def row_keys_def edge_count_def
        new_graph_def al_default_def prod_eq_iff)
  have "keys_wf ?g"
    using add_keyed_edges_keys [OF ok keys_wf_new] by (simp add: one_edge_table_def)
  then have g: "\<not> pg_source_keys ?g" "map_of (pg_edge_locations ?g) (''R'', eid_of_i64 0) \<noteq> None" "edge_count ?g ''R'' = 1"
    using add_keyed_edges_fields(2,4) [OF ok] keys_wfD(2,4) [of ?g "''R''"]
    by (simp_all add: new_graph_def one_edge_table_def al_default_def edge_count_def eid_as_i64_Some)
  have "add_keyed_edges one_edge_table [eid_of_i64 0] ?g = (Inl (Schema ''duplicate edge identity''),
     ?g\<lparr>pg_source_keys := pg_source_keys ?g \<or> list_ex (\<lambda>(row, k). eid_as_i64 k \<noteq>
        Some (edge_count ?g (et_rel_type one_edge_table) + of_nat row)) (enumerate 0 [eid_of_i64 0])\<rparr>)"
    by (rule rejected_edges_set_source_keys [of _ _ "eid_of_i64 0"])
      (use g in \<open>simp_all add: one_edge_table_def edge_schema_ok_def validate_keys_def\<close>)
  then show ?thesis
    using g by (simp add: Let_def one_edge_table_def eid_as_i64_Some eid_of_i64_def)
qed

end
