(* ===== verification/Graph_Writes.thy ===== *)
theory Graph_Writes
  imports Graph_Reads
begin

text \<open>
  Writes to the session overlay (\<open>src/src/ir/catalog/mutations.rs\<close>, the mapped-key part
  of \<open>src/src/ir/catalog/keyed.rs\<close>, hydration of native state in
  \<open>src/src/ir/catalog/source.rs\<close>, and the vertex-property operations of
  \<open>src/src/ir/catalog/properties.rs\<close> that the writes call).  Every operation returns its
  result and the graph it leaves behind.
\<close>

type_synonym 'a act = "(catalog_error + 'a) \<times> property_graph"

definition upd_overlay :: "(graph_overlay \<Rightarrow> graph_overlay) \<Rightarrow> property_graph \<Rightarrow> property_graph" where
  "upd_overlay f g = g\<lparr>pg_overlay := f (pg_overlay g)\<rparr>"

definition mark_node :: "addr \<Rightarrow> property_graph \<Rightarrow> property_graph" where
  "mark_node k g = g\<lparr>pg_pending := (pg_pending g)\<lparr>pc_nodes := insert k (pc_nodes (pg_pending g))\<rparr>\<rparr>"

definition mark_edge :: "addr \<Rightarrow> property_graph \<Rightarrow> property_graph" where
  "mark_edge k g = g\<lparr>pg_pending := (pg_pending g)\<lparr>pc_edges := insert k (pc_edges (pg_pending g))\<rparr>\<rparr>"

section \<open>Native state of an element\<close>

definition parse_property_record :: "val \<Rightarrow> string + vertex_property_record" where
  "parse_property_record item =
     (case item of
        V_List [V_Long i, v, V_Map meta, pid] \<Rightarrow>
          Inr \<lparr>vp_id = i, vp_value = v, vp_public = (if pid = V_Null then None else Some pid), vp_meta = meta\<rparr>
      | V_List _ \<Rightarrow> Inl ''Invalid property fields''
      | _ \<Rightarrow> Inl ''Invalid property record'')"

definition parse_property_records :: "string \<times> val \<Rightarrow> string + string \<times> vertex_property_record list" where
  "parse_property_records e =
     (case snd e of
        V_List items \<Rightarrow> bind_res (collect_res (map parse_property_record items)) (\<lambda>rs. Inr (fst e, rs))
      | _ \<Rightarrow> Inl ''Invalid property records'')"

definition restore_native_node_state ::
  "addr \<Rightarrow> val \<Rightarrow> graph_overlay \<Rightarrow> (string + unit) \<times> graph_overlay" where
  "restore_native_node_state k state ov =
     (case state of
        V_List [V_Long next_id, pid, V_Map ps] \<Rightarrow>
          let a = (False, fst k, snd k);
              ov = ov\<lparr>ov_next_property_id := (if ov_next_property_id ov <s next_id then next_id else ov_next_property_id ov),
                ov_public_ids := (if pid = V_Null then AList.delete a (ov_public_ids ov)
                  else AList.update a pid (AList.delete a (ov_public_ids ov)))\<rparr> in
          (case collect_res (map parse_property_records ps) of
             Inl e \<Rightarrow> (Inl e, ov)
           | Inr rs \<Rightarrow>
               (Inr (), ov\<lparr>ov_vertex_props := (if rs = [] then AList.delete k (ov_vertex_props ov)
                  else AList.update k (bt_of_entries rs) (ov_vertex_props ov))\<rparr>))
      | V_List _ \<Rightarrow> (Inl ''Invalid native node fields'', ov)
      | _ \<Rightarrow> (Inl ''Invalid native node state'', ov))"

definition property_record_value :: "vertex_property_record \<Rightarrow> val" where
  "property_record_value r = V_List [V_Long (vp_id r), vp_value r, V_Map (vp_meta r),
     (case vp_public r of None \<Rightarrow> V_Null | Some p \<Rightarrow> p)]"

definition native_node_state :: "addr \<Rightarrow> graph_overlay \<Rightarrow> val" where
  "native_node_state k ov =
     V_List [V_Long (ov_next_property_id ov),
       (case map_of (ov_public_ids ov) (False, fst k, snd k) of None \<Rightarrow> V_Null | Some p \<Rightarrow> p),
       V_Map (map (\<lambda>(name, rs). (name, V_List (map property_record_value rs)))
         (al_default [] (ov_vertex_props ov) k))]"

definition al_or_insert :: "'k \<Rightarrow> 'v \<Rightarrow> ('k \<times> 'v) list \<Rightarrow> ('k \<times> 'v) list" where
  "al_or_insert k v m = (case map_of m k of None \<Rightarrow> AList.update k v m | Some _ \<Rightarrow> m)"

definition apply_native_state ::
  "bool \<Rightarrow> string \<Rightarrow> element_id \<Rightarrow> native_state \<Rightarrow> graph_overlay \<Rightarrow> graph_overlay" where
  "apply_native_state edge name i st ov = ov\<lparr>
     ov_public_ids := (case ns_public_id st of None \<Rightarrow> ov_public_ids ov
       | Some p \<Rightarrow> al_or_insert (edge, name, i) p (ov_public_ids ov)),
     ov_label_sets := (case ns_labels st of None \<Rightarrow> ov_label_sets ov
       | Some ls \<Rightarrow> al_or_insert (name, i) (set ls) (ov_label_sets ov)),
     ov_cypher_ids := (case ns_cypher_id st of None \<Rightarrow> ov_cypher_ids ov
       | Some n \<Rightarrow> al_or_insert (edge, name, i) n (ov_cypher_ids ov)),
     ov_edge_nulls := (if ns_null_keys st = {} then ov_edge_nulls ov
       else al_or_insert (name, i) (ns_null_keys st) (ov_edge_nulls ov)),
     ov_allow_null := ov_allow_null ov \<or> ns_allow_null st\<rparr>"

definition hydrate_native_state :: "bool \<Rightarrow> string \<Rightarrow> element_id \<Rightarrow> property_graph \<Rightarrow> property_graph" where
  "hydrate_native_state edge name i g =
     (if (edge, name, i) \<in> pg_hydrated g then g
      else case Option.bind (pg_source g) (\<lambda>s. gs_native_state s edge name i) of
        None \<Rightarrow> g
      | Some st \<Rightarrow>
          let (res, ov) = (case ns_node st of
                None \<Rightarrow> (Inr (), pg_overlay g)
              | Some native \<Rightarrow> restore_native_node_state (name, i) native (pg_overlay g)) in
          (case res of
             Inl e \<Rightarrow> g\<lparr>pg_overlay := ov\<rparr>
           | Inr _ \<Rightarrow> g\<lparr>pg_overlay := apply_native_state edge name i st ov,
                       pg_hydrated := insert (edge, name, i) (pg_hydrated g)\<rparr>))"

definition hydrate_target :: "val \<Rightarrow> property_graph \<Rightarrow> property_graph" where
  "hydrate_target v g =
     (case v of
        V_Node label i \<Rightarrow> hydrate_native_state False label i g
      | V_Edge rel i _ _ _ _ _ \<Rightarrow> hydrate_native_state True rel i g
      | _ \<Rightarrow> g)"

section \<open>Labels and Cypher identities\<close>

definition node_labels :: "string \<Rightarrow> element_id \<Rightarrow> property_graph \<Rightarrow> string list \<times> property_graph" where
  "node_labels storage i g =
     (let g = hydrate_native_state False storage i g in
      ((case map_of (ov_label_sets (pg_overlay g)) (storage, i) of
          Some ls \<Rightarrow> sorted_list_of_set ls | None \<Rightarrow> [storage]), g))"

definition set_node_labels :: "val \<Rightarrow> string list \<Rightarrow> property_graph \<Rightarrow> unit act" where
  "set_node_labels v ls g =
     (case v of
        V_Node label i \<Rightarrow>
          if \<not> node_is_live g label i then (Inl (Schema ''Cannot label a deleted node''), g)
          else (Inr (), mark_node (label, i)
            (upd_overlay (\<lambda>ov. ov\<lparr>ov_label_sets := AList.update (label, i) (set ls) (ov_label_sets ov)\<rparr>) g))
      | _ \<Rightarrow> (Inl (Schema ''Labels require a node''), g))"

datatype label_expr = LE_Any | LE_AnyOf "string list" | LE_AllOf "string list" | LE_Not label_expr

fun node_matches_labels :: "string \<Rightarrow> element_id \<Rightarrow> label_expr \<Rightarrow> property_graph \<Rightarrow> bool \<times> property_graph" where
  "node_matches_labels storage i LE_Any g = (True, g)"
| "node_matches_labels storage i (LE_AnyOf names) g = (storage \<in> set names, g)"
| "node_matches_labels storage i (LE_AllOf names) g =
     (let (ls, g) = node_labels storage i g in (list_all (\<lambda>n. n \<in> set ls) names, g))"
| "node_matches_labels storage i (LE_Not e) g =
     (let (b, g) = node_matches_labels storage i e g in (\<not> b, g))"

section \<open>Mapped keys\<close>

definition mapped_insert_properties :: "property_graph \<Rightarrow> bool \<Rightarrow> string \<Rightarrow> props \<Rightarrow> catalog_error + props" where
  "mapped_insert_properties g edge name ps =
     (case find (\<lambda>k. map_of ps k = None) (al_default [] (pg_unsupported_defaults g) (edge, name)) of
        Some k \<Rightarrow> Inl (Schema (''property `'' @ name @ ''.'' @ k @
          ''` requires an explicit value; its source default is not a scalar constant''))
      | None \<Rightarrow> Inr (fold (\<lambda>d m. bt_or_insert (fst d) (snd d) m) (al_default [] (pg_mapped_defaults g) (edge, name)) ps))"

definition schema_res :: "string + 'a \<Rightarrow> catalog_error + 'a" where
  "schema_res r = (case r of Inl e \<Rightarrow> Inl (Schema e) | Inr a \<Rightarrow> Inr a)"

definition key_component :: "graph_lib \<Rightarrow> (string \<times> string) list \<Rightarrow> props \<Rightarrow> string \<Rightarrow> catalog_error + scalar_value" where
  "key_component G mapped ps column =
     (case find (\<lambda>e. snd e = column \<and> map_of ps (fst e) \<noteq> None) mapped of
        None \<Rightarrow> Inl (Schema (''creation requires a property mapped to primary key component `'' @ column @ ''`''))
      | Some e \<Rightarrow> bind_res (schema_res (element_of_value G (the (map_of ps (fst e))))) (\<lambda>k.
          if length (eid_components k) \<noteq> 1 then Inl (Schema ''primary key components must be scalars'')
          else Inr (eid_scalar k)))"

definition mapped_columns ::
  "graph_mapping \<Rightarrow> bool \<Rightarrow> string \<Rightarrow> (string \<times> string) option \<Rightarrow>
     catalog_error + key_columns \<times> (string \<times> string) list" where
  "mapped_columns mp edge name ends =
     (if edge then
        bind_res (case ends of
            Some (src, dst) \<Rightarrow> schema_res (edge_for_endpoints mp name src dst)
          | None \<Rightarrow> ok_or (mapping_edge mp name) (Schema (''unmapped relationship type `'' @ name @ ''`'')))
          (\<lambda>e. Inr (case em_id_column e of Some c \<Rightarrow> c | None \<Rightarrow> em_src_column e, em_properties e))
      else bind_res (ok_or (mapping_node mp name) (Schema (''unmapped label `'' @ name @ ''`'')))
          (\<lambda>n. Inr (nm_id_column n, nm_properties n)))"

definition generated_key_for ::
  "property_graph \<Rightarrow> bool \<Rightarrow> string \<Rightarrow> (string \<times> string) option \<Rightarrow> (string + element_id) option" where
  "generated_key_for g edge name ends =
     Option.bind (pg_source g) (\<lambda>s. case ends of
        Some (src, dst) \<Rightarrow> gs_generated_edge_key s name src dst
      | None \<Rightarrow> gs_generated_key s edge name)"

definition choose_key ::
  "graph_lib \<Rightarrow> property_graph \<Rightarrow> bool \<Rightarrow> string \<Rightarrow> key_columns \<Rightarrow> (string \<times> string) list \<Rightarrow> props \<Rightarrow>
     val option \<Rightarrow> (string \<times> string) option \<Rightarrow> catalog_error + element_id" where
  "choose_key G g edge name column mapped ps supplied ends =
     (let generated = (if length column = 1 \<and>
            \<not> list_ex (\<lambda>e. snd e \<in> set column \<and> map_of ps (fst e) \<noteq> None) mapped
          then generated_key_for g edge name ends else None) in
      case supplied of
        Some v \<Rightarrow> schema_res (element_of_value G v)
      | None \<Rightarrow>
          (case generated of
             Some r \<Rightarrow> schema_res r
           | None \<Rightarrow> bind_res (collect_res (map (key_component G mapped ps) column))
               (\<lambda>cs. schema_res (element_from_components cs))))"

definition declared_kind :: "property_graph \<Rightarrow> bool \<Rightarrow> string \<Rightarrow> data_type option" where
  "declared_kind g edge name =
     (case map_of (pg_key_types g) (edge, name) of
        Some t \<Rightarrow> Some t
      | None \<Rightarrow>
          (case al_default [] (if edge then pg_edge_keys g else pg_node_keys g) name of
             [] \<Rightarrow> None | k # _ \<Rightarrow> Some (sv_data_type (eid_scalar k))))"

definition mapped_insert_key ::
  "graph_lib \<Rightarrow> property_graph \<Rightarrow> bool \<Rightarrow> string \<Rightarrow> props \<Rightarrow> val option \<Rightarrow> (string \<times> string) option \<Rightarrow>
     catalog_error + element_id option \<times> props" where
  "mapped_insert_key G g edge name ps supplied ends =
     (case write_mapping g of
        None \<Rightarrow> if pg_source_keys g
                then Inl (Schema ''inserting into a keyed catalog requires a writable mapping'')
                else Inr (None, ps)
      | Some mp \<Rightarrow>
          bind_res (mapped_columns mp edge name ends) (\<lambda>(column, mapped).
          bind_res (choose_key G g edge name column mapped ps supplied ends) (\<lambda>key.
          bind_res (case declared_kind g edge name of
              Some kind \<Rightarrow> schema_res (element_cast G key kind) | None \<Rightarrow> Inr key) (\<lambda>key.
          if length (eid_components key) \<noteq> length column
          then Inl (Schema ''supplied key arity does not match its mapping'')
          else if (if edge then live_edge_endpoints g name key \<noteq> None else node_is_live g name key)
          then Inl (Schema (''duplicate primary key `'' @ id_text G key @ ''` for `'' @ name @ ''`''))
          else bind_res (schema_res (kc_values column key)) (\<lambda>components.
            Inr (Some key, fold (\<lambda>e ps. case map_of components (snd e) of
                Some s \<Rightarrow> bt_or_insert (fst e) (V_Scalar s) ps | None \<Rightarrow> ps) mapped ps))))))"

section \<open>Inserting\<close>

definition node_ref :: "val \<Rightarrow> string \<Rightarrow> string \<Rightarrow> catalog_error + addr" where
  "node_ref v rel role =
     (case v of
        V_Node label i \<Rightarrow> Inr (label, i)
      | _ \<Rightarrow> Inl (Schema (''relationship `'' @ rel @ ''` '' @ role @ '' must be a node, got '' @ type_name v)))"

definition cardinality_error :: catalog_error where
  "cardinality_error = Schema ''Cardinality values cannot be stored as graph properties''"

definition sum_counts :: "(string \<times> i64) list \<Rightarrow> i64" where
  "sum_counts m = sum_list (map snd m)"

definition node_base_rows :: "property_graph \<Rightarrow> string \<Rightarrow> i64" where
  "node_base_rows g label = (case map_of (pg_nodes g) label of None \<Rightarrow> 0 | Some t \<Rightarrow> of_nat (rb_rows (tb_batch t)))"

definition total_node_rows :: "property_graph \<Rightarrow> i64" where
  "total_node_rows g = sum_list (map (\<lambda>e. of_nat (rb_rows (tb_batch (snd e)))) (pg_nodes g))"

definition bs_insert :: "'a \<Rightarrow> 'a list \<Rightarrow> 'a list" where
  "bs_insert x xs = (if x \<in> set xs then xs else xs @ [x])"

definition new_node_id :: "property_graph \<Rightarrow> string \<Rightarrow> element_id option \<Rightarrow> element_id" where
  "new_node_id g label mapped =
     (case mapped of Some k \<Rightarrow> k
      | None \<Rightarrow> eid_of_i64 (node_base_rows g label + al_default 0 (ov_node_counts (pg_overlay g)) label))"

definition store_node :: "addr \<Rightarrow> i64 \<Rightarrow> props \<Rightarrow> graph_overlay \<Rightarrow> graph_overlay" where
  "store_node k cypher ps ov = ov\<lparr>
     ov_node_counts := al_upd 0 (\<lambda>n. n + 1) (fst k) (ov_node_counts ov),
     ov_cypher_ids := AList.update (False, k) cypher (ov_cypher_ids ov),
     ov_unassigned := bs_insert (False, k) (ov_unassigned ov),
     ov_inserted_node_keys := note_keys (fst k) ps (ov_inserted_node_keys ov),
     ov_inserted_nodes := AList.update k ps (ov_inserted_nodes ov)\<rparr>"

definition try_insert_node_with_key ::
  "graph_lib \<Rightarrow> string \<Rightarrow> props \<Rightarrow> val option \<Rightarrow> property_graph \<Rightarrow> val act" where
  "try_insert_node_with_key G label ps supplied g =
     (case bind_res (mapped_insert_properties g False label ps)
         (\<lambda>ps. mapped_insert_key G g False label ps supplied None) of
        Inl e \<Rightarrow> (Inl e, g)
      | Inr (mapped, ps) \<Rightarrow>
          let cypher = total_node_rows g + sum_counts (ov_node_counts (pg_overlay g));
              i = new_node_id g label mapped in
          (Inr (V_Node label i), mark_node (label, i) (upd_overlay (store_node (label, i) cypher ps) g)))"

definition edge_properties_for_insert ::
  "property_graph \<Rightarrow> string \<Rightarrow> string \<Rightarrow> string \<Rightarrow> props \<Rightarrow> catalog_error + props" where
  "edge_properties_for_insert g rel sl dl ps =
     (case Option.bind (pg_source g) (\<lambda>s. gs_edge_defaults s rel sl dl) of
        Some r \<Rightarrow> bind_res (schema_res r) (\<lambda>(defaults, unsupported).
          case find (\<lambda>k. map_of ps k = None) unsupported of
            Some k \<Rightarrow> Inl (Schema (''property `'' @ rel @ ''.'' @ k @
              ''` requires an explicit value; its source default is not a scalar constant''))
          | None \<Rightarrow> Inr (fold (\<lambda>d m. bt_or_insert (fst d) (snd d) m) defaults ps))
      | None \<Rightarrow> mapped_insert_properties g True rel ps)"

definition fk_mapping_for :: "property_graph \<Rightarrow> string \<Rightarrow> string \<Rightarrow> string \<Rightarrow> edge_mapping option" where
  "fk_mapping_for g rel sl dl =
     (case write_mapping g of
        None \<Rightarrow> None
      | Some mp \<Rightarrow> (case edge_for_endpoints mp rel sl dl of Inl _ \<Rightarrow> None | Inr e \<Rightarrow> Some e))"

definition fk_slot_taken :: "property_graph \<Rightarrow> string \<Rightarrow> addr \<Rightarrow> addr \<Rightarrow> edge_mapping option \<Rightarrow> bool" where
  "fk_slot_taken g rel src dst m =
     (case Option.bind m em_foreign_key of
        None \<Rightarrow> False
      | Some FK_Source \<Rightarrow> list_ex (\<lambda>(_, _, l, _). l = fst dst) (out_edges g (fst src) (snd src) [rel])
      | Some FK_Destination \<Rightarrow> list_ex (\<lambda>(_, _, l, _). l = fst src) (in_edges g (fst dst) (snd dst) [rel]))"

definition fk_child_id :: "edge_mapping option \<Rightarrow> element_id \<Rightarrow> element_id \<Rightarrow> element_id option" where
  "fk_child_id m src dst =
     (case m of
        None \<Rightarrow> None
      | Some e \<Rightarrow>
          (case foreign_key_columns e of
             None \<Rightarrow> None
           | Some (_, key, _, _) \<Rightarrow>
               if em_id_column e = Some key
               then map_option (\<lambda>c. case c of FK_Source \<Rightarrow> src | FK_Destination \<Rightarrow> dst) (em_foreign_key e)
               else None))"

definition check_fk_identity :: "graph_lib \<Rightarrow> val option \<Rightarrow> element_id option \<Rightarrow> catalog_error + unit" where
  "check_fk_identity G supplied child =
     (case (supplied, child) of
        (Some v, Some c) \<Rightarrow>
          bind_res (schema_res (element_of_value G v)) (\<lambda>k.
          bind_res (schema_res (element_cast G k (sv_data_type (eid_scalar c)))) (\<lambda>k.
          if k \<noteq> c then Inl (Schema ''foreign-key relationship identity must equal its child key'') else Inr ()))
      | _ \<Rightarrow> Inr ())"

definition plan_edge ::
  "graph_lib \<Rightarrow> property_graph \<Rightarrow> string \<Rightarrow> val \<Rightarrow> val \<Rightarrow> props \<Rightarrow> val option \<Rightarrow>
     catalog_error + (addr \<times> addr \<times> element_id option \<times> bool \<times> props)" where
  "plan_edge G g rel src dst ps supplied =
     (if list_ex (\<lambda>p. contains_cardinality_value (snd p)) ps then Inl cardinality_error
      else bind_res (node_ref src rel ''source'') (\<lambda>s.
      bind_res (node_ref dst rel ''destination'') (\<lambda>d.
      if \<not> node_is_live g (fst s) (snd s)
      then Inl (Schema (''relationship `'' @ rel @ ''` source node `'' @ fst s @ ''#'' @ id_text G (snd s) @ ''` does not exist''))
      else if \<not> node_is_live g (fst d) (snd d)
      then Inl (Schema (''relationship `'' @ rel @ ''` destination node `'' @ fst d @ ''#'' @ id_text G (snd d) @ ''` does not exist''))
      else if \<not> (case pg_source g of Some x \<Rightarrow> gs_dynamic x | None \<Rightarrow> False) \<and>
          rel_endpoint_labels g rel \<noteq> [] \<and> (fst s, fst d) \<notin> set (rel_endpoint_labels g rel)
      then Inl (Schema (''relationship `'' @ rel @ ''` endpoints `'' @ fst s @ ''`'' @ [CHR 0xE2, CHR 0x86, CHR 0x92] @ ''`'' @ fst d @
        ''` do not match the declared endpoint labels''))
      else bind_res (edge_properties_for_insert g rel (fst s) (fst d) ps) (\<lambda>ps.
        let fk = fk_mapping_for g rel (fst s) (fst d); child = fk_child_id fk (snd s) (snd d) in
        if fk_slot_taken g rel s d fk
        then Inl (Schema (''foreign-key relationship `'' @ rel @ ''` already exists for this child''))
        else bind_res (check_fk_identity G supplied child) (\<lambda>_.
        bind_res (mapped_insert_key G g True rel ps
            (case child of Some c \<Rightarrow> Some (V_Scalar (eid_scalar c)) | None \<Rightarrow> supplied) (Some (fst s, fst d)))
          (\<lambda>(key, ps). Inr (s, d, key, child \<noteq> None, ps)))))))"

definition edge_base_rows :: "property_graph \<Rightarrow> string \<Rightarrow> i64" where
  "edge_base_rows g rel =
     (case map_of (pg_edge_counts g) rel of
        Some n \<Rightarrow> n
      | None \<Rightarrow> (case map_of (pg_edges g) rel of None \<Rightarrow> 0 | Some t \<Rightarrow> of_nat (rb_rows (et_batch t))))"

text \<open>\<open>DELETE\<close> then \<open>CREATE\<close> of one foreign-key slot: the slot becomes live again and loses its old adjacency.\<close>

definition reopen_slot :: "addr \<Rightarrow> graph_overlay \<Rightarrow> graph_overlay" where
  "reopen_slot k ov =
     (if k \<notin> ov_deleted_edges ov then ov
      else let ov = ov\<lparr>ov_deleted_edges := ov_deleted_edges ov - {k}\<rparr>;
               drop_ref = (\<lambda>a m. case map_of m a of None \<Rightarrow> m | Some rs \<Rightarrow> AList.update a (filter (\<lambda>r. r \<noteq> k) rs) m) in
        (case map_of (ov_inserted_edges ov) k of
           None \<Rightarrow> ov
         | Some e \<Rightarrow> ov\<lparr>ov_out_adj := drop_ref (ie_src e) (ov_out_adj ov),
                        ov_in_adj := drop_ref (ie_dst e) (ov_in_adj ov)\<rparr>))"

definition new_edge_id :: "property_graph \<Rightarrow> string \<Rightarrow> element_id option \<Rightarrow> element_id" where
  "new_edge_id g rel key =
     (case key of Some k \<Rightarrow> k
      | None \<Rightarrow> eid_of_i64 (edge_base_rows g rel + al_default 0 (ov_edge_counts (pg_overlay g)) rel))"

definition store_edge ::
  "addr \<Rightarrow> i64 \<Rightarrow> addr \<Rightarrow> addr \<Rightarrow> bool \<Rightarrow> props \<Rightarrow> graph_overlay \<Rightarrow> graph_overlay" where
  "store_edge k cypher s d child ps ov =
     (let ov = ov\<lparr>ov_edge_counts := al_upd 0 (\<lambda>n. n + 1) (fst k) (ov_edge_counts ov)\<rparr>;
          ov = (if child then reopen_slot k ov else ov) in
      ov\<lparr>ov_cypher_ids := AList.update (True, k) cypher (ov_cypher_ids ov),
         ov_unassigned := bs_insert (True, k) (ov_unassigned ov),
         ov_out_adj := al_upd [] (\<lambda>rs. rs @ [k]) s (ov_out_adj ov),
         ov_in_adj := al_upd [] (\<lambda>rs. rs @ [k]) d (ov_in_adj ov),
         ov_inserted_edge_keys := note_keys (fst k) ps (ov_inserted_edge_keys ov),
         ov_inserted_edges := AList.update k
           \<lparr>ie_src_label = fst s, ie_src_id = snd s, ie_dst_label = fst d, ie_dst_id = snd d, ie_props = ps\<rparr>
           (ov_inserted_edges ov)\<rparr>)"

definition insert_edge_with_key ::
  "graph_lib \<Rightarrow> string \<Rightarrow> val \<Rightarrow> val \<Rightarrow> props \<Rightarrow> val option \<Rightarrow> property_graph \<Rightarrow> val act" where
  "insert_edge_with_key G rel src dst ps supplied g =
     (case plan_edge G g rel src dst ps supplied of
        Inl e \<Rightarrow> (Inl e, g)
      | Inr (s, d, key, child, ps) \<Rightarrow>
          let cypher = sum_counts (pg_edge_counts g) + sum_counts (ov_edge_counts (pg_overlay g));
              i = new_edge_id g rel key in
          (Inr (V_Edge rel i (fst s) (snd s) (fst d) (snd d) None),
           mark_edge (rel, i) (upd_overlay (store_edge (rel, i) cypher s d child ps) g)))"

section \<open>Scalar properties\<close>

definition prop_set :: "string \<Rightarrow> val \<Rightarrow> props \<Rightarrow> props" where
  "prop_set key v ps = (if v = V_Null then bt_remove key ps else bt_insert key v ps)"

definition prop_extend :: "props \<Rightarrow> props \<Rightarrow> props" where
  "prop_extend new ps = fold (\<lambda>e m. bt_insert (fst e) (snd e) m) new ps"

definition drop_null_key :: "addr \<Rightarrow> string list \<Rightarrow> graph_overlay \<Rightarrow> graph_overlay" where
  "drop_null_key k keys ov =
     (case map_of (ov_edge_nulls ov) k of
        None \<Rightarrow> ov
      | Some ns \<Rightarrow>
          (if ns - set keys = {} then ov\<lparr>ov_edge_nulls := AList.delete k (ov_edge_nulls ov)\<rparr>
           else ov\<lparr>ov_edge_nulls := AList.update k (ns - set keys) (ov_edge_nulls ov)\<rparr>))"

definition set_node_scalar :: "addr \<Rightarrow> string \<Rightarrow> val \<Rightarrow> graph_overlay \<Rightarrow> graph_overlay" where
  "set_node_scalar k key v ov =
     (case map_of (ov_inserted_nodes ov) k of
        Some ps \<Rightarrow> ov\<lparr>ov_inserted_nodes := AList.update k (prop_set key v ps) (ov_inserted_nodes ov),
          ov_inserted_node_keys := (if v = V_Null then ov_inserted_node_keys ov
            else note_key (fst k) key (ov_inserted_node_keys ov))\<rparr>
      | None \<Rightarrow> ov\<lparr>ov_node_overrides := al_upd [] (bt_insert key v) k (ov_node_overrides ov),
          ov_override_node_keys := (if v = V_Null then ov_override_node_keys ov
            else note_key (fst k) key (ov_override_node_keys ov))\<rparr>)"

definition set_edge_scalar :: "addr \<Rightarrow> string \<Rightarrow> val \<Rightarrow> graph_overlay \<Rightarrow> graph_overlay" where
  "set_edge_scalar k key v ov =
     (case map_of (ov_inserted_edges ov) k of
        Some e \<Rightarrow> ov\<lparr>ov_inserted_edges := AList.update k (e\<lparr>ie_props := prop_set key v (ie_props e)\<rparr>) (ov_inserted_edges ov),
          ov_inserted_edge_keys := (if v = V_Null then ov_inserted_edge_keys ov
            else note_key (fst k) key (ov_inserted_edge_keys ov))\<rparr>
      | None \<Rightarrow> ov\<lparr>ov_edge_overrides := al_upd [] (bt_insert key v) k (ov_edge_overrides ov),
          ov_override_edge_keys := (if v = V_Null then ov_override_edge_keys ov
            else note_key (fst k) key (ov_override_edge_keys ov))\<rparr>)"

definition set_property_scalar :: "val \<Rightarrow> string \<Rightarrow> val \<Rightarrow> property_graph \<Rightarrow> unit act" where
  "set_property_scalar target key v g =
     (if contains_cardinality_value v then (Inl cardinality_error, g)
      else case target of
        V_Node label i \<Rightarrow>
          if (label, i) \<in> ov_deleted_nodes (pg_overlay g) then (Inr (), g)
          else (Inr (), upd_overlay (set_node_scalar (label, i) key v) (mark_node (label, i) g))
      | V_Edge rel i _ _ _ _ _ \<Rightarrow>
          if (rel, i) \<in> ov_deleted_edges (pg_overlay g) then (Inr (), g)
          else (Inr (), upd_overlay (\<lambda>ov. set_edge_scalar (rel, i) key v (drop_null_key (rel, i) [key] ov))
                 (mark_edge (rel, i) g))
      | _ \<Rightarrow> (Inr (), g))"

fun update_first :: "('a \<Rightarrow> bool) \<Rightarrow> ('a \<Rightarrow> 'a) \<Rightarrow> 'a list \<Rightarrow> 'a list" where
  "update_first P f [] = []"
| "update_first P f (x # xs) = (if P x then f x # xs else x # update_first P f xs)"

definition vertex_records :: "graph_overlay \<Rightarrow> addr \<Rightarrow> string \<Rightarrow> vertex_property_record list option" where
  "vertex_records ov k key = Option.bind (map_of (ov_vertex_props ov) k) (\<lambda>m. map_of m key)"

definition upd_records ::
  "addr \<Rightarrow> string \<Rightarrow> (vertex_property_record list \<Rightarrow> vertex_property_record list) \<Rightarrow> graph_overlay \<Rightarrow> graph_overlay" where
  "upd_records k key f ov =
     (case map_of (ov_vertex_props ov) k of
        None \<Rightarrow> ov
      | Some m \<Rightarrow>
          (case map_of m key of
             None \<Rightarrow> ov
           | Some rs \<Rightarrow> ov\<lparr>ov_vertex_props := AList.update k (bt_insert key (f rs) m) (ov_vertex_props ov)\<rparr>))"

definition meta_set :: "bool \<Rightarrow> string \<Rightarrow> val \<Rightarrow> vertex_property_record \<Rightarrow> vertex_property_record" where
  "meta_set allow_null key v r =
     r\<lparr>vp_meta := (if v = V_Null \<and> \<not> allow_null then bt_remove key (vp_meta r) else bt_insert key v (vp_meta r))\<rparr>"

definition set_meta_property :: "val \<Rightarrow> string \<Rightarrow> val \<Rightarrow> property_graph \<Rightarrow> unit act" where
  "set_meta_property target key v g =
     (if contains_cardinality_value v then (Inl cardinality_error, g)
      else case target of
        V_VertexProperty i (V_Node label vi) pk _ \<Rightarrow>
          let g = hydrate_native_state False label vi g in
          (case vertex_records (pg_overlay g) (label, vi) pk of
             None \<Rightarrow> (Inl (Schema ''Vertex property no longer exists''), g)
           | Some rs \<Rightarrow>
               if \<not> list_ex (\<lambda>r. vp_id r = i) rs then (Inl (Schema ''Vertex property no longer exists''), g)
               else (Inr (), mark_node (label, vi) (upd_overlay
                 (upd_records (label, vi) pk
                   (update_first (\<lambda>r. vp_id r = i) (meta_set (ov_allow_null (pg_overlay g)) key v))) g)))
      | V_VertexProperty _ _ _ _ \<Rightarrow> (Inl (Schema ''Invalid vertex property owner''), g)
      | _ \<Rightarrow> (Inl (Schema ''Meta-property requires a vertex property''), g))"

definition drop_vertex_records :: "addr \<Rightarrow> string \<Rightarrow> graph_overlay \<Rightarrow> graph_overlay" where
  "drop_vertex_records k key ov =
     (case map_of (ov_vertex_props ov) k of
        None \<Rightarrow> ov
      | Some m \<Rightarrow>
          (if bt_remove key m = [] then ov\<lparr>ov_vertex_props := AList.delete k (ov_vertex_props ov)\<rparr>
           else ov\<lparr>ov_vertex_props := AList.update k (bt_remove key m) (ov_vertex_props ov)\<rparr>))"

definition set_property :: "val \<Rightarrow> string \<Rightarrow> val \<Rightarrow> property_graph \<Rightarrow> unit act" where
  "set_property target key v g =
     (let g = hydrate_target target g in
      if contains_cardinality_value v then (Inl cardinality_error, g)
      else case target of
        V_VertexProperty _ _ _ _ \<Rightarrow> set_meta_property target key v g
      | V_Node label i \<Rightarrow> set_property_scalar target key v (upd_overlay (drop_vertex_records (label, i) key) g)
      | _ \<Rightarrow> set_property_scalar target key v g)"

definition put_node_properties :: "addr \<Rightarrow> props \<Rightarrow> bool \<Rightarrow> graph_overlay \<Rightarrow> graph_overlay" where
  "put_node_properties k ps replace ov =
     (case map_of (ov_inserted_nodes ov) k of
        Some old \<Rightarrow> ov\<lparr>ov_inserted_nodes := AList.update k (if replace then ps else prop_extend ps old) (ov_inserted_nodes ov),
          ov_inserted_node_keys := note_keys (fst k) ps (ov_inserted_node_keys ov)\<rparr>
      | None \<Rightarrow>
          (let ov = ov\<lparr>ov_override_node_keys := note_keys (fst k) ps (ov_override_node_keys ov)\<rparr> in
           if replace then ov\<lparr>ov_replaced_nodes := insert k (ov_replaced_nodes ov),
             ov_node_overrides := AList.update k ps (ov_node_overrides ov)\<rparr>
           else ov\<lparr>ov_node_overrides := al_upd [] (prop_extend ps) k (ov_node_overrides ov)\<rparr>))"

definition put_edge_properties :: "addr \<Rightarrow> props \<Rightarrow> bool \<Rightarrow> graph_overlay \<Rightarrow> graph_overlay" where
  "put_edge_properties k ps replace ov =
     (case map_of (ov_inserted_edges ov) k of
        Some e \<Rightarrow> ov\<lparr>ov_inserted_edges := AList.update k
            (e\<lparr>ie_props := (if replace then ps else prop_extend ps (ie_props e))\<rparr>) (ov_inserted_edges ov),
          ov_inserted_edge_keys := note_keys (fst k) ps (ov_inserted_edge_keys ov)\<rparr>
      | None \<Rightarrow>
          (let ov = ov\<lparr>ov_override_edge_keys := note_keys (fst k) ps (ov_override_edge_keys ov)\<rparr> in
           if replace then ov\<lparr>ov_replaced_edges := insert k (ov_replaced_edges ov),
             ov_edge_overrides := AList.update k ps (ov_edge_overrides ov)\<rparr>
           else ov\<lparr>ov_edge_overrides := al_upd [] (prop_extend ps) k (ov_edge_overrides ov)\<rparr>))"

definition clear_vertex_records :: "addr \<Rightarrow> string list \<Rightarrow> bool \<Rightarrow> graph_overlay \<Rightarrow> graph_overlay" where
  "clear_vertex_records k keys replace ov =
     (if replace then ov\<lparr>ov_vertex_props := AList.delete k (ov_vertex_props ov)\<rparr>
      else (case map_of (ov_vertex_props ov) k of
          None \<Rightarrow> ov
        | Some m \<Rightarrow> ov\<lparr>ov_vertex_props := AList.update k (fold bt_remove keys m) (ov_vertex_props ov)\<rparr>))"

definition clear_edge_nulls :: "addr \<Rightarrow> string list \<Rightarrow> bool \<Rightarrow> graph_overlay \<Rightarrow> graph_overlay" where
  "clear_edge_nulls k keys replace ov =
     (if replace then ov\<lparr>ov_edge_nulls := AList.delete k (ov_edge_nulls ov)\<rparr> else drop_null_key k keys ov)"

definition set_properties :: "val \<Rightarrow> props \<Rightarrow> bool \<Rightarrow> property_graph \<Rightarrow> unit act" where
  "set_properties target ps replace g =
     (let g = hydrate_target target g in
      if list_ex (\<lambda>p. contains_cardinality_value (snd p)) ps then (Inl cardinality_error, g)
      else case target of
        V_Node label i \<Rightarrow>
          let k = (label, i); g = upd_overlay (clear_vertex_records k (map fst ps) replace) g in
          if k \<in> ov_deleted_nodes (pg_overlay g) then (Inr (), g)
          else (Inr (), upd_overlay (put_node_properties k ps replace) (mark_node k g))
      | V_Edge rel i _ _ _ _ _ \<Rightarrow>
          let k = (rel, i) in
          if k \<in> ov_deleted_edges (pg_overlay g) then (Inr (), g)
          else (Inr (), upd_overlay (\<lambda>ov. put_edge_properties k ps replace (clear_edge_nulls k (map fst ps) replace ov))
                 (mark_edge k g))
      | _ \<Rightarrow> (Inr (), g))"

section \<open>Deleting\<close>

definition remove_property :: "val \<Rightarrow> property_graph \<Rightarrow> unit act" where
  "remove_property target g =
     (case target of
        V_Property (V_VertexProperty i (V_Node label vi) pk _) key _ \<Rightarrow>
          (Inr (), mark_node (label, vi) (upd_overlay
             (upd_records (label, vi) pk (update_first (\<lambda>r. vp_id r = i) (\<lambda>r. r\<lparr>vp_meta := bt_remove key (vp_meta r)\<rparr>)))
             (hydrate_native_state False label vi g)))
      | V_Property (V_VertexProperty _ _ _ _) _ _ \<Rightarrow> (Inr (), g)
      | V_Property owner key _ \<Rightarrow> set_property owner key V_Null g
      | V_VertexProperty i (V_Node label vi) key _ \<Rightarrow>
          let g = hydrate_native_state False label vi g in
          (case vertex_records (pg_overlay g) (label, vi) key of
             None \<Rightarrow> (Inr (), g)
           | Some rs \<Rightarrow>
               let rs' = filter (\<lambda>r. vp_id r \<noteq> i) rs in
               set_property_scalar (V_Node label vi) key (case rs' of [] \<Rightarrow> V_Null | r # _ \<Rightarrow> vp_value r)
                 (upd_overlay (upd_records (label, vi) key (\<lambda>_. rs')) g))
      | _ \<Rightarrow> (Inr (), g))"

definition delete_edges :: "endpoints list \<Rightarrow> property_graph \<Rightarrow> property_graph" where
  "delete_edges es g = fold (\<lambda>(rel, row, _, _) g. mark_edge (rel, row)
     (upd_overlay (\<lambda>ov. ov\<lparr>ov_deleted_edges := insert (rel, row) (ov_deleted_edges ov)\<rparr>) g)) es g"

definition delete_value :: "graph_lib \<Rightarrow> val \<Rightarrow> bool \<Rightarrow> property_graph \<Rightarrow> unit act" where
  "delete_value G target detach g =
     (case target of
        V_VertexProperty _ _ _ _ \<Rightarrow> remove_property target g
      | V_Property _ _ _ \<Rightarrow> remove_property target g
      | V_Node label i \<Rightarrow>
          let outgoing = out_edges g label i []; incoming = in_edges g label i [] in
          if \<not> detach \<and> (outgoing \<noteq> [] \<or> incoming \<noteq> [])
          then (Inl (DeleteIntegrity (''cannot delete node `'' @ label @ ''` (id '' @ id_text G i @
                 ''): it still has relationships; use DETACH DELETE to remove them first'')), g)
          else
            let g = (if detach then delete_edges (outgoing @ incoming) g else g) in
            (Inr (), mark_node (label, i)
               (upd_overlay (\<lambda>ov. ov\<lparr>ov_deleted_nodes := insert (label, i) (ov_deleted_nodes ov)\<rparr>) g))
      | V_Edge rel i _ _ _ _ _ \<Rightarrow>
          (Inr (), mark_edge (rel, i)
             (upd_overlay (\<lambda>ov. ov\<lparr>ov_deleted_edges := insert (rel, i) (ov_deleted_edges ov)\<rparr>) g))
      | _ \<Rightarrow> (Inr (), g))"

end
