(* ===== verification/Graph_Properties.thy ===== *)
theory Graph_Properties
  imports Graph_Writes
begin

text \<open>
  What writes mean for reads: a property written through \<open>set_property\<close> is read back, every
  other property is framed out, and every element whose reads change is recorded in the
  pending-change set that commits are computed from.
\<close>

section \<open>Property bags\<close>

lemma map_of_bt_insert_same [simp]: "map_of (bt_insert k v m) k = Some v"
  by (induction m) auto

lemma map_of_bt_insert_other [simp]: "j \<noteq> k \<Longrightarrow> map_of (bt_insert k v m) j = map_of m j"
  by (induction m) auto

lemma filter_bt_insert_other:
  assumes "\<And>u. \<not> P (k, u)"
  shows "filter P (bt_insert k v m) = filter P m"
  by (induction m) (auto simp: assms)

lemma map_of_bt_remove: "map_of (bt_remove k m) j = (if j = k then None else map_of m j)"
  by (induction m) (auto simp: bt_remove_def)

lemma filter_bt_remove_other:
  assumes "\<And>u. \<not> P (k, u)"
  shows "filter P (bt_remove k m) = filter P m"
proof -
  have "\<And>e. fst e \<noteq> k \<and> P e \<longleftrightarrow> P e" using assms by (metis prod.collapse)
  then show ?thesis by (simp add: bt_remove_def conj_commute)
qed

lemma eq_ignore_case_refl [simp]: "eq_ignore_case k k"
  by (simp add: eq_ignore_case_def)

lemma property_insert_same [simp]: "map_property_value_if_present (bt_insert k v m) k = Some v"
  by (simp add: map_property_value_if_present_def)

lemma property_insert_other:
  assumes "\<not> eq_ignore_case k j"
  shows "map_property_value_if_present (bt_insert k v m) j = map_property_value_if_present m j"
proof -
  have "j \<noteq> k" using assms by auto
  then show ?thesis
    using filter_bt_insert_other [of "\<lambda>e. eq_ignore_case (fst e) j" k v m] assms
    by (simp add: map_property_value_if_present_def split: option.split)
qed

lemma property_remove_other:
  assumes "\<not> eq_ignore_case k j"
  shows "map_property_value_if_present (bt_remove k m) j = map_property_value_if_present m j"
proof -
  have "j \<noteq> k" using assms by auto
  then show ?thesis
    using filter_bt_remove_other [of "\<lambda>e. eq_ignore_case (fst e) j" k m] assms
    by (simp add: map_property_value_if_present_def map_of_bt_remove split: option.split)
qed

lemma property_set_other:
  "\<not> eq_ignore_case k j \<Longrightarrow> map_property_value (prop_set k v m) j = map_property_value m j"
  by (simp add: map_property_value_def prop_set_def property_insert_other property_remove_other)

definition case_variant :: "string \<Rightarrow> props \<Rightarrow> val" where
  "case_variant key ps =
     (case only (map snd (filter (\<lambda>e. eq_ignore_case (fst e) key \<and> fst e \<noteq> key) ps)) of
        Some v \<Rightarrow> v | None \<Rightarrow> V_Null)"

lemma property_removed: "map_property_value (bt_remove key ps) key = case_variant key ps"
proof -
  have "map_of (bt_remove key ps) key = None" by (simp add: map_of_bt_remove)
  then show ?thesis
    by (simp add: map_property_value_def map_property_value_if_present_def case_variant_def bt_remove_def
        conj_commute)
qed

lemma property_set_same:
  "map_property_value (prop_set key v ps) key = (if v = V_Null then case_variant key ps else v)"
  by (simp add: prop_set_def property_removed) (simp add: map_property_value_def)

section \<open>Reading back a written property\<close>

text \<open>What a scalar write changes in the overlay, per field that a read consults.\<close>

lemma set_node_scalar_fields:
  "ov_deleted_nodes (set_node_scalar k key v ov) = ov_deleted_nodes ov"
  "ov_replaced_nodes (set_node_scalar k key v ov) = ov_replaced_nodes ov"
  "ov_inserted_edges (set_node_scalar k key v ov) = ov_inserted_edges ov"
  "ov_edge_overrides (set_node_scalar k key v ov) = ov_edge_overrides ov"
  "ov_deleted_edges (set_node_scalar k key v ov) = ov_deleted_edges ov"
  "ov_replaced_edges (set_node_scalar k key v ov) = ov_replaced_edges ov"
  "map_of (ov_inserted_nodes (set_node_scalar k key v ov)) =
     (case map_of (ov_inserted_nodes ov) k of None \<Rightarrow> map_of (ov_inserted_nodes ov)
      | Some ps \<Rightarrow> (map_of (ov_inserted_nodes ov))(k \<mapsto> prop_set key v ps))"
  "map_of (ov_node_overrides (set_node_scalar k key v ov)) =
     (case map_of (ov_inserted_nodes ov) k of Some ps \<Rightarrow> map_of (ov_node_overrides ov)
      | None \<Rightarrow> (map_of (ov_node_overrides ov))(k \<mapsto> bt_insert key v (al_default [] (ov_node_overrides ov) k)))"
  by (simp_all add: set_node_scalar_def update_conv' split: option.split)

lemma mark_fields [simp]:
  "pg_overlay (mark_node k g) = pg_overlay g" "pg_overlay (mark_edge k g) = pg_overlay g"
  "pg_overlay (upd_overlay f g) = f (pg_overlay g)"
  "pg_source (mark_node k g) = pg_source g" "pg_source (mark_edge k g) = pg_source g"
  "pg_source (upd_overlay f g) = pg_source g"
  "pg_nodes (mark_node k g) = pg_nodes g" "pg_nodes (mark_edge k g) = pg_nodes g"
  "pg_nodes (upd_overlay f g) = pg_nodes g"
  "pg_node_locations (mark_node k g) = pg_node_locations g" "pg_node_locations (mark_edge k g) = pg_node_locations g"
  "pg_node_locations (upd_overlay f g) = pg_node_locations g"
  "pg_edges (mark_node k g) = pg_edges g" "pg_edges (mark_edge k g) = pg_edges g"
  "pg_edges (upd_overlay f g) = pg_edges g"
  "pg_edge_tables (mark_node k g) = pg_edge_tables g" "pg_edge_tables (mark_edge k g) = pg_edge_tables g"
  "pg_edge_tables (upd_overlay f g) = pg_edge_tables g"
  "pg_edge_locations (mark_node k g) = pg_edge_locations g" "pg_edge_locations (mark_edge k g) = pg_edge_locations g"
  "pg_edge_locations (upd_overlay f g) = pg_edge_locations g"
  by (simp_all add: mark_node_def mark_edge_def upd_overlay_def)

text \<open>The part of a property read that writes never touch: the external source or the base row.\<close>

definition base_node_value :: "graph_lib \<Rightarrow> property_graph \<Rightarrow> string \<Rightarrow> element_id \<Rightarrow> string \<Rightarrow> val" where
  "base_node_value G g label i key =
     (case pg_source g of
        Some s \<Rightarrow> gs_property s False label i key
      | None \<Rightarrow>
          (case map_of (pg_nodes g) label of
             None \<Rightarrow> V_Null
           | Some t \<Rightarrow>
               (case map_of (pg_node_locations g) (label, i) of
                  None \<Rightarrow> V_Null | Some row \<Rightarrow> column_value G (tb_batch t) key (of_nat row))))"

lemma base_node_value_frame [simp]:
  "base_node_value G (mark_node k g) = base_node_value G g"
  "base_node_value G (mark_edge k g) = base_node_value G g"
  "base_node_value G (upd_overlay f g) = base_node_value G g"
  unfolding base_node_value_def mark_fields by (rule refl)+

lemma node_property_layers:
  "node_property G g label i key =
     (if (label, i) \<in> ov_deleted_nodes (pg_overlay g) then V_Null
      else case map_of (ov_inserted_nodes (pg_overlay g)) (label, i) of
        Some ps \<Rightarrow> map_property_value ps key
      | None \<Rightarrow>
          (case Option.bind (map_of (ov_node_overrides (pg_overlay g)) (label, i))
               (\<lambda>ps. map_property_value_if_present ps key) of
             Some v \<Rightarrow> v
           | None \<Rightarrow> if (label, i) \<in> ov_replaced_nodes (pg_overlay g) then V_Null
               else base_node_value G g label i key))"
  unfolding node_property_def base_node_value_def Let_def by (rule refl)

lemma node_property_set_same:
  assumes "(label, i) \<notin> ov_deleted_nodes (pg_overlay g)" "\<not> contains_cardinality_value v"
  shows "node_property G (snd (set_property_scalar (V_Node label i) key v g)) label i key =
    (if v \<noteq> V_Null then v
     else case map_of (ov_inserted_nodes (pg_overlay g)) (label, i) of
       Some ps \<Rightarrow> case_variant key ps | None \<Rightarrow> V_Null)"
  using assms
  by (cases "map_of (ov_inserted_nodes (pg_overlay g)) (label, i)")
    (simp_all add: set_property_scalar_def node_property_layers set_node_scalar_fields property_set_same)

lemma override_other:
  assumes "\<not> eq_ignore_case key key'"
  shows "map_property_value_if_present (bt_insert key v (al_default [] m k)) key' =
    Option.bind (map_of m k) (\<lambda>ps. map_property_value_if_present ps key')"
  using assms property_insert_other [OF assms, of v "[]"]
  by (cases "map_of m k")
    (simp_all add: property_insert_other al_default_def map_property_value_if_present_def [of "[]"] only_def)

lemma node_property_set_other:
  assumes "(label', i') \<noteq> (label, i) \<or> \<not> eq_ignore_case key key'"
  shows "node_property G (snd (set_property_scalar (V_Node label i) key v g)) label' i' key' =
    node_property G g label' i' key'"
proof (cases "contains_cardinality_value v \<or> (label, i) \<in> ov_deleted_nodes (pg_overlay g)")
  case True
  then show ?thesis by (auto simp: set_property_scalar_def)
next
  case live: False
  show ?thesis
  proof (cases "(label', i') = (label, i)")
    case True
    then have other: "\<not> eq_ignore_case key key'" using assms by simp
    show ?thesis
      using True live other
      by (cases "map_of (ov_inserted_nodes (pg_overlay g)) (label, i)")
        (simp_all add: set_property_scalar_def node_property_layers set_node_scalar_fields
          property_set_other override_other split: option.split)
  next
    case False
    then show ?thesis
      using live
      by (cases "map_of (ov_inserted_nodes (pg_overlay g)) (label, i)")
        (auto simp add: set_property_scalar_def node_property_layers set_node_scalar_fields split: option.split)
  qed
qed

section \<open>The same for relationships\<close>

lemma set_edge_scalar_fields:
  "ov_deleted_nodes (set_edge_scalar k key v ov) = ov_deleted_nodes ov"
  "ov_replaced_nodes (set_edge_scalar k key v ov) = ov_replaced_nodes ov"
  "ov_inserted_nodes (set_edge_scalar k key v ov) = ov_inserted_nodes ov"
  "ov_node_overrides (set_edge_scalar k key v ov) = ov_node_overrides ov"
  "ov_deleted_edges (set_edge_scalar k key v ov) = ov_deleted_edges ov"
  "ov_replaced_edges (set_edge_scalar k key v ov) = ov_replaced_edges ov"
  "map_of (ov_inserted_edges (set_edge_scalar k key v ov)) =
     (case map_of (ov_inserted_edges ov) k of None \<Rightarrow> map_of (ov_inserted_edges ov)
      | Some e \<Rightarrow> (map_of (ov_inserted_edges ov))(k \<mapsto> e\<lparr>ie_props := prop_set key v (ie_props e)\<rparr>))"
  "map_of (ov_edge_overrides (set_edge_scalar k key v ov)) =
     (case map_of (ov_inserted_edges ov) k of Some e \<Rightarrow> map_of (ov_edge_overrides ov)
      | None \<Rightarrow> (map_of (ov_edge_overrides ov))(k \<mapsto> bt_insert key v (al_default [] (ov_edge_overrides ov) k)))"
  by (simp_all add: set_edge_scalar_def update_conv' split: option.split)

lemma drop_null_key_shape: "\<exists>ns. drop_null_key k keys ov = ov\<lparr>ov_edge_nulls := ns\<rparr>"
  by (auto simp: drop_null_key_def intro: exI [of _ "ov_edge_nulls ov"] split: option.split)

definition base_edge_value :: "graph_lib \<Rightarrow> property_graph \<Rightarrow> string \<Rightarrow> element_id \<Rightarrow> string \<Rightarrow> val" where
  "base_edge_value G g rel row key =
     (case pg_source g of
        Some s \<Rightarrow> gs_property s True rel row key
      | None \<Rightarrow>
          (case map_of (pg_edge_locations g) (rel, row) of
             Some loc \<Rightarrow>
               (case map_of (pg_edge_tables g) rel of
                  None \<Rightarrow> V_Null
                | Some ts \<Rightarrow>
                    if length ts \<le> rl_table loc then V_Null
                    else column_value G (et_batch (ts ! rl_table loc)) key (rl_row loc))
           | None \<Rightarrow>
               (case map_of (pg_edges g) rel of
                  None \<Rightarrow> V_Null
                | Some t \<Rightarrow>
                    (case eid_as_i64 row of
                       None \<Rightarrow> V_Null
                     | Some n \<Rightarrow> column_value G (et_batch t) key n))))"

lemma edge_property_layers:
  "edge_property G g rel row key =
     (if (rel, row) \<in> ov_deleted_edges (pg_overlay g) then V_Null
      else case map_of (ov_inserted_edges (pg_overlay g)) (rel, row) of
        Some e \<Rightarrow> map_property_value (ie_props e) key
      | None \<Rightarrow>
          (case Option.bind (map_of (ov_edge_overrides (pg_overlay g)) (rel, row))
               (\<lambda>ps. map_property_value_if_present ps key) of
             Some v \<Rightarrow> v
           | None \<Rightarrow> if (rel, row) \<in> ov_replaced_edges (pg_overlay g) then V_Null
               else base_edge_value G g rel row key))"
  unfolding edge_property_def base_edge_value_def Let_def by (rule refl)

lemma base_edge_value_frame [simp]:
  "base_edge_value G (mark_node k g) = base_edge_value G g"
  "base_edge_value G (mark_edge k g) = base_edge_value G g"
  "base_edge_value G (upd_overlay f g) = base_edge_value G g"
  unfolding base_edge_value_def mark_fields by (rule refl)+

lemma edge_property_set_same:
  assumes "(rel, row) \<notin> ov_deleted_edges (pg_overlay g)" "\<not> contains_cardinality_value v"
  shows "edge_property G (snd (set_property_scalar (V_Edge rel row a b c d e) key v g)) rel row key =
    (if v \<noteq> V_Null then v
     else case map_of (ov_inserted_edges (pg_overlay g)) (rel, row) of
       Some e \<Rightarrow> case_variant key (ie_props e) | None \<Rightarrow> V_Null)"
proof -
  obtain ns where "drop_null_key (rel, row) [key] (pg_overlay g) = (pg_overlay g)\<lparr>ov_edge_nulls := ns\<rparr>"
    using drop_null_key_shape by blast
  then show ?thesis
    using assms
    by (cases "map_of (ov_inserted_edges (pg_overlay g)) (rel, row)")
      (simp_all add: set_property_scalar_def edge_property_layers set_edge_scalar_fields property_set_same)
qed

lemma edge_property_set_other:
  assumes "(rel', row') \<noteq> (rel, row) \<or> \<not> eq_ignore_case key key'"
  shows "edge_property G (snd (set_property_scalar (V_Edge rel row a b c d e) key v g)) rel' row' key' =
    edge_property G g rel' row' key'"
proof (cases "contains_cardinality_value v \<or> (rel, row) \<in> ov_deleted_edges (pg_overlay g)")
  case True
  then show ?thesis by (auto simp: set_property_scalar_def)
next
  case live: False
  obtain ns where ns: "drop_null_key (rel, row) [key] (pg_overlay g) = (pg_overlay g)\<lparr>ov_edge_nulls := ns\<rparr>"
    using drop_null_key_shape by blast
  show ?thesis
  proof (cases "(rel', row') = (rel, row)")
    case True
    then have other: "\<not> eq_ignore_case key key'" using assms by simp
    show ?thesis
      using True live other ns
      by (cases "map_of (ov_inserted_edges (pg_overlay g)) (rel, row)")
        (simp_all add: set_property_scalar_def edge_property_layers set_edge_scalar_fields
          property_set_other override_other split: option.split)
  next
    case False
    then show ?thesis
      using live ns
      by (cases "map_of (ov_inserted_edges (pg_overlay g)) (rel, row)")
        (auto simp add: set_property_scalar_def edge_property_layers set_edge_scalar_fields split: option.split)
  qed
qed

section \<open>What hydration changes\<close>

text \<open>The overlay fields that property reads, liveness and adjacency consult.\<close>

definition read_fields :: "graph_overlay \<Rightarrow> _" where
  "read_fields ov = (ov_deleted_nodes ov, ov_inserted_nodes ov, ov_node_overrides ov, ov_replaced_nodes ov,
     ov_deleted_edges ov, ov_inserted_edges ov, ov_edge_overrides ov, ov_replaced_edges ov,
     ov_out_adj ov, ov_in_adj ov, ov_node_counts ov, ov_edge_counts ov)"

lemma read_fields_updates [simp]:
  "read_fields (ov\<lparr>ov_allow_null := b\<rparr>) = read_fields ov"
  "read_fields (ov\<lparr>ov_label_sets := ls\<rparr>) = read_fields ov"
  "read_fields (ov\<lparr>ov_cypher_ids := cs\<rparr>) = read_fields ov"
  "read_fields (ov\<lparr>ov_edge_nulls := ns\<rparr>) = read_fields ov"
  "read_fields (ov\<lparr>ov_vertex_props := vs\<rparr>) = read_fields ov"
  "read_fields (ov\<lparr>ov_next_property_id := n\<rparr>) = read_fields ov"
  "read_fields (ov\<lparr>ov_public_ids := ps\<rparr>) = read_fields ov"
  by (simp_all add: read_fields_def)

lemma restore_native_read_fields: "read_fields (snd (restore_native_node_state k st ov)) = read_fields ov"
  by (simp add: restore_native_node_state_def Let_def split: val.split list.split sum.split)

definition base_of :: "property_graph \<Rightarrow> property_graph" where
  "base_of g = g\<lparr>pg_overlay := empty_overlay, pg_pending := no_pending, pg_hydrated := {}\<rparr>"

lemma base_of_marks [simp]:
  "base_of (mark_node k g) = base_of g" "base_of (mark_edge k g) = base_of g"
  "base_of (upd_overlay f g) = base_of g"
  "base_of (g\<lparr>pg_overlay := ov\<rparr>) = base_of g" "base_of (g\<lparr>pg_hydrated := h\<rparr>) = base_of g"
  by (simp_all add: base_of_def mark_node_def mark_edge_def upd_overlay_def)

lemma apply_native_read_fields [simp]: "read_fields (apply_native_state edge name i st ov) = read_fields ov"
  by (simp add: apply_native_state_def)

lemma hydrate_frame:
  "base_of (hydrate_native_state edge name i g) = base_of g"
  "pg_pending (hydrate_native_state edge name i g) = pg_pending g"
  "read_fields (pg_overlay (hydrate_native_state edge name i g)) = read_fields (pg_overlay g)"
proof -
  have *: "restore_native_node_state k st ov = (r, ov') \<Longrightarrow> read_fields ov' = read_fields ov" for k st ov r ov'
    by (metis restore_native_read_fields snd_conv)
  show "base_of (hydrate_native_state edge name i g) = base_of g"
    by (simp add: hydrate_native_state_def base_of_def split: option.split sum.split prod.split)
  show "pg_pending (hydrate_native_state edge name i g) = pg_pending g"
    by (simp add: hydrate_native_state_def split: option.split sum.split prod.split)
  show "read_fields (pg_overlay (hydrate_native_state edge name i g)) = read_fields (pg_overlay g)"
    by (auto simp: hydrate_native_state_def * split: option.split sum.split prod.split)
qed

lemma hydrate_target_frame:
  "base_of (hydrate_target v g) = base_of g"
  "pg_pending (hydrate_target v g) = pg_pending g"
  "read_fields (pg_overlay (hydrate_target v g)) = read_fields (pg_overlay g)"
  by (simp_all add: hydrate_target_def hydrate_frame split: val.split)

lemma base_of_fields:
  assumes "base_of g' = base_of g"
  shows "pg_source_keys g' = pg_source_keys g" "pg_source g' = pg_source g" "pg_mapping g' = pg_mapping g"
    "pg_nodes g' = pg_nodes g" "pg_node_keys g' = pg_node_keys g"
    "pg_mapped_defaults g' = pg_mapped_defaults g" "pg_unsupported_defaults g' = pg_unsupported_defaults g"
    "pg_node_locations g' = pg_node_locations g" "pg_edge_keys g' = pg_edge_keys g" "pg_edges g' = pg_edges g"
    "pg_edge_tables g' = pg_edge_tables g" "pg_edge_locations g' = pg_edge_locations g"
    "pg_edge_counts g' = pg_edge_counts g" "pg_out_adj g' = pg_out_adj g" "pg_in_adj g' = pg_in_adj g"
  using arg_cong [OF assms, of pg_source_keys] arg_cong [OF assms, of pg_source]
    arg_cong [OF assms, of pg_mapping] arg_cong [OF assms, of pg_nodes] arg_cong [OF assms, of pg_node_keys]
    arg_cong [OF assms, of pg_mapped_defaults] arg_cong [OF assms, of pg_unsupported_defaults]
    arg_cong [OF assms, of pg_node_locations] arg_cong [OF assms, of pg_edge_keys]
    arg_cong [OF assms, of pg_edges] arg_cong [OF assms, of pg_edge_tables]
    arg_cong [OF assms, of pg_edge_locations] arg_cong [OF assms, of pg_edge_counts]
    arg_cong [OF assms, of pg_out_adj] arg_cong [OF assms, of pg_in_adj]
  by (simp_all add: base_of_def)

text \<open>Per element, what the overlay says of it.\<close>

definition node_view :: "graph_overlay \<Rightarrow> addr \<Rightarrow> bool \<times> props option \<times> props option \<times> bool" where
  "node_view ov k = (k \<in> ov_deleted_nodes ov, map_of (ov_inserted_nodes ov) k,
     map_of (ov_node_overrides ov) k, k \<in> ov_replaced_nodes ov)"

definition edge_view :: "graph_overlay \<Rightarrow> addr \<Rightarrow> bool \<times> inserted_edge option \<times> props option \<times> bool" where
  "edge_view ov k = (k \<in> ov_deleted_edges ov, map_of (ov_inserted_edges ov) k,
     map_of (ov_edge_overrides ov) k, k \<in> ov_replaced_edges ov)"

lemma base_values_cong:
  assumes "base_of g' = base_of g"
  shows "base_node_value G g' = base_node_value G g" "base_edge_value G g' = base_edge_value G g"
    "base_endpoints g' = base_endpoints g"
proof -
  note f = base_of_fields [OF assms]
  show "base_node_value G g' = base_node_value G g" unfolding base_node_value_def f by (rule refl)
  show "base_edge_value G g' = base_edge_value G g" unfolding base_edge_value_def f by (rule refl)
  show "base_endpoints g' = base_endpoints g" unfolding base_endpoints_def f by (rule refl)
qed

lemma node_reads_cong:
  assumes "base_of g' = base_of g" "node_view (pg_overlay g') (l, i) = node_view (pg_overlay g) (l, i)"
  shows "node_property G g' l i = node_property G g l i" "node_is_live g' l i = node_is_live g l i"
proof -
  note f = base_of_fields [OF assms(1)] base_values_cong [OF assms(1)]
  have v: "((l, i) \<in> ov_deleted_nodes (pg_overlay g')) = ((l, i) \<in> ov_deleted_nodes (pg_overlay g))"
    "map_of (ov_inserted_nodes (pg_overlay g')) (l, i) = map_of (ov_inserted_nodes (pg_overlay g)) (l, i)"
    "map_of (ov_node_overrides (pg_overlay g')) (l, i) = map_of (ov_node_overrides (pg_overlay g)) (l, i)"
    "((l, i) \<in> ov_replaced_nodes (pg_overlay g')) = ((l, i) \<in> ov_replaced_nodes (pg_overlay g))"
    using assms(2) by (simp_all add: node_view_def)
  show "node_property G g' l i = node_property G g l i"
    by (rule ext) (simp only: node_property_layers f v)
  show "node_is_live g' l i = node_is_live g l i" unfolding node_is_live_def f v by (rule refl)
qed

lemma edge_reads_cong:
  assumes "base_of g' = base_of g" "edge_view (pg_overlay g') (r, i) = edge_view (pg_overlay g) (r, i)"
  shows "edge_property G g' r i = edge_property G g r i" "live_edge_endpoints g' r i = live_edge_endpoints g r i"
    "edge_endpoints g' r i = edge_endpoints g r i"
proof -
  note f = base_of_fields [OF assms(1)] base_values_cong [OF assms(1)]
  have v: "((r, i) \<in> ov_deleted_edges (pg_overlay g')) = ((r, i) \<in> ov_deleted_edges (pg_overlay g))"
    "map_of (ov_inserted_edges (pg_overlay g')) (r, i) = map_of (ov_inserted_edges (pg_overlay g)) (r, i)"
    "map_of (ov_edge_overrides (pg_overlay g')) (r, i) = map_of (ov_edge_overrides (pg_overlay g)) (r, i)"
    "((r, i) \<in> ov_replaced_edges (pg_overlay g')) = ((r, i) \<in> ov_replaced_edges (pg_overlay g))"
    using assms(2) by (simp_all add: edge_view_def)
  show "edge_property G g' r i = edge_property G g r i"
    by (rule ext) (simp only: edge_property_layers f v)
  show "edge_endpoints g' r i = edge_endpoints g r i" unfolding edge_endpoints_def f v by (rule refl)
  then show "live_edge_endpoints g' r i = live_edge_endpoints g r i"
    by (simp add: live_edge_endpoints_def edge_is_live_def v)
qed

lemma views_read_fields:
  assumes "read_fields ov' = read_fields ov"
  shows "node_view ov' = node_view ov" "edge_view ov' = edge_view ov"
  using assms by (auto simp: read_fields_def node_view_def edge_view_def)

text \<open>The graph that \<open>set_property\<close> writes the scalar into reads as the original one does.\<close>

lemma read_fields_drop_records [simp]: "read_fields (drop_vertex_records k key ov) = read_fields ov"
  by (simp add: drop_vertex_records_def split: option.split)

lemma set_property_node:
  obtains h where "set_property (V_Node l i) key v g = set_property_scalar (V_Node l i) key v h"
    "base_of h = base_of g" "read_fields (pg_overlay h) = read_fields (pg_overlay g)"
    "pg_pending h = pg_pending g"
proof
  let ?h = "upd_overlay (drop_vertex_records (l, i) key) (hydrate_target (V_Node l i) g)"
  let ?h' = "if contains_cardinality_value v then hydrate_target (V_Node l i) g else ?h"
  show "set_property (V_Node l i) key v g = set_property_scalar (V_Node l i) key v ?h'"
    by (simp add: set_property_def set_property_scalar_def Let_def)
  show "base_of ?h' = base_of g" "read_fields (pg_overlay ?h') = read_fields (pg_overlay g)"
    by (simp_all add: hydrate_target_frame)
  show "pg_pending ?h' = pg_pending g" by (simp add: hydrate_target_frame upd_overlay_def)
qed

lemma set_property_edge:
  obtains h where "set_property (V_Edge r i a b c d e) key v g = set_property_scalar (V_Edge r i a b c d e) key v h"
    "base_of h = base_of g" "read_fields (pg_overlay h) = read_fields (pg_overlay g)"
    "pg_pending h = pg_pending g"
proof
  let ?h = "hydrate_target (V_Edge r i a b c d e) g"
  show "set_property (V_Edge r i a b c d e) key v g = set_property_scalar (V_Edge r i a b c d e) key v ?h"
    by (simp add: set_property_def set_property_scalar_def Let_def)
  show "base_of ?h = base_of g" "read_fields (pg_overlay ?h) = read_fields (pg_overlay g)"
    "pg_pending ?h = pg_pending g"
    by (simp_all add: hydrate_target_frame)
qed

section \<open>Reading what was written\<close>

text \<open>
  C11: \<open>SET n.key = v\<close> on a node that is not deleted: reading the key gives the value
  written, or null when null was written and no other spelling of the key is stored on an
  inserted node.  Every other node, every key that differs beyond letter case, and every
  relationship reads as before.
\<close>

theorem node_property_written:
  assumes "(l, i) \<notin> ov_deleted_nodes (pg_overlay g)" and "\<not> contains_cardinality_value v"
  shows "fst (set_property (V_Node l i) key v g) = Inr () \<and>
    node_property G (snd (set_property (V_Node l i) key v g)) l i key =
      (if v \<noteq> V_Null then v
       else case map_of (ov_inserted_nodes (pg_overlay g)) (l, i) of
         Some ps \<Rightarrow> case_variant key ps | None \<Rightarrow> V_Null) \<and>
    (\<forall>l' i' key'. (l', i') \<noteq> (l, i) \<or> \<not> eq_ignore_case key key' \<longrightarrow>
       node_property G (snd (set_property (V_Node l i) key v g)) l' i' key' = node_property G g l' i' key') \<and>
    (\<forall>r j. edge_property G (snd (set_property (V_Node l i) key v g)) r j = edge_property G g r j)"
proof -
  obtain h where h: "set_property (V_Node l i) key v g = set_property_scalar (V_Node l i) key v h"
    "base_of h = base_of g" "read_fields (pg_overlay h) = read_fields (pg_overlay g)"
    by (rule set_property_node)
  have f: "ov_deleted_nodes (pg_overlay h) = ov_deleted_nodes (pg_overlay g)"
    "ov_inserted_nodes (pg_overlay h) = ov_inserted_nodes (pg_overlay g)"
    using h(3) by (simp_all add: read_fields_def)
  have same: "node_property G h l' i' = node_property G g l' i'" "edge_property G h r j = edge_property G g r j" for l' i' r j
    by (rule node_reads_cong(1) edge_reads_cong(1), rule h(2), simp add: views_read_fields [OF h(3)])+
  have frame: "edge_property G (snd (set_property_scalar (V_Node l i) key v h)) r j = edge_property G h r j" for r j
    by (rule edge_reads_cong(1)) (simp_all add: set_property_scalar_def edge_view_def set_node_scalar_fields)
  show ?thesis
    unfolding h(1)
  proof (intro conjI allI impI)
    show "fst (set_property_scalar (V_Node l i) key v h) = Inr ()"
      using assms by (simp add: set_property_scalar_def)
    show "node_property G (snd (set_property_scalar (V_Node l i) key v h)) l i key =
        (if v \<noteq> V_Null then v else case map_of (ov_inserted_nodes (pg_overlay g)) (l, i) of
           Some ps \<Rightarrow> case_variant key ps | None \<Rightarrow> V_Null)"
      using node_property_set_same [of l i h v G key] assms unfolding f by blast
    show "node_property G (snd (set_property_scalar (V_Node l i) key v h)) l' i' key' = node_property G g l' i' key'"
      if "(l', i') \<noteq> (l, i) \<or> \<not> eq_ignore_case key key'" for l' i' key'
      using node_property_set_other [OF that, of G v h] unfolding same .
    show "edge_property G (snd (set_property_scalar (V_Node l i) key v h)) r j = edge_property G g r j" for r j
      using frame unfolding same .
  qed
qed

definition write_demo :: property_graph where
  "write_demo = new_graph\<lparr>pg_overlay := empty_overlay\<lparr>ov_inserted_nodes := [((''P'', eid_of_i64 0), [(''Name'', V_Int 3)])]\<rparr>\<rparr>"

theorem node_property_written_witness:
  "node_property text_graph_lib (snd (set_property (V_Node ''P'' (eid_of_i64 0)) ''age'' (V_Int 7) write_demo))
     ''P'' (eid_of_i64 0) ''age'' = V_Int 7 \<and>
   node_property text_graph_lib (snd (set_property (V_Node ''P'' (eid_of_i64 0)) ''age'' (V_Int 7) write_demo))
     ''P'' (eid_of_i64 0) ''Name'' = V_Int 3"
proof -
  have "\<not> eq_ignore_case ''age'' ''Name''" by code_simp
  moreover have "node_property text_graph_lib write_demo ''P'' (eid_of_i64 0) ''Name'' = V_Int 3"
    by (simp add: node_property_layers write_demo_def empty_overlay_def map_property_value_def
        map_property_value_if_present_def)
  moreover have "(''P'', eid_of_i64 0) \<notin> ov_deleted_nodes (pg_overlay write_demo)"
    by (simp add: write_demo_def empty_overlay_def)
  ultimately show ?thesis
    using node_property_written [of "''P''" "eid_of_i64 0" write_demo "V_Int 7" "''age''" text_graph_lib] by simp
qed

text \<open>
  \<open>SET r.key = v\<close> on a relationship that is not deleted, with the same guarantees: the
  key reads as the value written, and every other relationship, key and node is untouched.
\<close>

theorem edge_property_written:
  assumes "(r, i) \<notin> ov_deleted_edges (pg_overlay g)" and "\<not> contains_cardinality_value v"
  shows "fst (set_property (V_Edge r i sl s dl d p) key v g) = Inr () \<and>
    edge_property G (snd (set_property (V_Edge r i sl s dl d p) key v g)) r i key =
      (if v \<noteq> V_Null then v
       else case map_of (ov_inserted_edges (pg_overlay g)) (r, i) of
         Some e \<Rightarrow> case_variant key (ie_props e) | None \<Rightarrow> V_Null) \<and>
    (\<forall>r' i' key'. (r', i') \<noteq> (r, i) \<or> \<not> eq_ignore_case key key' \<longrightarrow>
       edge_property G (snd (set_property (V_Edge r i sl s dl d p) key v g)) r' i' key' = edge_property G g r' i' key') \<and>
    (\<forall>l j. node_property G (snd (set_property (V_Edge r i sl s dl d p) key v g)) l j = node_property G g l j)"
proof -
  obtain h where h: "set_property (V_Edge r i sl s dl d p) key v g = set_property_scalar (V_Edge r i sl s dl d p) key v h"
    "base_of h = base_of g" "read_fields (pg_overlay h) = read_fields (pg_overlay g)"
    by (rule set_property_edge)
  have f: "ov_deleted_edges (pg_overlay h) = ov_deleted_edges (pg_overlay g)"
    "ov_inserted_edges (pg_overlay h) = ov_inserted_edges (pg_overlay g)"
    using h(3) by (simp_all add: read_fields_def)
  have same: "node_property G h l' i' = node_property G g l' i'" "edge_property G h r j = edge_property G g r j" for l' i' r j
    by (rule node_reads_cong(1) edge_reads_cong(1), rule h(2), simp add: views_read_fields [OF h(3)])+
  obtain ns where "drop_null_key (r, i) [key] (pg_overlay h) = (pg_overlay h)\<lparr>ov_edge_nulls := ns\<rparr>"
    using drop_null_key_shape by blast
  then have frame: "node_property G (snd (set_property_scalar (V_Edge r i sl s dl d p) key v h)) l j = node_property G h l j" for l j
    by (intro node_reads_cong(1)) (simp_all add: set_property_scalar_def node_view_def set_edge_scalar_fields)
  show ?thesis
    unfolding h(1)
  proof (intro conjI allI impI)
    show "fst (set_property_scalar (V_Edge r i sl s dl d p) key v h) = Inr ()"
      using assms by (simp add: set_property_scalar_def)
    show "edge_property G (snd (set_property_scalar (V_Edge r i sl s dl d p) key v h)) r i key =
        (if v \<noteq> V_Null then v else case map_of (ov_inserted_edges (pg_overlay g)) (r, i) of
           Some e \<Rightarrow> case_variant key (ie_props e) | None \<Rightarrow> V_Null)"
      using edge_property_set_same [of r i h v G sl s dl d p key] assms unfolding f by blast
    show "edge_property G (snd (set_property_scalar (V_Edge r i sl s dl d p) key v h)) r' i' key' = edge_property G g r' i' key'"
      if "(r', i') \<noteq> (r, i) \<or> \<not> eq_ignore_case key key'" for r' i' key'
      using edge_property_set_other [OF that, of G sl s dl d p v h] unfolding same .
    show "node_property G (snd (set_property_scalar (V_Edge r i sl s dl d p) key v h)) l j = node_property G g l j" for l j
      using frame unfolding same .
  qed
qed

theorem edge_property_written_witness:
  "edge_property text_graph_lib (snd (set_property
      (V_Edge ''R'' (eid_of_i64 0) ''P'' (eid_of_i64 0) ''P'' (eid_of_i64 1) None) ''w'' (V_Int 9) write_demo))
     ''R'' (eid_of_i64 0) ''w'' = V_Int 9"
proof -
  have "(''R'', eid_of_i64 0) \<notin> ov_deleted_edges (pg_overlay write_demo)"
    by (simp add: write_demo_def empty_overlay_def)
  then show ?thesis
    using edge_property_written [of "''R''" "eid_of_i64 0" write_demo "V_Int 9" "''P''" "eid_of_i64 0" "''P''"
      "eid_of_i64 1" None "''w''" text_graph_lib] by simp
qed

text \<open>
  Removing a property of a node created in the session does not always make it read as
  null.  Reads fall back to the single stored key that differs in letter case only, and the
  removal drops the exact key: when only \<open>Name\<close> is stored, \<open>REMOVE n.name\<close> leaves
  \<open>n.name\<close> reading the value of \<open>Name\<close>, as it did before.  For a stored row the same
  statement reads null afterwards.
\<close>

theorem removed_property_reads_variant:
  assumes "(l, i) \<notin> ov_deleted_nodes (pg_overlay g)"
    and "map_of (ov_inserted_nodes (pg_overlay g)) (l, i) = Some ps"
    and "filter (\<lambda>e. eq_ignore_case (fst e) key \<and> fst e \<noteq> key) ps = [(other, v)]"
  shows "node_property G (snd (set_property (V_Node l i) key V_Null g)) l i key = v"
proof -
  obtain h where h: "set_property (V_Node l i) key V_Null g = set_property_scalar (V_Node l i) key V_Null h"
    "read_fields (pg_overlay h) = read_fields (pg_overlay g)"
    by (rule set_property_node)
  then show ?thesis
    using assms node_property_set_same [of l i h V_Null G key]
    by (simp add: read_fields_def case_variant_def only_def)
qed

theorem removed_property_reads_variant_witness:
  "node_property text_graph_lib (snd (set_property (V_Node ''P'' (eid_of_i64 0)) ''name'' V_Null write_demo))
     ''P'' (eid_of_i64 0) ''name'' = V_Int 3"
proof (rule removed_property_reads_variant)
  show "(''P'', eid_of_i64 0) \<notin> ov_deleted_nodes (pg_overlay write_demo)"
    "map_of (ov_inserted_nodes (pg_overlay write_demo)) (''P'', eid_of_i64 0) = Some [(''Name'', V_Int 3)]"
    by (simp_all add: write_demo_def empty_overlay_def)
  have "eq_ignore_case ''Name'' ''name''" by code_simp
  then show "filter (\<lambda>e. eq_ignore_case (fst e) ''name'' \<and> fst e \<noteq> ''name'') [(''Name'', V_Int 3)] = [(''Name'', V_Int 3)]"
    by simp
qed

section \<open>Every change is recorded as pending\<close>

text \<open>
  \<open>touches g g'\<close>: the base tables are the same, the pending sets only grow, and what the
  overlay says of an element outside them is unchanged.
\<close>

definition touches :: "property_graph \<Rightarrow> property_graph \<Rightarrow> bool" where
  "touches g g' \<longleftrightarrow> base_of g' = base_of g \<and>
     pc_nodes (pg_pending g) \<subseteq> pc_nodes (pg_pending g') \<and> pc_edges (pg_pending g) \<subseteq> pc_edges (pg_pending g') \<and>
     (\<forall>k. k \<notin> pc_nodes (pg_pending g') \<longrightarrow> node_view (pg_overlay g') k = node_view (pg_overlay g) k) \<and>
     (\<forall>k. k \<notin> pc_edges (pg_pending g') \<longrightarrow> edge_view (pg_overlay g') k = edge_view (pg_overlay g) k)"

lemma touches_refl [simp]: "touches g g"
  by (simp add: touches_def)

lemma touches_trans:
  assumes "touches g h" "touches h k"
  shows "touches g k"
  unfolding touches_def
proof (intro conjI allI impI)
  show "base_of k = base_of g" using assms by (simp add: touches_def)
  show n: "pc_nodes (pg_pending g) \<subseteq> pc_nodes (pg_pending k)" and e: "pc_edges (pg_pending g) \<subseteq> pc_edges (pg_pending k)"
    using assms by (auto simp: touches_def)
  show "node_view (pg_overlay k) a = node_view (pg_overlay g) a" if "a \<notin> pc_nodes (pg_pending k)" for a
  proof -
    have "a \<notin> pc_nodes (pg_pending h)" using that assms(2) by (auto simp: touches_def)
    then show ?thesis using that assms by (cases a) (simp add: touches_def)
  qed
  show "edge_view (pg_overlay k) a = edge_view (pg_overlay g) a" if "a \<notin> pc_edges (pg_pending k)" for a
  proof -
    have "a \<notin> pc_edges (pg_pending h)" using that assms(2) by (auto simp: touches_def)
    then show ?thesis using that assms by (cases a) (simp add: touches_def)
  qed
qed

lemma touches_mark [simp]: "touches g (mark_node k g)" "touches g (mark_edge k g)"
  by (auto simp: touches_def) (auto simp: mark_node_def mark_edge_def)

lemma touches_same_reads:
  assumes "base_of h = base_of g" "pg_pending h = pg_pending g" "read_fields (pg_overlay h) = read_fields (pg_overlay g)"
  shows "touches g h"
  using assms(1,2) views_read_fields [OF assms(3)] by (simp add: touches_def)

lemma touches_upd:
  assumes "\<And>k. k \<notin> pc_nodes (pg_pending g) \<Longrightarrow> node_view (f (pg_overlay g)) k = node_view (pg_overlay g) k"
    and "\<And>k. k \<notin> pc_edges (pg_pending g) \<Longrightarrow> edge_view (f (pg_overlay g)) k = edge_view (pg_overlay g) k"
  shows "touches g (upd_overlay f g)"
proof -
  have "pg_pending (upd_overlay f g) = pg_pending g" by (simp add: upd_overlay_def)
  then show ?thesis using assms by (simp add: touches_def)
qed

lemma touches_node_write:
  assumes "\<And>j. j \<noteq> k \<Longrightarrow> node_view (f (pg_overlay g)) j = node_view (pg_overlay g) j"
    and "edge_view (f (pg_overlay g)) = edge_view (pg_overlay g)"
  shows "touches g (upd_overlay f (mark_node k g))" "touches g (mark_node k (upd_overlay f g))"
proof -
  have "touches (mark_node k g) (upd_overlay f (mark_node k g))"
    by (rule touches_upd) (auto simp: assms, auto simp: mark_node_def assms)
  then show "touches g (upd_overlay f (mark_node k g))" by (rule touches_trans [OF touches_mark(1)])
  moreover have "upd_overlay f (mark_node k g) = mark_node k (upd_overlay f g)"
    by (simp add: upd_overlay_def mark_node_def)
  ultimately show "touches g (mark_node k (upd_overlay f g))" by simp
qed

lemma touches_edge_write:
  assumes "\<And>j. j \<noteq> k \<Longrightarrow> edge_view (f (pg_overlay g)) j = edge_view (pg_overlay g) j"
    and "node_view (f (pg_overlay g)) = node_view (pg_overlay g)"
  shows "touches g (upd_overlay f (mark_edge k g))" "touches g (mark_edge k (upd_overlay f g))"
proof -
  have "touches (mark_edge k g) (upd_overlay f (mark_edge k g))"
    by (rule touches_upd) (auto simp: assms, auto simp: mark_edge_def assms)
  then show "touches g (upd_overlay f (mark_edge k g))" by (rule touches_trans [OF touches_mark(2)])
  moreover have "upd_overlay f (mark_edge k g) = mark_edge k (upd_overlay f g)"
    by (simp add: upd_overlay_def mark_edge_def)
  ultimately show "touches g (mark_edge k (upd_overlay f g))" by simp
qed

lemma store_node_views:
  "edge_view (store_node k c ps ov) = edge_view ov" "j \<noteq> k \<Longrightarrow> node_view (store_node k c ps ov) j = node_view ov j"
  by (auto simp: store_node_def node_view_def edge_view_def update_conv')

lemma touches_insert_node: "touches g (snd (try_insert_node_with_key G label ps supplied g))"
proof -
  have "touches g (mark_node k (upd_overlay (store_node k c ps) g))" for k c ps
    by (rule touches_node_write) (simp_all add: store_node_views)
  then show ?thesis by (simp add: try_insert_node_with_key_def Let_def split: sum.split prod.split)
qed

lemma reopen_slot_views:
  "node_view (reopen_slot k ov) = node_view ov" "j \<noteq> k \<Longrightarrow> edge_view (reopen_slot k ov) j = edge_view ov j"
  by (auto simp: reopen_slot_def node_view_def edge_view_def Let_def split: option.split)

lemma store_edge_views:
  "node_view (store_edge k c s d child ps ov) = node_view ov"
  "j \<noteq> k \<Longrightarrow> edge_view (store_edge k c s d child ps ov) j = edge_view ov j"
  using reopen_slot_views [where k = k and ov = "ov\<lparr>ov_edge_counts := al_upd 0 (\<lambda>n. n + 1) (fst k) (ov_edge_counts ov)\<rparr>"]
  by (auto simp: store_edge_def Let_def node_view_def edge_view_def update_conv' fun_eq_iff)

lemma touches_insert_edge: "touches g (snd (insert_edge_with_key G rel src dst ps supplied g))"
proof -
  have "touches g (mark_edge k (upd_overlay (store_edge k c s d child ps) g))" for k c s d child ps
    by (rule touches_edge_write) (simp_all add: store_edge_views)
  then show ?thesis by (simp add: insert_edge_with_key_def Let_def split: sum.split prod.split)
qed

lemma set_node_scalar_views:
  "edge_view (set_node_scalar k key v ov) = edge_view ov"
  "j \<noteq> k \<Longrightarrow> node_view (set_node_scalar k key v ov) j = node_view ov j"
  by (auto simp: node_view_def edge_view_def set_node_scalar_fields split: option.split)

lemma set_edge_scalar_views:
  "node_view (set_edge_scalar k key v ov) = node_view ov"
  "j \<noteq> k \<Longrightarrow> edge_view (set_edge_scalar k key v ov) j = edge_view ov j"
  by (auto simp: node_view_def edge_view_def set_edge_scalar_fields split: option.split)

lemma drop_null_key_views [simp]:
  "node_view (drop_null_key k keys ov) = node_view ov" "edge_view (drop_null_key k keys ov) = edge_view ov"
  using drop_null_key_shape [of k keys ov] by (auto simp: node_view_def edge_view_def)

lemma touches_set_scalar: "touches g (snd (set_property_scalar target key v g))"
proof -
  have "touches g (upd_overlay (set_node_scalar k key v) (mark_node k g))" for k
    by (rule touches_node_write) (simp_all add: set_node_scalar_views)
  moreover have "touches g (upd_overlay (\<lambda>ov. set_edge_scalar k key v (drop_null_key k [key] ov)) (mark_edge k g))" for k
    by (rule touches_edge_write) (simp_all add: set_edge_scalar_views)
  ultimately show ?thesis by (simp add: set_property_scalar_def split: val.split)
qed

lemma touches_hydrate [simp]: "touches g (hydrate_target v g)" "touches g (hydrate_native_state e n i g)"
  by (simp_all add: touches_same_reads hydrate_target_frame hydrate_frame)

lemma read_fields_records [simp]:
  "read_fields (upd_records k key f ov) = read_fields ov"
  "read_fields (clear_vertex_records k keys replace ov) = read_fields ov"
  by (simp_all add: upd_records_def clear_vertex_records_def split: option.split)

lemma touches_upd_reads: "read_fields (f (pg_overlay g)) = read_fields (pg_overlay g) \<Longrightarrow> touches g (upd_overlay f g)"
  by (rule touches_same_reads) (simp_all add: upd_overlay_def)

lemma touches_record_write:
  "touches g (mark_node k (upd_overlay (upd_records k' pk f) (hydrate_native_state False l i g)))"
  by (rule touches_trans [OF touches_hydrate(2) touches_trans [OF touches_upd_reads touches_mark(1)]]) simp

lemma touches_set_meta: "touches g (snd (set_meta_property target key v g))"
  by (simp add: set_meta_property_def Let_def touches_record_write split: val.split option.split)

lemma touches_set_property: "touches g (snd (set_property target key v g))"
proof -
  let ?h = "hydrate_target target g"
  have "touches ?h (upd_overlay (drop_vertex_records k key) ?h)" for k by (rule touches_upd_reads) simp
  then have "touches ?h (snd (set_property_scalar target key v (upd_overlay (drop_vertex_records k key) ?h)))" for k
    by (rule touches_trans) (rule touches_set_scalar)
  then have "touches ?h (snd (set_property target key v g))"
    by (auto simp: set_property_def Let_def touches_set_scalar touches_set_meta split: val.split)
  then show ?thesis by (rule touches_trans [OF touches_hydrate(1)])
qed

lemma put_properties_views:
  "edge_view (put_node_properties k ps replace ov) = edge_view ov"
  "j \<noteq> k \<Longrightarrow> node_view (put_node_properties k ps replace ov) j = node_view ov j"
  "node_view (put_edge_properties k ps replace ov) = node_view ov"
  "j \<noteq> k \<Longrightarrow> edge_view (put_edge_properties k ps replace ov) j = edge_view ov j"
  by (auto simp: put_node_properties_def put_edge_properties_def node_view_def edge_view_def update_conv' Let_def
      split: option.split)

lemma clear_edge_nulls_views [simp]:
  "node_view (clear_edge_nulls k keys replace ov) = node_view ov"
  "edge_view (clear_edge_nulls k keys replace ov) = edge_view ov"
  unfolding clear_edge_nulls_def by (simp_all) (simp_all add: node_view_def edge_view_def fun_eq_iff)

lemma touches_set_properties: "touches g (snd (set_properties target ps replace g))"
proof -
  have clear: "touches h (upd_overlay (clear_vertex_records k keys replace) h)" for h k keys
    by (rule touches_upd_reads) simp
  have put: "touches h (upd_overlay (put_node_properties k ps replace)
      (mark_node k (upd_overlay (clear_vertex_records k keys replace) h)))" for h k keys
    by (rule touches_trans [OF clear], rule touches_node_write) (simp_all add: put_properties_views)
  have edge: "touches h (upd_overlay (\<lambda>ov. put_edge_properties k ps replace (clear_edge_nulls k keys replace ov))
      (mark_edge k h))" for h k keys
    by (rule touches_edge_write) (simp_all add: put_properties_views)
  have "touches (hydrate_target target g) (snd (set_properties target ps replace g))"
    by (simp add: set_properties_def Let_def clear put edge split: val.split)
  then show ?thesis by (rule touches_trans [OF touches_hydrate(1)])
qed

lemma touches_remove_property: "touches g (snd (remove_property target g))"
proof -
  have del: "touches g (snd (set_property_scalar t key v (upd_overlay (upd_records k pk f) (hydrate_native_state False l i g))))"
    for t key v k pk f l i
    by (rule touches_trans [OF touches_hydrate(2) touches_trans [OF touches_upd_reads touches_set_scalar]]) simp
  show ?thesis
    by (simp add: remove_property_def Let_def touches_record_write del touches_set_property split: val.split option.split)
qed

lemma touches_delete_edges: "touches g (delete_edges es g)"
  unfolding delete_edges_def
proof (induction es arbitrary: g)
  case (Cons e es)
  obtain r i l n where e: "e = (r, i, l, n)" by (cases e)
  have "touches g (mark_edge (r, i) (upd_overlay (\<lambda>ov. ov\<lparr>ov_deleted_edges := insert (r, i) (ov_deleted_edges ov)\<rparr>) g))"
    by (rule touches_edge_write) (auto simp: node_view_def edge_view_def)
  then show ?case using Cons.IH by (simp add: e) (rule touches_trans)
qed simp

lemma touches_delete_value: "touches g (snd (delete_value G target detach g))"
proof -
  have node: "touches h (mark_node k (upd_overlay (\<lambda>ov. ov\<lparr>ov_deleted_nodes := insert k (ov_deleted_nodes ov)\<rparr>) h))" for h k
    by (rule touches_node_write) (auto simp: node_view_def edge_view_def)
  have edge: "touches h (mark_edge k (upd_overlay (\<lambda>ov. ov\<lparr>ov_deleted_edges := insert k (ov_deleted_edges ov)\<rparr>) h))" for h k
    by (rule touches_edge_write) (auto simp: node_view_def edge_view_def)
  show ?thesis
    by (simp add: delete_value_def Let_def node edge touches_remove_property touches_trans [OF touches_delete_edges node]
        split: val.split)
qed

lemma touches_set_labels: "touches g (snd (set_node_labels v ls g))"
proof -
  have "touches g (mark_node k (upd_overlay (\<lambda>ov. ov\<lparr>ov_label_sets := AList.update k (set ls) (ov_label_sets ov)\<rparr>) g))" for k
    by (rule touches_node_write) (auto simp: node_view_def edge_view_def)
  then show ?thesis by (simp add: set_node_labels_def split: val.split)
qed


section \<open>Sequences of writes\<close>

datatype write_op =
    W_InsertNode string props "val option"
  | W_InsertEdge string val val props "val option"
  | W_SetProperty val string val
  | W_SetProperties val props bool
  | W_SetLabels val "string list"
  | W_RemoveProperty val
  | W_Delete val bool

fun apply_write :: "graph_lib \<Rightarrow> write_op \<Rightarrow> property_graph \<Rightarrow> property_graph" where
  "apply_write G (W_InsertNode label ps key) g = snd (try_insert_node_with_key G label ps key g)"
| "apply_write G (W_InsertEdge rel src dst ps key) g = snd (insert_edge_with_key G rel src dst ps key g)"
| "apply_write G (W_SetProperty target key v) g = snd (set_property target key v g)"
| "apply_write G (W_SetProperties target ps replace) g = snd (set_properties target ps replace g)"
| "apply_write G (W_SetLabels target ls) g = snd (set_node_labels target ls g)"
| "apply_write G (W_RemoveProperty target) g = snd (remove_property target g)"
| "apply_write G (W_Delete target detach) g = snd (delete_value G target detach g)"

lemmas touches_write = touches_insert_node touches_insert_edge touches_set_property touches_set_properties
  touches_set_labels touches_remove_property touches_delete_value

lemma touches_apply_write: "touches g (apply_write G op g)"
  by (cases op) (simp_all add: touches_write)

lemma touches_writes: "touches g (fold (apply_write G) ops g)"
proof (induction ops arbitrary: g)
  case (Cons op ops)
  show ?case using touches_trans [OF touches_apply_write Cons.IH] by simp
qed simp




end
