(* ===== verification/Graph_Session.thy ===== *)
theory Graph_Session
  imports Graph_Properties
begin

text \<open>
  Sessions over an in-memory graph: no external source and no mapping, base tables keyed by
  row numbers.  The invariant of the overlay (adjacency lists, identities handed out, deleted
  elements, no dangling relationships), its preservation by every write, the interface that
  clients of the neighbour lists rely on, and the refinement of every write to an abstract
  graph of nodes and relationships.
\<close>

section \<open>The base of a session\<close>

text \<open>The three per-type maps of the base edge tables have the same relationship types.\<close>

definition types_wf :: "property_graph \<Rightarrow> bool" where
  "types_wf g \<longleftrightarrow> (\<forall>r. (map_of (pg_edges g) r = None \<longleftrightarrow> map_of (pg_edge_tables g) r = None) \<and>
     (map_of (pg_edge_counts g) r = None \<longleftrightarrow> map_of (pg_edge_tables g) r = None))"

definition unwritten :: "property_graph \<Rightarrow> bool" where
  "unwritten g \<longleftrightarrow> pg_source g = None \<and> pg_mapping g = None \<and> pg_overlay g = empty_overlay"

lemma add_keyed_edges_types:
  assumes "add_keyed_edges t keys g = (Inr (), g')"
  shows "map_of (pg_edges g') r = None \<longleftrightarrow> map_of (pg_edges g) r = None \<and> r \<noteq> et_rel_type t"
    "map_of (pg_edge_tables g') r = None \<longleftrightarrow> map_of (pg_edge_tables g) r = None \<and> r \<noteq> et_rel_type t"
proof -
  have e: "pg_edges (fold (add_edge_row t n) es h) = pg_edges h"
    "pg_edge_tables (fold (add_edge_row t n) es h) = pg_edge_tables h" for n es h
    by (induction es arbitrary: h) (simp_all add: add_edge_row_def split: prod.split)
  show "map_of (pg_edges g') r = None \<longleftrightarrow> map_of (pg_edges g) r = None \<and> r \<noteq> et_rel_type t"
    "map_of (pg_edge_tables g') r = None \<longleftrightarrow> map_of (pg_edge_tables g) r = None \<and> r \<noteq> et_rel_type t"
    using assms by (auto simp: add_keyed_edges_def Let_def e update_conv' split: if_splits sum.splits)
qed

lemma built_types: "built g \<Longrightarrow> types_wf g \<and> unwritten g"
proof (induction rule: built.induct)
  case built_new
  show ?case by (simp add: types_wf_def unwritten_def new_graph_def)
next
  case (built_nodes g t keys r g')
  show ?case
  proof (cases r)
    case (Inl e)
    then show ?thesis using built_nodes add_keyed_nodes_error by metis
  next
    case (Inr u)
    then have "add_keyed_nodes t keys g = (Inr (), g')" using built_nodes by simp
    from add_keyed_nodes_fields [OF this] show ?thesis
      using built_nodes.IH by (simp add: types_wf_def unwritten_def)
  qed
next
  case (built_edges g t keys r g')
  show ?case
  proof (cases r)
    case (Inl e)
    then obtain b where "g' = g\<lparr>pg_source_keys := pg_source_keys g \<or> b\<rparr>"
      using built_edges add_keyed_edges_error by metis
    then show ?thesis using built_edges.IH by (simp add: types_wf_def unwritten_def)
  next
    case (Inr u)
    then have ok: "add_keyed_edges t keys g = (Inr (), g')" using built_edges by simp
    show ?thesis
      using built_edges.IH add_keyed_edges_types [OF ok] add_keyed_edges_fields [OF ok]
      by (simp add: types_wf_def unwritten_def)
  qed
qed

text \<open>A session base: built from tables, keyed by row numbers, of a size that row numbers can count.\<close>

definition session_base :: "property_graph \<Rightarrow> bool" where
  "session_base g \<longleftrightarrow> base_wf g \<and> keys_wf g \<and> types_wf g \<and> \<not> pg_source_keys g \<and>
     pg_source g = None \<and> pg_mapping g = None \<and>
     (\<forall>l. length (al_default [] (pg_node_keys g) l) < 2 ^ 63) \<and>
     (\<forall>r. length (al_default [] (pg_edge_keys g) r) < 2 ^ 63)"

lemma session_base_cong:
  assumes "base_of g' = base_of g"
  shows "session_base g' = session_base g"
proof -
  note f = base_of_fields [OF assms] base_values_cong [OF assms]
  show ?thesis
    unfolding session_base_def base_wf_def keys_wf_def types_wf_def edge_count_def f by (rule refl)
qed

lemma base_node_rows:
  assumes "session_base g"
  shows "node_base_rows g l = of_nat (length (al_default [] (pg_node_keys g) l))"
  using assms keys_wfD(3) [of g l] by (simp add: session_base_def node_base_rows_def split: option.split)

lemma base_edge_rows:
  assumes "session_base g"
  shows "edge_base_rows g r = of_nat (length (al_default [] (pg_edge_keys g) r))"
proof -
  have "edge_base_rows g r = edge_count g r"
  proof (cases "map_of (pg_edge_counts g) r")
    case None
    then have "map_of (pg_edges g) r = None" using assms unfolding session_base_def types_wf_def by blast
    with None show ?thesis by (simp add: edge_base_rows_def edge_count_def al_default_def)
  qed (simp add: edge_base_rows_def edge_count_def al_default_def)
  then show ?thesis using assms keys_wfD(4) [of g r] by (simp add: session_base_def)
qed

lemma eid_of_i64_inject [simp]: "eid_of_i64 a = eid_of_i64 b \<longleftrightarrow> a = b"
  by (simp add: eid_of_i64_def)

lemma of_nat_i64_inject: "m < 2 ^ 64 \<Longrightarrow> n < 2 ^ 64 \<Longrightarrow> (of_nat m :: i64) = of_nat n \<longleftrightarrow> m = n"
  by (auto simp: word_of_nat_eq_iff take_bit_nat_eq_self)

lemma base_keys_numbered:
  assumes "session_base g"
  shows "map_of (pg_node_locations g) (l, eid_of_i64 (of_nat n)) \<noteq> None \<Longrightarrow> n < 2 ^ 64 \<Longrightarrow>
      n < length (al_default [] (pg_node_keys g) l)"
    "map_of (pg_edge_locations g) (r, eid_of_i64 (of_nat n)) \<noteq> None \<Longrightarrow> n < 2 ^ 64 \<Longrightarrow>
      n < length (al_default [] (pg_edge_keys g) r)"
proof -
  have k: "keys_wf g" "\<not> pg_source_keys g" "length (al_default [] (pg_node_keys g) l) < 2 ^ 63"
    "length (al_default [] (pg_edge_keys g) r) < 2 ^ 63"
    using assms by (auto simp: session_base_def)
  have num: "n < length ks" if r: "rows_numbered ks" and mem: "eid_of_i64 (of_nat n) \<in> set ks"
    and small: "length ks < 2 ^ 63" "n < 2 ^ 64" for ks
  proof -
    obtain m where m: "m < length ks" "eid_of_i64 (of_nat n) = eid_of_i64 (of_nat m)"
      using r mem unfolding rows_numbered_def by blast
    then have "(of_nat n :: i64) = of_nat m" by simp
    moreover have "m < 2 ^ 64" using m(1) small(1) by simp
    ultimately have "n = m" using small(2) by (simp only: of_nat_i64_inject)
    with m(1) show ?thesis by simp
  qed
  show "n < length (al_default [] (pg_node_keys g) l)"
    if "map_of (pg_node_locations g) (l, eid_of_i64 (of_nat n)) \<noteq> None" "n < 2 ^ 64"
    using that num k keys_wfD(1,5) [OF k(1)] by blast
  show "n < length (al_default [] (pg_edge_keys g) r)"
    if "map_of (pg_edge_locations g) (r, eid_of_i64 (of_nat n)) \<noteq> None" "n < 2 ^ 64"
    using that num k keys_wfD(2,6) [OF k(1)] by blast
qed

lemma base_edge_type:
  assumes "session_base g" "base_endpoints g r i = Some q"
  shows "r \<in> fst ` set (pg_edges g)" "map_of (pg_edge_locations g) (r, i) \<noteq> None"
proof -
  have "map_of (pg_edge_tables g) r \<noteq> None" "map_of (pg_edge_locations g) (r, i) \<noteq> None"
    using assms(2) by (auto simp: base_endpoints_def split: option.splits)
  then show "r \<in> fst ` set (pg_edges g)" "map_of (pg_edge_locations g) (r, i) \<noteq> None"
    using assms(1) by (auto simp: session_base_def types_wf_def map_of_eq_None_iff)
qed

section \<open>The invariant of a session\<close>

definition ends :: "graph_overlay \<Rightarrow> addr \<Rightarrow> (addr \<times> addr) option" where
  "ends ov k = map_option (\<lambda>e. (ie_src e, ie_dst e)) (map_of (ov_inserted_edges ov) k)"

definition has_node :: "graph_overlay \<Rightarrow> addr \<Rightarrow> bool" where
  "has_node ov k \<longleftrightarrow> map_of (ov_inserted_nodes ov) k \<noteq> None"

text \<open>The overlay up to property values: what liveness, endpoints and adjacency depend on.\<close>

definition skeleton :: "graph_overlay \<Rightarrow> _" where
  "skeleton ov = (ov_deleted_nodes ov, has_node ov, ov_deleted_edges ov, ends ov,
     al_default [] (ov_out_adj ov), al_default [] (ov_in_adj ov),
     al_default 0 (ov_node_counts ov), al_default 0 (ov_edge_counts ov))"

text \<open>Row numbers handed out after the base rows.\<close>

definition issued :: "nat \<Rightarrow> i64 \<Rightarrow> element_id \<Rightarrow> bool" where
  "issued base cnt i \<longleftrightarrow> (\<exists>n. base \<le> n \<and> n < base + unat cnt \<and> i = eid_of_i64 (of_nat n))"

definition node_rows :: "property_graph \<Rightarrow> string \<Rightarrow> nat" where
  "node_rows g l = length (al_default [] (pg_node_keys g) l)"

definition edge_rows :: "property_graph \<Rightarrow> string \<Rightarrow> nat" where
  "edge_rows g r = length (al_default [] (pg_edge_keys g) r)"

definition adjacency_inv :: "graph_overlay \<Rightarrow> bool" where
  "adjacency_inv ov \<longleftrightarrow>
     (\<forall>a k. k \<in> set (al_default [] (ov_out_adj ov) a) \<longleftrightarrow> (\<exists>d. ends ov k = Some (a, d))) \<and>
     (\<forall>a k. k \<in> set (al_default [] (ov_in_adj ov) a) \<longleftrightarrow> (\<exists>s. ends ov k = Some (s, a)))"

definition ids_inv :: "property_graph \<Rightarrow> bool" where
  "ids_inv g \<longleftrightarrow>
     (\<forall>l. node_rows g l + unat (al_default 0 (ov_node_counts (pg_overlay g)) l) < 2 ^ 64) \<and>
     (\<forall>r. edge_rows g r + unat (al_default 0 (ov_edge_counts (pg_overlay g)) r) < 2 ^ 64) \<and>
     (\<forall>l i. has_node (pg_overlay g) (l, i) \<longrightarrow> issued (node_rows g l) (al_default 0 (ov_node_counts (pg_overlay g)) l) i) \<and>
     (\<forall>r i. ends (pg_overlay g) (r, i) \<noteq> None \<longrightarrow> issued (edge_rows g r) (al_default 0 (ov_edge_counts (pg_overlay g)) r) i)"

definition deleted_inv :: "property_graph \<Rightarrow> bool" where
  "deleted_inv g \<longleftrightarrow>
     (\<forall>l i. (l, i) \<in> ov_deleted_nodes (pg_overlay g) \<longrightarrow>
        has_node (pg_overlay g) (l, i) \<or> map_of (pg_node_locations g) (l, i) \<noteq> None) \<and>
     (\<forall>r i. (r, i) \<in> ov_deleted_edges (pg_overlay g) \<longrightarrow> edge_endpoints g r i \<noteq> None)"

definition no_dangling :: "property_graph \<Rightarrow> bool" where
  "no_dangling g \<longleftrightarrow> (\<forall>r i sl s dl d. live_edge_endpoints g r i = Some (sl, s, dl, d) \<longrightarrow>
     (sl, s) \<notin> ov_deleted_nodes (pg_overlay g) \<and> (dl, d) \<notin> ov_deleted_nodes (pg_overlay g))"

definition graph_inv :: "property_graph \<Rightarrow> bool" where
  "graph_inv g \<longleftrightarrow> session_base g \<and> adjacency_inv (pg_overlay g) \<and> ids_inv g \<and> deleted_inv g \<and> no_dangling g"

lemma edge_endpoints_ends:
  assumes "pg_source g = None"
  shows "edge_endpoints g r i =
    (case ends (pg_overlay g) (r, i) of
       Some ((sl, s), (dl, d)) \<Rightarrow> Some (sl, s, dl, d) | None \<Rightarrow> base_endpoints g r i)"
  using assms by (simp add: edge_endpoints_def ends_def ie_src_def ie_dst_def split: option.split)

lemma node_is_live_iff:
  "pg_source g = None \<Longrightarrow> node_is_live g l i \<longleftrightarrow>
    (l, i) \<notin> ov_deleted_nodes (pg_overlay g) \<and>
    (has_node (pg_overlay g) (l, i) \<or> map_of (pg_node_locations g) (l, i) \<noteq> None)"
  by (simp add: node_is_live_def has_node_def)

lemma skeleton_fields:
  assumes "skeleton ov' = skeleton ov"
  shows "ov_deleted_nodes ov' = ov_deleted_nodes ov" "has_node ov' = has_node ov"
    "ov_deleted_edges ov' = ov_deleted_edges ov" "ends ov' = ends ov"
    "al_default [] (ov_out_adj ov') = al_default [] (ov_out_adj ov)"
    "al_default [] (ov_in_adj ov') = al_default [] (ov_in_adj ov)"
    "al_default 0 (ov_node_counts ov') = al_default 0 (ov_node_counts ov)"
    "al_default 0 (ov_edge_counts ov') = al_default 0 (ov_edge_counts ov)"
  using assms by (simp_all add: skeleton_def)

lemma structure_cong:
  assumes "base_of g' = base_of g" "skeleton (pg_overlay g') = skeleton (pg_overlay g)" "pg_source g = None"
  shows "edge_endpoints g' = edge_endpoints g" "live_edge_endpoints g' = live_edge_endpoints g"
    "node_is_live g' = node_is_live g"
proof -
  note f = base_of_fields [OF assms(1)] base_values_cong [OF assms(1)] skeleton_fields [OF assms(2)]
  show e: "edge_endpoints g' = edge_endpoints g"
    by (intro ext) (simp add: edge_endpoints_ends f assms(3) split: option.split)
  show "live_edge_endpoints g' = live_edge_endpoints g"
    by (intro ext) (simp add: live_edge_endpoints_def edge_is_live_def e f)
  show "node_is_live g' = node_is_live g"
    by (intro ext) (simp add: node_is_live_iff f assms(3))
qed

lemma graph_inv_cong:
  assumes "base_of g' = base_of g" "skeleton (pg_overlay g') = skeleton (pg_overlay g)" "graph_inv g"
  shows "graph_inv g'"
proof -
  have "pg_source g = None" using assms(3) by (simp add: graph_inv_def session_base_def)
  note f = base_of_fields [OF assms(1)] base_values_cong [OF assms(1)] skeleton_fields [OF assms(2)]
    structure_cong [OF assms(1,2) this]
  show ?thesis
    using assms(3)
    unfolding graph_inv_def adjacency_inv_def ids_inv_def deleted_inv_def no_dangling_def node_rows_def edge_rows_def f
      session_base_cong [OF assms(1)] .
qed

lemma issued_not_base:
  assumes "session_base g" "edge_rows g r + unat c < 2 ^ 64" "issued (edge_rows g r) c i"
  shows "map_of (pg_edge_locations g) (r, i) = None"
proof (rule ccontr)
  assume *: "map_of (pg_edge_locations g) (r, i) \<noteq> None"
  obtain n where "edge_rows g r \<le> n" "n < edge_rows g r + unat c" "i = eid_of_i64 (of_nat n)"
    using assms(3) by (auto simp: issued_def)
  with * base_keys_numbered(2) [OF assms(1), of r n] assms(2) show False by (simp add: edge_rows_def)
qed

lemma inserted_not_base:
  assumes "graph_inv g" "ends (pg_overlay g) (r, i) = Some p"
  shows "base_endpoints g r i = None"
proof (rule ccontr)
  assume "base_endpoints g r i \<noteq> None"
  then have "map_of (pg_edge_locations g) (r, i) \<noteq> None"
    using base_edge_type(2) assms(1) by (auto simp: graph_inv_def)
  moreover have "ends (pg_overlay g) (r, i) \<noteq> None" using assms(2) by simp
  then have "issued (edge_rows g r) (al_default 0 (ov_edge_counts (pg_overlay g)) r) i"
    using assms(1) unfolding graph_inv_def ids_inv_def by blast
  moreover have "edge_rows g r + unat (al_default 0 (ov_edge_counts (pg_overlay g)) r) < 2 ^ 64" "session_base g"
    using assms(1) unfolding graph_inv_def ids_inv_def by blast+
  ultimately show False using issued_not_base by metis
qed

section \<open>Neighbours are the live edges\<close>

lemma base_out_neighbors:
  assumes "session_base g"
  shows "(r, i, dl, d) \<in> set (base_neighbors g (pg_out_adj g) sl s []) \<longleftrightarrow>
    base_endpoints g r i = Some (sl, s, dl, d) \<and> (dl, d) \<notin> ov_deleted_nodes (pg_overlay g) \<and>
    (r, i) \<notin> ov_deleted_edges (pg_overlay g)"
proof -
  have adj: "x \<in> set (al_default [] (pg_out_adj g) (sl, s, r)) \<longleftrightarrow>
      base_endpoints g r (er_row x) = Some (sl, s, er_label x, er_id x)" for x
    using assms by (simp add: session_base_def base_wf_def)
  show ?thesis (is "?l \<longleftrightarrow> ?r")
  proof
    assume ?l
    then show ?r using adj by (auto simp: base_neighbors_def edge_is_live_def)
  next
    assume r: ?r
    let ?x = "\<lparr>er_row = i, er_label = dl, er_id = d\<rparr>"
    have "?x \<in> set (al_default [] (pg_out_adj g) (sl, s, r))" using adj [of ?x] r by simp
    moreover have "r \<in> fst ` set (pg_edges g)" using base_edge_type(1) [OF assms] r by blast
    ultimately show ?l using r by (force simp: base_neighbors_def edge_is_live_def)
  qed
qed

lemma base_in_neighbors:
  assumes "session_base g"
  shows "(r, i, sl, s) \<in> set (base_neighbors g (pg_in_adj g) dl d []) \<longleftrightarrow>
    base_endpoints g r i = Some (sl, s, dl, d) \<and> (sl, s) \<notin> ov_deleted_nodes (pg_overlay g) \<and>
    (r, i) \<notin> ov_deleted_edges (pg_overlay g)"
proof -
  have adj: "x \<in> set (al_default [] (pg_in_adj g) (dl, d, r)) \<longleftrightarrow>
      base_endpoints g r (er_row x) = Some (er_label x, er_id x, dl, d)" for x
    using assms by (simp add: session_base_def base_wf_def)
  show ?thesis (is "?l \<longleftrightarrow> ?r")
  proof
    assume ?l
    then show ?r using adj by (auto simp: base_neighbors_def edge_is_live_def)
  next
    assume r: ?r
    let ?x = "\<lparr>er_row = i, er_label = sl, er_id = s\<rparr>"
    have "?x \<in> set (al_default [] (pg_in_adj g) (dl, d, r))" using adj [of ?x] r by simp
    moreover have "r \<in> fst ` set (pg_edges g)" using base_edge_type(1) [OF assms] r by blast
    ultimately show ?l using r by (force simp: base_neighbors_def edge_is_live_def)
  qed
qed

lemma inserted_neighbors_iff:
  "(r, i, l, n) \<in> set (inserted_neighbors g adj other a []) \<longleftrightarrow>
     (r, i) \<in> set (al_default [] adj a) \<and>
     (\<exists>e. map_of (ov_inserted_edges (pg_overlay g)) (r, i) = Some e \<and> other e = (l, n)) \<and>
     (l, n) \<notin> ov_deleted_nodes (pg_overlay g) \<and> (r, i) \<notin> ov_deleted_edges (pg_overlay g)"
  by (force simp: inserted_neighbors_def edge_is_live_def split: option.splits if_splits)

lemma ends_inserted:
  "ends ov k = Some (s, d) \<longleftrightarrow> (\<exists>e. map_of (ov_inserted_edges ov) k = Some e \<and> ie_src e = s \<and> ie_dst e = d)"
  by (auto simp: ends_def)

lemma live_edge_cases:
  assumes "graph_inv g"
  shows "live_edge_endpoints g r i = Some (sl, s, dl, d) \<longleftrightarrow>
    (r, i) \<notin> ov_deleted_edges (pg_overlay g) \<and>
    (ends (pg_overlay g) (r, i) = Some ((sl, s), (dl, d)) \<or> base_endpoints g r i = Some (sl, s, dl, d))"
proof -
  have "pg_source g = None" using assms by (simp add: graph_inv_def session_base_def)
  then show ?thesis
    using inserted_not_base [OF assms, of r i]
    by (auto simp: live_edge_endpoints_def edge_is_live_def edge_endpoints_ends split: option.splits)
qed

lemma out_edges_live:
  assumes "graph_inv g"
  shows "(r, i, dl, d) \<in> set (out_edges g sl s []) \<longleftrightarrow> live_edge_endpoints g r i = Some (sl, s, dl, d)"
proof -
  have base: "session_base g" and adj: "adjacency_inv (pg_overlay g)" and dang: "no_dangling g"
    using assms by (simp_all add: graph_inv_def)
  have src: "source_neighbors g False sl s [] = []"
    using base by (simp add: session_base_def source_neighbors_def)
  have ins: "(r, i, dl, d) \<in> set (inserted_neighbors g (ov_out_adj (pg_overlay g)) ie_dst (sl, s) []) \<longleftrightarrow>
      ends (pg_overlay g) (r, i) = Some ((sl, s), (dl, d)) \<and> (dl, d) \<notin> ov_deleted_nodes (pg_overlay g) \<and>
      (r, i) \<notin> ov_deleted_edges (pg_overlay g)"
    using adj unfolding inserted_neighbors_iff adjacency_inv_def ends_inserted by fastforce
  show ?thesis
    using dang live_edge_cases [OF assms, of r i sl s dl d]
    by (auto simp: out_edges_def src ins base_out_neighbors [OF base] no_dangling_def)
qed

lemma in_edges_live:
  assumes "graph_inv g"
  shows "(r, i, sl, s) \<in> set (in_edges g dl d []) \<longleftrightarrow> live_edge_endpoints g r i = Some (sl, s, dl, d)"
proof -
  have base: "session_base g" and adj: "adjacency_inv (pg_overlay g)" and dang: "no_dangling g"
    using assms by (simp_all add: graph_inv_def)
  have src: "source_neighbors g True dl d [] = []"
    using base by (simp add: session_base_def source_neighbors_def)
  have ins: "(r, i, sl, s) \<in> set (inserted_neighbors g (ov_in_adj (pg_overlay g)) ie_src (dl, d) []) \<longleftrightarrow>
      ends (pg_overlay g) (r, i) = Some ((sl, s), (dl, d)) \<and> (sl, s) \<notin> ov_deleted_nodes (pg_overlay g) \<and>
      (r, i) \<notin> ov_deleted_edges (pg_overlay g)"
    using adj unfolding inserted_neighbors_iff adjacency_inv_def ends_inserted by fastforce
  show ?thesis
    using dang live_edge_cases [OF assms, of r i sl s dl d]
    by (auto simp: in_edges_def src ins base_in_neighbors [OF base] no_dangling_def)
qed

section \<open>Property writes keep the structure\<close>

text \<open>The adjacency lists as they are stored, and the addresses of the inserted relationships in order.\<close>

definition shape :: "graph_overlay \<Rightarrow> _" where
  "shape ov = (ov_out_adj ov, ov_in_adj ov, map fst (ov_inserted_edges ov))"

definition same_structure :: "property_graph \<Rightarrow> property_graph \<Rightarrow> bool" where
  "same_structure g g' \<longleftrightarrow> base_of g' = base_of g \<and> skeleton (pg_overlay g') = skeleton (pg_overlay g) \<and>
     shape (pg_overlay g') = shape (pg_overlay g)"

lemma same_structure_refl [simp]: "same_structure g g"
  by (simp add: same_structure_def)

lemma same_structure_trans: "same_structure g h \<Longrightarrow> same_structure h k \<Longrightarrow> same_structure g k"
  by (simp add: same_structure_def)

lemma same_structure_marks [simp]:
  "same_structure g (mark_node k h) \<longleftrightarrow> same_structure g h" "same_structure g (mark_edge k h) \<longleftrightarrow> same_structure g h"
  by (simp_all add: same_structure_def)

lemma skeleton_scalar [simp]:
  "skeleton (set_node_scalar k key v ov) = skeleton ov" "skeleton (set_edge_scalar k key v ov) = skeleton ov"
  by (auto simp: skeleton_def set_node_scalar_def set_edge_scalar_def has_node_def ends_def update_conv' fun_eq_iff
      ie_src_def ie_dst_def split: option.split)

lemma skeleton_put [simp]:
  "skeleton (put_node_properties k ps replace ov) = skeleton ov"
  "skeleton (put_edge_properties k ps replace ov) = skeleton ov"
  by (auto simp: skeleton_def put_node_properties_def put_edge_properties_def has_node_def ends_def update_conv'
      fun_eq_iff ie_src_def ie_dst_def Let_def split: option.split)

lemma map_fst_update_known: "map_of m k = Some v \<Longrightarrow> map fst (AList.update k w m) = map fst m"
  by (simp add: update_keys) (metis fst_conv image_eqI map_of_SomeD)

lemma shape_scalar [simp]:
  "shape (set_node_scalar k key v ov) = shape ov" "shape (set_edge_scalar k key v ov) = shape ov"
  "shape (put_node_properties k ps replace ov) = shape ov" "shape (put_edge_properties k ps replace ov) = shape ov"
  by (simp_all add: shape_def set_node_scalar_def set_edge_scalar_def put_node_properties_def put_edge_properties_def
      map_fst_update_known Let_def split: option.split)

lemma shape_read_fields: "read_fields ov' = read_fields ov \<Longrightarrow> shape ov' = shape ov"
  by (simp add: read_fields_def shape_def)

lemma skeleton_read_fields: "read_fields ov' = read_fields ov \<Longrightarrow> skeleton ov' = skeleton ov"
  by (simp add: read_fields_def skeleton_def has_node_def ends_def fun_eq_iff)

lemma skeleton_records [simp]:
  "skeleton (upd_records k key f ov) = skeleton ov" "skeleton (clear_vertex_records k keys replace ov) = skeleton ov"
  "skeleton (drop_vertex_records k key ov) = skeleton ov"
  "shape (upd_records k key f ov) = shape ov" "shape (clear_vertex_records k keys replace ov) = shape ov"
  "shape (drop_vertex_records k key ov) = shape ov"
  by (rule skeleton_read_fields shape_read_fields, simp)+

lemma skeleton_nulls [simp]:
  "skeleton (drop_null_key k keys ov) = skeleton ov" "skeleton (clear_edge_nulls k keys replace ov) = skeleton ov"
  "shape (drop_null_key k keys ov) = shape ov" "shape (clear_edge_nulls k keys replace ov) = shape ov"
proof -
  show e: "shape (drop_null_key k keys ov) = shape ov" for k keys ov
    using drop_null_key_shape [of k keys ov] by (metis read_fields_updates(4) shape_read_fields)
  show "shape (clear_edge_nulls k keys replace ov) = shape ov"
    unfolding clear_edge_nulls_def using e by (cases replace) (simp_all, rule shape_read_fields, simp)
  show d: "skeleton (drop_null_key k keys ov) = skeleton ov" for k keys ov
    using drop_null_key_shape [of k keys ov] by (metis read_fields_updates(4) skeleton_read_fields)
  show "skeleton (clear_edge_nulls k keys replace ov) = skeleton ov"
    unfolding clear_edge_nulls_def using d by (cases replace) (simp_all, rule skeleton_read_fields, simp)
qed

lemma same_structure_upd:
  "skeleton (f (pg_overlay h)) = skeleton (pg_overlay h) \<Longrightarrow> shape (f (pg_overlay h)) = shape (pg_overlay h) \<Longrightarrow>
   same_structure g (upd_overlay f h) \<longleftrightarrow> same_structure g h"
  by (simp add: same_structure_def)

lemma same_structure_hydrate [simp]:
  "same_structure g (hydrate_target v g)" "same_structure g (hydrate_native_state e n i g)"
  using skeleton_read_fields [OF hydrate_target_frame(3)] skeleton_read_fields [OF hydrate_frame(3)]
    shape_read_fields [OF hydrate_target_frame(3)] shape_read_fields [OF hydrate_frame(3)]
  by (simp_all add: same_structure_def hydrate_target_frame(1) hydrate_frame(1))

lemma same_structure_scalar: "same_structure g h \<Longrightarrow> same_structure g (snd (set_property_scalar target key v h))"
  by (simp add: set_property_scalar_def same_structure_upd split: val.split)

lemma same_structure_meta: "same_structure g h \<Longrightarrow> same_structure g (snd (set_meta_property target key v h))"
  by (simp add: set_meta_property_def Let_def same_structure_upd same_structure_trans [OF _ same_structure_hydrate(2)]
      split: val.split option.split)

lemma same_structure_set_property: "same_structure g (snd (set_property target key v g))"
  by (simp add: set_property_def Let_def same_structure_upd same_structure_scalar same_structure_meta split: val.split)

lemma same_structure_set_properties: "same_structure g (snd (set_properties target ps replace g))"
  by (simp add: set_properties_def Let_def same_structure_upd split: val.split)

lemma same_structure_remove: "same_structure g (snd (remove_property target g))"
  by (simp add: remove_property_def Let_def same_structure_upd same_structure_scalar same_structure_set_property
      split: val.split option.split)

lemma same_structure_labels: "same_structure g (snd (set_node_labels v ls g))"
proof -
  have "skeleton (ov\<lparr>ov_label_sets := x\<rparr>) = skeleton ov" "shape (ov\<lparr>ov_label_sets := x\<rparr>) = shape ov" for ov x
    by (rule skeleton_read_fields shape_read_fields, simp)+
  then show ?thesis by (simp add: set_node_labels_def same_structure_upd split: val.split)
qed

lemmas property_writes_keep_structure = same_structure_set_property same_structure_set_properties
  same_structure_remove same_structure_labels

section \<open>Inserting\<close>

text \<open>The counters that number new elements do not wrap around.\<close>

definition counters_ok :: "property_graph \<Rightarrow> bool" where
  "counters_ok g \<longleftrightarrow>
     (\<forall>l. node_rows g l + unat (al_default 0 (ov_node_counts (pg_overlay g)) l) + 1 < 2 ^ 64) \<and>
     (\<forall>r. edge_rows g r + unat (al_default 0 (ov_edge_counts (pg_overlay g)) r) + 1 < 2 ^ 64)"

lemma unat_Suc_i64: "unat (c :: i64) + 1 < 2 ^ 64 \<Longrightarrow> unat (c + 1) = unat c + 1"
  by (subst unat_word_ariths) simp

lemma counter_bump:
  assumes "b + unat (c :: i64) + 1 < 2 ^ 64"
  shows "b + unat (c + (if P then 1 else 0)) < 2 ^ 64"
proof -
  have "unat c + 1 < 2 ^ 64" using assms by linarith
  from unat_Suc_i64 [OF this] show ?thesis using assms by (cases P) auto
qed

lemma rows_cong:
  assumes "base_of g' = base_of g"
  shows "node_rows g' = node_rows g" "edge_rows g' = edge_rows g"
  using base_of_fields [OF assms] by (simp_all add: node_rows_def edge_rows_def fun_eq_iff)

lemma issued_mono: "issued b c i \<Longrightarrow> unat c + 1 < 2 ^ 64 \<Longrightarrow> issued b (c + 1) i"
  by (auto simp: issued_def unat_Suc_i64 simp del: unat_1 intro: less_SucI)

lemma issued_bump:
  "issued b c i \<Longrightarrow> b + unat c + 1 < 2 ^ 64 \<Longrightarrow> issued b (c + (if P then 1 else 0)) i"
  using issued_mono [of b c i] by (cases P) auto

lemma issued_new:
  "unat c + 1 < 2 ^ 64 \<Longrightarrow> issued b (c + 1) (eid_of_i64 (of_nat b + c))"
  unfolding issued_def by (intro exI [of _ "b + unat c"]) (simp add: unat_Suc_i64)

lemma not_issued_new:
  assumes "b + unat c < 2 ^ 64"
  shows "\<not> issued b c (eid_of_i64 (of_nat b + c))"
proof
  assume "issued b c (eid_of_i64 (of_nat b + c))"
  then obtain n where n: "n < b + unat c" "(of_nat n :: i64) = of_nat b + c" by (auto simp: issued_def)
  then have "(of_nat n :: i64) = of_nat (b + unat c)" by simp
  then have "n = b + unat c" using n(1) assms of_nat_i64_inject [of n "b + unat c"] by linarith
  with n(1) show False by simp
qed

lemma fresh_node_id:
  fixes l :: string
  assumes "graph_inv g"
  defines "i \<equiv> new_node_id g l None"
  shows "\<not> has_node (pg_overlay g) (l, i)" "map_of (pg_node_locations g) (l, i) = None"
    "(l, i) \<notin> ov_deleted_nodes (pg_overlay g)"
proof -
  let ?c = "al_default 0 (ov_node_counts (pg_overlay g)) l"
  have base: "session_base g" and ids: "ids_inv g" and del: "deleted_inv g" using assms(1) by (simp_all add: graph_inv_def)
  have small: "node_rows g l + unat ?c < 2 ^ 64" using ids by (simp add: ids_inv_def)
  have i: "i = eid_of_i64 (of_nat (node_rows g l) + ?c)"
    by (simp add: i_def new_node_id_def base_node_rows [OF base] node_rows_def)
  show n: "\<not> has_node (pg_overlay g) (l, i)"
    using ids not_issued_new [OF small] unfolding ids_inv_def i by blast
  have "i = eid_of_i64 (of_nat (node_rows g l + unat ?c))" by (simp add: i)
  then show m: "map_of (pg_node_locations g) (l, i) = None"
    using base_keys_numbered(1) [OF base, of l "node_rows g l + unat ?c"] small unfolding node_rows_def
    by (metis le_add1 not_less)
  show "(l, i) \<notin> ov_deleted_nodes (pg_overlay g)" using del n m unfolding deleted_inv_def by blast
qed

lemma fresh_edge_id:
  fixes r :: string
  assumes "graph_inv g"
  defines "i \<equiv> new_edge_id g r None"
  shows "ends (pg_overlay g) (r, i) = None" "base_endpoints g r i = None"
    "(r, i) \<notin> ov_deleted_edges (pg_overlay g)" "edge_endpoints g r i = None"
proof -
  let ?c = "al_default 0 (ov_edge_counts (pg_overlay g)) r"
  have base: "session_base g" and ids: "ids_inv g" and del: "deleted_inv g" using assms(1) by (simp_all add: graph_inv_def)
  have small: "edge_rows g r + unat ?c < 2 ^ 64" using ids by (simp add: ids_inv_def)
  have i: "i = eid_of_i64 (of_nat (edge_rows g r) + ?c)"
    by (simp add: i_def new_edge_id_def base_edge_rows [OF base] edge_rows_def)
  show n: "ends (pg_overlay g) (r, i) = None"
    using ids not_issued_new [OF small] unfolding ids_inv_def i by blast
  have "i = eid_of_i64 (of_nat (edge_rows g r + unat ?c))" by (simp add: i)
  then have "map_of (pg_edge_locations g) (r, i) = None"
    using base_keys_numbered(2) [OF base, of r "edge_rows g r + unat ?c"] small unfolding edge_rows_def
    by (metis le_add1 not_less)
  then show m: "base_endpoints g r i = None" by (simp add: base_endpoints_def)
  show e: "edge_endpoints g r i = None"
    using base n m by (simp add: edge_endpoints_ends session_base_def)
  show "(r, i) \<notin> ov_deleted_edges (pg_overlay g)" using del e unfolding deleted_inv_def by blast
qed

lemma store_node_skeleton:
  "ov_deleted_nodes (store_node k c ps ov) = ov_deleted_nodes ov"
  "ov_deleted_edges (store_node k c ps ov) = ov_deleted_edges ov"
  "has_node (store_node k c ps ov) j \<longleftrightarrow> j = k \<or> has_node ov j"
  "ends (store_node k c ps ov) = ends ov"
  "ov_out_adj (store_node k c ps ov) = ov_out_adj ov" "ov_in_adj (store_node k c ps ov) = ov_in_adj ov"
  "ov_edge_counts (store_node k c ps ov) = ov_edge_counts ov"
  "al_default 0 (ov_node_counts (store_node k c ps ov)) l =
     al_default 0 (ov_node_counts ov) l + (if l = fst k then 1 else 0)"
  by (auto simp: store_node_def has_node_def ends_def update_conv' fun_eq_iff)

lemma store_edge_skeleton:
  "ov_deleted_nodes (store_edge k c s d False ps ov) = ov_deleted_nodes ov"
  "ov_deleted_edges (store_edge k c s d False ps ov) = ov_deleted_edges ov"
  "has_node (store_edge k c s d False ps ov) = has_node ov"
  "ends (store_edge k c s d False ps ov) = (ends ov)(k \<mapsto> (s, d))"
  "al_default [] (ov_out_adj (store_edge k c s d False ps ov)) a = al_default [] (ov_out_adj ov) a @ (if a = s then [k] else [])"
  "al_default [] (ov_in_adj (store_edge k c s d False ps ov)) a = al_default [] (ov_in_adj ov) a @ (if a = d then [k] else [])"
  "ov_node_counts (store_edge k c s d False ps ov) = ov_node_counts ov"
  "al_default 0 (ov_edge_counts (store_edge k c s d False ps ov)) r =
     al_default 0 (ov_edge_counts ov) r + (if r = fst k then 1 else 0)"
  by (auto simp: store_edge_def has_node_def ends_def update_conv' fun_eq_iff ie_src_def ie_dst_def)

lemma edges_cong:
  assumes "base_of g' = base_of g" "pg_source g = None" "ends (pg_overlay g') = ends (pg_overlay g)"
  shows "edge_endpoints g' = edge_endpoints g"
  using base_of_fields [OF assms(1)] base_values_cong [OF assms(1)] assms(2,3)
  by (intro ext) (simp add: edge_endpoints_ends split: option.split)

lemma live_edges_cong:
  assumes "edge_endpoints g' = edge_endpoints g" "ov_deleted_edges (pg_overlay g') = ov_deleted_edges (pg_overlay g)"
  shows "live_edge_endpoints g' = live_edge_endpoints g"
  using assms by (intro ext) (simp add: live_edge_endpoints_def edge_is_live_def)

lemma graph_inv_parts:
  assumes "graph_inv g"
  shows "session_base g" "adjacency_inv (pg_overlay g)" "ids_inv g" "deleted_inv g" "no_dangling g" "pg_source g = None"
  using assms by (simp_all add: graph_inv_def session_base_def)

lemma graph_inv_store_node:
  assumes inv: "graph_inv g" and small: "counters_ok g" and base: "base_of g' = base_of g"
    and ov: "pg_overlay g' = store_node (l, new_node_id g l None) c ps (pg_overlay g)"
  shows "graph_inv g'"
proof -
  note p = graph_inv_parts [OF inv] and s = store_node_skeleton [of "(l, new_node_id g l None)" c ps "pg_overlay g", folded ov]
  let ?c = "\<lambda>l. al_default 0 (ov_node_counts (pg_overlay g)) l"
  have ends: "edge_endpoints g' = edge_endpoints g" by (rule edges_cong [OF base p(6) s(4)])
  have live: "live_edge_endpoints g' = live_edge_endpoints g" by (rule live_edges_cong [OF ends s(2)])
  have ok: "node_rows g k + unat (?c k) + 1 < 2 ^ 64" for k using small by (simp add: counters_ok_def)
  have new: "issued (node_rows g l) (?c l + 1) (new_node_id g l None)"
    using issued_new [of "?c l" "node_rows g l"] ok [of l]
    by (simp add: new_node_id_def base_node_rows [OF p(1)] node_rows_def)
  have "ids_inv g'"
    unfolding ids_inv_def rows_cong [OF base]
  proof (intro conjI allI impI)
    show "node_rows g k + unat (al_default 0 (ov_node_counts (pg_overlay g')) k) < 2 ^ 64" for k
      using counter_bump [OF ok] unfolding s(8) .
    show "edge_rows g r + unat (al_default 0 (ov_edge_counts (pg_overlay g')) r) < 2 ^ 64" for r
      using p(3) by (simp add: ids_inv_def s(7))
    show "issued (node_rows g k) (al_default 0 (ov_node_counts (pg_overlay g')) k) i" if "has_node (pg_overlay g') (k, i)" for k i
    proof (cases "(k, i) = (l, new_node_id g l None)")
      case True
      with new show ?thesis by (simp add: s(8))
    next
      case False
      then have "has_node (pg_overlay g) (k, i)" using that unfolding s(3) by blast
      then have "issued (node_rows g k) (?c k) i" using p(3) unfolding ids_inv_def by blast
      then show ?thesis unfolding s(8) by (rule issued_bump [OF _ ok])
    qed
    show "issued (edge_rows g r) (al_default 0 (ov_edge_counts (pg_overlay g')) r) i" if "ends (pg_overlay g') (r, i) \<noteq> None" for r i
      using that p(3) unfolding ids_inv_def s(4,7) by blast
  qed
  moreover have "deleted_inv g'"
    using p(4) base_of_fields [OF base] unfolding deleted_inv_def by (auto simp: s ends)
  ultimately show ?thesis
    using p session_base_cong [OF base]
    by (simp add: graph_inv_def adjacency_inv_def no_dangling_def s live)
qed

lemma graph_inv_store_edge:
  assumes inv: "graph_inv g" and small: "counters_ok g" and base: "base_of g' = base_of g"
    and ov: "pg_overlay g' = store_edge (r, new_edge_id g r None) c s d False ps (pg_overlay g)"
    and s: "s \<notin> ov_deleted_nodes (pg_overlay g)" and d: "d \<notin> ov_deleted_nodes (pg_overlay g)"
  shows "graph_inv g'"
    "live_edge_endpoints g' = (\<lambda>q j. if (q, j) = (r, new_edge_id g r None) then Some (fst s, snd s, fst d, snd d)
       else live_edge_endpoints g q j)"
proof -
  let ?i = "new_edge_id g r None"
  note p = graph_inv_parts [OF inv] and fresh = fresh_edge_id [OF inv, of r]
    and k = store_edge_skeleton [of "(r, ?i)" c s d ps "pg_overlay g", folded ov]
  let ?c = "\<lambda>r. al_default 0 (ov_edge_counts (pg_overlay g)) r"
  have src: "pg_source g' = None" using base_of_fields(2) [OF base] p(6) by simp
  have e: "edge_endpoints g' q j = (if (q, j) = (r, ?i) then Some (fst s, snd s, fst d, snd d) else edge_endpoints g q j)" for q j
    using base_values_cong(3) [OF base]
    by (simp add: edge_endpoints_ends src p(6) k(4) split: prod.split option.split)
  show live: "live_edge_endpoints g' = (\<lambda>q j. if (q, j) = (r, ?i) then Some (fst s, snd s, fst d, snd d)
       else live_edge_endpoints g q j)"
    using fresh(3) by (intro ext) (auto simp: live_edge_endpoints_def edge_is_live_def e k(2))
  have ok: "edge_rows g q + unat (?c q) + 1 < 2 ^ 64" for q using small by (simp add: counters_ok_def)
  have new: "issued (edge_rows g r) (?c r + 1) ?i"
    using issued_new [of "?c r" "edge_rows g r"] ok [of r]
    by (simp add: new_edge_id_def base_edge_rows [OF p(1)] edge_rows_def)
  have "ids_inv g'"
    unfolding ids_inv_def rows_cong [OF base]
  proof (intro conjI allI impI)
    show "node_rows g l + unat (al_default 0 (ov_node_counts (pg_overlay g')) l) < 2 ^ 64" for l
      using p(3) by (simp add: ids_inv_def k(7))
    show "edge_rows g q + unat (al_default 0 (ov_edge_counts (pg_overlay g')) q) < 2 ^ 64" for q
      using counter_bump [OF ok] unfolding k(8) .
    show "issued (node_rows g l) (al_default 0 (ov_node_counts (pg_overlay g')) l) i" if "has_node (pg_overlay g') (l, i)" for l i
      using that p(3) unfolding ids_inv_def k(3,7) by blast
    show "issued (edge_rows g q) (al_default 0 (ov_edge_counts (pg_overlay g')) q) j" if ne: "ends (pg_overlay g') (q, j) \<noteq> None" for q j
    proof (cases "(q, j) = (r, ?i)")
      case True
      with new show ?thesis by (simp add: k(8))
    next
      case False
      then have "ends (pg_overlay g) (q, j) \<noteq> None" using ne unfolding k(4) by (auto split: if_splits)
      then have "issued (edge_rows g q) (?c q) j" using p(3) unfolding ids_inv_def by blast
      then show ?thesis unfolding k(8) by (rule issued_bump [OF _ ok])
    qed
  qed
  moreover have "adjacency_inv (pg_overlay g')"
    using p(2) fresh(1) unfolding adjacency_inv_def k(4,5,6) by (auto split: if_splits)
  moreover have "deleted_inv g'"
    using p(4) base_of_fields [OF base] unfolding deleted_inv_def by (auto simp: k e)
  moreover have "no_dangling g'"
    using p(5) s d unfolding no_dangling_def live k(1) by auto
  ultimately show "graph_inv g'"
    using p session_base_cong [OF base] by (simp add: graph_inv_def)
qed

section \<open>Inserting and deleting in a session\<close>

lemma native_insert_key:
  "graph_inv g \<Longrightarrow> mapped_insert_key G g edge name ps supplied between = Inr (None, ps)"
  by (simp add: graph_inv_def session_base_def mapped_insert_key_def write_mapping_def)

lemma plan_edge_native:
  assumes "graph_inv g" "plan_edge G g rel src dst ps supplied = Inr (s, d, key, child, ps')"
  shows "key = None" "\<not> child" "src = V_Node (fst s) (snd s)" "dst = V_Node (fst d) (snd d)"
    "node_is_live g (fst s) (snd s)" "node_is_live g (fst d) (snd d)"
proof -
  have fk: "fk_mapping_for g rel a b = None" for a b
    using assms(1) by (simp add: graph_inv_def session_base_def fk_mapping_for_def write_mapping_def)
  have ref: "node_ref v r role = Inr k \<longleftrightarrow> v = V_Node (fst k) (snd k)" for v r role k
    by (cases k) (auto simp: node_ref_def split: val.splits)
  show "key = None" "\<not> child" "src = V_Node (fst s) (snd s)" "dst = V_Node (fst d) (snd d)"
    "node_is_live g (fst s) (snd s)" "node_is_live g (fst d) (snd d)"
    using assms
    by (auto simp: plan_edge_def bind_res_eq_Inr ref fk fk_child_id_def native_insert_key Let_def split: if_splits)
qed

lemma insert_node_native:
  assumes inv: "graph_inv g"
  obtains (rejected) e where "try_insert_node_with_key G label ps supplied g = (Inl e, g)"
  | (stored) c ps' where "try_insert_node_with_key G label ps supplied g =
      (Inr (V_Node label (new_node_id g label None)), mark_node (label, new_node_id g label None)
         (upd_overlay (store_node (label, new_node_id g label None) c ps') g))"
proof (cases "mapped_insert_properties g False label ps")
  case (Inl e)
  then show ?thesis using rejected by (simp add: try_insert_node_with_key_def)
next
  case (Inr ps')
  then show ?thesis using stored
    by (simp add: try_insert_node_with_key_def native_insert_key [OF inv] Let_def)
qed

lemma insert_edge_native:
  assumes inv: "graph_inv g"
  obtains (rejected) e where "insert_edge_with_key G rel src dst ps supplied g = (Inl e, g)"
  | (stored) sl s dl d c ps' where "src = V_Node sl s" "dst = V_Node dl d" "node_is_live g sl s" "node_is_live g dl d"
      "insert_edge_with_key G rel src dst ps supplied g =
        (Inr (V_Edge rel (new_edge_id g rel None) sl s dl d None), mark_edge (rel, new_edge_id g rel None)
           (upd_overlay (store_edge (rel, new_edge_id g rel None) c (sl, s) (dl, d) False ps') g))"
proof (cases "plan_edge G g rel src dst ps supplied")
  case (Inl e)
  then show ?thesis using rejected by (simp add: insert_edge_with_key_def)
next
  case (Inr q)
  obtain s d key child ps' where q: "q = (s, d, key, child, ps')" by (cases q) auto
  note p = plan_edge_native [OF inv Inr [unfolded q]]
  show ?thesis
    by (rule stored [of "fst s" "snd s" "fst d" "snd d"])
      (use p q Inr in \<open>simp_all add: insert_edge_with_key_def Let_def\<close>)
qed

lemma delete_edges_Cons:
  "delete_edges ((r, i, q) # es) g = delete_edges es (mark_edge (r, i)
      (upd_overlay (\<lambda>ov. ov\<lparr>ov_deleted_edges := insert (r, i) (ov_deleted_edges ov)\<rparr>) g))"
  by (cases q) (simp add: delete_edges_def)

lemma delete_edges_base: "base_of (delete_edges es g) = base_of g"
proof (induction es arbitrary: g)
  case (Cons e es)
  then show ?case by (cases e) (simp add: delete_edges_Cons)
qed (simp add: delete_edges_def)

lemma delete_edges_overlay:
  "pg_overlay (delete_edges es g) =
     (pg_overlay g)\<lparr>ov_deleted_edges := ov_deleted_edges (pg_overlay g) \<union> (\<lambda>(r, i, _). (r, i)) ` set es\<rparr>"
proof (induction es arbitrary: g)
  case (Cons e es)
  obtain r i q where e: "e = (r, i, q)" by (cases e)
  show ?case by (simp add: e delete_edges_Cons Cons.IH)
qed (simp add: delete_edges_def)

lemma graph_inv_delete:
  assumes inv: "graph_inv g" and base: "base_of g' = base_of g"
    and ov: "pg_overlay g' = (pg_overlay g)\<lparr>ov_deleted_edges := D, ov_deleted_nodes := N\<rparr>"
    and mono: "ov_deleted_edges (pg_overlay g) \<subseteq> D"
    and known: "\<And>r i. (r, i) \<in> D \<Longrightarrow> edge_endpoints g r i \<noteq> None"
      "\<And>l i. (l, i) \<in> N \<Longrightarrow> has_node (pg_overlay g) (l, i) \<or> map_of (pg_node_locations g) (l, i) \<noteq> None"
    and sep: "\<And>r i sl s dl d. (r, i) \<notin> D \<Longrightarrow> edge_endpoints g r i = Some (sl, s, dl, d) \<Longrightarrow> (sl, s) \<notin> N \<and> (dl, d) \<notin> N"
  shows "graph_inv g'" "live_edge_endpoints g' = (\<lambda>r i. if (r, i) \<in> D then None else edge_endpoints g r i)"
proof -
  note p = graph_inv_parts [OF inv]
  have k: "ends (pg_overlay g') = ends (pg_overlay g)" "has_node (pg_overlay g') = has_node (pg_overlay g)"
    "ov_out_adj (pg_overlay g') = ov_out_adj (pg_overlay g)" "ov_in_adj (pg_overlay g') = ov_in_adj (pg_overlay g)"
    "ov_node_counts (pg_overlay g') = ov_node_counts (pg_overlay g)"
    "ov_edge_counts (pg_overlay g') = ov_edge_counts (pg_overlay g)"
    "ov_deleted_edges (pg_overlay g') = D" "ov_deleted_nodes (pg_overlay g') = N"
    by (simp_all add: ov ends_def has_node_def fun_eq_iff)
  have e: "edge_endpoints g' = edge_endpoints g" by (rule edges_cong [OF base p(6) k(1)])
  show live: "live_edge_endpoints g' = (\<lambda>r i. if (r, i) \<in> D then None else edge_endpoints g r i)"
    by (intro ext) (simp add: live_edge_endpoints_def edge_is_live_def e k(7))
  have "ids_inv g'" using p(3) by (simp add: ids_inv_def rows_cong [OF base] k)
  moreover have "adjacency_inv (pg_overlay g')" using p(2) by (simp add: adjacency_inv_def k)
  moreover have "deleted_inv g'"
    using known base_of_fields [OF base] by (auto simp: deleted_inv_def k e)
  moreover have "no_dangling g'" using sep unfolding no_dangling_def live k(8) by (auto split: if_splits)
  ultimately show "graph_inv g'" using p(1) session_base_cong [OF base] by (simp add: graph_inv_def)
qed

section \<open>What a client of the graph relies on\<close>

text \<open>
  The interface between the graph and the operations that follow relationships: neighbour
  lists are exactly the live edges seen from one end.
\<close>

locale graph_view =
  fixes inv :: "'g \<Rightarrow> bool"
    and live :: "'g \<Rightarrow> string \<Rightarrow> element_id \<Rightarrow> endpoints option"
    and outs :: "'g \<Rightarrow> string \<Rightarrow> element_id \<Rightarrow> endpoints list"
    and ins :: "'g \<Rightarrow> string \<Rightarrow> element_id \<Rightarrow> endpoints list"
  assumes outs_live: "inv g \<Longrightarrow> (r, i, dl, d) \<in> set (outs g sl s) \<longleftrightarrow> live g r i = Some (sl, s, dl, d)"
    and ins_live: "inv g \<Longrightarrow> (r, i, sl, s) \<in> set (ins g dl d) \<longleftrightarrow> live g r i = Some (sl, s, dl, d)"
begin

definition incident :: "'g \<Rightarrow> addr \<Rightarrow> addr \<Rightarrow> bool" where
  "incident g k e \<longleftrightarrow> (\<exists>sl s dl d. live g (fst e) (snd e) = Some (sl, s, dl, d) \<and> (k = (sl, s) \<or> k = (dl, d)))"

lemma symmetric: "inv g \<Longrightarrow> (r, i, dl, d) \<in> set (outs g sl s) \<longleftrightarrow> (r, i, sl, s) \<in> set (ins g dl d)"
  by (simp add: outs_live ins_live)

lemma neighbours_incident:
  assumes "inv g"
  shows "(r, j) \<in> (\<lambda>(r, i, _). (r, i)) ` set (outs g l i @ ins g l i) \<longleftrightarrow> incident g (l, i) (r, j)"
proof
  assume "(r, j) \<in> (\<lambda>(r, i, _). (r, i)) ` set (outs g l i @ ins g l i)"
  then obtain a b where "(r, j, a, b) \<in> set (outs g l i) \<or> (r, j, a, b) \<in> set (ins g l i)" by force
  then show "incident g (l, i) (r, j)" using outs_live [OF assms] ins_live [OF assms] by (auto simp: incident_def)
next
  assume "incident g (l, i) (r, j)"
  then obtain sl s dl d where e: "live g r j = Some (sl, s, dl, d)" "(l, i) = (sl, s) \<or> (l, i) = (dl, d)"
    by (auto simp: incident_def)
  then have "(r, j, dl, d) \<in> set (outs g l i) \<or> (r, j, sl, s) \<in> set (ins g l i)"
    using outs_live [OF assms] ins_live [OF assms] by auto
  then show "(r, j) \<in> (\<lambda>(r, i, _). (r, i)) ` set (outs g l i @ ins g l i)" by force
qed

lemma isolated:
  assumes "inv g"
  shows "outs g l i = [] \<and> ins g l i = [] \<longleftrightarrow> (\<forall>e. \<not> incident g (l, i) e)"
proof -
  have "(\<lambda>(r, i, _). (r, i)) ` set (outs g l i @ ins g l i) = {e. incident g (l, i) e}"
    using neighbours_incident [OF assms] by (intro set_eqI) (metis mem_Collect_eq surj_pair)
  moreover have "outs g l i = [] \<and> ins g l i = [] \<longleftrightarrow> (\<lambda>(r, i, _). (r, i)) ` set (outs g l i @ ins g l i) = {}" by auto
  ultimately show ?thesis by simp
qed

end

interpretation session_view: graph_view graph_inv live_edge_endpoints "\<lambda>g l i. out_edges g l i []" "\<lambda>g l i. in_edges g l i []"
  by unfold_locales (rule out_edges_live in_edges_live, assumption)+

section \<open>The abstract graph\<close>

text \<open>A set of nodes and a partial map from relationship addresses to endpoints.\<close>

record abstract_graph =
  ag_nodes :: "addr set"
  ag_edges :: "addr \<Rightarrow> endpoints option"

definition graph_abs :: "property_graph \<Rightarrow> abstract_graph" where
  "graph_abs g = \<lparr>ag_nodes = {k. node_is_live g (fst k) (snd k)},
     ag_edges = (\<lambda>e. live_edge_endpoints g (fst e) (snd e))\<rparr>"

definition meets :: "addr \<Rightarrow> endpoints option \<Rightarrow> bool" where
  "meets k q \<longleftrightarrow> (case q of None \<Rightarrow> False | Some (sl, s, dl, d) \<Rightarrow> k = (sl, s) \<or> k = (dl, d))"

text \<open>What each write does to the abstract graph, given its outcome.\<close>

definition abstract_delete :: "val \<Rightarrow> bool \<Rightarrow> catalog_error + val \<Rightarrow> abstract_graph \<Rightarrow> abstract_graph \<Rightarrow> bool" where
  "abstract_delete target detach r a a' \<longleftrightarrow>
     (case target of
        V_Node label i \<Rightarrow>
          if detach \<or> (\<forall>e. \<not> meets (label, i) (ag_edges a e))
          then r = Inr V_Null \<and> a' = \<lparr>ag_nodes = ag_nodes a - {(label, i)},
            ag_edges = (\<lambda>e. if meets (label, i) (ag_edges a e) then None else ag_edges a e)\<rparr>
          else (\<exists>m. r = Inl (DeleteIntegrity m)) \<and> a' = a
      | V_Edge rel i _ _ _ _ _ \<Rightarrow> r = Inr V_Null \<and> a' = a\<lparr>ag_edges := (ag_edges a)((rel, i) := None)\<rparr>
      | _ \<Rightarrow> a' = a)"

fun abstract_write :: "write_op \<Rightarrow> catalog_error + val \<Rightarrow> abstract_graph \<Rightarrow> abstract_graph \<Rightarrow> bool" where
  "abstract_write (W_InsertNode label ps key) r a a' \<longleftrightarrow>
     (case r of
        Inl e \<Rightarrow> a' = a
      | Inr v \<Rightarrow> \<exists>i. v = V_Node label i \<and> (label, i) \<notin> ag_nodes a \<and>
          a' = a\<lparr>ag_nodes := insert (label, i) (ag_nodes a)\<rparr>)"
| "abstract_write (W_InsertEdge rel src dst ps key) r a a' \<longleftrightarrow>
     (case r of
        Inl e \<Rightarrow> a' = a
      | Inr v \<Rightarrow> \<exists>i sl s dl d. src = V_Node sl s \<and> dst = V_Node dl d \<and> (sl, s) \<in> ag_nodes a \<and> (dl, d) \<in> ag_nodes a \<and>
          v = V_Edge rel i sl s dl d None \<and> ag_edges a (rel, i) = None \<and>
          a' = a\<lparr>ag_edges := (ag_edges a)((rel, i) \<mapsto> (sl, s, dl, d))\<rparr>)"
| "abstract_write (W_Delete target detach) r a a' \<longleftrightarrow> abstract_delete target detach r a a'"
| "abstract_write (W_SetProperty target key v) r a a' \<longleftrightarrow> a' = a"
| "abstract_write (W_SetProperties target ps replace) r a a' \<longleftrightarrow> a' = a"
| "abstract_write (W_SetLabels target ls) r a a' \<longleftrightarrow> a' = a"
| "abstract_write (W_RemoveProperty target) r a a' \<longleftrightarrow> a' = a"

definition unit_outcome :: "catalog_error + unit \<Rightarrow> catalog_error + val" where
  "unit_outcome r = (case r of Inl e \<Rightarrow> Inl e | Inr _ \<Rightarrow> Inr V_Null)"

fun write_outcome :: "graph_lib \<Rightarrow> write_op \<Rightarrow> property_graph \<Rightarrow> catalog_error + val" where
  "write_outcome G (W_InsertNode label ps key) g = fst (try_insert_node_with_key G label ps key g)"
| "write_outcome G (W_InsertEdge rel src dst ps key) g = fst (insert_edge_with_key G rel src dst ps key g)"
| "write_outcome G (W_SetProperty target key v) g = unit_outcome (fst (set_property target key v g))"
| "write_outcome G (W_SetProperties target ps replace) g = unit_outcome (fst (set_properties target ps replace g))"
| "write_outcome G (W_SetLabels target ls) g = unit_outcome (fst (set_node_labels target ls g))"
| "write_outcome G (W_RemoveProperty target) g = unit_outcome (fst (remove_property target g))"
| "write_outcome G (W_Delete target detach) g = unit_outcome (fst (delete_value G target detach g))"

text \<open>Deletions name an element the graph has handed out.\<close>

definition target_known :: "property_graph \<Rightarrow> write_op \<Rightarrow> bool" where
  "target_known g op \<longleftrightarrow>
     (case op of
        W_Delete target detach \<Rightarrow>
          (case target of
             V_Node l i \<Rightarrow> has_node (pg_overlay g) (l, i) \<or> map_of (pg_node_locations g) (l, i) \<noteq> None
           | V_Edge r i _ _ _ _ _ \<Rightarrow> edge_endpoints g r i \<noteq> None
           | _ \<Rightarrow> True)
      | _ \<Rightarrow> True)"

lemma graph_abs_cong:
  assumes "same_structure g g'" "graph_inv g"
  shows "graph_abs g' = graph_abs g"
  using structure_cong [of g' g] assms graph_inv_parts(6) [OF assms(2)]
  by (simp add: graph_abs_def same_structure_def)

section \<open>Deleting a node\<close>

lemma meets_incident: "meets k (live_edge_endpoints g (fst e) (snd e)) \<longleftrightarrow> session_view.incident g k e"
  by (auto simp: meets_def session_view.incident_def split: option.split)

lemma delete_node_native:
  fixes G :: graph_lib
  assumes inv: "graph_inv g" and known: "has_node (pg_overlay g) (l, i) \<or> map_of (pg_node_locations g) (l, i) \<noteq> None"
    and ok: "detach \<or> (\<forall>e. \<not> session_view.incident g (l, i) e)"
  defines "g' \<equiv> snd (delete_value G (V_Node l i) detach g)"
  shows "fst (delete_value G (V_Node l i) detach g) = Inr ()" "graph_inv g'"
    "live_edge_endpoints g' r j = (if session_view.incident g (l, i) (r, j) then None else live_edge_endpoints g r j)"
    "node_is_live g' m k \<longleftrightarrow> node_is_live g m k \<and> (m, k) \<noteq> (l, i)"
proof -
  note p = graph_inv_parts [OF inv]
  let ?es = "out_edges g l i [] @ in_edges g l i []"
  let ?E = "(\<lambda>(r, i, _). (r, i)) ` set ?es"
  let ?D = "ov_deleted_edges (pg_overlay g) \<union> ?E" and ?N = "insert (l, i) (ov_deleted_nodes (pg_overlay g))"
  have E: "(q, n) \<in> ?E \<longleftrightarrow> session_view.incident g (l, i) (q, n)" for q n
    by (rule session_view.neighbours_incident [OF inv])
  have iso: "?es = []" if "\<not> detach" using that ok session_view.isolated [OF inv, of l i] by simp
  have res: "delete_value G (V_Node l i) detach g = (Inr (), g')"
    using iso by (auto simp: g'_def delete_value_def Let_def)
  have g': "base_of g' = base_of g"
    "pg_overlay g' = (pg_overlay g)\<lparr>ov_deleted_edges := ?D, ov_deleted_nodes := ?N\<rparr>"
    using iso by (auto simp: g'_def delete_value_def Let_def delete_edges_base delete_edges_overlay)
  have all: "edge_endpoints g q n = live_edge_endpoints g q n" if "(q, n) \<notin> ov_deleted_edges (pg_overlay g)" for q n
    using that by (simp add: live_edge_endpoints_def edge_is_live_def)
  have sep: "(sl, s) \<notin> ?N \<and> (dl, d) \<notin> ?N" if D: "(q, n) \<notin> ?D" and e: "edge_endpoints g q n = Some (sl, s, dl, d)"
    for q n sl s dl d
  proof -
    have live: "live_edge_endpoints g q n = Some (sl, s, dl, d)" using all D e by simp
    then have "(sl, s) \<noteq> (l, i)" "(dl, d) \<noteq> (l, i)" using D E [of q n] by (auto simp: session_view.incident_def)
    moreover have "(sl, s) \<notin> ov_deleted_nodes (pg_overlay g)" "(dl, d) \<notin> ov_deleted_nodes (pg_overlay g)"
      using p(5) live unfolding no_dangling_def by blast+
    ultimately show ?thesis by simp
  qed
  have knownE: "edge_endpoints g q n \<noteq> None" if "(q, n) \<in> ?D" for q n
    using that p(4) E [of q n]
    by (auto simp: deleted_inv_def session_view.incident_def live_edge_endpoints_def split: if_splits)
  have knownN: "has_node (pg_overlay g) (m, n) \<or> map_of (pg_node_locations g) (m, n) \<noteq> None" if "(m, n) \<in> ?N" for m n
    using that p(4) known by (auto simp: deleted_inv_def)
  have del: "graph_inv g'" "live_edge_endpoints g' = (\<lambda>r i. if (r, i) \<in> ?D then None else edge_endpoints g r i)"
    by (rule graph_inv_delete [OF inv g' Un_upper1]; (rule knownE knownN sep; assumption))+
  show "fst (delete_value G (V_Node l i) detach g) = Inr ()" by (simp add: res)
  show "graph_inv g'" by (rule del(1))
  show "live_edge_endpoints g' r j = (if session_view.incident g (l, i) (r, j) then None else live_edge_endpoints g r j)"
    using fun_cong [OF fun_cong [OF del(2)], of r j] E [of r j] all [of r j]
    by (cases "(r, j) \<in> ov_deleted_edges (pg_overlay g)") (simp_all add: live_edge_endpoints_def [of g] edge_is_live_def)
  show "node_is_live g' m k \<longleftrightarrow> node_is_live g m k \<and> (m, k) \<noteq> (l, i)"
    using p(6) base_of_fields(2,8) [OF g'(1)] by (auto simp: node_is_live_iff g'(2) has_node_def)
qed

section \<open>Every write refines its abstract effect\<close>

lemma node_live_store_node:
  assumes "graph_inv g" "base_of g' = base_of g" "pg_overlay g' = store_node (l, new_node_id g l None) c ps (pg_overlay g)"
  shows "node_is_live g' m k \<longleftrightarrow> node_is_live g m k \<or> (m, k) = (l, new_node_id g l None)"
    "live_edge_endpoints g' = live_edge_endpoints g" "\<not> node_is_live g l (new_node_id g l None)"
proof -
  note s = store_node_skeleton [of "(l, new_node_id g l None)" c ps "pg_overlay g", folded assms(3)]
  note p = graph_inv_parts [OF assms(1)] and fresh = fresh_node_id [OF assms(1), of l]
  note b = base_of_fields [OF assms(2)]
  show "node_is_live g' m k \<longleftrightarrow> node_is_live g m k \<or> (m, k) = (l, new_node_id g l None)"
    using p(6) b(2,8) fresh(3) by (auto simp: node_is_live_iff s)
  show "live_edge_endpoints g' = live_edge_endpoints g"
    by (rule live_edges_cong [OF edges_cong [OF assms(2) p(6) s(4)] s(2)])
  show "\<not> node_is_live g l (new_node_id g l None)" using p(6) fresh by (simp add: node_is_live_iff)
qed

lemma node_live_store_edge:
  assumes "graph_inv g" "base_of g' = base_of g" "pg_overlay g' = store_edge k c s d False ps (pg_overlay g)"
  shows "node_is_live g' = node_is_live g"
  using graph_inv_parts(6) [OF assms(1)] base_of_fields(2,8) [OF assms(2)]
  by (intro ext) (simp add: node_is_live_iff store_edge_skeleton assms(3))

lemma insert_node_refines:
  assumes inv: "graph_inv g" and small: "counters_ok g"
  shows "graph_inv (apply_write G (W_InsertNode l ps key) g) \<and>
    abstract_write (W_InsertNode l ps key) (write_outcome G (W_InsertNode l ps key) g) (graph_abs g)
      (graph_abs (apply_write G (W_InsertNode l ps key) g))"
proof (cases rule: insert_node_native [OF inv, of G l ps key, case_names rejected stored])
  case (rejected e)
  then show ?thesis using inv by simp
next
  case (stored c ps')
  let ?g = "mark_node (l, new_node_id g l None) (upd_overlay (store_node (l, new_node_id g l None) c ps') g)"
  have g: "base_of ?g = base_of g" "pg_overlay ?g = store_node (l, new_node_id g l None) c ps' (pg_overlay g)" by simp_all
  show ?thesis
    using stored graph_inv_store_node [OF inv small g] node_live_store_node [OF inv g]
    by (auto simp: graph_abs_def)
qed

lemma insert_edge_refines:
  assumes inv: "graph_inv g" and small: "counters_ok g"
  shows "graph_inv (apply_write G (W_InsertEdge r src dst ps key) g) \<and>
    abstract_write (W_InsertEdge r src dst ps key) (write_outcome G (W_InsertEdge r src dst ps key) g) (graph_abs g)
      (graph_abs (apply_write G (W_InsertEdge r src dst ps key) g))"
proof (cases rule: insert_edge_native [OF inv, of G r src dst ps key, case_names rejected stored])
  case (rejected e)
  then show ?thesis using inv by simp
next
  case (stored sl s dl d c ps')
  let ?i = "new_edge_id g r None"
  let ?g = "mark_edge (r, ?i) (upd_overlay (store_edge (r, ?i) c (sl, s) (dl, d) False ps') g)"
  have g: "base_of ?g = base_of g" "pg_overlay ?g = store_edge (r, ?i) c (sl, s) (dl, d) False ps' (pg_overlay g)" by simp_all
  have del: "(sl, s) \<notin> ov_deleted_nodes (pg_overlay g)" "(dl, d) \<notin> ov_deleted_nodes (pg_overlay g)"
    using stored(3,4) by (simp_all add: node_is_live_iff [OF graph_inv_parts(6) [OF inv]])
  note e = graph_inv_store_edge [OF inv small g del]
  have live: "live_edge_endpoints ?g q j = (if (q, j) = (r, ?i) then Some (sl, s, dl, d) else live_edge_endpoints g q j)" for q j
    using fun_cong [OF fun_cong [OF e(2)], of q j] by simp
  have fresh: "live_edge_endpoints g r ?i = None"
    using fresh_edge_id(4) [OF inv, of r] by (simp add: live_edge_endpoints_def)
  have "graph_abs ?g = (graph_abs g)\<lparr>ag_edges := (ag_edges (graph_abs g))((r, ?i) \<mapsto> (sl, s, dl, d))\<rparr>"
    by (auto simp: graph_abs_def node_live_store_edge [OF inv g] live fun_eq_iff)
  with stored e(1) fresh show ?thesis by (simp add: graph_abs_def)
qed

lemma delete_edge_native:
  assumes inv: "graph_inv g" and known: "edge_endpoints g r i \<noteq> None"
    and base: "base_of g' = base_of g"
    and ov: "pg_overlay g' = (pg_overlay g)\<lparr>ov_deleted_edges := insert (r, i) (ov_deleted_edges (pg_overlay g))\<rparr>"
  shows "graph_inv g'" "live_edge_endpoints g' q j = (if (q, j) = (r, i) then None else live_edge_endpoints g q j)"
    "node_is_live g' = node_is_live g"
proof -
  note p = graph_inv_parts [OF inv]
  let ?D = "insert (r, i) (ov_deleted_edges (pg_overlay g))"
  have ov': "pg_overlay g' = (pg_overlay g)\<lparr>ov_deleted_edges := ?D, ov_deleted_nodes := ov_deleted_nodes (pg_overlay g)\<rparr>"
    using ov by simp
  have knownE: "edge_endpoints g q n \<noteq> None" if "(q, n) \<in> ?D" for q n
    using that p(4) known by (auto simp: deleted_inv_def)
  have knownN: "has_node (pg_overlay g) (m, n) \<or> map_of (pg_node_locations g) (m, n) \<noteq> None"
    if "(m, n) \<in> ov_deleted_nodes (pg_overlay g)" for m n
    using that p(4) by (auto simp: deleted_inv_def)
  have sep: "(sl, s) \<notin> ov_deleted_nodes (pg_overlay g) \<and> (dl, d) \<notin> ov_deleted_nodes (pg_overlay g)"
    if "(q, n) \<notin> ?D" "edge_endpoints g q n = Some (sl, s, dl, d)" for q n sl s dl d
  proof -
    have "live_edge_endpoints g q n = Some (sl, s, dl, d)"
      using that by (simp add: live_edge_endpoints_def edge_is_live_def)
    then show ?thesis using p(5) unfolding no_dangling_def by blast
  qed
  have del: "graph_inv g'" "live_edge_endpoints g' = (\<lambda>r i. if (r, i) \<in> ?D then None else edge_endpoints g r i)"
    by (rule graph_inv_delete [OF inv base ov' subset_insertI]; (rule knownE knownN sep; assumption))+
  show "graph_inv g'" by (rule del(1))
  show "live_edge_endpoints g' q j = (if (q, j) = (r, i) then None else live_edge_endpoints g q j)"
    using fun_cong [OF fun_cong [OF del(2)], of q j] by (simp add: live_edge_endpoints_def [of g] edge_is_live_def)
  show "node_is_live g' = node_is_live g"
    using p(6) base_of_fields(2,8) [OF base] by (intro ext) (simp add: node_is_live_iff ov has_node_def)
qed

lemma delete_refines:
  assumes inv: "graph_inv g" and known: "target_known g (W_Delete target detach)"
  shows "graph_inv (apply_write G (W_Delete target detach) g) \<and>
    abstract_write (W_Delete target detach) (write_outcome G (W_Delete target detach) g) (graph_abs g)
      (graph_abs (apply_write G (W_Delete target detach) g))"
proof -
  have keep: ?thesis if "same_structure g (snd (delete_value G target detach g))"
    "\<And>r a a'. abstract_delete target detach r a a' \<longleftrightarrow> a' = a"
    using that graph_inv_cong [OF _ _ inv] graph_abs_cong [OF that(1) inv] by (simp add: same_structure_def)
  have other: ?thesis if "delete_value G target detach g = (Inr (), g)" "\<And>r a a'. abstract_delete target detach r a a' \<longleftrightarrow> a' = a"
    by (rule keep) (use that in simp_all)
  have element: ?thesis if "delete_value G target detach g = remove_property target g"
      "\<And>r a a'. abstract_delete target detach r a a' \<longleftrightarrow> a' = a"
    by (rule keep) (use that in \<open>simp_all add: same_structure_remove\<close>)
  show ?thesis
  proof (cases target)
    case (V_Node l i)
    let ?free = "detach \<or> (\<forall>e. \<not> meets (l, i) (ag_edges (graph_abs g) e))"
    have free: "?free \<longleftrightarrow> detach \<or> (\<forall>e. \<not> session_view.incident g (l, i) e)"
      by (simp add: graph_abs_def meets_incident)
    show ?thesis
    proof (cases ?free)
      case True
      let ?g = "snd (delete_value G (V_Node l i) detach g)"
      have k: "has_node (pg_overlay g) (l, i) \<or> map_of (pg_node_locations g) (l, i) \<noteq> None"
        using known by (simp add: target_known_def V_Node)
      note d = delete_node_native [OF inv k True [unfolded free], of G]
      have "graph_abs ?g = \<lparr>ag_nodes = ag_nodes (graph_abs g) - {(l, i)}, ag_edges = (\<lambda>e.
          if meets (l, i) (ag_edges (graph_abs g) e) then None else ag_edges (graph_abs g) e)\<rparr>"
        by (auto simp: graph_abs_def d(3,4) meets_incident fun_eq_iff)
      with True d(1,2) show ?thesis by (simp add: V_Node abstract_delete_def unit_outcome_def)
    next
      case False
      then have "\<not> detach" "out_edges g l i [] \<noteq> [] \<or> in_edges g l i [] \<noteq> []"
        using free session_view.isolated [OF inv, of l i] by auto
      then show ?thesis
        using False inv by (auto simp: V_Node abstract_delete_def delete_value_def Let_def unit_outcome_def)
    qed
  next
    case (V_Edge r i sl s dl d q)
    let ?g = "snd (delete_value G (V_Edge r i sl s dl d q) detach g)"
    have k: "edge_endpoints g r i \<noteq> None" using known by (simp add: target_known_def V_Edge)
    have g: "base_of ?g = base_of g"
      "pg_overlay ?g = (pg_overlay g)\<lparr>ov_deleted_edges := insert (r, i) (ov_deleted_edges (pg_overlay g))\<rparr>"
      by (simp_all add: delete_value_def)
    note d = delete_edge_native [OF inv k g]
    have "graph_abs ?g = (graph_abs g)\<lparr>ag_edges := (ag_edges (graph_abs g))((r, i) := None)\<rparr>"
      by (auto simp: graph_abs_def d(2,3) fun_eq_iff)
    with d(1) show ?thesis by (simp add: V_Edge abstract_delete_def unit_outcome_def delete_value_def)
  qed (rule other element; simp add: delete_value_def abstract_delete_def)+
qed

lemma write_refines:
  assumes "graph_inv g" "counters_ok g" "target_known g op"
  shows "graph_inv (apply_write G op g) \<and>
    abstract_write op (write_outcome G op g) (graph_abs g) (graph_abs (apply_write G op g))"
proof -
  have keep: "graph_inv h \<and> graph_abs h = graph_abs g" if "same_structure g h" for h
    using that graph_inv_cong [OF _ _ assms(1)] graph_abs_cong [OF that assms(1)] by (simp add: same_structure_def)
  show ?thesis
  proof (cases op)
    case (W_InsertNode l ps key)
    with insert_node_refines [OF assms(1,2)] show ?thesis by blast
  next
    case (W_InsertEdge r src dst ps key)
    with insert_edge_refines [OF assms(1,2)] show ?thesis by blast
  next
    case (W_Delete target detach)
    with delete_refines [OF assms(1)] assms(3) show ?thesis by blast
  qed (simp_all add: property_writes_keep_structure [THEN keep])
qed

section \<open>Sessions\<close>

text \<open>
  The states a session reaches: a graph built from tables with row-numbered keys, then any
  writes, as long as the row counters do not wrap and deletions name existing elements.
\<close>

inductive reachable :: "graph_lib \<Rightarrow> property_graph \<Rightarrow> bool" for G where
  reach_start: "built g \<Longrightarrow> \<not> pg_source_keys g \<Longrightarrow> (\<And>l. node_rows g l < 2 ^ 63) \<Longrightarrow> (\<And>r. edge_rows g r < 2 ^ 63) \<Longrightarrow>
    reachable G g"
| reach_write: "reachable G g \<Longrightarrow> counters_ok g \<Longrightarrow> target_known g op \<Longrightarrow> reachable G (apply_write G op g)"

inductive_cases reachableE: "reachable G g"

lemma reachable_inv: "reachable G g \<Longrightarrow> graph_inv g"
proof (induction rule: reachable.induct)
  case (reach_start g)
  have ov: "pg_overlay g = empty_overlay" and src: "pg_source g = None" "pg_mapping g = None"
    using built_types [OF reach_start(1)] by (simp_all add: unwritten_def)
  have "session_base g"
    using reach_start built_wf [OF reach_start(1)] built_types [OF reach_start(1)] src
    by (simp add: session_base_def node_rows_def edge_rows_def)
  moreover have "node_rows g l < 2 ^ 64" "edge_rows g r < 2 ^ 64" for l r
    by (rule less_trans [OF reach_start(3)], simp) (rule less_trans [OF reach_start(4)], simp)
  ultimately show ?case
    by (simp add: graph_inv_def adjacency_inv_def ids_inv_def deleted_inv_def no_dangling_def ov empty_overlay_def
        ends_def has_node_def al_default_def)
next
  case (reach_write g op)
  then show ?case using write_refines by blast
qed

section \<open>Properties of sessions\<close>

text \<open>
  C4: every write of a session, successful or refused, has exactly its abstract effect on the
  set of live nodes and the map of live relationships: an insertion adds one element with an
  address not in use and endpoints that exist, a plain delete of a connected node is refused
  with an integrity error and changes nothing, a detaching delete removes the node together
  with all relationships that meet it, and property writes change neither.
\<close>

theorem writes_refine_abstract_graph:
  assumes "reachable G g" and "counters_ok g" and "target_known g op"
  shows "abstract_write op (write_outcome G op g) (graph_abs g) (graph_abs (apply_write G op g))"
  using write_refines [OF reachable_inv [OF assms(1)] assms(2,3)] by blast

lemma reachable_new: "reachable G new_graph"
  by (rule reach_start [OF built.built_new]) (simp_all add: new_graph_def node_rows_def edge_rows_def al_default_def)

lemma counters_new: "counters_ok new_graph"
  by (simp add: counters_ok_def new_graph_def empty_overlay_def node_rows_def edge_rows_def al_default_def)

theorem writes_refine_abstract_graph_witness:
  "abstract_write (W_InsertNode ''P'' [] None)
     (write_outcome text_graph_lib (W_InsertNode ''P'' [] None) new_graph) (graph_abs new_graph)
     (graph_abs (apply_write text_graph_lib (W_InsertNode ''P'' [] None) new_graph))"
  using writes_refine_abstract_graph [OF reachable_new counters_new, of "W_InsertNode ''P'' [] None" text_graph_lib]
  by (simp only: target_known_def write_op.case simp_thms)

text \<open>
  C7: in every state a session reaches, the neighbour lists agree with the endpoints of the
  live relationships, in both directions: \<open>out_edges\<close> and \<open>in_edges\<close> list an edge exactly
  when \<open>live_edge_endpoints\<close> gives it those ends.
\<close>

theorem neighbours_are_live_edges:
  assumes "reachable G g"
  shows "((r, i, dl, d) \<in> set (out_edges g sl s []) \<longleftrightarrow> live_edge_endpoints g r i = Some (sl, s, dl, d)) \<and>
         ((r, i, sl, s) \<in> set (in_edges g dl d []) \<longleftrightarrow> live_edge_endpoints g r i = Some (sl, s, dl, d))"
  using session_view.outs_live session_view.ins_live reachable_inv [OF assms] by blast

lemma counters_okI:
  assumes "pg_node_keys g = []" "pg_edge_keys g = []"
    "list_all (\<lambda>e. snd e < 100) (ov_node_counts (pg_overlay g))" "list_all (\<lambda>e. snd e < 100) (ov_edge_counts (pg_overlay g))"
  shows "counters_ok g"
proof -
  have small: "unat (al_default 0 m k) < 100" if "list_all (\<lambda>e. snd e < 100) m" for m :: "(string \<times> i64) list" and k
  proof (cases "map_of m k")
    case (Some c)
    then have "c < 100" using that map_of_SomeD by (fastforce simp: list_all_iff)
    then show ?thesis using Some by (simp add: al_default_def word_less_nat_alt)
  qed (simp add: al_default_def)
  have "unat (al_default 0 m k) + 1 < 2 ^ 64" if "list_all (\<lambda>e. snd e < 100) m" for m :: "(string \<times> i64) list" and k
    using small [OF that, of k] by (rule le_less_trans [OF Suc_leI [unfolded Suc_eq_plus1]]) simp
  then show ?thesis
    using assms by (simp add: counters_ok_def node_rows_def edge_rows_def al_default_def [of "[]"])
qed

definition demo_write :: "nat \<Rightarrow> property_graph" where
  "demo_write n = fold (apply_write text_graph_lib) (take n
     [W_InsertNode ''P'' [] None, W_InsertNode ''P'' [] None,
      W_InsertEdge ''K'' (V_Node ''P'' (eid_of_i64 0)) (V_Node ''P'' (eid_of_i64 1)) [] None]) new_graph"

lemma demo_counters: "counters_ok (demo_write 1)" "counters_ok (demo_write 2)"
  by (rule counters_okI; code_simp)+

lemma demo_edge: "live_edge_endpoints (demo_write 3) ''K'' (eid_of_i64 0) = Some (''P'', eid_of_i64 0, ''P'', eid_of_i64 1)"
  by code_simp

lemma reachable_demo: "reachable text_graph_lib (demo_write 3)"
proof -
  have "demo_write 3 = apply_write text_graph_lib
      (W_InsertEdge ''K'' (V_Node ''P'' (eid_of_i64 0)) (V_Node ''P'' (eid_of_i64 1)) [] None) (demo_write 2)"
    "demo_write 2 = apply_write text_graph_lib (W_InsertNode ''P'' [] None) (demo_write 1)"
    "demo_write 1 = apply_write text_graph_lib (W_InsertNode ''P'' [] None) new_graph"
    by (simp_all only: demo_write_def take_Cons' fold_simps o_apply) simp_all
  then show ?thesis
    using reachable_new counters_new demo_counters
    by (metis (no_types, lifting) reach_write target_known_def write_op.simps(50,51))
qed

theorem neighbours_are_live_edges_witness:
  "(''K'', eid_of_i64 0, ''P'', eid_of_i64 1) \<in> set (out_edges (demo_write 3) ''P'' (eid_of_i64 0) [])"
  using neighbours_are_live_edges [OF reachable_demo] demo_edge by blast

text \<open>
  C8: no reachable state has a live relationship whose source or destination node has been
  deleted.
\<close>

theorem no_dangling_relationships:
  assumes "reachable G g" and "live_edge_endpoints g r i = Some (sl, s, dl, d)"
  shows "(sl, s) \<notin> ov_deleted_nodes (pg_overlay g) \<and> (dl, d) \<notin> ov_deleted_nodes (pg_overlay g)"
  using graph_inv_parts(5) [OF reachable_inv [OF assms(1)]] assms(2) unfolding no_dangling_def by blast

theorem no_dangling_relationships_witness:
  "(''P'', eid_of_i64 0) \<notin> ov_deleted_nodes (pg_overlay (demo_write 3))"
  using no_dangling_relationships [OF reachable_demo demo_edge] by blast

text \<open>
  C9: an inserted relationship gets an identity that no relationship of its type has ever
  had in this graph, live, deleted or stored, and an inserted node one that no node of its
  label has had: row counters never hand out an identity twice.
\<close>

theorem identities_never_reused:
  assumes "reachable G g"
  shows "(\<forall>l ps v g'. try_insert_node_with_key G l ps None g = (Inr v, g') \<longrightarrow>
            (\<exists>i. v = V_Node l i \<and> \<not> has_node (pg_overlay g) (l, i) \<and> map_of (pg_node_locations g) (l, i) = None)) \<and>
         (\<forall>r src dst ps v g'. insert_edge_with_key G r src dst ps None g = (Inr v, g') \<longrightarrow>
            (\<exists>i sl s dl d. v = V_Edge r i sl s dl d None \<and> edge_endpoints g r i = None))"
proof (intro conjI allI impI)
  note inv = reachable_inv [OF assms]
  fix l ps v g' assume "try_insert_node_with_key G l ps None g = (Inr v, g')"
  then show "\<exists>i. v = V_Node l i \<and> \<not> has_node (pg_overlay g) (l, i) \<and> map_of (pg_node_locations g) (l, i) = None"
    using fresh_node_id [OF inv, of l] by (cases rule: insert_node_native [OF inv, of G l ps None]) auto
next
  note inv = reachable_inv [OF assms]
  fix r src dst ps v g' assume "insert_edge_with_key G r src dst ps None g = (Inr v, g')"
  then show "\<exists>i sl s dl d. v = V_Edge r i sl s dl d None \<and> edge_endpoints g r i = None"
    using fresh_edge_id(4) [OF inv, of r] by (cases rule: insert_edge_native [OF inv, of G r src dst ps None]) auto
qed

theorem identities_never_reused_witness:
  "\<not> has_node (pg_overlay new_graph) (''P'', eid_of_i64 0) \<and>
   fst (try_insert_node_with_key text_graph_lib ''P'' [] None new_graph) = Inr (V_Node ''P'' (eid_of_i64 0))"
proof -
  have ok: "fst (try_insert_node_with_key text_graph_lib ''P'' [] None new_graph) = Inr (V_Node ''P'' (eid_of_i64 0))"
    by code_simp
  obtain g' where "try_insert_node_with_key text_graph_lib ''P'' [] None new_graph = (Inr (V_Node ''P'' (eid_of_i64 0)), g')"
    using ok by (cases "try_insert_node_with_key text_graph_lib ''P'' [] None new_graph") simp
  from identities_never_reused [OF reachable_new, THEN conjunct1, rule_format, OF this] ok show ?thesis by auto
qed

end
