(* ===== verification/Incremental_Records.thy ===== *)
theory Incremental_Records
  imports Graph_Session Snapshot_Codec
begin

text \<open>
  Incremental overlay records (\<open>src/src/ir/catalog/incremental.rs\<close>) and the lookup of
  public identities they rebuild (\<open>src/src/ir/catalog/properties.rs\<close>): the checksummed
  record format, the encoding of the overlay entries of touched elements, and their
  application over a checkpoint.

  SHA-256 and the text of numbers are fields of \<open>store_lib\<close>.  A decoded field map is an
  association list; an adjacency position is a natural number.  Applying a record mutates the
  overlay field by field and stops at the first error; the model keeps the overlay as it is at
  that point.
\<close>

section \<open>Libraries\<close>

text \<open>
  What the records rely on beside the graph library: SHA-256, the decimal conversions of
  floats and the derived \<open>Debug\<close> text of a value, which key the public-identity lookup.
\<close>

record store_lib =
  sl_graph :: graph_lib
  sha256 :: "bytes \<Rightarrow> bytes"
  f32_decimal :: "f32 \<Rightarrow> (int \<times> int) option"
  f64_decimal :: "f64 \<Rightarrow> (int \<times> int) option"
  normalized_text :: "int \<Rightarrow> int \<Rightarrow> string"
  debug_text :: "val \<Rightarrow> string"

definition sha_ok :: "store_lib \<Rightarrow> bool" where
  "sha_ok S \<longleftrightarrow> (\<forall>bs. length (sha256 S bs) = 32)"

datatype incremental_error = Message string | BadBody decode_error

section \<open>Record format\<close>

definition VERSION :: u32 where "VERSION = 2"
definition CHECKSUM_LEN :: nat where "CHECKSUM_LEN = 32"
definition HEADER_LEN :: nat where "HEADER_LEN = 4 + CHECKSUM_LEN"

definition KIND_NODE :: i32 where "KIND_NODE = 1"
definition KIND_EDGE :: i32 where "KIND_EDGE = 2"
definition KIND_NODE_META :: i32 where "KIND_NODE_META = 3"
definition KIND_EDGE_META :: i32 where "KIND_EDGE_META = 4"

definition T_INSERTED :: i64 where "T_INSERTED = 1"
definition T_OVERRIDES :: i64 where "T_OVERRIDES = 2"
definition T_DELETED :: i64 where "T_DELETED = 3"
definition T_REPLACED :: i64 where "T_REPLACED = 4"
definition T_OUT_POSITION :: i64 where "T_OUT_POSITION = 5"
definition T_IN_POSITION :: i64 where "T_IN_POSITION = 6"
definition T_COUNT :: i64 where "T_COUNT = 1"
definition T_INSERTED_KEYS :: i64 where "T_INSERTED_KEYS = 2"
definition T_OVERRIDE_KEYS :: i64 where "T_OVERRIDE_KEYS = 3"
definition T_NATIVE :: i64 where "T_NATIVE = 7"
definition T_NULL_PROPERTIES :: i64 where "T_NULL_PROPERTIES = 8"
definition T_NULL_VALUES :: i64 where "T_NULL_VALUES = 9"
definition T_LABELS :: i64 where "T_LABELS = 10"
definition T_CYPHER_ID :: i64 where "T_CYPHER_ID = 11"

lemmas record_tags = T_INSERTED_def T_OVERRIDES_def T_DELETED_def T_REPLACED_def T_OUT_POSITION_def
  T_IN_POSITION_def T_COUNT_def T_INSERTED_KEYS_def T_OVERRIDE_KEYS_def T_NATIVE_def
  T_NULL_PROPERTIES_def T_NULL_VALUES_def T_LABELS_def T_CYPHER_ID_def

lemmas record_kinds = KIND_NODE_def KIND_EDGE_def KIND_NODE_META_def KIND_EDGE_META_def

definition ENTITY_TAGS :: "i64 list" where
  "ENTITY_TAGS = [T_INSERTED, T_OVERRIDES, T_DELETED, T_REPLACED, T_NATIVE, T_NULL_VALUES, T_LABELS, T_CYPHER_ID]"

definition EDGE_TAGS :: "i64 list" where
  "EDGE_TAGS = [T_CYPHER_ID, T_NULL_VALUES, T_NULL_PROPERTIES, T_NATIVE, T_INSERTED, T_OVERRIDES,
     T_DELETED, T_REPLACED, T_OUT_POSITION, T_IN_POSITION]"

definition META_TAGS :: "i64 list" where
  "META_TAGS = [T_COUNT, T_INSERTED_KEYS, T_OVERRIDE_KEYS]"

record incremental_record =
  ir_kind :: i32
  ir_name :: string
  ir_id :: element_id
  ir_payload :: bytes

definition record_field :: "i64 \<Rightarrow> val \<Rightarrow> val" where
  "record_field tag v = V_List [V_Int tag, v]"

text \<open>The bytes the checksum covers.\<close>

definition checksum_input :: "store_lib \<Rightarrow> u32 \<Rightarrow> i32 \<Rightarrow> string \<Rightarrow> element_id \<Rightarrow> bytes \<Rightarrow> bytes" where
  "checksum_input S version kind name i body =
     put_u32 version @ to_le_bytes kind @ put_str name @
     (if version = 1 then to_le_bytes (case eid_as_i64 i of Some n \<Rightarrow> n | None \<Rightarrow> 0)
      else eid_encode (gl_values (sl_graph S)) i) @ body"

definition record_checksum :: "store_lib \<Rightarrow> u32 \<Rightarrow> i32 \<Rightarrow> string \<Rightarrow> element_id \<Rightarrow> bytes \<Rightarrow> bytes" where
  "record_checksum S version kind name i body = sha256 S (checksum_input S version kind name i body)"

definition encode_record :: "store_lib \<Rightarrow> i32 \<Rightarrow> string \<Rightarrow> element_id \<Rightarrow> val \<Rightarrow> incremental_record" where
  "encode_record S kind name i body =
     (let bs = encode_value_bytes (gl_values (sl_graph S)) body in
      \<lparr>ir_kind = kind, ir_name = name, ir_id = i,
       ir_payload = put_u32 VERSION @ record_checksum S VERSION kind name i bs @ bs\<rparr>)"

definition decode_body :: "store_lib \<Rightarrow> incremental_record \<Rightarrow> incremental_error + val" where
  "decode_body S r =
     (let p = ir_payload r in
      if length p < HEADER_LEN then Inl (Message ''incremental record payload too short'')
      else
        let version = from_le_bytes (take 4 p) in
        if version \<noteq> 1 \<and> version \<noteq> VERSION
        then Inl (Message (''unsupported incremental record version '' @ show_nat (unat version)))
        else
          let stored = take CHECKSUM_LEN (drop 4 p); body = drop HEADER_LEN p in
          if stored \<noteq> record_checksum S version (ir_kind r) (ir_name r) (ir_id r) body
          then Inl (Message ''incremental record checksum mismatch'')
          else case decode_value_bytes (gl_values (sl_graph S)) body of
            Inl e \<Rightarrow> Inl (BadBody e) | Inr v \<Rightarrow> Inr v)"

section \<open>Fields\<close>

type_synonym fields = "(i64 \<times> val) list"

fun decode_items :: "i64 list \<Rightarrow> val list \<Rightarrow> fields \<Rightarrow> incremental_error + fields" where
  "decode_items allowed [] fs = Inr fs"
| "decode_items allowed (item # items) fs =
     (case item of
        V_List pair \<Rightarrow>
          (case pair of
             [t, v] \<Rightarrow>
               (case t of
                  V_Int tag \<Rightarrow>
                    if tag \<notin> set allowed then Inl (Message (''unknown incremental record field tag '' @ show_i64 tag))
                    else if map_of fs tag \<noteq> None
                    then Inl (Message (''duplicate incremental record field tag '' @ show_i64 tag))
                    else decode_items allowed items (fs @ [(tag, v)])
                | _ \<Rightarrow> Inl (Message ''incremental record field tag must be an integer''))
           | _ \<Rightarrow> Inl (Message ''incremental record field must have exactly two elements''))
      | _ \<Rightarrow> Inl (Message ''incremental record field must be a tag/value pair''))"

definition decode_fields :: "val \<Rightarrow> i64 list \<Rightarrow> incremental_error + fields" where
  "decode_fields body allowed =
     (case body of
        V_List items \<Rightarrow> decode_items allowed items []
      | _ \<Rightarrow> Inl (Message ''incremental record payload must be a list''))"

definition decode_props :: "val \<Rightarrow> incremental_error + props" where
  "decode_props v = (case v of V_Map m \<Rightarrow> Inr m
     | _ \<Rightarrow> Inl (Message (''incremental record expected a property map, got '' @ type_name v)))"

definition decode_flag :: "val \<Rightarrow> incremental_error + bool" where
  "decode_flag v = (case v of V_Bool b \<Rightarrow> Inr b
     | _ \<Rightarrow> Inl (Message (''incremental record expected a flag, got '' @ type_name v)))"

definition decode_count :: "val \<Rightarrow> incremental_error + i64" where
  "decode_count v = (case v of
       V_Int n \<Rightarrow> if 0 \<le> sint n then Inr n
         else Inl (Message (''incremental record has negative count '' @ show_i64 n))
     | _ \<Rightarrow> Inl (Message (''incremental record expected an allocation count, got '' @ type_name v)))"

definition decode_key :: "val \<Rightarrow> incremental_error + string" where
  "decode_key v = (case v of V_String s \<Rightarrow> Inr s
     | _ \<Rightarrow> Inl (Message (''incremental record expected a string key, got '' @ type_name v)))"

definition decode_key_list :: "val \<Rightarrow> incremental_error + string list" where
  "decode_key_list v = (case v of V_List items \<Rightarrow> collect_res (map decode_key items)
     | _ \<Rightarrow> Inl (Message ''incremental record expected a key list''))"

definition string_at :: "string \<Rightarrow> val \<Rightarrow> incremental_error + string" where
  "string_at what v = (case v of V_String s \<Rightarrow> Inr s
     | _ \<Rightarrow> Inl (Message (''incremental record '' @ what @ '' must be a string, got '' @ type_name v)))"

definition id_at :: "store_lib \<Rightarrow> val \<Rightarrow> incremental_error + element_id" where
  "id_at S v = (case element_of_value (sl_graph S) v of Inl e \<Rightarrow> Inl (Message e) | Inr i \<Rightarrow> Inr i)"

definition decode_inserted_edge :: "store_lib \<Rightarrow> val \<Rightarrow> incremental_error + inserted_edge" where
  "decode_inserted_edge S v =
     (case v of
        V_List items \<Rightarrow>
          (case items of
             [sl, s, dl, d, ps] \<Rightarrow>
               bind_res (string_at ''src_label'' sl) (\<lambda>sl.
               bind_res (id_at S s) (\<lambda>s.
               bind_res (string_at ''dst_label'' dl) (\<lambda>dl.
               bind_res (id_at S d) (\<lambda>d.
               bind_res (decode_props ps) (\<lambda>ps.
                 Inr \<lparr>ie_src_label = sl, ie_src_id = s, ie_dst_label = dl, ie_dst_id = d, ie_props = ps\<rparr>)))))
           | _ \<Rightarrow> Inl (Message ''incremental record inserted edge must have five elements''))
      | _ \<Rightarrow> Inl (Message ''incremental record inserted edge must be a list''))"

section \<open>Adjacency order\<close>

type_synonym positions = "(addr \<times> nat) list"

definition edge_positions :: "(addr \<times> addr list) list \<Rightarrow> positions" where
  "edge_positions adj =
     fold (\<lambda>(k, i) m. AList.update k i m)
       (concat (map (\<lambda>(_, es). map (\<lambda>(i, e). (e, i)) (enumerate 0 es)) adj)) []"

definition adjacency_positions :: "graph_overlay \<Rightarrow> positions \<times> positions" where
  "adjacency_positions ov = (edge_positions (ov_out_adj ov), edge_positions (ov_in_adj ov))"

definition addr_le :: "graph_lib \<Rightarrow> addr \<Rightarrow> addr \<Rightarrow> bool" where
  "addr_le G a b \<longleftrightarrow> fst a < fst b \<or> fst a = fst b \<and> id_le G (snd a) (snd b)"

definition push_inserted :: "(inserted_edge \<Rightarrow> addr) \<Rightarrow> (addr \<times> inserted_edge) list \<Rightarrow> (addr \<times> addr list) list" where
  "push_inserted at es = fold (\<lambda>(k, e). al_upd [] (\<lambda>ks. ks @ [k]) (at e)) es []"

definition order_lists :: "positions \<Rightarrow> (addr \<times> addr list) list \<Rightarrow> (addr \<times> addr list) list" where
  "order_lists places adj =
     map (\<lambda>(a, ks). (a, sort_key (al_default (2 ^ 64 - 1) places) ks)) adj"

definition rebuild_inserted_adjacency ::
  "store_lib \<Rightarrow> positions \<times> positions \<Rightarrow> graph_overlay \<Rightarrow> graph_overlay" where
  "rebuild_inserted_adjacency S places ov =
     (let es = sort_by (\<lambda>a b. addr_le (sl_graph S) (fst a) (fst b)) (ov_inserted_edges ov) in
      ov\<lparr>ov_out_adj := order_lists (fst places) (push_inserted ie_src es),
         ov_in_adj := order_lists (snd places) (push_inserted ie_dst es)\<rparr>)"

section \<open>Bodies\<close>

definition opt_field :: "i64 \<Rightarrow> val option \<Rightarrow> val list" where
  "opt_field tag v = (case v of None \<Rightarrow> [] | Some x \<Rightarrow> [record_field tag x])"

definition flag_field :: "i64 \<Rightarrow> bool \<Rightarrow> val list" where
  "flag_field tag b = (if b then [record_field tag (V_Bool True)] else [])"

definition string_set_value :: "string set \<Rightarrow> val" where
  "string_set_value ss = V_List (map V_String (sorted_list_of_set ss))"

definition encode_node_body :: "addr \<Rightarrow> graph_overlay \<Rightarrow> val list" where
  "encode_node_body k ov =
     [record_field T_NATIVE (native_node_state k ov), record_field T_NULL_VALUES (V_Bool (ov_allow_null ov))] @
     opt_field T_CYPHER_ID (map_option V_Long (map_of (ov_cypher_ids ov) (False, k))) @
     opt_field T_LABELS (map_option string_set_value (map_of (ov_label_sets ov) k)) @
     opt_field T_INSERTED (map_option V_Map (map_of (ov_inserted_nodes ov) k)) @
     opt_field T_OVERRIDES (map_option V_Map (map_of (ov_node_overrides ov) k)) @
     flag_field T_DELETED (k \<in> ov_deleted_nodes ov) @
     flag_field T_REPLACED (k \<in> ov_replaced_nodes ov)"

definition inserted_edge_value :: "inserted_edge \<Rightarrow> val" where
  "inserted_edge_value e =
     V_List [V_String (ie_src_label e), V_Scalar (eid_scalar (ie_src_id e)),
       V_String (ie_dst_label e), V_Scalar (eid_scalar (ie_dst_id e)), V_Map (ie_props e)]"

definition edge_position :: "(addr \<times> addr list) list \<Rightarrow> addr \<Rightarrow> addr \<Rightarrow> nat option" where
  "edge_position adj a k = Option.bind (map_of adj a) (find_index (\<lambda>c. c = k))"

definition edge_inserted_fields :: "addr \<Rightarrow> graph_overlay \<Rightarrow> val list" where
  "edge_inserted_fields k ov =
     (case map_of (ov_inserted_edges ov) k of
        None \<Rightarrow> []
      | Some e \<Rightarrow>
          [record_field T_INSERTED (inserted_edge_value e)] @
          opt_field T_OUT_POSITION (map_option (\<lambda>n. V_Int (of_nat n)) (edge_position (ov_out_adj ov) (ie_src e) k)) @
          opt_field T_IN_POSITION (map_option (\<lambda>n. V_Int (of_nat n)) (edge_position (ov_in_adj ov) (ie_dst e) k)))"

definition encode_edge_body :: "addr \<Rightarrow> graph_overlay \<Rightarrow> val list" where
  "encode_edge_body k ov =
     [record_field T_NATIVE (case map_of (ov_public_ids ov) (True, k) of None \<Rightarrow> V_Null | Some p \<Rightarrow> p)] @
     opt_field T_CYPHER_ID (map_option V_Long (map_of (ov_cypher_ids ov) (True, k))) @
     [record_field T_NULL_VALUES (V_Bool (ov_allow_null ov))] @
     opt_field T_NULL_PROPERTIES (map_option string_set_value (map_of (ov_edge_nulls ov) k)) @
     edge_inserted_fields k ov @
     opt_field T_OVERRIDES (map_option V_Map (map_of (ov_edge_overrides ov) k)) @
     flag_field T_DELETED (k \<in> ov_deleted_edges ov) @
     flag_field T_REPLACED (k \<in> ov_replaced_edges ov)"

definition key_list_value :: "string list \<Rightarrow> val" where
  "key_list_value ks = V_List (map V_String ks)"

definition encode_node_meta_body :: "string \<Rightarrow> graph_overlay \<Rightarrow> val list" where
  "encode_node_meta_body label ov =
     opt_field T_COUNT (map_option V_Int (map_of (ov_node_counts ov) label)) @
     opt_field T_INSERTED_KEYS (map_option key_list_value (map_of (ov_inserted_node_keys ov) label)) @
     opt_field T_OVERRIDE_KEYS (map_option key_list_value (map_of (ov_override_node_keys ov) label))"

definition encode_edge_meta_body :: "string \<Rightarrow> graph_overlay \<Rightarrow> val list" where
  "encode_edge_meta_body rel ov =
     opt_field T_COUNT (map_option V_Int (map_of (ov_edge_counts ov) rel)) @
     opt_field T_INSERTED_KEYS (map_option key_list_value (map_of (ov_inserted_edge_keys ov) rel)) @
     opt_field T_OVERRIDE_KEYS (map_option key_list_value (map_of (ov_override_edge_keys ov) rel))"

section \<open>Records of a pending set\<close>

text \<open>A \<open>BTreeSet\<close> of addresses, in its iteration order, is the list \<open>nodes\<close> or \<open>edges\<close>.\<close>

definition incremental_records :: "store_lib \<Rightarrow> addr list \<Rightarrow> addr list \<Rightarrow> graph_overlay \<Rightarrow> incremental_record list" where
  "incremental_records S nodes edges ov =
     map (\<lambda>k. encode_record S KIND_NODE (fst k) (snd k) (V_List (encode_node_body k ov))) nodes @
     map (\<lambda>k. encode_record S KIND_EDGE (fst k) (snd k) (V_List (encode_edge_body k ov))) edges @
     map (\<lambda>l. encode_record S KIND_NODE_META l (eid_of_i64 0) (V_List (encode_node_meta_body l ov)))
       (sorted_list_of_set (set (map fst nodes))) @
     map (\<lambda>r. encode_record S KIND_EDGE_META r (eid_of_i64 0) (V_List (encode_edge_meta_body r ov)))
       (sorted_list_of_set (set (map fst edges)))"

section \<open>Applying records\<close>

text \<open>
  Applying a record edits the overlay in place and stops at the first error, so a step
  returns its result with the overlay it leaves behind.
\<close>

type_synonym ov_step = "graph_overlay \<Rightarrow> (incremental_error + unit) \<times> graph_overlay"

definition step_do :: "(graph_overlay \<Rightarrow> graph_overlay) \<Rightarrow> ov_step" where
  "step_do f ov = (Inr (), f ov)"

definition step_fail :: "string \<Rightarrow> ov_step" where
  "step_fail e ov = (Inl (Message e), ov)"

definition step_with :: "incremental_error + 'a \<Rightarrow> ('a \<Rightarrow> graph_overlay \<Rightarrow> graph_overlay) \<Rightarrow> ov_step" where
  "step_with r f ov = (case r of Inl e \<Rightarrow> (Inl e, ov) | Inr a \<Rightarrow> (Inr (), f a ov))"

definition on_field :: "fields \<Rightarrow> i64 \<Rightarrow> (val \<Rightarrow> ov_step) \<Rightarrow> ov_step" where
  "on_field fs tag f = (case map_of fs tag of None \<Rightarrow> step_do id | Some v \<Rightarrow> f v)"

fun run_steps :: "ov_step list \<Rightarrow> ov_step" where
  "run_steps [] ov = (Inr (), ov)"
| "run_steps (s # ss) ov = (case s ov of (Inl e, ov') \<Rightarrow> (Inl e, ov') | (Inr u, ov') \<Rightarrow> run_steps ss ov')"

definition plain_string :: "string \<Rightarrow> val \<Rightarrow> incremental_error + string" where
  "plain_string e v = (case v of V_String s \<Rightarrow> Inr s | _ \<Rightarrow> Inl (Message e))"

definition decode_string_set :: "string \<Rightarrow> string \<Rightarrow> val \<Rightarrow> incremental_error + string set" where
  "decode_string_set bad_list bad_item v =
     (case v of
        V_List items \<Rightarrow> bind_res (collect_res (map (plain_string bad_item) items)) (\<lambda>ss. Inr (set ss))
      | _ \<Rightarrow> Inl (Message bad_list))"

definition decode_cypher_id :: "val \<Rightarrow> incremental_error + i64" where
  "decode_cypher_id v = (case v of V_Long n \<Rightarrow> Inr n | _ \<Rightarrow> Inl (Message ''Invalid Cypher identity''))"

definition step_cypher_id :: "bool \<Rightarrow> addr \<Rightarrow> val \<Rightarrow> ov_step" where
  "step_cypher_id edge k v = step_with (decode_cypher_id v) (\<lambda>n ov.
     ov\<lparr>ov_cypher_ids := AList.update (edge, k) n (ov_cypher_ids ov)\<rparr>)"

definition step_allow_null :: "val \<Rightarrow> ov_step" where
  "step_allow_null v = step_with (decode_flag v) (\<lambda>b ov. ov\<lparr>ov_allow_null := b\<rparr>)"

definition step_native :: "addr \<Rightarrow> val \<Rightarrow> ov_step" where
  "step_native k v ov = (case restore_native_node_state k v ov of
     (Inl e, ov') \<Rightarrow> (Inl (Message e), ov') | (Inr u, ov') \<Rightarrow> (Inr (), ov'))"

definition node_steps :: "fields \<Rightarrow> addr \<Rightarrow> ov_step list" where
  "node_steps fs k =
     [on_field fs T_CYPHER_ID (step_cypher_id False k),
      on_field fs T_NULL_VALUES step_allow_null,
      on_field fs T_NATIVE (step_native k),
      step_do (\<lambda>ov. ov\<lparr>ov_label_sets := AList.delete k (ov_label_sets ov)\<rparr>),
      on_field fs T_LABELS (\<lambda>v. step_with (decode_string_set ''Invalid node label set'' ''Invalid node label'' v)
        (\<lambda>ls ov. ov\<lparr>ov_label_sets := AList.update k ls (ov_label_sets ov)\<rparr>)),
      step_do (\<lambda>ov. ov\<lparr>ov_inserted_nodes := AList.delete k (ov_inserted_nodes ov),
        ov_node_overrides := AList.delete k (ov_node_overrides ov),
        ov_deleted_nodes := ov_deleted_nodes ov - {k},
        ov_replaced_nodes := ov_replaced_nodes ov - {k}\<rparr>),
      on_field fs T_INSERTED (\<lambda>v. step_with (decode_props v)
        (\<lambda>ps ov. ov\<lparr>ov_inserted_nodes := AList.update k ps (ov_inserted_nodes ov)\<rparr>)),
      on_field fs T_OVERRIDES (\<lambda>v. step_with (decode_props v)
        (\<lambda>ps ov. ov\<lparr>ov_node_overrides := AList.update k ps (ov_node_overrides ov)\<rparr>)),
      on_field fs T_DELETED (\<lambda>v. step_with (decode_flag v)
        (\<lambda>b ov. if b then ov\<lparr>ov_deleted_nodes := insert k (ov_deleted_nodes ov)\<rparr> else ov)),
      on_field fs T_REPLACED (\<lambda>v. step_with (decode_flag v)
        (\<lambda>b ov. if b then ov\<lparr>ov_replaced_nodes := insert k (ov_replaced_nodes ov)\<rparr> else ov))]"

definition edge_steps :: "store_lib \<Rightarrow> fields \<Rightarrow> addr \<Rightarrow> ov_step list" where
  "edge_steps S fs k =
     [on_field fs T_CYPHER_ID (step_cypher_id True k),
      on_field fs T_NULL_VALUES step_allow_null,
      step_do (\<lambda>ov. ov\<lparr>ov_public_ids := AList.delete (True, k) (ov_public_ids ov)\<rparr>),
      on_field fs T_NATIVE (\<lambda>v. step_do (\<lambda>ov. if v = V_Null then ov
        else ov\<lparr>ov_public_ids := AList.update (True, k) v (ov_public_ids ov)\<rparr>)),
      step_do (\<lambda>ov. ov\<lparr>ov_edge_nulls := AList.delete k (ov_edge_nulls ov)\<rparr>),
      on_field fs T_NULL_PROPERTIES (\<lambda>v. step_with (decode_string_set ''Invalid null property keys'' ''Invalid null property key'' v)
        (\<lambda>ks ov. ov\<lparr>ov_edge_nulls := AList.update k ks (ov_edge_nulls ov)\<rparr>)),
      step_do (\<lambda>ov. ov\<lparr>ov_inserted_edges := AList.delete k (ov_inserted_edges ov),
        ov_edge_overrides := AList.delete k (ov_edge_overrides ov),
        ov_deleted_edges := ov_deleted_edges ov - {k},
        ov_replaced_edges := ov_replaced_edges ov - {k}\<rparr>),
      on_field fs T_INSERTED (\<lambda>v. step_with (decode_inserted_edge S v)
        (\<lambda>e ov. ov\<lparr>ov_inserted_edges := AList.update k e (ov_inserted_edges ov)\<rparr>)),
      on_field fs T_OVERRIDES (\<lambda>v. step_with (decode_props v)
        (\<lambda>ps ov. ov\<lparr>ov_edge_overrides := AList.update k ps (ov_edge_overrides ov)\<rparr>)),
      on_field fs T_DELETED (\<lambda>v. step_with (decode_flag v)
        (\<lambda>b ov. if b then ov\<lparr>ov_deleted_edges := insert k (ov_deleted_edges ov)\<rparr> else ov)),
      on_field fs T_REPLACED (\<lambda>v. step_with (decode_flag v)
        (\<lambda>b ov. if b then ov\<lparr>ov_replaced_edges := insert k (ov_replaced_edges ov)\<rparr> else ov))]"

definition node_meta_steps :: "fields \<Rightarrow> string \<Rightarrow> ov_step list" where
  "node_meta_steps fs label =
     [step_do (\<lambda>ov. ov\<lparr>ov_node_counts := AList.delete label (ov_node_counts ov),
        ov_inserted_node_keys := AList.delete label (ov_inserted_node_keys ov),
        ov_override_node_keys := AList.delete label (ov_override_node_keys ov)\<rparr>),
      on_field fs T_COUNT (\<lambda>v. step_with (decode_count v)
        (\<lambda>n ov. ov\<lparr>ov_node_counts := AList.update label n (ov_node_counts ov)\<rparr>)),
      on_field fs T_INSERTED_KEYS (\<lambda>v. step_with (decode_key_list v)
        (\<lambda>ks ov. ov\<lparr>ov_inserted_node_keys := AList.update label ks (ov_inserted_node_keys ov)\<rparr>)),
      on_field fs T_OVERRIDE_KEYS (\<lambda>v. step_with (decode_key_list v)
        (\<lambda>ks ov. ov\<lparr>ov_override_node_keys := AList.update label ks (ov_override_node_keys ov)\<rparr>))]"

definition edge_meta_steps :: "fields \<Rightarrow> string \<Rightarrow> ov_step list" where
  "edge_meta_steps fs rel =
     [step_do (\<lambda>ov. ov\<lparr>ov_edge_counts := AList.delete rel (ov_edge_counts ov),
        ov_inserted_edge_keys := AList.delete rel (ov_inserted_edge_keys ov),
        ov_override_edge_keys := AList.delete rel (ov_override_edge_keys ov)\<rparr>),
      on_field fs T_COUNT (\<lambda>v. step_with (decode_count v)
        (\<lambda>n ov. ov\<lparr>ov_edge_counts := AList.update rel n (ov_edge_counts ov)\<rparr>)),
      on_field fs T_INSERTED_KEYS (\<lambda>v. step_with (decode_key_list v)
        (\<lambda>ks ov. ov\<lparr>ov_inserted_edge_keys := AList.update rel ks (ov_inserted_edge_keys ov)\<rparr>)),
      on_field fs T_OVERRIDE_KEYS (\<lambda>v. step_with (decode_key_list v)
        (\<lambda>ks ov. ov\<lparr>ov_override_edge_keys := AList.update rel ks (ov_override_edge_keys ov)\<rparr>))]"

definition with_fields :: "store_lib \<Rightarrow> i64 list \<Rightarrow> incremental_record \<Rightarrow> (fields \<Rightarrow> ov_step list) \<Rightarrow> ov_step" where
  "with_fields S allowed r f ov =
     (case bind_res (decode_body S r) (\<lambda>body. decode_fields body allowed) of
        Inl e \<Rightarrow> (Inl e, ov)
      | Inr fs \<Rightarrow> run_steps (f fs) ov)"

definition apply_node :: "store_lib \<Rightarrow> incremental_record \<Rightarrow> ov_step" where
  "apply_node S r = with_fields S ENTITY_TAGS r (\<lambda>fs. node_steps fs (ir_name r, ir_id r))"

definition apply_edge :: "store_lib \<Rightarrow> incremental_record \<Rightarrow> ov_step" where
  "apply_edge S r = with_fields S EDGE_TAGS r (\<lambda>fs. edge_steps S fs (ir_name r, ir_id r))"

definition apply_node_meta :: "store_lib \<Rightarrow> incremental_record \<Rightarrow> ov_step" where
  "apply_node_meta S r = with_fields S META_TAGS r (\<lambda>fs. node_meta_steps fs (ir_name r))"

definition apply_edge_meta :: "store_lib \<Rightarrow> incremental_record \<Rightarrow> ov_step" where
  "apply_edge_meta S r = with_fields S META_TAGS r (\<lambda>fs. edge_meta_steps fs (ir_name r))"

definition apply_one :: "store_lib \<Rightarrow> incremental_record \<Rightarrow> ov_step" where
  "apply_one S r =
     (let misnumbered = (\<lambda>what. what @ '' metadata record `'' @ ir_name r @ ''` must have id 0, got '' @
        id_text (sl_graph S) (ir_id r)) in
      if ir_kind r = KIND_NODE then apply_node S r
      else if ir_kind r = KIND_EDGE then apply_edge S r
      else if ir_kind r = KIND_NODE_META then
        (if ir_id r \<noteq> eid_of_i64 0 then step_fail (misnumbered ''node'') else apply_node_meta S r)
      else if ir_kind r = KIND_EDGE_META then
        (if ir_id r \<noteq> eid_of_i64 0 then step_fail (misnumbered ''edge'') else apply_edge_meta S r)
      else step_fail (''unknown incremental record kind '' @ show_int (sint (ir_kind r))))"

text \<open>The adjacency position an edge record carries under a tag.\<close>

definition note_position :: "fields \<Rightarrow> addr \<Rightarrow> i64 \<Rightarrow> positions \<Rightarrow> incremental_error + positions" where
  "note_position fs k tag places =
     (case map_of fs tag of
        None \<Rightarrow> Inl (Message ''inserted edge is missing adjacency order'')
      | Some v \<Rightarrow> bind_res (decode_count v) (\<lambda>n. Inr (AList.update k (unat n) places)))"

definition record_positions ::
  "store_lib \<Rightarrow> incremental_record \<Rightarrow> positions \<times> positions \<Rightarrow> incremental_error + positions \<times> positions" where
  "record_positions S r places =
     (if ir_kind r \<noteq> KIND_EDGE then Inr places
      else bind_res (bind_res (decode_body S r) (\<lambda>body. decode_fields body EDGE_TAGS)) (\<lambda>fs.
        if map_of fs T_INSERTED = None then Inr places
        else bind_res (note_position fs (ir_name r, ir_id r) T_OUT_POSITION (fst places)) (\<lambda>out.
          bind_res (note_position fs (ir_name r, ir_id r) T_IN_POSITION (snd places)) (\<lambda>inc. Inr (out, inc)))))"

fun apply_records ::
  "store_lib \<Rightarrow> incremental_record list \<Rightarrow> positions \<times> positions \<Rightarrow> graph_overlay \<Rightarrow>
     (incremental_error + positions \<times> positions) \<times> graph_overlay" where
  "apply_records S [] places ov = (Inr places, ov)"
| "apply_records S (r # rs) places ov =
     (case apply_one S r ov of
        (Inl e, ov') \<Rightarrow> (Inl e, ov')
      | (Inr u, ov') \<Rightarrow>
          (case record_positions S r places of
             Inl e \<Rightarrow> (Inl e, ov')
           | Inr places' \<Rightarrow> apply_records S rs places' ov'))"

definition public_number :: "store_lib \<Rightarrow> val \<Rightarrow> (int \<times> int) option" where
  "public_number S v =
     (case v of
        V_Byte n \<Rightarrow> Some (sint n, 0)
      | V_UInt8 n \<Rightarrow> Some (uint n, 0)
      | V_Short n \<Rightarrow> Some (sint n, 0)
      | V_UInt16 n \<Rightarrow> Some (uint n, 0)
      | V_Int n \<Rightarrow> Some (sint n, 0)
      | V_Long n \<Rightarrow> Some (sint n, 0)
      | V_UInt32 n \<Rightarrow> Some (uint n, 0)
      | V_UInt64 n \<Rightarrow> Some (uint n, 0)
      | V_BigInt n \<Rightarrow> Some (n, 0)
      | V_UInt128 n \<Rightarrow> Some (n, 0)
      | V_Float32 x \<Rightarrow> f32_decimal S x
      | V_Float x \<Rightarrow> f64_decimal S x
      | V_BigDecimal n s \<Rightarrow> Some (n, s)
      | _ \<Rightarrow> None)"

definition public_id_key :: "store_lib \<Rightarrow> val \<Rightarrow> string" where
  "public_id_key S v =
     (case public_number S v of
        Some (n, s) \<Rightarrow> ''number:'' @ normalized_text S n s
      | None \<Rightarrow> debug_text S v)"

definition element_addr_le :: "graph_lib \<Rightarrow> element_addr \<Rightarrow> element_addr \<Rightarrow> bool" where
  "element_addr_le G a b \<longleftrightarrow> (\<not> fst a \<and> fst b) \<or> fst a = fst b \<and> addr_le G (snd a) (snd b)"

definition rebuild_public_id_lookup :: "store_lib \<Rightarrow> graph_overlay \<Rightarrow> graph_overlay" where
  "rebuild_public_id_lookup S ov = ov\<lparr>
     ov_public_lookup := fold (\<lambda>(a, p). al_upd [] (\<lambda>as. as @ [a]) (public_id_key S p))
       (sort_by (\<lambda>a b. element_addr_le (sl_graph S) (fst a) (fst b)) (ov_public_ids ov)) [],
     ov_unassigned := filter (\<lambda>a. map_of (ov_public_ids ov) a = None)
       (map (\<lambda>e. (False, fst e)) (ov_inserted_nodes ov) @ map (\<lambda>e. (True, fst e)) (ov_inserted_edges ov))\<rparr>"

definition apply_incremental_records ::
  "store_lib \<Rightarrow> incremental_record list \<Rightarrow> graph_overlay \<Rightarrow> (incremental_error + unit) \<times> graph_overlay" where
  "apply_incremental_records S rs ov =
     (case apply_records S rs (adjacency_positions ov) ov of
        (Inl e, ov') \<Rightarrow> (Inl e, ov')
      | (Inr places, ov') \<Rightarrow> (Inr (), rebuild_public_id_lookup S (rebuild_inserted_adjacency S places ov')))"

section \<open>A record decodes to its body\<close>

lemma decode_encode_record:
  assumes "sha_ok S" and "snapshot_fits (gl_values (sl_graph S)) body"
  shows "decode_body S (encode_record S kind name i body) = Inr body"
proof -
  let ?L = "gl_values (sl_graph S)" and ?bs = "encode_value_bytes (gl_values (sl_graph S)) body"
  have d: "decode_value_bytes ?L ?bs = Inr body"
    unfolding decode_value_bytes_def encode_value_bytes_def by (rule snapshot.roundtrip [OF assms(2)])
  have c: "length (record_checksum S VERSION kind name i ?bs) = 32"
    using assms(1) by (simp add: record_checksum_def sha_ok_def)
  have v: "from_le_bytes (put_u32 VERSION) = VERSION" by (simp add: put_u32_def byte_simps)
  have l: "length (put_u32 VERSION) = 4" by (simp add: put_u32_def)
  show ?thesis
    using d c by (simp add: decode_body_def encode_record_def Let_def HEADER_LEN_def CHECKSUM_LEN_def l v)
qed

definition opt_pair :: "i64 \<Rightarrow> val option \<Rightarrow> fields" where
  "opt_pair tag v = (case v of None \<Rightarrow> [] | Some x \<Rightarrow> [(tag, x)])"

lemma map_of_opt_pair [simp]: "map_of (opt_pair tag v) = (if v = None then Map.empty else [tag \<mapsto> the v])"
  by (auto simp: opt_pair_def split: option.split)

lemma decode_items_field [simp]:
  assumes "tag \<in> set allowed" and "map_of fs tag = None"
  shows "decode_items allowed (record_field tag v # items) fs = decode_items allowed items (fs @ [(tag, v)])"
  using assms by (simp add: record_field_def)

declare decode_items.simps(2) [simp del]

lemma decode_items_opt [simp]:
  assumes "tag \<in> set allowed" and "map_of fs tag = None"
  shows "decode_items allowed (opt_field tag v @ items) fs = decode_items allowed items (fs @ opt_pair tag v)"
  using assms by (simp add: opt_field_def opt_pair_def split: option.split)

definition flag_value :: "bool \<Rightarrow> val option" where
  "flag_value b = (if b then Some (V_Bool True) else None)"

lemma flag_field_opt: "flag_field tag b = opt_field tag (flag_value b)"
  by (simp add: flag_field_def opt_field_def flag_value_def)

definition node_fields :: "addr \<Rightarrow> graph_overlay \<Rightarrow> fields" where
  "node_fields k ov =
     [(T_NATIVE, native_node_state k ov), (T_NULL_VALUES, V_Bool (ov_allow_null ov))] @
     opt_pair T_CYPHER_ID (map_option V_Long (map_of (ov_cypher_ids ov) (False, k))) @
     opt_pair T_LABELS (map_option string_set_value (map_of (ov_label_sets ov) k)) @
     opt_pair T_INSERTED (map_option V_Map (map_of (ov_inserted_nodes ov) k)) @
     opt_pair T_OVERRIDES (map_option V_Map (map_of (ov_node_overrides ov) k)) @
     opt_pair T_DELETED (flag_value (k \<in> ov_deleted_nodes ov)) @
     opt_pair T_REPLACED (flag_value (k \<in> ov_replaced_nodes ov))"

definition edge_fields :: "addr \<Rightarrow> graph_overlay \<Rightarrow> fields" where
  "edge_fields k ov =
     [(T_NATIVE, case map_of (ov_public_ids ov) (True, k) of None \<Rightarrow> V_Null | Some p \<Rightarrow> p)] @
     opt_pair T_CYPHER_ID (map_option V_Long (map_of (ov_cypher_ids ov) (True, k))) @
     [(T_NULL_VALUES, V_Bool (ov_allow_null ov))] @
     opt_pair T_NULL_PROPERTIES (map_option string_set_value (map_of (ov_edge_nulls ov) k)) @
     (case map_of (ov_inserted_edges ov) k of
        None \<Rightarrow> []
      | Some e \<Rightarrow>
          [(T_INSERTED, inserted_edge_value e)] @
          opt_pair T_OUT_POSITION (map_option (\<lambda>n. V_Int (of_nat n)) (edge_position (ov_out_adj ov) (ie_src e) k)) @
          opt_pair T_IN_POSITION (map_option (\<lambda>n. V_Int (of_nat n)) (edge_position (ov_in_adj ov) (ie_dst e) k))) @
     opt_pair T_OVERRIDES (map_option V_Map (map_of (ov_edge_overrides ov) k)) @
     opt_pair T_DELETED (flag_value (k \<in> ov_deleted_edges ov)) @
     opt_pair T_REPLACED (flag_value (k \<in> ov_replaced_edges ov))"

definition meta_fields :: "i64 option \<Rightarrow> string list option \<Rightarrow> string list option \<Rightarrow> fields" where
  "meta_fields c ks os =
     opt_pair T_COUNT (map_option V_Int c) @ opt_pair T_INSERTED_KEYS (map_option key_list_value ks) @
     opt_pair T_OVERRIDE_KEYS (map_option key_list_value os)"

lemma decode_items_opt_last [simp]:
  assumes "tag \<in> set allowed" and "map_of fs tag = None"
  shows "decode_items allowed (opt_field tag v) fs = Inr (fs @ opt_pair tag v)"
  using decode_items_opt [OF assms, of v "[]"] by simp

lemma decode_node_body:
  "decode_fields (V_List (encode_node_body k ov)) ENTITY_TAGS = Inr (node_fields k ov)"
  by (simp add: decode_fields_def encode_node_body_def node_fields_def flag_field_opt ENTITY_TAGS_def record_tags)

lemma decode_edge_body:
  "decode_fields (V_List (encode_edge_body k ov)) EDGE_TAGS = Inr (edge_fields k ov)"
  by (cases "map_of (ov_inserted_edges ov) k")
    (simp_all add: decode_fields_def encode_edge_body_def edge_inserted_fields_def edge_fields_def flag_field_opt
      EDGE_TAGS_def record_tags)

lemma decode_meta_bodies:
  "decode_fields (V_List (encode_node_meta_body l ov)) META_TAGS =
     Inr (meta_fields (map_of (ov_node_counts ov) l) (map_of (ov_inserted_node_keys ov) l) (map_of (ov_override_node_keys ov) l))"
  "decode_fields (V_List (encode_edge_meta_body l ov)) META_TAGS =
     Inr (meta_fields (map_of (ov_edge_counts ov) l) (map_of (ov_inserted_edge_keys ov) l) (map_of (ov_override_edge_keys ov) l))"
  by (simp_all add: decode_fields_def encode_node_meta_body_def encode_edge_meta_body_def meta_fields_def
      META_TAGS_def record_tags)

lemma with_fields_encoded:
  assumes "sha_ok S" and "snapshot_fits (gl_values (sl_graph S)) body" and "decode_fields body allowed = Inr fs"
  shows "with_fields S allowed (encode_record S kind name i body) f = run_steps (f fs)"
  using assms by (simp add: with_fields_def decode_encode_record fun_eq_iff)

lemma encode_record_fields [simp]:
  "ir_kind (encode_record S kind name i body) = kind" "ir_name (encode_record S kind name i body) = name"
  "ir_id (encode_record S kind name i body) = i"
  by (simp_all add: encode_record_def Let_def)

section \<open>What applying a record does\<close>

lemma run_step_do [simp]: "run_steps (step_do f # ss) ov = run_steps ss (f ov)"
  by (simp add: step_do_def)

lemma on_field_with:
  assumes "map_of fs tag = map_option enc x" and "\<And>a. x = Some a \<Longrightarrow> dec (enc a) = Inr a"
  shows "on_field fs tag (\<lambda>v. step_with (dec v) f) = step_do (case x of None \<Rightarrow> id | Some a \<Rightarrow> f a)"
  using assms by (auto simp: on_field_def step_with_def step_do_def split: option.split)

lemma on_field_flag:
  assumes "map_of fs tag = flag_value b"
  shows "on_field fs tag (\<lambda>v. step_with (decode_flag v) (\<lambda>b ov. if b then f ov else ov)) = step_do (if b then f else id)"
  using assms by (auto simp: on_field_def step_with_def step_do_def flag_value_def decode_flag_def)

lemma plain_strings: "collect_res (map (plain_string e) (map V_String ss)) = Inr ss"
  using collect_res_all [of ss "\<lambda>s. plain_string e (V_String s)" "\<lambda>s. s"] by (simp add: plain_string_def comp_def)

lemma decode_string_set: "finite ss \<Longrightarrow> decode_string_set a b (string_set_value ss) = Inr ss"
  by (simp add: decode_string_set_def string_set_value_def plain_strings del: map_map)

lemma decode_key_list_value: "decode_key_list (key_list_value ks) = Inr ks"
  using collect_res_all [of ks "\<lambda>s. decode_key (V_String s)" "\<lambda>s. s"]
  by (simp add: decode_key_list_def key_list_value_def decode_key_def comp_def)

lemma id_at_scalar: "eid_ok i \<Longrightarrow> id_at S (V_Scalar (eid_scalar i)) = Inr i"
  by (simp add: id_at_def element_of_value_def element_of_leaf_def eid_ok_def)

lemma decode_inserted_edge_value:
  assumes "eid_ok (ie_src_id e)" "eid_ok (ie_dst_id e)"
  shows "decode_inserted_edge S (inserted_edge_value e) = Inr e"
  using assms by (simp add: decode_inserted_edge_def inserted_edge_value_def string_at_def id_at_scalar decode_props_def)

lemma node_field_values:
  "map_of (node_fields k ov) T_NATIVE = Some (native_node_state k ov)"
  "map_of (node_fields k ov) T_NULL_VALUES = Some (V_Bool (ov_allow_null ov))"
  "map_of (node_fields k ov) T_CYPHER_ID = map_option V_Long (map_of (ov_cypher_ids ov) (False, k))"
  "map_of (node_fields k ov) T_LABELS = map_option string_set_value (map_of (ov_label_sets ov) k)"
  "map_of (node_fields k ov) T_INSERTED = map_option V_Map (map_of (ov_inserted_nodes ov) k)"
  "map_of (node_fields k ov) T_OVERRIDES = map_option V_Map (map_of (ov_node_overrides ov) k)"
  "map_of (node_fields k ov) T_DELETED = flag_value (k \<in> ov_deleted_nodes ov)"
  "map_of (node_fields k ov) T_REPLACED = flag_value (k \<in> ov_replaced_nodes ov)"
  by (simp_all add: node_fields_def record_tags map_add_def split: option.split)

lemma edge_field_values:
  "map_of (edge_fields k ov) T_NATIVE = Some (case map_of (ov_public_ids ov) (True, k) of None \<Rightarrow> V_Null | Some p \<Rightarrow> p)"
  "map_of (edge_fields k ov) T_NULL_VALUES = Some (V_Bool (ov_allow_null ov))"
  "map_of (edge_fields k ov) T_CYPHER_ID = map_option V_Long (map_of (ov_cypher_ids ov) (True, k))"
  "map_of (edge_fields k ov) T_NULL_PROPERTIES = map_option string_set_value (map_of (ov_edge_nulls ov) k)"
  "map_of (edge_fields k ov) T_INSERTED = map_option inserted_edge_value (map_of (ov_inserted_edges ov) k)"
  "map_of (edge_fields k ov) T_OVERRIDES = map_option V_Map (map_of (ov_edge_overrides ov) k)"
  "map_of (edge_fields k ov) T_DELETED = flag_value (k \<in> ov_deleted_edges ov)"
  "map_of (edge_fields k ov) T_REPLACED = flag_value (k \<in> ov_replaced_edges ov)"
  "map_of (ov_inserted_edges ov) k = Some e \<Longrightarrow> map_of (edge_fields k ov) T_OUT_POSITION =
     map_option (\<lambda>n. V_Int (of_nat n)) (edge_position (ov_out_adj ov) (ie_src e) k)"
  "map_of (ov_inserted_edges ov) k = Some e \<Longrightarrow> map_of (edge_fields k ov) T_IN_POSITION =
     map_option (\<lambda>n. V_Int (of_nat n)) (edge_position (ov_in_adj ov) (ie_dst e) k)"
  by (simp_all add: edge_fields_def record_tags map_add_def split: option.split)

text \<open>A Cypher identity is only ever added: a record without one leaves the old identity in place.\<close>

definition add_entry :: "'k \<Rightarrow> 'v option \<Rightarrow> ('k \<times> 'v) list \<Rightarrow> ('k \<times> 'v) list" where
  "add_entry k v m = (case v of None \<Rightarrow> m | Some x \<Rightarrow> AList.update k x m)"

lemma map_of_add_entry: "map_of (add_entry k v m) j = (if j = k \<and> v \<noteq> None then v else map_of m j)"
  by (auto simp: add_entry_def update_conv' split: option.split)

text \<open>An overlay entry replaced by the recorded one, absence included.\<close>

definition put_entry :: "'k \<Rightarrow> 'v option \<Rightarrow> ('k \<times> 'v) list \<Rightarrow> ('k \<times> 'v) list" where
  "put_entry k v m = add_entry k v (AList.delete k m)"

lemma map_of_put_entry [simp]: "map_of (put_entry k v m) = (map_of m)(k := v)"
  by (auto simp: put_entry_def map_of_add_entry delete_conv' fun_eq_iff)

lemma distinct_put_entry: "distinct (map fst m) \<Longrightarrow> distinct (map fst (put_entry k v m))"
  by (simp add: put_entry_def add_entry_def distinct_update distinct_delete split: option.split)

definition put_member :: "'k \<Rightarrow> bool \<Rightarrow> 'k set \<Rightarrow> 'k set" where
  "put_member k b A = (if b then insert k (A - {k}) else A - {k})"

lemma mem_put_member [simp]: "j \<in> put_member k b A \<longleftrightarrow> (if j = k then b else j \<in> A)"
  by (auto simp: put_member_def)


lemma parse_record_value:
  "parse_property_record (property_record_value r) = Inr (if vp_public r = Some V_Null then r\<lparr>vp_public := None\<rparr> else r)"
  by (cases r) (simp add: parse_property_record_def property_record_value_def split: option.split)

definition native_value_ok :: "addr \<Rightarrow> graph_overlay \<Rightarrow> bool" where
  "native_value_ok k ov \<longleftrightarrow> map_of (ov_public_ids ov) (False, k) \<noteq> Some V_Null \<and>
     bt_ordered (al_default [] (ov_vertex_props ov) k) \<and>
     list_all (\<lambda>e. list_all (\<lambda>r. vp_public r \<noteq> Some V_Null) (snd e)) (al_default [] (ov_vertex_props ov) k)"

lemma parse_native_records:
  assumes "native_value_ok k ov"
  shows "collect_res (map parse_property_records (map (\<lambda>(name, rs). (name, V_List (map property_record_value rs)))
    (al_default [] (ov_vertex_props ov) k))) = Inr (al_default [] (ov_vertex_props ov) k)" (is "_ = Inr ?ps")
proof -
  have "(parse_property_records \<circ> (\<lambda>(name, rs). (name, V_List (map property_record_value rs)))) e = Inr e"
    if "e \<in> set ?ps" for e
  proof -
    obtain name rs where e: "e = (name, rs)" by (cases e)
    have "vp_public r \<noteq> Some V_Null" if "r \<in> set rs" for r
      using assms \<open>e \<in> set ?ps\<close> that e by (fastforce simp: native_value_ok_def list_all_iff)
    then have "collect_res (map (\<lambda>r. parse_property_record (property_record_value r)) rs) = Inr (map (\<lambda>r. r) rs)"
      by (intro collect_res_all) (simp add: parse_record_value)
    then show ?thesis by (simp add: e parse_property_records_def comp_def)
  qed
  then show ?thesis
    using collect_res_all [of ?ps "parse_property_records \<circ> (\<lambda>(name, rs). (name, V_List (map property_record_value rs)))" "\<lambda>e. e"]
    by simp
qed

lemma restore_native_state:
  assumes "native_value_ok k src"
  shows "restore_native_node_state k (native_node_state k src) ov = (Inr (), ov\<lparr>
    ov_next_property_id := (if ov_next_property_id ov <s ov_next_property_id src then ov_next_property_id src
      else ov_next_property_id ov),
    ov_public_ids := put_entry (False, k) (map_of (ov_public_ids src) (False, k)) (ov_public_ids ov),
    ov_vertex_props := (if al_default [] (ov_vertex_props src) k = [] then AList.delete k (ov_vertex_props ov)
      else AList.update k (al_default [] (ov_vertex_props src) k) (ov_vertex_props ov))\<rparr>)"
proof -
  have "bt_of_entries (al_default [] (ov_vertex_props src) k) = al_default [] (ov_vertex_props src) k"
    using assms by (simp add: native_value_ok_def bt_of_entries_ordered)
  moreover have "map_of (ov_public_ids src) (False, k) \<noteq> Some V_Null"
    using assms by (simp add: native_value_ok_def)
  ultimately show ?thesis
    using parse_native_records [OF assms]
    by (cases k) (simp add: restore_native_node_state_def native_node_state_def Let_def put_entry_def add_entry_def split: option.split)
qed

definition put_node :: "addr \<Rightarrow> graph_overlay \<Rightarrow> graph_overlay \<Rightarrow> graph_overlay" where
  "put_node k src ov =
     (snd (restore_native_node_state k (native_node_state k src)
       (ov\<lparr>ov_cypher_ids := add_entry (False, k) (map_of (ov_cypher_ids src) (False, k)) (ov_cypher_ids ov),
           ov_allow_null := ov_allow_null src\<rparr>)))\<lparr>
       ov_label_sets := put_entry k (map_of (ov_label_sets src) k) (ov_label_sets ov),
       ov_inserted_nodes := put_entry k (map_of (ov_inserted_nodes src) k) (ov_inserted_nodes ov),
       ov_node_overrides := put_entry k (map_of (ov_node_overrides src) k) (ov_node_overrides ov),
       ov_deleted_nodes := put_member k (k \<in> ov_deleted_nodes src) (ov_deleted_nodes ov),
       ov_replaced_nodes := put_member k (k \<in> ov_replaced_nodes src) (ov_replaced_nodes ov)\<rparr>"

definition put_edge :: "addr \<Rightarrow> graph_overlay \<Rightarrow> graph_overlay \<Rightarrow> graph_overlay" where
  "put_edge k src ov = ov\<lparr>
     ov_cypher_ids := add_entry (True, k) (map_of (ov_cypher_ids src) (True, k)) (ov_cypher_ids ov),
     ov_allow_null := ov_allow_null src,
     ov_public_ids := put_entry (True, k) (map_of (ov_public_ids src) (True, k)) (ov_public_ids ov),
     ov_edge_nulls := put_entry k (map_of (ov_edge_nulls src) k) (ov_edge_nulls ov),
     ov_inserted_edges := put_entry k (map_of (ov_inserted_edges src) k) (ov_inserted_edges ov),
     ov_edge_overrides := put_entry k (map_of (ov_edge_overrides src) k) (ov_edge_overrides ov),
     ov_deleted_edges := put_member k (k \<in> ov_deleted_edges src) (ov_deleted_edges ov),
     ov_replaced_edges := put_member k (k \<in> ov_replaced_edges src) (ov_replaced_edges ov)\<rparr>"

definition node_recordable :: "addr \<Rightarrow> graph_overlay \<Rightarrow> bool" where
  "node_recordable k ov \<longleftrightarrow> native_value_ok k ov \<and> finite (al_default {} (ov_label_sets ov) k)"

lemma run_node_steps:
  assumes "node_recordable k src"
  shows "run_steps (node_steps (node_fields k src) k) ov = (Inr (), put_node k src ov)"
proof -
  note f = node_field_values [of k src]
  have fin: "map_of (ov_label_sets src) k = Some ls \<Longrightarrow> finite ls" for ls
    using assms by (simp add: node_recordable_def al_default_def)
  have dec: "decode_cypher_id (V_Long n) = Inr n" "decode_props (V_Map m) = Inr m" for n m
    by (simp_all add: decode_cypher_id_def decode_props_def)
  have labels: "on_field (node_fields k src) T_LABELS (\<lambda>v. step_with (decode_string_set a b v) h) =
      step_do (case map_of (ov_label_sets src) k of None \<Rightarrow> id | Some ls \<Rightarrow> h ls)" for a b h
    by (rule on_field_with [OF f(4)]) (simp add: decode_string_set fin)
  have native: "step_native k (native_node_state k src) = step_do (\<lambda>ov. snd (restore_native_node_state k (native_node_state k src) ov))"
    using assms by (simp add: step_native_def step_do_def fun_eq_iff restore_native_state node_recordable_def)
  have steps: "node_steps (node_fields k src) k =
     [step_do (\<lambda>ov. ov\<lparr>ov_cypher_ids := add_entry (False, k) (map_of (ov_cypher_ids src) (False, k)) (ov_cypher_ids ov)\<rparr>),
      step_do (\<lambda>ov. ov\<lparr>ov_allow_null := ov_allow_null src\<rparr>),
      step_do (\<lambda>ov. snd (restore_native_node_state k (native_node_state k src) ov)),
      step_do (\<lambda>ov. ov\<lparr>ov_label_sets := AList.delete k (ov_label_sets ov)\<rparr>),
      step_do (\<lambda>ov. ov\<lparr>ov_label_sets := add_entry k (map_of (ov_label_sets src) k) (ov_label_sets ov)\<rparr>),
      step_do (\<lambda>ov. ov\<lparr>ov_inserted_nodes := AList.delete k (ov_inserted_nodes ov),
        ov_node_overrides := AList.delete k (ov_node_overrides ov),
        ov_deleted_nodes := ov_deleted_nodes ov - {k},
        ov_replaced_nodes := ov_replaced_nodes ov - {k}\<rparr>),
      step_do (\<lambda>ov. ov\<lparr>ov_inserted_nodes := add_entry k (map_of (ov_inserted_nodes src) k) (ov_inserted_nodes ov)\<rparr>),
      step_do (\<lambda>ov. ov\<lparr>ov_node_overrides := add_entry k (map_of (ov_node_overrides src) k) (ov_node_overrides ov)\<rparr>),
      step_do (if k \<in> ov_deleted_nodes src then (\<lambda>ov. ov\<lparr>ov_deleted_nodes := insert k (ov_deleted_nodes ov)\<rparr>) else id),
      step_do (if k \<in> ov_replaced_nodes src then (\<lambda>ov. ov\<lparr>ov_replaced_nodes := insert k (ov_replaced_nodes ov)\<rparr>) else id)]"
    unfolding node_steps_def step_cypher_id_def step_allow_null_def on_field_flag [OF f(7)] on_field_flag [OF f(8)]
      on_field_with [OF f(3), of decode_cypher_id, OF dec(1)] labels
      on_field_with [OF f(5), of decode_props, OF dec(2)] on_field_with [OF f(6), of decode_props, OF dec(2)]
    by (simp add: add_entry_def native step_do_def fun_eq_iff on_field_def f(1,2) step_with_def decode_flag_def split: option.split)
  show ?thesis
    using assms unfolding steps run_step_do run_steps.simps(1)
    by (simp add: put_node_def put_entry_def put_member_def restore_native_state node_recordable_def)
qed

definition edge_recordable :: "addr \<Rightarrow> graph_overlay \<Rightarrow> bool" where
  "edge_recordable k ov \<longleftrightarrow> map_of (ov_public_ids ov) (True, k) \<noteq> Some V_Null \<and>
     finite (al_default {} (ov_edge_nulls ov) k) \<and>
     (case map_of (ov_inserted_edges ov) k of None \<Rightarrow> True | Some e \<Rightarrow> eid_ok (ie_src_id e) \<and> eid_ok (ie_dst_id e))"

lemma run_edge_steps:
  assumes "edge_recordable k src"
  shows "run_steps (edge_steps S (edge_fields k src) k) ov = (Inr (), put_edge k src ov)"
proof -
  note f = edge_field_values(1-8) [of k src]
  have fin: "map_of (ov_edge_nulls src) k = Some ls \<Longrightarrow> finite ls" for ls
    using assms by (simp add: edge_recordable_def al_default_def)
  have ends: "map_of (ov_inserted_edges src) k = Some e \<Longrightarrow> eid_ok (ie_src_id e) \<and> eid_ok (ie_dst_id e)" for e
    using assms by (simp add: edge_recordable_def)
  have dec: "decode_cypher_id (V_Long n) = Inr n" "decode_props (V_Map m) = Inr m" for n m
    by (simp_all add: decode_cypher_id_def decode_props_def)
  have nulls: "on_field (edge_fields k src) T_NULL_PROPERTIES (\<lambda>v. step_with (decode_string_set a b v) h) =
      step_do (case map_of (ov_edge_nulls src) k of None \<Rightarrow> id | Some ls \<Rightarrow> h ls)" for a b h
    by (rule on_field_with [OF f(4)]) (simp add: decode_string_set fin)
  have inserted: "on_field (edge_fields k src) T_INSERTED (\<lambda>v. step_with (decode_inserted_edge S v) h) =
      step_do (case map_of (ov_inserted_edges src) k of None \<Rightarrow> id | Some e \<Rightarrow> h e)" for h
    by (rule on_field_with [OF f(5)]) (simp add: decode_inserted_edge_value ends)
  have pid: "map_of (ov_public_ids src) (True, k) \<noteq> Some V_Null" using assms by (simp add: edge_recordable_def)
  have steps: "edge_steps S (edge_fields k src) k =
     [step_do (\<lambda>ov. ov\<lparr>ov_cypher_ids := add_entry (True, k) (map_of (ov_cypher_ids src) (True, k)) (ov_cypher_ids ov)\<rparr>),
      step_do (\<lambda>ov. ov\<lparr>ov_allow_null := ov_allow_null src\<rparr>),
      step_do (\<lambda>ov. ov\<lparr>ov_public_ids := AList.delete (True, k) (ov_public_ids ov)\<rparr>),
      step_do (\<lambda>ov. ov\<lparr>ov_public_ids := add_entry (True, k) (map_of (ov_public_ids src) (True, k)) (ov_public_ids ov)\<rparr>),
      step_do (\<lambda>ov. ov\<lparr>ov_edge_nulls := AList.delete k (ov_edge_nulls ov)\<rparr>),
      step_do (\<lambda>ov. ov\<lparr>ov_edge_nulls := add_entry k (map_of (ov_edge_nulls src) k) (ov_edge_nulls ov)\<rparr>),
      step_do (\<lambda>ov. ov\<lparr>ov_inserted_edges := AList.delete k (ov_inserted_edges ov),
        ov_edge_overrides := AList.delete k (ov_edge_overrides ov),
        ov_deleted_edges := ov_deleted_edges ov - {k},
        ov_replaced_edges := ov_replaced_edges ov - {k}\<rparr>),
      step_do (\<lambda>ov. ov\<lparr>ov_inserted_edges := add_entry k (map_of (ov_inserted_edges src) k) (ov_inserted_edges ov)\<rparr>),
      step_do (\<lambda>ov. ov\<lparr>ov_edge_overrides := add_entry k (map_of (ov_edge_overrides src) k) (ov_edge_overrides ov)\<rparr>),
      step_do (if k \<in> ov_deleted_edges src then (\<lambda>ov. ov\<lparr>ov_deleted_edges := insert k (ov_deleted_edges ov)\<rparr>) else id),
      step_do (if k \<in> ov_replaced_edges src then (\<lambda>ov. ov\<lparr>ov_replaced_edges := insert k (ov_replaced_edges ov)\<rparr>) else id)]"
    unfolding edge_steps_def step_cypher_id_def step_allow_null_def on_field_flag [OF f(7)] on_field_flag [OF f(8)]
      on_field_with [OF f(3), of decode_cypher_id, OF dec(1)] nulls inserted on_field_with [OF f(6), of decode_props, OF dec(2)]
    using pid
    by (simp add: add_entry_def step_do_def fun_eq_iff on_field_def f(1,2) step_with_def decode_flag_def split: option.split)
  show ?thesis
    unfolding steps run_step_do run_steps.simps(1) by (simp add: put_edge_def put_entry_def put_member_def)
qed

definition put_node_meta :: "string \<Rightarrow> graph_overlay \<Rightarrow> graph_overlay \<Rightarrow> graph_overlay" where
  "put_node_meta l src ov = ov\<lparr>
     ov_node_counts := put_entry l (map_of (ov_node_counts src) l) (ov_node_counts ov),
     ov_inserted_node_keys := put_entry l (map_of (ov_inserted_node_keys src) l) (ov_inserted_node_keys ov),
     ov_override_node_keys := put_entry l (map_of (ov_override_node_keys src) l) (ov_override_node_keys ov)\<rparr>"

definition put_edge_meta :: "string \<Rightarrow> graph_overlay \<Rightarrow> graph_overlay \<Rightarrow> graph_overlay" where
  "put_edge_meta r src ov = ov\<lparr>
     ov_edge_counts := put_entry r (map_of (ov_edge_counts src) r) (ov_edge_counts ov),
     ov_inserted_edge_keys := put_entry r (map_of (ov_inserted_edge_keys src) r) (ov_inserted_edge_keys ov),
     ov_override_edge_keys := put_entry r (map_of (ov_override_edge_keys src) r) (ov_override_edge_keys ov)\<rparr>"

lemma meta_field_values:
  "map_of (meta_fields c ks os) T_COUNT = map_option V_Int c"
  "map_of (meta_fields c ks os) T_INSERTED_KEYS = map_option key_list_value ks"
  "map_of (meta_fields c ks os) T_OVERRIDE_KEYS = map_option key_list_value os"
  by (simp_all add: meta_fields_def record_tags map_add_def split: option.split)

lemmas meta_step_simps = node_meta_steps_def edge_meta_steps_def on_field_def meta_field_values step_with_def step_do_def
  decode_key_list_value decode_count_def put_node_meta_def put_edge_meta_def put_entry_def add_entry_def

lemma run_node_meta_steps:
  assumes "0 \<le> sint (al_default 0 (ov_node_counts src) l)"
  shows "run_steps (node_meta_steps (meta_fields (map_of (ov_node_counts src) l) (map_of (ov_inserted_node_keys src) l)
     (map_of (ov_override_node_keys src) l)) l) ov = (Inr (), put_node_meta l src ov)"
  using assms by (cases "map_of (ov_node_counts src) l") (simp_all add: al_default_def meta_step_simps split: option.split)

lemma run_edge_meta_steps:
  assumes "0 \<le> sint (al_default 0 (ov_edge_counts src) r)"
  shows "run_steps (edge_meta_steps (meta_fields (map_of (ov_edge_counts src) r) (map_of (ov_inserted_edge_keys src) r)
     (map_of (ov_override_edge_keys src) r)) r) ov = (Inr (), put_edge_meta r src ov)"
  using assms by (cases "map_of (ov_edge_counts src) r") (simp_all add: al_default_def meta_step_simps split: option.split)

section \<open>Restoring one element\<close>

text \<open>Everything the overlay keeps about one node or one relationship, Cypher identities apart.\<close>

definition node_entry :: "graph_overlay \<Rightarrow> addr \<Rightarrow> _" where
  "node_entry ov k = (node_view ov k, map_of (ov_label_sets ov) k, al_default [] (ov_vertex_props ov) k,
     map_of (ov_public_ids ov) (False, k))"

definition edge_entry :: "graph_overlay \<Rightarrow> addr \<Rightarrow> _" where
  "edge_entry ov k = (edge_view ov k, map_of (ov_edge_nulls ov) k, map_of (ov_public_ids ov) (True, k))"

text \<open>The part of the overlay that is not kept per element.\<close>

definition shared_state :: "graph_overlay \<Rightarrow> _" where
  "shared_state ov = (ov_out_adj ov, ov_in_adj ov, ov_node_counts ov, ov_edge_counts ov, ov_inserted_node_keys ov,
     ov_override_node_keys ov, ov_inserted_edge_keys ov, ov_override_edge_keys ov)"

lemma put_node_entries:
  assumes "node_recordable k src"
  shows "node_entry (put_node k src ov) j = (if j = k then node_entry src k else node_entry ov j)"
    "edge_entry (put_node k src ov) = edge_entry ov"
    "shared_state (put_node k src ov) = shared_state ov"
    "ov_inserted_edges (put_node k src ov) = ov_inserted_edges ov"
proof -
  have n: "native_value_ok k src" using assms by (simp add: node_recordable_def)
  show "node_entry (put_node k src ov) j = (if j = k then node_entry src k else node_entry ov j)"
    by (cases "j = k") (simp_all add: put_node_def restore_native_state [OF n] node_entry_def node_view_def al_default_def
        update_conv' delete_conv' split: option.split)
  show "edge_entry (put_node k src ov) = edge_entry ov" "shared_state (put_node k src ov) = shared_state ov"
    "ov_inserted_edges (put_node k src ov) = ov_inserted_edges ov"
    by (simp_all add: put_node_def restore_native_state [OF n] edge_entry_def edge_view_def shared_state_def fun_eq_iff)
qed

lemma put_edge_entries:
  "edge_entry (put_edge k src ov) j = (if j = k then edge_entry src k else edge_entry ov j)"
  "node_entry (put_edge k src ov) = node_entry ov"
  "shared_state (put_edge k src ov) = shared_state ov"
  "ov_inserted_edges (put_edge k src ov) = put_entry k (map_of (ov_inserted_edges src) k) (ov_inserted_edges ov)"
  by (auto simp: put_edge_def edge_entry_def edge_view_def node_entry_def node_view_def shared_state_def fun_eq_iff)

definition fits :: "store_lib \<Rightarrow> val list \<Rightarrow> bool" where
  "fits S body \<longleftrightarrow> snapshot_fits (gl_values (sl_graph S)) (V_List body)"

definition node_record :: "store_lib \<Rightarrow> graph_overlay \<Rightarrow> addr \<Rightarrow> incremental_record" where
  "node_record S src k = encode_record S KIND_NODE (fst k) (snd k) (V_List (encode_node_body k src))"

definition edge_record :: "store_lib \<Rightarrow> graph_overlay \<Rightarrow> addr \<Rightarrow> incremental_record" where
  "edge_record S src k = encode_record S KIND_EDGE (fst k) (snd k) (V_List (encode_edge_body k src))"

definition node_meta_record :: "store_lib \<Rightarrow> graph_overlay \<Rightarrow> string \<Rightarrow> incremental_record" where
  "node_meta_record S src l = encode_record S KIND_NODE_META l (eid_of_i64 0) (V_List (encode_node_meta_body l src))"

definition edge_meta_record :: "store_lib \<Rightarrow> graph_overlay \<Rightarrow> string \<Rightarrow> incremental_record" where
  "edge_meta_record S src r = encode_record S KIND_EDGE_META r (eid_of_i64 0) (V_List (encode_edge_meta_body r src))"

lemma record_fields [simp]:
  "ir_kind (node_record S src k) = KIND_NODE" "ir_kind (node_meta_record S src l) = KIND_NODE_META"
  "ir_kind (edge_meta_record S src l) = KIND_EDGE_META" "ir_kind (edge_record S src k) = KIND_EDGE"
  "ir_name (edge_record S src k) = fst k" "ir_id (edge_record S src k) = snd k"
  by (simp_all add: node_record_def node_meta_record_def edge_meta_record_def edge_record_def)

lemma incremental_records_parts:
  "incremental_records S nodes edges src =
     map (node_record S src) nodes @ map (edge_record S src) edges @
     map (node_meta_record S src) (sorted_list_of_set (set (map fst nodes))) @
     map (edge_meta_record S src) (sorted_list_of_set (set (map fst edges)))"
  by (simp add: incremental_records_def node_record_def edge_record_def node_meta_record_def edge_meta_record_def)

lemma apply_node_record:
  assumes "sha_ok S" "fits S (encode_node_body k src)" "node_recordable k src"
  shows "apply_one S (node_record S src k) ov = (Inr (), put_node k src ov)"
  using assms run_node_steps [OF assms(3)]
  by (simp add: apply_one_def node_record_def apply_node_def fits_def with_fields_encoded decode_node_body)

lemma apply_edge_record:
  assumes "sha_ok S" "fits S (encode_edge_body k src)" "edge_recordable k src"
  shows "apply_one S (edge_record S src k) ov = (Inr (), put_edge k src ov)"
  using assms run_edge_steps [OF assms(3)]
  by (simp add: apply_one_def edge_record_def apply_edge_def fits_def with_fields_encoded decode_edge_body record_kinds)

lemma apply_node_meta_record:
  assumes "sha_ok S" "fits S (encode_node_meta_body l src)" "0 \<le> sint (al_default 0 (ov_node_counts src) l)"
  shows "apply_one S (node_meta_record S src l) ov = (Inr (), put_node_meta l src ov)"
  using assms run_node_meta_steps [OF assms(3)]
  by (simp add: apply_one_def node_meta_record_def apply_node_meta_def fits_def with_fields_encoded decode_meta_bodies record_kinds)

lemma apply_edge_meta_record:
  assumes "sha_ok S" "fits S (encode_edge_meta_body r src)" "0 \<le> sint (al_default 0 (ov_edge_counts src) r)"
  shows "apply_one S (edge_meta_record S src r) ov = (Inr (), put_edge_meta r src ov)"
  using assms run_edge_meta_steps [OF assms(3)]
  by (simp add: apply_one_def edge_meta_record_def apply_edge_meta_def fits_def with_fields_encoded decode_meta_bodies record_kinds)

section \<open>Restoring a pending set\<close>

definition positioned :: "addr \<Rightarrow> graph_overlay \<Rightarrow> bool" where
  "positioned k ov \<longleftrightarrow>
     (case map_of (ov_inserted_edges ov) k of
        None \<Rightarrow> True
      | Some e \<Rightarrow>
          (case edge_position (ov_out_adj ov) (ie_src e) k of None \<Rightarrow> False | Some n \<Rightarrow> n < 2 ^ 63) \<and>
          (case edge_position (ov_in_adj ov) (ie_dst e) k of None \<Rightarrow> False | Some n \<Rightarrow> n < 2 ^ 63))"

definition put_positions :: "graph_overlay \<Rightarrow> addr \<Rightarrow> positions \<times> positions \<Rightarrow> positions \<times> positions" where
  "put_positions src k ps =
     (case map_of (ov_inserted_edges src) k of
        None \<Rightarrow> ps
      | Some e \<Rightarrow> (add_entry k (edge_position (ov_out_adj src) (ie_src e) k) (fst ps),
                  add_entry k (edge_position (ov_in_adj src) (ie_dst e) k) (snd ps)))"

lemma small_position:
  assumes "n < 2 ^ 63"
  shows "0 \<le> sint (of_nat n :: i64)" "unat (of_nat n :: i64) = n"
proof -
  have "unat (of_nat n :: i64) = n" using assms by (intro unat_of_nat_u64) simp
  then show "unat (of_nat n :: i64) = n" .
  have "uint (of_nat n :: i64) = int n" using \<open>unat (of_nat n :: i64) = n\<close> by (simp only: uint_nat)
  then show "0 \<le> sint (of_nat n :: i64)" using assms by (simp add: sint_uint signed_take_bit_int_eq_self)
qed

lemma record_positions_other: "ir_kind r \<noteq> KIND_EDGE \<Longrightarrow> record_positions S r ps = Inr ps"
  by (simp add: record_positions_def)

lemma record_positions_edge:
  assumes "sha_ok S" "fits S (encode_edge_body k src)" "positioned k src"
  shows "record_positions S (edge_record S src k) ps = Inr (put_positions src k ps)"
proof -
  have d: "bind_res (decode_body S (edge_record S src k)) (\<lambda>body. decode_fields body EDGE_TAGS) = Inr (edge_fields k src)"
    using assms(1,2) by (simp add: edge_record_def fits_def decode_encode_record decode_edge_body)
  show ?thesis
  proof (cases "map_of (ov_inserted_edges src) k")
    case None
    then show ?thesis by (simp add: record_positions_def d edge_field_values(5) put_positions_def)
  next
    case (Some e)
    obtain m n where "edge_position (ov_out_adj src) (ie_src e) k = Some m" "m < 2 ^ 63"
      "edge_position (ov_in_adj src) (ie_dst e) k = Some n" "n < 2 ^ 63"
      using assms(3) Some by (auto simp: positioned_def split: option.splits)
    then show ?thesis
      using Some edge_field_values(9,10) [OF Some]
      by (simp add: record_positions_def d edge_field_values(5) note_position_def decode_count_def small_position
          put_positions_def add_entry_def)
  qed
qed

definition records_fit :: "store_lib \<Rightarrow> addr list \<Rightarrow> addr list \<Rightarrow> graph_overlay \<Rightarrow> bool" where
  "records_fit S nodes edges ov \<longleftrightarrow> sha_ok S \<and>
     list_all (\<lambda>k. fits S (encode_node_body k ov) \<and> node_recordable k ov \<and>
       fits S (encode_node_meta_body (fst k) ov) \<and> 0 \<le> sint (al_default 0 (ov_node_counts ov) (fst k))) nodes \<and>
     list_all (\<lambda>k. fits S (encode_edge_body k ov) \<and> edge_recordable k ov \<and> positioned k ov \<and>
       fits S (encode_edge_meta_body (fst k) ov) \<and> 0 \<le> sint (al_default 0 (ov_edge_counts ov) (fst k))) edges"

lemma put_meta_entries:
  "node_entry (put_node_meta l src ov) = node_entry ov" "edge_entry (put_node_meta l src ov) = edge_entry ov"
  "node_entry (put_edge_meta l src ov) = node_entry ov" "edge_entry (put_edge_meta l src ov) = edge_entry ov"
  "ov_inserted_edges (put_node_meta l src ov) = ov_inserted_edges ov"
  "ov_inserted_edges (put_edge_meta l src ov) = ov_inserted_edges ov"
  by (simp_all add: put_node_meta_def put_edge_meta_def node_entry_def edge_entry_def node_view_def edge_view_def fun_eq_iff)

section \<open>Rebuilding the adjacency lists\<close>

lemma push_inserted_lists:
  "al_default [] (push_inserted at es) a = map fst (filter (\<lambda>e. at (snd e) = a) es)"
proof -
  have "al_default [] (fold (\<lambda>(k, e). al_upd [] (\<lambda>ks. ks @ [k]) (at e)) es m) a =
      al_default [] m a @ map fst (filter (\<lambda>e. at (snd e) = a) es)" for m
    by (induction es arbitrary: m) (auto split: prod.split)
  then show ?thesis by (simp add: push_inserted_def al_default_def)
qed

lemma order_lists_lists:
  "al_default [] (order_lists ps adj) a = sort_key (al_default (2 ^ 64 - 1) ps) (al_default [] adj a)"
  unfolding order_lists_def al_default_def [of "[]"] map_of_map by (simp split: option.split)

lemma sort_by_position:
  assumes "distinct xs" "distinct l" "set xs = set l" "\<And>n. n < length l \<Longrightarrow> p (l ! n) = n"
  shows "sort_key p xs = l"
proof (rule properties_for_sort_key)
  show "mset l = mset xs" using assms(1-3) by (metis set_eq_iff_mset_eq_distinct)
  have inj: "inj_on p (set l)"
    using assms(4) by (metis in_set_conv_nth inj_onI)
  show "filter (\<lambda>x. p k = p x) l = filter (\<lambda>x. p k = p x) xs" if "k \<in> set l" for k
  proof -
    have "filter (\<lambda>x. p k = p x) ys = filter (\<lambda>x. x = k) ys" if "set ys = set l" for ys
      by (rule filter_cong) (use inj \<open>k \<in> set l\<close> that in \<open>auto simp: inj_on_eq_iff\<close>)
    moreover have "filter (\<lambda>x. x = k) ys = [k]" if "distinct ys" "k \<in> set ys" for ys
      using that by (induction ys) (auto simp: filter_empty_conv)
    ultimately show ?thesis using assms(1-3) that by simp
  qed
  have "map p l = [0..<length l]" by (rule nth_equalityI) (use assms(4) in auto)
  then show "sorted (map p l)" by simp
qed

lemma map_of_fold_update:
  assumes "(k, n) \<in> set xs" "\<And>m. (k, m) \<in> set xs \<Longrightarrow> m = n"
  shows "map_of (fold (\<lambda>(k, i) m. AList.update k i m) xs m) k = Some n"
  using assms
proof (induction xs arbitrary: m)
  case (Cons x xs)
  obtain j i where x: "x = (j, i)" by (cases x)
  show ?case
  proof (cases "(k, n) \<in> set xs")
    case True
    have "map_of (fold (\<lambda>(k, i) m. AList.update k i m) xs (AList.update j i m)) k = Some n"
      by (rule Cons.IH [OF True]) (use Cons.prems(2) in auto)
    then show ?thesis by (simp add: x)
  next
    case False
    then have "x = (k, n)" using Cons.prems(1) by auto
    have later: "k \<notin> fst ` set xs" using False Cons.prems(2) by fastforce
    have keep: "map_of (fold (\<lambda>(k, i) m. AList.update k i m) xs m) k = map_of m k" if "k \<notin> fst ` set xs" for xs m
      using that by (induction xs arbitrary: m) (auto simp: update_conv' split: prod.split)
    show ?thesis using keep [OF later, of "AList.update k n m"] by (simp add: \<open>x = (k, n)\<close> update_conv')
  qed
qed simp

lemma edge_positions_at:
  assumes "distinct (map fst adj)" "n < length (al_default [] adj a)" "al_default [] adj a ! n = k"
    and "\<And>b. k \<in> set (al_default [] adj b) \<Longrightarrow> b = a" "distinct (al_default [] adj a)"
  shows "map_of (edge_positions adj) k = Some n"
  unfolding edge_positions_def
proof (rule map_of_fold_update)
  let ?xs = "concat (map (\<lambda>(_, es). map (\<lambda>(i, e). (e, i)) (enumerate 0 es)) adj)"
  have mem: "(k, m) \<in> set ?xs \<longleftrightarrow> (\<exists>b es. (b, es) \<in> set adj \<and> m < length es \<and> es ! m = k)" for m
    by (force simp: in_set_enumerate_eq)
  have lists: "(b, es) \<in> set adj \<Longrightarrow> al_default [] adj b = es" for b es
    using assms(1) by (simp add: al_default_def)
  have "(a, al_default [] adj a) \<in> set adj"
    using assms(2) by (auto simp: al_default_def split: option.splits intro: map_of_SomeD)
  then show "(k, n) \<in> set ?xs" unfolding mem using assms(2,3) by blast
  show "m = n" if seen: "(k, m) \<in> set ?xs" for m
  proof -
    obtain b es where b: "(b, es) \<in> set adj" "m < length es" "es ! m = k" using seen unfolding mem by blast
    then have "b = a" using assms(4) [of b] lists [OF b(1)] nth_mem [OF b(2)] by simp
    then show ?thesis using b lists [OF b(1)] assms(2,3,5) by (metis nth_eq_iff_index_eq)
  qed
qed

lemma find_index_at: "distinct l \<Longrightarrow> n < length l \<Longrightarrow> find_index (\<lambda>c. c = l ! n) l = Some n"
proof (induction l arbitrary: n)
  case (Cons x l)
  then show ?case by (cases n) auto
qed simp

lemma edge_position_at:
  assumes "distinct (al_default [] adj a)" "n < length (al_default [] adj a)" "al_default [] adj a ! n = k"
  shows "edge_position adj a k = Some n"
  using assms find_index_at [of "al_default [] adj a" n]
  by (auto simp: edge_position_def al_default_def split: option.splits)

lemma rebuilt_lists:
  assumes "distinct (map fst es)" and "map_of es = map_of es'"
    and "\<And>k. k \<in> set (al_default [] adj a) \<longleftrightarrow> (\<exists>e. map_of es' k = Some e \<and> at e = a)"
    and "distinct (al_default [] adj a)"
    and "\<And>n. n < length (al_default [] adj a) \<Longrightarrow> map_of ps (al_default [] adj a ! n) = Some n"
  shows "al_default [] (order_lists ps (push_inserted at (sort_by le es))) a = al_default [] adj a"
proof -
  let ?xs = "map fst (filter (\<lambda>e. at (snd e) = a) (sort_by le es))"
  have "distinct (map fst (sort_by le es))"
    using assms(1) mset_eq_imp_distinct_iff [of "map fst (sort_by le es)" "map fst es"] by simp
  then have d: "distinct ?xs" by (simp add: distinct_map_filter)
  have "k \<in> set ?xs \<longleftrightarrow> (\<exists>e. map_of es k = Some e \<and> at e = a)" for k
    using assms(1) by (cases k) force
  then have "set ?xs = set (al_default [] adj a)" using assms(2,3) by (auto simp del: set_map)
  moreover have "al_default (2 ^ 64 - 1) ps (al_default [] adj a ! n) = n" if "n < length (al_default [] adj a)" for n
    unfolding al_default_def [of "2 ^ 64 - 1"] assms(5) [OF that] by simp
  ultimately have "sort_key (al_default (2 ^ 64 - 1) ps) ?xs = al_default [] adj a"
    by (intro sort_by_position [OF d assms(4)])
  then show ?thesis by (simp only: order_lists_lists push_inserted_lists)
qed

text \<open>Lists of the overlay that the rebuilding relies on: no edge is listed twice, no key occurs twice.\<close>

definition lists_inv :: "graph_overlay \<Rightarrow> bool" where
  "lists_inv ov \<longleftrightarrow> (\<forall>a. distinct (al_default [] (ov_out_adj ov) a)) \<and> (\<forall>a. distinct (al_default [] (ov_in_adj ov) a)) \<and>
     distinct (map fst (ov_out_adj ov)) \<and> distinct (map fst (ov_in_adj ov)) \<and> distinct (map fst (ov_inserted_edges ov))"

text \<open>Adjacency lists only grow at the end.\<close>

definition grown :: "graph_overlay \<Rightarrow> graph_overlay \<Rightarrow> bool" where
  "grown ov src \<longleftrightarrow> (\<forall>a. prefix (al_default [] (ov_out_adj ov) a) (al_default [] (ov_out_adj src) a) \<and>
     prefix (al_default [] (ov_in_adj ov) a) (al_default [] (ov_in_adj src) a))"

lemma old_position:
  assumes "prefix (al_default [] adj0 a) (al_default [] adj a)" "distinct (al_default [] adj a)"
    and "n < length (al_default [] adj a)" "al_default [] adj a ! n = k"
    and "k \<in> set (al_default [] adj0 a)" "\<And>b. k \<in> set (al_default [] adj0 b) \<Longrightarrow> b = a"
    and "distinct (map fst adj0)"
  shows "map_of (edge_positions adj0) k = Some n"
proof -
  obtain m where m: "m < length (al_default [] adj0 a)" "al_default [] adj0 a ! m = k"
    using assms(5) by (meson in_set_conv_nth)
  obtain zs where l: "al_default [] adj a = al_default [] adj0 a @ zs" using assms(1) by (auto simp: prefix_def)
  then have "al_default [] adj a ! m = k" "m < length (al_default [] adj a)" using m by (simp_all add: nth_append)
  then have "m = n" using assms(2-4) by (metis nth_eq_iff_index_eq)
  moreover have "distinct (al_default [] adj0 a)" using assms(2) l by simp
  ultimately show ?thesis using edge_positions_at [OF assms(7) m assms(6)] by blast
qed

lemma adjacency_members:
  assumes "adjacency_inv ov"
  shows "k \<in> set (al_default [] (ov_out_adj ov) a) \<longleftrightarrow> (\<exists>e. map_of (ov_inserted_edges ov) k = Some e \<and> ie_src e = a)"
    "k \<in> set (al_default [] (ov_in_adj ov) a) \<longleftrightarrow> (\<exists>e. map_of (ov_inserted_edges ov) k = Some e \<and> ie_dst e = a)"
  using assms unfolding adjacency_inv_def ends_inserted by blast+

text \<open>An edge is put back at its old place: recorded edges from the record, the others from the checkpoint.\<close>

lemma restored_position:
  assumes lookup: "map_of ps k = (case map_of es k of
        Some e \<Rightarrow> if k \<in> A then edge_position adj (at e) k else map_of (edge_positions adj0) k
      | None \<Rightarrow> map_of (edge_positions adj0) k)"
    and new: "\<And>a. k \<in> set (al_default [] adj a) \<longleftrightarrow> (\<exists>e. map_of es k = Some e \<and> at e = a)"
    and old: "\<And>a. k \<in> set (al_default [] adj0 a) \<longleftrightarrow> (\<exists>e. map_of es0 k = Some e \<and> at e = a)"
    and same: "k \<notin> A \<Longrightarrow> map_of es0 k = map_of es k"
    and lists: "prefix (al_default [] adj0 a) (al_default [] adj a)" "distinct (al_default [] adj a)" "distinct (map fst adj0)"
    and n: "n < length (al_default [] adj a)" "al_default [] adj a ! n = k"
  shows "map_of ps k = Some n"
proof -
  obtain e where e: "map_of es k = Some e" "at e = a" using nth_mem [OF n(1)] n(2) new by auto
  show ?thesis
  proof (cases "k \<in> A")
    case True
    then show ?thesis using e edge_position_at [OF lists(2) n] by (simp add: lookup)
  next
    case False
    have "map_of (edge_positions adj0) k = Some n"
      by (rule old_position [OF lists(1,2) n _ _ lists(3)]) (use e same [OF False] old in auto)
    with False e show ?thesis by (simp add: lookup)
  qed
qed

lemma view_fields:
  assumes "node_view ov' = node_view ov" "edge_view ov' = edge_view ov"
  shows "ov_deleted_nodes ov' = ov_deleted_nodes ov" "has_node ov' = has_node ov"
    "ov_deleted_edges ov' = ov_deleted_edges ov" "ends ov' = ends ov"
proof -
  have n: "node_view ov' k = node_view ov k" and e: "edge_view ov' k = edge_view ov k" for k
    using assms by simp_all
  show "ov_deleted_nodes ov' = ov_deleted_nodes ov" by (rule set_eqI) (use n in \<open>simp add: node_view_def\<close>)
  show "has_node ov' = has_node ov" by (rule ext) (use n in \<open>simp add: node_view_def has_node_def\<close>)
  show "ov_deleted_edges ov' = ov_deleted_edges ov" by (rule set_eqI) (use e in \<open>simp add: edge_view_def\<close>)
  show "ends ov' = ends ov" by (rule ext) (use e in \<open>simp add: edge_view_def ends_def\<close>)
qed

section \<open>Properties of the records\<close>

text \<open>
  a node record applied to any overlay replaces that node's entry by the recorded one,
  absence included (inserted properties, overrides, deleted and replaced marks, label set,
  vertex properties, public identity), and leaves every other node and every relationship alone.
\<close>

theorem node_record_restores:
  assumes "sha_ok S" and "fits S (encode_node_body k src)" and "node_recordable k src"
  shows "fst (apply_one S (node_record S src k) ov) = Inr () \<and>
    node_entry (snd (apply_one S (node_record S src k) ov)) = (node_entry ov)(k := node_entry src k) \<and>
    edge_entry (snd (apply_one S (node_record S src k) ov)) = edge_entry ov"
  using put_node_entries [OF assms(3)] by (auto simp: apply_node_record [OF assms] fun_eq_iff)

text \<open>
  An edge record applied to any overlay replaces that relationship's entry by the recorded
  one (endpoints and inserted properties, overrides, marks, null keys, public identity) and
  leaves every other relationship and every node alone.
\<close>

theorem edge_record_restores:
  assumes "sha_ok S" and "fits S (encode_edge_body k src)" and "edge_recordable k src"
  shows "fst (apply_one S (edge_record S src k) ov) = Inr () \<and>
    edge_entry (snd (apply_one S (edge_record S src k) ov)) = (edge_entry ov)(k := edge_entry src k) \<and>
    node_entry (snd (apply_one S (edge_record S src k) ov)) = node_entry ov"
  using put_edge_entries(1,2) by (auto simp: apply_edge_record [OF assms] fun_eq_iff)

lemma checksum_input_inject:
  assumes "snapshot_id (gl_values (sl_graph S)) i" "snapshot_id (gl_values (sl_graph S)) j"
    and "length name < 2 ^ 64" "length name' < 2 ^ 64"
    and "checksum_input S VERSION kind name i body = checksum_input S VERSION kind' name' j body"
  shows "kind = kind' \<and> name = name' \<and> i = j"
proof -
  let ?L = "gl_values (sl_graph S)"
  have two: "VERSION \<noteq> 1" by (simp add: VERSION_def)
  have "to_le_bytes kind @ put_str name @ eid_encode ?L i @ body = to_le_bytes kind' @ put_str name' @ eid_encode ?L j @ body"
    using assms(5) by (simp add: checksum_input_def two)
  then have k: "to_le_bytes kind = to_le_bytes kind'" and r: "put_str name @ eid_encode ?L i @ body = put_str name' @ eid_encode ?L j @ body"
    by (simp_all add: append_eq_append_conv)
  have kind: "kind = kind'" using arg_cong [OF k, of "from_le_bytes :: bytes \<Rightarrow> i32"] by (simp add: byte_simps)
  have "put_u64 (of_nat (length name)) = put_u64 (of_nat (length name'))"
    "str_bytes name @ eid_encode ?L i @ body = str_bytes name' @ eid_encode ?L j @ body"
    using r by (simp_all add: put_str_def append_eq_append_conv)
  then have "length name = length name'"
    using assms(3,4) to_le_bytes_inject u64_of_nat_inject by (auto simp: put_u64_def)
  then have name: "name = name'" and "eid_encode ?L i = eid_encode ?L j"
    using \<open>str_bytes name @ _ = _\<close> by (simp_all add: append_eq_append_conv)
  then have "eid_decode ?L (eid_encode ?L i) = eid_decode ?L (eid_encode ?L j)" by simp
  then have "i = j"
    using eid_decode_encode [of i ?L] eid_decode_encode [of j ?L] assms(1,2) by (simp add: snapshot_id_def)
  with kind name show ?thesis by simp
qed

text \<open>
  C19: a record is bound to its kind, name and identity.  A payload moved to a different
  record identity is checked against the hash of different bytes, so it is refused as long as
  SHA-256 does not give the two inputs the same hash.
\<close>

theorem moved_record_rejected:
  assumes "sha_ok S" and "snapshot_id (gl_values (sl_graph S)) i" and "snapshot_id (gl_values (sl_graph S)) j"
    and "length name < 2 ^ 64" and "length name' < 2 ^ 64" and "(kind', name', j) \<noteq> (kind, name, i)"
  shows "let body = encode_value_bytes (gl_values (sl_graph S)) v;
             a = checksum_input S VERSION kind name i body; b = checksum_input S VERSION kind' name' j body in
    a \<noteq> b \<and> (sha256 S a \<noteq> sha256 S b \<longrightarrow>
      decode_body S ((encode_record S kind name i v)\<lparr>ir_kind := kind', ir_name := name', ir_id := j\<rparr>) =
        Inl (Message ''incremental record checksum mismatch''))"
proof -
  let ?body = "encode_value_bytes (gl_values (sl_graph S)) v"
  have "checksum_input S VERSION kind name i ?body \<noteq> checksum_input S VERSION kind' name' j ?body"
    using checksum_input_inject [OF assms(2-5), of kind ?body kind'] assms(6) by blast
  moreover have "length (sha256 S x) = 32" for x using assms(1) by (simp add: sha_ok_def)
  moreover have "from_le_bytes (put_u32 VERSION) = VERSION" "length (put_u32 VERSION) = 4"
    by (simp_all add: put_u32_def byte_simps)
  ultimately show ?thesis
    by (simp add: Let_def decode_body_def encode_record_def record_checksum_def HEADER_LEN_def CHECKSUM_LEN_def)
qed

text \<open>A concrete library: 64-bit keys travel as eight bytes, the hash keeps the first 32 bytes.\<close>

definition demo_store :: store_lib where
  "demo_store = \<lparr>
     sl_graph = text_graph_lib\<lparr>gl_values := text_lib\<lparr>
       scalar_ipc := (\<lambda>v. case v of SV_Int64 n \<Rightarrow> to_le_bytes n | _ \<Rightarrow> []),
       scalar_of_ipc := (\<lambda>bs. Some (SV_Int64 (from_le_bytes bs)))\<rparr>\<rparr>,
     sha256 = (\<lambda>bs. take 32 (bs @ replicate 32 0)),
     f32_decimal = (\<lambda>_. None), f64_decimal = (\<lambda>_. None),
     normalized_text = (\<lambda>n s. show_int n), debug_text = (\<lambda>_. ''?'')\<rparr>"

lemma sha_ok_demo: "sha_ok demo_store"
  by (auto simp: sha_ok_def demo_store_def min_def)

lemma fits_small:
  assumes "snapshot_ok (gl_values (sl_graph S)) (V_List body)" "length (encode_value (gl_values (sl_graph S)) (V_List body)) < 1000"
  shows "fits S body"
  using assms by (simp add: fits_def snapshot_fits_def)

definition record_demo :: graph_overlay where
  "record_demo = empty_overlay\<lparr>
     ov_label_sets := [((''P'', eid_of_i64 1), {''P'', ''Q''})],
     ov_node_overrides := [((''P'', eid_of_i64 1), [(''age'', V_Int 7)])],
     ov_deleted_nodes := {(''P'', eid_of_i64 2)},
     ov_inserted_edges := [((''K'', eid_of_i64 0), \<lparr>ie_src_label = ''P'', ie_src_id = eid_of_i64 1,
       ie_dst_label = ''P'', ie_dst_id = eid_of_i64 3, ie_props = [(''w'', V_Bool True)]\<rparr>)],
     ov_out_adj := [((''P'', eid_of_i64 1), [(''K'', eid_of_i64 0)])],
     ov_in_adj := [((''P'', eid_of_i64 3), [(''K'', eid_of_i64 0)])],
     ov_edge_counts := [(''K'', 1)]\<rparr>"

theorem node_record_restores_witness:
  "node_entry (snd (apply_one demo_store (node_record demo_store record_demo (''P'', eid_of_i64 1)) empty_overlay)) (''P'', eid_of_i64 1) =
     node_entry record_demo (''P'', eid_of_i64 1)"
proof -
  have "fits demo_store (encode_node_body (''P'', eid_of_i64 1) record_demo)" by (rule fits_small; code_simp)
  moreover have "node_recordable (''P'', eid_of_i64 1) record_demo"
    by (simp add: node_recordable_def native_value_ok_def record_demo_def empty_overlay_def al_default_def bt_ordered_def)
  note node_record_restores [OF sha_ok_demo _ this, of empty_overlay]
  ultimately show ?thesis by simp
qed

theorem edge_record_restores_witness:
  "edge_entry (snd (apply_one demo_store (edge_record demo_store record_demo (''K'', eid_of_i64 0)) empty_overlay)) (''K'', eid_of_i64 0) =
     edge_entry record_demo (''K'', eid_of_i64 0)"
proof -
  have "fits demo_store (encode_edge_body (''K'', eid_of_i64 0) record_demo)" by (rule fits_small; code_simp)
  moreover have "edge_recordable (''K'', eid_of_i64 0) record_demo"
    by (simp add: edge_recordable_def record_demo_def empty_overlay_def al_default_def)
  note edge_record_restores [OF sha_ok_demo _ this, of empty_overlay]
  ultimately show ?thesis by simp
qed

theorem moved_record_rejected_witness:
  "decode_body demo_store ((encode_record demo_store KIND_NODE ''P'' (eid_of_i64 1) (V_List []))\<lparr>ir_kind := KIND_EDGE,
      ir_name := ''P'', ir_id := eid_of_i64 1\<rparr>) = Inl (Message ''incremental record checksum mismatch'')"
proof -
  have "snapshot_id (gl_values (sl_graph demo_store)) (eid_of_i64 1)" by code_simp
  moreover have "(KIND_EDGE, ''P'', eid_of_i64 1) \<noteq> (KIND_NODE, ''P'', eid_of_i64 1)" by (simp add: record_kinds)
  moreover have "sha256 demo_store (checksum_input demo_store VERSION KIND_NODE ''P'' (eid_of_i64 1) (encode_value_bytes (gl_values (sl_graph demo_store)) (V_List []))) \<noteq>
      sha256 demo_store (checksum_input demo_store VERSION KIND_EDGE ''P'' (eid_of_i64 1) (encode_value_bytes (gl_values (sl_graph demo_store)) (V_List [])))"
    by code_simp
  ultimately show ?thesis
    using moved_record_rejected [OF sha_ok_demo, of "eid_of_i64 1" "eid_of_i64 1" "''P''" "''P''" KIND_EDGE KIND_NODE "V_List []"]
    by (simp add: Let_def)
qed

end
