(* ===== verification/Record_Table.thy ===== *)
theory Record_Table
  imports Incremental_Records
begin

text \<open>
  The table of incremental records (\<open>__orchiddb_records\<close> of \<open>src/src/engine.rs\<close>): rows keyed
  by kind, name and identity, upserts over the rows of earlier commits, and the graph that a
  checkpoint and its rows stand for.  A row may be older than the graph it describes.
\<close>

lemma distinct_al_upd: "distinct (map fst m) \<Longrightarrow> distinct (map fst (al_upd d f k m))"
  by (simp add: al_upd_def distinct_update)

lemma lists_invD:
  assumes "lists_inv ov"
  shows "distinct (al_default [] (ov_out_adj ov) a)" "distinct (al_default [] (ov_in_adj ov) a)"
    "distinct (map fst (ov_out_adj ov))" "distinct (map fst (ov_in_adj ov))" "distinct (map fst (ov_inserted_edges ov))"
  using assms unfolding lists_inv_def by blast+

lemma grown_refl [simp]: "grown ov ov"
  by (simp add: grown_def)

lemma grownD:
  assumes "grown ov ov'"
  shows "prefix (al_default [] (ov_out_adj ov) a) (al_default [] (ov_out_adj ov') a)"
    "prefix (al_default [] (ov_in_adj ov) a) (al_default [] (ov_in_adj ov') a)"
  using assms unfolding grown_def by blast+

section \<open>The table of records\<close>

type_synonym row_key = "i32 \<times> string \<times> element_id"
type_synonym record_rows = "row_key \<rightharpoonup> bytes"

definition row_key :: "incremental_record \<Rightarrow> row_key" where
  "row_key r = (ir_kind r, ir_name r, ir_id r)"

text \<open>\<open>INSERT \<dots> ON CONFLICT(kind, name, id) DO UPDATE SET payload\<close>.\<close>

definition upsert_rows :: "incremental_record list \<Rightarrow> record_rows \<Rightarrow> record_rows" where
  "upsert_rows rs T = fold (\<lambda>r T. T(row_key r \<mapsto> ir_payload r)) rs T"

text \<open>The rows of a table as a query returns them, in some order.\<close>

definition lists_rows :: "record_rows \<Rightarrow> incremental_record list \<Rightarrow> bool" where
  "lists_rows T rs \<longleftrightarrow> (\<forall>key p. T key = Some p \<longleftrightarrow> (\<exists>r \<in> set rs. row_key r = key \<and> ir_payload r = p))"

abbreviation node_key :: "addr \<Rightarrow> row_key" where "node_key k \<equiv> (KIND_NODE, k)"
abbreviation edge_key :: "addr \<Rightarrow> row_key" where "edge_key k \<equiv> (KIND_EDGE, k)"
abbreviation label_key :: "string \<Rightarrow> row_key" where "label_key l \<equiv> (KIND_NODE_META, l, eid_of_i64 0)"
abbreviation type_key :: "string \<Rightarrow> row_key" where "type_key r \<equiv> (KIND_EDGE_META, r, eid_of_i64 0)"

lemma record_keys [simp]:
  "row_key (node_record S src k) = node_key k" "row_key (edge_record S src k) = edge_key k"
  "row_key (node_meta_record S src l) = label_key l" "row_key (edge_meta_record S src l) = type_key l"
  by (simp_all add: row_key_def node_record_def edge_record_def node_meta_record_def edge_meta_record_def)

lemma upsert_Cons: "upsert_rows (r # rs) T = upsert_rows rs (T(row_key r \<mapsto> ir_payload r))"
  by (simp add: upsert_rows_def)

lemma upsert_other: "key \<notin> row_key ` set rs \<Longrightarrow> upsert_rows rs T key = T key"
  unfolding upsert_rows_def by (induction rs arbitrary: T) simp_all

lemma upsert_some:
  assumes "key \<in> row_key ` set rs"
  obtains r where "r \<in> set rs" "row_key r = key" "upsert_rows rs T key = Some (ir_payload r)"
proof -
  have "\<exists>r \<in> set rs. row_key r = key \<and> upsert_rows rs T key = Some (ir_payload r)"
    using assms
  proof (induction rs arbitrary: T)
    case (Cons r rs)
    show ?case
    proof (cases "key \<in> row_key ` set rs")
      case True
      then show ?thesis using Cons.IH [of "T(row_key r \<mapsto> ir_payload r)"] unfolding upsert_Cons by (meson list.set_intros(2))
    next
      case False
      then show ?thesis using Cons.prems upsert_other [OF False, of "T(row_key r \<mapsto> ir_payload r)"] by (auto simp: upsert_Cons)
    qed
  qed simp
  then show thesis using that by blast
qed

lemma row_eq: "row_key r = row_key s \<Longrightarrow> ir_payload r = ir_payload s \<Longrightarrow> r = s"
  by (simp add: row_key_def)

section \<open>Rows that describe an overlay\<close>

text \<open>Where an inserted relationship stands in the lists of its endpoints.\<close>

definition edge_places :: "graph_overlay \<Rightarrow> addr \<Rightarrow> (nat option \<times> nat option) option" where
  "edge_places ov k = map_option (\<lambda>e. (edge_position (ov_out_adj ov) (ie_src e) k, edge_position (ov_in_adj ov) (ie_dst e) k))
     (map_of (ov_inserted_edges ov) k)"

text \<open>
  A row may be older than the overlay it describes: it was written from a source that says the
  same of its element, or of its label's allocation counter.
\<close>

inductive describes :: "store_lib \<Rightarrow> graph_overlay \<Rightarrow> incremental_record \<Rightarrow> bool" for S cur where
  describes_node: "fits S (encode_node_body k src) \<Longrightarrow> node_recordable k src \<Longrightarrow> node_view src k = node_view cur k \<Longrightarrow>
    describes S cur (node_record S src k)"
| describes_edge: "fits S (encode_edge_body k src) \<Longrightarrow> edge_recordable k src \<Longrightarrow> positioned k src \<Longrightarrow>
    edge_view src k = edge_view cur k \<Longrightarrow> edge_places src k = edge_places cur k \<Longrightarrow> describes S cur (edge_record S src k)"
| describes_label: "fits S (encode_node_meta_body l src) \<Longrightarrow> 0 \<le> sint (al_default 0 (ov_node_counts src) l) \<Longrightarrow>
    al_default 0 (ov_node_counts src) l = al_default 0 (ov_node_counts cur) l \<Longrightarrow> describes S cur (node_meta_record S src l)"
| describes_type: "fits S (encode_edge_meta_body l src) \<Longrightarrow> 0 \<le> sint (al_default 0 (ov_edge_counts src) l) \<Longrightarrow>
    al_default 0 (ov_edge_counts src) l = al_default 0 (ov_edge_counts cur) l \<Longrightarrow> describes S cur (edge_meta_record S src l)"

text \<open>What applying the rows with keys \<open>K\<close> has done to an overlay and to the collected positions.\<close>

definition progress :: "graph_overlay \<Rightarrow> row_key set \<Rightarrow> positions \<times> positions \<Rightarrow> graph_overlay \<Rightarrow> positions \<times> positions \<Rightarrow> graph_overlay \<Rightarrow> bool" where
  "progress cur K ps ov ps' ov' \<longleftrightarrow>
     (\<forall>k. node_view ov' k = node_view (if node_key k \<in> K then cur else ov) k) \<and>
     (\<forall>k. edge_view ov' k = edge_view (if edge_key k \<in> K then cur else ov) k) \<and>
     (\<forall>l. al_default 0 (ov_node_counts ov') l = al_default 0 (ov_node_counts (if label_key l \<in> K then cur else ov)) l) \<and>
     (\<forall>l. al_default 0 (ov_edge_counts ov') l = al_default 0 (ov_edge_counts (if type_key l \<in> K then cur else ov)) l) \<and>
     (distinct (map fst (ov_inserted_edges ov)) \<longrightarrow> distinct (map fst (ov_inserted_edges ov'))) \<and>
     (\<forall>k. (map_of (fst ps') k, map_of (snd ps') k) =
       (if edge_key k \<in> K then (case edge_places cur k of Some p \<Rightarrow> p | None \<Rightarrow> (map_of (fst ps) k, map_of (snd ps) k))
        else (map_of (fst ps) k, map_of (snd ps) k)))"

lemma progress_refl: "progress cur {} ps ov ps ov"
  by (simp add: progress_def)

lemma progress_trans:
  assumes "progress cur K ps ov ps' ov'" "progress cur K' ps' ov' ps'' ov''"
  shows "progress cur (K \<union> K') ps ov ps'' ov''"
  using assms unfolding progress_def by (auto split: option.splits)

lemma progressD:
  assumes "progress cur K ps ov ps' ov'"
  shows "node_view ov' k = node_view (if node_key k \<in> K then cur else ov) k"
    "edge_view ov' k = edge_view (if edge_key k \<in> K then cur else ov) k"
    "al_default 0 (ov_node_counts ov') l = al_default 0 (ov_node_counts (if label_key l \<in> K then cur else ov)) l"
    "al_default 0 (ov_edge_counts ov') l = al_default 0 (ov_edge_counts (if type_key l \<in> K then cur else ov)) l"
    "distinct (map fst (ov_inserted_edges ov)) \<Longrightarrow> distinct (map fst (ov_inserted_edges ov'))"
    "(map_of (fst ps') k, map_of (snd ps') k) =
       (if edge_key k \<in> K then (case edge_places cur k of Some p \<Rightarrow> p | None \<Rightarrow> (map_of (fst ps) k, map_of (snd ps) k))
        else (map_of (fst ps) k, map_of (snd ps) k))"
  using assms unfolding progress_def by blast+

lemma shared_counts:
  assumes "shared_state ov' = shared_state ov"
  shows "ov_node_counts ov' = ov_node_counts ov" "ov_edge_counts ov' = ov_edge_counts ov"
  using assms by (simp_all add: shared_state_def)

lemma put_views:
  assumes "node_entry ov' = (node_entry ov)(k := node_entry src k)"
  shows "node_view ov' j = node_view (if j = k then src else ov) j"
  using arg_cong [OF fun_cong [OF assms, of j], of fst] by (simp add: node_entry_def)

lemma put_edge_views:
  assumes "edge_entry ov' = (edge_entry ov)(k := edge_entry src k)"
  shows "edge_view ov' j = edge_view (if j = k then src else ov) j"
  using arg_cong [OF fun_cong [OF assms, of j], of fst] by (simp add: edge_entry_def)

lemma entry_views:
  "node_entry ov' = node_entry ov \<Longrightarrow> node_view ov' = node_view ov"
  "edge_entry ov' = edge_entry ov \<Longrightarrow> edge_view ov' = edge_view ov"
  by (auto simp: node_entry_def edge_entry_def fun_eq_iff)

lemma put_positions_places:
  assumes "positioned k src"
  shows "(map_of (fst (put_positions src k ps)) j, map_of (snd (put_positions src k ps)) j) =
    (if j = k then (case edge_places src k of Some p \<Rightarrow> p | None \<Rightarrow> (map_of (fst ps) k, map_of (snd ps) k))
     else (map_of (fst ps) j, map_of (snd ps) j))"
  using assms
  by (auto simp: put_positions_def edge_places_def positioned_def map_of_add_entry split: option.splits)

text \<open>One row, accepted on any overlay.\<close>

lemma apply_described_row:
  assumes "sha_ok S" "describes S cur r"
  obtains ps' ov' where "apply_one S r ov = (Inr (), ov')" "record_positions S r ps = Inr ps'" "progress cur {row_key r} ps ov ps' ov'"
  using assms(2)
proof cases
  case (describes_node k src)
  note put = put_node_entries [OF describes_node(3), of ov]
  have e: "node_entry (put_node k src ov) = (node_entry ov)(k := node_entry src k)" using put(1) by (simp add: fun_eq_iff)
  show ?thesis
  proof (rule that)
    show "apply_one S r ov = (Inr (), put_node k src ov)"
      unfolding describes_node(1) by (rule apply_node_record [OF assms(1) describes_node(2,3)])
    show "record_positions S r ps = Inr ps" unfolding describes_node(1) by (simp add: record_positions_other record_kinds)
    show "progress cur {row_key r} ps ov ps (put_node k src ov)"
      using put_views [OF e] entry_views(2) [OF put(2)] shared_counts [OF put(3)] put(4) describes_node(4)
      by (simp add: progress_def describes_node(1) record_kinds)
  qed
next
  case (describes_edge k src)
  note put = put_edge_entries [of k src ov]
  have e: "edge_entry (put_edge k src ov) = (edge_entry ov)(k := edge_entry src k)" using put(1) by (simp add: fun_eq_iff)
  show ?thesis
  proof (rule that)
    show "apply_one S r ov = (Inr (), put_edge k src ov)"
      unfolding describes_edge(1) by (rule apply_edge_record [OF assms(1) describes_edge(2,3)])
    show "record_positions S r ps = Inr (put_positions src k ps)"
      unfolding describes_edge(1) by (rule record_positions_edge [OF assms(1) describes_edge(2,4)])
    show "progress cur {row_key r} ps ov (put_positions src k ps) (put_edge k src ov)"
      using put_edge_views [OF e] entry_views(1) [OF put(2)] shared_counts [OF put(3)] put(4) describes_edge(5,6)
        put_positions_places [OF describes_edge(4), where ps = ps]
      by (simp add: progress_def describes_edge(1) record_kinds distinct_put_entry) auto
  qed
next
  case (describes_label l src)
  note put = put_meta_entries(1,2,5) [of l src ov]
  show ?thesis
  proof (rule that)
    show "apply_one S r ov = (Inr (), put_node_meta l src ov)"
      unfolding describes_label(1) by (rule apply_node_meta_record [OF assms(1) describes_label(2,3)])
    show "record_positions S r ps = Inr ps" unfolding describes_label(1) by (simp add: record_positions_other record_kinds)
    show "progress cur {row_key r} ps ov ps (put_node_meta l src ov)"
      using entry_views(1) [OF put(1)] entry_views(2) [OF put(2)] put(3) describes_label(4)
      by (simp add: progress_def describes_label(1) record_kinds) (simp add: put_node_meta_def al_default_def)
  qed
next
  case (describes_type l src)
  note put = put_meta_entries(3,4,6) [of l src ov]
  show ?thesis
  proof (rule that)
    show "apply_one S r ov = (Inr (), put_edge_meta l src ov)"
      unfolding describes_type(1) by (rule apply_edge_meta_record [OF assms(1) describes_type(2,3)])
    show "record_positions S r ps = Inr ps" unfolding describes_type(1) by (simp add: record_positions_other record_kinds)
    show "progress cur {row_key r} ps ov ps (put_edge_meta l src ov)"
      using entry_views(1) [OF put(1)] entry_views(2) [OF put(2)] put(3) describes_type(4)
      by (simp add: progress_def describes_type(1) record_kinds) (simp add: put_edge_meta_def al_default_def)
  qed
qed

lemma apply_described_rows:
  assumes "sha_ok S" "\<And>r. r \<in> set rs \<Longrightarrow> describes S cur r"
  obtains ps' ov' where "apply_records S rs ps ov = (Inr ps', ov')" "progress cur (row_key ` set rs) ps ov ps' ov'"
proof -
  have "\<exists>ps' ov'. apply_records S rs ps ov = (Inr ps', ov') \<and> progress cur (row_key ` set rs) ps ov ps' ov'"
    using assms(2)
  proof (induction rs arbitrary: ps ov)
    case (Cons r rs)
    obtain ps1 ov1 where one: "apply_one S r ov = (Inr (), ov1)" "record_positions S r ps = Inr ps1" "progress cur {row_key r} ps ov ps1 ov1"
      by (rule apply_described_row [OF assms(1) Cons.prems [OF list.set_intros(1)]])
    obtain ps2 ov2 where "apply_records S rs ps1 ov1 = (Inr ps2, ov2)" "progress cur (row_key ` set rs) ps1 ov1 ps2 ov2"
      using Cons.IH [of ps1 ov1] Cons.prems by auto
    then show ?case using one progress_trans [OF one(3)] by auto
  qed (simp add: progress_refl)
  then show thesis using that by blast
qed

lemma rebuilt_keys_distinct:
  "distinct (map fst (ov_out_adj (rebuild_inserted_adjacency S ps ov)))" "distinct (map fst (ov_in_adj (rebuild_inserted_adjacency S ps ov)))"
proof -
  have ups: "distinct (map fst (fold (\<lambda>(k, e). al_upd [] (\<lambda>ks. ks @ [k]) (at e)) es m))" if "distinct (map fst m)" for at es m
    using that by (induction es arbitrary: m) (auto simp: distinct_al_upd split: prod.split)
  have "distinct (map fst (push_inserted at es))" for at es
    unfolding push_inserted_def by (rule ups) simp
  moreover have "map fst (order_lists qs adj) = map fst adj" for qs adj by (auto simp: order_lists_def)
  ultimately show "distinct (map fst (ov_out_adj (rebuild_inserted_adjacency S ps ov)))"
    "distinct (map fst (ov_in_adj (rebuild_inserted_adjacency S ps ov)))"
    by (simp_all only: rebuild_inserted_adjacency_def Let_def) simp_all
qed

lemma edge_position_lists: "edge_position adj a k = find_index (\<lambda>c. c = k) (al_default [] adj a)"
  by (simp add: edge_position_def al_default_def split: option.split)

lemma edge_places_cong:
  assumes "edge_view ov' k = edge_view ov k"
    and "al_default [] (ov_out_adj ov') = al_default [] (ov_out_adj ov)" "al_default [] (ov_in_adj ov') = al_default [] (ov_in_adj ov)"
  shows "edge_places ov' k = edge_places ov k"
  using assms by (simp add: edge_places_def edge_position_lists edge_view_def)

lemma rebuild_progress:
  assumes "progress cur K (adjacency_positions ov) ov ps ov'" "\<And>k. edge_key k \<notin> K \<Longrightarrow> edge_view ov k = edge_view cur k"
    and "adjacency_inv cur" "adjacency_inv ov" "lists_inv cur" "lists_inv ov" "grown ov cur"
  shows "al_default [] (ov_out_adj (rebuild_inserted_adjacency S ps ov')) = al_default [] (ov_out_adj cur)"
    "al_default [] (ov_in_adj (rebuild_inserted_adjacency S ps ov')) = al_default [] (ov_in_adj cur)"
proof -
  have same: "map_of (ov_inserted_edges ov) k = map_of (ov_inserted_edges cur) k" if "k \<notin> {k. edge_key k \<in> K}" for k
    using assms(2) [of k] that by (simp add: edge_view_def)
  have l: "distinct (al_default [] (ov_out_adj cur) a)" "distinct (al_default [] (ov_in_adj cur) a)"
    "distinct (map fst (ov_out_adj ov))" "distinct (map fst (ov_in_adj ov))"
    and g: "prefix (al_default [] (ov_out_adj ov) a) (al_default [] (ov_out_adj cur) a)"
      "prefix (al_default [] (ov_in_adj ov) a) (al_default [] (ov_in_adj cur) a)" for a
    using assms(5-7) unfolding lists_inv_def grown_def by blast+
  have "edge_view ov' k = edge_view cur k" for k
    using progressD(2) [OF assms(1), of k] assms(2) [of k] by (cases "edge_key k \<in> K") simp_all
  then have m: "map_of (ov_inserted_edges ov') = map_of (ov_inserted_edges cur)" by (simp add: edge_view_def fun_eq_iff)
  have d: "distinct (map fst (ov_inserted_edges ov'))" using progressD(5) [OF assms(1)] assms(6) by (simp add: lists_inv_def)
  have p: "(map_of (fst ps) k, map_of (snd ps) k) = (if edge_key k \<in> K then (case edge_places cur k of Some p \<Rightarrow> p
      | None \<Rightarrow> (map_of (edge_positions (ov_out_adj ov)) k, map_of (edge_positions (ov_in_adj ov)) k))
    else (map_of (edge_positions (ov_out_adj ov)) k, map_of (edge_positions (ov_in_adj ov)) k))" for k
    by (rule progressD(6) [OF assms(1), of k, unfolded adjacency_positions_def fst_conv snd_conv])
  have look: "map_of (fst ps) k = (case map_of (ov_inserted_edges cur) k of
        Some e \<Rightarrow> if k \<in> {k. edge_key k \<in> K} then edge_position (ov_out_adj cur) (ie_src e) k else map_of (edge_positions (ov_out_adj ov)) k
      | None \<Rightarrow> map_of (edge_positions (ov_out_adj ov)) k)"
    "map_of (snd ps) k = (case map_of (ov_inserted_edges cur) k of
        Some e \<Rightarrow> if k \<in> {k. edge_key k \<in> K} then edge_position (ov_in_adj cur) (ie_dst e) k else map_of (edge_positions (ov_in_adj ov)) k
      | None \<Rightarrow> map_of (edge_positions (ov_in_adj ov)) k)" for k
    using p [of k] by (auto simp: edge_places_def split: option.splits if_splits)
  have out: "map_of (fst ps) (al_default [] (ov_out_adj cur) a ! n) = Some n" if "n < length (al_default [] (ov_out_adj cur) a)" for a n
    by (rule restored_position [OF look(1) adjacency_members(1) [OF assms(3)] adjacency_members(1) [OF assms(4)] same])
      (use l g that in simp_all)
  have inc: "map_of (snd ps) (al_default [] (ov_in_adj cur) a ! n) = Some n" if "n < length (al_default [] (ov_in_adj cur) a)" for a n
    by (rule restored_position [OF look(2) adjacency_members(2) [OF assms(3)] adjacency_members(2) [OF assms(4)] same])
      (use l g that in simp_all)
  show "al_default [] (ov_out_adj (rebuild_inserted_adjacency S ps ov')) = al_default [] (ov_out_adj cur)"
    using rebuilt_lists [OF d m adjacency_members(1) [OF assms(3)] l(1) out]
    by (simp add: rebuild_inserted_adjacency_def Let_def fun_eq_iff)
  show "al_default [] (ov_in_adj (rebuild_inserted_adjacency S ps ov')) = al_default [] (ov_in_adj cur)"
    using rebuilt_lists [OF d m adjacency_members(2) [OF assms(3)] l(2) inc]
    by (simp add: rebuild_inserted_adjacency_def Let_def fun_eq_iff)
qed

section \<open>A checkpoint and its rows\<close>

text \<open>
  \<open>same_overlay\<close>: two overlays no read tells apart, adjacency order and allocation included.
\<close>

definition same_overlay :: "graph_overlay \<Rightarrow> graph_overlay \<Rightarrow> bool" where
  "same_overlay ov ov' \<longleftrightarrow> node_view ov' = node_view ov \<and> edge_view ov' = edge_view ov \<and> skeleton ov' = skeleton ov"

definition recorded :: "store_lib \<Rightarrow> record_rows \<Rightarrow> graph_overlay \<Rightarrow> graph_overlay \<Rightarrow> bool" where
  "recorded S T ov0 ov \<longleftrightarrow>
     (\<forall>r. T (row_key r) = Some (ir_payload r) \<longrightarrow> describes S ov r) \<and>
     (\<forall>k. T (node_key k) = None \<longrightarrow> node_view ov0 k = node_view ov k) \<and>
     (\<forall>k. T (edge_key k) = None \<longrightarrow> edge_view ov0 k = edge_view ov k) \<and>
     (\<forall>l. T (label_key l) = None \<longrightarrow> al_default 0 (ov_node_counts ov0) l = al_default 0 (ov_node_counts ov) l) \<and>
     (\<forall>l. T (type_key l) = None \<longrightarrow> al_default 0 (ov_edge_counts ov0) l = al_default 0 (ov_edge_counts ov) l)"

lemma recordedD:
  assumes "recorded S T ov0 ov"
  shows "T (row_key r) = Some (ir_payload r) \<Longrightarrow> describes S ov r"
    "T (node_key k) = None \<Longrightarrow> node_view ov0 k = node_view ov k" "T (edge_key k) = None \<Longrightarrow> edge_view ov0 k = edge_view ov k"
    "T (label_key l) = None \<Longrightarrow> al_default 0 (ov_node_counts ov0) l = al_default 0 (ov_node_counts ov) l"
    "T (type_key l) = None \<Longrightarrow> al_default 0 (ov_edge_counts ov0) l = al_default 0 (ov_edge_counts ov) l"
  using assms unfolding recorded_def by blast+

text \<open>The graph \<open>g\<close> is what the checkpoint \<open>g0\<close> and the rows \<open>T\<close> stand for.\<close>

definition stored :: "store_lib \<Rightarrow> record_rows \<Rightarrow> property_graph \<Rightarrow> property_graph \<Rightarrow> bool" where
  "stored S T g0 g \<longleftrightarrow> base_of g = base_of g0 \<and> graph_inv g0 \<and> graph_inv g \<and>
     lists_inv (pg_overlay g0) \<and> lists_inv (pg_overlay g) \<and> grown (pg_overlay g0) (pg_overlay g) \<and>
     recorded S T (pg_overlay g0) (pg_overlay g)"

lemma describes_cong:
  assumes "describes S ov r" "same_overlay ov ov'"
  shows "describes S ov' r"
proof -
  note same = assms(2) [unfolded same_overlay_def]
  have sk: "skeleton ov' = skeleton ov" using same by blast
  have v: "node_view ov' k = node_view ov k" "edge_view ov' k = edge_view ov k" for k using same by simp_all
  show ?thesis
    using assms(1)
  proof cases
    case (describes_node k src)
    then show ?thesis using v by (simp add: describes.describes_node)
  next
    case (describes_edge k src)
    then show ?thesis
      using v edge_places_cong [OF v(2) skeleton_fields(5,6) [OF sk], of k] by (simp add: describes.describes_edge)
  next
    case (describes_label l src)
    then show ?thesis using skeleton_fields(7) [OF sk] by (simp add: describes.describes_label)
  next
    case (describes_type l src)
    then show ?thesis using skeleton_fields(8) [OF sk] by (simp add: describes.describes_type)
  qed
qed

lemma recorded_cong:
  assumes "recorded S T ov0 ov" "same_overlay ov ov'"
  shows "recorded S T ov0 ov'"
  using assms describes_cong [OF _ assms(2)] skeleton_fields(7,8) [of ov' ov]
  unfolding recorded_def same_overlay_def by simp

text \<open>Loading: the rows, in any order, are accepted over the checkpoint and give the graph back.\<close>

lemma load_stored:
  assumes "sha_ok S" "stored S T g0 g" "lists_rows T rs"
  obtains ov' where "apply_incremental_records S rs (pg_overlay g0) = (Inr (), ov')"
    "same_overlay (pg_overlay g) ov'" "lists_inv ov'"
proof -
  let ?base = "pg_overlay g0" and ?ov = "pg_overlay g"
  have rec: "recorded S T ?base ?ov" and inv: "graph_inv g0" "graph_inv g" and lists: "lists_inv ?base" "lists_inv ?ov" "grown ?base ?ov"
    using assms(2) by (simp_all add: stored_def)
  have "describes S ?ov r" if "r \<in> set rs" for r
    using that rec assms(3) unfolding recorded_def lists_rows_def by blast
  then obtain ps ov1 where run: "apply_records S rs (adjacency_positions ?base) ?base = (Inr ps, ov1)"
    and pr: "progress ?ov (row_key ` set rs) (adjacency_positions ?base) ?base ps ov1"
    using apply_described_rows [OF assms(1)] by metis
  have keys: "key \<in> row_key ` set rs \<longleftrightarrow> T key \<noteq> None" for key
    using assms(3) unfolding lists_rows_def by (metis (no_types, lifting) image_iff not_None_eq)
  let ?r = "rebuild_inserted_adjacency S ps ov1"
  let ?res = "rebuild_public_id_lookup S ?r"
  note at_key = progressD(1-4) [OF pr, unfolded keys] recordedD(2-5) [OF rec]
  have views: "node_view ov1 k = node_view ?ov k" "edge_view ov1 k = edge_view ?ov k" for k
    using at_key(1,2,5,6) [of k] by (simp_all split: if_splits)
  have counts: "al_default 0 (ov_node_counts ov1) l = al_default 0 (ov_node_counts ?ov) l"
    "al_default 0 (ov_edge_counts ov1) l = al_default 0 (ov_edge_counts ?ov) l" for l
    using at_key(3,4,7,8) [of l] by (simp_all split: if_splits)
  have adj: "al_default [] (ov_out_adj ?r) = al_default [] (ov_out_adj ?ov)" "al_default [] (ov_in_adj ?r) = al_default [] (ov_in_adj ?ov)"
    by (rule rebuild_progress [OF pr _ graph_inv_parts(2) [OF inv(2)] graph_inv_parts(2) [OF inv(1)] lists(2,1,3)];
        use at_key(6) in \<open>simp add: keys\<close>)+
  have frame: "node_view ?res = node_view ov1" "edge_view ?res = edge_view ov1" "ov_node_counts ?res = ov_node_counts ov1"
    "ov_edge_counts ?res = ov_edge_counts ov1" "ov_out_adj ?res = ov_out_adj ?r" "ov_in_adj ?res = ov_in_adj ?r"
    "ov_inserted_edges ?res = ov_inserted_edges ov1"
    by (simp_all add: rebuild_public_id_lookup_def rebuild_inserted_adjacency_def Let_def node_view_def edge_view_def fun_eq_iff)
  have v: "node_view ?res = node_view ?ov" "edge_view ?res = edge_view ?ov" using views frame by (simp_all add: fun_eq_iff)
  have same: "same_overlay ?ov ?res"
    using v adj counts by (simp add: same_overlay_def skeleton_def view_fields [OF v] frame fun_eq_iff)
  have "distinct (map fst (ov_inserted_edges ov1))" using progressD(5) [OF pr] lists(1) by (simp add: lists_inv_def)
  then have "lists_inv ?res"
    using lists(2) rebuilt_keys_distinct [of S ps ov1] unfolding lists_inv_def frame adj by blast
  with run same show thesis by (intro that [of ?res]) (simp_all add: apply_incremental_records_def)
qed

lemma stored_same:
  assumes "stored S T g0 g" "same_overlay (pg_overlay g) (pg_overlay g')" "lists_inv (pg_overlay g')" "base_of g' = base_of g"
  shows "stored S T g0 g'"
proof -
  have sk: "skeleton (pg_overlay g') = skeleton (pg_overlay g)" using assms(2) by (simp add: same_overlay_def)
  have "graph_inv g'" using graph_inv_cong [OF assms(4) sk] assms(1) by (simp add: stored_def)
  moreover have "grown (pg_overlay g0) (pg_overlay g')"
    using assms(1) unfolding stored_def grown_def skeleton_fields(5,6) [OF sk] by blast
  ultimately show ?thesis using assms recorded_cong [OF _ assms(2)] by (simp add: stored_def)
qed

text \<open>A checkpoint alone stands for itself.\<close>

lemma stored_checkpoint: "graph_inv g \<Longrightarrow> lists_inv (pg_overlay g) \<Longrightarrow> stored S Map.empty g g"
  by (simp add: stored_def recorded_def)


end
