(* ===== verification/Session_Replay.thy ===== *)
theory Session_Replay
  imports Record_Table
begin

text \<open>
  Durability of sessions: what the writes of a session do to adjacency lists and allocation
  counters, and the recovery of the session's graph from its checkpoint and the records of its
  pending set (\<open>src/src/ir/catalog/incremental.rs\<close>, used by \<open>persist\<close> and
  \<open>refresh_snapshot\<close> of \<open>src/src/engine.rs\<close>).
\<close>

section \<open>How a session grows the overlay\<close>

text \<open>
  From one state of a session to the next: adjacency lists grow at the end, no key or edge is
  listed twice, and an allocation counter moves only for labels and types in the pending set.
\<close>

definition advances :: "property_graph \<Rightarrow> property_graph \<Rightarrow> bool" where
  "advances g g' \<longleftrightarrow> grown (pg_overlay g) (pg_overlay g') \<and>
     (lists_inv (pg_overlay g) \<longrightarrow> lists_inv (pg_overlay g')) \<and>
     (\<forall>l. l \<notin> fst ` pc_nodes (pg_pending g') \<longrightarrow>
        al_default 0 (ov_node_counts (pg_overlay g)) l = al_default 0 (ov_node_counts (pg_overlay g')) l) \<and>
     (\<forall>r. r \<notin> fst ` pc_edges (pg_pending g') \<longrightarrow>
        al_default 0 (ov_edge_counts (pg_overlay g)) r = al_default 0 (ov_edge_counts (pg_overlay g')) r)"

lemma advances_refl [simp]: "advances g g"
  by (simp add: advances_def)

lemma advances_trans:
  assumes "advances g h" "advances h k" "touches h k"
  shows "advances g k"
proof -
  have p: "fst ` pc_nodes (pg_pending h) \<subseteq> fst ` pc_nodes (pg_pending k)"
    "fst ` pc_edges (pg_pending h) \<subseteq> fst ` pc_edges (pg_pending k)"
    using assms(3) unfolding touches_def by (intro image_mono, simp)+
  note a = assms(1,2) [unfolded advances_def]
  show ?thesis
    unfolding advances_def
  proof (intro conjI allI impI)
    show "grown (pg_overlay g) (pg_overlay k)"
      unfolding grown_def using a by (meson grown_def prefix_order.order_trans)
    show "lists_inv (pg_overlay k)" if "lists_inv (pg_overlay g)" using that a by blast
    show "al_default 0 (ov_node_counts (pg_overlay g)) l = al_default 0 (ov_node_counts (pg_overlay k)) l"
      if "l \<notin> fst ` pc_nodes (pg_pending k)" for l
    proof -
      have "l \<notin> fst ` pc_nodes (pg_pending h)" using that p(1) by blast
      then show ?thesis using a that by simp
    qed
    show "al_default 0 (ov_edge_counts (pg_overlay g)) r = al_default 0 (ov_edge_counts (pg_overlay k)) r"
      if "r \<notin> fst ` pc_edges (pg_pending k)" for r
    proof -
      have "r \<notin> fst ` pc_edges (pg_pending h)" using that p(2) by blast
      then show ?thesis using a that by simp
    qed
  qed
qed

lemma advances_same_structure:
  assumes "same_structure g g'"
  shows "advances g g'"
proof -
  have "ov_out_adj (pg_overlay g') = ov_out_adj (pg_overlay g)" "ov_in_adj (pg_overlay g') = ov_in_adj (pg_overlay g)"
    "map fst (ov_inserted_edges (pg_overlay g')) = map fst (ov_inserted_edges (pg_overlay g))"
    using assms by (simp_all add: same_structure_def shape_def)
  moreover have "skeleton (pg_overlay g') = skeleton (pg_overlay g)" using assms by (simp add: same_structure_def)
  note skeleton_fields(7,8) [OF this]
  ultimately show ?thesis by (simp add: advances_def grown_def lists_inv_def)
qed

lemma advances_store_node:
  "advances g (mark_node k (upd_overlay (store_node k c ps) g))"
proof -
  note s = store_node_skeleton [of k c ps "pg_overlay g"]
  have "ov_inserted_edges (store_node k c ps (pg_overlay g)) = ov_inserted_edges (pg_overlay g)" by (simp add: store_node_def)
  moreover have "l \<noteq> fst k" if "l \<notin> fst ` pc_nodes (pg_pending (mark_node k g'))" for l g'
    using that by (auto simp: mark_node_def)
  ultimately show ?thesis by (simp add: advances_def grown_def lists_inv_def s)
qed

lemma advances_store_edge:
  assumes "adjacency_inv (pg_overlay g)" "ends (pg_overlay g) k = None"
  shows "advances g (mark_edge k (upd_overlay (store_edge k c s d False ps) g))"
proof -
  let ?ov = "store_edge k c s d False ps (pg_overlay g)"
  note e = store_edge_skeleton [of k c s d ps "pg_overlay g"]
  have new: "k \<notin> set (al_default [] (ov_out_adj (pg_overlay g)) a)" "k \<notin> set (al_default [] (ov_in_adj (pg_overlay g)) a)" for a
    using assms unfolding adjacency_inv_def by (metis option.distinct(1))+
  have "distinct (map fst (ov_out_adj ?ov)) \<and> distinct (map fst (ov_in_adj ?ov)) \<and> distinct (map fst (ov_inserted_edges ?ov))"
    if "lists_inv (pg_overlay g)"
    using that by (simp add: store_edge_def Let_def lists_inv_def distinct_al_upd distinct_update)
  then have "lists_inv ?ov" if "lists_inv (pg_overlay g)"
    using that new unfolding lists_inv_def e(5,6) by simp
  moreover have "l \<noteq> fst k" if "l \<notin> fst ` pc_edges (pg_pending (mark_edge k g'))" for l g'
    using that by (auto simp: mark_edge_def)
  moreover have "grown (pg_overlay g) ?ov" by (simp add: grown_def e(5,6))
  ultimately show ?thesis by (simp add: advances_def e(7,8))
qed

lemma advances_delete:
  assumes "pg_overlay g' = (pg_overlay g)\<lparr>ov_deleted_edges := D, ov_deleted_nodes := N\<rparr>"
  shows "advances g g'"
  by (simp add: advances_def assms grown_def lists_inv_def)

lemma advances_delete_value: "advances g (snd (delete_value G target detach g))"
proof -
  have node: "advances g (mark_node k (upd_overlay (\<lambda>ov. ov\<lparr>ov_deleted_nodes := insert k (ov_deleted_nodes ov)\<rparr>) (delete_edges es g)))" for k es
    by (rule advances_delete) (simp add: delete_edges_overlay)
  have "advances g (mark_node k (upd_overlay (\<lambda>ov. ov\<lparr>ov_deleted_nodes := insert k (ov_deleted_nodes ov)\<rparr>) g))" for k
    using node [of k "[]"] by (simp add: delete_edges_def)
  moreover have "advances g (mark_edge k (upd_overlay (\<lambda>ov. ov\<lparr>ov_deleted_edges := insert k (ov_deleted_edges ov)\<rparr>) g))" for k
    by (rule advances_delete [where N = "ov_deleted_nodes (pg_overlay g)"]) simp
  ultimately show ?thesis
    by (simp add: delete_value_def Let_def node advances_same_structure [OF same_structure_remove] split: val.split)
qed

lemma advances_write:
  assumes "graph_inv g"
  shows "advances g (apply_write G op g)"
proof (cases op)
  case (W_InsertNode l ps key)
  show ?thesis
    by (cases rule: insert_node_native [OF assms, of G l ps key, case_names rejected stored])
      (simp_all add: W_InsertNode advances_store_node)
next
  case (W_InsertEdge r src dst ps key)
  have "ends (pg_overlay g) (r, new_edge_id g r None) = None" using fresh_edge_id(1) [OF assms] .
  then have "advances g (mark_edge (r, new_edge_id g r None) (upd_overlay (store_edge (r, new_edge_id g r None) c s d False ps') g))"
    for c s d ps'
    by (rule advances_store_edge [OF graph_inv_parts(2) [OF assms]])
  then show ?thesis
    by (cases rule: insert_edge_native [OF assms, of G r src dst ps key, case_names rejected stored])
      (simp_all add: W_InsertEdge)
next
  case (W_Delete target detach)
  then show ?thesis by (simp add: advances_delete_value)
qed (simp_all add: property_writes_keep_structure [THEN advances_same_structure])

section \<open>Sessions from a checkpoint\<close>

inductive session_from :: "graph_lib \<Rightarrow> property_graph \<Rightarrow> property_graph \<Rightarrow> bool" for G g where
  session_start: "session_from G g g"
| session_write: "session_from G g h \<Longrightarrow> counters_ok h \<Longrightarrow> target_known h op \<Longrightarrow> session_from G g (apply_write G op h)"

lemma session_from_facts:
  assumes "session_from G g h" "graph_inv g"
  shows "graph_inv h \<and> touches g h \<and> advances g h"
  using assms
proof (induction rule: session_from.induct)
  case (session_write h op)
  then have h: "graph_inv h" "touches g h" "advances g h" by blast+
  show ?case
    using write_refines [OF h(1) session_write.hyps(2,3)] touches_trans [OF h(2) touches_apply_write]
      advances_trans [OF h(3) advances_write [OF h(1)] touches_apply_write] by blast
qed simp

lemma reachable_lists: "reachable G g \<Longrightarrow> lists_inv (pg_overlay g)"
proof (induction rule: reachable.induct)
  case (reach_start g)
  then show ?case
    using built_types [OF reach_start(1)] by (simp add: unwritten_def lists_inv_def empty_overlay_def al_default_def)
next
  case (reach_write g op)
  then show ?case using advances_write [OF reachable_inv [OF reach_write(1)]] by (simp add: advances_def)
qed

text \<open>Neighbour lists, in their order, depend on the base, the entries of the overlay and its adjacency lists.\<close>

lemma edge_lists_cong:
  assumes "base_of g' = base_of g" "edge_view (pg_overlay g') = edge_view (pg_overlay g)"
    and "skeleton (pg_overlay g') = skeleton (pg_overlay g)"
  shows "out_edges g' = out_edges g" "in_edges g' = in_edges g"
proof -
  have "map_of (ov_inserted_edges (pg_overlay g')) k = map_of (ov_inserted_edges (pg_overlay g)) k" for k
    using fun_cong [OF assms(2), of k] by (simp add: edge_view_def)
  then have m: "map_of (ov_inserted_edges (pg_overlay g')) = map_of (ov_inserted_edges (pg_overlay g))" by (rule ext)
  note f = base_of_fields [OF assms(1)] skeleton_fields [OF assms(3)] m
  show "out_edges g' = out_edges g" "in_edges g' = in_edges g"
    by (intro ext; simp only: out_edges_def in_edges_def source_neighbors_def base_neighbors_def inserted_neighbors_def
        edge_is_live_def f)+
qed

lemma overlay_reads_cong:
  assumes "base_of g' = base_of g" "node_view (pg_overlay g') = node_view (pg_overlay g)"
    "edge_view (pg_overlay g') = edge_view (pg_overlay g)"
  shows "node_is_live g' = node_is_live g" "node_property L g' = node_property L g"
    "live_edge_endpoints g' = live_edge_endpoints g" "edge_property L g' = edge_property L g"
proof -
  have n: "node_view (pg_overlay g') k = node_view (pg_overlay g) k" and e: "edge_view (pg_overlay g') k = edge_view (pg_overlay g) k" for k
    using assms(2,3) by simp_all
  show "node_is_live g' = node_is_live g" "node_property L g' = node_property L g"
    "live_edge_endpoints g' = live_edge_endpoints g" "edge_property L g' = edge_property L g"
    by (intro ext, (rule node_reads_cong [OF assms(1) n] edge_reads_cong [OF assms(1) e] fun_cong [OF node_reads_cong(1) [OF assms(1) n]]
        fun_cong [OF edge_reads_cong(1) [OF assms(1) e]]))+
qed

section \<open>Committing a session\<close>

lemma edge_places_grown:
  assumes "edge_view ov' k = edge_view ov k" "adjacency_inv ov" "lists_inv ov'" "grown ov ov'"
  shows "edge_places ov' k = edge_places ov k"
proof -
  have stay: "find_index (\<lambda>c. c = k) ys = find_index (\<lambda>c. c = k) xs" if "prefix xs ys" "distinct ys" "k \<in> set xs" for xs ys
  proof -
    obtain n where "n < length xs" "k = xs ! n" using \<open>k \<in> set xs\<close> by (metis in_set_conv_nth)
    then show ?thesis
      using that find_index_at [of xs n] find_index_at [of ys n] by (auto simp: prefix_def nth_append)
  qed
  have e: "map_of (ov_inserted_edges ov') k = map_of (ov_inserted_edges ov) k" using assms(1) by (simp add: edge_view_def)
  show ?thesis
  proof (cases "map_of (ov_inserted_edges ov) k")
    case None
    then show ?thesis by (simp add: edge_places_def e)
  next
    case (Some ed)
    have mem: "k \<in> set (al_default [] (ov_out_adj ov) (ie_src ed))" "k \<in> set (al_default [] (ov_in_adj ov) (ie_dst ed))"
      using adjacency_members [OF assms(2)] Some by blast+
    have "prefix (al_default [] (ov_out_adj ov) a) (al_default [] (ov_out_adj ov') a)" "distinct (al_default [] (ov_out_adj ov') a)"
      "prefix (al_default [] (ov_in_adj ov) a) (al_default [] (ov_in_adj ov') a)" "distinct (al_default [] (ov_in_adj ov') a)" for a
      using assms(3,4) unfolding lists_inv_def grown_def by blast+
    then show ?thesis
      using stay [OF _ _ mem(1)] stay [OF _ _ mem(2)] by (simp add: edge_places_def e Some edge_position_lists)
  qed
qed

lemma describes_step:
  assumes "describes S (pg_overlay g) r" "touches g g'" "grown (pg_overlay g) (pg_overlay g')"
    and "advances g g'" "adjacency_inv (pg_overlay g)" "lists_inv (pg_overlay g')"
    and "row_key r \<notin> node_key ` pc_nodes (pg_pending g') \<union> edge_key ` pc_edges (pg_pending g') \<union>
      label_key ` fst ` pc_nodes (pg_pending g') \<union> type_key ` fst ` pc_edges (pg_pending g')"
  shows "describes S (pg_overlay g') r"
  using assms(1)
proof cases
  case (describes_node k src)
  then have "k \<notin> pc_nodes (pg_pending g')" using assms(7) by auto
  then have "node_view (pg_overlay g') k = node_view (pg_overlay g) k" using assms(2) unfolding touches_def by blast
  with describes_node show ?thesis by (simp add: describes.describes_node)
next
  case (describes_edge k src)
  then have "k \<notin> pc_edges (pg_pending g')" using assms(7) by auto
  then have v: "edge_view (pg_overlay g') k = edge_view (pg_overlay g) k" using assms(2) unfolding touches_def by blast
  with describes_edge edge_places_grown [OF v assms(5,6,3)] show ?thesis by (simp add: describes.describes_edge)
next
  case (describes_label l src)
  then have "l \<notin> fst ` pc_nodes (pg_pending g')" using assms(7) by auto
  with describes_label assms(4) show ?thesis by (simp add: describes.describes_label advances_def)
next
  case (describes_type l src)
  then have "l \<notin> fst ` pc_edges (pg_pending g')" using assms(7) by auto
  with describes_type assms(4) show ?thesis by (simp add: describes.describes_type advances_def)
qed

lemma own_records_describe:
  assumes "records_fit S nodes edges ov" "r \<in> set (incremental_records S nodes edges ov)"
  shows "describes S ov r"
proof -
  note fit = assms(1) [unfolded records_fit_def list_all_iff]
  show ?thesis
    using assms(2) fit unfolding incremental_records_parts
    by (auto intro: describes_node describes_edge describes_label describes_type)
qed

lemma incremental_record_keys:
  "row_key ` set (incremental_records S nodes edges ov) =
     node_key ` set nodes \<union> edge_key ` set edges \<union> label_key ` fst ` set nodes \<union> type_key ` fst ` set edges"
  unfolding incremental_records_parts by (simp add: image_Un image_image Un_assoc)

text \<open>
  Upserting the records of a session's pending set over the rows of earlier commits describes
  the session's graph.
\<close>

lemma stored_commit:
  assumes "stored S T g0 g" "graph_inv g'" "touches g g'" "advances g g'"
    and "set nodes = pc_nodes (pg_pending g')" "set edges = pc_edges (pg_pending g')"
    and "records_fit S nodes edges (pg_overlay g')"
  shows "stored S (upsert_rows (incremental_records S nodes edges (pg_overlay g')) T) g0 g'"
proof -
  let ?rs = "incremental_records S nodes edges (pg_overlay g')"
  note st = assms(1) [unfolded stored_def]
  have adv: "grown (pg_overlay g) (pg_overlay g')" "lists_inv (pg_overlay g')" using assms(4) st by (simp_all add: advances_def)
  have "grown (pg_overlay g0) (pg_overlay g')"
    using adv(1) st unfolding grown_def by (meson prefix_order.order_trans)
  moreover have "recorded S (upsert_rows ?rs T) (pg_overlay g0) (pg_overlay g')"
    unfolding recorded_def
  proof (intro conjI allI impI)
    fix r assume row: "upsert_rows ?rs T (row_key r) = Some (ir_payload r)"
    show "describes S (pg_overlay g') r"
    proof (cases "row_key r \<in> row_key ` set ?rs")
      case True
      then obtain r' where "r' \<in> set ?rs" "row_key r' = row_key r" "upsert_rows ?rs T (row_key r) = Some (ir_payload r')"
        by (rule upsert_some)
      with row have "r \<in> set ?rs" using row_eq [of r r'] by simp
      then show ?thesis by (rule own_records_describe [OF assms(7)])
    next
      case False
      then have "T (row_key r) = Some (ir_payload r)" using row by (simp add: upsert_other)
      then have "describes S (pg_overlay g) r" using st by (simp add: recorded_def)
      then show ?thesis
        by (rule describes_step [OF _ assms(3) adv(1) assms(4) _ adv(2)])
          (use st False in \<open>simp_all add: graph_inv_parts incremental_record_keys assms(5,6)\<close>)
    qed
  next
    fix k assume none: "upsert_rows ?rs T (node_key k) = None"
    have out: "node_key k \<notin> row_key ` set ?rs" using none upsert_some [of "node_key k" ?rs T] by (metis option.distinct(1))
    then have "T (node_key k) = None" "k \<notin> pc_nodes (pg_pending g')"
      using none by (auto simp: upsert_other incremental_record_keys assms(5))
    then show "node_view (pg_overlay g0) k = node_view (pg_overlay g') k"
      using st assms(3) unfolding recorded_def touches_def by metis
  next
    fix k assume none: "upsert_rows ?rs T (edge_key k) = None"
    have out: "edge_key k \<notin> row_key ` set ?rs" using none upsert_some [of "edge_key k" ?rs T] by (metis option.distinct(1))
    then have "T (edge_key k) = None" "k \<notin> pc_edges (pg_pending g')"
      using none by (auto simp: upsert_other incremental_record_keys assms(6))
    then show "edge_view (pg_overlay g0) k = edge_view (pg_overlay g') k"
      using st assms(3) unfolding recorded_def touches_def by metis
  next
    fix l assume none: "upsert_rows ?rs T (label_key l) = None"
    have out: "label_key l \<notin> row_key ` set ?rs" using none upsert_some [of "label_key l" ?rs T] by (metis option.distinct(1))
    then have "T (label_key l) = None" "l \<notin> fst ` pc_nodes (pg_pending g')"
      using none by (auto simp: upsert_other incremental_record_keys assms(5))
    then show "al_default 0 (ov_node_counts (pg_overlay g0)) l = al_default 0 (ov_node_counts (pg_overlay g')) l"
      using st assms(4) unfolding recorded_def advances_def by metis
  next
    fix l assume none: "upsert_rows ?rs T (type_key l) = None"
    have out: "type_key l \<notin> row_key ` set ?rs" using none upsert_some [of "type_key l" ?rs T] by (metis option.distinct(1))
    then have "T (type_key l) = None" "l \<notin> fst ` pc_edges (pg_pending g')"
      using none by (auto simp: upsert_other incremental_record_keys assms(6))
    then show "al_default 0 (ov_edge_counts (pg_overlay g0)) l = al_default 0 (ov_edge_counts (pg_overlay g')) l"
      using st assms(4) unfolding recorded_def advances_def by metis
  qed
  ultimately show ?thesis using st adv(2) assms(2,3) by (simp add: stored_def touches_def)
qed

lemma lists_upserted:
  assumes "\<And>r s. r \<in> set rs \<Longrightarrow> s \<in> set rs \<Longrightarrow> row_key r = row_key s \<Longrightarrow> r = s"
  shows "lists_rows (upsert_rows rs Map.empty) rs"
  unfolding lists_rows_def
proof (intro allI)
  fix key p
  show "upsert_rows rs Map.empty key = Some p \<longleftrightarrow> (\<exists>r \<in> set rs. row_key r = key \<and> ir_payload r = p)"
  proof (cases "key \<in> row_key ` set rs")
    case True
    then obtain r where "r \<in> set rs" "row_key r = key" "upsert_rows rs Map.empty key = Some (ir_payload r)" by (rule upsert_some)
    then show ?thesis using assms by auto
  next
    case False
    then show ?thesis by (auto simp: upsert_other)
  qed
qed

lemma own_records_keyed:
  assumes "r \<in> set (incremental_records S nodes edges ov)" "s \<in> set (incremental_records S nodes edges ov)" "row_key r = row_key s"
  shows "r = s"
  using assms unfolding incremental_records_parts by (auto simp: record_kinds)

section \<open>Recovery\<close>

text \<open>
  A committed session survives.  The records of the pending set, applied to the checkpoint
  the session started from, are accepted and give back the session's graph: the same live
  nodes and relationships, the same properties, and the same neighbour lists in the same order.
\<close>

theorem replay_restores_session:
  assumes "reachable G g0" and "session_from G g0 g"
    and "set nodes = pc_nodes (pg_pending g)" and "set edges = pc_edges (pg_pending g)"
    and "records_fit S nodes edges (pg_overlay g)"
  shows "\<exists>ov'. apply_incremental_records S (incremental_records S nodes edges (pg_overlay g)) (pg_overlay g0) = (Inr (), ov') \<and>
    (let g' = g0\<lparr>pg_overlay := ov'\<rparr> in
       node_is_live g' = node_is_live g \<and> live_edge_endpoints g' = live_edge_endpoints g \<and>
       node_property L g' = node_property L g \<and> edge_property L g' = edge_property L g \<and>
       out_edges g' = out_edges g \<and> in_edges g' = in_edges g)"
proof -
  have inv: "graph_inv g0" by (rule reachable_inv [OF assms(1)])
  have s: "graph_inv g" "touches g0 g" "advances g0 g" using session_from_facts [OF assms(2) inv] by blast+
  let ?rs = "incremental_records S nodes edges (pg_overlay g)"
  have "stored S (upsert_rows ?rs Map.empty) g0 g"
    by (rule stored_commit [OF stored_checkpoint [OF inv reachable_lists [OF assms(1)]] s assms(3-5)])
  moreover have "sha_ok S" using assms(5) by (simp add: records_fit_def)
  ultimately obtain ov' where ov': "apply_incremental_records S ?rs (pg_overlay g0) = (Inr (), ov')" "same_overlay (pg_overlay g) ov'"
    using load_stored [OF _ _ lists_upserted] own_records_keyed by metis
  let ?g = "g0\<lparr>pg_overlay := ov'\<rparr>"
  have base: "base_of ?g = base_of g" using s(2) by (simp add: touches_def)
  show ?thesis
    using ov' overlay_reads_cong(1,3) [OF base] overlay_reads_cong(2,4) [OF base, where L = L] edge_lists_cong [OF base]
    by (auto simp: Let_def same_overlay_def)
qed

lemma demo_session: "session_from text_graph_lib new_graph (demo_write 3)"
proof -
  have steps: "demo_write 3 = apply_write text_graph_lib
      (W_InsertEdge ''K'' (V_Node ''P'' (eid_of_i64 0)) (V_Node ''P'' (eid_of_i64 1)) [] None) (demo_write 2)"
    "demo_write 2 = apply_write text_graph_lib (W_InsertNode ''P'' [] None) (demo_write 1)"
    "demo_write 1 = apply_write text_graph_lib (W_InsertNode ''P'' [] None) new_graph"
    by (simp_all only: demo_write_def take_Cons' fold_simps o_apply) simp_all
  have "session_from text_graph_lib new_graph (demo_write 1)"
    unfolding steps(3) by (rule session_write [OF session_start counters_new]) (simp add: target_known_def)
  then have "session_from text_graph_lib new_graph (demo_write 2)"
    unfolding steps(2) by (rule session_write [OF _ demo_counters(1)]) (simp add: target_known_def)
  then show ?thesis
    unfolding steps(1) by (rule session_write [OF _ demo_counters(2)]) (simp add: target_known_def)
qed

text \<open>The overlay that session leaves behind.\<close>

definition replay_demo :: graph_overlay where
  "replay_demo = empty_overlay\<lparr>
     ov_cypher_ids := [((False, ''P'', eid_of_i64 0), 0), ((False, ''P'', eid_of_i64 1), 1), ((True, ''K'', eid_of_i64 0), 0)],
     ov_unassigned := [(False, ''P'', eid_of_i64 0), (False, ''P'', eid_of_i64 1), (True, ''K'', eid_of_i64 0)],
     ov_inserted_nodes := [((''P'', eid_of_i64 0), []), ((''P'', eid_of_i64 1), [])],
     ov_inserted_edges := [((''K'', eid_of_i64 0), \<lparr>ie_src_label = ''P'', ie_src_id = eid_of_i64 0,
       ie_dst_label = ''P'', ie_dst_id = eid_of_i64 1, ie_props = []\<rparr>)],
     ov_node_counts := [(''P'', 2)], ov_edge_counts := [(''K'', 1)],
     ov_out_adj := [((''P'', eid_of_i64 0), [(''K'', eid_of_i64 0)])],
     ov_in_adj := [((''P'', eid_of_i64 1), [(''K'', eid_of_i64 0)])]\<rparr>"

lemma replay_demo_overlay: "pg_overlay (demo_write 3) = replay_demo"
  by code_simp

lemma demo_records_fit:
  "records_fit demo_store [(''P'', eid_of_i64 0), (''P'', eid_of_i64 1)] [(''K'', eid_of_i64 0)] replay_demo"
proof -
  have fit: "fits demo_store (encode_node_body (''P'', eid_of_i64 0) replay_demo)"
    "fits demo_store (encode_node_body (''P'', eid_of_i64 1) replay_demo)"
    "fits demo_store (encode_node_meta_body ''P'' replay_demo)"
    "fits demo_store (encode_edge_body (''K'', eid_of_i64 0) replay_demo)"
    "fits demo_store (encode_edge_meta_body ''K'' replay_demo)"
    by (rule fits_small; code_simp)+
  have "positioned (''K'', eid_of_i64 0) replay_demo" "0 \<le> sint (al_default 0 (ov_node_counts replay_demo) ''P'')"
    "0 \<le> sint (al_default 0 (ov_edge_counts replay_demo) ''K'')"
    by (simp_all add: positioned_def edge_position_def replay_demo_def ie_src_def ie_dst_def al_default_def)
  moreover have "node_recordable k replay_demo" "edge_recordable (''K'', eid_of_i64 0) replay_demo" for k
    by (simp_all add: node_recordable_def native_value_ok_def edge_recordable_def replay_demo_def empty_overlay_def
        al_default_def bt_ordered_def)
  ultimately show ?thesis using fit by (simp add: records_fit_def sha_ok_demo)
qed

theorem replay_restores_session_witness:
  "\<exists>ov'. apply_incremental_records demo_store (incremental_records demo_store
        [(''P'', eid_of_i64 0), (''P'', eid_of_i64 1)] [(''K'', eid_of_i64 0)] replay_demo) empty_overlay = (Inr (), ov') \<and>
    live_edge_endpoints (new_graph\<lparr>pg_overlay := ov'\<rparr>) ''K'' (eid_of_i64 0) = Some (''P'', eid_of_i64 0, ''P'', eid_of_i64 1)"
proof -
  have "pc_nodes (pg_pending (demo_write 3)) = {(''P'', eid_of_i64 0), (''P'', eid_of_i64 1)}"
    "pc_edges (pg_pending (demo_write 3)) = {(''K'', eid_of_i64 0)}" "pg_overlay new_graph = empty_overlay"
    by (code_simp, code_simp, simp add: new_graph_def)
  then obtain ov' where "apply_incremental_records demo_store (incremental_records demo_store
        [(''P'', eid_of_i64 0), (''P'', eid_of_i64 1)] [(''K'', eid_of_i64 0)] replay_demo) empty_overlay = (Inr (), ov')"
      "live_edge_endpoints (new_graph\<lparr>pg_overlay := ov'\<rparr>) = live_edge_endpoints (demo_write 3)"
    using replay_restores_session [OF reachable_new demo_session, where nodes = "[(''P'', eid_of_i64 0), (''P'', eid_of_i64 1)]" and
        edges = "[(''K'', eid_of_i64 0)]" and S = demo_store and L = text_graph_lib] demo_records_fit
    unfolding replay_demo_overlay Let_def by auto
  then show ?thesis using demo_edge by auto
qed

end
