(* ===== verification/Managed_Engine.thy ===== *)
theory Managed_Engine
  imports Session_Replay "HOL-Library.Sublist"
begin

text \<open>
  Durable managed graphs (\<open>src/src/engine.rs\<close>, \<open>src/src/engine/checkpoint.rs\<close>,
  \<open>src/src/storage.rs\<close>): transactions, statements with their guard, persistence of pending
  records, checkpoints and imports of a \<open>GraphEngine\<close> over its own DuckDB tables, that is with
  no mapping, as \<open>open\<close> and \<open>in_memory\<close> build it.

  DuckDB is a record of the statements the engine sends; what the engine relies on is
  \<open>duckdb_ok\<close>.  The execution of a plan is a function from the cached graph to its rows or error
  and the graph its writes leave.  Read modes, timeouts and executor sessions hold no graph state
  and are left out, as is the clearing of statistics, which exist for mapped graphs only.
\<close>

section \<open>Encoded graphs\<close>

text \<open>
  \<open>snapshot_encode\<close> and \<open>snapshot_decode\<close> write and read the sections of a graph as Arrow
  streams; they are fields of \<open>snapshot_codec\<close>.
\<close>

record snapshot_codec =
  snapshot_encode :: "property_graph \<Rightarrow> string + bytes"
  snapshot_decode :: "bytes \<Rightarrow> string + property_graph"

definition encode_graph :: "store_lib \<Rightarrow> snapshot_codec \<Rightarrow> property_graph \<Rightarrow> string + bytes" where
  "encode_graph S C g = bind_res (snapshot_encode C g) (\<lambda>blob. Inr (blob @ sha256 S blob))"

definition decode_graph :: "store_lib \<Rightarrow> snapshot_codec \<Rightarrow> bytes \<Rightarrow> string + property_graph" where
  "decode_graph S C data =
     (if length data < 32 then Inl ''truncated graph snapshot''
      else let blob = take (length data - 32) data; checksum = drop (length data - 32) data in
        if sha256 S blob \<noteq> checksum then Inl ''graph snapshot checksum mismatch''
        else snapshot_decode C blob)"

lemma decode_encode_graph:
  assumes "sha_ok S" "encode_graph S C g = Inr data"
  obtains blob where "snapshot_encode C g = Inr blob" "decode_graph S C data = snapshot_decode C blob"
proof -
  obtain blob where p: "snapshot_encode C g = Inr blob" "data = blob @ sha256 S blob"
    using assms(2) by (cases "snapshot_encode C g") (auto simp: encode_graph_def)
  have "length (sha256 S blob) = 32" using assms(1) by (simp add: sha_ok_def)
  then show thesis by (intro that [OF p(1)]) (simp add: decode_graph_def p(2))
qed

section \<open>State\<close>

text \<open>
  The statements the engine sends to its DuckDB connection.  Each may answer with an error,
  and each may change the state of the connection.
\<close>

record 'd duckdb =
  db_begin :: "'d \<Rightarrow> (string + unit) \<times> 'd"
  db_commit :: "'d \<Rightarrow> (string + unit) \<times> 'd"
  db_rollback :: "'d \<Rightarrow> (string + unit) \<times> 'd"
  db_select_state :: "'d \<Rightarrow> (string + i32 \<times> i64) \<times> 'd"
  db_select_payload :: "'d \<Rightarrow> (string + bytes) \<times> 'd"
  db_select_records :: "'d \<Rightarrow> (string + incremental_record list) \<times> 'd"
  db_advance_revision :: "'d \<Rightarrow> (string + i64) \<times> 'd"
  db_upsert_records :: "incremental_record list \<Rightarrow> 'd \<Rightarrow> (string + unit) \<times> 'd"
  db_update_payload :: "bytes \<Rightarrow> 'd \<Rightarrow> (string + unit) \<times> 'd"
  db_delete_records :: "'d \<Rightarrow> (string + unit) \<times> 'd"

text \<open>
  \<open>el_order\<close> is the iteration order of a \<open>BTreeSet\<close> of addresses, which compares keys by
  Arrow's order of scalars.
\<close>

record 'd engine_lib =
  el_store :: store_lib
  el_codec :: snapshot_codec
  el_db :: "'d duckdb"
  el_order :: "addr set \<Rightarrow> addr list"

record ('d, 'p) graph_engine =
  en_storage :: 'd
  en_graph :: property_graph
  en_procedures :: "(string \<times> 'p) list"
  en_loaded_revision :: "i64 option"
  en_in_transaction :: bool
  en_failed_transaction :: bool

datatype engine_error = Database string | Refused string | BadRecord incremental_error

type_synonym ('d, 'p, 'a) engine_action = "('d, 'p) graph_engine \<Rightarrow> (engine_error + 'a) \<times> ('d, 'p) graph_engine"

definition and_then :: "('d, 'p, 'a) engine_action \<Rightarrow> ('a \<Rightarrow> ('d, 'p, 'b) engine_action) \<Rightarrow> ('d, 'p, 'b) engine_action" where
  "and_then m k e = (case m e of (Inl er, e') \<Rightarrow> (Inl er, e') | (Inr x, e') \<Rightarrow> k x e')"

definition refuse :: "string \<Rightarrow> ('d, 'p, 'a) engine_action" where
  "refuse msg e = (Inl (Refused msg), e)"

definition yields :: "'a \<Rightarrow> ('d, 'p, 'a) engine_action" where
  "yields x e = (Inr x, e)"

definition send :: "('d \<Rightarrow> (string + 'a) \<times> 'd) \<Rightarrow> ('d, 'p, 'a) engine_action" where
  "send stmt e =
     (case stmt (en_storage e) of
        (Inl msg, d) \<Rightarrow> (Inl (Database msg), e\<lparr>en_storage := d\<rparr>)
      | (Inr x, d) \<Rightarrow> (Inr x, e\<lparr>en_storage := d\<rparr>))"

definition clear_pending_changes :: "property_graph \<Rightarrow> property_graph" where
  "clear_pending_changes g = g\<lparr>pg_pending := no_pending\<rparr>"

section \<open>Operations\<close>

text \<open>The checkpoint with the rows applied, as \<open>refresh_snapshot\<close> builds it.\<close>

definition load_graph :: "'d engine_lib \<Rightarrow> property_graph \<Rightarrow> incremental_record list \<Rightarrow> engine_error + property_graph" where
  "load_graph L g0 rs =
     (case apply_incremental_records (el_store L) rs (pg_overlay g0) of
        (Inl er, ov) \<Rightarrow> Inl (BadRecord er)
      | (Inr u, ov) \<Rightarrow> Inr (clear_pending_changes (g0\<lparr>pg_overlay := ov\<rparr>)))"

definition refresh_snapshot :: "'d engine_lib \<Rightarrow> ('d, 'p, unit) engine_action" where
  "refresh_snapshot L =
     and_then (send (db_select_state (el_db L))) (\<lambda>(version, revision) e.
       if version \<noteq> 2 then refuse (''unsupported graph storage version '' @ show_int (sint version)) e
       else if en_loaded_revision e = Some revision then yields () e
       else and_then (send (db_select_payload (el_db L))) (\<lambda>blob e.
         case decode_graph (el_store L) (el_codec L) blob of
           Inl msg \<Rightarrow> refuse msg e
         | Inr g0 \<Rightarrow> and_then (send (db_select_records (el_db L))) (\<lambda>rs e.
             case load_graph L g0 rs of
               Inl er \<Rightarrow> (Inl er, e)
             | Inr g \<Rightarrow> (Inr (), e\<lparr>en_graph := g, en_procedures := [], en_loaded_revision := Some revision\<rparr>)) e) e)"

definition refresh :: "'d engine_lib \<Rightarrow> ('d, 'p, unit) engine_action" where
  "refresh L e =
     (if en_in_transaction e then refresh_snapshot L e
      else and_then (send (db_begin (el_db L))) (\<lambda>_ e.
        case refresh_snapshot L e of
          (Inl er, e1) \<Rightarrow> (Inl er, snd (send (db_rollback (el_db L)) e1))
        | (Inr u, e1) \<Rightarrow>
            (case send (db_commit (el_db L)) e1 of
               (Inl er, e2) \<Rightarrow> (Inl er, (snd (send (db_rollback (el_db L)) e2))\<lparr>en_loaded_revision := None\<rparr>)
             | (Inr u, e2) \<Rightarrow> (Inr (), e2))) e)"

definition ensure_transaction :: "('d, 'p, unit) engine_action" where
  "ensure_transaction e = (if en_in_transaction e then yields () e else refuse ''no active transaction'' e)"

text \<open>A rollback that finds no transaction has nothing left to undo.\<close>

definition rollback_settled :: "engine_error + unit \<Rightarrow> bool" where
  "rollback_settled res \<longleftrightarrow>
     (case res of Inr u \<Rightarrow> True | Inl (Database msg) \<Rightarrow> sublist ''no transaction is active'' msg | Inl er \<Rightarrow> False)"

definition rollback :: "'d engine_lib \<Rightarrow> ('d, 'p, unit) engine_action" where
  "rollback L = and_then ensure_transaction (\<lambda>_ e.
     case send (db_rollback (el_db L)) e of
       (res, e1) \<Rightarrow>
         if rollback_settled res
         then refresh L (e1\<lparr>en_in_transaction := False, en_failed_transaction := False, en_loaded_revision := None\<rparr>)
         else (res, e1))"

definition begin_transaction :: "'d engine_lib \<Rightarrow> ('d, 'p, unit) engine_action" where
  "begin_transaction L e =
     (if en_in_transaction e then refuse ''a transaction is already active'' e
      else and_then (send (db_begin (el_db L))) (\<lambda>_ e.
        case refresh L (e\<lparr>en_in_transaction := True, en_failed_transaction := False\<rparr>) of
          (Inl er, e1) \<Rightarrow> (Inl er, snd (rollback L e1))
        | (Inr u, e1) \<Rightarrow> (Inr (), e1)) e)"

definition commit :: "'d engine_lib \<Rightarrow> ('d, 'p, unit) engine_action" where
  "commit L = and_then ensure_transaction (\<lambda>_ e.
     if en_failed_transaction e then refuse ''transaction failed; roll it back before continuing'' e
     else case send (db_commit (el_db L)) e of
       (Inl er, e1) \<Rightarrow> (Inl er, e1\<lparr>en_failed_transaction := True\<rparr>)
     | (Inr u, e1) \<Rightarrow> (Inr (), e1\<lparr>en_in_transaction := False\<rparr>))"

text \<open>The common end of the two ways to persist: the cache is at the new revision, or the transaction has failed.\<close>

definition settle_revision :: "('d, 'p, i64) engine_action \<Rightarrow> ('d, 'p, unit) engine_action" where
  "settle_revision work e =
     (case work e of
        (Inl er, e1) \<Rightarrow> (Inl er, e1\<lparr>en_failed_transaction := True\<rparr>)
      | (Inr revision, e1) \<Rightarrow>
          (Inr (), e1\<lparr>en_loaded_revision := Some revision, en_graph := clear_pending_changes (en_graph e1)\<rparr>))"

function chunks :: "nat \<Rightarrow> 'a list \<Rightarrow> 'a list list" where
  "chunks n xs = (if xs = [] \<or> n = 0 then [] else take n xs # chunks n (drop n xs))"
  by auto
termination
  by (relation "measure (length \<circ> snd)") auto

declare chunks.simps [simp del]

fun upsert_batches :: "'d engine_lib \<Rightarrow> incremental_record list list \<Rightarrow> ('d, 'p, unit) engine_action" where
  "upsert_batches L [] = yields ()"
| "upsert_batches L (b # bs) = and_then (send (db_upsert_records (el_db L) b)) (\<lambda>_. upsert_batches L bs)"

definition pending_records :: "'d engine_lib \<Rightarrow> property_graph \<Rightarrow> incremental_record list" where
  "pending_records L g = incremental_records (el_store L) (el_order L (pc_nodes (pg_pending g))) (el_order L (pc_edges (pg_pending g))) (pg_overlay g)"

definition persist :: "'d engine_lib \<Rightarrow> ('d, 'p, unit) engine_action" where
  "persist L e =
     (if pg_pending (en_graph e) = no_pending then yields () e
      else settle_revision (and_then (send (db_advance_revision (el_db L))) (\<lambda>revision.
        and_then (upsert_batches L (chunks 256 (pending_records L (en_graph e)))) (\<lambda>_. yields revision))) e)"

definition persist_checkpoint_payload :: "'d engine_lib \<Rightarrow> bytes \<Rightarrow> ('d, 'p, unit) engine_action" where
  "persist_checkpoint_payload L blob =
     settle_revision (and_then (send (db_advance_revision (el_db L))) (\<lambda>revision.
       and_then (send (db_update_payload (el_db L) blob)) (\<lambda>_.
         and_then (send (db_delete_records (el_db L))) (\<lambda>_. yields revision))))"

definition persist_checkpoint :: "'d engine_lib \<Rightarrow> ('d, 'p, unit) engine_action" where
  "persist_checkpoint L e =
     (case encode_graph (el_store L) (el_codec L) (en_graph e) of
        Inl msg \<Rightarrow> refuse msg e
      | Inr blob \<Rightarrow> persist_checkpoint_payload L blob e)"

definition finish_automatic :: "'d engine_lib \<Rightarrow> ('d, 'p, unit) engine_action" where
  "finish_automatic L e =
     (case commit L e of
        (Inl er, e1) \<Rightarrow> (Inl er, snd (rollback L e1))
      | (Inr u, e1) \<Rightarrow> (Inr (), e1))"

text \<open>An operation outside a transaction opens its own.\<close>

definition enter :: "'d engine_lib \<Rightarrow> bool \<Rightarrow> ('d, 'p, unit) engine_action" where
  "enter L automatic = (if automatic then begin_transaction L else yields ())"

definition leave :: "'d engine_lib \<Rightarrow> bool \<Rightarrow> ('d, 'p, unit) engine_action" where
  "leave L automatic = (if automatic then finish_automatic L else yields ())"

text \<open>Undoing an automatic transaction, whatever the rollback answers.\<close>

definition undo :: "'d engine_lib \<Rightarrow> bool \<Rightarrow> ('d, 'p) graph_engine \<Rightarrow> ('d, 'p) graph_engine" where
  "undo L automatic e = (if automatic then snd (rollback L e) else e)"

definition checkpoint :: "'d engine_lib \<Rightarrow> ('d, 'p, unit) engine_action" where
  "checkpoint L e =
     (if en_failed_transaction e then refuse ''transaction failed; roll it back'' e
      else let automatic = \<not> en_in_transaction e in
        and_then (enter L automatic) (\<lambda>_ e.
          case persist_checkpoint L e of
            (Inl er, e1) \<Rightarrow> (Inl er, undo L automatic e1)
          | (Inr u, e1) \<Rightarrow> leave L automatic e1) e)"

definition replace_graph_with_payload :: "'d engine_lib \<Rightarrow> property_graph \<Rightarrow> (string \<times> 'p) list \<Rightarrow> bytes option \<Rightarrow> ('d, 'p, unit) engine_action" where
  "replace_graph_with_payload L g ps blob e =
     (let automatic = \<not> en_in_transaction e in
        and_then (enter L automatic) (\<lambda>_ e.
          if en_failed_transaction e then refuse ''transaction failed; roll it back'' e
          else case (case blob of None \<Rightarrow> persist_checkpoint L | Some p \<Rightarrow> persist_checkpoint_payload L p)
              (e\<lparr>en_graph := g, en_procedures := ps\<rparr>) of
            (Inl er, e1) \<Rightarrow>
              let e2 = e1\<lparr>en_graph := en_graph e, en_procedures := en_procedures e\<rparr> in
              (Inl er, undo L automatic e2)
          | (Inr u, e1) \<Rightarrow> leave L automatic e1) e)"

definition replace_graph :: "'d engine_lib \<Rightarrow> property_graph \<Rightarrow> (string \<times> 'p) list \<Rightarrow> ('d, 'p, unit) engine_action" where
  "replace_graph L g ps = replace_graph_with_payload L g ps None"

text \<open>
  The statement guard: dropped with its copy of the graph still in place, on an error or when
  the caller abandons the statement, it puts the copy back and ends the transaction it opened.
\<close>

definition drop_statement :: "'d engine_lib \<Rightarrow> ('d, 'p) graph_engine \<Rightarrow> bool \<Rightarrow> ('d, 'p) graph_engine \<Rightarrow> ('d, 'p) graph_engine" where
  "drop_statement L before automatic e =
     (let e1 = e\<lparr>en_graph := en_graph before, en_procedures := en_procedures before\<rparr> in
      if automatic \<and> en_in_transaction e1
      then (case rollback L e1 of
              (Inl er, e2) \<Rightarrow> e2\<lparr>en_failed_transaction := True\<rparr>
            | (Inr u, e2) \<Rightarrow> e2)
      else e1)"

text \<open>A plan run on the graph: its rows or its error, and the graph its writes leave.\<close>

type_synonym 'r graph_run = "property_graph \<Rightarrow> (string + 'r) \<times> property_graph"

definition execute_dag :: "'r graph_run \<Rightarrow> ('d, 'p, 'r) engine_action" where
  "execute_dag run e =
     (case run (en_graph e) of
        (Inl msg, g) \<Rightarrow> (Inl (Refused msg), e\<lparr>en_graph := g\<rparr>)
      | (Inr r, g) \<Rightarrow> (Inr r, e\<lparr>en_graph := g\<rparr>))"

definition execute_mutation :: "'d engine_lib \<Rightarrow> 'r graph_run \<Rightarrow> ('d, 'p, 'r) engine_action" where
  "execute_mutation L run e =
     (let automatic = \<not> en_in_transaction e in
        and_then (enter L automatic) (\<lambda>_ before.
          case and_then (execute_dag run) (\<lambda>returned. and_then (persist L) (\<lambda>_.
                 and_then (if automatic then commit L else yields ()) (\<lambda>_. yields returned))) before of
            (Inl er, e1) \<Rightarrow> (Inl er, drop_statement L before automatic e1)
          | (Inr returned, e1) \<Rightarrow> (Inr returned, e1)) e)"

definition execute_read :: "'d engine_lib \<Rightarrow> (property_graph \<Rightarrow> string + 'r) \<Rightarrow> ('d, 'p, 'r) engine_action" where
  "execute_read L run e =
     and_then (if en_in_transaction e then yields () else refresh L) (\<lambda>_ e.
       (case run (en_graph e) of Inl msg \<Rightarrow> Inl (Refused msg) | Inr r \<Rightarrow> Inr r, e)) e"

definition execute_plan :: "'d engine_lib \<Rightarrow> bool \<Rightarrow> 'r graph_run \<Rightarrow> ('d, 'p, 'r) engine_action" where
  "execute_plan L mutation run e =
     (if en_failed_transaction e then refuse ''transaction failed; roll it back'' e
      else if mutation then execute_mutation L run e
      else execute_read L (fst \<circ> run) e)"

definition cypher_state_snapshot :: "'d engine_lib \<Rightarrow> (property_graph \<Rightarrow> string + 'r) \<Rightarrow> ('d, 'p, 'r) engine_action" where
  "cypher_state_snapshot L observe e =
     (if en_failed_transaction e then refuse ''transaction failed; roll it back'' e
      else and_then (refresh L) (\<lambda>_ e. (case observe (en_graph e) of Inl msg \<Rightarrow> Inl (Refused msg) | Inr r \<Rightarrow> Inr r, e)) e)"

definition register_table_procedure :: "('p \<Rightarrow> string + unit) \<Rightarrow> string \<Rightarrow> 'p \<Rightarrow> ('d, 'p, unit) engine_action" where
  "register_table_procedure validate name p e =
     (case validate p of
        Inl msg \<Rightarrow> refuse msg e
      | Inr u \<Rightarrow> (Inr (), e\<lparr>en_procedures := AList.update name p (en_procedures e)\<rparr>))"

definition clear_table_procedures :: "('d, 'p) graph_engine \<Rightarrow> ('d, 'p) graph_engine" where
  "clear_table_procedures e = e\<lparr>en_procedures := []\<rparr>"

definition open_engine :: "'d engine_lib \<Rightarrow> 'd \<Rightarrow> (engine_error + unit) \<times> ('d, 'p) graph_engine" where
  "open_engine L d = refresh L \<lparr>en_storage = d, en_graph = new_graph, en_procedures = [], en_loaded_revision = None,
     en_in_transaction = False, en_failed_transaction = False\<rparr>"

section \<open>What the engine relies on\<close>

record tables =
  tb_version :: i32
  tb_revision :: i64
  tb_payload :: bytes
  tb_rows :: record_rows

text \<open>
  A connection as the engine sees it: whether a transaction is active, the committed tables,
  the tables the transaction started from and the tables a statement sees now.
\<close>

record 'd db_view =
  dv_active :: "'d \<Rightarrow> bool"
  dv_committed :: "'d \<Rightarrow> tables"
  dv_snapshot :: "'d \<Rightarrow> tables"
  dv_tables :: "'d \<Rightarrow> tables"

definition same_view :: "'d db_view \<Rightarrow> 'd \<Rightarrow> 'd \<Rightarrow> bool" where
  "same_view V d d' \<longleftrightarrow> dv_active V d' = dv_active V d \<and> dv_committed V d' = dv_committed V d \<and>
     dv_snapshot V d' = dv_snapshot V d \<and> dv_tables V d' = dv_tables V d"

text \<open>A statement that fails commits nothing and starts no transaction; it may abort the active one.\<close>

definition failed_safely :: "'d db_view \<Rightarrow> 'd \<Rightarrow> 'd \<Rightarrow> bool" where
  "failed_safely V d d' \<longleftrightarrow> dv_committed V d' = dv_committed V d \<and> (dv_active V d' \<longrightarrow> dv_active V d)"

definition reads_tables :: "'d db_view \<Rightarrow> ('d \<Rightarrow> (string + 'a) \<times> 'd) \<Rightarrow> (tables \<Rightarrow> 'a \<Rightarrow> bool) \<Rightarrow> bool" where
  "reads_tables V stmt answer \<longleftrightarrow> (\<forall>d.
     case stmt d of
       (Inl msg, d') \<Rightarrow> failed_safely V d d'
     | (Inr x, d') \<Rightarrow> answer (dv_tables V d) x \<and> same_view V d d')"

definition writes_tables :: "'d db_view \<Rightarrow> ('d \<Rightarrow> (string + 'a) \<times> 'd) \<Rightarrow> (tables \<Rightarrow> 'a \<Rightarrow> tables \<Rightarrow> bool) \<Rightarrow> bool" where
  "writes_tables V stmt effect \<longleftrightarrow> (\<forall>d. dv_active V d \<longrightarrow>
     (case stmt d of
        (Inl msg, d') \<Rightarrow> failed_safely V d d'
      | (Inr x, d') \<Rightarrow> effect (dv_tables V d) x (dv_tables V d') \<and> dv_active V d' \<and>
          dv_committed V d' = dv_committed V d \<and> dv_snapshot V d' = dv_snapshot V d))"

text \<open>
  Snapshot isolation: a transaction starts from the committed tables; one that changed them
  commits only when nothing else was committed since, and then its tables are the committed
  ones.  Rolling back fails only when no transaction is active.
\<close>

definition begins_ok :: "'d db_view \<Rightarrow> 'd duckdb \<Rightarrow> bool" where
  "begins_ok V D \<longleftrightarrow> (\<forall>d.
     case db_begin D d of
       (Inl msg, d') \<Rightarrow> same_view V d d'
     | (Inr u, d') \<Rightarrow> dv_active V d' \<and> dv_committed V d' = dv_committed V d \<and>
         dv_snapshot V d' = dv_committed V d \<and> dv_tables V d' = dv_committed V d)"

definition commits_ok :: "'d db_view \<Rightarrow> 'd duckdb \<Rightarrow> bool" where
  "commits_ok V D \<longleftrightarrow> (\<forall>d. dv_active V d \<longrightarrow>
     (case db_commit D d of
        (Inl msg, d') \<Rightarrow> dv_committed V d' = dv_committed V d
      | (Inr u, d') \<Rightarrow> \<not> dv_active V d' \<and>
          (dv_tables V d = dv_snapshot V d \<and> dv_committed V d' = dv_committed V d \<or>
           dv_committed V d = dv_snapshot V d \<and> dv_committed V d' = dv_tables V d)))"

definition rollbacks_ok :: "'d db_view \<Rightarrow> 'd duckdb \<Rightarrow> bool" where
  "rollbacks_ok V D \<longleftrightarrow> (\<forall>d.
     case db_rollback D d of
       (res, d') \<Rightarrow> \<not> dv_active V d' \<and> dv_committed V d' = dv_committed V d \<and>
         (case res of Inl msg \<Rightarrow> sublist ''no transaction is active'' msg | Inr u \<Rightarrow> True))"

definition transactional :: "'d db_view \<Rightarrow> 'd duckdb \<Rightarrow> bool" where
  "transactional V D \<longleftrightarrow> (\<forall>d. \<not> dv_active V d \<longrightarrow> dv_tables V d = dv_committed V d) \<and>
     begins_ok V D \<and> commits_ok V D \<and> rollbacks_ok V D"

definition duckdb_ok :: "'d db_view \<Rightarrow> 'd duckdb \<Rightarrow> bool" where
  "duckdb_ok V D \<longleftrightarrow> transactional V D \<and>
     reads_tables V (db_select_state D) (\<lambda>t x. x = (tb_version t, tb_revision t)) \<and>
     reads_tables V (db_select_payload D) (\<lambda>t x. x = tb_payload t) \<and>
     reads_tables V (db_select_records D) (\<lambda>t. lists_rows (tb_rows t)) \<and>
     writes_tables V (db_advance_revision D)
       (\<lambda>t r t'. t' = t\<lparr>tb_revision := r\<rparr> \<and> r = tb_revision t + 1 \<and> sint (tb_revision t) < sint r) \<and>
     (\<forall>b. writes_tables V (db_upsert_records D b) (\<lambda>t u t'. t' = t\<lparr>tb_rows := upsert_rows b (tb_rows t)\<rparr>)) \<and>
     (\<forall>p. writes_tables V (db_update_payload D p) (\<lambda>t u t'. t' = t\<lparr>tb_payload := p\<rparr>)) \<and>
     writes_tables V (db_delete_records D) (\<lambda>t u t'. t' = t\<lparr>tb_rows := Map.empty\<rparr>)"

text \<open>The sections of a graph lose nothing that a read can tell.\<close>

definition lossless :: "snapshot_codec \<Rightarrow> bool" where
  "lossless C \<longleftrightarrow> (\<forall>g p. graph_inv g \<longrightarrow> lists_inv (pg_overlay g) \<longrightarrow> snapshot_encode C g = Inr p \<longrightarrow>
     (\<exists>g'. snapshot_decode C p = Inr g' \<and> base_of g' = base_of g \<and> same_overlay (pg_overlay g) (pg_overlay g') \<and>
       lists_inv (pg_overlay g')))"

definition lib_ok :: "'d db_view \<Rightarrow> 'd engine_lib \<Rightarrow> bool" where
  "lib_ok V L \<longleftrightarrow> sha_ok (el_store L) \<and> lossless (el_codec L) \<and> duckdb_ok V (el_db L)"

section \<open>Coherence\<close>

text \<open>The tables stand for the graph.\<close>

definition holds :: "'d engine_lib \<Rightarrow> tables \<Rightarrow> property_graph \<Rightarrow> bool" where
  "holds L t g \<longleftrightarrow> tb_version t = 2 \<and>
     (\<exists>g0. decode_graph (el_store L) (el_codec L) (tb_payload t) = Inr g0 \<and> stored (el_store L) (tb_rows t) g0 g)"

definition storable :: "'d engine_lib \<Rightarrow> tables \<Rightarrow> bool" where
  "storable L t \<longleftrightarrow> (\<exists>g. holds L t g)"

text \<open>The transaction's tables grew from a snapshot that is the committed state unless others committed since.\<close>

definition in_order :: "tables \<Rightarrow> tables \<Rightarrow> tables \<Rightarrow> bool" where
  "in_order snap com tabs \<longleftrightarrow> sint (tb_revision snap) \<le> sint (tb_revision com) \<and>
     (tb_revision snap = tb_revision com \<longrightarrow> snap = com) \<and> (tabs = snap \<or> sint (tb_revision snap) < sint (tb_revision tabs))"

text \<open>The cache does not run ahead of the committed revision, and at that revision it is the committed graph.\<close>

definition cache_ok :: "'d engine_lib \<Rightarrow> tables \<Rightarrow> ('d, 'p) graph_engine \<Rightarrow> bool" where
  "cache_ok L com e \<longleftrightarrow> (\<forall>r. en_loaded_revision e = Some r \<longrightarrow>
     sint r \<le> sint (tb_revision com) \<and> (r = tb_revision com \<longrightarrow> holds L com (en_graph e)))"

definition tx_ok :: "'d db_view \<Rightarrow> 'd engine_lib \<Rightarrow> ('d, 'p) graph_engine \<Rightarrow> bool" where
  "tx_ok V L e \<longleftrightarrow> (let d = en_storage e in dv_active V d \<and> en_loaded_revision e = Some (tb_revision (dv_tables V d)) \<and>
     holds L (dv_tables V d) (en_graph e) \<and> in_order (dv_snapshot V d) (dv_committed V d) (dv_tables V d))"

definition engine_inv :: "'d db_view \<Rightarrow> 'd engine_lib \<Rightarrow> ('d, 'p) graph_engine \<Rightarrow> bool" where
  "engine_inv V L e \<longleftrightarrow> storable L (dv_committed V (en_storage e)) \<and>
     (\<not> en_in_transaction e \<longrightarrow> \<not> dv_active V (en_storage e) \<and> cache_ok L (dv_committed V (en_storage e)) e) \<and>
     (en_in_transaction e \<longrightarrow> \<not> en_failed_transaction e \<longrightarrow> tx_ok V L e)"

abbreviation committed_of :: "'d db_view \<Rightarrow> ('d, 'p) graph_engine \<Rightarrow> tables" where
  "committed_of V e \<equiv> dv_committed V (en_storage e)"

abbreviation tables_of :: "'d db_view \<Rightarrow> ('d, 'p) graph_engine \<Rightarrow> tables" where
  "tables_of V e \<equiv> dv_tables V (en_storage e)"

section \<open>The operations keep the engine coherent\<close>

lemma send_cases:
  obtains (failed) msg d where "stmt (en_storage e) = (Inl msg, d)" "send stmt e = (Inl (Database msg), e\<lparr>en_storage := d\<rparr>)"
  | (answered) x d where "stmt (en_storage e) = (Inr x, d)" "send stmt e = (Inr x, e\<lparr>en_storage := d\<rparr>)"
  by (cases "stmt (en_storage e)"; cases "fst (stmt (en_storage e))") (auto simp: send_def)

lemma read_cases:
  assumes "reads_tables V stmt answer"
  obtains (failed) msg d where "send stmt e = (Inl (Database msg), e\<lparr>en_storage := d\<rparr>)" "failed_safely V (en_storage e) d"
  | (answered) x d where "send stmt e = (Inr x, e\<lparr>en_storage := d\<rparr>)" "answer (tables_of V e) x" "same_view V (en_storage e) d"
  using assms [unfolded reads_tables_def, rule_format, of "en_storage e"]
  by (cases rule: send_cases [of stmt e]) auto

lemma write_cases:
  assumes "writes_tables V stmt effect" "dv_active V (en_storage e)"
  obtains (failed) msg d where "send stmt e = (Inl (Database msg), e\<lparr>en_storage := d\<rparr>)" "failed_safely V (en_storage e) d"
  | (answered) x d where "send stmt e = (Inr x, e\<lparr>en_storage := d\<rparr>)" "effect (tables_of V e) x (dv_tables V d)" "dv_active V d"
      "dv_committed V d = committed_of V e" "dv_snapshot V d = dv_snapshot V (en_storage e)"
  using assms(1) [unfolded writes_tables_def, rule_format, OF assms(2)]
  by (cases rule: send_cases [of stmt e]) auto

lemma and_then_Inl: "m e = (Inl er, e') \<Longrightarrow> and_then m k e = (Inl er, e')"
  by (simp add: and_then_def)

lemma and_then_Inr: "m e = (Inr x, e') \<Longrightarrow> and_then m k e = k x e'"
  by (simp add: and_then_def)

lemmas and_then_simps = and_then_Inl and_then_Inr

lemma same_viewD:
  assumes "same_view V d d'"
  shows "dv_active V d' = dv_active V d" "dv_committed V d' = dv_committed V d"
    "dv_snapshot V d' = dv_snapshot V d" "dv_tables V d' = dv_tables V d"
  using assms by (simp_all add: same_view_def)

lemma same_view_trans: "same_view V d d' \<Longrightarrow> same_view V d' d'' \<Longrightarrow> same_view V d d''"
  by (simp add: same_view_def)

lemma failed_after_read: "same_view V d d' \<Longrightarrow> failed_safely V d' d'' \<Longrightarrow> failed_safely V d d''"
  by (simp add: same_view_def failed_safely_def)

lemma same_overlay_refl [simp]: "same_overlay ov ov"
  by (simp add: same_overlay_def)

text \<open>Loading what the tables stand for.\<close>

lemma holds_load:
  assumes "sha_ok (el_store L)" "holds L t g" "decode_graph (el_store L) (el_codec L) (tb_payload t) = Inr g0" "lists_rows (tb_rows t) rs"
  obtains g' where "load_graph L g0 rs = Inr g'" "holds L t g'" "base_of g' = base_of g" "same_overlay (pg_overlay g) (pg_overlay g')"
proof -
  have st: "stored (el_store L) (tb_rows t) g0 g" using assms(2,3) by (auto simp: holds_def)
  obtain ov where ov: "apply_incremental_records (el_store L) rs (pg_overlay g0) = (Inr (), ov)"
    "same_overlay (pg_overlay g) ov" "lists_inv ov"
    by (rule load_stored [OF assms(1) st assms(4)])
  let ?g = "clear_pending_changes (g0\<lparr>pg_overlay := ov\<rparr>)"
  have g: "base_of ?g = base_of g" "pg_overlay ?g = ov"
    using st by (simp_all add: clear_pending_changes_def stored_def base_of_def)
  show thesis
  proof (rule that)
    show "load_graph L g0 rs = Inr ?g" using ov(1) by (simp add: load_graph_def)
    show "holds L t ?g" using stored_same [OF st _ _ g(1)] ov(2,3) g(2) assms(2,3) by (simp add: holds_def)
  qed (use g ov(2) in simp_all)
qed

lemma refresh_snapshot_cases:
  assumes ok: "lib_ok V L" "storable L (tables_of V e)"
    and cached: "en_loaded_revision e = Some (tb_revision (tables_of V e)) \<longrightarrow> holds L (tables_of V e) (en_graph e)"
  obtains (failed) er d where "refresh_snapshot L e = (Inl er, e\<lparr>en_storage := d\<rparr>)" "failed_safely V (en_storage e) d"
  | (current) d g ps where "refresh_snapshot L e = (Inr (), e\<lparr>en_storage := d, en_graph := g, en_procedures := ps,
        en_loaded_revision := Some (tb_revision (tables_of V e))\<rparr>)"
      "same_view V (en_storage e) d" "holds L (tables_of V e) g"
proof -
  have db: "reads_tables V (db_select_state (el_db L)) (\<lambda>t x. x = (tb_version t, tb_revision t))"
    "reads_tables V (db_select_payload (el_db L)) (\<lambda>t x. x = tb_payload t)"
    "reads_tables V (db_select_records (el_db L)) (\<lambda>t. lists_rows (tb_rows t))" and sha: "sha_ok (el_store L)"
    using ok(1) by (simp_all add: lib_ok_def duckdb_ok_def)
  obtain g g0 where g: "holds L (tables_of V e) g" "decode_graph (el_store L) (el_codec L) (tb_payload (tables_of V e)) = Inr g0"
    "tb_version (tables_of V e) = 2"
    using ok(2) by (auto simp: storable_def holds_def)
  show thesis
  proof (cases rule: read_cases [OF db(1), of e, case_names failed answered])
    case (failed msg d)
    then show thesis by (intro that(1)) (simp_all add: refresh_snapshot_def and_then_simps)
  next
    case (answered x d)
    note state = answered
    show thesis
    proof (cases "en_loaded_revision e = Some (tb_revision (tables_of V e))")
      case True
      then show thesis
        using state g(3) cached by (intro that(2) [where d = d and g = "en_graph e" and ps = "en_procedures e"]) (simp_all add: refresh_snapshot_def and_then_simps yields_def)
    next
      case False
      let ?e = "e\<lparr>en_storage := d\<rparr>"
      have t: "dv_tables V d = tables_of V e" using same_viewD(4) [OF state(3)] .
      show thesis
      proof (cases rule: read_cases [OF db(2), of ?e, case_names failed answered])
        case (failed msg d')
        then show thesis
          using state False g(3) failed_after_read [OF state(3)]
          by (intro that(1)) (simp_all add: refresh_snapshot_def and_then_simps)
      next
        case (answered p d')
        note blob = answered
        show thesis
        proof (cases rule: read_cases [OF db(3), of "e\<lparr>en_storage := d'\<rparr>", case_names failed answered])
          case (failed msg d'')
          then show thesis
            using state blob False g t failed_after_read [OF same_view_trans [OF state(3)], of d' d'']
            by (intro that(1)) (simp_all add: refresh_snapshot_def and_then_simps)
        next
          case (answered rs d'')
          have "lists_rows (tb_rows (tables_of V e)) rs" using answered(2) same_viewD(4) [OF blob(3)] t by simp
          then obtain g' where g': "load_graph L g0 rs = Inr g'" "holds L (tables_of V e) g'"
            using holds_load [OF sha g(1,2)] by metis
          have "same_view V (en_storage e) d''"
            using same_view_trans [OF same_view_trans [OF state(3)], of d' d''] blob(3) answered(3) by simp
          then show thesis
            using state blob answered(1) False g t g' by (intro that(2) [where d = d'' and g = g' and ps = "[]"]) (simp_all add: refresh_snapshot_def and_then_simps)
        qed
      qed
    qed
  qed
qed

lemma lib_okD:
  assumes "lib_ok V L"
  shows "begins_ok V (el_db L)" "commits_ok V (el_db L)" "rollbacks_ok V (el_db L)"
    "\<not> dv_active V d \<Longrightarrow> dv_tables V d = dv_committed V d"
    "sha_ok (el_store L)" "lossless (el_codec L)"
    "writes_tables V (db_advance_revision (el_db L))
       (\<lambda>t r t'. t' = t\<lparr>tb_revision := r\<rparr> \<and> r = tb_revision t + 1 \<and> sint (tb_revision t) < sint r)"
    "writes_tables V (db_upsert_records (el_db L) b) (\<lambda>t u t'. t' = t\<lparr>tb_rows := upsert_rows b (tb_rows t)\<rparr>)"
    "writes_tables V (db_update_payload (el_db L) p) (\<lambda>t u t'. t' = t\<lparr>tb_payload := p\<rparr>)"
    "writes_tables V (db_delete_records (el_db L)) (\<lambda>t u t'. t' = t\<lparr>tb_rows := Map.empty\<rparr>)"
  using assms by (simp_all add: lib_ok_def duckdb_ok_def transactional_def)

lemma begin_cases:
  assumes "lib_ok V L"
  obtains (failed) msg d where "send (db_begin (el_db L)) e = (Inl (Database msg), e\<lparr>en_storage := d\<rparr>)" "same_view V (en_storage e) d"
  | (begun) d where "send (db_begin (el_db L)) e = (Inr (), e\<lparr>en_storage := d\<rparr>)" "dv_active V d" "dv_committed V d = committed_of V e"
      "dv_snapshot V d = committed_of V e" "dv_tables V d = committed_of V e"
  using lib_okD(1) [OF assms, unfolded begins_ok_def, rule_format, of "en_storage e"]
  by (cases rule: send_cases [of "db_begin (el_db L)" e]) auto

lemma commit_cases:
  assumes "lib_ok V L" "dv_active V (en_storage e)"
  obtains (failed) msg d where "send (db_commit (el_db L)) e = (Inl (Database msg), e\<lparr>en_storage := d\<rparr>)" "dv_committed V d = committed_of V e"
  | (committed) d where "send (db_commit (el_db L)) e = (Inr (), e\<lparr>en_storage := d\<rparr>)" "\<not> dv_active V d"
      "tables_of V e = dv_snapshot V (en_storage e) \<and> dv_committed V d = committed_of V e \<or>
       committed_of V e = dv_snapshot V (en_storage e) \<and> dv_committed V d = tables_of V e"
  using lib_okD(2) [OF assms(1), unfolded commits_ok_def, rule_format, OF assms(2)]
  by (cases rule: send_cases [of "db_commit (el_db L)" e]) auto

lemma rollback_sent:
  assumes "lib_ok V L"
  obtains res d where "send (db_rollback (el_db L)) e = (res, e\<lparr>en_storage := d\<rparr>)" "rollback_settled res"
    "\<not> dv_active V d" "dv_committed V d = committed_of V e"
  using lib_okD(3) [OF assms, unfolded rollbacks_ok_def, rule_format, of "en_storage e"]
  by (cases rule: send_cases [of "db_rollback (el_db L)" e]) (auto simp: rollback_settled_def)

text \<open>An engine outside a transaction, with nothing else assumed of its cache than \<open>cache_ok\<close>.\<close>

definition idle_ok :: "'d db_view \<Rightarrow> 'd engine_lib \<Rightarrow> ('d, 'p) graph_engine \<Rightarrow> bool" where
  "idle_ok V L e \<longleftrightarrow> \<not> en_in_transaction e \<and> storable L (committed_of V e) \<and> \<not> dv_active V (en_storage e) \<and>
     cache_ok L (committed_of V e) e"

lemma idle_inv: "idle_ok V L e \<Longrightarrow> engine_inv V L e"
  by (simp add: idle_ok_def engine_inv_def)

lemma inv_idle: "engine_inv V L e \<Longrightarrow> \<not> en_in_transaction e \<Longrightarrow> idle_ok V L e"
  by (simp add: idle_ok_def engine_inv_def)

lemma refresh_idle:
  assumes "lib_ok V L" "idle_ok V L e"
  shows "idle_ok V L (snd (refresh L e))" "en_failed_transaction (snd (refresh L e)) = en_failed_transaction e"
    "committed_of V (snd (refresh L e)) = committed_of V e"
    "fst (refresh L e) = Inr () \<Longrightarrow> en_loaded_revision (snd (refresh L e)) = Some (tb_revision (committed_of V e))"
proof -
  have idle: "\<not> en_in_transaction e" "storable L (committed_of V e)" "\<not> dv_active V (en_storage e)" "cache_ok L (committed_of V e) e"
    using assms(2) by (simp_all add: idle_ok_def)
  have "idle_ok V L (snd (refresh L e)) \<and> en_failed_transaction (snd (refresh L e)) = en_failed_transaction e \<and>
    committed_of V (snd (refresh L e)) = committed_of V e \<and>
    (fst (refresh L e) = Inr () \<longrightarrow> en_loaded_revision (snd (refresh L e)) = Some (tb_revision (committed_of V e)))"
  proof (cases rule: begin_cases [OF assms(1), of e, case_names failed begun])
    case (failed msg d)
    then show ?thesis using idle by (simp add: refresh_def and_then_simps idle_ok_def same_viewD cache_ok_def)
  next
    case (begun d)
    let ?e = "e\<lparr>en_storage := d\<rparr>"
    have st: "storable L (tables_of V ?e)" using idle begun by simp
    have cached: "en_loaded_revision ?e = Some (tb_revision (tables_of V ?e)) \<longrightarrow> holds L (tables_of V ?e) (en_graph ?e)"
      using idle(4) begun by (simp add: cache_ok_def)
    show ?thesis
    proof (cases rule: refresh_snapshot_cases [OF assms(1) st cached, case_names failed current])
      case (failed er d')
      obtain res d'' where "send (db_rollback (el_db L)) (e\<lparr>en_storage := d'\<rparr>) = (res, e\<lparr>en_storage := d''\<rparr>)"
        "\<not> dv_active V d''" "dv_committed V d'' = dv_committed V d'"
        by (rule rollback_sent [OF assms(1), of "e\<lparr>en_storage := d'\<rparr>"]) simp
      then show ?thesis
        using idle begun failed by (simp add: refresh_def and_then_simps idle_ok_def failed_safely_def cache_ok_def)
    next
      case (current d' g ps)
      let ?e1 = "e\<lparr>en_storage := d', en_graph := g, en_procedures := ps, en_loaded_revision := Some (tb_revision (committed_of V e))\<rparr>"
      note v = same_viewD [OF current(2)]
      have act: "dv_active V (en_storage ?e1)" using v begun by simp
      show ?thesis
      proof (cases rule: commit_cases [OF assms(1) act, case_names failed committed])
        case (failed msg d'')
        obtain res d3 where "send (db_rollback (el_db L)) (?e1\<lparr>en_storage := d''\<rparr>) = (res, ?e1\<lparr>en_storage := d3\<rparr>)"
          "\<not> dv_active V d3" "dv_committed V d3 = dv_committed V d''"
          by (rule rollback_sent [OF assms(1), of "?e1\<lparr>en_storage := d''\<rparr>"]) simp
        then show ?thesis
          using idle begun current(1) failed v by (simp add: refresh_def and_then_simps idle_ok_def cache_ok_def)
      next
        case (committed d'')
        then have "dv_committed V d'' = committed_of V e" using v begun by auto
        then show ?thesis
          using idle begun current(1,3) committed(1,2) by (simp add: refresh_def and_then_simps idle_ok_def cache_ok_def)
      qed
    qed
  qed
  then show "idle_ok V L (snd (refresh L e))" "en_failed_transaction (snd (refresh L e)) = en_failed_transaction e"
    "committed_of V (snd (refresh L e)) = committed_of V e"
    "fst (refresh L e) = Inr () \<Longrightarrow> en_loaded_revision (snd (refresh L e)) = Some (tb_revision (committed_of V e))"
    by simp_all
qed

lemma rollback_active:
  assumes "lib_ok V L" "storable L (committed_of V e)" "en_in_transaction e"
  shows "idle_ok V L (snd (rollback L e))" "\<not> en_failed_transaction (snd (rollback L e))"
    "committed_of V (snd (rollback L e)) = committed_of V e"
proof -
  obtain res d where r: "send (db_rollback (el_db L)) e = (res, e\<lparr>en_storage := d\<rparr>)" "rollback_settled res"
    "\<not> dv_active V d" "dv_committed V d = committed_of V e"
    by (rule rollback_sent [OF assms(1)])
  let ?e = "e\<lparr>en_storage := d, en_in_transaction := False, en_failed_transaction := False, en_loaded_revision := None\<rparr>"
  have "rollback L e = refresh L ?e" using r assms(3) by (simp add: rollback_def and_then_def ensure_transaction_def yields_def)
  moreover have i: "idle_ok V L ?e" using r assms(2) by (simp add: idle_ok_def cache_ok_def)
  ultimately show "idle_ok V L (snd (rollback L e))" "\<not> en_failed_transaction (snd (rollback L e))"
    "committed_of V (snd (rollback L e)) = committed_of V e"
    using refresh_idle(1-3) [OF assms(1) i] r(4) by simp_all
qed

lemma rollback_inv:
  assumes "lib_ok V L" "engine_inv V L e"
  shows "engine_inv V L (snd (rollback L e))"
proof (cases "en_in_transaction e")
  case True
  have "storable L (committed_of V e)" using assms(2) by (simp add: engine_inv_def)
  then show ?thesis using idle_inv [OF rollback_active(1) [OF assms(1) _ True]] by blast
next
  case False
  then show ?thesis using assms(2) by (simp add: rollback_def and_then_def ensure_transaction_def refuse_def)
qed

text \<open>Beginning: a coherent transaction, or back outside one.\<close>

lemma begin_outcome:
  assumes "lib_ok V L" "idle_ok V L e"
  obtains (failed) er e' where "begin_transaction L e = (Inl er, e')" "idle_ok V L e'" "committed_of V e' = committed_of V e"
  | (begun) e' where "begin_transaction L e = (Inr (), e')" "tx_ok V L e'" "en_in_transaction e'" "\<not> en_failed_transaction e'"
      "committed_of V e' = committed_of V e" "tables_of V e' = committed_of V e" "dv_snapshot V (en_storage e') = committed_of V e"
proof -
  have idle: "\<not> en_in_transaction e" "storable L (committed_of V e)" "\<not> dv_active V (en_storage e)" "cache_ok L (committed_of V e) e"
    using assms(2) by (simp_all add: idle_ok_def)
  show thesis
  proof (cases rule: begin_cases [OF assms(1), of e, case_names failed begun])
    case (failed msg d)
    then show thesis
      using idle by (intro that(1) [where e' = "e\<lparr>en_storage := d\<rparr>"]) (simp_all add: begin_transaction_def and_then_simps idle_ok_def same_viewD cache_ok_def)
  next
    case (begun d)
    let ?e = "e\<lparr>en_storage := d, en_in_transaction := True, en_failed_transaction := False\<rparr>"
    have st: "storable L (tables_of V ?e)" using idle begun by simp
    have cached: "en_loaded_revision ?e = Some (tb_revision (tables_of V ?e)) \<longrightarrow> holds L (tables_of V ?e) (en_graph ?e)"
      using idle(4) begun by (simp add: cache_ok_def)
    show thesis
    proof (cases rule: refresh_snapshot_cases [OF assms(1) st cached, case_names failed current])
      case (failed er d')
      let ?f = "?e\<lparr>en_storage := d'\<rparr>"
      have "storable L (committed_of V ?f)" "en_in_transaction ?f" using failed idle begun by (simp_all add: failed_safely_def)
      note rollback_active [OF assms(1) this]
      then show thesis
        using failed idle begun by (intro that(1) [where e' = "snd (rollback L ?f)"]) (simp_all add: begin_transaction_def and_then_simps refresh_def failed_safely_def)
    next
      case (current d' g ps)
      then show thesis
        using idle begun same_viewD [OF current(2)]
        by (intro that(2) [where e' = "?e\<lparr>en_storage := d', en_graph := g, en_procedures := ps,
            en_loaded_revision := Some (tb_revision (tables_of V ?e))\<rparr>"]) (simp_all add: begin_transaction_def and_then_simps refresh_def tx_ok_def in_order_def Let_def)
    qed
  qed
qed

lemma tx_inv: "en_in_transaction e \<Longrightarrow> tx_ok V L e \<Longrightarrow> storable L (committed_of V e) \<Longrightarrow> engine_inv V L e"
  by (simp add: engine_inv_def)

lemma begin_inv:
  assumes "lib_ok V L" "engine_inv V L e"
  shows "engine_inv V L (snd (begin_transaction L e))"
proof (cases "en_in_transaction e")
  case True
  then show ?thesis using assms(2) by (simp add: begin_transaction_def refuse_def)
next
  case False
  then have i: "idle_ok V L e" using inv_idle [OF assms(2)] by blast
  then have "storable L (committed_of V e)" by (simp add: idle_ok_def)
  then show ?thesis
    by (cases rule: begin_outcome [OF assms(1) i, case_names failed begun]) (simp_all add: idle_inv tx_inv)
qed

text \<open>Committing: the committed tables are those of the transaction, whose graph is cached.\<close>

lemma commit_tx:
  assumes "lib_ok V L" "tx_ok V L e" "storable L (committed_of V e)" "en_in_transaction e" "\<not> en_failed_transaction e"
  obtains (failed) er e' where "commit L e = (Inl er, e')" "en_in_transaction e'" "en_failed_transaction e'"
      "committed_of V e' = committed_of V e"
  | (committed) e' where "commit L e = (Inr (), e')" "idle_ok V L e'" "en_graph e' = en_graph e"
      "en_loaded_revision e' = Some (tb_revision (tables_of V e))"
      "committed_of V e' = tables_of V e \<or> tables_of V e = dv_snapshot V (en_storage e) \<and> committed_of V e' = committed_of V e"
proof -
  have tx: "dv_active V (en_storage e)" "en_loaded_revision e = Some (tb_revision (tables_of V e))" "holds L (tables_of V e) (en_graph e)"
    "in_order (dv_snapshot V (en_storage e)) (committed_of V e) (tables_of V e)"
    using assms(2) by (simp_all add: tx_ok_def Let_def)
  show thesis
  proof (cases rule: commit_cases [OF assms(1) tx(1), case_names failed committed])
    case (failed msg d)
    then show thesis
      using assms(4,5) by (intro that(1) [where e' = "e\<lparr>en_storage := d, en_failed_transaction := True\<rparr>"]) (simp_all add: commit_def and_then_def ensure_transaction_def yields_def)
  next
    case (committed d)
    show thesis
    proof (rule that(2))
      show "commit L e = (Inr (), e\<lparr>en_storage := d, en_in_transaction := False\<rparr>)"
        using committed assms(4,5) by (simp add: commit_def and_then_def ensure_transaction_def yields_def)
      have st: "storable L (tables_of V e)" using tx(3) by (auto simp: storable_def)
      have "storable L (dv_committed V d) \<and> cache_ok L (dv_committed V d) e"
        using committed(3)
      proof (elim disjE conjE)
        assume "tables_of V e = dv_snapshot V (en_storage e)" and com: "dv_committed V d = committed_of V e"
        then show ?thesis using assms(3) tx(2-4) unfolding com by (simp add: cache_ok_def in_order_def) metis
      next
        assume com: "dv_committed V d = tables_of V e"
        then show ?thesis using st tx(2,3) unfolding com by (simp add: cache_ok_def)
      qed
      then show "idle_ok V L (e\<lparr>en_storage := d, en_in_transaction := False\<rparr>)"
        using committed(2) by (simp add: idle_ok_def cache_ok_def)
    qed (use committed(3) tx(2) in auto)
  qed
qed

lemma commit_inv:
  assumes "lib_ok V L" "engine_inv V L e"
  shows "engine_inv V L (snd (commit L e))"
proof (cases "en_in_transaction e \<and> \<not> en_failed_transaction e")
  case True
  then have tx: "tx_ok V L e" "storable L (committed_of V e)" "en_in_transaction e" "\<not> en_failed_transaction e"
    using assms(2) by (simp_all add: engine_inv_def)
  show ?thesis
    by (cases rule: commit_tx [OF assms(1) tx, case_names failed committed]) (use tx(2) in \<open>simp_all add: engine_inv_def idle_ok_def\<close>)
next
  case False
  then show ?thesis using assms(2) by (auto simp: commit_def and_then_def ensure_transaction_def yields_def refuse_def)
qed

section \<open>Persisting\<close>

lemma stored_graph_inv: "stored S T g0 g \<Longrightarrow> graph_inv g \<and> lists_inv (pg_overlay g)"
  by (simp add: stored_def)

lemma holds_lists: "holds L t g \<Longrightarrow> lists_inv (pg_overlay g)"
  unfolding holds_def stored_def by blast

lemma holds_same:
  assumes "holds L t g" "base_of g' = base_of g" "same_overlay (pg_overlay g) (pg_overlay g')" "lists_inv (pg_overlay g')"
  shows "holds L t g'"
  using assms stored_same [OF _ assms(3,4,2)] by (auto simp: holds_def)

lemma holds_clear: "holds L t g \<Longrightarrow> holds L t (clear_pending_changes g)"
  by (rule holds_same [where g = g]) (simp_all add: clear_pending_changes_def base_of_def holds_lists)

lemma holds_revision: "holds L (t\<lparr>tb_revision := r\<rparr>) g \<longleftrightarrow> holds L t g"
  by (simp add: holds_def)

text \<open>A session that touched nothing left the overlay as it was.\<close>

lemma grown_same:
  assumes "prefix xs ys" "distinct ys" "set xs = set ys"
  shows "ys = xs"
proof -
  obtain zs where ys: "ys = xs @ zs" using assms(1) by (auto simp: prefix_def)
  have sub: "set zs \<subseteq> set xs" using assms(3) ys by (metis Un_upper2 set_append)
  have "set xs \<inter> set zs = {}" using assms(2) ys by simp
  then have "set zs = {}" using Int_absorb1 [OF sub] by simp
  then show ?thesis by (simp add: ys)
qed

lemma untouched_same:
  assumes "touches g g'" "advances g g'" "graph_inv g" "graph_inv g'" "lists_inv (pg_overlay g)" "pg_pending g' = no_pending"
  shows "same_overlay (pg_overlay g) (pg_overlay g')"
proof -
  have v: "node_view (pg_overlay g') = node_view (pg_overlay g)" "edge_view (pg_overlay g') = edge_view (pg_overlay g)"
    using assms(1) unfolding touches_def assms(6) no_pending_def by (simp_all add: fun_eq_iff)
  have e: "map_of (ov_inserted_edges (pg_overlay g')) = map_of (ov_inserted_edges (pg_overlay g))"
    using v(2) by (simp add: edge_view_def fun_eq_iff)
  have l: "lists_inv (pg_overlay g')" "grown (pg_overlay g) (pg_overlay g')" using assms(2,5) by (simp_all add: advances_def)
  have c: "al_default 0 (ov_node_counts (pg_overlay g')) = al_default 0 (ov_node_counts (pg_overlay g))"
    "al_default 0 (ov_edge_counts (pg_overlay g')) = al_default 0 (ov_edge_counts (pg_overlay g))"
    using assms(2) unfolding advances_def assms(6) no_pending_def by (simp_all add: fun_eq_iff)
  note adj = graph_inv_parts(2) [OF assms(3)] graph_inv_parts(2) [OF assms(4)]
  have out: "al_default [] (ov_out_adj (pg_overlay g')) a = al_default [] (ov_out_adj (pg_overlay g)) a" for a
    by (rule grown_same [OF grownD(1) [OF l(2)] lists_invD(1) [OF l(1)]])
      (rule set_eqI, unfold adjacency_members(1) [OF adj(1)] adjacency_members(1) [OF adj(2)] e, rule refl)
  have inc: "al_default [] (ov_in_adj (pg_overlay g')) a = al_default [] (ov_in_adj (pg_overlay g)) a" for a
    by (rule grown_same [OF grownD(2) [OF l(2)] lists_invD(2) [OF l(1)]])
      (rule set_eqI, unfold adjacency_members(2) [OF adj(1)] adjacency_members(2) [OF adj(2)] e, rule refl)
  show ?thesis using v c by (simp add: same_overlay_def skeleton_def view_fields [OF v] out inc fun_eq_iff)
qed

text \<open>The pending set of a graph is listed in full and its records are within the limits of their format.\<close>

definition persistable :: "'d engine_lib \<Rightarrow> property_graph \<Rightarrow> bool" where
  "persistable L g \<longleftrightarrow> pg_pending g = no_pending \<or>
     (let nodes = el_order L (pc_nodes (pg_pending g)); edges = el_order L (pc_edges (pg_pending g)) in
        set nodes = pc_nodes (pg_pending g) \<and> set edges = pc_edges (pg_pending g) \<and> records_fit (el_store L) nodes edges (pg_overlay g))"

definition graph_of_lib :: "'d engine_lib \<Rightarrow> graph_lib" where
  "graph_of_lib L = sl_graph (el_store L)"

lemma chunks_concat: "0 < n \<Longrightarrow> concat (chunks n xs) = xs"
proof (induction n xs rule: chunks.induct)
  case (1 n xs)
  then show ?case by (cases "xs = []") (simp_all add: chunks.simps [of n xs] chunks.simps [of n "[]"])
qed

lemma upsert_append: "upsert_rows (xs @ ys) T = upsert_rows ys (upsert_rows xs T)"
  by (simp add: upsert_rows_def)

lemma upsert_batches_cases:
  assumes "lib_ok V L" "dv_active V (en_storage e)"
  obtains (failed) er d where "upsert_batches L bs e = (Inl er, e\<lparr>en_storage := d\<rparr>)" "failed_safely V (en_storage e) d"
  | (answered) d where "upsert_batches L bs e = (Inr (), e\<lparr>en_storage := d\<rparr>)"
      "dv_tables V d = (tables_of V e)\<lparr>tb_rows := upsert_rows (concat bs) (tb_rows (tables_of V e))\<rparr>" "dv_active V d"
      "dv_committed V d = committed_of V e" "dv_snapshot V d = dv_snapshot V (en_storage e)"
proof -
  have "(\<exists>er d. upsert_batches L bs e = (Inl er, e\<lparr>en_storage := d\<rparr>) \<and> failed_safely V (en_storage e) d) \<or>
    (\<exists>d. upsert_batches L bs e = (Inr (), e\<lparr>en_storage := d\<rparr>) \<and>
      dv_tables V d = (tables_of V e)\<lparr>tb_rows := upsert_rows (concat bs) (tb_rows (tables_of V e))\<rparr> \<and> dv_active V d \<and>
      dv_committed V d = committed_of V e \<and> dv_snapshot V d = dv_snapshot V (en_storage e))"
    using assms(2)
  proof (induction bs arbitrary: e)
    case Nil
    then show ?case by (auto simp: yields_def upsert_rows_def intro!: exI [of _ "en_storage e"])
  next
    case (Cons b bs)
    show ?case
    proof (cases rule: write_cases [OF lib_okD(8) [OF assms(1), of b] Cons.prems, case_names failed answered])
      case (failed msg d)
      then show ?thesis by (auto simp: and_then_simps)
    next
      case (answered x d)
      let ?e = "e\<lparr>en_storage := d\<rparr>"
      have "dv_active V (en_storage ?e)" using answered(3) by simp
      from Cons.IH [OF this] show ?thesis
      proof (elim disjE exE conjE)
        fix er d' assume "upsert_batches L bs ?e = (Inl er, ?e\<lparr>en_storage := d'\<rparr>)" "failed_safely V (en_storage ?e) d'"
        then show ?thesis using answered(1,3,4) Cons.prems by (auto simp: and_then_simps failed_safely_def)
      next
        fix d' assume "upsert_batches L bs ?e = (Inr (), ?e\<lparr>en_storage := d'\<rparr>)"
          "dv_tables V d' = (tables_of V ?e)\<lparr>tb_rows := upsert_rows (concat bs) (tb_rows (tables_of V ?e))\<rparr>"
          "dv_active V d'" "dv_committed V d' = committed_of V ?e" "dv_snapshot V d' = dv_snapshot V (en_storage ?e)"
        then show ?thesis using answered by (intro disjI2 exI [of _ d']) (simp add: and_then_simps upsert_append)
      qed
    qed
  qed
  then show thesis using that by blast
qed

text \<open>A transaction whose graph has been changed by a session but not persisted yet.\<close>

definition written_from :: "'d db_view \<Rightarrow> 'd engine_lib \<Rightarrow> property_graph \<Rightarrow> ('d, 'p) graph_engine \<Rightarrow> bool" where
  "written_from V L g e \<longleftrightarrow> tx_ok V L (e\<lparr>en_graph := g\<rparr>) \<and> session_from (graph_of_lib L) g (en_graph e) \<and> persistable L (en_graph e)"

lemma persist_outcome:
  assumes "lib_ok V L" "written_from V L g e" "en_in_transaction e" "\<not> en_failed_transaction e"
  obtains (failed) er e' where "persist L e = (Inl er, e')" "en_in_transaction e'" "en_failed_transaction e'"
      "committed_of V e' = committed_of V e" "en_loaded_revision e' = en_loaded_revision e"
  | (persisted) e' where "persist L e = (Inr (), e')" "tx_ok V L e'" "en_in_transaction e'" "\<not> en_failed_transaction e'"
      "committed_of V e' = committed_of V e" "pg_overlay (en_graph e') = pg_overlay (en_graph e)" "base_of (en_graph e') = base_of (en_graph e)"
      "dv_snapshot V (en_storage e') = dv_snapshot V (en_storage e)"
proof -
  have tx: "dv_active V (en_storage e)" "en_loaded_revision e = Some (tb_revision (tables_of V e))" "holds L (tables_of V e) g"
    "in_order (dv_snapshot V (en_storage e)) (committed_of V e) (tables_of V e)"
    and ses: "session_from (graph_of_lib L) g (en_graph e)" and ok: "persistable L (en_graph e)"
    using assms(2) by (simp_all add: written_from_def tx_ok_def Let_def)
  obtain g0 where g0: "decode_graph (el_store L) (el_codec L) (tb_payload (tables_of V e)) = Inr g0"
    "stored (el_store L) (tb_rows (tables_of V e)) g0 g" "tb_version (tables_of V e) = 2"
    using tx(3) by (auto simp: holds_def)
  have inv: "graph_inv g" "lists_inv (pg_overlay g)" using stored_graph_inv [OF g0(2)] by simp_all
  have facts: "graph_inv (en_graph e)" "touches g (en_graph e)" "advances g (en_graph e)"
    using session_from_facts [OF ses inv(1)] by blast+
  show thesis
  proof (cases "pg_pending (en_graph e) = no_pending")
    case True
    have "same_overlay (pg_overlay g) (pg_overlay (en_graph e))"
      by (rule untouched_same [OF facts(2,3) inv(1) facts(1) inv(2) True])
    then have "holds L (tables_of V e) (en_graph e)"
      using facts(2,3) inv(2) by (intro holds_same [OF tx(3)]) (simp_all add: touches_def advances_def)
    then show thesis
      using True assms(3,4) tx by (intro that(2) [where e' = e]) (simp_all add: persist_def yields_def tx_ok_def Let_def)
  next
    case False
    let ?rs = "pending_records L (en_graph e)"
    show thesis
    proof (cases rule: write_cases [OF lib_okD(7) [OF assms(1)] tx(1), case_names failed answered])
      case (failed msg d)
      then show thesis
        using False assms(3,4)
        by (intro that(1) [where e' = "e\<lparr>en_storage := d, en_failed_transaction := True\<rparr>"])
          (simp_all add: persist_def settle_revision_def and_then_simps failed_safely_def)
    next
      case (answered r d)
      note adv = answered
      let ?e = "e\<lparr>en_storage := d\<rparr>"
      have act: "dv_active V (en_storage ?e)" using adv(3) by simp
      show thesis
      proof (cases rule: upsert_batches_cases [OF assms(1) act, where bs = "chunks 256 ?rs", case_names failed answered])
        case (failed er d')
        then show thesis
          using False assms(3,4) adv
          by (intro that(1) [where e' = "e\<lparr>en_storage := d', en_failed_transaction := True\<rparr>"])
            (simp_all add: persist_def settle_revision_def and_then_simps failed_safely_def)
      next
        case (answered d')
        let ?f = "e\<lparr>en_storage := d', en_loaded_revision := Some r, en_graph := clear_pending_changes (en_graph e)\<rparr>"
        have fit: "set (el_order L (pc_nodes (pg_pending (en_graph e)))) = pc_nodes (pg_pending (en_graph e))"
          "set (el_order L (pc_edges (pg_pending (en_graph e)))) = pc_edges (pg_pending (en_graph e))"
          "records_fit (el_store L) (el_order L (pc_nodes (pg_pending (en_graph e)))) (el_order L (pc_edges (pg_pending (en_graph e)))) (pg_overlay (en_graph e))"
          using ok False by (simp_all add: persistable_def Let_def)
        have t: "dv_tables V d' = (tables_of V e)\<lparr>tb_revision := r, tb_rows := upsert_rows ?rs (tb_rows (tables_of V e))\<rparr>"
          using answered(2) adv(2) by (simp add: chunks_concat)
        have "stored (el_store L) (upsert_rows ?rs (tb_rows (tables_of V e))) g0 (en_graph e)"
          unfolding pending_records_def by (rule stored_commit [OF g0(2) facts fit])
        then have "holds L (dv_tables V d') (en_graph e)" using g0 by (simp add: t holds_def)
        then have "tx_ok V L ?f"
          using holds_clear [of L "dv_tables V d'" "en_graph e"] answered(3-5) adv t tx(4) by (auto simp: tx_ok_def Let_def in_order_def)
        then show thesis
          using False adv answered assms(3,4)
          by (intro that(2) [where e' = ?f])
            (simp_all add: persist_def settle_revision_def and_then_simps yields_def clear_pending_changes_def base_of_def)
      qed
    qed
  qed
qed

section \<open>Checkpoints and imports\<close>

definition importable :: "property_graph \<Rightarrow> bool" where
  "importable g \<longleftrightarrow> graph_inv g \<and> lists_inv (pg_overlay g)"

lemma holds_importable: "holds L t g \<Longrightarrow> importable g"
  unfolding holds_def importable_def using stored_graph_inv by blast

lemma encoded_stored:
  assumes "lib_ok V L" "importable g" "encode_graph (el_store L) (el_codec L) g = Inr p"
  shows "holds L \<lparr>tb_version = 2, tb_revision = r, tb_payload = p, tb_rows = Map.empty\<rparr> g"
proof -
  have inv: "graph_inv g" "lists_inv (pg_overlay g)" using assms(2) by (simp_all add: importable_def)
  obtain q where q: "snapshot_encode (el_codec L) g = Inr q" "decode_graph (el_store L) (el_codec L) p = snapshot_decode (el_codec L) q"
    by (rule decode_encode_graph [OF lib_okD(5) [OF assms(1)] assms(3)])
  obtain g' where g': "snapshot_decode (el_codec L) q = Inr g'" "base_of g' = base_of g" "same_overlay (pg_overlay g) (pg_overlay g')"
    "lists_inv (pg_overlay g')"
    using lib_okD(6) [OF assms(1), unfolded lossless_def, rule_format, OF inv q(1)] by blast
  have "graph_inv g'" using g'(3) by (intro graph_inv_cong [OF g'(2) _ inv(1)]) (simp add: same_overlay_def)
  note own = stored_checkpoint [OF this g'(4), of "el_store L"]
  have "stored (el_store L) Map.empty g' g"
    by (rule stored_same [OF own _ inv(2) g'(2) [symmetric]]) (use g'(3) in \<open>simp add: same_overlay_def\<close>)
  then show ?thesis using q(2) g'(1) by (simp add: holds_def)
qed

lemma payload_outcome:
  assumes "lib_ok V L" "tx_ok V L (e\<lparr>en_graph := g\<rparr>)" "en_in_transaction e" "\<not> en_failed_transaction e"
    and "importable (en_graph e)" "encode_graph (el_store L) (el_codec L) (en_graph e) = Inr p"
  obtains (failed) er e' where "persist_checkpoint_payload L p e = (Inl er, e')" "en_in_transaction e'" "en_failed_transaction e'"
      "committed_of V e' = committed_of V e"
  | (persisted) e' where "persist_checkpoint_payload L p e = (Inr (), e')" "tx_ok V L e'" "en_in_transaction e'" "\<not> en_failed_transaction e'"
      "committed_of V e' = committed_of V e" "pg_overlay (en_graph e') = pg_overlay (en_graph e)" "base_of (en_graph e') = base_of (en_graph e)"
proof -
  have tx: "dv_active V (en_storage e)" "holds L (tables_of V e) g"
    "in_order (dv_snapshot V (en_storage e)) (committed_of V e) (tables_of V e)"
    using assms(2) by (simp_all add: tx_ok_def Let_def)
  note simps = persist_checkpoint_payload_def settle_revision_def and_then_simps failed_safely_def
  show thesis
  proof (cases rule: write_cases [OF lib_okD(7) [OF assms(1)] tx(1), case_names failed answered])
    case (failed msg d)
    then show thesis
      using assms(3,4) by (intro that(1) [where e' = "e\<lparr>en_storage := d, en_failed_transaction := True\<rparr>"]) (simp_all add: simps)
  next
    case (answered r d)
    note adv = answered
    let ?e = "e\<lparr>en_storage := d\<rparr>"
    have act: "dv_active V (en_storage ?e)" using adv(3) by simp
    show thesis
    proof (cases rule: write_cases [OF lib_okD(9) [OF assms(1), of p] act, case_names failed answered])
      case (failed msg d')
      then show thesis
        using assms(3,4) adv by (intro that(1) [where e' = "e\<lparr>en_storage := d', en_failed_transaction := True\<rparr>"]) (simp_all add: simps)
    next
      case (answered u d')
      note blob = answered
      let ?f = "e\<lparr>en_storage := d'\<rparr>"
      have act: "dv_active V (en_storage ?f)" using blob(3) by simp
      show thesis
      proof (cases rule: write_cases [OF lib_okD(10) [OF assms(1)] act, case_names failed answered])
        case (failed msg d'')
        then show thesis
          using assms(3,4) adv blob
          by (intro that(1) [where e' = "e\<lparr>en_storage := d'', en_failed_transaction := True\<rparr>"]) (simp_all add: simps)
      next
        case (answered v d'')
        let ?h = "e\<lparr>en_storage := d'', en_loaded_revision := Some r, en_graph := clear_pending_changes (en_graph e)\<rparr>"
        have "tb_version (tables_of V e) = 2" using tx(2) by (simp add: holds_def)
        then have t: "dv_tables V d'' = \<lparr>tb_version = 2, tb_revision = r, tb_payload = p, tb_rows = Map.empty\<rparr>"
          using adv(2) blob(2) answered(2) by simp
        have "holds L (dv_tables V d'') (en_graph e)" unfolding t by (rule encoded_stored [OF assms(1,5,6)])
        then have "tx_ok V L ?h"
          using holds_clear [of L "dv_tables V d''" "en_graph e"] answered(3-5) adv blob t tx(3) by (auto simp: tx_ok_def Let_def in_order_def)
        then show thesis
          using adv blob answered assms(3,4)
          by (intro that(2) [where e' = ?h]) (simp_all add: simps yields_def clear_pending_changes_def base_of_def)
      qed
    qed
  qed
qed

lemma finish_automatic_inv:
  assumes "lib_ok V L" "engine_inv V L e" "tx_ok V L e" "en_in_transaction e" "\<not> en_failed_transaction e"
  shows "engine_inv V L (snd (finish_automatic L e))"
proof -
  have st: "storable L (committed_of V e)" using assms(2) by (simp add: engine_inv_def)
  show ?thesis
  proof (cases rule: commit_tx [OF assms(1,3) st assms(4,5), case_names failed committed])
    case (failed er e')
    then have "storable L (committed_of V e')" using st by simp
    then show ?thesis using failed idle_inv [OF rollback_active(1) [OF assms(1) _ failed(2)]] by (simp add: finish_automatic_def)
  next
    case (committed e')
    then show ?thesis by (simp add: finish_automatic_def idle_inv)
  qed
qed

text \<open>The part of an operation that runs inside the transaction it opened or joined.\<close>

lemma opened_inv:
  assumes "lib_ok V L" "engine_inv V L e" "en_in_transaction e \<Longrightarrow> \<not> en_failed_transaction e"
    and "\<And>e'. tx_ok V L e' \<Longrightarrow> storable L (committed_of V e') \<Longrightarrow> en_in_transaction e' \<Longrightarrow> \<not> en_failed_transaction e' \<Longrightarrow>
      e' = (if en_in_transaction e then e else snd (begin_transaction L e)) \<Longrightarrow> engine_inv V L (snd (k () e'))"
  shows "engine_inv V L (snd (and_then (enter L (\<not> en_in_transaction e)) k e))"
proof (cases "en_in_transaction e")
  case True
  have "tx_ok V L e" "storable L (committed_of V e)" using assms(2,3) True by (simp_all add: engine_inv_def)
  then have "engine_inv V L (snd (k () e))" using assms(4) [of e] assms(3) True by simp
  then show ?thesis using True by (simp add: enter_def and_then_def yields_def)
next
  case False
  have i: "idle_ok V L e" by (rule inv_idle [OF assms(2) False])
  then have st: "storable L (committed_of V e)" by (simp add: idle_ok_def)
  show ?thesis
  proof (cases rule: begin_outcome [OF assms(1) i, case_names failed begun])
    case (failed er e')
    then show ?thesis using False by (simp add: enter_def and_then_simps idle_inv)
  next
    case (begun e')
    have "engine_inv V L (snd (k () e'))" by (rule assms(4)) (use begun False st in simp_all)
    then show ?thesis using False begun(1) by (simp add: enter_def and_then_simps)
  qed
qed

lemma persist_checkpoint_outcome:
  assumes "lib_ok V L" "tx_ok V L (e\<lparr>en_graph := g\<rparr>)" "en_in_transaction e" "\<not> en_failed_transaction e" "importable (en_graph e)"
  obtains (refused) er where "persist_checkpoint L e = (Inl er, e)"
  | (failed) er e' where "persist_checkpoint L e = (Inl er, e')" "en_in_transaction e'" "en_failed_transaction e'"
      "committed_of V e' = committed_of V e"
  | (persisted) e' where "persist_checkpoint L e = (Inr (), e')" "tx_ok V L e'" "en_in_transaction e'" "\<not> en_failed_transaction e'"
      "committed_of V e' = committed_of V e" "pg_overlay (en_graph e') = pg_overlay (en_graph e)" "base_of (en_graph e') = base_of (en_graph e)"
proof (cases "encode_graph (el_store L) (el_codec L) (en_graph e)")
  case (Inl msg)
  then show thesis by (intro that(1)) (simp add: persist_checkpoint_def refuse_def)
next
  case (Inr p)
  then have "persist_checkpoint L e = persist_checkpoint_payload L p e" by (simp add: persist_checkpoint_def)
  then show thesis
    using that(2,3) by (cases rule: payload_outcome [OF assms Inr]) auto
qed

lemma undo_inv: "lib_ok V L \<Longrightarrow> engine_inv V L e \<Longrightarrow> engine_inv V L (undo L automatic e)"
  by (simp add: undo_def rollback_inv)

lemma leave_inv:
  assumes "lib_ok V L" "engine_inv V L e" "tx_ok V L e" "en_in_transaction e" "\<not> en_failed_transaction e"
  shows "engine_inv V L (snd (leave L automatic e))"
  using assms(2) finish_automatic_inv [OF assms] by (simp add: leave_def yields_def)

lemma checkpoint_inv:
  assumes "lib_ok V L" "engine_inv V L e"
  shows "engine_inv V L (snd (checkpoint L e))"
proof (cases "en_failed_transaction e")
  case True
  then show ?thesis using assms(2) by (simp add: checkpoint_def refuse_def)
next
  case False
  show ?thesis
    unfolding checkpoint_def Let_def if_not_P [OF False]
  proof (rule opened_inv [OF assms])
    fix e' assume tx: "tx_ok V L e'" and st: "storable L (committed_of V e')" and fl: "en_in_transaction e'" "\<not> en_failed_transaction e'"
    have tx': "tx_ok V L (e'\<lparr>en_graph := en_graph e'\<rparr>)" using tx by simp
    have im: "importable (en_graph e')" using tx holds_importable by (auto simp: tx_ok_def Let_def)
    let ?a = "\<not> en_in_transaction e"
    show "engine_inv V L (snd (case persist_checkpoint L e' of (Inl er, e1) \<Rightarrow> (Inl er, undo L ?a e1) | (Inr u, e1) \<Rightarrow> leave L ?a e1))"
    proof (cases rule: persist_checkpoint_outcome [OF assms(1) tx' fl im, case_names refused failed persisted])
      case (refused er)
      then show ?thesis using undo_inv [OF assms(1) tx_inv [OF fl(1) tx st]] by simp
    next
      case (failed er e1)
      then have inv: "engine_inv V L e1" using st by (simp add: engine_inv_def)
      then show ?thesis using failed undo_inv [OF assms(1) inv] by simp
    next
      case (persisted e1)
      then have inv: "engine_inv V L e1" using st by (simp add: tx_inv)
      then show ?thesis using persisted(1) leave_inv [OF assms(1) inv persisted(2-4)] by simp
    qed
  qed (use False in simp)
qed

lemma replace_graph_inv:
  fixes e :: "('d, 'p) graph_engine"
  assumes "lib_ok V L" "engine_inv V L e" "importable g"
    and "\<And>p. blob = Some p \<Longrightarrow> encode_graph (el_store L) (el_codec L) g = Inr p"
  shows "engine_inv V L (snd (replace_graph_with_payload L g ps blob e))"
proof (cases "en_in_transaction e \<and> en_failed_transaction e")
  case True
  then show ?thesis using assms(2) by (simp add: replace_graph_with_payload_def enter_def and_then_def yields_def refuse_def)
next
  case False
  show ?thesis
    unfolding replace_graph_with_payload_def Let_def
  proof (rule opened_inv [OF assms(1,2)])
    fix e' :: "('d, 'p) graph_engine"
    assume tx: "tx_ok V L e'" and st: "storable L (committed_of V e')" and fl: "en_in_transaction e'" "\<not> en_failed_transaction e'"
    let ?a = "\<not> en_in_transaction e" and ?e = "e'\<lparr>en_graph := g, en_procedures := ps\<rparr>"
    let ?m = "case blob of None \<Rightarrow> persist_checkpoint L | Some p \<Rightarrow> persist_checkpoint_payload L p"
    have pre: "tx_ok V L (?e\<lparr>en_graph := en_graph e'\<rparr>)" "en_in_transaction ?e" "\<not> en_failed_transaction ?e" "importable (en_graph ?e)"
      using tx fl assms(3) by (simp_all add: tx_ok_def)
    consider (refused) er where "?m ?e = (Inl er, ?e)"
      | (failed) er e1 where "?m ?e = (Inl er, e1)" "en_in_transaction e1" "en_failed_transaction e1" "committed_of V e1 = committed_of V e'"
      | (persisted) e1 where "?m ?e = (Inr (), e1)" "tx_ok V L e1" "en_in_transaction e1" "\<not> en_failed_transaction e1"
          "committed_of V e1 = committed_of V e'"
    proof (cases blob)
      case None
      then show ?thesis
        using that by (cases rule: persist_checkpoint_outcome [OF assms(1) pre]) auto
    next
      case (Some p)
      have "encode_graph (el_store L) (el_codec L) (en_graph ?e) = Inr p" using assms(4) [OF Some] by simp
      then show ?thesis
        using Some that(2,3) by (cases rule: payload_outcome [OF assms(1) pre]) auto
    qed
    then show "engine_inv V L (snd (if en_failed_transaction e' then refuse ''transaction failed; roll it back'' e'
        else case ?m ?e of
            (Inl er, e1) \<Rightarrow> (Inl er, undo L ?a (e1\<lparr>en_graph := en_graph e', en_procedures := en_procedures e'\<rparr>))
          | (Inr u, e1) \<Rightarrow> leave L ?a e1))"
    proof cases
      case (refused er)
      have "engine_inv V L e'" by (rule tx_inv [OF fl(1) tx st])
      then show ?thesis using refused fl undo_inv [OF assms(1)] by simp
    next
      case (failed er e1)
      let ?f = "e1\<lparr>en_graph := en_graph e', en_procedures := en_procedures e'\<rparr>"
      have inv: "engine_inv V L ?f" using failed st by (simp add: engine_inv_def)
      then show ?thesis using failed(1) fl undo_inv [OF assms(1) inv] by simp
    next
      case (persisted e1)
      then have inv: "engine_inv V L e1" using st by (simp add: tx_inv)
      then show ?thesis using persisted(1) fl leave_inv [OF assms(1) inv persisted(2-4)] by simp
    qed
  qed (use False in simp)
qed

section \<open>Statements\<close>

text \<open>The engine a statement's work starts on, and what is asked of the work: writes of the catalog whose records fit.\<close>

definition statement_start :: "'d engine_lib \<Rightarrow> ('d, 'p) graph_engine \<Rightarrow> ('d, 'p) graph_engine" where
  "statement_start L e = (if en_in_transaction e then e else snd (begin_transaction L e))"

definition statement_ok :: "'d engine_lib \<Rightarrow> 'r graph_run \<Rightarrow> property_graph \<Rightarrow> bool" where
  "statement_ok L run g \<longleftrightarrow> session_from (graph_of_lib L) g (snd (run g)) \<and> persistable L (snd (run g))"

lemma drop_statement_keeps:
  "\<not> automatic \<Longrightarrow> drop_statement L before automatic e = e\<lparr>en_graph := en_graph before, en_procedures := en_procedures before\<rparr>"
  by (simp add: drop_statement_def Let_def)

lemma drop_statement_undoes:
  assumes "lib_ok V L" "storable L (committed_of V e)" "en_in_transaction e"
  shows "idle_ok V L (drop_statement L before True e)" "committed_of V (drop_statement L before True e) = committed_of V e"
proof -
  let ?e = "e\<lparr>en_graph := en_graph before, en_procedures := en_procedures before\<rparr>"
  have "storable L (committed_of V ?e)" "en_in_transaction ?e" using assms(2,3) by simp_all
  note r = rollback_active [OF assms(1) this]
  have "idle_ok V L (drop_statement L before True e) \<and> committed_of V (drop_statement L before True e) = committed_of V e"
    using r assms(3) by (cases "rollback L ?e"; cases "fst (rollback L ?e)") (simp_all add: drop_statement_def Let_def idle_ok_def cache_ok_def)
  then show "idle_ok V L (drop_statement L before True e)" "committed_of V (drop_statement L before True e) = committed_of V e"
    by simp_all
qed

text \<open>The work of a statement, inside the transaction.\<close>

definition statement_work :: "'d engine_lib \<Rightarrow> bool \<Rightarrow> 'r graph_run \<Rightarrow> ('d, 'p, 'r) engine_action" where
  "statement_work L automatic run = and_then (execute_dag run) (\<lambda>returned. and_then (persist L) (\<lambda>_.
     and_then (if automatic then commit L else yields ()) (\<lambda>_. yields returned)))"

lemma execute_mutation_alt:
  "execute_mutation L run e = and_then (enter L (\<not> en_in_transaction e)) (\<lambda>_ before.
     case statement_work L (\<not> en_in_transaction e) run before of
       (Inl er, e1) \<Rightarrow> (Inl er, drop_statement L before (\<not> en_in_transaction e) e1)
     | (Inr returned, e1) \<Rightarrow> (Inr returned, e1)) e"
  by (simp add: execute_mutation_def statement_work_def Let_def)

lemma statement_work_outcome:
  assumes "lib_ok V L" "tx_ok V L e" "storable L (committed_of V e)" "en_in_transaction e" "\<not> en_failed_transaction e"
    and "statement_ok L run (en_graph e)"
  obtains (stopped) er g where "statement_work L automatic run e = (Inl er, e\<lparr>en_graph := g\<rparr>)"
  | (failed) er e' where "statement_work L automatic run e = (Inl er, e')" "en_in_transaction e'" "en_failed_transaction e'"
      "committed_of V e' = committed_of V e" "automatic \<or> en_loaded_revision e' = en_loaded_revision e"
  | (finished) x e' where "statement_work L automatic run e = (Inr x, e')" "fst (run (en_graph e)) = Inr x"
      "pg_overlay (en_graph e') = pg_overlay (snd (run (en_graph e)))" "base_of (en_graph e') = base_of (snd (run (en_graph e)))"
      "\<not> automatic \<longrightarrow> tx_ok V L e' \<and> en_in_transaction e' \<and> \<not> en_failed_transaction e' \<and> committed_of V e' = committed_of V e"
      "automatic \<longrightarrow> idle_ok V L e' \<and> (dv_snapshot V (en_storage e) = committed_of V e \<longrightarrow> tables_of V e = committed_of V e \<longrightarrow>
         holds L (committed_of V e') (en_graph e') \<and> en_loaded_revision e' = Some (tb_revision (committed_of V e')))"
proof -
  obtain res g where run: "run (en_graph e) = (res, g)" by (cases "run (en_graph e)")
  let ?e = "e\<lparr>en_graph := g\<rparr>"
  show thesis
  proof (cases res)
    case (Inl msg)
    then show thesis by (intro that(1)) (simp add: statement_work_def and_then_def execute_dag_def run)
  next
    case (Inr x)
    have w: "written_from V L (en_graph e) ?e" "en_in_transaction ?e" "\<not> en_failed_transaction ?e"
      using assms(2,4-6) run by (simp_all add: written_from_def statement_ok_def tx_ok_def)
    have step: "statement_work L automatic run e = and_then (persist L) (\<lambda>_. and_then (if automatic then commit L else yields ()) (\<lambda>_. yields x)) ?e"
      using run Inr by (simp add: statement_work_def and_then_def execute_dag_def)
    show thesis
    proof (cases rule: persist_outcome [OF assms(1) w, case_names failed persisted])
      case (failed er e')
      then show thesis by (intro that(2) [where e' = e']) (simp_all add: step and_then_simps)
    next
      case (persisted e')
      show thesis
      proof (cases automatic)
        case False
        have "statement_work L automatic run e = (Inr x, e')"
          using False persisted(1) unfolding step by (simp add: and_then_simps yields_def)
        then show thesis
          by (rule that(3)) (use False persisted run Inr in simp_all)
      next
        case True
        have st: "storable L (committed_of V e')" using persisted(5) assms(3) by simp
        show thesis
        proof (cases rule: commit_tx [OF assms(1) persisted(2) st persisted(3,4), case_names failed committed])
          case (failed er f)
          have "statement_work L automatic run e = (Inl er, f)"
            using True persisted(1) failed(1) unfolding step by (simp add: and_then_simps)
          then show thesis by (rule that(2)) (use True failed persisted(5) in simp_all)
        next
          case (committed f)
          have h: "holds L (tables_of V e') (en_graph e')"
            using persisted(2) by (simp add: tx_ok_def Let_def)
          have c: "committed_of V f = tables_of V e'" if "dv_snapshot V (en_storage e) = committed_of V e"
            using committed(5) that persisted(5,8) by auto
          show thesis
          proof (rule that(3))
            show "statement_work L automatic run e = (Inr x, f)"
              using True persisted(1) committed(1) unfolding step by (simp add: and_then_simps yields_def)
          qed (use True committed persisted(6,7) run Inr h c in \<open>simp_all add: holds_def\<close>)
        qed
      qed
    qed
  qed
qed

lemma execute_mutation_inv:
  fixes e :: "('d, 'p) graph_engine"
  assumes "lib_ok V L" "engine_inv V L e" "\<not> en_failed_transaction e" "statement_ok L run (en_graph (statement_start L e))"
  shows "engine_inv V L (snd (execute_mutation L run e))"
  unfolding execute_mutation_alt
proof (rule opened_inv [OF assms(1,2)])
  let ?a = "\<not> en_in_transaction e"
  fix e' :: "('d, 'p) graph_engine"
  assume tx: "tx_ok V L e'" and st: "storable L (committed_of V e')" and fl: "en_in_transaction e'" "\<not> en_failed_transaction e'"
    and start: "e' = (if en_in_transaction e then e else snd (begin_transaction L e))"
  have dropped: "engine_inv V L (drop_statement L e' ?a f)"
    if "committed_of V f = committed_of V e'" "en_in_transaction f" "en_failed_transaction f \<or> f = e'\<lparr>en_graph := g\<rparr>" for f g
  proof (cases ?a)
    case True
    then show ?thesis using drop_statement_undoes(1) [OF assms(1) _ that(2), of e'] st that(1) by (simp add: idle_inv)
  next
    case False
    then show ?thesis
      using that st tx_inv [OF fl(1) tx st] unfolding drop_statement_keeps [OF False] by (auto simp: engine_inv_def)
  qed
  have ok: "statement_ok L run (en_graph e')" using assms(4) start by (simp add: statement_start_def)
  show "engine_inv V L (snd (case statement_work L ?a run e' of
      (Inl er, e1) \<Rightarrow> (Inl er, drop_statement L e' ?a e1) | (Inr returned, e1) \<Rightarrow> (Inr returned, e1)))"
  proof (cases rule: statement_work_outcome [OF assms(1) tx st fl ok, where automatic = ?a, case_names stopped failed finished])
    case (stopped er g)
    then show ?thesis using dropped [of "e'\<lparr>en_graph := g\<rparr>" g] fl by simp
  next
    case (failed er f)
    then show ?thesis using dropped [of f] by simp
  next
    case (finished x f)
    then show ?thesis using st by (cases ?a) (simp_all add: idle_inv tx_inv)
  qed
qed (use assms(3) in simp)

lemma refresh_inv:
  assumes "lib_ok V L" "engine_inv V L e" "\<not> en_failed_transaction e"
  shows "engine_inv V L (snd (refresh L e)) \<or> en_in_transaction e \<and> (\<exists>er. fst (refresh L e) = Inl er)"
proof (cases "en_in_transaction e")
  case False
  then show ?thesis using idle_inv [OF refresh_idle(1) [OF assms(1) inv_idle [OF assms(2) False]]] by simp
next
  case True
  have tx: "tx_ok V L e" and st: "storable L (committed_of V e)" using assms(2,3) True by (simp_all add: engine_inv_def)
  have pre: "storable L (tables_of V e)" "en_loaded_revision e = Some (tb_revision (tables_of V e)) \<longrightarrow> holds L (tables_of V e) (en_graph e)"
    using tx by (auto simp: tx_ok_def Let_def storable_def)
  show ?thesis
  proof (cases rule: refresh_snapshot_cases [OF assms(1) pre, case_names failed current])
    case (failed er d)
    then show ?thesis using True by (simp add: refresh_def)
  next
    case (current d g ps)
    then show ?thesis
      using True tx st same_viewD [OF current(2)] by (simp add: refresh_def engine_inv_def tx_ok_def Let_def)
  qed
qed

lemma execute_read_inv:
  assumes "lib_ok V L" "engine_inv V L e"
  shows "engine_inv V L (snd (execute_read L f e))"
proof (cases "en_in_transaction e")
  case True
  then show ?thesis using assms(2) by (simp add: execute_read_def and_then_def yields_def)
next
  case False
  note idle_inv [OF refresh_idle(1) [OF assms(1) inv_idle [OF assms(2) False]]]
  then show ?thesis
    using False by (cases "refresh L e"; cases "fst (refresh L e)") (simp_all add: execute_read_def and_then_def)
qed

section \<open>Runs of an engine\<close>

text \<open>Other engines commit in between: newer tables that load, at a higher revision.\<close>

definition interferes :: "'d db_view \<Rightarrow> 'd engine_lib \<Rightarrow> 'd \<Rightarrow> 'd \<Rightarrow> bool" where
  "interferes V L d d' \<longleftrightarrow> dv_active V d' = dv_active V d \<and> dv_snapshot V d' = dv_snapshot V d \<and>
     (dv_active V d \<longrightarrow> dv_tables V d' = dv_tables V d) \<and>
     sint (tb_revision (dv_committed V d)) < sint (tb_revision (dv_committed V d')) \<and> storable L (dv_committed V d')"

type_synonym returned_rows = "val list list"

inductive engine_reachable :: "'d db_view \<Rightarrow> 'd engine_lib \<Rightarrow> ('d, 'p) graph_engine \<Rightarrow> bool" for V L where
  run_open: "\<not> dv_active V d \<Longrightarrow> storable L (dv_committed V d) \<Longrightarrow> engine_reachable V L (snd (open_engine L d))"
| run_begin: "engine_reachable V L e \<Longrightarrow> engine_reachable V L (snd (begin_transaction L e))"
| run_commit: "engine_reachable V L e \<Longrightarrow> engine_reachable V L (snd (commit L e))"
| run_rollback: "engine_reachable V L e \<Longrightarrow> engine_reachable V L (snd (rollback L e))"
| run_mutation: "engine_reachable V L e \<Longrightarrow> statement_ok L (run :: returned_rows graph_run) (en_graph (statement_start L e)) \<Longrightarrow>
    engine_reachable V L (snd (execute_plan L True run e))"
| run_read: "engine_reachable V L e \<Longrightarrow> engine_reachable V L (snd (execute_plan L False (run :: returned_rows graph_run) e))"
| run_checkpoint: "engine_reachable V L e \<Longrightarrow> engine_reachable V L (snd (checkpoint L e))"
| run_replace: "engine_reachable V L e \<Longrightarrow> importable g \<Longrightarrow>
    blob = None \<or> encode_graph (el_store L) (el_codec L) g = Inr (the blob) \<Longrightarrow>
    engine_reachable V L (snd (replace_graph_with_payload L g ps blob e))"
| run_procedures: "engine_reachable V L e \<Longrightarrow> engine_reachable V L (e\<lparr>en_procedures := ps\<rparr>)"
| run_others: "engine_reachable V L e \<Longrightarrow> interferes V L (en_storage e) d \<Longrightarrow> engine_reachable V L (e\<lparr>en_storage := d\<rparr>)"

lemma interferes_inv:
  assumes "lib_ok V L" "engine_inv V L e" "interferes V L (en_storage e) d"
  shows "engine_inv V L (e\<lparr>en_storage := d\<rparr>)"
proof -
  note i = assms(3) [unfolded interferes_def]
  show ?thesis
  proof (cases "en_in_transaction e")
    case False
    then have "cache_ok L (committed_of V e) e" "\<not> dv_active V (en_storage e)" using assms(2) by (simp_all add: engine_inv_def)
    moreover from this(1) have "cache_ok L (dv_committed V d) e" using i unfolding cache_ok_def by fastforce
    ultimately show ?thesis using False i by (simp add: engine_inv_def cache_ok_def)
  next
    case True
    have "tx_ok V L (e\<lparr>en_storage := d\<rparr>)" if "tx_ok V L e"
    proof -
      have tx: "dv_active V (en_storage e)" "in_order (dv_snapshot V (en_storage e)) (committed_of V e) (tables_of V e)"
        using that by (simp_all add: tx_ok_def Let_def)
      have "in_order (dv_snapshot V (en_storage e)) (dv_committed V d) (tables_of V e)"
        using tx(2) i unfolding in_order_def by fastforce
      then show ?thesis using that tx(1) i by (simp add: tx_ok_def Let_def)
    qed
    then show ?thesis using True assms(2) i by (simp add: engine_inv_def)
  qed
qed

lemma reachable_engine_inv:
  assumes "lib_ok V L" "engine_reachable V L e"
  shows "engine_inv V L e"
  using assms(2)
proof (induction rule: engine_reachable.induct)
  case (run_open d)
  let ?e = "\<lparr>en_storage = d, en_graph = new_graph, en_procedures = [], en_loaded_revision = None,
     en_in_transaction = False, en_failed_transaction = False\<rparr> :: ('a, 'b) graph_engine"
  have "idle_ok V L ?e" using run_open by (simp add: idle_ok_def cache_ok_def)
  then show ?case unfolding open_engine_def by (intro idle_inv refresh_idle(1) [OF assms(1)])
next
  case (run_mutation e run)
  then show ?case
    using execute_mutation_inv [OF assms(1) run_mutation.IH _ run_mutation.hyps(2)]
    by (cases "en_failed_transaction e") (simp_all add: execute_plan_def refuse_def)
next
  case (run_read e run)
  then show ?case
    by (simp add: execute_plan_def refuse_def execute_read_inv [OF assms(1) run_read.IH])
next
  case (run_replace e g blob ps)
  then show ?case by (intro replace_graph_inv [OF assms(1)]) auto
next
  case (run_procedures e ps)
  then show ?case by (simp add: engine_inv_def cache_ok_def tx_ok_def)
qed (simp_all add: begin_inv commit_inv rollback_inv checkpoint_inv interferes_inv assms(1))

text \<open>Two graphs that no read of the catalog tells apart.\<close>

definition same_reads :: "graph_lib \<Rightarrow> property_graph \<Rightarrow> property_graph \<Rightarrow> bool" where
  "same_reads G g g' \<longleftrightarrow> node_is_live g' = node_is_live g \<and> live_edge_endpoints g' = live_edge_endpoints g \<and>
     node_property G g' = node_property G g \<and> edge_property G g' = edge_property G g \<and>
     out_edges g' = out_edges g \<and> in_edges g' = in_edges g"

lemma same_overlay_reads:
  assumes "base_of g' = base_of g" "same_overlay (pg_overlay g) (pg_overlay g')"
  shows "same_reads G g g'"
  using overlay_reads_cong(1,3) [OF assms(1)] overlay_reads_cong(2,4) [OF assms(1), where L = G] edge_lists_cong [OF assms(1)] assms(2)
  by (simp add: same_reads_def same_overlay_def)

text \<open>The tables are accepted and load, from their rows in any order, as the graph.\<close>

definition loads_as :: "'d engine_lib \<Rightarrow> tables \<Rightarrow> property_graph \<Rightarrow> bool" where
  "loads_as L t g \<longleftrightarrow> tb_version t = 2 \<and> (\<exists>g0. decode_graph (el_store L) (el_codec L) (tb_payload t) = Inr g0 \<and>
     (\<forall>rs. lists_rows (tb_rows t) rs \<longrightarrow> (\<exists>g'. load_graph L g0 rs = Inr g' \<and> same_reads (graph_of_lib L) g g')))"

lemma holds_loads:
  assumes "lib_ok V L" "holds L t g"
  shows "loads_as L t g"
proof -
  obtain g0 where g0: "tb_version t = 2" "decode_graph (el_store L) (el_codec L) (tb_payload t) = Inr g0"
    using assms(2) by (auto simp: holds_def)
  have "\<exists>g'. load_graph L g0 rs = Inr g' \<and> same_reads (graph_of_lib L) g g'" if "lists_rows (tb_rows t) rs" for rs
    using holds_load [OF lib_okD(5) [OF assms(1)] assms(2) g0(2) that] same_overlay_reads by metis
  then show ?thesis using g0 by (auto simp: loads_as_def)
qed

lemma loads_as_reads: "loads_as L t g \<Longrightarrow> same_reads (graph_of_lib L) g g' \<Longrightarrow> loads_as L t g'"
  by (auto simp: loads_as_def same_reads_def)

section \<open>Properties of the engine\<close>



text \<open>
  C3: a statement that reports an error leaves nothing behind.  The committed tables are those
  from before; inside an explicit transaction the graph, the procedures and the cached revision
  are those from before and the transaction stays open; outside one no transaction is left open.
\<close>

theorem failed_statement_undone:
  assumes "lib_ok V L" and "engine_reachable V L e"
    and "statement_ok L run (en_graph (statement_start L e))" and "execute_plan L True run e = (Inl er, e')"
  shows "committed_of V e' = committed_of V e \<and> en_in_transaction e' = en_in_transaction e \<and>
    (en_in_transaction e \<longrightarrow> en_graph e' = en_graph e \<and> en_procedures e' = en_procedures e \<and> en_loaded_revision e' = en_loaded_revision e)"
proof -
  have inv: "engine_inv V L e" by (rule reachable_engine_inv [OF assms(1,2)])
  show ?thesis
  proof (cases "en_failed_transaction e")
    case True
    then show ?thesis using assms(4) by (auto simp: execute_plan_def refuse_def)
  next
    case False
    then have ex: "execute_mutation L run e = (Inl er, e')" using assms(4) by (simp add: execute_plan_def)
    show ?thesis
    proof (cases "en_in_transaction e")
      case True
      have tx: "tx_ok V L e" "storable L (committed_of V e)" using inv True False by (simp_all add: engine_inv_def)
      have ok: "statement_ok L run (en_graph e)" using assms(3) True by (simp add: statement_start_def)
      have step: "execute_mutation L run e = (case statement_work L False run e of
          (Inl er, e1) \<Rightarrow> (Inl er, drop_statement L e False e1) | (Inr y, e1) \<Rightarrow> (Inr y, e1))"
        using True by (simp add: execute_mutation_alt enter_def yields_def and_then_simps split: prod.split sum.split)
      show ?thesis
        by (cases rule: statement_work_outcome [OF assms(1) tx True False ok, where automatic = False])
          (use ex step True in \<open>auto simp: drop_statement_keeps\<close>)
    next
      case outside: False
      have i: "idle_ok V L e" by (rule inv_idle [OF inv outside])
      show ?thesis
      proof (cases rule: begin_outcome [OF assms(1) i, case_names failed begun])
        case (failed er' f)
        then show ?thesis using ex outside by (auto simp: execute_mutation_alt enter_def and_then_simps idle_ok_def)
      next
        case (begun f)
        have st: "storable L (committed_of V f)" using i begun(5) by (simp add: idle_ok_def)
        have ok: "statement_ok L run (en_graph f)" using assms(3) begun(1) outside by (simp add: statement_start_def)
        have step: "execute_mutation L run e = (case statement_work L True run f of
            (Inl er, e1) \<Rightarrow> (Inl er, drop_statement L f True e1) | (Inr y, e1) \<Rightarrow> (Inr y, e1))"
          using outside begun(1) by (simp add: execute_mutation_alt enter_def and_then_simps split: prod.split sum.split)
        obtain e1 where e1: "e' = drop_statement L f True e1" "committed_of V e1 = committed_of V f" "en_in_transaction e1"
          by (cases rule: statement_work_outcome [OF assms(1) begun(2) st begun(3,4) ok, where automatic = True])
            (use ex step begun(3) in auto)
        then have "storable L (committed_of V e1)" using st by simp
        note drop_statement_undoes [OF assms(1) this e1(3), of f]
        then show ?thesis using e1 begun(5) outside by (simp add: idle_ok_def)
      qed
    qed
  qed
qed

text \<open>The database answers: a transaction can be started, read and, when it wrote nothing, committed.\<close>

definition available :: "'d db_view \<Rightarrow> 'd duckdb \<Rightarrow> bool" where
  "available V D \<longleftrightarrow> (\<forall>d.
     (\<not> dv_active V d \<longrightarrow> (\<exists>u d'. db_begin D d = (Inr u, d'))) \<and>
     (dv_active V d \<longrightarrow> dv_tables V d = dv_snapshot V d \<longrightarrow>
        (\<exists>x d'. db_select_state D d = (Inr x, d')) \<and> (\<exists>x d'. db_select_payload D d = (Inr x, d')) \<and>
        (\<exists>x d'. db_select_records D d = (Inr x, d')) \<and> (\<exists>u d'. db_commit D d = (Inr u, d'))))"

lemma availableD:
  assumes "available V D"
  shows "\<not> dv_active V d \<Longrightarrow> \<exists>u d'. db_begin D d = (Inr u, d')"
    "dv_active V d \<Longrightarrow> dv_tables V d = dv_snapshot V d \<Longrightarrow> \<exists>u d'. db_commit D d = (Inr u, d')"
  using assms unfolding available_def by blast+

lemma send_answered: "stmt (en_storage e) = (Inr x, d) \<Longrightarrow> send stmt e = (Inr x, e\<lparr>en_storage := d\<rparr>)"
  by (simp add: send_def)

lemma refresh_snapshot_available:
  assumes "lib_ok V L" "available V (el_db L)" "storable L (tables_of V e)" "dv_active V (en_storage e)" "tables_of V e = dv_snapshot V (en_storage e)"
  shows "fst (refresh_snapshot L e) = Inr ()"
proof -
  note av = assms(2) [unfolded available_def]
  have db: "reads_tables V (db_select_state (el_db L)) (\<lambda>t x. x = (tb_version t, tb_revision t))"
    "reads_tables V (db_select_payload (el_db L)) (\<lambda>t x. x = tb_payload t)"
    "reads_tables V (db_select_records (el_db L)) (\<lambda>t. lists_rows (tb_rows t))"
    using assms(1) by (simp_all add: lib_ok_def duckdb_ok_def)
  have read: "\<exists>x d. send stmt f = (Inr x, f\<lparr>en_storage := d\<rparr>) \<and> answer (tables_of V f) x \<and> same_view V (en_storage f) d"
    if "reads_tables V stmt answer" "\<exists>x d. stmt (en_storage f) = (Inr x, d)"
    for stmt :: "'a \<Rightarrow> (string + 'x) \<times> 'a" and answer and f :: "('a, 'b) graph_engine"
    using that by (cases rule: read_cases [OF that(1), of f]) (auto simp: send_answered)
  obtain g g0 where g: "holds L (tables_of V e) g" "tb_version (tables_of V e) = 2"
    "decode_graph (el_store L) (el_codec L) (tb_payload (tables_of V e)) = Inr g0"
    using assms(3) by (auto simp: storable_def holds_def)
  obtain d1 where d1: "send (db_select_state (el_db L)) e = (Inr (2, tb_revision (tables_of V e)), e\<lparr>en_storage := d1\<rparr>)"
    "same_view V (en_storage e) d1"
    using read [OF db(1), of e] av assms(4,5) g(2) by metis
  note v1 = same_viewD [OF d1(2)]
  have "\<exists>x d. db_select_payload (el_db L) (en_storage (e\<lparr>en_storage := d1\<rparr>)) = (Inr x, d)" using av assms(4,5) v1 by simp
  then obtain d2 where d2: "send (db_select_payload (el_db L)) (e\<lparr>en_storage := d1\<rparr>) = (Inr (tb_payload (tables_of V e)), e\<lparr>en_storage := d2\<rparr>)"
    "same_view V d1 d2"
    using read [OF db(2), of "e\<lparr>en_storage := d1\<rparr>"] v1(4) by auto
  note v2 = same_viewD [OF d2(2)]
  have "\<exists>x d. db_select_records (el_db L) (en_storage (e\<lparr>en_storage := d2\<rparr>)) = (Inr x, d)" using av assms(4,5) v1 v2 by simp
  then obtain rs d3 where d3: "send (db_select_records (el_db L)) (e\<lparr>en_storage := d2\<rparr>) = (Inr rs, e\<lparr>en_storage := d3\<rparr>)"
    "lists_rows (tb_rows (tables_of V e)) rs"
    using read [OF db(3), of "e\<lparr>en_storage := d2\<rparr>"] v1(4) v2(4) by auto
  obtain g' where "load_graph L g0 rs = Inr g'" by (rule holds_load [OF lib_okD(5) [OF assms(1)] g(1,3) d3(2)])
  then show ?thesis
    using d1(1) d2(1) d3(1) g(3) by (simp add: refresh_snapshot_def and_then_simps yields_def)
qed

lemma refresh_available:
  assumes "lib_ok V L" "available V (el_db L)" "idle_ok V L e"
  shows "fst (refresh L e) = Inr ()"
proof -
  have idle: "\<not> en_in_transaction e" "storable L (committed_of V e)" "\<not> dv_active V (en_storage e)" "cache_ok L (committed_of V e) e"
    using assms(3) by (simp_all add: idle_ok_def)
  show ?thesis
  proof (cases rule: begin_cases [OF assms(1), of e, case_names failed begun])
    case (failed msg d)
    obtain u d' where "db_begin (el_db L) (en_storage e) = (Inr u, d')" using availableD(1) [OF assms(2) idle(3)] by blast
    then show ?thesis using failed(1) by (simp add: send_answered)
  next
    case (begun d)
    let ?e = "e\<lparr>en_storage := d\<rparr>"
    have st: "storable L (tables_of V ?e)" "dv_active V (en_storage ?e)" "tables_of V ?e = dv_snapshot V (en_storage ?e)"
      using idle begun by simp_all
    have cached: "en_loaded_revision ?e = Some (tb_revision (tables_of V ?e)) \<longrightarrow> holds L (tables_of V ?e) (en_graph ?e)"
      using idle(4) begun by (simp add: cache_ok_def)
    show ?thesis
    proof (cases rule: refresh_snapshot_cases [OF assms(1) st(1) cached, case_names failed current])
      case (failed er d')
      then show ?thesis using refresh_snapshot_available [OF assms(1,2) st] by simp
    next
      case (current d' g ps)
      note v = same_viewD [OF current(2)]
      have "dv_active V d'" "dv_tables V d' = dv_snapshot V d'" using v begun by simp_all
      then obtain u d'' where "db_commit (el_db L) d' = (Inr u, d'')" using availableD(2) [OF assms(2)] by blast
      then show ?thesis using idle(1) begun(1) current(1) by (simp add: refresh_def and_then_simps send_answered)
    qed
  qed
qed

lemma begin_available:
  assumes "lib_ok V L" "available V (el_db L)" "idle_ok V L e"
  shows "fst (begin_transaction L e) = Inr ()"
proof -
  have idle: "\<not> en_in_transaction e" "storable L (committed_of V e)" "\<not> dv_active V (en_storage e)"
    using assms(3) by (simp_all add: idle_ok_def)
  show ?thesis
  proof (cases rule: begin_cases [OF assms(1), of e, case_names failed begun])
    case (failed msg d)
    obtain u d' where "db_begin (el_db L) (en_storage e) = (Inr u, d')" using availableD(1) [OF assms(2) idle(3)] by blast
    then show ?thesis using failed(1) by (simp add: send_answered)
  next
    case (begun d)
    let ?e = "e\<lparr>en_storage := d, en_in_transaction := True, en_failed_transaction := False\<rparr>"
    have "fst (refresh_snapshot L ?e) = Inr ()"
      by (rule refresh_snapshot_available [OF assms(1,2)]) (use idle begun in simp_all)
    then show ?thesis
      using idle(1) begun(1) by (cases "refresh_snapshot L ?e") (simp add: begin_transaction_def and_then_simps refresh_def)
  qed
qed

text \<open>
  C20: recovery is possible.  From every reachable state inside a transaction, failed or not,
  when the database answers, rolling back succeeds, the engine holds the committed graph, and
  the next transaction begins.
\<close>

theorem rollback_recovers:
  assumes "lib_ok V L" and "available V (el_db L)" and "engine_reachable V L e" and "en_in_transaction e"
  shows "\<exists>e'. rollback L e = (Inr (), e') \<and> \<not> en_in_transaction e' \<and> \<not> en_failed_transaction e' \<and>
    committed_of V e' = committed_of V e \<and> loads_as L (committed_of V e) (en_graph e') \<and>
    (\<exists>e''. begin_transaction L e' = (Inr (), e''))"
proof -
  have st: "storable L (committed_of V e)" using reachable_engine_inv [OF assms(1,3)] by (simp add: engine_inv_def)
  obtain res d where r: "send (db_rollback (el_db L)) e = (res, e\<lparr>en_storage := d\<rparr>)" "rollback_settled res"
    "\<not> dv_active V d" "dv_committed V d = committed_of V e"
    by (rule rollback_sent [OF assms(1)])
  let ?e = "e\<lparr>en_storage := d, en_in_transaction := False, en_failed_transaction := False, en_loaded_revision := None\<rparr>"
  have i: "idle_ok V L ?e" using r st by (simp add: idle_ok_def cache_ok_def)
  obtain e' where e': "refresh L ?e = (Inr (), e')"
    using refresh_available [OF assms(1,2) i] by (cases "refresh L ?e") simp
  have roll: "rollback L e = (Inr (), e')" using r assms(4) e' by (simp add: rollback_def and_then_def ensure_transaction_def yields_def)
  note f = refresh_idle [OF assms(1) i, unfolded e' fst_conv snd_conv]
  have "loads_as L (committed_of V e) (en_graph e')"
    using f r(4) holds_loads [OF assms(1)] by (simp add: idle_ok_def cache_ok_def)
  moreover have "\<exists>e''. begin_transaction L e' = (Inr (), e'')"
    using begin_available [OF assms(1,2) f(1)] by (cases "begin_transaction L e'") simp
  ultimately show ?thesis using roll f r(4) by (auto simp: idle_ok_def)
qed

text \<open>
  An engine whose automatic rollback could not reload the graph refuses everything but a
  new transaction: statements, reads and checkpoints ask for a rollback, while rolling back and
  committing answer that no transaction is active.
\<close>

theorem lost_recovery_refuses:
  assumes "\<not> en_in_transaction e" and "en_failed_transaction e"
  shows "execute_plan L mutation run e = (Inl (Refused ''transaction failed; roll it back''), e) \<and>
    checkpoint L e = (Inl (Refused ''transaction failed; roll it back''), e) \<and>
    rollback L e = (Inl (Refused ''no active transaction''), e) \<and>
    commit L e = (Inl (Refused ''no active transaction''), e)"
  using assms
  by (simp add: execute_plan_def checkpoint_def rollback_def commit_def ensure_transaction_def refuse_def and_then_def)

lemma send_keeps:
  assumes "send stmt e = (r, e')"
  shows "en_procedures e' = en_procedures e" "en_loaded_revision e' = en_loaded_revision e" "en_in_transaction e' = en_in_transaction e"
  using assms by (auto simp: send_def split: prod.splits sum.splits)

lemma reload_procedures:
  assumes "refresh_snapshot L e = (Inr (), e')" "en_loaded_revision e = None"
  shows "en_procedures e' = []"
proof -
  obtain v r e1 where e1: "send (db_select_state (el_db L)) e = (Inr (v, r), e1)"
    using assms(1) by (cases rule: send_cases [of "db_select_state (el_db L)" e]) (auto simp: refresh_snapshot_def and_then_def)
  have none: "en_loaded_revision e1 = None" using send_keeps(2) [OF e1] assms(2) by simp
  show ?thesis
    using assms(1) none
    by (auto simp: refresh_snapshot_def and_then_simps e1 refuse_def) (auto simp: and_then_def refuse_def split: prod.splits sum.splits if_splits)
qed

lemma refresh_procedures:
  assumes "refresh L e = (Inr (), e')" "en_loaded_revision e = None"
  shows "en_procedures e' = []"
proof (cases "en_in_transaction e")
  case True
  then show ?thesis using assms reload_procedures by (simp add: refresh_def)
next
  case False
  obtain e1 where e1: "send (db_begin (el_db L)) e = (Inr (), e1)"
    using assms(1) False by (cases rule: send_cases [of "db_begin (el_db L)" e]) (auto simp: refresh_def and_then_def)
  obtain e2 where e2: "refresh_snapshot L e1 = (Inr (), e2)"
    using assms(1) False e1 by (cases "refresh_snapshot L e1"; cases "fst (refresh_snapshot L e1)") (auto simp: refresh_def and_then_def)
  have "send (db_commit (el_db L)) e2 = (Inr (), e')"
    using assms(1) False e1 e2 by (cases rule: send_cases [of "db_commit (el_db L)" e2]) (auto simp: refresh_def and_then_def)
  then show ?thesis using reload_procedures [OF e2] send_keeps(2) [OF e1] assms(2) send_keeps(1) by metis
qed

text \<open>
  Rolling back forgets the registered table procedures.  The reload replaces the graph with
  a decoded one, whose catalog of procedures is empty.
\<close>

theorem rollback_drops_procedures:
  assumes "rollback L e = (Inr (), e')"
  shows "en_procedures e' = []"
proof -
  have tx: "en_in_transaction e" using assms by (auto simp: rollback_def and_then_def ensure_transaction_def refuse_def split: if_splits)
  obtain res e1 where s: "send (db_rollback (el_db L)) e = (res, e1)" by (cases "send (db_rollback (el_db L)) e")
  have "rollback_settled res" using assms tx s by (auto simp: rollback_def and_then_def ensure_transaction_def yields_def rollback_settled_def split: if_splits)
  then have "refresh L (e1\<lparr>en_in_transaction := False, en_failed_transaction := False, en_loaded_revision := None\<rparr>) = (Inr (), e')"
    using assms tx s by (simp add: rollback_def and_then_def ensure_transaction_def yields_def)
  then show ?thesis by (rule refresh_procedures) simp
qed

section \<open>A small transactional store\<close>

text \<open>
  A store with the engine's tables as values, one connection, and a script of which statements
  fail next.  It satisfies what the engine relies on.
\<close>

record sim_tables =
  st_revision :: i64
  st_payload :: bytes
  st_rows :: "(row_key \<times> bytes) list"

record sim_db =
  sd_committed :: sim_tables
  sd_transaction :: "(sim_tables \<times> sim_tables) option"
  sd_faults :: "bool list"

definition sim_view_tables :: "sim_tables \<Rightarrow> tables" where
  "sim_view_tables t = \<lparr>tb_version = 2, tb_revision = st_revision t, tb_payload = st_payload t, tb_rows = map_of (st_rows t)\<rparr>"

definition sim_view :: "sim_db db_view" where
  "sim_view = \<lparr>
     dv_active = (\<lambda>d. sd_transaction d \<noteq> None),
     dv_committed = (\<lambda>d. sim_view_tables (sd_committed d)),
     dv_snapshot = (\<lambda>d. sim_view_tables (case sd_transaction d of None \<Rightarrow> sd_committed d | Some (s, t) \<Rightarrow> s)),
     dv_tables = (\<lambda>d. sim_view_tables (case sd_transaction d of None \<Rightarrow> sd_committed d | Some (s, t) \<Rightarrow> t))\<rparr>"

text \<open>Tables with the same contents.\<close>

definition sim_same :: "sim_tables \<Rightarrow> sim_tables \<Rightarrow> bool" where
  "sim_same a b \<longleftrightarrow> st_revision a = st_revision b \<and> st_payload a = st_payload b \<and>
     list_all (\<lambda>k. map_of (st_rows a) k = map_of (st_rows b) k) (map fst (st_rows a) @ map fst (st_rows b))"

lemma sim_same_view: "sim_same a b \<longleftrightarrow> sim_view_tables a = sim_view_tables b"
proof -
  have "map_of m = map_of n" if eq: "\<forall>k \<in> fst ` set m \<union> fst ` set n. map_of m k = map_of n k" for m n :: "(row_key \<times> bytes) list"
  proof
    fix k
    show "map_of m k = map_of n k"
      using eq by (cases "k \<in> fst ` set m \<union> fst ` set n") (auto simp: map_of_eq_None_iff [THEN iffD2])
  qed
  then show ?thesis by (auto simp: sim_same_def sim_view_tables_def list_all_iff)
qed

lemma sim_same_simps: "sim_same t t" "st_revision a \<noteq> st_revision b \<Longrightarrow> \<not> sim_same a b"
  by (simp_all add: sim_same_def list_all_iff)

definition sim_step :: "bool \<Rightarrow> (sim_db \<Rightarrow> (string + 'a) \<times> sim_db) \<Rightarrow> sim_db \<Rightarrow> (string + 'a) \<times> sim_db" where
  "sim_step flaky f d =
     (case if flaky then sd_faults d else [] of
        [] \<Rightarrow> f d
      | b # bs \<Rightarrow> if b then (Inl ''interrupted'', d\<lparr>sd_faults := bs\<rparr>) else f (d\<lparr>sd_faults := bs\<rparr>))"

definition sim_read :: "bool \<Rightarrow> (sim_tables \<Rightarrow> 'a) \<Rightarrow> sim_db \<Rightarrow> (string + 'a) \<times> sim_db" where
  "sim_read flaky f = sim_step flaky (\<lambda>d. (Inr (f (case sd_transaction d of None \<Rightarrow> sd_committed d | Some (s, t) \<Rightarrow> t)), d))"

definition sim_write :: "bool \<Rightarrow> (sim_tables \<Rightarrow> sim_tables) \<Rightarrow> (sim_tables \<Rightarrow> 'a) \<Rightarrow> (sim_tables \<Rightarrow> bool) \<Rightarrow> sim_db \<Rightarrow> (string + 'a) \<times> sim_db" where
  "sim_write flaky f g ok = sim_step flaky (\<lambda>d.
     case sd_transaction d of
       None \<Rightarrow> (Inl ''no transaction is active'', d)
     | Some (s, t) \<Rightarrow> if ok t then (Inr (g t), d\<lparr>sd_transaction := Some (s, f t)\<rparr>) else (Inl ''out of range'', d))"

definition sim_duckdb :: "bool \<Rightarrow> sim_db duckdb" where
  "sim_duckdb flaky = \<lparr>
     db_begin = sim_step flaky (\<lambda>d. case sd_transaction d of
        None \<Rightarrow> (Inr (), d\<lparr>sd_transaction := Some (sd_committed d, sd_committed d)\<rparr>)
      | Some p \<Rightarrow> (Inl ''cannot start a transaction within a transaction'', d)),
     db_commit = sim_step flaky (\<lambda>d. case sd_transaction d of
        None \<Rightarrow> (Inl ''no transaction is active'', d)
      | Some (s, t) \<Rightarrow>
          if sim_same t s then (Inr (), d\<lparr>sd_transaction := None\<rparr>)
          else if sim_same (sd_committed d) s then (Inr (), d\<lparr>sd_transaction := None, sd_committed := t\<rparr>)
          else (Inl ''conflict'', d)),
     db_rollback = (\<lambda>d. case sd_transaction d of
        None \<Rightarrow> (Inl ''cannot rollback - no transaction is active'', d)
      | Some p \<Rightarrow> (Inr (), d\<lparr>sd_transaction := None\<rparr>)),
     db_select_state = sim_read flaky (\<lambda>t. (2, st_revision t)),
     db_select_payload = sim_read flaky st_payload,
     db_select_records = sim_read flaky (\<lambda>t. map (\<lambda>((kind, name, i), p). \<lparr>ir_kind = kind, ir_name = name, ir_id = i, ir_payload = p\<rparr>)
       (AList.clearjunk (st_rows t))),
     db_advance_revision = sim_write flaky (\<lambda>t. t\<lparr>st_revision := st_revision t + 1\<rparr>) (\<lambda>t. st_revision t + 1)
       (\<lambda>t. sint (st_revision t) < sint (st_revision t + 1)),
     db_upsert_records = (\<lambda>b. sim_write flaky (\<lambda>t. t\<lparr>st_rows := fold (\<lambda>r. AList.update (row_key r) (ir_payload r)) b (st_rows t)\<rparr>) (\<lambda>_. ()) (\<lambda>_. True)),
     db_update_payload = (\<lambda>p. sim_write flaky (\<lambda>t. t\<lparr>st_payload := p\<rparr>) (\<lambda>_. ()) (\<lambda>_. True)),
     db_delete_records = sim_write flaky (\<lambda>t. t\<lparr>st_rows := []\<rparr>) (\<lambda>_. ()) (\<lambda>_. True)\<rparr>"

lemma sim_view_simps [simp]:
  "dv_active sim_view d \<longleftrightarrow> sd_transaction d \<noteq> None" "dv_committed sim_view d = sim_view_tables (sd_committed d)"
  "dv_snapshot sim_view d = sim_view_tables (case sd_transaction d of None \<Rightarrow> sd_committed d | Some (s, t) \<Rightarrow> s)"
  "dv_tables sim_view d = sim_view_tables (case sd_transaction d of None \<Rightarrow> sd_committed d | Some (s, t) \<Rightarrow> t)"
  by (simp_all add: sim_view_def)

lemma sim_reads:
  assumes "\<And>t. answer (sim_view_tables t) (f t)"
  shows "reads_tables sim_view (sim_read flaky f) answer"
  using assms by (auto simp: reads_tables_def sim_read_def sim_step_def failed_safely_def same_view_def split: list.split option.split)

lemma sim_writes:
  assumes "\<And>t. ok t \<Longrightarrow> effect (sim_view_tables t) (g t) (sim_view_tables (f t))"
  shows "writes_tables sim_view (sim_write flaky f g ok) effect"
  using assms by (auto simp: writes_tables_def sim_write_def sim_step_def failed_safely_def split: list.split option.splits)

lemma sim_rows: "map_of (fold (\<lambda>r. AList.update (row_key r) (ir_payload r)) b m) = upsert_rows b (map_of m)"
  unfolding upsert_rows_def by (induction b arbitrary: m) (simp_all add: update_conv')

lemma sim_duckdb_ok: "duckdb_ok sim_view (sim_duckdb flaky)"
proof -
  have "transactional sim_view (sim_duckdb flaky)"
    unfolding transactional_def begins_ok_def commits_ok_def rollbacks_ok_def
  proof (intro conjI allI impI)
    fix d :: sim_db
    show "case db_begin (sim_duckdb flaky) d of (Inl msg, d') \<Rightarrow> same_view sim_view d d'
      | (Inr u, d') \<Rightarrow> dv_active sim_view d' \<and> dv_committed sim_view d' = dv_committed sim_view d \<and>
          dv_snapshot sim_view d' = dv_committed sim_view d \<and> dv_tables sim_view d' = dv_committed sim_view d"
      by (simp add: sim_duckdb_def sim_step_def same_view_def split: list.split option.split)
    show "dv_tables sim_view d = dv_committed sim_view d" if "\<not> dv_active sim_view d"
      using that by (cases "sd_transaction d") simp_all
    show "case db_commit (sim_duckdb flaky) d of (Inl msg, d') \<Rightarrow> dv_committed sim_view d' = dv_committed sim_view d
      | (Inr u, d') \<Rightarrow> \<not> dv_active sim_view d' \<and>
          (dv_tables sim_view d = dv_snapshot sim_view d \<and> dv_committed sim_view d' = dv_committed sim_view d \<or>
           dv_committed sim_view d = dv_snapshot sim_view d \<and> dv_committed sim_view d' = dv_tables sim_view d)" if "dv_active sim_view d"
      using that by (auto simp: sim_duckdb_def sim_step_def sim_same_view split: list.split option.split)
    have "sublist ''no transaction is active'' (''cannot rollback - '' @ ''no transaction is active'')" by (rule sublist_append_leftI)
    then have "sublist ''no transaction is active'' ''cannot rollback - no transaction is active''" by simp
    then show "case db_rollback (sim_duckdb flaky) d of (res, d') \<Rightarrow> \<not> dv_active sim_view d' \<and> dv_committed sim_view d' = dv_committed sim_view d \<and>
         (case res of Inl msg \<Rightarrow> sublist ''no transaction is active'' msg | Inr u \<Rightarrow> True)"
      by (simp add: sim_duckdb_def split: option.split)
  qed
  moreover have "lists_rows (map_of m) (map (\<lambda>((kind, name, i), p). \<lparr>ir_kind = kind, ir_name = name, ir_id = i, ir_payload = p\<rparr>) (AList.clearjunk m))" for m
  proof -
    have "map_of m key = Some p \<longleftrightarrow> (key, p) \<in> set (AList.clearjunk m)" for key p
      using map_of_clearjunk [of m] distinct_clearjunk [of m] by (metis Some_eq_map_of_iff)
    then show ?thesis unfolding lists_rows_def by (force simp: row_key_def)
  qed
  ultimately show ?thesis
    unfolding duckdb_ok_def by (simp add: sim_duckdb_def sim_reads sim_writes sim_view_tables_def sim_rows)
qed

lemma sim_available: "available sim_view (sim_duckdb False)"
  by (auto simp: available_def sim_duckdb_def sim_read_def sim_step_def sim_same_view split: option.split)

text \<open>A codec of the empty graph, and the order of three addresses.\<close>

definition is_blank :: "property_graph \<Rightarrow> bool" where
  "is_blank g \<longleftrightarrow> \<not> pg_source_keys g \<and> (case pg_source g of None \<Rightarrow> True | Some x \<Rightarrow> False) \<and>
     (case pg_mapping g of None \<Rightarrow> True | Some x \<Rightarrow> False) \<and> pg_nodes g = [] \<and> pg_node_keys g = [] \<and> pg_mapped_defaults g = [] \<and>
     pg_unsupported_defaults g = [] \<and> pg_key_types g = [] \<and> pg_node_locations g = [] \<and> pg_edge_keys g = [] \<and>
     pg_edges g = [] \<and> pg_edge_tables g = [] \<and> pg_edge_locations g = [] \<and> pg_edge_counts g = [] \<and>
     pg_node_order g = [] \<and> pg_edge_order g = [] \<and> pg_out_adj g = [] \<and> pg_in_adj g = [] \<and> pg_overlay g = empty_overlay"

lemma blank_base: "is_blank g \<Longrightarrow> base_of g = base_of new_graph \<and> pg_overlay g = pg_overlay new_graph"
  by (cases g) (simp add: is_blank_def base_of_def new_graph_def split: option.splits)

definition empty_codec :: snapshot_codec where
  "empty_codec = \<lparr>
     snapshot_encode = (\<lambda>g. if is_blank g then Inr [] else Inl ''unsupported graph''),
     snapshot_decode = (\<lambda>p. if p = [] then Inr new_graph else Inl ''snapshot magic mismatch'')\<rparr>"

definition demo_lib :: "bool \<Rightarrow> sim_db engine_lib" where
  "demo_lib flaky = \<lparr>
     el_store = demo_store, el_codec = empty_codec, el_db = sim_duckdb flaky,
     el_order = (\<lambda>A. filter (\<lambda>k. k \<in> A) [(''P'', eid_of_i64 0), (''P'', eid_of_i64 1), (''K'', eid_of_i64 0)])\<rparr>"

definition demo_db :: "bool list \<Rightarrow> sim_db" where
  "demo_db faults = \<lparr>sd_committed = \<lparr>st_revision = 0, st_payload = replicate 32 0, st_rows = []\<rparr>,
     sd_transaction = None, sd_faults = faults\<rparr>"

lemma new_graph_lists: "lists_inv (pg_overlay new_graph)"
  by (rule reachable_lists [OF reachable_new])

lemma demo_lib_ok: "lib_ok sim_view (demo_lib flaky)"
proof -
  have "lossless empty_codec"
    unfolding lossless_def
  proof (intro allI impI)
    fix g p assume "graph_inv g" "lists_inv (pg_overlay g)" "snapshot_encode empty_codec g = Inr p"
    then have "is_blank g" and "p = []" by (simp_all add: empty_codec_def split: if_splits)
    then show "\<exists>g'. snapshot_decode empty_codec p = Inr g' \<and> base_of g' = base_of g \<and> same_overlay (pg_overlay g) (pg_overlay g') \<and> lists_inv (pg_overlay g')"
      using new_graph_lists blank_base [of g] by (simp add: empty_codec_def)
  qed
  then show ?thesis by (simp add: lib_ok_def demo_lib_def sha_ok_demo sim_duckdb_ok)
qed

lemma demo_storable: "storable (demo_lib flaky) (dv_committed sim_view (demo_db faults))"
proof -
  have "decode_graph demo_store empty_codec (replicate 32 0) = Inr new_graph"
    by (simp add: decode_graph_def demo_store_def empty_codec_def)
  moreover have "stored demo_store Map.empty new_graph new_graph"
    by (rule stored_checkpoint [OF reachable_inv [OF reachable_new] new_graph_lists])
  ultimately show ?thesis
    by (auto simp: storable_def holds_def demo_lib_def demo_db_def sim_view_tables_def)
qed

definition demo_engine :: "bool \<Rightarrow> bool list \<Rightarrow> (sim_db, unit) graph_engine" where
  "demo_engine flaky faults = snd (open_engine (demo_lib flaky) (demo_db faults))"

lemma demo_reachable: "engine_reachable sim_view (demo_lib flaky) (demo_engine flaky faults)"
  unfolding demo_engine_def by (rule run_open [OF _ demo_storable]) (simp add: demo_db_def)

text \<open>A statement that creates a node, and one that fails after creating it.\<close>

definition create_p :: "returned_rows graph_run" where
  "create_p g = (Inr [[]], apply_write (graph_of_lib (demo_lib False)) (W_InsertNode ''P'' [] None) g)"

definition create_and_fail :: "returned_rows graph_run" where
  "create_and_fail g = (Inl ''division by zero'', apply_write (graph_of_lib (demo_lib False)) (W_InsertNode ''P'' [] None) g)"

definition fresh_engine :: "bool list \<Rightarrow> (string \<times> unit) list \<Rightarrow> (sim_db, unit) graph_engine" where
  "fresh_engine faults ps = \<lparr>en_storage = demo_db faults, en_graph = new_graph, en_procedures = ps, en_loaded_revision = Some 0,
     en_in_transaction = False, en_failed_transaction = False\<rparr>"

lemma load_empty: "load_graph (demo_lib flaky) new_graph [] = Inr new_graph"
  by (simp add: load_graph_def apply_incremental_records_def rebuild_inserted_adjacency_def rebuild_public_id_lookup_def
      clear_pending_changes_def new_graph_def empty_overlay_def push_inserted_def order_lists_def sort_by_def)

lemma demo_decode: "decode_graph demo_store empty_codec (replicate 32 0) = Inr new_graph"
  by (simp add: decode_graph_def demo_store_def empty_codec_def)

lemma demo_lib_fields [simp]:
  "el_store (demo_lib flaky) = demo_store" "el_codec (demo_lib flaky) = empty_codec" "el_db (demo_lib flaky) = sim_duckdb flaky"
  "el_order (demo_lib flaky) A = filter (\<lambda>k. k \<in> A) [(''P'', eid_of_i64 0), (''P'', eid_of_i64 1), (''K'', eid_of_i64 0)]"
  by (simp_all only: demo_lib_def engine_lib.select_convs)

lemma sim_duckdb_fields:
  "db_begin (sim_duckdb flaky) = sim_step flaky (\<lambda>d. case sd_transaction d of
      None \<Rightarrow> (Inr (), d\<lparr>sd_transaction := Some (sd_committed d, sd_committed d)\<rparr>)
    | Some p \<Rightarrow> (Inl ''cannot start a transaction within a transaction'', d))"
  "db_commit (sim_duckdb flaky) = sim_step flaky (\<lambda>d. case sd_transaction d of
      None \<Rightarrow> (Inl ''no transaction is active'', d)
    | Some (s, t) \<Rightarrow>
        if sim_same t s then (Inr (), d\<lparr>sd_transaction := None\<rparr>)
        else if sim_same (sd_committed d) s then (Inr (), d\<lparr>sd_transaction := None, sd_committed := t\<rparr>)
        else (Inl ''conflict'', d))"
  "db_rollback (sim_duckdb flaky) = (\<lambda>d. case sd_transaction d of
      None \<Rightarrow> (Inl ''cannot rollback - no transaction is active'', d) | Some p \<Rightarrow> (Inr (), d\<lparr>sd_transaction := None\<rparr>))"
  "db_select_state (sim_duckdb flaky) = sim_read flaky (\<lambda>t. (2, st_revision t))"
  "db_select_payload (sim_duckdb flaky) = sim_read flaky st_payload"
  "db_select_records (sim_duckdb flaky) = sim_read flaky (\<lambda>t. map (\<lambda>((kind, name, i), p).
     \<lparr>ir_kind = kind, ir_name = name, ir_id = i, ir_payload = p\<rparr>) (AList.clearjunk (st_rows t)))"
  "db_advance_revision (sim_duckdb flaky) = sim_write flaky (\<lambda>t. t\<lparr>st_revision := st_revision t + 1\<rparr>) (\<lambda>t. st_revision t + 1)
       (\<lambda>t. sint (st_revision t) < sint (st_revision t + 1))"
  "db_upsert_records (sim_duckdb flaky) b = sim_write flaky (\<lambda>t. t\<lparr>st_rows := fold (\<lambda>r. AList.update (row_key r) (ir_payload r)) b (st_rows t)\<rparr>)
     (\<lambda>_. ()) (\<lambda>_. True)"
  by (simp_all only: sim_duckdb_def duckdb.select_convs)

lemmas sim_simps = sim_duckdb_fields sim_step_def sim_read_def sim_write_def sim_same_simps demo_db_def

lemmas engine_simps = refresh_def refresh_snapshot_def and_then_def send_def yields_def refuse_def

lemma demo_open:
  "demo_engine False [] = fresh_engine [] []" "demo_engine True (False # False # False # False # False # fs) = fresh_engine fs []"
  by (simp_all add: demo_engine_def open_engine_def engine_simps sim_simps demo_decode load_empty fresh_engine_def)

definition begun_engine :: "(string \<times> unit) list \<Rightarrow> (sim_db, unit) graph_engine" where
  "begun_engine ps = (fresh_engine [] ps)\<lparr>en_in_transaction := True,
     en_storage := (demo_db [])\<lparr>sd_transaction := Some (sd_committed (demo_db []), sd_committed (demo_db []))\<rparr>\<rparr>"

lemma demo_begin: "begin_transaction (demo_lib False) (fresh_engine [] ps) = (Inr (), begun_engine ps)"
  by (simp add: begin_transaction_def engine_simps sim_simps fresh_engine_def begun_engine_def)

lemma demo_rollback: "rollback (demo_lib False) (begun_engine ps) = (Inr (), fresh_engine [] [])"
  by (simp add: rollback_def ensure_transaction_def rollback_settled_def begun_engine_def engine_simps sim_simps demo_decode load_empty fresh_engine_def)

text \<open>What the statement that creates a node leaves.\<close>

lemma created_pending:
  "pg_pending (snd (create_p new_graph)) = \<lparr>pc_nodes = {(''P'', eid_of_i64 0)}, pc_edges = {}\<rparr>"
  by code_simp

lemma created_session: "session_from (graph_of_lib (demo_lib flaky)) new_graph (snd (create_p new_graph))"
proof -
  have "session_from (graph_of_lib (demo_lib flaky)) new_graph
      (apply_write (graph_of_lib (demo_lib flaky)) (W_InsertNode ''P'' [] None) new_graph)"
    by (rule session_write [OF session_start counters_new]) (simp add: target_known_def)
  then show ?thesis by (simp add: create_p_def graph_of_lib_def)
qed

definition created_overlay :: graph_overlay where
  "created_overlay = empty_overlay\<lparr>
     ov_cypher_ids := [((False, ''P'', eid_of_i64 0), 0)], ov_unassigned := [(False, ''P'', eid_of_i64 0)],
     ov_inserted_nodes := [((''P'', eid_of_i64 0), [])], ov_node_counts := [(''P'', 1)]\<rparr>"

lemma created_graph: "pg_overlay (snd (create_p new_graph)) = created_overlay"
  by code_simp

lemma created_persistable: "persistable (demo_lib flaky) (snd (create_p new_graph))"
proof -
  have fit: "fits demo_store (encode_node_body (''P'', eid_of_i64 0) created_overlay)"
    "fits demo_store (encode_node_meta_body ''P'' created_overlay)"
    by (rule fits_small; code_simp)+
  have "0 \<le> sint (al_default 0 (ov_node_counts created_overlay) ''P'')" "node_recordable (''P'', eid_of_i64 0) created_overlay"
    by (simp_all add: created_overlay_def al_default_def node_recordable_def native_value_ok_def empty_overlay_def bt_ordered_def)
  then have "records_fit demo_store [(''P'', eid_of_i64 0)] [] created_overlay" using fit by (simp add: records_fit_def sha_ok_demo)
  moreover have "eid_of_i64 1 \<noteq> eid_of_i64 0" by (simp add: eid_of_i64_def)
  ultimately show ?thesis by (simp add: persistable_def created_pending created_graph Let_def)
qed

lemma created_ok: "statement_ok (demo_lib flaky) create_p new_graph" "statement_ok (demo_lib flaky) create_and_fail new_graph"
  using created_session [of flaky] created_persistable [of flaky] by (simp_all add: statement_ok_def create_p_def create_and_fail_def)

lemma demo_start: "statement_start (demo_lib False) (fresh_engine [] ps) = begun_engine ps" "statement_start (demo_lib flaky) (begun_engine ps) = begun_engine ps"
  using demo_begin [of ps] by (simp_all add: statement_start_def fresh_engine_def begun_engine_def)

lemma begun_graph [simp]: "en_graph (begun_engine ps) = new_graph" "en_in_transaction (begun_engine ps)" "\<not> en_failed_transaction (begun_engine ps)"
  by (simp_all add: begun_engine_def fresh_engine_def)

lemma fresh_graph [simp]:
  "en_graph (fresh_engine fs ps) = new_graph" "\<not> en_in_transaction (fresh_engine fs ps)" "\<not> en_failed_transaction (fresh_engine fs ps)"
  by (simp_all add: fresh_engine_def)

definition created_engine :: "(sim_db, unit) graph_engine" where
  "created_engine = snd (execute_plan (demo_lib False) True create_p (demo_engine False []))"

lemma demo_create:
  "execute_plan (demo_lib False) True create_p (demo_engine False []) = (Inr [[]], created_engine)"
  "en_loaded_revision created_engine = Some 1" "tb_revision (committed_of sim_view created_engine) = 1"
  "\<not> en_in_transaction created_engine"
proof -
  let ?k = "(''P'', eid_of_i64 0)" and ?b = "begun_engine []"
  obtain g where run: "create_p new_graph = (Inr [[]], g)" by (simp add: create_p_def)
  have two: "chunks 256 [r, s] = [[r, s]]" for r s :: incremental_record
    by (simp add: chunks.simps [of _ "[r, s]"] chunks.simps [of _ "[]"])
  have "eid_of_i64 1 \<noteq> eid_of_i64 0" by (simp add: eid_of_i64_def)
  then have "pending_records (demo_lib False) g = [node_record demo_store created_overlay ?k, node_meta_record demo_store created_overlay ''P'']"
    by (simp add: pending_records_def created_pending [unfolded run snd_conv] created_graph [unfolded run snd_conv] incremental_records_parts)
  then obtain r s where recs: "pending_records (demo_lib False) g = [r, s]" by blast
  have pend: "pg_pending g \<noteq> no_pending" by (simp add: created_pending [unfolded run snd_conv] no_pending_def)
  have start: "execute_plan (demo_lib False) True create_p (demo_engine False []) =
      (case statement_work (demo_lib False) True create_p ?b of
         (Inl er, e1) \<Rightarrow> (Inl er, drop_statement (demo_lib False) ?b True e1) | (Inr y, e1) \<Rightarrow> (Inr y, e1))"
    by (simp add: execute_plan_def demo_open execute_mutation_alt enter_def and_then_def demo_begin split: prod.split sum.split)
  have work: "\<exists>e. statement_work (demo_lib False) True create_p ?b = (Inr [[]], e) \<and> en_loaded_revision e = Some 1 \<and>
      st_revision (sd_committed (en_storage e)) = 1 \<and> \<not> en_in_transaction e"
    by (simp add: statement_work_def execute_dag_def run persist_def pend settle_revision_def recs two and_then_def send_def
        commit_def ensure_transaction_def yields_def sim_simps begun_engine_def fresh_engine_def)
  then show "execute_plan (demo_lib False) True create_p (demo_engine False []) = (Inr [[]], created_engine)"
    "en_loaded_revision created_engine = Some 1" "tb_revision (committed_of sim_view created_engine) = 1"
    "\<not> en_in_transaction created_engine"
    unfolding created_engine_def start by (auto simp: sim_view_tables_def)
qed



lemma begun_reachable: "engine_reachable sim_view (demo_lib False) (begun_engine ps)"
proof -
  have "engine_reachable sim_view (demo_lib False) ((demo_engine False [])\<lparr>en_procedures := ps\<rparr>)"
    by (rule run_procedures [OF demo_reachable])
  from run_begin [OF this] show ?thesis using demo_begin [of ps] by (simp add: demo_open fresh_engine_def)
qed

theorem failed_statement_undone_witness:
  "en_graph (snd (execute_plan (demo_lib False) True create_and_fail (begun_engine []))) = new_graph \<and>
   committed_of sim_view (snd (execute_plan (demo_lib False) True create_and_fail (begun_engine []))) = committed_of sim_view (begun_engine [])"
proof -
  have ok: "statement_ok (demo_lib False) create_and_fail (en_graph (statement_start (demo_lib False) (begun_engine [])))"
    by (simp add: demo_start created_ok)
  have "execute_plan (demo_lib False) True create_and_fail (begun_engine []) =
      (Inl (Refused ''division by zero''), snd (execute_plan (demo_lib False) True create_and_fail (begun_engine [])))"
    by (simp add: execute_plan_def execute_mutation_alt enter_def yields_def and_then_def statement_work_def execute_dag_def create_and_fail_def)
  from failed_statement_undone [OF demo_lib_ok begun_reachable ok this] show ?thesis by simp
qed

theorem rollback_recovers_witness:
  "\<exists>e'. rollback (demo_lib False) (begun_engine []) = (Inr (), e') \<and> loads_as (demo_lib False) (committed_of sim_view (begun_engine [])) (en_graph e')"
proof -
  have "available sim_view (el_db (demo_lib False))" by (simp add: sim_available)
  from rollback_recovers [OF demo_lib_ok this begun_reachable] show ?thesis by fastforce
qed

theorem rollback_drops_procedures_witness:
  "en_procedures (begun_engine [(''p'', ())]) = [(''p'', ())] \<and>
   en_procedures (snd (rollback (demo_lib False) (begun_engine [(''p'', ())]))) = []"
  using rollback_drops_procedures [OF demo_rollback [of "[(''p'', ())]"]]
  by (simp add: demo_rollback) (simp add: begun_engine_def fresh_engine_def)

text \<open>The statement fails, its rollback reaches the database, and the reload after it does not.\<close>

definition lost_engine :: "(sim_db, unit) graph_engine" where
  "lost_engine = snd (execute_plan (demo_lib True) True create_and_fail
     (demo_engine True [False, False, False, False, False, False, False, True]))"

lemma lost_engine_state: "\<not> en_in_transaction lost_engine" "en_failed_transaction lost_engine"
  by (simp_all add: lost_engine_def demo_open execute_plan_def execute_mutation_alt enter_def statement_work_def execute_dag_def
      create_and_fail_def drop_statement_def begin_transaction_def rollback_def ensure_transaction_def rollback_settled_def
      engine_simps sim_simps fresh_engine_def)

theorem lost_recovery_refuses_witness:
  "rollback (demo_lib True) lost_engine = (Inl (Refused ''no active transaction''), lost_engine) \<and>
   execute_plan (demo_lib True) True create_p lost_engine = (Inl (Refused ''transaction failed; roll it back''), lost_engine)"
  using lost_recovery_refuses [OF lost_engine_state, where L = "demo_lib True" and run = create_p and mutation = True] by simp

end
