(* ===== verification/Civil_Calendar.thy ===== *)
theory Civil_Calendar
  imports Orchid_Text
begin

text \<open>
  The proleptic Gregorian calendar of \<open>src/src/ir/runtime/scalar/temporal.rs\<close> (the same
  functions are repeated in \<open>src/src/ir/runtime/expr/arithmetic.rs\<close>): leap years, month
  lengths, and the conversions between a civil date and the number of days since 1970-01-01.
  \<open>civil_from_days\<close> and \<open>days_from_civil\<close> are shown to be inverse to each other on the whole
  range of a 64-bit day number, and to agree with counting days one at a time.
\<close>

type_synonym civil = "int \<times> int \<times> int"

section \<open>The code\<close>

definition is_leap_year :: "int \<Rightarrow> bool" where
  "is_leap_year year \<longleftrightarrow> year smod 4 = 0 \<and> year smod 100 \<noteq> 0 \<or> year smod 400 = 0"

definition days_in_month :: "int \<Rightarrow> int \<Rightarrow> int" where
  "days_in_month year month =
     (if month \<in> {1, 3, 5, 7, 8, 10, 12} then 31
      else if month \<in> {4, 6, 9, 11} then 30
      else if month = 2 \<and> is_leap_year year then 29
      else if month = 2 then 28
      else 0)"

definition valid_date :: "int \<Rightarrow> int \<Rightarrow> int \<Rightarrow> bool" where
  "valid_date year month day \<longleftrightarrow>
     1 \<le> month \<and> month \<le> 12 \<and> 1 \<le> day \<and> day \<le> days_in_month year month"

definition days_from_civil :: "int \<Rightarrow> int \<Rightarrow> int \<Rightarrow> int option" where
  "days_from_civil year month day =
     (let y = wrap 64 (year - (if month \<le> 2 then 1 else 0));
          era = (if y \<ge> 0 then y else wrap 64 (y - 399)) sdiv 400;
          yoe = wrap 64 (y - era * 400);
          mp = month + (if month > 2 then - 3 else 9);
          doy = (153 * mp + 2) sdiv 5 + day - 1;
          doe = yoe * 365 + yoe sdiv 4 - yoe sdiv 100 + doy
      in case checked 64 (era * 146097) of
           None \<Rightarrow> None
         | Some a \<Rightarrow>
             (case checked 64 (a + doe) of
                None \<Rightarrow> None
              | Some b \<Rightarrow> checked 64 (b - 719468)))"

text \<open>The conversion of a day number shifted to the era, shared by the two widths.\<close>

definition civil_of_shifted :: "int \<Rightarrow> civil" where
  "civil_of_shifted z =
     (let era = (if z \<ge> 0 then z else z - 146096) sdiv 146097;
          doe = z - era * 146097;
          yoe = (doe - doe sdiv 1460 + doe sdiv 36524 - doe sdiv 146096) sdiv 365;
          y = yoe + era * 400;
          doy = doe - (365 * yoe + yoe sdiv 4 - yoe sdiv 100);
          mp = (5 * doy + 2) sdiv 153;
          d = doy - (153 * mp + 2) sdiv 5 + 1;
          m = mp + (if mp < 10 then 3 else - 9);
          year = y + (if m \<le> 2 then 1 else 0)
      in (year, m, d))"

definition civil_from_days :: "int \<Rightarrow> civil option" where
  "civil_from_days days_since_epoch =
     map_option civil_of_shifted (checked 64 (days_since_epoch + 719468))"

definition civil_from_days_i128 :: "int \<Rightarrow> civil option" where
  "civil_from_days_i128 days_since_epoch =
     (case checked 128 (days_since_epoch + 719468) of
        None \<Rightarrow> None
      | Some z \<Rightarrow>
          (case civil_of_shifted z of
             (year, m, d) \<Rightarrow> map_option (\<lambda>y. (y, m, d)) (checked 64 year)))"

section \<open>The calendar in Euclidean arithmetic\<close>

lemma sdiv_nonneg: "0 \<le> a \<Longrightarrow> 0 < b \<Longrightarrow> a sdiv b = a div (b :: int)"
  by (cases "a = 0") (simp_all add: signed_divide_int_def)

lemma smod_eq_0_iff: "a smod b = 0 \<longleftrightarrow> b dvd (a :: int)"
  by (auto simp: signed_modulo_int_def sgn_0_0 abs_dvd_iff dvd_abs_iff
      simp flip: dvd_eq_mod_eq_0)

lemma era_floor:
  assumes "0 < b"
  shows "(if 0 \<le> z then z else z - (b - 1)) sdiv b = z div (b :: int)"
proof (cases "0 \<le> z")
  case True
  then show ?thesis using assms by (simp add: sdiv_nonneg)
next
  case False
  have "z - (b - 1) = - ((b - 1) - z)" by simp
  also have "\<dots> sdiv b = - (((b - 1) - z) div b)"
    using assms False by (simp add: signed_divide_int_def)
  also have "(b - 1) - z = (b - 1 - z mod b) + - (z div b) * b"
    by (simp add: algebra_simps)
  also have "- (\<dots> div b) = z div b"
  proof -
    have "(b - 1 - z mod b) div b = 0"
      using pos_mod_bound [OF assms, of z] pos_mod_sign [OF assms, of z]
      by (intro div_pos_pos_trivial) linarith+
    moreover have "((b - 1 - z mod b) + - (z div b) * b) div b = - (z div b) + (b - 1 - z mod b) div b"
      using assms by (intro div_mult_self1) simp
    ultimately show ?thesis by linarith
  qed
  finally show ?thesis using False by simp
qed

lemma leap_iff: "is_leap_year y \<longleftrightarrow> 4 dvd y \<and> \<not> 100 dvd y \<or> 400 dvd y"
  by (simp add: is_leap_year_def smod_eq_0_iff)

text \<open>
  Years start in March: \<open>year_start k\<close> is the first day of the \<open>k\<close>-th year of an era of 400
  years, \<open>month_start i\<close> the first day of the \<open>i\<close>-th month of a year.
\<close>

definition year_start :: "int \<Rightarrow> int" where
  "year_start k = 365 * k + k div 4 - k div 100 + k div 400"

definition month_start :: "int \<Rightarrow> int" where
  "month_start i = (153 * i + 2) div 5"

definition year_of_day :: "int \<Rightarrow> int" where
  "year_of_day e = (e - e div 1460 + e div 36524 - e div 146096) div 365"

section \<open>The year of a day\<close>

lemma div_succ:
  assumes "0 < n"
  shows "(k + 1) div n - k div n = of_bool (n dvd k + (1 :: int))"
proof -
  let ?r = "k mod n"
  have r: "0 \<le> ?r" "?r < n" using assms by auto
  have k: "k + 1 = (?r + 1) + k div n * n" by simp
  have "(k + 1) div n = (?r + 1) div n + k div n"
    by (metis (no_types) k add.commute assms div_mult_self1 less_irrefl)
  moreover have "n dvd k + 1 \<longleftrightarrow> n dvd ?r + 1"
    by (subst k) (simp only: dvd_add_times_triv_right_iff)
  moreover have "(?r + 1) div n = of_bool (n dvd ?r + 1)"
  proof (cases "?r + 1 = n")
    case False
    with r have "?r + 1 < n" by linarith
    with r show ?thesis using zdvd_imp_le [of n "?r + 1"] by (auto simp: div_pos_pos_trivial)
  qed (use assms in auto)
  ultimately show ?thesis by simp
qed

lemma year_start_step: "year_start (k + 1) - year_start k = 365 + of_bool (is_leap_year (k + 1))"
proof -
  have up: "400 dvd k + 1 \<Longrightarrow> 100 dvd k + 1" "100 dvd k + 1 \<Longrightarrow> 4 dvd k + 1"
    by (rule dvd_trans [rotated], assumption, simp)+
  have "year_start (k + 1) - year_start k =
      365 + ((k + 1) div 4 - k div 4) - ((k + 1) div 100 - k div 100) + ((k + 1) div 400 - k div 400)"
    by (simp add: year_start_def)
  also have "\<dots> = 365 + of_bool (4 dvd k + 1) - of_bool (100 dvd k + 1) + of_bool (400 dvd k + 1)"
    by (simp only: div_succ zero_less_numeral)
  also have "\<dots> = 365 + of_bool (is_leap_year (k + 1))"
    using up by (cases "4 dvd k + 1"; cases "100 dvd k + 1"; cases "400 dvd k + 1"; simp only: leap_iff; simp)
  finally show ?thesis .
qed

lemma year_start_ends: "year_start 0 = 0" "year_start 400 = 146097"
  by (simp_all add: year_start_def)

lemma year_start_mono: "a \<le> b \<Longrightarrow> year_start a \<le> year_start b"
proof (induction rule: int_ge_induct)
  case (step i)
  have "year_start i \<le> year_start (i + 1)"
    using year_start_step [of i] by (cases "is_leap_year (i + 1)") auto
  with step.IH show ?case by linarith
qed simp

lemma year_of_day_mono: "a \<le> b \<Longrightarrow> year_of_day a \<le> year_of_day b"
proof -
  assume "a \<le> b"
  have "x - x div 1460 \<le> y - y div 1460" if "x \<le> y" for x y :: int
    using that by linarith
  moreover have "x div 36524 - x div 146096 \<le> y div 36524 - y div 146096" if "x \<le> y" for x y :: int
  proof -
    have four: "u div 146096 = u div 36524 div 4" for u :: int
      using zdiv_zmult2_eq [of 4 u 36524] by simp
    show ?thesis using zdiv_mono1 [OF that, of 36524] by (simp only: four) linarith
  qed
  ultimately show ?thesis
    using \<open>a \<le> b\<close> unfolding year_of_day_def by (smt (verit) zdiv_mono1)
qed

definition year_bounds_ok :: "int \<Rightarrow> bool" where
  "year_bounds_ok k \<longleftrightarrow>
     year_of_day (year_start k) = k \<and> year_of_day (year_start (k + 1) - 1) = k"

lemma year_bounds_all: "list_all year_bounds_ok [0..399]"
  by code_simp

lemma year_of_day_inverse:
  assumes "0 \<le> k" "k < 400" "year_start k \<le> e" "e < year_start (k + 1)"
  shows "year_of_day e = k"
proof -
  have "year_bounds_ok k" using year_bounds_all assms(1,2) by (simp add: list_all_iff)
  then show ?thesis
    using year_of_day_mono [OF assms(3)] year_of_day_mono [of e "year_start (k + 1) - 1"] assms(4)
    by (simp add: year_bounds_ok_def)
qed

lemma year_of_day_exists:
  assumes "0 \<le> e" "e < 146097"
  obtains k where "0 \<le> k" "k < 400" "year_start k \<le> e" "e < year_start (k + 1)"
proof -
  have "e < year_start (int n) \<Longrightarrow> \<exists>k. 0 \<le> k \<and> k < int n \<and> year_start k \<le> e \<and> e < year_start (k + 1)" for n
  proof (induction n)
    case 0
    then show ?case using assms(1) by (simp add: year_start_ends)
  next
    case (Suc n)
    show ?case
    proof (cases "e < year_start (int n)")
      case True
      then show ?thesis using Suc.IH by force
    next
      case False
      then show ?thesis using Suc.prems by (intro exI [of _ "int n"]) (simp add: add.commute)
    qed
  qed
  from this [of 400] show ?thesis using assms(2) year_start_ends that by auto
qed

section \<open>The month of a day\<close>

text \<open>The \<open>i\<close>-th month counted from March has the given number and, in a leap year, the given length.\<close>

definition month_no :: "int \<Rightarrow> int" where
  "month_no i = i + (if i < 10 then 3 else - 9)"

definition month_of_day :: "int \<Rightarrow> int" where
  "month_of_day e = (5 * e + 2) div 153"

definition day_ok :: "int \<Rightarrow> bool" where
  "day_ok e \<longleftrightarrow>
     (let i = month_of_day e; d = e - month_start i + 1
      in 0 \<le> i \<and> i < 12 \<and> 1 \<le> d \<and> d \<le> days_in_month (if e = 365 then 4 else 1) (month_no i))"

definition month_ok :: "int \<Rightarrow> bool" where
  "month_ok i \<longleftrightarrow> list_all (\<lambda>d.
     let e = month_start i + d - 1 in
       month_of_day e = i \<and> 0 \<le> e \<and> e \<le> 365 \<and> (e = 365 \<longleftrightarrow> i = 11 \<and> d = 29))
     [1..days_in_month 4 (month_no i)]"

lemma day_ok_all: "list_all day_ok [0..365]"
  by code_simp

lemma month_ok_all: "list_all month_ok [0..11]"
  by code_simp

section \<open>Both directions\<close>

text \<open>The day number shifted to the era, of a date whose year starts in March.\<close>

definition month_index :: "int \<Rightarrow> int" where
  "month_index m = m + (if m > 2 then - 3 else 9)"

definition march_year :: "int \<Rightarrow> int \<Rightarrow> int" where
  "march_year y m = y - of_bool (m \<le> 2)"

definition shifted_day :: "int \<Rightarrow> int \<Rightarrow> int \<Rightarrow> int" where
  "shifted_day y m d =
     march_year y m div 400 * 146097 + year_start (march_year y m mod 400) + month_start (month_index m) + d - 1"

lemma month_index_range: "1 \<le> m \<Longrightarrow> m \<le> 12 \<Longrightarrow> 0 \<le> month_index m \<and> month_index m < 12"
  by (auto simp: month_index_def)

lemma month_no_index [simp]: "1 \<le> m \<Longrightarrow> m \<le> 12 \<Longrightarrow> month_no (month_index m) = m"
  by (auto simp: month_index_def month_no_def)

lemma month_index_no: "0 \<le> i \<Longrightarrow> i < 12 \<Longrightarrow>
    month_index (month_no i) = i \<and> 1 \<le> month_no i \<and> month_no i \<le> 12"
  by (auto simp: month_index_def month_no_def)

lemma year_start_short: "0 \<le> k \<Longrightarrow> k < 400 \<Longrightarrow> year_start k = 365 * k + k div 4 - k div 100"
  by (simp add: year_start_def)

lemma leap_mod: "is_leap_year (y mod 400 + 1) \<longleftrightarrow> is_leap_year (y + 1)"
proof -
  have "n dvd y mod 400 + 1 \<longleftrightarrow> n dvd y + 1" if "n dvd 400" for n :: int
  proof -
    have "n dvd y div 400 * 400" using that by simp
    then have "n dvd y mod 400 + 1 \<longleftrightarrow> n dvd (y mod 400 + 1) + y div 400 * 400"
      by (simp only: dvd_add_left_iff)
    also have "(y mod 400 + 1) + y div 400 * 400 = y + 1" by simp
    finally show ?thesis .
  qed
  from this [of 4] this [of 100] this [of 400] show ?thesis by (simp add: leap_iff)
qed

lemma days_in_month_le: "days_in_month y m \<le> days_in_month 4 m" "days_in_month 1 m \<le> days_in_month y m"
  by (auto simp: days_in_month_def leap_iff)

lemma day_of_year_range:
  assumes "valid_date y m d"
  defines "e \<equiv> month_start (month_index m) + d - 1"
  shows "month_of_day e = month_index m" "0 \<le> e"
    "year_start (march_year y m mod 400) + e < year_start (march_year y m mod 400 + 1)"
proof -
  have m: "1 \<le> m" "m \<le> 12" "1 \<le> d" "d \<le> days_in_month y m"
    using assms(1) by (simp_all add: valid_date_def)
  have "month_ok (month_index m)"
    using month_ok_all month_index_range [OF m(1,2)] by (simp add: list_all_iff)
  moreover have "d \<in> set [1..days_in_month 4 m]"
    using m days_in_month_le(1) [of y m] by simp
  ultimately have e: "month_of_day e = month_index m" "0 \<le> e" "e \<le> 365"
      "e = 365 \<longleftrightarrow> month_index m = 11 \<and> d = 29"
    using m by (simp_all add: month_ok_def list_all_iff Let_def e_def)
  then show "month_of_day e = month_index m" "0 \<le> e" by simp_all
  have "is_leap_year (march_year y m + 1)" if "e = 365"
  proof -
    have "m = 2" "d = 29" using that e(4) m(1,2) by (auto simp: month_index_def split: if_splits)
    then show ?thesis using m(4) by (simp add: march_year_def days_in_month_def split: if_splits)
  qed
  then show "year_start (march_year y m mod 400) + e < year_start (march_year y m mod 400 + 1)"
    using e(3) year_start_step [of "march_year y m mod 400"]
    by (cases "e = 365"; cases "is_leap_year (march_year y m + 1)") (simp_all add: leap_mod)
qed

lemma year_of_day_range:
  assumes "0 \<le> e" "e < 146097"
  shows "0 \<le> year_of_day e" "year_of_day e < 400"
    "year_start (year_of_day e) \<le> e" "e < year_start (year_of_day e + 1)"
  using year_of_day_exists [OF assms] year_of_day_inverse by metis+

lemma civil_of_shifted_eq:
  "civil_of_shifted z =
     (let k = year_of_day (z mod 146097); e = z mod 146097 - year_start k; i = month_of_day e
      in (k + z div 146097 * 400 + of_bool (month_no i \<le> 2), month_no i, e - month_start i + 1))"
proof -
  let ?e = "z mod 146097" and ?k = "year_of_day (z mod 146097)"
  have z: "z - z div 146097 * 146097 = ?e" by (simp add: minus_div_mult_eq_mod)
  have era: "(if 0 \<le> z then z else z - 146096) sdiv 146097 = z div 146097"
    using era_floor [of 146097 z] by (cases "0 \<le> z") simp_all
  have e: "0 \<le> ?e" "?e < 146097" by simp_all
  note k = year_of_day_range [OF e]
  have "?e - ?e div 1460 + ?e div 36524 - ?e div 146096 \<ge> 0"
    using e by linarith
  then have yoe: "(?e - ?e sdiv 1460 + ?e sdiv 36524 - ?e sdiv 146096) sdiv 365 = ?k"
    using e by (simp add: sdiv_nonneg year_of_day_def)
  have start: "365 * ?k + ?k sdiv 4 - ?k sdiv 100 = year_start ?k"
    using k(1,2) by (simp add: sdiv_nonneg year_start_short)
  define doy where "doy = ?e - year_start ?k"
  have "0 \<le> doy" using k(3) by (simp add: doy_def)
  then have mp: "(5 * doy + 2) sdiv 153 = month_of_day doy" "0 \<le> month_of_day doy"
    by (simp_all add: sdiv_nonneg month_of_day_def)
  then have ms: "(153 * month_of_day doy + 2) sdiv 5 = month_start (month_of_day doy)"
    by (simp add: sdiv_nonneg month_start_def)
  show ?thesis
    unfolding civil_of_shifted_def Let_def era z yoe start
    by (simp add: doy_def [symmetric] mp(1) ms month_no_def)
qed

lemma civil_of_shifted_day:
  assumes "valid_date y m d"
  shows "civil_of_shifted (shifted_day y m d) = (y, m, d)"
proof -
  let ?y = "march_year y m" and ?i = "month_index m"
  define e where "e = month_start ?i + d - 1"
  note doy = day_of_year_range [OF assms, folded e_def]
  have m: "1 \<le> m" "m \<le> 12" using assms by (simp_all add: valid_date_def)
  have k: "0 \<le> ?y mod 400" "?y mod 400 < 400" by simp_all
  have "year_start 0 \<le> year_start (?y mod 400)" "year_start (?y mod 400 + 1) \<le> year_start 400"
    by (rule year_start_mono, use k in linarith)+
  then have r: "0 \<le> year_start (?y mod 400) + e" "year_start (?y mod 400) + e < 146097"
    using doy(2,3) by (simp_all add: year_start_ends)
  have s: "shifted_day y m d = (year_start (?y mod 400) + e) + ?y div 400 * 146097"
    by (simp add: shifted_day_def e_def)
  have "shifted_day y m d div 146097 = ?y div 400" "shifted_day y m d mod 146097 = year_start (?y mod 400) + e"
    using r by (simp_all only: s div_mult_self1 mod_mult_self1 div_pos_pos_trivial mod_pos_pos_trivial)
  moreover have "year_of_day (year_start (?y mod 400) + e) = ?y mod 400"
    by (rule year_of_day_inverse [OF k]) (use doy in simp_all)
  moreover have "?y mod 400 + ?y div 400 * 400 + of_bool (m \<le> 2) = y"
    by (simp add: march_year_def)
  ultimately show ?thesis
    using m by (simp add: civil_of_shifted_eq Let_def doy(1)) (simp add: e_def)
qed

lemma shifted_day_of_civil:
  assumes "civil_of_shifted z = (y, m, d)"
  shows "valid_date y m d" "shifted_day y m d = z"
proof -
  define e k where "e = z mod 146097" and "k = year_of_day e"
  define f i where "f = e - year_start k" and "i = month_of_day f"
  have e: "0 \<le> e" "e < 146097" by (simp_all add: e_def)
  note kr = year_of_day_range [OF e, folded k_def]
  have f: "0 \<le> f" "f < 365 + of_bool (is_leap_year (k + 1))"
    using kr(3,4) year_start_step [of k] by (simp_all add: f_def)
  then have "f \<in> set [0..365]" by (cases "is_leap_year (k + 1)") auto
  then have "day_ok f" using day_ok_all by (simp only: list_all_iff)
  then have i: "0 \<le> i" "i < 12" "1 \<le> f - month_start i + 1"
      "f - month_start i + 1 \<le> days_in_month (if f = 365 then 4 else 1) (month_no i)"
    by (simp_all add: day_ok_def Let_def i_def [symmetric])
  have c: "y = k + z div 146097 * 400 + of_bool (month_no i \<le> 2)" "m = month_no i" "d = f - month_start i + 1"
    using assms by (auto simp: civil_of_shifted_eq Let_def e_def f_def k_def i_def)
  have my: "march_year y m = k + z div 146097 * 400" by (simp add: march_year_def c)
  then have mk: "march_year y m mod 400 = k" "march_year y m div 400 = z div 146097"
    using kr(1,2) by simp_all
  show "shifted_day y m d = z"
    unfolding shifted_day_def mk using i(1,2) by (simp add: c(2,3) month_index_no f_def e_def)
  have "days_in_month (if f = 365 then 4 else 1) (month_no i) \<le> days_in_month y m"
  proof (cases "f = 365")
    case False
    then show ?thesis by (simp add: c(2) days_in_month_le)
  next
    case True
    then have "is_leap_year (k + 1)" using f(2) by (cases "is_leap_year (k + 1)") auto
    then have "is_leap_year (march_year y m + 1)" using leap_mod [of "march_year y m"] mk by simp
    moreover have "i = 11" using True by (simp add: i_def month_of_day_def)
    ultimately show ?thesis using c(2) by (simp add: month_no_def march_year_def days_in_month_def)
  qed
  then show "valid_date y m d"
    using i month_index_no [OF i(1,2)] by (simp add: valid_date_def c(2,3))
qed

text \<open>The unchecked steps of \<open>days_from_civil\<close> wrap only where the result is out of range anyway.\<close>

lemma wrap_below:
  assumes "- (2 ^ 64) \<le> n" "n < - (2 ^ 63)"
  shows "wrap 64 n = n + 2 ^ 64"
proof -
  have "(n + 2 ^ 63) mod 2 ^ 64 = (n + 2 ^ 63 + 2 ^ 64) mod (2 ^ 64 :: int)"
    by (simp only: mod_add_self2)
  also have "\<dots> = n + 2 ^ 63 + 2 ^ 64"
    using assms by (intro mod_pos_pos_trivial) simp_all
  finally show ?thesis by (simp add: wrap_def)
qed

lemma days_from_civil_range:
  assumes "days_from_civil y m d = Some n" "fits 64 y"
  shows "- (2 ^ 63) + 400 \<le> y"
proof (rule ccontr)
  assume low: "\<not> - (2 ^ 63) + 400 \<le> y"
  define y' where "y' = wrap 64 (y - (if m \<le> 2 then 1 else 0))"
  define a where "a = (if y' \<ge> 0 then y' else wrap 64 (y' - 399))"
  have "fits 64 (a sdiv 400 * 146097)"
    using assms(1) by (auto simp: days_from_civil_def Let_def a_def y'_def checked_def split: if_splits)
  then have small: "- (2 ^ 47) < a sdiv 400" "a sdiv 400 < 2 ^ 47" by (simp_all add: fits_def)
  have y': "y' = 2 ^ 63 - 1 \<or> (- (2 ^ 63) \<le> y' \<and> y' < - (2 ^ 63) + 400)"
  proof (cases "fits 64 (y - (if m \<le> 2 then 1 else 0))")
    case True
    then show ?thesis using low by (simp add: y'_def) (auto simp: fits_def split: if_splits)
  next
    case False
    then have "y' = y - 1 + 2 ^ 64" "y = - (2 ^ 63)"
      using assms(2) wrap_below [of "y - 1"] by (auto simp: y'_def fits_def split: if_splits)
    then show ?thesis by simp
  qed
  have "a \<ge> 2 ^ 62 \<or> a \<le> - (2 ^ 62)"
  proof (cases "fits 64 (y' - 399)")
    case True
    then show ?thesis using y' by (auto simp: a_def)
  next
    case False
    then show ?thesis using y' wrap_below [of "y' - 399"] by (auto simp: a_def fits_def)
  qed
  then show False
    using small by (auto simp: signed_divide_int_def sgn_if split: if_splits)
qed

lemma days_from_civil_eq:
  assumes "- (2 ^ 63) + 400 \<le> y" "fits 64 y" "1 \<le> m" "m \<le> 12" "1 \<le> d"
  shows "days_from_civil y m d =
     (let era = march_year y m div 400 * 146097; s = shifted_day y m d
      in if fits 64 era \<and> fits 64 s \<and> fits 64 (s - 719468) then Some (s - 719468) else None)"
proof -
  let ?y = "march_year y m"
  have y: "wrap 64 (y - (if m \<le> 2 then 1 else 0)) = ?y"
    using assms(1,2) by (simp add: march_year_def fits_def)
  have "(if ?y \<ge> 0 then ?y else wrap 64 (?y - 399)) = (if 0 \<le> ?y then ?y else ?y - (400 - 1))"
    using assms(1,2) by (simp add: march_year_def fits_def)
  then have era: "(if ?y \<ge> 0 then ?y else wrap 64 (?y - 399)) sdiv 400 = ?y div 400"
    by (simp only: era_floor zero_less_numeral)
  have k: "0 \<le> ?y mod 400" "?y mod 400 < 400" by simp_all
  have yoe: "wrap 64 (?y - ?y div 400 * 400) = ?y mod 400"
    using k by (simp only: minus_div_mult_eq_mod) (rule wrap_fits, simp_all add: fits_def, linarith+)
  have start: "?y mod 400 * 365 + ?y mod 400 sdiv 4 - ?y mod 400 sdiv 100 = year_start (?y mod 400)"
    using k by (simp add: sdiv_nonneg year_start_short)
  have "0 \<le> month_index m" using assms(3,4) by (simp add: month_index_range)
  then have mp: "(153 * month_index m + 2) sdiv 5 = month_start (month_index m)"
    by (simp add: sdiv_nonneg month_start_def)
  have s: "?y div 400 * 146097 + (year_start (?y mod 400) + (month_start (month_index m) + d - 1)) =
      shifted_day y m d"
    by (simp add: shifted_day_def)
  show ?thesis
    unfolding days_from_civil_def Let_def y era yoe month_index_def [symmetric] mp start
    by (simp add: checked_def s del: add_diff_eq diff_add_eq)
qed

text \<open>
  Counting days one at a time by the lengths of the months is the reference for both
  conversions.
\<close>

definition next_day :: "civil \<Rightarrow> civil" where
  "next_day = (\<lambda>(y, m, d).
     if d < days_in_month y m then (y, m, d + 1)
     else if m < 12 then (y, m + 1, 1) else (y + 1, 1, 1))"

lemma valid_next_day: "valid_date y m d \<Longrightarrow> next_day (y, m, d) = (y', m', d') \<Longrightarrow> valid_date y' m' d'"
  by (auto simp: next_day_def valid_date_def days_in_month_def split: if_splits)

lemma year_start_era: "q * 146097 + year_start k = year_start (q * 400 + k)"
proof -
  have "q * 400 + k = k + (q * 100) * 4" "q * 400 + k = k + (q * 4) * 100" by simp_all
  then have "(q * 400 + k) div 4 = q * 100 + k div 4" "(q * 400 + k) div 100 = q * 4 + k div 100"
    by (simp_all only: div_mult_self1 zero_neq_numeral not_False_eq_True)
  moreover have "(q * 400 + k) div 400 = q + k div 400" by simp
  ultimately show ?thesis by (simp add: year_start_def)
qed

lemma shifted_day_eq:
  "shifted_day y m d = year_start (march_year y m) + month_start (month_index m) + d - 1"
  by (simp add: shifted_day_def year_start_era)

lemma month_start_step:
  assumes "1 \<le> m" "m < 12" "m \<noteq> 2"
  shows "month_start (month_index (m + 1)) = month_start (month_index m) + days_in_month y m"
    "march_year y (m + 1) = march_year y m"
proof -
  have "m = 1 \<or> m = 3 \<or> m = 4 \<or> m = 5 \<or> m = 6 \<or> m = 7 \<or> m = 8 \<or> m = 9 \<or> m = 10 \<or> m = 11"
    using assms by presburger
  then show "month_start (month_index (m + 1)) = month_start (month_index m) + days_in_month y m"
    by (elim disjE) (simp_all add: month_start_def month_index_def days_in_month_def)
  show "march_year y (m + 1) = march_year y m" using assms by (simp add: march_year_def)
qed

lemma shifted_next_day:
  assumes "valid_date y m d" "next_day (y, m, d) = (y', m', d')"
  shows "shifted_day y' m' d' = shifted_day y m d + 1"
proof (cases "d < days_in_month y m")
  case True
  then show ?thesis using assms(2) by (auto simp: next_day_def shifted_day_def)
next
  case False
  then have d: "d = days_in_month y m" "1 \<le> m" "m \<le> 12" using assms(1) by (auto simp: valid_date_def)
  consider "m = 2" | "m = 12" | "m < 12" "m \<noteq> 2" using d(3) by linarith
  then show ?thesis
  proof cases
    case 1
    have "year_start y - year_start (y - 1) = 365 + of_bool (is_leap_year y)"
      using year_start_step [of "y - 1"] by simp
    then show ?thesis
      using 1 assms(2) d(1) by (simp add: next_day_def days_in_month_def shifted_day_eq month_index_def month_start_def
          march_year_def split: if_splits)
  next
    case 2
    then show ?thesis
      using assms(2) d(1) by (auto simp: next_day_def days_in_month_def shifted_day_eq month_index_def
          month_start_def march_year_def)
  next
    case 3
    then show ?thesis
      using assms(2) d False month_start_step [of m y] by (auto simp: next_day_def shifted_day_eq)
  qed
qed

lemma civil_of_shifted_step: "civil_of_shifted (z + 1) = next_day (civil_of_shifted z)"
proof -
  obtain y m d where c: "civil_of_shifted z = (y, m, d)" by (cases "civil_of_shifted z")
  obtain y' m' d' where n: "next_day (y, m, d) = (y', m', d')" by (cases "next_day (y, m, d)")
  note z = shifted_day_of_civil [OF c]
  have "civil_of_shifted (shifted_day y' m' d') = (y', m', d')"
    by (rule civil_of_shifted_day) (rule valid_next_day [OF z(1) n])
  then show ?thesis by (simp add: shifted_next_day [OF z(1) n] z(2) c n)
qed

lemma civil_of_shifted_steps: "civil_of_shifted (z + int k) = (next_day ^^ k) (civil_of_shifted z)"
proof (induction k)
  case (Suc k)
  have "z + int (Suc k) = (z + int k) + 1" by simp
  then show ?case by (simp only: civil_of_shifted_step Suc.IH funpow.simps comp_apply)
qed simp

lemma civil_of_shifted_bounds:
  assumes "civil_of_shifted z = (y, m, d)" "fits 64 z"
  shows "- (2 ^ 63) + 400 \<le> y" "fits 64 y" "march_year y m div 400 = z div 146097"
proof -
  define k where "k = year_of_day (z mod 146097)"
  have k: "0 \<le> k" "k < 400"
    using year_of_day_range [of "z mod 146097"] by (simp_all add: k_def)
  obtain b :: int where y: "y = k + z div 146097 * 400 + b" "0 \<le> b" "b \<le> 1" "march_year y m = k + z div 146097 * 400"
    using assms(1) by (force simp: civil_of_shifted_eq Let_def k_def march_year_def split: if_splits)
  then show "march_year y m div 400 = z div 146097" using k by simp
  show "- (2 ^ 63) + 400 \<le> y" "fits 64 y"
    using k y(1-3) assms(2) by (auto simp: fits_def)
qed

section \<open>Properties\<close>

text \<open>
  On valid dates and 64-bit day numbers \<open>days_from_civil\<close> and \<open>civil_from_days\<close> are
  inverse to each other: a valid date has the day number \<open>n\<close> exactly when the day number \<open>n\<close>
  is converted to that date.  In particular every date \<open>civil_from_days\<close> returns is valid, and
  the unchecked steps of \<open>days_from_civil\<close> never give a wrong number.
\<close>

theorem civil_days_inverse:
  "valid_date y m d \<and> fits 64 y \<and> days_from_civil y m d = Some n \<longleftrightarrow>
   fits 64 n \<and> civil_from_days n = Some (y, m, d)"
proof
  assume a: "valid_date y m d \<and> fits 64 y \<and> days_from_civil y m d = Some n"
  then have "1 \<le> m" "m \<le> 12" "1 \<le> d" by (simp_all add: valid_date_def)
  with a have "n = shifted_day y m d - 719468" "fits 64 (shifted_day y m d)" "fits 64 n"
    using days_from_civil_range [of y m d n] days_from_civil_eq [of y m d]
    by (auto simp: Let_def split: if_splits)
  with a show "fits 64 n \<and> civil_from_days n = Some (y, m, d)"
    by (simp add: civil_from_days_def civil_of_shifted_day)
next
  assume b: "fits 64 n \<and> civil_from_days n = Some (y, m, d)"
  then have z: "civil_of_shifted (n + 719468) = (y, m, d)" "fits 64 (n + 719468)"
    by (auto simp: civil_from_days_def checked_def split: if_splits)
  note c = shifted_day_of_civil [OF z(1)] and r = civil_of_shifted_bounds [OF z]
  have "fits 64 ((n + 719468) div 146097 * 146097)"
    using b z(2) by (auto simp: fits_def)
  then have "days_from_civil y m d = Some n"
    using days_from_civil_eq [OF r(1,2)] c b z(2) r(3) by (simp add: valid_date_def Let_def)
  with c r show "valid_date y m d \<and> fits 64 y \<and> days_from_civil y m d = Some n" by simp
qed

text \<open>
  C21: The conversion from day numbers agrees with counting days: day 0 is 1970-01-01, and the
  date \<open>k\<close> days after day \<open>n\<close> is the date of day \<open>n\<close> advanced \<open>k\<close> times to the next day by
  the month lengths and the leap-year rule.
\<close>

theorem calendar_counts_days:
  assumes "fits 64 (n + 719468)" "fits 64 (n + int k + 719468)"
  shows "civil_from_days (n + int k) = map_option (next_day ^^ k) (civil_from_days n) \<and>
    civil_from_days 0 = Some (1970, 1, 1)"
proof
  show "civil_from_days (n + int k) = map_option (next_day ^^ k) (civil_from_days n)"
    using assms by (simp add: civil_from_days_def flip: civil_of_shifted_steps) (simp add: ac_simps)
  show "civil_from_days 0 = Some (1970, 1, 1)" by code_simp
qed

theorem calendar_counts_days_witness:
  "civil_from_days (- 1) = Some (1969, 12, 31) \<and> civil_from_days 59 = Some (1970, 3, 1) \<and>
   (next_day ^^ 60) (1969, 12, 31) = (1970, 3, 1)"
proof -
  have "civil_from_days (- 1) = Some (1969, 12, 31)" "civil_from_days 59 = Some (1970, 3, 1)" by code_simp+
  moreover have "civil_from_days (- 1 + int 60) = map_option (next_day ^^ 60) (civil_from_days (- 1))"
    using calendar_counts_days [of "- 1" 60] by (simp add: fits_def)
  ultimately show ?thesis by simp
qed

end
