(* ===== verification/Interval_Text.thy ===== *)
theory Interval_Text
  imports Civil_Calendar
begin

text \<open>
  Intervals of \<open>src/src/ir/runtime/scalar/temporal.rs\<close>: the parser of interval literals with
  its error messages, the accumulation of amounts with the range checks of every field, and the
  printer.  An interval that is printed is parsed back unchanged, and every interval the parser
  returns is within the ranges of its fields.
\<close>

section \<open>Data\<close>

record interval_parts =
  ip_months :: int
  ip_days :: int
  ip_micros :: int

definition interval_default :: interval_parts where
  "interval_default = \<lparr>ip_months = 0, ip_days = 0, ip_micros = 0\<rparr>"

text \<open>\<open>IntervalParseError\<close> carries its message.\<close>

type_synonym interval_error = string

definition err_empty_string :: interval_error where
  "err_empty_string = ''Conversion exception: Error occurred during parsing interval. Given empty string.''"

definition err_generic :: "string \<Rightarrow> interval_error" where
  "err_generic raw =
     ''Conversion exception: Error occurred during parsing interval. Given: '' @ [CHR 0x22] @ raw @ [CHR 0x22] @ ''.''"

definition err_field_name_missing :: interval_error where
  "err_field_name_missing =
     ''Conversion exception: Error occurred during parsing interval. Field name is missing.''"

definition err_unrecognized_unit :: "string \<Rightarrow> interval_error" where
  "err_unrecognized_unit u = ''Conversion exception: Unrecognized interval specifier string: '' @ u @ ''.''"

definition err_time :: "string \<Rightarrow> interval_error" where
  "err_time raw =
     ''Conversion exception: Error occurred during parsing time. Given: '' @ [CHR 0x22] @ raw @ [CHR 0x22] @ ''.''"

definition err_cast_int64 :: "string \<Rightarrow> interval_error" where
  "err_cast_int64 raw =
     ''Conversion exception: Cast failed. Could not convert '' @ [CHR 0x22] @ raw @ [CHR 0x22] @ '' to INT64.''"

definition err_int32_range :: "int \<Rightarrow> interval_error" where
  "err_int32_range n = ''Overflow exception: Value '' @ show_int n @ '' is not within INT32 range''"

definition err_interval_range :: interval_error where
  "err_interval_range = ''Overflow exception: Interval value is out of range''"

definition err_interval_fraction_range :: interval_error where
  "err_interval_fraction_range = ''Overflow exception: Interval fraction is out of range''"

record decimal_amount =
  da_numerator :: int
  da_scale :: int

datatype interval_unit = IU_Months int | IU_Days int | IU_Micros int

datatype interval_value_token = ValueOnly decimal_amount | ValueAndUnit decimal_amount string

definition MICROS_PER_DAY :: int where
  "MICROS_PER_DAY = 86400000000"

section \<open>Numbers in interval text\<close>

definition parse_fraction_micros :: "string \<Rightarrow> int option" where
  "parse_fraction_micros fraction =
     (let digits = take 6 (takeWhile is_ascii_digit fraction)
      in if digits = [] then Some 0
         else parse_signed 64 (digits @ replicate (6 - length digits) (CHR ''0'')))"

text \<open>The length of the longest prefix of digits with at most one point, and whether it has a digit.\<close>

fun numeric_prefix :: "bool \<Rightarrow> bool \<Rightarrow> string \<Rightarrow> bool \<times> nat" where
  "numeric_prefix saw_digit saw_dot [] = (saw_digit, 0)"
| "numeric_prefix saw_digit saw_dot (c # cs) =
     (if is_ascii_digit c then map_prod id Suc (numeric_prefix True saw_dot cs)
      else if c = CHR ''.'' \<and> \<not> saw_dot then map_prod id Suc (numeric_prefix saw_digit True cs)
      else (saw_digit, 0))"

definition interval_numeric_prefix_len :: "string \<Rightarrow> nat option" where
  "interval_numeric_prefix_len part =
     (let sign = (if part \<noteq> [] \<and> hd part \<in> {CHR ''+'', CHR ''-''} then 1 else 0)
      in case numeric_prefix False False (drop sign part) of
           (saw_digit, n) \<Rightarrow> if saw_digit then Some (sign + n) else None)"

definition parse_decimal_amount :: "string \<Rightarrow> interval_error + decimal_amount" where
  "parse_decimal_amount raw =
     (let negative = prefix ''-'' raw;
          unsigned = dropWhile (\<lambda>c. c \<in> {CHR ''+'', CHR ''-''}) raw;
          (whole_text, fraction_text) = (case split_once (CHR ''.'') unsigned of
             Some p \<Rightarrow> p | None \<Rightarrow> (unsigned, []));
          whole_text = (if whole_text = [] then ''0'' else whole_text)
      in if \<not> list_all is_ascii_digit whole_text \<or> \<not> list_all is_ascii_digit fraction_text
         then Inl (err_generic raw)
         else if length fraction_text > 18 then Inl (err_cast_int64 raw)
         else
           bind_res (ok_or (parse_signed 128 whole_text) (err_cast_int64 raw)) (\<lambda>whole.
           bind_res (ok_or (checked 128 (10 ^ length fraction_text)) (err_cast_int64 raw)) (\<lambda>scale.
           bind_res (if fraction_text = [] then Inr 0
                     else ok_or (parse_signed 128 fraction_text) (err_cast_int64 raw)) (\<lambda>fraction.
           bind_res (ok_or (case checked 128 (whole * scale) of
                              None \<Rightarrow> None | Some v \<Rightarrow> checked 128 (v + fraction)) (err_cast_int64 raw))
             (\<lambda>unsigned_numerator.
           bind_res (ok_or (checked 128 ((2 ^ 63 - 1) * scale)) (err_cast_int64 raw)) (\<lambda>max_scaled.
             if unsigned_numerator > max_scaled then Inl (err_cast_int64 raw)
             else Inr \<lparr>da_numerator = (if negative then - unsigned_numerator else unsigned_numerator),
                        da_scale = scale\<rparr>))))))"

definition split_interval_value_unit :: "string \<Rightarrow> string \<Rightarrow> interval_error + interval_value_token" where
  "split_interval_value_unit part raw =
     (case interval_numeric_prefix_len part of
        None \<Rightarrow> Inl (err_generic raw)
      | Some n \<Rightarrow>
          bind_res (parse_decimal_amount (take n part)) (\<lambda>amount.
            let u = drop n part
            in if u = [] then Inr (ValueOnly amount)
               else Inr (ValueAndUnit amount (to_ascii_lowercase u))))"

definition normalize_interval_unit :: "string \<Rightarrow> interval_unit option" where
  "normalize_interval_unit u =
     (if u \<in> {''year'', ''years'', ''y'', ''yr'', ''yrs''} then Some (IU_Months 12)
      else if u \<in> {''month'', ''months'', ''mon'', ''mons''} then Some (IU_Months 1)
      else if u \<in> {''quarter'', ''quarters''} then Some (IU_Months 3)
      else if u \<in> {''decade'', ''decades''} then Some (IU_Months 120)
      else if u \<in> {''century'', ''centuries''} then Some (IU_Months 1200)
      else if u \<in> {''millennium'', ''millenniums'', ''millennia''} then Some (IU_Months 12000)
      else if u \<in> {''week'', ''weeks''} then Some (IU_Days 7)
      else if u \<in> {''day'', ''days'', ''d''} then Some (IU_Days 1)
      else if u \<in> {''hour'', ''hours'', ''h'', ''hr'', ''hrs''} then Some (IU_Micros 3600000000)
      else if u \<in> {''minute'', ''minutes'', ''m'', ''min'', ''mins''} then Some (IU_Micros 60000000)
      else if u \<in> {''second'', ''seconds'', ''s'', ''sec'', ''secs''} then Some (IU_Micros 1000000)
      else if u \<in> {''millisecond'', ''milliseconds'', ''millis'', ''msec'', ''msecs'', ''ms''}
        then Some (IU_Micros 1000)
      else if u \<in> {''microsecond'', ''microseconds'', ''micros'', ''usec'', ''usecs'', ''us'',
                   [CHR 0xC2, CHR 0xB5, CHR ''s'']}
        then Some (IU_Micros 1)
      else None)"

section \<open>Accumulating amounts\<close>

definition range_error :: "bool \<Rightarrow> interval_error \<Rightarrow> interval_error" where
  "range_error from_fraction e = (if from_fraction then err_interval_fraction_range else e)"

definition add_i32_component :: "int \<Rightarrow> int \<Rightarrow> bool \<Rightarrow> interval_error + int" where
  "add_i32_component target component from_fraction =
     (if \<not> fits 32 component then Inl (range_error from_fraction (err_int32_range component))
      else
        bind_res (ok_or (checked 128 (target + component)) err_interval_range) (\<lambda>next.
          if \<not> fits 32 next then Inl (range_error from_fraction err_interval_range)
          else Inr next))"

definition add_interval_months :: "interval_parts \<Rightarrow> int \<Rightarrow> bool \<Rightarrow> interval_error + interval_parts" where
  "add_interval_months iv component from_fraction =
     bind_res (add_i32_component (ip_months iv) component from_fraction) (\<lambda>n. Inr (iv\<lparr>ip_months := n\<rparr>))"

definition add_days :: "interval_parts \<Rightarrow> int \<Rightarrow> bool \<Rightarrow> interval_error + interval_parts" where
  "add_days iv component from_fraction =
     bind_res (add_i32_component (ip_days iv) component from_fraction) (\<lambda>n. Inr (iv\<lparr>ip_days := n\<rparr>))"

definition add_micros :: "interval_parts \<Rightarrow> int \<Rightarrow> bool \<Rightarrow> interval_error + interval_parts" where
  "add_micros iv component from_fraction =
     (if \<not> fits 64 component then Inl (range_error from_fraction err_interval_range)
      else
        bind_res (ok_or (checked 128 (ip_micros iv + component)) err_interval_range) (\<lambda>next.
          if \<not> fits 64 next then Inl (range_error from_fraction err_interval_range)
          else Inr (iv\<lparr>ip_micros := next\<rparr>)))"

definition round_div :: "int \<Rightarrow> int \<Rightarrow> int option" where
  "round_div numerator denominator =
     (let quotient = numerator sdiv denominator;
          remainder = numerator smod denominator
      in case checked 128 (\<bar>remainder\<bar> * 2) of
           None \<Rightarrow> None
         | Some doubled \<Rightarrow>
             if doubled \<ge> \<bar>denominator\<bar>
             then checked 128 (quotient + (if numerator < 0 then - 1 else 1))
             else Some quotient)"

definition add_days_and_fraction ::
  "interval_parts \<Rightarrow> int \<Rightarrow> int \<Rightarrow> bool \<Rightarrow> interval_error + interval_parts" where
  "add_days_and_fraction iv day_numerator scale from_fraction =
     (let whole_days = day_numerator sdiv scale;
          day_remainder = day_numerator smod scale
      in bind_res (add_days iv whole_days from_fraction) (\<lambda>iv.
           if day_remainder \<noteq> 0 then
             bind_res (ok_or (case checked 128 (day_remainder * MICROS_PER_DAY) of
                                None \<Rightarrow> None | Some v \<Rightarrow> round_div v scale) err_interval_fraction_range)
               (\<lambda>micros. add_micros iv micros from_fraction)
           else Inr iv))"

definition add_interval_amount ::
  "interval_parts \<Rightarrow> decimal_amount \<Rightarrow> interval_unit \<Rightarrow> interval_error + interval_parts" where
  "add_interval_amount iv amount u =
     (case u of
        IU_Months factor \<Rightarrow>
          bind_res (ok_or (checked 128 (da_numerator amount * factor)) err_interval_range) (\<lambda>total_months.
            let whole_months = total_months sdiv da_scale amount;
                month_remainder = total_months smod da_scale amount
            in bind_res (add_interval_months iv whole_months False) (\<lambda>iv.
                 if month_remainder \<noteq> 0 then
                   bind_res (ok_or (checked 128 (month_remainder * 30)) err_interval_fraction_range)
                     (\<lambda>fractional_days. add_days_and_fraction iv fractional_days (da_scale amount) True)
                 else Inr iv))
      | IU_Days factor \<Rightarrow>
          bind_res (ok_or (checked 128 (da_numerator amount * factor)) err_interval_range) (\<lambda>total_days.
            add_days_and_fraction iv total_days (da_scale amount) False)
      | IU_Micros factor \<Rightarrow>
          bind_res (ok_or (checked 128 (da_numerator amount * factor)) err_interval_range) (\<lambda>total_micros.
          bind_res (ok_or (round_div total_micros (da_scale amount)) err_interval_range) (\<lambda>micros.
            add_micros iv micros False)))"

section \<open>Parsing\<close>

definition parse_interval_fraction_micros_strict :: "string \<Rightarrow> string \<Rightarrow> interval_error + int" where
  "parse_interval_fraction_micros_strict fraction raw =
     (if fraction = [] then Inr 0
      else if \<not> list_all is_ascii_digit fraction then Inl (err_time raw)
      else ok_or (parse_fraction_micros fraction) (err_time raw))"

text \<open>\<open>clock_micros\<close> is the chain of checked operations of \<open>parse_interval_time_strict\<close>.\<close>

definition checked_then :: "int option \<Rightarrow> (int \<Rightarrow> int option) \<Rightarrow> int option" where
  "checked_then m f = (case m of None \<Rightarrow> None | Some v \<Rightarrow> f v)"

definition clock_micros :: "int \<Rightarrow> int \<Rightarrow> int \<Rightarrow> int \<Rightarrow> int \<Rightarrow> int option" where
  "clock_micros hours minutes seconds micros sign =
     checked_then (checked_then (checked_then (checked_then
       (checked 128 (hours * 3600000000))
       (\<lambda>v. checked_then (checked 128 (minutes * 60000000)) (\<lambda>m. checked 128 (v + m))))
       (\<lambda>v. checked_then (checked 128 (seconds * 1000000)) (\<lambda>s. checked 128 (v + s))))
       (\<lambda>v. checked 128 (v + micros)))
       (\<lambda>v. checked 128 (v * sign))"

definition parse_interval_time_strict :: "string \<Rightarrow> interval_error + int" where
  "parse_interval_time_strict raw =
     (let (sign, text) = (if prefix ''-'' raw then (- 1, tl raw) else (1, raw))
      in case split_on (CHR '':'') text of
           [hours_text, minutes_text, last_text] \<Rightarrow>
             bind_res (ok_or (parse_signed 128 hours_text) (err_time raw)) (\<lambda>hours.
             bind_res (ok_or (parse_signed 128 minutes_text) (err_time raw)) (\<lambda>minutes.
             let (seconds_text, fraction) = (case split_once (CHR ''.'') last_text of
                   Some p \<Rightarrow> p | None \<Rightarrow> (last_text, []))
             in bind_res (ok_or (parse_signed 128 seconds_text) (err_time raw)) (\<lambda>seconds.
                bind_res (parse_interval_fraction_micros_strict fraction raw) (\<lambda>micros.
                bind_res (ok_or (clock_micros hours minutes seconds micros sign) (err_time raw)) (\<lambda>v.
                  if fits 64 v then Inr v else Inl (err_time raw))))))
         | _ \<Rightarrow> Inl (err_time raw))"

text \<open>The loop of \<open>parse_interval_strict\<close> over the words of the text.\<close>

fun parse_interval_words :: "string \<Rightarrow> interval_parts \<Rightarrow> string list \<Rightarrow> interval_error + interval_parts" where
  "parse_interval_words raw iv [] = Inr iv"
| "parse_interval_words raw iv (part # rest) =
     (if CHR '':'' \<in> set part then
        (if rest \<noteq> [] then Inl (err_time (unwords (part # rest)))
         else bind_res (parse_interval_time_strict part) (\<lambda>v. add_micros iv v False))
      else
        bind_res (split_interval_value_unit part raw) (\<lambda>token.
          case token of
            ValueOnly amount \<Rightarrow>
              (case rest of
                 [] \<Rightarrow> Inl err_field_name_missing
               | unit_text # rest' \<Rightarrow>
                   (case normalize_interval_unit (to_ascii_lowercase unit_text) of
                      None \<Rightarrow> Inl (err_unrecognized_unit (to_ascii_lowercase unit_text))
                    | Some u \<Rightarrow>
                        bind_res (add_interval_amount iv amount u) (\<lambda>iv. parse_interval_words raw iv rest')))
          | ValueAndUnit amount unit_text \<Rightarrow>
              (case normalize_interval_unit unit_text of
                 None \<Rightarrow> Inl (err_unrecognized_unit unit_text)
               | Some u \<Rightarrow> bind_res (add_interval_amount iv amount u) (\<lambda>iv. parse_interval_words raw iv rest))))"

definition parse_interval_strict :: "string \<Rightarrow> interval_error + interval_parts" where
  "parse_interval_strict raw =
     (if raw = [] then Inl err_empty_string
      else if trim raw = [] then Inl (err_generic raw)
      else parse_interval_words raw interval_default (split_whitespace (trim raw)))"

definition parse_interval :: "string \<Rightarrow> interval_parts option" where
  "parse_interval raw = (case parse_interval_strict raw of Inl _ \<Rightarrow> None | Inr iv \<Rightarrow> Some iv)"

section \<open>Printing\<close>

definition drop_trailing_zeros :: "string \<Rightarrow> string" where
  "drop_trailing_zeros s = rev (dropWhile (\<lambda>c. c = CHR ''0'') (rev s))"

definition trim_fraction :: "int \<Rightarrow> string" where
  "trim_fraction fraction = drop_trailing_zeros (show_padded 6 fraction)"

definition format_interval_time :: "int \<Rightarrow> string" where
  "format_interval_time micros =
     (let sign = (if micros < 0 then ''-'' else []);
          a = \<bar>micros\<bar>;
          hours = a sdiv 3600000000;
          minutes = (a smod 3600000000) sdiv 60000000;
          seconds = (a smod 60000000) sdiv 1000000;
          fraction = a smod 1000000;
          clock = sign @ show_padded 2 hours @ '':'' @ show_padded 2 minutes @ '':'' @ show_padded 2 seconds
      in if fraction = 0 then clock else clock @ ''.'' @ trim_fraction fraction)"

definition counted :: "int \<Rightarrow> string \<Rightarrow> string list" where
  "counted n u = (if n \<noteq> 0 then [show_int n, if \<bar>n\<bar> = 1 then u else u @ ''s''] else [])"

definition format_interval :: "interval_parts \<Rightarrow> string" where
  "format_interval iv =
     (let parts = counted (ip_months iv sdiv 12) ''year'' @ counted (ip_months iv smod 12) ''month''
            @ counted (ip_days iv) ''day''
      in unwords (parts @ (if ip_micros iv \<noteq> 0 \<or> parts = [] then [format_interval_time (ip_micros iv)] else [])))"

section \<open>Numbers are read back\<close>

lemma length_show_nat: "n < 10 ^ Suc k \<Longrightarrow> length (show_nat n) \<le> Suc k"
proof (induction k arbitrary: n)
  case 0
  then show ?case by (simp add: show_nat.simps)
next
  case (Suc k)
  show ?case
  proof (cases "n < 10")
    case False
    have "n div 10 < 10 ^ Suc k" using Suc.prems by (simp add: less_mult_imp_div_less mult.commute)
    with False Suc.IH [of "n div 10"] show ?thesis by (simp add: show_nat.simps [of n])
  qed (simp add: show_nat.simps)
qed

lemma length_show_padded_6:
  assumes "0 \<le> f" "f < 1000000"
  shows "length (show_padded 6 f) = 6"
  using assms length_show_nat [of "nat f" 5] by (simp add: show_padded_def pad_zeros_def)

lemma drop_trailing_zeros_pad:
  "drop_trailing_zeros s @ replicate (length s - length (drop_trailing_zeros s)) (CHR ''0'') = s"
proof -
  let ?z = "takeWhile (\<lambda>c. c = CHR ''0'') (rev s)"
  have z: "?z = replicate (length ?z) (CHR ''0'')"
    by (rule replicate_length_same [symmetric]) (auto dest: set_takeWhileD)
  have r: "rev s = ?z @ dropWhile (\<lambda>c. c = CHR ''0'') (rev s)" by simp
  then have s: "s = drop_trailing_zeros s @ rev ?z"
    by (metis drop_trailing_zeros_def rev_append rev_rev_ident)
  moreover have "length s - length (drop_trailing_zeros s) = length ?z"
    using arg_cong [OF s, of length] by simp
  moreover have "rev ?z = replicate (length ?z) (CHR ''0'')"
    by (subst z) simp
  ultimately show ?thesis by (metis (no_types))
qed

lemma set_drop_trailing_zeros: "set (drop_trailing_zeros s) \<subseteq> set s"
  by (auto simp: drop_trailing_zeros_def dest: set_dropWhileD)

lemma digits_trim_fraction: "0 \<le> f \<Longrightarrow> list_all is_ascii_digit (trim_fraction f)"
  using set_drop_trailing_zeros [of "show_padded 6 f"] digits_show_padded [of f 6]
  by (auto simp: trim_fraction_def list_all_iff)

lemma trim_fraction_nonempty:
  assumes "0 < f" "f < 1000000"
  shows "trim_fraction f \<noteq> []"
proof
  assume "trim_fraction f = []"
  with drop_trailing_zeros_pad [of "show_padded 6 f"]
  have "show_padded 6 f = replicate (length (show_padded 6 f)) (CHR ''0'') @ []"
    by (simp add: trim_fraction_def)
  then have "parse_digits 0 (show_padded 6 f) = Some 0"
    by (metis parse_digits.simps(1) parse_digits_zeros)
  with assms show False by (simp add: show_padded_def parse_digits_pad_zeros)
qed

lemma parse_fraction_trim:
  assumes "0 < f" "f < 1000000"
  shows "parse_fraction_micros (trim_fraction f) = Some f"
proof -
  let ?s = "show_padded 6 f"
  have len: "length ?s = 6" using assms by (simp add: length_show_padded_6)
  have "length (trim_fraction f) \<le> 6"
    using arg_cong [OF drop_trailing_zeros_pad [of ?s], of length] len by (simp add: trim_fraction_def)
  moreover have tw: "takeWhile is_ascii_digit (trim_fraction f) = trim_fraction f"
    using digits_trim_fraction [of f] assms(1) by (simp add: takeWhile_eq_all_conv list_all_iff)
  moreover have "trim_fraction f @ replicate (6 - length (trim_fraction f)) (CHR ''0'') = ?s"
    using drop_trailing_zeros_pad [of ?s] len by (simp add: trim_fraction_def)
  ultimately show ?thesis
    using trim_fraction_nonempty [OF assms] assms unfolding parse_fraction_micros_def Let_def tw
    by (simp add: parse_signed_show_padded fits_def)
qed

lemma numeric_prefix_digits:
  "list_all is_ascii_digit ds \<Longrightarrow> numeric_prefix b dot ds = (b \<or> ds \<noteq> [], length ds)"
  by (induction ds arbitrary: b) auto

lemma split_once_none: "c \<notin> set s \<Longrightarrow> split_once c s = None"
  by (induction s) auto

lemma show_int_sign:
  "show_int n = (if n < 0 then ''-'' else []) @ show_nat (nat \<bar>n\<bar>)"
  by (simp add: show_int_def)

lemma hd_show_nat: "hd (show_nat n) \<noteq> CHR ''-'' \<and> hd (show_nat n) \<noteq> CHR ''+''"
  using show_nat_first [of n "hd (show_nat n)" "tl (show_nat n)"] by simp

lemma dropWhile_sign_show_nat: "dropWhile (\<lambda>c. c = CHR ''+'' \<or> c = CHR ''-'') (show_nat n) = show_nat n"
  using hd_show_nat [of n] by (simp add: dropWhile_eq_self_iff)

lemma interval_numeric_prefix_len_show_int:
  "interval_numeric_prefix_len (show_int n) = Some (length (show_int n))"
  using hd_show_nat [of "nat n"]
  by (cases "n < 0") (simp_all add: interval_numeric_prefix_len_def show_int_sign
      numeric_prefix_digits [OF digits_show_nat])

lemma parse_decimal_amount_show_int:
  assumes "\<bar>n\<bar> < 2 ^ 63"
  shows "parse_decimal_amount (show_int n) = Inr \<lparr>da_numerator = n, da_scale = 1\<rparr>"
proof -
  let ?ds = "show_nat (nat \<bar>n\<bar>)"
  have neg: "prefix ''-'' (show_int n) \<longleftrightarrow> n < 0"
    using hd_show_nat [of "nat \<bar>n\<bar>"] by (cases ?ds) (auto simp: show_int_sign)
  have unsigned: "dropWhile (\<lambda>c. c \<in> {CHR ''+'', CHR ''-''}) (show_int n) = ?ds"
    by (simp add: show_int_sign dropWhile_sign_show_nat)
  have once: "split_once (CHR ''.'') ?ds = None"
    by (intro split_once_none digits_notin [OF digits_show_nat]) simp
  have "parse_int ?ds = Some \<bar>n\<bar>"
    by (simp add: parse_int_digits digits_show_nat parse_digits_show_nat)
  then have whole: "parse_signed 128 ?ds = Some \<bar>n\<bar>"
    using assms by (simp add: parse_signed_def fits_def)
  have "fits 128 \<bar>n\<bar>" using assms by (simp add: fits_def)
  then show ?thesis
    unfolding parse_decimal_amount_def Let_def neg unsigned once
    using assms by (simp add: digits_show_nat whole) (simp add: fits_def checked_def)
qed

lemma split_interval_value_unit_show_int:
  "\<bar>n\<bar> < 2 ^ 63 \<Longrightarrow>
    split_interval_value_unit (show_int n) raw = Inr (ValueOnly \<lparr>da_numerator = n, da_scale = 1\<rparr>)"
  by (simp add: split_interval_value_unit_def interval_numeric_prefix_len_show_int
      parse_decimal_amount_show_int)

lemma colon_notin_show_int: "CHR '':'' \<notin> set (show_int n)"
  using digits_notin [OF digits_show_nat, of "CHR '':''" "nat \<bar>n\<bar>"] by (simp add: show_int_sign)

lemma graphic_show_int: "list_all graphic (show_int n)"
  using digits_graphic [OF digits_show_nat, of "nat \<bar>n\<bar>"] by (simp add: show_int_sign graphic_def)

lemma show_int_nonempty [simp]: "show_int n \<noteq> []"
  by (simp add: show_int_def)

section \<open>Every field stays in its range\<close>

definition interval_ok :: "interval_parts \<Rightarrow> bool" where
  "interval_ok iv \<longleftrightarrow> fits 32 (ip_months iv) \<and> fits 32 (ip_days iv) \<and> fits 64 (ip_micros iv)"

lemma interval_ok_default: "interval_ok interval_default"
  by (simp add: interval_ok_def interval_default_def fits_def)

lemma add_i32_component_ok: "add_i32_component t c b = Inr n \<Longrightarrow> fits 32 n"
  by (auto simp: add_i32_component_def bind_res_eq_Inr split: if_splits)

lemma add_interval_months_ok: "add_interval_months iv c b = Inr iv' \<Longrightarrow> interval_ok iv \<Longrightarrow> interval_ok iv'"
  by (auto simp: add_interval_months_def bind_res_eq_Inr interval_ok_def dest: add_i32_component_ok)

lemma add_days_ok: "add_days iv c b = Inr iv' \<Longrightarrow> interval_ok iv \<Longrightarrow> interval_ok iv'"
  by (auto simp: add_days_def bind_res_eq_Inr interval_ok_def dest: add_i32_component_ok)

lemma add_micros_ok: "add_micros iv c b = Inr iv' \<Longrightarrow> interval_ok iv \<Longrightarrow> interval_ok iv'"
  by (auto simp: add_micros_def bind_res_eq_Inr interval_ok_def split: if_splits)

lemma add_days_and_fraction_ok:
  "add_days_and_fraction iv n s b = Inr iv' \<Longrightarrow> interval_ok iv \<Longrightarrow> interval_ok iv'"
  by (auto simp: add_days_and_fraction_def Let_def bind_res_eq_Inr split: if_splits
      dest: add_days_ok add_micros_ok)

lemma add_interval_amount_ok:
  "add_interval_amount iv a u = Inr iv' \<Longrightarrow> interval_ok iv \<Longrightarrow> interval_ok iv'"
  by (cases u) (auto simp: add_interval_amount_def Let_def bind_res_eq_Inr split: if_splits
      dest: add_interval_months_ok add_days_and_fraction_ok add_micros_ok)

lemma parse_interval_words_ok:
  "parse_interval_words raw iv ws = Inr iv' \<Longrightarrow> interval_ok iv \<Longrightarrow> interval_ok iv'"
proof (induction ws arbitrary: iv rule: length_induct)
  case (1 ws)
  show ?case
  proof (cases ws)
    case (Cons part rest)
    show ?thesis
    proof (cases "CHR '':'' \<in> set part")
      case True
      with 1 Cons show ?thesis by (auto simp: bind_res_eq_Inr split: if_splits dest: add_micros_ok)
    next
      case False
      with 1(2) Cons obtain token where t: "split_interval_value_unit part raw = Inr token"
        by (auto simp: bind_res_eq_Inr)
      obtain a u rest' iv1 where
        "add_interval_amount iv a u = Inr iv1" "parse_interval_words raw iv1 rest' = Inr iv'"
        "length rest' < length ws"
      proof (cases token)
        case (ValueOnly x)
        then show ?thesis
          using 1(2) Cons False t that by (cases rest) (auto simp: bind_res_eq_Inr split: option.splits)
      next
        case (ValueAndUnit x u)
        then show ?thesis
          using 1(2) Cons False t that by (auto simp: bind_res_eq_Inr split: option.splits)
      qed
      with 1 show ?thesis using add_interval_amount_ok by blast
    qed
  qed (use 1 in auto)
qed

section \<open>Printed intervals are read back\<close>

lemma checked_then_Some [simp]: "checked_then (Some v) f = f v"
  by (simp add: checked_then_def)

lemma clock_micros_eq:
  assumes "0 \<le> h" "h \<le> 2 ^ 63" "0 \<le> m" "m < 60" "0 \<le> s" "s < 60" "0 \<le> f" "f < 1000000" "sign = 1 \<or> sign = - 1"
  shows "clock_micros h m s f sign = Some ((h * 3600000000 + m * 60000000 + s * 1000000 + f) * sign)"
proof -
  let ?v = "h * 3600000000 + m * 60000000 + s * 1000000 + f"
  have "0 \<le> ?v" "?v \<le> 2 ^ 63 * 3600000000 + 60 * 60000000 + 60 * 1000000 + 1000000"
    using assms by simp_all
  then have f: "fits 128 (h * 3600000000)" "fits 128 (m * 60000000)" "fits 128 (s * 1000000)"
      "fits 128 (h * 3600000000 + m * 60000000)" "fits 128 (h * 3600000000 + m * 60000000 + s * 1000000)"
      "fits 128 ?v" "fits 128 (?v * sign)"
    using assms by (auto simp: fits_def)
  show ?thesis by (simp only: clock_micros_def checked_fits [OF f(1)] checked_fits [OF f(2)]
      checked_fits [OF f(3)] checked_fits [OF f(4)] checked_fits [OF f(5)] checked_fits [OF f(6)]
      checked_fits [OF f(7)] checked_then_Some)
qed

text \<open>The decimal clock of a non-negative number of microseconds.\<close>

definition clock_text :: "int \<Rightarrow> string" where
  "clock_text a =
     show_padded 2 (a div 3600000000) @ '':'' @ show_padded 2 (a mod 3600000000 div 60000000) @ '':'' @
     show_padded 2 (a mod 60000000 div 1000000) @
     (if a mod 1000000 = 0 then [] else ''.'' @ trim_fraction (a mod 1000000))"

lemma smod_nonneg: "0 \<le> a \<Longrightarrow> 0 < b \<Longrightarrow> a smod b = a mod (b :: int)"
  by (cases "a = 0") (simp_all add: signed_modulo_int_def)

lemma format_interval_time_eq:
  "format_interval_time m = (if m < 0 then ''-'' else []) @ clock_text \<bar>m\<bar>"
proof -
  have "0 \<le> \<bar>m\<bar> mod 3600000000" "0 \<le> \<bar>m\<bar> mod 60000000" by simp_all
  then show ?thesis
    by (simp only: format_interval_time_def clock_text_def Let_def sdiv_nonneg smod_nonneg abs_ge_zero
        zero_less_numeral) simp
qed

lemma graphic_clock_text: "0 \<le> a \<Longrightarrow> list_all graphic (clock_text a)"
  by (simp add: clock_text_def digits_graphic digits_show_padded digits_trim_fraction graphic_def)

lemma clock_text_first: "0 \<le> a \<Longrightarrow> \<not> prefix ''-'' (clock_text a)"
proof -
  assume "0 \<le> a"
  then have "CHR ''-'' \<notin> set (show_padded 2 (a div 3600000000))"
    by (intro digits_notin [OF digits_show_padded]) simp_all
  then show ?thesis
    by (cases "show_padded 2 (a div 3600000000)") (auto simp: clock_text_def)
qed

lemma split_clock:
  assumes "0 \<le> h" "0 \<le> m" "0 \<le> s" "0 \<le> f"
  shows "split_on (CHR '':'') (show_padded 2 h @ '':'' @ show_padded 2 m @ '':'' @ show_padded 2 s @
      (if f = 0 then [] else ''.'' @ trim_fraction f)) =
    [show_padded 2 h, show_padded 2 m, show_padded 2 s @ (if f = 0 then [] else ''.'' @ trim_fraction f)]"
proof -
  have nocolon: "CHR '':'' \<notin> set (show_padded 2 n)" "CHR '':'' \<notin> set (trim_fraction n)" if "0 \<le> n" for n
    using digits_notin [OF digits_show_padded [OF that]] digits_notin [OF digits_trim_fraction [OF that]]
    by simp_all
  have "CHR '':'' \<notin> set (show_padded 2 s @ (if f = 0 then [] else ''.'' @ trim_fraction f))"
    using nocolon assms by simp
  from split_on_last [OF this] show ?thesis
    using assms nocolon by (simp add: split_on_sep del: split_on.simps)
qed

lemma split_clock_text:
  assumes "0 \<le> a"
  shows "split_on (CHR '':'') (clock_text a) =
    [show_padded 2 (a div 3600000000), show_padded 2 (a mod 3600000000 div 60000000),
     show_padded 2 (a mod 60000000 div 1000000) @
       (if a mod 1000000 = 0 then [] else ''.'' @ trim_fraction (a mod 1000000))]"
  unfolding clock_text_def using assms by (intro split_clock) simp_all

lemma seconds_text:
  assumes "0 \<le> s" "0 \<le> f"
  shows "(case split_once (CHR ''.'') (show_padded 2 s @ (if f = 0 then [] else ''.'' @ trim_fraction f)) of
      Some p \<Rightarrow> p | None \<Rightarrow> (show_padded 2 s @ (if f = 0 then [] else ''.'' @ trim_fraction f), [])) =
    (show_padded 2 s, if f = 0 then [] else trim_fraction f)"
proof -
  have "CHR ''.'' \<notin> set (show_padded 2 s)"
    using digits_notin [OF digits_show_padded [OF assms(1)]] by simp
  then show ?thesis by (simp add: split_once_none split_once_sep)
qed

lemma parse_interval_fraction_trim:
  assumes "0 \<le> f" "f < 1000000"
  shows "parse_interval_fraction_micros_strict (if f = 0 then [] else trim_fraction f) raw = Inr f"
  using assms trim_fraction_nonempty [of f] parse_fraction_trim [of f]
  by (simp add: parse_interval_fraction_micros_strict_def digits_trim_fraction)

lemma clock_recompose:
  "a div 3600000000 * 3600000000 + a mod 3600000000 div 60000000 * 60000000 +
     a mod 60000000 div 1000000 * 1000000 + a mod 1000000 = (a :: int)"
proof -
  have "a mod 3600000000 mod 60000000 = a mod 60000000" "a mod 60000000 mod 1000000 = a mod 1000000"
    by (simp_all add: mod_mod_cancel)
  then have "a mod 3600000000 div 60000000 * 60000000 = a mod 3600000000 - a mod 60000000"
    "a mod 60000000 div 1000000 * 1000000 = a mod 60000000 - a mod 1000000"
    by (metis minus_mod_eq_div_mult)+
  moreover have "a div 3600000000 * 3600000000 = a - a mod 3600000000"
    by (simp add: minus_mod_eq_div_mult)
  ultimately show ?thesis by linarith
qed

lemma parse_interval_time_format:
  assumes "fits 64 m"
  shows "parse_interval_time_strict (format_interval_time m) = Inr m"
proof -
  let ?a = "\<bar>m\<bar>" and ?s = "if m < 0 then - 1 else (1 :: int)"
  have a: "0 \<le> ?a" "?a \<le> 2 ^ 63" using assms by (auto simp: fits_def)
  have sign: "(if prefix ''-'' (format_interval_time m) then (- 1, tl (format_interval_time m))
      else (1, format_interval_time m)) = (?s, clock_text ?a)"
    using clock_text_first [OF a(1)] by (cases "m < 0") (simp_all add: format_interval_time_eq)
  let ?h = "?a div 3600000000" and ?mi = "?a mod 3600000000 div 60000000"
  let ?se = "?a mod 60000000 div 1000000" and ?f = "?a mod 1000000"
  have r: "0 \<le> ?h" "?h \<le> 2 ^ 63" "0 \<le> ?mi" "?mi < 60" "0 \<le> ?se" "?se < 60" "0 \<le> ?f" "?f < 1000000" "?s = 1 \<or> ?s = - 1"
    using a by auto
  have parse: "parse_signed 128 (show_padded 2 n) = Some n" if "0 \<le> n" "n \<le> 2 ^ 63" for n
    using that by (intro parse_signed_show_padded) (simp add: fits_def)
  have v: "(?h * 3600000000 + ?mi * 60000000 + ?se * 1000000 + ?f) * ?s = m"
    by (simp only: clock_recompose) simp
  have "?mi \<le> 2 ^ 63" "?se \<le> 2 ^ 63"
    by (rule order_trans [OF less_imp_le [OF r(4)]], simp, rule order_trans [OF less_imp_le [OF r(6)]], simp)
  then show ?thesis
    unfolding parse_interval_time_strict_def Let_def sign
    using r(1-8) assms
    by (simp only: split_clock_text [OF a(1)] list.case prod.case parse ok_or_simps bind_res_simps seconds_text
        parse_interval_fraction_trim clock_micros_eq [OF r] v if_True)
qed

lemma normalize_units:
  "normalize_interval_unit (to_ascii_lowercase (if b then ''year'' else ''year'' @ ''s'')) = Some (IU_Months 12)"
  "normalize_interval_unit (to_ascii_lowercase (if b then ''month'' else ''month'' @ ''s'')) = Some (IU_Months 1)"
  "normalize_interval_unit (to_ascii_lowercase (if b then ''day'' else ''day'' @ ''s'')) = Some (IU_Days 1)"
  by (cases b; simp add: normalize_interval_unit_def to_ascii_lowercase_def lower_char_def)+

lemma add_months_whole:
  assumes "fits 32 (n * f)" "fits 32 (ip_months iv + n * f)" "fits 32 (ip_months iv)"
  shows "add_interval_amount iv \<lparr>da_numerator = n, da_scale = 1\<rparr> (IU_Months f) =
    Inr (iv\<lparr>ip_months := ip_months iv + n * f\<rparr>)"
proof -
  have "fits 128 (n * f)" "fits 128 (ip_months iv + n * f)" using assms by (auto simp: fits_def)
  with assms show ?thesis
    by (simp add: add_interval_amount_def add_interval_months_def add_i32_component_def signed_modulo_int_def)
qed

lemma add_days_whole:
  assumes "fits 32 n" "fits 32 (ip_days iv + n)"
  shows "add_interval_amount iv \<lparr>da_numerator = n, da_scale = 1\<rparr> (IU_Days 1) =
    Inr (iv\<lparr>ip_days := ip_days iv + n\<rparr>)"
proof -
  have "fits 128 n" "fits 128 (ip_days iv + n)" using assms by (auto simp: fits_def)
  with assms show ?thesis
    by (simp add: add_interval_amount_def add_days_and_fraction_def add_days_def add_i32_component_def
        signed_modulo_int_def)
qed

text \<open>A counted field is skipped when it is zero, and otherwise adds its amount.\<close>

lemma parse_counted:
  assumes "\<bar>n\<bar> < 2 ^ 63" "normalize_interval_unit (to_ascii_lowercase (if \<bar>n\<bar> = 1 then u else u @ ''s'')) = Some k"
    "add_interval_amount iv \<lparr>da_numerator = n, da_scale = 1\<rparr> k = Inr (if n = 0 then iv else iv')"
  shows "parse_interval_words raw iv (counted n u @ rest) =
    parse_interval_words raw (if n = 0 then iv else iv') rest"
  using assms colon_notin_show_int [of n]
  by (simp add: counted_def split_interval_value_unit_show_int)

lemma graphic_counted:
  "list_all graphic u \<Longrightarrow> u \<noteq> [] \<Longrightarrow> list_all (\<lambda>w. w \<noteq> [] \<and> list_all graphic w) (counted n u)"
  by (simp add: counted_def graphic_show_int) (simp add: graphic_def)

lemma parse_clock_word:
  assumes "fits 64 m" "ip_micros iv = 0"
  shows "parse_interval_words raw iv [format_interval_time m] = Inr (iv\<lparr>ip_micros := m\<rparr>)"
proof -
  have "CHR '':'' \<in> set (format_interval_time m)" by (simp add: format_interval_time_eq clock_text_def)
  moreover have "fits 128 m" using assms(1) by (auto simp: fits_def)
  ultimately show ?thesis using assms by (simp add: parse_interval_time_format add_micros_def)
qed

lemma graphic_format_interval_time:
  "format_interval_time m \<noteq> [] \<and> list_all graphic (format_interval_time m)"
  using graphic_clock_text [of "\<bar>m\<bar>"] by (simp add: format_interval_time_eq graphic_def) (simp add: clock_text_def)

lemma months_split:
  assumes "fits 32 m"
  shows "fits 32 (m sdiv 12 * 12)" "\<bar>m sdiv 12\<bar> < 2 ^ 63" "\<bar>m smod 12\<bar> < 2 ^ 63" "fits 32 (m smod 12)"
    "m sdiv 12 * 12 + m smod 12 = m"
proof -
  show "m sdiv 12 * 12 + m smod 12 = m" by (rule sdiv_mult_smod_eq)
  have d: "m sdiv 12 = (if m < 0 then - ((- m) div 12) else m div 12)"
    by (simp add: signed_divide_int_def sgn_if)
  have r: "m smod 12 = (if m < 0 then - ((- m) mod 12) else m mod 12)"
    by (simp add: signed_modulo_int_def sgn_if)
  show "fits 32 (m sdiv 12 * 12)" "\<bar>m sdiv 12\<bar> < 2 ^ 63"
    using assms by (auto simp: d fits_def)
  have "0 \<le> (- m) mod 12" "(- m) mod 12 < 12" "0 \<le> m mod 12" "m mod 12 < 12" by simp_all
  then have "\<bar>m smod 12\<bar> < 12" unfolding r by (auto simp: abs_if)
  then show "\<bar>m smod 12\<bar> < 2 ^ 63" "fits 32 (m smod 12)" by (auto simp: fits_def)
qed

lemma parse_format_words:
  assumes "interval_ok iv"
  shows "parse_interval_words raw interval_default
      (counted (ip_months iv sdiv 12) ''year'' @ counted (ip_months iv smod 12) ''month'' @
       counted (ip_days iv) ''day'' @ rest) =
    parse_interval_words raw (iv\<lparr>ip_micros := 0\<rparr>) rest"
proof -
  let ?y = "ip_months iv sdiv 12" and ?m = "ip_months iv smod 12" and ?d = "ip_days iv"
  note ms = months_split [of "ip_months iv"]
  have ok: "fits 32 (ip_months iv)" "fits 32 ?d" "\<bar>?d\<bar> < 2 ^ 63" "fits 32 0"
    using assms by (auto simp: interval_ok_def fits_def)
  note ms = months_split [OF ok(1)]
  let ?i1 = "interval_default\<lparr>ip_months := ?y * 12\<rparr>"
  have "add_interval_amount interval_default \<lparr>da_numerator = ?y, da_scale = 1\<rparr> (IU_Months 12) = Inr ?i1"
    using ms(1) ok(4) by (simp add: add_months_whole interval_default_def)
  moreover have i1: "?i1 = (if ?y = 0 then interval_default else ?i1)" by (simp add: interval_default_def)
  ultimately have 1: "parse_interval_words raw interval_default (counted ?y ''year'' @ ws) =
      parse_interval_words raw ?i1 ws" for ws
    using parse_counted [of ?y "''year''" "IU_Months 12" interval_default ?i1 raw ws] ms(2)
    by (simp only: normalize_units(1) flip: i1)
  let ?i2 = "?i1\<lparr>ip_months := ip_months iv\<rparr>"
  have "add_interval_amount ?i1 \<lparr>da_numerator = ?m, da_scale = 1\<rparr> (IU_Months 1) = Inr ?i2"
    using ms ok by (simp add: add_months_whole)
  moreover have i2: "?i2 = (if ?m = 0 then ?i1 else ?i2)" using ms(5) by simp
  ultimately have 2: "parse_interval_words raw ?i1 (counted ?m ''month'' @ ws) =
      parse_interval_words raw ?i2 ws" for ws
    using parse_counted [of ?m "''month''" "IU_Months 1" ?i1 ?i2 raw ws] ms(3)
    by (simp only: normalize_units(2) flip: i2)
  let ?i3 = "iv\<lparr>ip_micros := 0\<rparr>"
  have "add_interval_amount ?i2 \<lparr>da_numerator = ?d, da_scale = 1\<rparr> (IU_Days 1) = Inr ?i3"
    using ok by (simp add: add_days_whole interval_default_def)
  moreover have i3: "?i3 = (if ?d = 0 then ?i2 else ?i3)" by (simp add: interval_default_def)
  ultimately have 3: "parse_interval_words raw ?i2 (counted ?d ''day'' @ ws) =
      parse_interval_words raw ?i3 ws" for ws
    using parse_counted [of ?d "''day''" "IU_Days 1" ?i2 ?i3 raw ws] ok(3)
    by (simp only: normalize_units(3) flip: i3)
  show ?thesis by (simp only: 1 2 3)
qed

section \<open>Properties\<close>

text \<open>
  C22: Printing and parsing intervals is a round trip: an interval whose months and days fit 32
  bits and whose microseconds fit 64 bits is parsed back exactly from its text, whatever the
  signs of its fields.
\<close>

theorem interval_text_roundtrip:
  assumes "interval_ok iv"
  shows "parse_interval (format_interval iv) = Some iv"
proof -
  let ?parts = "counted (ip_months iv sdiv 12) ''year'' @ counted (ip_months iv smod 12) ''month'' @
    counted (ip_days iv) ''day''"
  let ?ws = "?parts @ (if ip_micros iv \<noteq> 0 \<or> ?parts = [] then [format_interval_time (ip_micros iv)] else [])"
  have printed: "format_interval iv = unwords ?ws" by (simp only: format_interval_def Let_def append_assoc)
  have "list_all (\<lambda>w. w \<noteq> [] \<and> list_all graphic w) (counted n u)" if "u \<in> {''year'', ''month'', ''day''}" for n u
    using that by (intro graphic_counted) (auto simp: graphic_def)
  then have g: "list_all (\<lambda>w. w \<noteq> [] \<and> list_all graphic w) ?ws"
    using graphic_format_interval_time by simp
  have "?ws \<noteq> []" by simp
  note tight = tight_unwords [OF this g]
  then have "unwords ?ws \<noteq> []" by (simp add: tight_def)
  then have "parse_interval_strict (format_interval iv) =
      parse_interval_words (unwords ?ws) interval_default ?ws"
    unfolding printed parse_interval_strict_def trim_tight [OF tight] split_whitespace_unwords [OF g] by simp
  also have "\<dots> = parse_interval_words (unwords ?ws) (iv\<lparr>ip_micros := 0\<rparr>)
      (if ip_micros iv \<noteq> 0 \<or> ?parts = [] then [format_interval_time (ip_micros iv)] else [])"
    unfolding append_assoc by (rule parse_format_words [OF assms])
  also have "\<dots> = Inr iv"
    using assms parse_clock_word [of "ip_micros iv" "iv\<lparr>ip_micros := 0\<rparr>"]
    by (auto simp: interval_ok_def)
  finally show ?thesis by (simp add: parse_interval_def)
qed

definition mixed_interval :: interval_parts where
  "mixed_interval = \<lparr>ip_months = - 14, ip_days = 3, ip_micros = - 5000003\<rparr>"

theorem interval_text_roundtrip_witness:
  "format_interval mixed_interval = ''-1 year -2 months 3 days -00:00:05.000003'' \<and>
   parse_interval ''-1 year -2 months 3 days -00:00:05.000003'' = Some mixed_interval"
proof -
  have "format_interval mixed_interval = ''-1 year -2 months 3 days -00:00:05.000003''" by code_simp
  moreover have "interval_ok mixed_interval" by code_simp
  ultimately show ?thesis using interval_text_roundtrip [of mixed_interval] by simp
qed

text \<open>
  Every interval the parser accepts has months and days within 32 bits and microseconds
  within 64 bits, however many amounts the text adds up and whatever their fractions.
\<close>

theorem parsed_interval_in_range:
  assumes "parse_interval raw = Some iv"
  shows "fits 32 (ip_months iv) \<and> fits 32 (ip_days iv) \<and> fits 64 (ip_micros iv)"
  using assms parse_interval_words_ok [OF _ interval_ok_default]
  by (auto simp: parse_interval_def parse_interval_strict_def interval_ok_def
      split: sum.splits if_splits)

theorem parsed_interval_in_range_witness:
  "parse_interval ''1.5 days 2h'' = Some \<lparr>ip_months = 0, ip_days = 1, ip_micros = 50400000000\<rparr> \<and>
   fits 32 1 \<and> fits 64 50400000000"
proof -
  have p: "parse_interval ''1.5 days 2h'' = Some \<lparr>ip_months = 0, ip_days = 1, ip_micros = 50400000000\<rparr>"
    by code_simp
  from parsed_interval_in_range [OF this] p show ?thesis by simp
qed

end
