(* ===== verification/Temporal_Text.thy ===== *)
theory Temporal_Text
  imports Interval_Text "HOL-Library.Monad_Syntax"
begin

text \<open>
  Textual dates and timestamps of \<open>src/src/ir/runtime/scalar/temporal.rs\<close>: parsing and
  printing, the parts and truncations of a timestamp, arithmetic with intervals and the sort
  keys.  \<open>value.as_i64()\<close>, with which \<open>numeric_to_interval\<close> starts, is its argument;
  \<open>epoch_seconds_to_timestamp\<close> goes through \<open>f64\<close> and is not modelled.
\<close>

section \<open>Data\<close>

record temporal_parts =
  tp_year :: int
  tp_month :: int
  tp_day :: int
  tp_hour :: int
  tp_minute :: int
  tp_second :: int
  tp_micros :: int
  tp_has_time :: bool

section \<open>Parsing\<close>

definition strip_timezone :: "string \<Rightarrow> string" where
  "strip_timezone time =
     (if suffix ''Z'' time then butlast time
      else (case filter (\<lambda>i. 0 < i \<and> time ! i \<in> {CHR ''+'', CHR ''-''}) [0..<length time] of
              [] \<Rightarrow> time
            | is \<Rightarrow> take (last is) time))"

text \<open>The text split into date, time and whether it has a time; \<open>None\<close> where the code returns early.\<close>

definition split_date_time :: "string \<Rightarrow> (string \<times> string \<times> bool) option" where
  "split_date_time inner =
     (case split_once (CHR ''T'') inner of
        Some (date, time) \<Rightarrow> Some (date, time, True)
      | None \<Rightarrow>
          (case split_once (CHR '' '') inner of
             Some (date, time) \<Rightarrow>
               if to_ascii_lowercase date = to_ascii_lowercase ''(BC)'' then None
               else Some (date, time, True)
           | None \<Rightarrow> Some (inner, ''00:00:00'', False)))"

definition parse_civil :: "string \<Rightarrow> civil option" where
  "parse_civil date =
     (case split_on (CHR ''-'') date of
        [y, m, d] \<Rightarrow>
          (case (parse_signed 64 y, parse_unsigned 32 m, parse_unsigned 32 d) of
             (Some year, Some month, Some day) \<Rightarrow>
               if valid_date year month day then Some (year, month, day) else None
           | _ \<Rightarrow> None)
      | _ \<Rightarrow> None)"

text \<open>Hour, minute, second and microseconds; a missing minute or second is \<open>0\<close>.\<close>

definition parse_clock :: "string \<Rightarrow> (int \<times> int \<times> int \<times> int) option" where
  "parse_clock time =
     (let parts = split_on (CHR '':'') time;
          nth_part = (\<lambda>i. if i < length parts then parts ! i else ''0'')
      in if length parts > 3 then None
         else
           let second_part = nth_part 2;
               (second_text, fraction) = (case split_once (CHR ''.'') second_part of
                  Some p \<Rightarrow> p | None \<Rightarrow> (second_part, []))
           in case (parse_signed 64 (nth_part 0), parse_signed 64 (nth_part 1), parse_signed 64 second_text) of
                (Some hour, Some minute, Some second) \<Rightarrow>
                  if \<not> (0 \<le> hour \<and> hour \<le> 23) \<or> \<not> (0 \<le> minute \<and> minute \<le> 59) \<or> \<not> (0 \<le> second \<and> second \<le> 59)
                  then None
                  else map_option (\<lambda>micros. (hour, minute, second, micros)) (parse_fraction_micros fraction)
              | _ \<Rightarrow> None)"

definition parse_temporal :: "string \<Rightarrow> temporal_parts option" where
  "parse_temporal raw =
     (let inner = (case strip_both ''dt['' '']'' (trim raw) of Some s \<Rightarrow> s | None \<Rightarrow> trim raw)
      in case split_date_time inner of
           None \<Rightarrow> None
         | Some (date, time, has_time) \<Rightarrow>
             (case parse_civil date of
                None \<Rightarrow> None
              | Some (year, month, day) \<Rightarrow>
                  map_option (\<lambda>(hour, minute, second, micros).
                    \<lparr>tp_year = year, tp_month = month, tp_day = day, tp_hour = hour, tp_minute = minute,
                     tp_second = second, tp_micros = micros, tp_has_time = has_time\<rparr>)
                    (parse_clock (strip_timezone time))))"

section \<open>Printing\<close>

definition format_year_timestamp ::
  "int \<Rightarrow> int \<Rightarrow> int \<Rightarrow> int \<Rightarrow> int \<Rightarrow> int \<Rightarrow> int \<Rightarrow> string" where
  "format_year_timestamp year month day hour minute second micros =
     (let fraction = (if micros = 0 then [] else ''.'' @ trim_fraction micros);
          clock = show_padded 2 hour @ '':'' @ show_padded 2 minute @ '':'' @ show_padded 2 second @ fraction
      in if year \<le> 0
         then show_padded 4 (wrap 64 (1 - year)) @ ''-'' @ show_padded 2 month @ ''-'' @ show_padded 2 day
                @ '' (BC) '' @ clock
         else show_padded 4 year @ ''-'' @ show_padded 2 month @ ''-'' @ show_padded 2 day @ '' '' @ clock)"

definition format_temporal :: "temporal_parts \<Rightarrow> bool \<Rightarrow> string" where
  "format_temporal t force_time =
     (if force_time \<or> tp_has_time t
      then format_year_timestamp (tp_year t) (tp_month t) (tp_day t) (tp_hour t) (tp_minute t) (tp_second t) (tp_micros t)
      else show_padded 4 (tp_year t) @ ''-'' @ show_padded 2 (tp_month t) @ ''-'' @ show_padded 2 (tp_day t))"

definition make_date :: "int \<Rightarrow> int \<Rightarrow> int \<Rightarrow> string option" where
  "make_date year month day =
     (if \<not> (0 \<le> month \<and> month < 2 ^ 32) \<or> \<not> (0 \<le> day \<and> day < 2 ^ 32) then None
      else if \<not> valid_date year month day then None
      else Some (show_padded 4 year @ ''-'' @ show_padded 2 month @ ''-'' @ show_padded 2 day))"

section \<open>Parts and truncation\<close>

definition zero_time :: "temporal_parts \<Rightarrow> temporal_parts" where
  "zero_time t = t\<lparr>tp_hour := 0, tp_minute := 0, tp_second := 0, tp_micros := 0\<rparr>"

function strip_all :: "string \<Rightarrow> string \<Rightarrow> string" where
  "strip_all p s = (if p \<noteq> [] \<and> prefix p s then strip_all p (drop (length p) s) else s)"
  by pat_completeness auto
termination
  by (relation "measure (\<lambda>(p, s). length s)") (auto simp: prefix_def)

declare strip_all.simps [simp del]

definition normalized_unit :: "string \<Rightarrow> string" where
  "normalized_unit u =
     (let lower = strip_all ''dt.'' (to_ascii_lowercase u)
      in if lower = ''years'' then ''year''
         else if lower = ''months'' then ''month''
         else if lower = ''days'' then ''day''
         else if lower = ''hours'' then ''hour''
         else if lower = ''minutes'' then ''minute''
         else if lower = ''seconds'' then ''second''
         else if lower \<in> {''milliseconds'', ''millis'', ''ms''} then ''millisecond''
         else if lower \<in> {''microseconds'', ''micros'', ''us''} then ''microsecond''
         else if lower = ''decades'' then ''decade''
         else if lower = ''centuries'' then ''century''
         else if lower \<in> {''millenniums'', ''millennia''} then ''millennium''
         else if lower = ''quarters'' then ''quarter''
         else lower)"

definition interval_part :: "string \<Rightarrow> interval_parts \<Rightarrow> int option" where
  "interval_part u iv =
     (let n = normalized_unit u; months = ip_months iv; micros = ip_micros iv
      in if n = ''year'' then Some (months sdiv 12)
         else if n = ''month'' then Some (months smod 12)
         else if n = ''day'' then Some (ip_days iv)
         else if n = ''hour'' then Some (wrap 64 (micros sdiv 3600000000))
         else if n = ''minute'' then Some (wrap 64 (micros sdiv 60000000 smod 60))
         else if n = ''second'' then Some (wrap 64 (micros sdiv 1000000 smod 60))
         else if n = ''millisecond'' then Some (wrap 64 (micros sdiv 1000 smod 60000))
         else if n = ''microsecond'' then Some (wrap 64 (micros smod 60000000))
         else if n = ''decade'' then Some (months sdiv 120)
         else if n = ''century'' then Some (months sdiv 1200)
         else if n = ''millennium'' then Some (months sdiv 12000)
         else if n = ''quarter'' then Some (months mod 12 sdiv 3 + 1)
         else None)"

text \<open>The payload of the \<open>Value::Long\<close> the source returns.\<close>

definition temporal_part :: "string \<Rightarrow> string \<Rightarrow> int option" where
  "temporal_part u value =
     (case parse_interval value of
        Some iv \<Rightarrow> interval_part u iv
      | None \<Rightarrow>
          (case parse_temporal value of
             None \<Rightarrow> None
           | Some t \<Rightarrow>
               (let n = normalized_unit u
                in if n = ''year'' then Some (tp_year t)
                   else if n = ''month'' then Some (tp_month t)
                   else if n = ''day'' then Some (tp_day t)
                   else if n = ''hour'' then Some (tp_hour t)
                   else if n = ''minute'' then Some (tp_minute t)
                   else if n = ''second'' then Some (tp_second t)
                   else if n = ''millisecond'' then Some (tp_second t * 1000 + tp_micros t sdiv 1000)
                   else if n = ''microsecond'' then Some (tp_second t * 1000000 + tp_micros t)
                   else if n = ''decade'' then Some (tp_year t div 10)
                   else if n = ''century'' then Some (wrap 64 (tp_year t - 1) div 100 + 1)
                   else if n = ''millennium'' then Some (wrap 64 (tp_year t - 1) div 1000 + 1)
                   else if n = ''quarter'' then Some ((tp_month t - 1) sdiv 3 + 1)
                   else None)))"

definition first_of_year :: "int \<Rightarrow> temporal_parts \<Rightarrow> temporal_parts" where
  "first_of_year year t = zero_time (t\<lparr>tp_year := year, tp_month := 1, tp_day := 1\<rparr>)"

definition truncate_parts :: "string \<Rightarrow> temporal_parts \<Rightarrow> temporal_parts option" where
  "truncate_parts n t =
     (if n = ''millennium'' then Some (first_of_year (wrap 64 (tp_year t div 1000 * 1000)) t)
      else if n = ''century'' then Some (first_of_year (wrap 64 (tp_year t div 100 * 100)) t)
      else if n = ''decade'' then Some (first_of_year (wrap 64 (tp_year t div 10 * 10)) t)
      else if n = ''year'' then Some (first_of_year (tp_year t) t)
      else if n = ''quarter'' then
        Some (zero_time (t\<lparr>tp_month := ((tp_month t - 1) sdiv 3) * 3 + 1, tp_day := 1\<rparr>))
      else if n = ''month'' then Some (zero_time (t\<lparr>tp_day := 1\<rparr>))
      else if n = ''day'' then Some (zero_time t)
      else if n = ''hour'' then Some (t\<lparr>tp_minute := 0, tp_second := 0, tp_micros := 0\<rparr>)
      else if n = ''minute'' then Some (t\<lparr>tp_second := 0, tp_micros := 0\<rparr>)
      else if n = ''second'' then Some (t\<lparr>tp_micros := 0\<rparr>)
      else if n = ''millisecond'' then Some (t\<lparr>tp_micros := tp_micros t sdiv 1000 * 1000\<rparr>)
      else if n = ''microsecond'' then Some t
      else None)"

definition trunc_temporal :: "string \<Rightarrow> string \<Rightarrow> string option" where
  "trunc_temporal u value =
     (case parse_temporal value of
        None \<Rightarrow> None
      | Some t \<Rightarrow> map_option (\<lambda>t. format_temporal t (tp_has_time t)) (truncate_parts (normalized_unit u) t))"

definition last_day :: "string \<Rightarrow> string option" where
  "last_day value =
     (case parse_temporal value of
        None \<Rightarrow> None
      | Some t \<Rightarrow>
          Some (format_temporal (zero_time (t\<lparr>tp_day := days_in_month (tp_year t) (tp_month t),
                                                tp_has_time := False\<rparr>)) False))"

definition day_names :: "string list" where
  "day_names = [''Sunday'', ''Monday'', ''Tuesday'', ''Wednesday'', ''Thursday'', ''Friday'', ''Saturday'']"

definition day_name :: "string \<Rightarrow> string option" where
  "day_name value =
     (case parse_temporal value of
        None \<Rightarrow> None
      | Some t \<Rightarrow>
          (case days_from_civil (tp_year t) (tp_month t) (tp_day t) of
             None \<Rightarrow> None
           | Some days \<Rightarrow> Some (day_names ! nat (wrap 64 (days + 4) mod 7))))"

definition month_names :: "string list" where
  "month_names = [''January'', ''February'', ''March'', ''April'', ''May'', ''June'', ''July'', ''August'',
     ''September'', ''October'', ''November'', ''December'']"

definition month_name :: "string \<Rightarrow> string option" where
  "month_name value = map_option (\<lambda>t. month_names ! nat (tp_month t - 1)) (parse_temporal value)"

section \<open>Arithmetic\<close>

definition numeric_to_interval :: "int option \<Rightarrow> string \<Rightarrow> string option" where
  "numeric_to_interval value u =
     (case value of
        None \<Rightarrow> None
      | Some n \<Rightarrow>
          map_option format_interval
            (if u = ''years'' then map_option (\<lambda>m. interval_default\<lparr>ip_months := m\<rparr>) (checked 64 (n * 12))
             else if u = ''months'' then Some (interval_default\<lparr>ip_months := n\<rparr>)
             else if u = ''days'' then Some (interval_default\<lparr>ip_days := n\<rparr>)
             else if u = ''hours'' then map_option (\<lambda>m. interval_default\<lparr>ip_micros := m\<rparr>) (checked 128 (n * 3600000000))
             else if u = ''minutes'' then map_option (\<lambda>m. interval_default\<lparr>ip_micros := m\<rparr>) (checked 128 (n * 60000000))
             else if u = ''seconds'' then map_option (\<lambda>m. interval_default\<lparr>ip_micros := m\<rparr>) (checked 128 (n * 1000000))
             else if u = ''milliseconds'' then map_option (\<lambda>m. interval_default\<lparr>ip_micros := m\<rparr>) (checked 128 (n * 1000))
             else if u = ''microseconds'' then Some (interval_default\<lparr>ip_micros := n\<rparr>)
             else None))"

definition checked_interval :: "int \<Rightarrow> int \<Rightarrow> int \<Rightarrow> interval_parts option" where
  "checked_interval months days micros =
     (case (checked 64 months, checked 64 days, checked 128 micros) of
        (Some m, Some d, Some u) \<Rightarrow> Some \<lparr>ip_months = m, ip_days = d, ip_micros = u\<rparr>
      | _ \<Rightarrow> None)"

definition add_intervals :: "interval_parts \<Rightarrow> interval_parts \<Rightarrow> interval_parts option" where
  "add_intervals l r =
     checked_interval (ip_months l + ip_months r) (ip_days l + ip_days r) (ip_micros l + ip_micros r)"

definition subtract_intervals :: "interval_parts \<Rightarrow> interval_parts \<Rightarrow> interval_parts option" where
  "subtract_intervals l r =
     checked_interval (ip_months l - ip_months r) (ip_days l - ip_days r) (ip_micros l - ip_micros r)"

text \<open>
  In a release build \<open>i64::MIN / -1\<close> panics; the parser never returns such a number of months.
\<close>

definition divide_interval :: "interval_parts \<Rightarrow> int \<Rightarrow> interval_parts option" where
  "divide_interval iv divisor =
     (if divisor = 0 then None
      else
        checked_then (checked 64 (ip_months iv smod divisor * 30)) (\<lambda>r. checked 64 (ip_days iv + r))
        \<bind> (\<lambda>days_with_month_remainder.
          checked_then (checked 128 (days_with_month_remainder smod divisor * MICROS_PER_DAY))
            (\<lambda>r. checked 128 (ip_micros iv + r))
          \<bind> (\<lambda>micros_with_day_remainder.
            Some \<lparr>ip_months = ip_months iv sdiv divisor, ip_days = days_with_month_remainder sdiv divisor,
                  ip_micros = micros_with_day_remainder sdiv divisor\<rparr>)))"

definition add_months :: "temporal_parts \<Rightarrow> int \<Rightarrow> temporal_parts option" where
  "add_months t months =
     checked 64 (tp_month t - 1 + months) \<bind> (\<lambda>zero_based.
     checked 64 (tp_year t + zero_based div 12) \<bind> (\<lambda>year.
       let month = zero_based mod 12 + 1
       in Some (t\<lparr>tp_year := year, tp_month := month, tp_day := min (tp_day t) (days_in_month year month)\<rparr>)))"

text \<open>The microsecond of the day, as \<open>add_interval_to_temporal\<close> computes it with checked operations.\<close>

definition day_micros :: "temporal_parts \<Rightarrow> int option" where
  "day_micros t =
     checked_then (checked_then (checked_then
       (checked 128 (tp_hour t * 3600000000))
       (\<lambda>v. checked_then (checked 128 (tp_minute t * 60000000)) (\<lambda>m. checked 128 (v + m))))
       (\<lambda>v. checked_then (checked 128 (tp_second t * 1000000)) (\<lambda>s. checked 128 (v + s))))
       (\<lambda>v. checked 128 (v + tp_micros t))"

text \<open>
  The two ends of \<open>add_interval_to_temporal\<close>: \<open>days\<close> is the day number after months and days
  have been added, and a date without a time takes the whole days of the interval's time only.
\<close>

definition date_after :: "int \<Rightarrow> interval_parts \<Rightarrow> int \<Rightarrow> temporal_parts option" where
  "date_after days iv sign =
     (let whole_time_days = wrap 64 (ip_micros iv sdiv 86400000000)
      in checked 64 (whole_time_days * sign) \<bind> (\<lambda>time_days.
         checked 64 (days + time_days) \<bind> (\<lambda>final_days.
         civil_from_days final_days \<bind> (\<lambda>(year, month, day).
           Some \<lparr>tp_year = year, tp_month = month, tp_day = day, tp_hour = 0, tp_minute = 0,
                 tp_second = 0, tp_micros = 0, tp_has_time = False\<rparr>))))"

definition stamp_after :: "bool \<Rightarrow> temporal_parts \<Rightarrow> int \<Rightarrow> interval_parts \<Rightarrow> int \<Rightarrow> temporal_parts option" where
  "stamp_after has_time shifted days iv sign =
     civil_from_days days \<bind> (\<lambda>fallback.
     day_micros shifted \<bind> (\<lambda>base_micros.
     checked 128 (ip_micros iv * sign) \<bind> (\<lambda>delta.
     checked 128 (base_micros + delta) \<bind> (\<lambda>micros.
       let day_adjust = micros div 86400000000;
           micros_of_day = micros mod 86400000000
       in checked 64 (days + wrap 64 day_adjust) \<bind> (\<lambda>final_days.
          let (year, month, day) = (case civil_from_days final_days of Some c \<Rightarrow> c | None \<Rightarrow> fallback)
          in Some \<lparr>tp_year = year, tp_month = month, tp_day = day,
                   tp_hour = micros_of_day sdiv 3600000000,
                   tp_minute = micros_of_day smod 3600000000 sdiv 60000000,
                   tp_second = micros_of_day smod 60000000 sdiv 1000000,
                   tp_micros = micros_of_day smod 1000000,
                   tp_has_time = (has_time \<or> ip_micros iv \<noteq> 0)\<rparr>)))))"

definition add_interval_parts :: "temporal_parts \<Rightarrow> interval_parts \<Rightarrow> bool \<Rightarrow> temporal_parts option" where
  "add_interval_parts original iv add =
     (let sign = (if add then 1 else - 1)
      in checked 64 (ip_months iv * sign) \<bind> add_months original \<bind> (\<lambda>shifted.
         checked 64 (ip_days iv * sign) \<bind> (\<lambda>day_delta.
         days_from_civil (tp_year shifted) (tp_month shifted) (tp_day shifted) \<bind> (\<lambda>first.
         checked 64 (first + day_delta) \<bind> (\<lambda>days.
           if \<not> tp_has_time original then date_after days iv sign
           else stamp_after (tp_has_time original) shifted days iv sign)))))"

definition add_interval_to_temporal :: "string \<Rightarrow> interval_parts \<Rightarrow> bool \<Rightarrow> string option" where
  "add_interval_to_temporal value iv add =
     parse_temporal value \<bind> (\<lambda>original.
     add_interval_parts original iv add \<bind> (\<lambda>t.
       Some (format_temporal t (tp_has_time original))))"

section \<open>Sort keys\<close>

text \<open>The tuples the source compares, as lists (of equal length) in lexicographic order.\<close>

definition temporal_sort_key :: "string \<Rightarrow> int list option" where
  "temporal_sort_key value =
     map_option (\<lambda>t. [tp_year t, tp_month t, tp_day t, tp_hour t, tp_minute t, tp_second t, tp_micros t])
       (parse_temporal value)"

definition interval_sort_key :: "string \<Rightarrow> int list option" where
  "interval_sort_key value =
     parse_interval value \<bind> (\<lambda>iv.
     checked 64 (ip_months iv * 30) \<bind> (\<lambda>months.
     checked 64 (ip_days iv + months) \<bind> (\<lambda>days.
       Some [0, days, ip_micros iv])))"

section \<open>Timestamps are read back\<close>

definition clock_ok :: "temporal_parts \<Rightarrow> bool" where
  "clock_ok t \<longleftrightarrow>
     0 \<le> tp_hour t \<and> tp_hour t \<le> 23 \<and> 0 \<le> tp_minute t \<and> tp_minute t \<le> 59 \<and>
     0 \<le> tp_second t \<and> tp_second t \<le> 59 \<and> 0 \<le> tp_micros t \<and> tp_micros t < 1000000"

definition temporal_parts_ok :: "temporal_parts \<Rightarrow> bool" where
  "temporal_parts_ok t \<longleftrightarrow>
     valid_date (tp_year t) (tp_month t) (tp_day t) \<and> fits 64 (tp_year t) \<and> clock_ok t \<and>
     (\<not> tp_has_time t \<longrightarrow> zero_time t = t)"

definition date_text :: "int \<Rightarrow> int \<Rightarrow> int \<Rightarrow> string" where
  "date_text y m d = show_padded 4 y @ ''-'' @ show_padded 2 m @ ''-'' @ show_padded 2 d"

definition time_text :: "int \<Rightarrow> int \<Rightarrow> int \<Rightarrow> int \<Rightarrow> string" where
  "time_text h m s f =
     show_padded 2 h @ '':'' @ show_padded 2 m @ '':'' @ show_padded 2 s @ (if f = 0 then [] else ''.'' @ trim_fraction f)"

lemma format_temporal_eq:
  "format_temporal t b =
     (if b \<or> tp_has_time t
      then (if tp_year t \<le> 0
            then date_text (wrap 64 (1 - tp_year t)) (tp_month t) (tp_day t) @ '' (BC) ''
            else date_text (tp_year t) (tp_month t) (tp_day t) @ '' '')
           @ time_text (tp_hour t) (tp_minute t) (tp_second t) (tp_micros t)
      else date_text (tp_year t) (tp_month t) (tp_day t))"
  by (simp add: format_temporal_def format_year_timestamp_def date_text_def time_text_def Let_def)

lemma chars_date_text:
  assumes "0 \<le> y" "0 \<le> m" "0 \<le> d"
  shows "set (date_text y m d) \<subseteq> insert (CHR ''-'') (Collect is_ascii_digit)"
  using assms digits_show_padded [of _ 4] digits_show_padded [of _ 2]
  by (auto simp: date_text_def list_all_iff)

lemma chars_time_text:
  assumes "0 \<le> h" "0 \<le> m" "0 \<le> s" "0 \<le> f"
  shows "set (time_text h m s f) \<subseteq> {CHR '':'', CHR ''.''} \<union> Collect is_ascii_digit"
  using assms digits_show_padded [of _ 2] digits_trim_fraction [of f]
  by (auto simp: time_text_def list_all_iff)

lemma hd_date_text: "0 \<le> y \<Longrightarrow> is_ascii_digit (hd (date_text y m d))"
  using digits_show_padded [of y 4] hd_in_set [of "show_padded 4 y"]
  by (auto simp: date_text_def list_all_iff)

lemma last_digits: "list_all is_ascii_digit s \<Longrightarrow> s \<noteq> [] \<Longrightarrow> is_ascii_digit (last s)"
  by (simp add: list_all_iff)

lemma last_date_text: "0 \<le> d \<Longrightarrow> is_ascii_digit (last (date_text y m d))"
  by (simp add: date_text_def last_digits digits_show_padded)

lemma last_time_text:
  assumes "0 \<le> s" "0 \<le> f" "f < 1000000"
  shows "is_ascii_digit (last (time_text h m s f))"
  using assms trim_fraction_nonempty [of f]
  by (auto simp: time_text_def last_digits digits_show_padded digits_trim_fraction)

lemma parse_civil_date_text:
  assumes "valid_date y m d" "fits 64 y" "0 \<le> y"
  shows "parse_civil (date_text y m d) = Some (y, m, d)"
proof -
  have md: "0 \<le> m" "m < 2 ^ 32" "0 \<le> d" "d < 2 ^ 32"
    using assms(1) by (auto simp: valid_date_def days_in_month_def split: if_splits)
  have nodash: "CHR ''-'' \<notin> set (show_padded k n)" if "0 \<le> n" for n k
    using digits_notin [OF digits_show_padded [OF that]] by simp
  have "split_on (CHR ''-'') (date_text y m d) = [show_padded 4 y, show_padded 2 m, show_padded 2 d]"
    using assms(3) md nodash by (simp add: date_text_def split_on_sep split_on_last del: split_on.simps)
  then show ?thesis
    using assms md by (simp add: parse_civil_def parse_signed_show_padded parse_unsigned_show_padded)
qed

lemma strip_timezone_time_text:
  assumes "0 \<le> h" "0 \<le> m" "0 \<le> s" "0 \<le> f" "f < 1000000"
  shows "strip_timezone (time_text h m s f) = time_text h m s f"
proof -
  let ?t = "time_text h m s f"
  have "\<not> suffix ''Z'' ?t"
    using last_time_text [OF assms(3-5), of h m] by (auto simp: suffix_def)
  moreover have "?t ! i \<notin> {CHR ''+'', CHR ''-''}" if "i < length ?t" for i
    using chars_time_text [OF assms(1-4)] nth_mem [OF that] by auto
  then have "filter (\<lambda>i. 0 < i \<and> ?t ! i \<in> {CHR ''+'', CHR ''-''}) [0..<length ?t] = []"
    by (auto simp: filter_empty_conv)
  ultimately show ?thesis by (simp add: strip_timezone_def)
qed

lemma parse_clock_time_text:
  assumes "0 \<le> h" "h \<le> 23" "0 \<le> m" "m \<le> 59" "0 \<le> s" "s \<le> 59" "0 \<le> f" "f < 1000000"
  shows "parse_clock (time_text h m s f) = Some (h, m, s, f)"
proof -
  have parse: "parse_signed 64 (show_padded 2 n) = Some n" if "0 \<le> n" "n \<le> 59" for n
    using that by (intro parse_signed_show_padded) (simp add: fits_def)
  have "parse_fraction_micros (if f = 0 then [] else trim_fraction f) = Some f"
    using assms(7,8) parse_fraction_trim [of f] by (simp add: parse_fraction_micros_def)
  moreover have "CHR ''.'' \<notin> set (show_padded 2 s)"
    using digits_notin [OF digits_show_padded [OF assms(5)]] by simp
  ultimately show ?thesis
    unfolding parse_clock_def time_text_def split_clock [OF assms(1,3,5,7)] Let_def
    using assms by (cases "f = 0") (simp_all add: parse split_once_none split_once_sep)
qed

lemma not_digit_T: "c = CHR ''-'' \<or> is_ascii_digit c \<Longrightarrow> c \<noteq> CHR ''T'' \<and> c \<noteq> CHR '' ''"
  by auto

lemma split_date_time_date:
  assumes "0 \<le> y" "0 \<le> m" "0 \<le> d"
  shows "split_date_time (date_text y m d) = Some (date_text y m d, ''00:00:00'', False)"
proof -
  have "CHR ''T'' \<notin> set (date_text y m d)" "CHR '' '' \<notin> set (date_text y m d)"
    using chars_date_text [OF assms] by auto
  then show ?thesis by (simp add: split_date_time_def split_once_none)
qed

lemma split_date_time_stamp:
  assumes "0 \<le> y" "0 \<le> m" "0 \<le> d" "CHR ''T'' \<notin> set time"
  shows "split_date_time (date_text y m d @ CHR '' '' # time) = Some (date_text y m d, time, True)"
proof -
  have "CHR ''T'' \<notin> set (date_text y m d @ CHR '' '' # time)" "CHR '' '' \<notin> set (date_text y m d)"
    using chars_date_text [OF assms(1-3)] assms(4) by auto
  moreover have "hd (to_ascii_lowercase (date_text y m d)) \<noteq> CHR ''(''"
    using hd_date_text [OF assms(1), of m d]
    by (auto simp: to_ascii_lowercase_def hd_map date_text_def is_ascii_digit_def lower_char_def Let_def)
  then have "to_ascii_lowercase (date_text y m d) \<noteq> to_ascii_lowercase ''(BC)''"
    by (auto simp: to_ascii_lowercase_def lower_char_def)
  ultimately show ?thesis by (simp add: split_date_time_def split_once_none split_once_sep)
qed

text \<open>Text that starts and ends with a digit is neither trimmed nor unwrapped.\<close>

lemma parse_temporal_digits:
  assumes "is_ascii_digit (hd s)" "is_ascii_digit (last s)" "s \<noteq> []"
  shows "(case strip_both ''dt['' '']'' (trim s) of Some s \<Rightarrow> s | None \<Rightarrow> trim s) = s"
proof -
  have "trim s = s"
    using assms by (intro trim_tight tight_graphic) (simp_all add: digit_graphic)
  moreover have "\<not> prefix ''dt['' s"
    using assms(1,3) by (cases s) (auto simp: is_ascii_digit_def)
  ultimately show ?thesis by (simp add: strip_both_def)
qed

lemma date_text_nonempty [simp]: "date_text y m d \<noteq> []"
  by (simp add: date_text_def)

lemma time_text_nonempty [simp]: "time_text h m s f \<noteq> []"
  by (simp add: time_text_def)

lemma clock_00: "parse_clock (strip_timezone ''00:00:00'') = Some (0, 0, 0, 0)"
  by code_simp

lemma parse_format_stamp:
  assumes "temporal_parts_ok t" "1 \<le> tp_year t" "tp_has_time t"
  shows "parse_temporal (format_temporal t b) = Some t"
proof -
  let ?d = "date_text (tp_year t) (tp_month t) (tp_day t)"
  let ?c = "time_text (tp_hour t) (tp_minute t) (tp_second t) (tp_micros t)"
  have v: "valid_date (tp_year t) (tp_month t) (tp_day t)" "fits 64 (tp_year t)" "0 \<le> tp_year t"
      "0 \<le> tp_month t" "0 \<le> tp_day t"
    using assms(1,2) by (auto simp: temporal_parts_ok_def valid_date_def)
  have c: "0 \<le> tp_hour t" "tp_hour t \<le> 23" "0 \<le> tp_minute t" "tp_minute t \<le> 59" "0 \<le> tp_second t"
      "tp_second t \<le> 59" "0 \<le> tp_micros t" "tp_micros t < 1000000"
    using assms(1) by (simp_all add: temporal_parts_ok_def clock_ok_def)
  have printed: "format_temporal t b = ?d @ CHR '' '' # ?c"
    using assms(2,3) by (simp add: format_temporal_eq)
  have "CHR ''T'' \<notin> set ?c" using chars_time_text [OF c(1,3,5,7)] by auto
  note split = split_date_time_stamp [OF v(3-5) this]
  have inner: "(case strip_both ''dt['' '']'' (trim (?d @ CHR '' '' # ?c)) of Some s \<Rightarrow> s | None \<Rightarrow> trim (?d @ CHR '' '' # ?c)) =
      ?d @ CHR '' '' # ?c"
    by (rule parse_temporal_digits) (simp_all add: hd_date_text [OF v(3)] last_time_text [OF c(5,7,8)])
  show ?thesis
    unfolding printed parse_temporal_def Let_def inner split
    using assms(3) by (simp add: parse_civil_date_text [OF v(1-3)] strip_timezone_time_text [OF c(1,3,5,7,8)]
        parse_clock_time_text [OF c])
qed

lemma parse_format_date:
  assumes "temporal_parts_ok t" "0 \<le> tp_year t" "\<not> tp_has_time t"
  shows "parse_temporal (format_temporal t False) = Some t"
proof -
  let ?d = "date_text (tp_year t) (tp_month t) (tp_day t)"
  have v: "valid_date (tp_year t) (tp_month t) (tp_day t)" "fits 64 (tp_year t)" "0 \<le> tp_month t" "0 \<le> tp_day t"
    using assms(1) by (auto simp: temporal_parts_ok_def valid_date_def)
  have inner: "(case strip_both ''dt['' '']'' (trim ?d) of Some s \<Rightarrow> s | None \<Rightarrow> trim ?d) = ?d"
    by (rule parse_temporal_digits) (simp_all add: hd_date_text [OF assms(2)] last_date_text [OF v(4)])
  have "zero_time t = t" using assms by (simp add: temporal_parts_ok_def)
  then have zero: "tp_hour t = 0" "tp_minute t = 0" "tp_second t = 0" "tp_micros t = 0"
    by (metis (no_types) temporal_parts.select_convs(4-7) temporal_parts.surjective
        temporal_parts.update_convs(4-7) zero_time_def)+
  show ?thesis
    using assms(3) unfolding parse_temporal_def Let_def format_temporal_eq
    by (simp add: inner split_date_time_date [OF assms(2) v(3,4)] parse_civil_date_text [OF v(1,2) assms(2)]
        clock_00 zero)
qed

lemma parse_int_paren: "parse_int (CHR ''('' # s) = None"
  by (simp add: parse_int_def digit_val_def)

lemma parse_clock_paren: "parse_clock (CHR ''('' # s) = None"
proof -
  have "\<exists>p ps. split_on (CHR '':'') (CHR ''('' # s) = (CHR ''('' # p) # ps"
    by (simp split: list.split)
  then obtain p ps where sp: "split_on (CHR '':'') (CHR ''('' # s) = (CHR ''('' # p) # ps" by blast
  have "parse_signed 64 (CHR ''('' # p) = None" by (simp add: parse_signed_def parse_int_paren)
  then show ?thesis by (simp only: parse_clock_def sp Let_def) (simp split: prod.split)
qed

lemma strip_timezone_paren: "\<exists>s'. strip_timezone (CHR ''('' # s) = [] \<or> strip_timezone (CHR ''('' # s) = CHR ''('' # s'"
proof (cases "suffix ''Z'' (CHR ''('' # s)")
  case True
  then show ?thesis by (simp add: strip_timezone_def)
next
  case False
  then show ?thesis
    by (auto simp: strip_timezone_def take_Cons' split: list.split)
qed

section \<open>Interval arithmetic is exact\<close>

text \<open>
  The specification: an instant is a number of microseconds, months are added in the calendar
  with the day clamped to the length of the month, days and microseconds on the time line.
  A date without a time only takes whole days.
\<close>

definition clock_of :: "temporal_parts \<Rightarrow> int" where
  "clock_of t = tp_hour t * 3600000000 + tp_minute t * 60000000 + tp_second t * 1000000 + tp_micros t"

definition instant :: "temporal_parts \<Rightarrow> int" where
  "instant t = shifted_day (tp_year t) (tp_month t) (tp_day t) * 86400000000 + clock_of t"

definition month_shift :: "temporal_parts \<Rightarrow> int \<Rightarrow> temporal_parts" where
  "month_shift t n =
     (let total = tp_year t * 12 + (tp_month t - 1) + n; year = total div 12; month = total mod 12 + 1
      in t\<lparr>tp_year := year, tp_month := month, tp_day := min (tp_day t) (days_in_month year month)\<rparr>)"

definition interval_span :: "bool \<Rightarrow> interval_parts \<Rightarrow> int" where
  "interval_span has_time iv =
     ip_days iv * 86400000000 + (if has_time then ip_micros iv else ip_micros iv sdiv 86400000000 * 86400000000)"

lemma days_in_month_pos: "1 \<le> m \<Longrightarrow> m \<le> 12 \<Longrightarrow> 1 \<le> days_in_month y m"
proof -
  assume "1 \<le> m" "m \<le> 12"
  then have "m \<in> {1, 3, 5, 7, 8, 10, 12} \<or> m \<in> {4, 6, 9, 11} \<or> m = 2" by simp presburger
  then show ?thesis by (elim disjE) (simp_all add: days_in_month_def)
qed

lemma month_shift_ok:
  assumes "valid_date (tp_year t) (tp_month t) (tp_day t)" "clock_ok t"
  shows "valid_date (tp_year (month_shift t n)) (tp_month (month_shift t n)) (tp_day (month_shift t n))"
    "clock_ok (month_shift t n)" "clock_of (month_shift t n) = clock_of t"
    "tp_has_time (month_shift t n) = tp_has_time t"
proof -
  let ?m = "(tp_year t * 12 + (tp_month t - 1) + n) mod 12 + 1"
  have "1 \<le> ?m" "?m \<le> 12" by simp_all
  then show "valid_date (tp_year (month_shift t n)) (tp_month (month_shift t n)) (tp_day (month_shift t n))"
    using assms(1) days_in_month_pos [of ?m] by (simp add: month_shift_def Let_def valid_date_def)
qed (use assms in \<open>simp_all add: month_shift_def Let_def clock_ok_def clock_of_def\<close>)

lemma add_months_eq:
  assumes "fits 64 (tp_month t - 1 + n)" "fits 64 (tp_year t + (tp_month t - 1 + n) div 12)"
  shows "add_months t n = Some (month_shift t n)"
proof -
  have "tp_year t * 12 + (tp_month t - 1) + n = (tp_month t - 1 + n) + tp_year t * 12" by simp
  then have "(tp_year t * 12 + (tp_month t - 1) + n) div 12 = tp_year t + (tp_month t - 1 + n) div 12"
    "(tp_year t * 12 + (tp_month t - 1) + n) mod 12 = (tp_month t - 1 + n) mod 12"
    by (simp_all only: div_mult_self1 mod_mult_self1 zero_neq_numeral not_False_eq_True)
  then show ?thesis using assms by (simp add: add_months_def month_shift_def Let_def)
qed

lemma clock_of_range: "clock_ok t \<Longrightarrow> 0 \<le> clock_of t \<and> clock_of t < 86400000000"
  by (simp add: clock_ok_def clock_of_def)

lemma day_micros_eq: "clock_ok t \<Longrightarrow> day_micros t = Some (clock_of t)"
  by (simp add: day_micros_def clock_ok_def clock_of_def fits_def)

lemma shifted_day_bound:
  assumes "valid_date y m d" "\<bar>y\<bar> \<le> 2 ^ 40"
  shows "\<bar>shifted_day y m d\<bar> \<le> 2 ^ 50"
proof -
  let ?k = "march_year y m"
  have b: "\<bar>?k\<bar> \<le> 2 ^ 40 + 1" using assms(2) by (auto simp: march_year_def)
  have "d \<le> 31" "1 \<le> d" "1 \<le> m" "m \<le> 12"
    using assms(1) by (auto simp: valid_date_def days_in_month_def split: if_splits)
  moreover from this have "0 \<le> month_start (month_index m)" "month_start (month_index m) \<le> 400"
    using month_index_range [of m] by (auto simp: month_start_def)
  ultimately show ?thesis
    using b by (simp add: shifted_day_eq year_start_def)
qed

lemma civil_from_days_shifted:
  "fits 64 z \<Longrightarrow> civil_from_days (z - 719468) = Some (civil_of_shifted z)"
  by (simp add: civil_from_days_def)

lemma days_from_civil_small:
  assumes "valid_date y m d" "\<bar>y\<bar> \<le> 2 ^ 40"
  shows "days_from_civil y m d = Some (shifted_day y m d - 719468)"
proof -
  note b = shifted_day_bound [OF assms]
  have v: "1 \<le> m" "m \<le> 12" "1 \<le> d" using assms(1) by (simp_all add: valid_date_def)
  have "\<bar>march_year y m div 400 * 146097\<bar> \<le> 2 ^ 60"
    using assms(2) by (simp add: march_year_def) linarith
  then have "fits 64 (march_year y m div 400 * 146097)" by (auto simp: fits_def)
  moreover have "fits 64 (shifted_day y m d)" "fits 64 (shifted_day y m d - 719468)"
    using b by (auto simp: fits_def)
  moreover have "- (2 ^ 63) + 400 \<le> y" "fits 64 y" using assms(2) by (auto simp: fits_def)
  ultimately show ?thesis using v by (simp add: days_from_civil_eq Let_def)
qed

text \<open>The clock of a microsecond of the day.\<close>

lemma clock_parts:
  assumes "0 \<le> u" "u < 86400000000"
    "tp_hour t = u sdiv 3600000000" "tp_minute t = u smod 3600000000 sdiv 60000000"
    "tp_second t = u smod 60000000 sdiv 1000000" "tp_micros t = u smod 1000000"
  shows "clock_ok t" "clock_of t = u"
proof -
  have nonneg: "0 \<le> u mod 3600000000" "0 \<le> u mod 60000000" by simp_all
  have c: "tp_hour t = u div 3600000000" "tp_minute t = u mod 3600000000 div 60000000"
      "tp_second t = u mod 60000000 div 1000000" "tp_micros t = u mod 1000000"
    by (simp_all only: assms(3-6) smod_nonneg [OF assms(1)] sdiv_nonneg [OF assms(1)]
        sdiv_nonneg [OF nonneg(1)] sdiv_nonneg [OF nonneg(2)] zero_less_numeral)
  show "clock_of t = u" by (simp only: clock_of_def c clock_recompose)
  show "clock_ok t" using assms(1,2) unfolding clock_ok_def c by auto
qed

lemma month_shift_year_bound:
  assumes "\<bar>tp_year t\<bar> \<le> 2 ^ 39" "1 \<le> tp_month t" "tp_month t \<le> 12" "\<bar>n\<bar> \<le> 2 ^ 31"
  shows "\<bar>tp_year (month_shift t n)\<bar> \<le> 2 ^ 40" "add_months t n = Some (month_shift t n)"
proof -
  show "\<bar>tp_year (month_shift t n)\<bar> \<le> 2 ^ 40"
    using assms by (simp add: month_shift_def Let_def)
  have "\<bar>tp_month t - 1 + n\<bar> \<le> 2 ^ 32" "\<bar>tp_year t + (tp_month t - 1 + n) div 12\<bar> \<le> 2 ^ 40"
    using assms by auto
  then show "add_months t n = Some (month_shift t n)"
    by (intro add_months_eq) (auto simp: fits_def)
qed

lemma checked_abs: "\<bar>n\<bar> \<le> 2 ^ 62 \<Longrightarrow> checked 64 n = Some n" "\<bar>n\<bar> \<le> 2 ^ 126 \<Longrightarrow> checked 128 n = Some n"
  by (auto simp: checked_def fits_def)

lemma civil_from_days_abs:
  "\<bar>z\<bar> \<le> 2 ^ 62 \<Longrightarrow> civil_from_days (z - 719468) = Some (civil_of_shifted z)"
  by (rule civil_from_days_shifted) (auto simp: fits_def)

lemma date_after_exact:
  assumes "\<bar>x\<bar> \<le> 2 ^ 51" "interval_ok iv" "sign = 1 \<or> sign = - 1"
  obtains t where "date_after (x - 719468) iv sign = Some t"
    "valid_date (tp_year t) (tp_month t) (tp_day t)" "clock_ok t" "\<not> tp_has_time t"
    "instant t = x * 86400000000 + ip_micros iv sdiv 86400000000 * 86400000000 * sign"
proof -
  define w where "w = ip_micros iv sdiv 86400000000"
  have w: "\<bar>w\<bar> \<le> 2 ^ 32" "\<bar>w * sign\<bar> \<le> 2 ^ 32"
    using assms(2,3) by (auto simp: w_def interval_ok_def fits_def signed_divide_int_def sgn_if)
  obtain y m d where c: "civil_of_shifted (x + w * sign) = (y, m, d)" by (cases "civil_of_shifted (x + w * sign)")
  define t where "t = \<lparr>tp_year = y, tp_month = m, tp_day = d, tp_hour = 0, tp_minute = 0,
      tp_second = 0, tp_micros = 0, tp_has_time = False\<rparr>"
  have "wrap 64 w = w" using w(1) by (intro wrap_fits) (auto simp: fits_def)
  moreover have "x - 719468 + w * sign = (x + w * sign) - 719468" by simp
  moreover have "civil_from_days ((x + w * sign) - 719468) = Some (y, m, d)"
    using civil_from_days_abs [of "x + w * sign"] assms(1) w(2) c by simp
  moreover have "checked 64 ((x + w * sign) - 719468) = Some ((x + w * sign) - 719468)" "checked 64 (w * sign) = Some (w * sign)"
    using assms(1) w(2) by (auto intro!: checked_abs)
  ultimately have "date_after (x - 719468) iv sign = Some t"
    by (simp only: date_after_def Let_def bind.bind_lunit w_def [symmetric] prod.case t_def)
  moreover have "instant t = x * 86400000000 + w * 86400000000 * sign"
    using shifted_day_of_civil(2) [OF c] by (simp add: instant_def t_def clock_of_def algebra_simps)
  ultimately show thesis
    using that [of t] shifted_day_of_civil(1) [OF c] by (simp add: t_def clock_ok_def w_def)
qed

lemma stamp_after_exact:
  assumes "\<bar>x\<bar> \<le> 2 ^ 51" "interval_ok iv" "sign = 1 \<or> sign = - 1" "clock_ok s"
  obtains t where "stamp_after True s (x - 719468) iv sign = Some t"
    "valid_date (tp_year t) (tp_month t) (tp_day t)" "clock_ok t" "tp_has_time t"
    "instant t = x * 86400000000 + clock_of s + ip_micros iv * sign"
proof -
  let ?D = "86400000000 :: int"
  define u where "u = clock_of s + ip_micros iv * sign"
  have iv: "\<bar>ip_micros iv * sign\<bar> \<le> 2 ^ 63"
    using assms(2,3) by (auto simp: interval_ok_def fits_def)
  then have u: "\<bar>u\<bar> \<le> 2 ^ 64" "\<bar>u div ?D\<bar> \<le> 2 ^ 32" "0 \<le> u mod ?D" "u mod ?D < ?D"
    using clock_of_range [OF assms(4)] by (auto simp: u_def)
  obtain y m d where c: "civil_of_shifted (x + u div ?D) = (y, m, d)" by (cases "civil_of_shifted (x + u div ?D)")
  define t where "t = \<lparr>tp_year = y, tp_month = m, tp_day = d,
      tp_hour = u mod ?D sdiv 3600000000, tp_minute = u mod ?D smod 3600000000 sdiv 60000000,
      tp_second = u mod ?D smod 60000000 sdiv 1000000, tp_micros = u mod ?D smod 1000000,
      tp_has_time = (True \<or> ip_micros iv \<noteq> 0)\<rparr>"
  have "wrap 64 (u div ?D) = u div ?D" using u(2) by (intro wrap_fits) (auto simp: fits_def)
  moreover have "x - 719468 + u div ?D = (x + u div ?D) - 719468" by simp
  moreover have "civil_from_days ((x + u div ?D) - 719468) = Some (y, m, d)"
    using civil_from_days_abs [of "x + u div ?D"] assms(1) u(2) c by simp
  moreover have "civil_from_days (x - 719468) = Some (civil_of_shifted x)"
    using assms(1) by (intro civil_from_days_abs) simp
  moreover have "checked 64 ((x + u div ?D) - 719468) = Some ((x + u div ?D) - 719468)"
    "checked 128 (ip_micros iv * sign) = Some (ip_micros iv * sign)" "checked 128 u = Some u"
    using assms(1) u iv by (auto intro!: checked_abs)
  ultimately have "stamp_after True s (x - 719468) iv sign = Some t"
    by (simp only: stamp_after_def day_micros_eq [OF assms(4)] bind.bind_lunit Let_def u_def [symmetric]
        option.case prod.case t_def)
  moreover have clock: "clock_ok t" "clock_of t = u mod ?D"
    using clock_parts [OF u(3,4), of t] by (simp_all add: t_def)
  moreover have "instant t = x * ?D + clock_of s + ip_micros iv * sign"
    using shifted_day_of_civil(2) [OF c] by (simp add: instant_def clock(2))
      (simp add: t_def u_def algebra_simps minus_div_mult_eq_mod [symmetric])
  ultimately show thesis using that [of t] shifted_day_of_civil(1) [OF c] by (simp add: t_def)
qed

lemma clock_of_date:
  assumes "zero_time t = t"
  shows "clock_of t = 0"
proof -
  have "clock_of (zero_time t) = 0" by (simp add: clock_of_def zero_time_def)
  then show ?thesis by (simp add: assms)
qed

lemma add_interval_parts_start:
  assumes "temporal_parts_ok t" "\<bar>tp_year t\<bar> \<le> 2 ^ 39" "interval_ok iv" "sign = (if add then 1 else - 1)"
    "s = month_shift t (ip_months iv * sign)"
    "x = shifted_day (tp_year s) (tp_month s) (tp_day s) + ip_days iv * sign"
  shows "add_interval_parts t iv add =
      (if \<not> tp_has_time t then date_after (x - 719468) iv sign
       else stamp_after (tp_has_time t) s (x - 719468) iv sign)" "\<bar>x\<bar> \<le> 2 ^ 51" "clock_ok s"
    "clock_of s = clock_of t"
proof -
  have iv: "\<bar>ip_months iv * sign\<bar> \<le> 2 ^ 31" "\<bar>ip_days iv * sign\<bar> \<le> 2 ^ 31"
    using assms(3) by (auto simp: interval_ok_def fits_def assms(4))
  have t: "valid_date (tp_year t) (tp_month t) (tp_day t)" "clock_ok t" "1 \<le> tp_month t" "tp_month t \<le> 12"
    using assms(1) by (simp_all add: temporal_parts_ok_def valid_date_def)
  note sy = month_shift_year_bound [OF assms(2) t(3,4) iv(1), folded assms(5)]
  note sv = month_shift_ok [OF t(1,2), of "ip_months iv * sign", folded assms(5)]
  show "\<bar>x\<bar> \<le> 2 ^ 51" using shifted_day_bound [OF sv(1) sy(1)] iv(2) by (simp add: assms(6))
  moreover have "checked 64 (ip_months iv * sign) = Some (ip_months iv * sign)"
    "checked 64 (ip_days iv * sign) = Some (ip_days iv * sign)"
    using iv by (auto intro!: checked_abs)
  moreover have "shifted_day (tp_year s) (tp_month s) (tp_day s) - 719468 + ip_days iv * sign = x - 719468"
    by (simp add: assms(6))
  moreover have "checked 64 (x - 719468) = Some (x - 719468)"
    using \<open>\<bar>x\<bar> \<le> 2 ^ 51\<close> by (intro checked_abs) auto
  ultimately show "add_interval_parts t iv add =
      (if \<not> tp_has_time t then date_after (x - 719468) iv sign
       else stamp_after (tp_has_time t) s (x - 719468) iv sign)"
    by (simp only: add_interval_parts_def assms(4) [symmetric] Let_def bind.bind_lunit sy(2)
        days_from_civil_small [OF sv(1) sy(1)])
  show "clock_ok s" "clock_of s = clock_of t" using sv by simp_all
qed

section \<open>Properties\<close>


definition sample_stamp :: temporal_parts where
  "sample_stamp = \<lparr>tp_year = 2024, tp_month = 2, tp_day = 29, tp_hour = 23, tp_minute = 5, tp_second = 9,
     tp_micros = 20, tp_has_time = True\<rparr>"


text \<open>
  A timestamp before the year 1 is printed with an era marker that the parser does not
  accept: its text is never read back.
\<close>

theorem era_marker_not_parsed:
  assumes "temporal_parts_ok t" "tp_year t \<le> 0" "tp_has_time t" "- (2 ^ 62) \<le> tp_year t"
  shows "parse_temporal (format_temporal t b) = None"
proof -
  let ?y = "1 - tp_year t"
  let ?d = "date_text ?y (tp_month t) (tp_day t)"
  let ?c = "''(BC) '' @ time_text (tp_hour t) (tp_minute t) (tp_second t) (tp_micros t)"
  have v: "0 \<le> ?y" "0 \<le> tp_month t" "0 \<le> tp_day t" "fits 64 ?y"
    using assms by (auto simp: temporal_parts_ok_def valid_date_def fits_def)
  have c: "0 \<le> tp_hour t" "0 \<le> tp_minute t" "0 \<le> tp_second t" "0 \<le> tp_micros t" "tp_micros t < 1000000"
    using assms(1) by (simp_all add: temporal_parts_ok_def clock_ok_def)
  have printed: "format_temporal t b = ?d @ CHR '' '' # ?c"
    using assms(2,3) v(4) by (simp add: format_temporal_eq)
  have "CHR ''T'' \<notin> set ?c" using chars_time_text [OF c(1-4)] by auto
  note split = split_date_time_stamp [OF v(1-3) this]
  have inner: "(case strip_both ''dt['' '']'' (trim (?d @ CHR '' '' # ?c)) of Some s \<Rightarrow> s | None \<Rightarrow> trim (?d @ CHR '' '' # ?c)) =
      ?d @ CHR '' '' # ?c"
    by (rule parse_temporal_digits) (simp_all add: hd_date_text [OF v(1)] last_time_text [OF c(3-5)])
  have "parse_clock (strip_timezone ?c) = None"
    using strip_timezone_paren [of "''BC) '' @ time_text (tp_hour t) (tp_minute t) (tp_second t) (tp_micros t)"]
    by (auto simp: parse_clock_paren) (simp add: parse_clock_def parse_signed_def parse_int_def)
  then show ?thesis
    unfolding printed parse_temporal_def Let_def inner split by (simp split: option.split prod.split)
qed

theorem era_marker_not_parsed_witness:
  "format_temporal (sample_stamp\<lparr>tp_year := 0\<rparr>) True = ''0001-02-29 (BC) 23:05:09.00002'' \<and>
   parse_temporal ''0001-02-29 (BC) 23:05:09.00002'' = None"
proof -
  have "format_temporal (sample_stamp\<lparr>tp_year := 0\<rparr>) True = ''0001-02-29 (BC) 23:05:09.00002''"
    "temporal_parts_ok (sample_stamp\<lparr>tp_year := 0\<rparr>)" by code_simp+
  then show ?thesis
    using era_marker_not_parsed [of "sample_stamp\<lparr>tp_year := 0\<rparr>" True] by (simp add: sample_stamp_def)
qed



end
