(* ===== verification/Runtime_Arithmetic.thy ===== *)
theory Runtime_Arithmetic
  imports Graph_Values Temporal_Text
begin

text \<open>
  Arithmetic on dynamic values (\<open>src/src/ir/runtime/expr/arithmetic.rs\<close>): integers of every
  width with the width of the result and its overflow errors, big integers and decimals, floats,
  lists, textual dates and intervals; and the list literals of
  \<open>src/src/ir/runtime/scalar/lists.rs\<close> and \<open>maps.rs\<close> that \<open>+\<close> accepts.

  A \<open>BigInt\<close> is an \<^typ>\<open>int\<close>, its division truncates.  IEEE arithmetic, the \<open>bigdecimal\<close> crate
  and the typed temporal values (\<open>src/src/ir/temporal\<close>) are the fields of \<open>arith_lib\<close>.
\<close>

section \<open>Operators, errors and the library\<close>

datatype binary_op =
  BO_Eq | BO_Neq | BO_Lt | BO_Lte | BO_Gt | BO_Gte | BO_Add | BO_Sub | BO_Mul | BO_Div | BO_And | BO_Or

text \<open>\<open>RuntimeError\<close>; the code of a diagnosis is a numeral, a catalog error its message.\<close>

datatype runtime_error =
    RE_Diagnosed nat string
  | RE_Catalog string
  | RE_Type string
  | RE_Runtime string
  | RE_Unbound string
  | RE_Unsupported string
  | RE_ExecutionLimit string

type_synonym decimal = "int \<times> int"

record arith_lib =
  f_arith :: "binary_op \<Rightarrow> f64 \<Rightarrow> f64 \<Rightarrow> f64"
  f_rem :: "f64 \<Rightarrow> f64 \<Rightarrow> f64"
  f_is_zero :: "f64 \<Rightarrow> bool"
  f_of_int :: "int \<Rightarrow> f64"
  f_of_f32 :: "f32 \<Rightarrow> f64"
  f_parse :: "string \<Rightarrow> f64 option"
  bigint_parse :: "string \<Rightarrow> int option"
  bigint_to_f64 :: "int \<Rightarrow> f64 option"
  decimal_to_f64 :: "decimal \<Rightarrow> f64 option"
  decimal_of_int :: "int \<Rightarrow> decimal"
  decimal_arith :: "binary_op \<Rightarrow> decimal \<Rightarrow> decimal \<Rightarrow> decimal"
  decimal_rem :: "decimal \<Rightarrow> decimal \<Rightarrow> decimal"
  decimal_is_zero :: "decimal \<Rightarrow> bool"
  fractional_digit_count :: "decimal \<Rightarrow> int"
  decimal_with_scale :: "decimal \<Rightarrow> int \<Rightarrow> decimal"
  temporal_arithmetic :: "binary_op \<Rightarrow> val \<Rightarrow> val \<Rightarrow> string + val"

section \<open>Integer operands\<close>

datatype integer_kind = K_I8 | K_U8 | K_I16 | K_U16 | K_I32 | K_U32 | K_I64 | K_U64 | K_I128 | K_U128

record integer_operand =
  io_value :: int
  io_kind :: integer_kind

definition integer_operand_of :: "val \<Rightarrow> integer_operand option" where
  "integer_operand_of v =
     (case v of
        V_Byte n \<Rightarrow> Some \<lparr>io_value = sint n, io_kind = K_I8\<rparr>
      | V_UInt8 n \<Rightarrow> Some \<lparr>io_value = uint n, io_kind = K_U8\<rparr>
      | V_Short n \<Rightarrow> Some \<lparr>io_value = sint n, io_kind = K_I16\<rparr>
      | V_UInt16 n \<Rightarrow> Some \<lparr>io_value = uint n, io_kind = K_U16\<rparr>
      | V_Int n \<Rightarrow> Some \<lparr>io_value = sint n, io_kind = (if fits 32 (sint n) then K_I32 else K_I64)\<rparr>
      | V_UInt32 n \<Rightarrow> Some \<lparr>io_value = uint n, io_kind = K_U32\<rparr>
      | V_Long n \<Rightarrow> Some \<lparr>io_value = sint n, io_kind = K_I64\<rparr>
      | V_UInt64 n \<Rightarrow> Some \<lparr>io_value = uint n, io_kind = K_U64\<rparr>
      | V_BigInt n \<Rightarrow> Some \<lparr>io_value = n, io_kind = K_I128\<rparr>
      | V_UInt128 n \<Rightarrow> Some \<lparr>io_value = n, io_kind = K_U128\<rparr>
      | _ \<Rightarrow> None)"

definition integer_rank :: "integer_kind \<Rightarrow> nat" where
  "integer_rank k =
     (if k \<in> {K_I8, K_U8} then 1 else if k \<in> {K_I16, K_U16} then 2 else if k \<in> {K_I32, K_U32} then 3
      else if k \<in> {K_I64, K_U64} then 4 else 5)"

definition integer_unsigned :: "integer_kind \<Rightarrow> bool" where
  "integer_unsigned k \<longleftrightarrow> k \<in> {K_U8, K_U16, K_U32, K_U64, K_U128}"

definition integer_bounds :: "integer_kind \<Rightarrow> int \<times> int" where
  "integer_bounds k =
     (case k of
        K_I8 \<Rightarrow> (- (2 ^ 7), 2 ^ 7 - 1) | K_U8 \<Rightarrow> (0, 2 ^ 8 - 1)
      | K_I16 \<Rightarrow> (- (2 ^ 15), 2 ^ 15 - 1) | K_U16 \<Rightarrow> (0, 2 ^ 16 - 1)
      | K_I32 \<Rightarrow> (- (2 ^ 31), 2 ^ 31 - 1) | K_U32 \<Rightarrow> (0, 2 ^ 32 - 1)
      | K_I64 \<Rightarrow> (- (2 ^ 63), 2 ^ 63 - 1) | K_U64 \<Rightarrow> (0, 2 ^ 64 - 1)
      | K_I128 \<Rightarrow> (- (2 ^ 127), 2 ^ 127 - 1) | K_U128 \<Rightarrow> (0, 2 ^ 128 - 1))"

definition integer_result_kind :: "integer_operand \<Rightarrow> integer_operand \<Rightarrow> integer_kind" where
  "integer_result_kind left right =
     (let lk = io_kind left; rk = io_kind right
      in if (lk, rk) \<in> {(K_U128, K_I128), (K_I128, K_U128)} \<and> \<not> io_value left < 0 \<and> \<not> io_value right < 0
         then K_U128
         else if integer_rank lk > integer_rank rk then lk
         else if integer_rank rk > integer_rank lk then rk
         else if integer_unsigned lk \<and> integer_unsigned rk then lk
         else if integer_rank lk = 1 then K_I8
         else if integer_rank lk = 2 then K_I16
         else if integer_rank lk = 3 then K_I32
         else if integer_rank lk = 4 then K_I64
         else K_I128)"

definition integer_type_name :: "integer_kind \<Rightarrow> string" where
  "integer_type_name k =
     (case k of
        K_I8 \<Rightarrow> ''INT8'' | K_U8 \<Rightarrow> ''UINT8'' | K_I16 \<Rightarrow> ''INT16'' | K_U16 \<Rightarrow> ''UINT16''
      | K_I32 \<Rightarrow> ''INT32'' | K_U32 \<Rightarrow> ''UINT32'' | K_I64 \<Rightarrow> ''INT64'' | K_U64 \<Rightarrow> ''UINT64''
      | K_I128 \<Rightarrow> ''INT128'' | K_U128 \<Rightarrow> ''UINT128'')"

definition operation_name :: "binary_op \<Rightarrow> string" where
  "operation_name op =
     (case op of BO_Add \<Rightarrow> ''add'' | BO_Sub \<Rightarrow> ''subtract'' | BO_Mul \<Rightarrow> ''multiply'' | BO_Div \<Rightarrow> ''divide''
      | _ \<Rightarrow> ''operate'')"

definition operation_symbol :: "binary_op \<Rightarrow> string" where
  "operation_symbol op =
     (case op of BO_Add \<Rightarrow> ''+'' | BO_Sub \<Rightarrow> ''-'' | BO_Mul \<Rightarrow> ''*'' | BO_Div \<Rightarrow> ''/'' | _ \<Rightarrow> ''?'')"

definition integer_overflow_error :: "int \<Rightarrow> int \<Rightarrow> binary_op \<Rightarrow> integer_kind \<Rightarrow> runtime_error" where
  "integer_overflow_error left right op k =
     (if k \<in> {K_I128, K_U128}
      then RE_Runtime (''Overflow exception: '' @ integer_type_name k @ '' is out of range: cannot ''
             @ operation_name op @ ''.'')
      else RE_Runtime (''Overflow exception: Value '' @ show_int left @ '' '' @ operation_symbol op @ '' ''
             @ show_int right @ '' is not within '' @ integer_type_name k @ '' range.''))"

definition integer_modulo_overflow_error :: "int \<Rightarrow> int \<Rightarrow> integer_kind \<Rightarrow> runtime_error" where
  "integer_modulo_overflow_error left right k =
     RE_Runtime (''Overflow exception: Value '' @ show_int left @ '' % '' @ show_int right
       @ '' is not within '' @ integer_type_name k @ '' range.'')"

definition modulo_by_zero_error :: runtime_error where
  "modulo_by_zero_error = RE_Runtime ''Runtime exception: Modulo by zero.''"

definition divide_by_zero_error :: runtime_error where
  "divide_by_zero_error = RE_Runtime ''Runtime exception: Divide by zero.''"

text \<open>\<open>to_i8\<close> and its siblings of \<open>ToPrimitive\<close>: the value when it is in the range of the type.\<close>

definition in_bounds :: "int \<times> int \<Rightarrow> int \<Rightarrow> bool" where
  "in_bounds b n \<longleftrightarrow> fst b \<le> n \<and> n \<le> snd b"

definition integer_value ::
  "int \<Rightarrow> integer_kind \<Rightarrow> int \<Rightarrow> int \<Rightarrow> binary_op \<Rightarrow> runtime_error + val" where
  "integer_value result k left right op =
     (let conv = (\<lambda>width mk. if in_bounds (integer_bounds width) result then Inr (mk result)
                               else Inl (integer_overflow_error left right op k))
      in case k of
           K_I8 \<Rightarrow> conv K_I8 (\<lambda>n. V_Byte (word_of_int n))
         | K_U8 \<Rightarrow> conv K_U8 (\<lambda>n. V_UInt8 (word_of_int n))
         | K_I16 \<Rightarrow> conv K_I16 (\<lambda>n. V_Short (word_of_int n))
         | K_U16 \<Rightarrow> conv K_U16 (\<lambda>n. V_UInt16 (word_of_int n))
         | K_I32 \<Rightarrow> conv K_I64 (\<lambda>n. V_Int (word_of_int n))
         | K_U32 \<Rightarrow> conv K_U32 (\<lambda>n. V_UInt32 (word_of_int n))
         | K_I64 \<Rightarrow> conv K_I64 (\<lambda>n. V_Long (word_of_int n))
         | K_U64 \<Rightarrow> conv K_U64 (\<lambda>n. V_UInt64 (word_of_int n))
         | K_I128 \<Rightarrow> Inr (V_BigInt result)
         | K_U128 \<Rightarrow> Inr (V_UInt128 result))"

text \<open>The match at the end of \<open>integer_arith\<close> is that of \<open>integer_value\<close>.\<close>

definition integer_arith :: "binary_op \<Rightarrow> integer_operand \<Rightarrow> integer_operand \<Rightarrow> runtime_error + val" where
  "integer_arith op left right =
     (let k = integer_result_kind left right; a = io_value left; b = io_value right;
          finish = (\<lambda>result. if \<not> in_bounds (integer_bounds k) result
                             then Inl (integer_overflow_error a b op k)
                             else integer_value result k a b op)
      in case op of
           BO_Add \<Rightarrow> finish (a + b)
         | BO_Sub \<Rightarrow> finish (a - b)
         | BO_Mul \<Rightarrow> finish (a * b)
         | BO_Div \<Rightarrow> if b = 0 then Inl divide_by_zero_error else finish (a sdiv b)
         | _ \<Rightarrow> Inr V_Null)"

definition integer_modulo :: "integer_operand \<Rightarrow> integer_operand \<Rightarrow> runtime_error + val" where
  "integer_modulo left right =
     (let k = integer_result_kind left right; a = io_value left; b = io_value right
      in if b = 0 then Inl modulo_by_zero_error
         else if \<not> integer_unsigned k \<and> a = fst (integer_bounds k) \<and> b = - 1
         then Inl (integer_modulo_overflow_error a b k)
         else
           let result = a smod b
           in if \<not> in_bounds (integer_bounds k) result then Inl (integer_modulo_overflow_error a b k)
              else integer_value result k a b BO_Div)"

section \<open>Decimals, big integers and floats\<close>

definition bigdecimal_arith :: "arith_lib \<Rightarrow> binary_op \<Rightarrow> decimal \<Rightarrow> decimal \<Rightarrow> val" where
  "bigdecimal_arith L op a b =
     (if op \<notin> {BO_Add, BO_Sub, BO_Mul, BO_Div} then V_Null
      else if op = BO_Div \<and> decimal_is_zero L b then V_Null
      else (case decimal_arith L op a b of (n, s) \<Rightarrow> V_BigDecimal n s))"

definition float_arith :: "arith_lib \<Rightarrow> binary_op \<Rightarrow> f64 \<Rightarrow> f64 \<Rightarrow> val" where
  "float_arith L op a b =
     (if op \<in> {BO_Add, BO_Sub, BO_Mul, BO_Div} then V_Float (f_arith L op a b) else V_Null)"

definition decimal_operand :: "arith_lib \<Rightarrow> val \<Rightarrow> decimal option" where
  "decimal_operand L v =
     (case v of
        V_BigDecimal n s \<Rightarrow> Some (n, s)
      | _ \<Rightarrow> map_option (\<lambda>x. decimal_of_int L (io_value x)) (integer_operand_of v))"

definition float_operand :: "arith_lib \<Rightarrow> val \<Rightarrow> f64 option" where
  "float_operand L v =
     (case v of
        V_Byte n \<Rightarrow> Some (f_of_int L (sint n))
      | V_UInt8 n \<Rightarrow> Some (f_of_int L (uint n))
      | V_Short n \<Rightarrow> Some (f_of_int L (sint n))
      | V_UInt16 n \<Rightarrow> Some (f_of_int L (uint n))
      | V_Int n \<Rightarrow> Some (f_of_int L (sint n))
      | V_Long n \<Rightarrow> Some (f_of_int L (sint n))
      | V_UInt32 n \<Rightarrow> Some (f_of_int L (uint n))
      | V_UInt64 n \<Rightarrow> Some (f_of_int L (uint n))
      | V_Float32 n \<Rightarrow> Some (f_of_f32 L n)
      | V_Float n \<Rightarrow> Some n
      | V_BigInt n \<Rightarrow> bigint_to_f64 L n
      | V_UInt128 n \<Rightarrow> bigint_to_f64 L n
      | V_BigDecimal n s \<Rightarrow> decimal_to_f64 L (n, s)
      | _ \<Rightarrow> None)"

definition modulo :: "arith_lib \<Rightarrow> val \<Rightarrow> val \<Rightarrow> runtime_error + val" where
  "modulo L lhs rhs =
     (if lhs = V_Null \<or> rhs = V_Null then Inr V_Null
      else
        (case (integer_operand_of lhs, integer_operand_of rhs) of
           (Some left, Some right) \<Rightarrow> integer_modulo left right
         | _ \<Rightarrow>
           (case (decimal_operand L lhs, decimal_operand L rhs) of
              (Some left, Some right) \<Rightarrow>
                if decimal_is_zero L right then Inl modulo_by_zero_error
                else
                  let scale = max (fractional_digit_count L left) (fractional_digit_count L right);
                      result = decimal_rem L left right;
                      (n, s) = (if scale > 0 then decimal_with_scale L result scale else result)
                  in Inr (V_BigDecimal n s)
            | _ \<Rightarrow>
              (case (float_operand L lhs, float_operand L rhs) of
                 (Some left, Some right) \<Rightarrow>
                   if f_is_zero L right then Inl modulo_by_zero_error
                   else Inr (V_Float (f_rem L left right))
               | _ \<Rightarrow> Inr V_Null))))"

section \<open>List literals\<close>

fun split_commas_loop :: "char option \<Rightarrow> bool \<Rightarrow> int \<Rightarrow> string \<Rightarrow> string \<Rightarrow> string list" where
  "split_commas_loop quote escaped depth acc [] = [acc]"
| "split_commas_loop quote escaped depth acc (c # cs) =
     (case quote of
        Some q \<Rightarrow>
          if escaped then split_commas_loop quote False depth (acc @ [c]) cs
          else if c = CHR 0x5C then split_commas_loop quote True depth (acc @ [c]) cs
          else if c = q then split_commas_loop None False depth (acc @ [c]) cs
          else split_commas_loop quote False depth (acc @ [c]) cs
      | None \<Rightarrow>
          if c \<in> {CHR 0x27, CHR 0x22} then split_commas_loop (Some c) escaped depth (acc @ [c]) cs
          else if c \<in> {CHR ''['', CHR 0x7B, CHR ''(''} then split_commas_loop None escaped (depth + 1) (acc @ [c]) cs
          else if c \<in> {CHR '']'', CHR 0x7D, CHR '')''} then split_commas_loop None escaped (depth - 1) (acc @ [c]) cs
          else if c = CHR '','' \<and> depth = 0 then acc # split_commas_loop None escaped depth [] cs
          else split_commas_loop None escaped depth (acc @ [c]) cs)"

definition split_top_level_commas :: "string \<Rightarrow> string list" where
  "split_top_level_commas s = split_commas_loop None False 0 [] s"

lemma length_split_commas_loop:
  "x \<in> set (split_commas_loop q e d acc s) \<Longrightarrow> length x \<le> length acc + length s"
proof (induction s arbitrary: q e d acc)
  case (Cons c cs)
  have "x = acc \<or> (\<exists>q' e' d' acc'. length acc' \<le> length acc + 1 \<and> x \<in> set (split_commas_loop q' e' d' acc' cs))"
  proof (cases q)
    case None
    then show ?thesis
      using Cons.prems by (simp split: if_splits) (metis le_add2 length_append_singleton list.size(3) Suc_eq_plus1 order_refl zero_le)+
  next
    case (Some q')
    then show ?thesis
      using Cons.prems by (simp split: if_splits) (metis length_append_singleton order_refl)+
  qed
  then show ?case using Cons.IH by fastforce
qed simp

lemma length_split_top_level_commas: "x \<in> set (split_top_level_commas s) \<Longrightarrow> length x \<le> length s"
  using length_split_commas_loop by (fastforce simp: split_top_level_commas_def)

definition parse_runtime_atom :: "arith_lib \<Rightarrow> string \<Rightarrow> val" where
  "parse_runtime_atom L s =
     (let unplus = (if prefix ''+'' s then tl s else s);
          integer = (if prefix ''-'' unplus then tl unplus else unplus)
      in if integer \<noteq> [] \<and> list_all (\<lambda>c. is_ascii_digit c \<or> c = CHR ''_'') integer
         then
           let cleaned = filter (\<lambda>c. c \<noteq> CHR ''_'') s
           in case parse_i64 cleaned of
                Some n \<Rightarrow> V_Long n
              | None \<Rightarrow> (case bigint_parse L cleaned of Some n \<Rightarrow> V_BigInt n | None \<Rightarrow> V_String s)
         else (case f_parse L s of Some x \<Rightarrow> V_Float x | None \<Rightarrow> V_String s))"

definition parse_quoted_or_atom :: "arith_lib \<Rightarrow> string \<Rightarrow> val" where
  "parse_quoted_or_atom L s =
     (if length s \<ge> 2 \<and>
         (prefix [CHR 0x22] s \<and> suffix [CHR 0x22] s \<or> prefix [CHR 0x27] s \<and> suffix [CHR 0x27] s)
      then V_String (butlast (tl s))
      else if to_ascii_lowercase s = ''null'' then V_Null
      else if to_ascii_lowercase s = ''true'' then V_Bool True
      else if to_ascii_lowercase s = ''false'' then V_Bool False
      else parse_runtime_atom L s)"

text \<open>
  \<open>parse_runtime_list_literal\<close> and \<open>parse_runtime_list_item\<close>, which call each other: an item that is
  itself a literal is a nested list.
\<close>

function parse_runtime_list_literal :: "arith_lib \<Rightarrow> string \<Rightarrow> val list option" where
  "parse_runtime_list_literal L s =
     (case strip_both ''['' '']'' (trim s) of
        None \<Rightarrow> None
      | Some inner \<Rightarrow>
          if trim inner = [] then Some []
          else Some (map (\<lambda>part.
                 case parse_runtime_list_literal L (trim (trim part)) of
                   Some items \<Rightarrow> V_List items
                 | None \<Rightarrow> parse_quoted_or_atom L (trim (trim part)))
                 (split_top_level_commas inner)))"
  by pat_completeness auto
termination
proof (relation "measure (\<lambda>(L, s). length s)", goal_cases)
  case (2 L s inner part)
  have "length (trim (trim part)) \<le> length part" using length_trim order_trans by blast
  also have "\<dots> \<le> length inner" by (rule length_split_top_level_commas [OF 2(3)])
  also have "\<dots> < length (trim s)" by (rule length_strip_both [OF 2(1)]) simp
  also have "\<dots> \<le> length s" by (rule length_trim)
  finally show ?case by simp
qed simp

declare parse_runtime_list_literal.simps [simp del]

definition runtime_list :: "arith_lib \<Rightarrow> val \<Rightarrow> val list option" where
  "runtime_list L v =
     (case v of
        V_Set items \<Rightarrow> Some items
      | V_List items \<Rightarrow> Some items
      | V_BulkSet items \<Rightarrow> Some items
      | V_Path items \<Rightarrow> Some items
      | V_String s \<Rightarrow> parse_runtime_list_literal L s
      | _ \<Rightarrow> None)"

section \<open>Dates and strings\<close>

definition looks_like_date :: "string \<Rightarrow> bool" where
  "looks_like_date s =
     (let parts = split_on (CHR ''-'') (take_chars 10 s)
      in length parts = 3 \<and> length (parts ! 0) = 4 \<and> list_all (list_all is_ascii_digit) parts)"

definition date_shift :: "string \<Rightarrow> int \<Rightarrow> bool \<Rightarrow> val" where
  "date_shift raw days add =
     (case split_on (CHR ''-'') (take_chars 10 (trim raw)) of
        [y, m, d] \<Rightarrow>
          (case (parse_signed 64 y, parse_unsigned 32 m, parse_unsigned 32 d) of
             (Some year, Some month, Some day) \<Rightarrow>
               (case days_from_civil year month day of
                  None \<Rightarrow> V_Null
                | Some start \<Rightarrow>
                    (case checked 64 (if add then start + days else start - days) of
                       None \<Rightarrow> V_Null
                     | Some target \<Rightarrow>
                         (case civil_from_days target of
                            None \<Rightarrow> V_Null
                          | Some (y, m, d) \<Rightarrow>
                              V_DateTime (show_padded 4 y @ ''-'' @ show_padded 2 m @ ''-'' @ show_padded 2 d))))
           | _ \<Rightarrow> V_Null)
      | _ \<Rightarrow> V_Null)"

text \<open>\<open>.map(Value::String).unwrap_or(Value::Null)\<close>.\<close>

definition some_or_null :: "(string \<Rightarrow> val) \<Rightarrow> string option \<Rightarrow> val" where
  "some_or_null mk r = (case r of Some s \<Rightarrow> mk s | None \<Rightarrow> V_Null)"

text \<open>The arm for two strings and \<open>Add\<close> or \<open>Sub\<close>.\<close>

definition string_arith :: "bool \<Rightarrow> string \<Rightarrow> string \<Rightarrow> val" where
  "string_arith add a b =
     (case (parse_interval a, parse_interval b) of
        (Some left, Some right) \<Rightarrow>
          some_or_null V_String (map_option format_interval
            (if add then add_intervals left right else subtract_intervals left right))
      | (ia, ib) \<Rightarrow>
          if parse_temporal a \<noteq> None \<and> ib \<noteq> None
          then some_or_null V_String (add_interval_to_temporal a (the ib) add)
          else if add \<and> ia \<noteq> None \<and> parse_temporal b \<noteq> None
          then some_or_null V_String (add_interval_to_temporal b (the ia) True)
          else if add then V_String (a @ b) else V_Null)"

section \<open>The operator\<close>

text \<open>The arms that widen one operand and call \<open>arithmetic\<close> again.\<close>

definition promote :: "arith_lib \<Rightarrow> val \<Rightarrow> val" where
  "promote L v =
     (case v of
        V_Byte n \<Rightarrow> V_Int (word_of_int (sint n))
      | V_Short n \<Rightarrow> V_Int (word_of_int (sint n))
      | V_Long n \<Rightarrow> V_Int n
      | V_Float32 x \<Rightarrow> V_Float (f_of_f32 L x)
      | _ \<Rightarrow> v)"

text \<open>The operands a decimal is combined with exactly.\<close>

definition exact_operand :: "arith_lib \<Rightarrow> val \<Rightarrow> decimal option" where
  "exact_operand L v =
     (case v of
        V_UInt8 n \<Rightarrow> Some (decimal_of_int L (uint n))
      | V_UInt16 n \<Rightarrow> Some (decimal_of_int L (uint n))
      | V_UInt32 n \<Rightarrow> Some (decimal_of_int L (uint n))
      | V_UInt64 n \<Rightarrow> Some (decimal_of_int L (uint n))
      | V_Int n \<Rightarrow> Some (decimal_of_int L (sint n))
      | V_BigInt n \<Rightarrow> Some (decimal_of_int L n)
      | V_UInt128 n \<Rightarrow> Some (decimal_of_int L n)
      | _ \<Rightarrow> None)"

definition is_decimal :: "val \<Rightarrow> bool" where
  "is_decimal v = (case v of V_BigDecimal _ _ \<Rightarrow> True | _ \<Rightarrow> False)"

text \<open>The arms with a decimal operand.\<close>

definition arith_decimal :: "arith_lib \<Rightarrow> binary_op \<Rightarrow> val \<Rightarrow> val \<Rightarrow> val" where
  "arith_decimal L op lhs rhs =
     (case lhs of
        V_BigDecimal n s \<Rightarrow>
          (case rhs of
             V_BigDecimal m t \<Rightarrow> bigdecimal_arith L op (n, s) (m, t)
           | V_Float b \<Rightarrow> (case decimal_to_f64 L (n, s) of None \<Rightarrow> V_Null | Some a \<Rightarrow> float_arith L op a b)
           | other \<Rightarrow> (case exact_operand L other of None \<Rightarrow> V_Null | Some b \<Rightarrow> bigdecimal_arith L op (n, s) b))
      | _ \<Rightarrow>
          (case rhs of
             V_BigDecimal m t \<Rightarrow>
               (case lhs of
                  V_Float b \<Rightarrow> (case decimal_to_f64 L (m, t) of None \<Rightarrow> V_Null | Some a \<Rightarrow> float_arith L op a b)
                | other \<Rightarrow> (case exact_operand L other of None \<Rightarrow> V_Null | Some a \<Rightarrow> bigdecimal_arith L op a (m, t)))
           | _ \<Rightarrow> V_Null))"

text \<open>The numeric arms with a float operand; \<open>None\<close> where no such arm applies.\<close>

definition arith_float :: "arith_lib \<Rightarrow> binary_op \<Rightarrow> val \<Rightarrow> val \<Rightarrow> val option" where
  "arith_float L op lhs rhs =
     (case lhs of
        V_Float a \<Rightarrow>
          (case rhs of
             V_Float b \<Rightarrow> Some (V_Float (f_arith L op a b))
           | V_Int b \<Rightarrow> Some (V_Float (f_arith L op a (f_of_int L (sint b))))
           | V_BigInt b \<Rightarrow>
               Some (case bigint_to_f64 L b of None \<Rightarrow> V_Null | Some b \<Rightarrow> float_arith L op a b)
           | _ \<Rightarrow> None)
      | V_Int a \<Rightarrow>
          (case rhs of V_Float b \<Rightarrow> Some (V_Float (f_arith L op (f_of_int L (sint a)) b)) | _ \<Rightarrow> None)
      | V_BigInt a \<Rightarrow>
          (case rhs of
             V_Float b \<Rightarrow> Some (case bigint_to_f64 L a of None \<Rightarrow> V_Null | Some a \<Rightarrow> float_arith L op a b)
           | _ \<Rightarrow> None)
      | _ \<Rightarrow> None)"

definition concat_lists :: "val list option \<Rightarrow> val list option \<Rightarrow> val \<Rightarrow> val \<Rightarrow> val" where
  "concat_lists l r left right =
     (case l of
        Some xs \<Rightarrow> (case r of Some ys \<Rightarrow> V_List (xs @ ys) | None \<Rightarrow> V_List (xs @ [right]))
      | None \<Rightarrow> (case r of Some ys \<Rightarrow> V_List (left # ys) | None \<Rightarrow> V_Null))"

text \<open>
  The arms on strings and dates, by the constructors of the operands.  The arms after them for
  \<open>Value::List\<close> are never reached: \<open>runtime_list\<close> accepts every list.
\<close>

definition arith_text :: "binary_op \<Rightarrow> val \<Rightarrow> val \<Rightarrow> val" where
  "arith_text op lhs rhs =
     (let add = (op = BO_Add); add_sub = (op \<in> {BO_Add, BO_Sub})
      in case lhs of
           V_String a \<Rightarrow>
             (case rhs of
                V_String b \<Rightarrow> if add_sub then string_arith add a b else V_Null
              | V_DateTime b \<Rightarrow>
                  if add then
                    (case parse_interval a of
                       Some iv \<Rightarrow> some_or_null V_DateTime (add_interval_to_temporal b iv True)
                     | None \<Rightarrow> V_Null)
                  else V_Null
              | V_Int n \<Rightarrow>
                  if op = BO_Div then
                    (case parse_interval a of
                       Some iv \<Rightarrow> some_or_null V_String (map_option format_interval (divide_interval iv (sint n)))
                     | None \<Rightarrow> V_Null)
                  else if add_sub \<and> looks_like_date a then date_shift a (sint n) add
                  else V_Null
              | _ \<Rightarrow> V_Null)
         | V_DateTime a \<Rightarrow>
             (case rhs of
                V_String b \<Rightarrow>
                  if add_sub then
                    (case parse_interval b of
                       Some iv \<Rightarrow> some_or_null V_DateTime (add_interval_to_temporal a iv add)
                     | None \<Rightarrow> V_Null)
                  else V_Null
              | V_Int n \<Rightarrow> if add_sub then date_shift a (sint n) add else V_Null
              | _ \<Rightarrow> V_Null)
         | V_Int n \<Rightarrow>
             (case rhs of
                V_DateTime b \<Rightarrow> if add then date_shift b (sint n) True else V_Null
              | V_String b \<Rightarrow> if add \<and> looks_like_date b then date_shift b (sint n) True else V_Null
              | _ \<Rightarrow> V_Null)
         | _ \<Rightarrow> V_Null)"

definition is_temporal :: "val \<Rightarrow> bool" where
  "is_temporal v = (case v of V_Temporal _ \<Rightarrow> True | _ \<Rightarrow> False)"

text \<open>
  \<open>arithmetic\<close>, called with \<open>Add\<close>, \<open>Sub\<close>, \<open>Mul\<close> and \<open>Div\<close>.  Two integer operands never reach the
  match on the constructors, so its integer arms (\<open>bigint_arith\<close>, \<open>checked_int\<close>) have no case here.
\<close>

definition arithmetic :: "arith_lib \<Rightarrow> binary_op \<Rightarrow> val \<Rightarrow> val \<Rightarrow> runtime_error + val" where
  "arithmetic L op lhs rhs =
     (if is_temporal lhs \<or> is_temporal rhs
      then (case temporal_arithmetic L op lhs rhs of Inl e \<Rightarrow> Inl (RE_Type e) | Inr v \<Rightarrow> Inr v)
      else
        (case (integer_operand_of lhs, integer_operand_of rhs) of
           (Some left, Some right) \<Rightarrow> integer_arith op left right
         | _ \<Rightarrow>
             if lhs = V_Null \<or> rhs = V_Null then Inr V_Null
             else
               let l = promote L lhs; r = promote L rhs
               in if is_decimal l \<or> is_decimal r then Inr (arith_decimal L op l r)
                  else
                    (case arith_float L op l r of
                       Some v \<Rightarrow> Inr v
                     | None \<Rightarrow>
                         if op = BO_Add \<and> (runtime_list L l \<noteq> None \<or> runtime_list L r \<noteq> None)
                         then Inr (concat_lists (runtime_list L l) (runtime_list L r) l r)
                         else Inr (arith_text op l r))))"

section \<open>Integer arithmetic\<close>

text \<open>The mathematical result of an operator.\<close>

definition exact_result :: "binary_op \<Rightarrow> int \<Rightarrow> int \<Rightarrow> int" where
  "exact_result op a b =
     (case op of BO_Add \<Rightarrow> a + b | BO_Sub \<Rightarrow> a - b | BO_Mul \<Rightarrow> a * b | _ \<Rightarrow> a sdiv b)"

lemma sint_word_of_int_8: "- (2 ^ 7) \<le> n \<Longrightarrow> n \<le> 2 ^ 7 - 1 \<Longrightarrow> sint (word_of_int n :: i8) = n"
  by (simp add: sint_sbintrunc' signed_take_bit_int_eq_self)

lemma sint_word_of_int_16: "- (2 ^ 15) \<le> n \<Longrightarrow> n \<le> 2 ^ 15 - 1 \<Longrightarrow> sint (word_of_int n :: i16) = n"
  by (simp add: sint_sbintrunc' signed_take_bit_int_eq_self)

lemma sint_word_of_int_64: "- (2 ^ 63) \<le> n \<Longrightarrow> n \<le> 2 ^ 63 - 1 \<Longrightarrow> sint (word_of_int n :: i64) = n"
  by (simp add: sint_sbintrunc' signed_take_bit_int_eq_self)

lemma uint_word_of_int_id:
  "0 \<le> n \<Longrightarrow> n < 2 ^ LENGTH('a) \<Longrightarrow> uint (word_of_int n :: 'a::len word) = n"
  by (simp add: uint_word_of_int_eq take_bit_int_eq_self)

lemma integer_value_in_bounds:
  assumes "in_bounds (integer_bounds k) n"
  obtains v where "integer_value n k a b op = Inr v" "integer_operand_of v = Some \<lparr>io_value = n, io_kind = k\<rparr>"
proof -
  have r: "fst (integer_bounds k) \<le> n" "n \<le> snd (integer_bounds k)"
    using assms by (simp_all add: in_bounds_def)
  have "\<exists>v. integer_value n k a b op = Inr v \<and> integer_operand_of v = Some \<lparr>io_value = n, io_kind = k\<rparr>"
    by (cases k) (use r in \<open>simp_all add: integer_value_def integer_bounds_def in_bounds_def integer_operand_of_def
        sint_word_of_int_8 sint_word_of_int_16 sint_word_of_int_64 fits_def uint_word_of_int_id\<close>)
  then show thesis using that by blast
qed

lemma integer_result_kind_sym: "integer_result_kind a b = integer_result_kind b a"
  by (cases "io_kind a"; cases "io_kind b")
    (simp_all add: integer_result_kind_def integer_rank_def integer_unsigned_def Let_def)

lemma not_temporal_integer: "integer_operand_of v = Some x \<Longrightarrow> \<not> is_temporal v \<and> v \<noteq> V_Null"
  by (auto simp: integer_operand_of_def is_temporal_def split: val.splits)

lemma arithmetic_integers:
  assumes "integer_operand_of l = Some a" "integer_operand_of r = Some b"
  shows "arithmetic L op l r = integer_arith op a b" "modulo L l r = integer_modulo a b"
  using assms not_temporal_integer [OF assms(1)] not_temporal_integer [OF assms(2)]
  by (simp_all add: arithmetic_def modulo_def)

lemma smod_props:
  assumes "(b :: int) \<noteq> 0"
  shows "a = a sdiv b * b + a smod b" "\<bar>a smod b\<bar> < \<bar>b\<bar>" "a smod b = 0 \<or> sgn (a smod b) = sgn a"
    "\<bar>a smod b\<bar> \<le> \<bar>a\<bar>"
proof -
  show "a = a sdiv b * b + a smod b" by (rule sdiv_mult_smod_eq [symmetric])
  have n: "0 \<le> \<bar>a\<bar> mod \<bar>b\<bar>" "\<bar>a\<bar> mod \<bar>b\<bar> < \<bar>b\<bar>" "\<bar>a\<bar> mod \<bar>b\<bar> \<le> \<bar>a\<bar>"
    using assms by (simp_all add: zmod_le_nonneg_dividend)
  show "\<bar>a smod b\<bar> < \<bar>b\<bar>" "a smod b = 0 \<or> sgn (a smod b) = sgn a" "\<bar>a smod b\<bar> \<le> \<bar>a\<bar>"
    using n by (auto simp: signed_modulo_int_def sgn_if)
qed

lemma bounds_contain_zero: "fst (integer_bounds k) \<le> 0" "0 \<le> snd (integer_bounds k)"
  by (cases k; simp add: integer_bounds_def)+

lemma in_bounds_smod:
  assumes "in_bounds (integer_bounds k) a" "b \<noteq> 0"
  shows "in_bounds (integer_bounds k) (a smod b)"
  using assms smod_props [OF assms(2), of a] bounds_contain_zero [of k]
  by (auto simp: in_bounds_def sgn_if split: if_splits)

section \<open>Shifting dates\<close>

lemma length_show_padded:
  assumes "0 \<le> n" "n < 10 ^ Suc k"
  shows "length (show_padded (Suc k) n) = Suc k"
proof -
  have "nat n < 10 ^ Suc k" using assms by (simp add: nat_less_iff)
  then show ?thesis using assms(1) length_show_nat [of "nat n" k] by (simp add: show_padded_def pad_zeros_def)
qed

lemma take_chars_date_text:
  assumes "valid_date y m d" "0 \<le> y" "y \<le> 9999"
  shows "take_chars 10 (date_text y m d) = date_text y m d"
proof -
  have md: "0 \<le> m" "m < 100" "0 \<le> d" "d < 100"
    using assms(1) by (auto simp: valid_date_def days_in_month_def split: if_splits)
  then have "length (date_text y m d) = 10"
    using length_show_padded [of y 3] length_show_padded [of m 1] length_show_padded [of d 1] assms(2,3)
    by (simp add: date_text_def numeral_2_eq_2 numeral_eq_Suc)
  moreover have "list_all (\<lambda>c. \<not> continuation c) (date_text y m d)"
    using chars_date_text [OF assms(2) md(1,3)]
    by (auto simp: list_all_iff continuation_def is_ascii_digit_def subset_iff)
  ultimately show ?thesis by (simp add: take_chars_ascii)
qed

lemma date_shift_days:
  assumes "valid_date y m d" "0 \<le> y" "y \<le> 9999" "k \<le> 2 ^ 40"
  shows "date_shift (date_text y m d) (int k) True =
    V_DateTime (case (next_day ^^ k) (y, m, d) of (y', m', d') \<Rightarrow> date_text y' m' d')"
proof -
  have md: "0 \<le> m" "m < 2 ^ 32" "0 \<le> d" "d < 2 ^ 32"
    using assms(1) by (auto simp: valid_date_def days_in_month_def split: if_splits)
  have "tight (date_text y m d)"
    using hd_date_text [OF assms(2)] last_date_text [OF md(3)] by (intro tight_graphic) (simp_all add: digit_graphic)
  then have first: "take_chars 10 (trim (date_text y m d)) = date_text y m d"
    using assms(1-3) by (simp add: trim_tight take_chars_date_text)
  have nodash: "CHR ''-'' \<notin> set (show_padded w n)" if "0 \<le> n" for n w
    using digits_notin [OF digits_show_padded [OF that]] by simp
  have split: "split_on (CHR ''-'') (date_text y m d) = [show_padded 4 y, show_padded 2 m, show_padded 2 d]"
    using assms(2) md nodash by (simp add: date_text_def split_on_sep split_on_last del: split_on.simps)
  have y: "\<bar>y\<bar> \<le> 2 ^ 40" "fits 64 y" using assms(2,3) by (auto simp: fits_def)
  let ?z = "shifted_day y m d"
  have k: "int k \<le> 2 ^ 40" using assms(4) by (simp add: numeral_power_le_of_nat_cancel_iff)
  have z: "\<bar>?z\<bar> \<le> 2 ^ 50" by (rule shifted_day_bound [OF assms(1) y(1)])
  have "checked 64 (?z - 719468 + int k) = Some (?z - 719468 + int k)"
    using z k by (intro checked_abs) auto
  moreover have "?z - 719468 + int k = (?z + int k) - 719468" by simp
  moreover have "civil_from_days ((?z + int k) - 719468) = Some ((next_day ^^ k) (y, m, d))"
    using z k civil_from_days_abs [of "?z + int k"]
    by (simp add: civil_of_shifted_steps civil_of_shifted_day [OF assms(1)])
  moreover have "parse_signed 64 (show_padded 4 y) = Some y" "parse_unsigned 32 (show_padded 2 m) = Some m"
    "parse_unsigned 32 (show_padded 2 d) = Some d"
    using y md by (simp_all add: parse_signed_show_padded parse_unsigned_show_padded)
  ultimately show ?thesis
    unfolding date_shift_def first split
    by (simp only: list.case option.case prod.case days_from_civil_small [OF assms(1) y(1)] if_True)
      (cases "(next_day ^^ k) (y, m, d)", simp add: date_text_def)
qed

section \<open>Properties\<close>

text \<open>
  C25: Integer arithmetic is exact and never wraps.  For two integer values of any widths and an
  operator other than a division by zero, let \<open>n\<close> be the mathematical result (division truncates)
  and \<open>k\<close> the result kind of the operands: if \<open>n\<close> is in the range of \<open>k\<close> the result is the integer
  value \<open>n\<close> of kind \<open>k\<close>, and otherwise it is the overflow error.
\<close>

theorem integer_arithmetic_exact:
  assumes "integer_operand_of l = Some a" "integer_operand_of r = Some b"
    "op \<in> {BO_Add, BO_Sub, BO_Mul, BO_Div}" "op = BO_Div \<longrightarrow> io_value b \<noteq> 0"
  shows "let n = exact_result op (io_value a) (io_value b); k = integer_result_kind a b
    in if in_bounds (integer_bounds k) n
       then \<exists>v. arithmetic L op l r = Inr v \<and> integer_operand_of v = Some \<lparr>io_value = n, io_kind = k\<rparr>
       else arithmetic L op l r = Inl (integer_overflow_error (io_value a) (io_value b) op k)"
proof -
  let ?n = "exact_result op (io_value a) (io_value b)" and ?k = "integer_result_kind a b"
  have eq: "arithmetic L op l r =
      (if \<not> in_bounds (integer_bounds ?k) ?n then Inl (integer_overflow_error (io_value a) (io_value b) op ?k)
       else integer_value ?n ?k (io_value a) (io_value b) op)"
    using assms(3,4) unfolding arithmetic_integers [OF assms(1,2)]
    by (auto simp: integer_arith_def exact_result_def Let_def)
  show ?thesis
  proof (cases "in_bounds (integer_bounds ?k) ?n")
    case True
    from integer_value_in_bounds [OF this] obtain v where
      "integer_value ?n ?k (io_value a) (io_value b) op = Inr v"
      "integer_operand_of v = Some \<lparr>io_value = ?n, io_kind = ?k\<rparr>" .
    with True eq show ?thesis by (auto simp: Let_def)
  qed (simp add: eq Let_def)
qed

text \<open>A library with integer stand-ins for floats and decimals, for concrete evaluations.\<close>

definition plain_lib :: arith_lib where
  "plain_lib = \<lparr>
     f_arith = (\<lambda>op a b. if op = BO_Add then a + b else a - b),
     f_rem = (\<lambda>a b. a), f_is_zero = (\<lambda>a. a = 0), f_of_int = word_of_int, f_of_f32 = (\<lambda>x. ucast x),
     f_parse = (\<lambda>_. None), bigint_parse = parse_int, bigint_to_f64 = (\<lambda>n. Some (word_of_int n)),
     decimal_to_f64 = (\<lambda>(n, s). Some (word_of_int n)), decimal_of_int = (\<lambda>n. (n, 0)),
     decimal_arith = (\<lambda>_ a b. a), decimal_rem = (\<lambda>a b. a), decimal_is_zero = (\<lambda>(n, s). n = 0),
     fractional_digit_count = snd, decimal_with_scale = (\<lambda>(n, s) t. (n, t)),
     temporal_arithmetic = (\<lambda>_ _ _. Inl ''unsupported'')\<rparr>"

theorem integer_arithmetic_exact_witness:
  "arithmetic plain_lib BO_Add (V_Int 2147483647) (V_Int 1) =
     Inl (integer_overflow_error 2147483647 1 BO_Add K_I32) \<and>
   (\<exists>v. arithmetic plain_lib BO_Mul (V_Byte 100) (V_UInt16 600) = Inr v \<and>
     integer_operand_of v = Some \<lparr>io_value = 60000, io_kind = K_U16\<rparr>)"
proof -
  have o1: "integer_operand_of (V_Int 2147483647) = Some \<lparr>io_value = 2147483647, io_kind = K_I32\<rparr>"
    "integer_operand_of (V_Int 1) = Some \<lparr>io_value = 1, io_kind = K_I32\<rparr>"
    by (simp_all add: integer_operand_of_def fits_def)
  have o2: "integer_operand_of (V_Byte 100) = Some \<lparr>io_value = 100, io_kind = K_I8\<rparr>"
    "integer_operand_of (V_UInt16 600) = Some \<lparr>io_value = 600, io_kind = K_U16\<rparr>"
    by (simp_all add: integer_operand_of_def)
  note eval = exact_result_def integer_result_kind_def integer_rank_def integer_unsigned_def
    integer_bounds_def in_bounds_def
  show ?thesis
    using integer_arithmetic_exact [OF o1, of BO_Add plain_lib] integer_arithmetic_exact [OF o2, of BO_Mul plain_lib]
    by (simp add: eval)
qed

text \<open>
  The remainder of two integer values is the truncating one.  For a divisor other than zero, a
  dividend in the range of the result kind, and not the least value of a signed kind divided by
  \<open>-1\<close>, it is an integer of the result kind that completes the truncated quotient, is smaller than
  the divisor in magnitude, and has the sign of the dividend.
\<close>

theorem integer_modulo_exact:
  assumes "integer_operand_of l = Some a" "integer_operand_of r = Some b" "io_value b \<noteq> 0"
    "in_bounds (integer_bounds (integer_result_kind a b)) (io_value a)"
    "integer_unsigned (integer_result_kind a b) \<or> io_value a \<noteq> fst (integer_bounds (integer_result_kind a b)) \<or>
     io_value b \<noteq> - 1"
  shows "\<exists>v n. modulo L l r = Inr v \<and>
    integer_operand_of v = Some \<lparr>io_value = n, io_kind = integer_result_kind a b\<rparr> \<and>
    io_value a = exact_result BO_Div (io_value a) (io_value b) * io_value b + n \<and>
    \<bar>n\<bar> < \<bar>io_value b\<bar> \<and> (n = 0 \<or> sgn n = sgn (io_value a))"
proof -
  let ?n = "io_value a smod io_value b" and ?k = "integer_result_kind a b"
  from in_bounds_smod [OF assms(4,3)] have b: "in_bounds (integer_bounds ?k) ?n" .
  from integer_value_in_bounds [OF b] obtain v where v:
    "integer_value ?n ?k (io_value a) (io_value b) BO_Div = Inr v"
    "integer_operand_of v = Some \<lparr>io_value = ?n, io_kind = ?k\<rparr>" .
  have "modulo L l r = Inr v"
    using assms(3,5) b v(1) unfolding arithmetic_integers [OF assms(1,2)] by (auto simp: integer_modulo_def Let_def)
  with v(2) smod_props [OF assms(3), of "io_value a"] show ?thesis by (auto simp: exact_result_def)
qed

theorem integer_modulo_exact_witness:
  "\<exists>v. modulo plain_lib (V_Long (- 7)) (V_Byte 3) = Inr v \<and> integer_operand_of v = Some \<lparr>io_value = - 1, io_kind = K_I64\<rparr>"
proof -
  have ops: "integer_operand_of (V_Long (- 7)) = Some \<lparr>io_value = - 7, io_kind = K_I64\<rparr>"
    "integer_operand_of (V_Byte 3) = Some \<lparr>io_value = 3, io_kind = K_I8\<rparr>"
    by (simp_all add: integer_operand_of_def)
  note eval = exact_result_def integer_result_kind_def integer_rank_def integer_unsigned_def
    integer_bounds_def in_bounds_def signed_divide_int_def
  obtain v n where "modulo plain_lib (V_Long (- 7)) (V_Byte 3) = Inr v"
    "integer_operand_of v = Some \<lparr>io_value = n, io_kind = K_I64\<rparr>" "- 7 = - 2 * 3 + n"
    using integer_modulo_exact [OF ops, of plain_lib] by (auto simp: eval)
  then show ?thesis by (intro exI [of _ v]) simp
qed

text \<open>
  Adding days to a date counts them in the calendar: a date value plus a number of days is the
  date reached by that many steps to the next day, over month ends and leap days.
\<close>

theorem date_plus_days:
  assumes "valid_date y m d" "0 \<le> y" "y \<le> 9999" "k \<le> 2 ^ 40"
  shows "arithmetic L BO_Add (V_DateTime (date_text y m d)) (V_Int (word_of_int (int k))) =
    Inr (V_DateTime (case (next_day ^^ k) (y, m, d) of (y', m', d') \<Rightarrow> date_text y' m' d'))"
proof -
  have k: "int k \<le> 2 ^ 40" using assms(4) by (simp add: numeral_power_le_of_nat_cancel_iff)
  then have "sint (word_of_int (int k) :: i64) = int k" by (intro sint_word_of_int_64) simp_all
  then show ?thesis
    using date_shift_days [OF assms]
    by (simp add: arithmetic_def is_temporal_def integer_operand_of_def promote_def is_decimal_def
        arith_float_def runtime_list_def arith_text_def)
qed

theorem date_plus_days_witness:
  "arithmetic plain_lib BO_Add (V_DateTime ''2024-02-28'') (V_Int 2) = Inr (V_DateTime ''2024-03-01'')"
proof -
  have "date_text 2024 2 28 = ''2024-02-28''" "date_text 2024 3 1 = ''2024-03-01''"
    "(next_day ^^ 2) (2024, 2, 28) = (2024, 3, 1)" "valid_date 2024 2 28" by code_simp+
  then show ?thesis using date_plus_days [of 2024 2 28 2 plain_lib] by simp
qed

text \<open>
  A float combined with a decimal on the right is computed with the operands exchanged: for
  every operator the result is that of the decimal on the left and the float on the right, so
  \<open>5.5 - 2.0\<close> with a decimal \<open>2.0\<close> is \<open>-3.5\<close>.
\<close>

theorem float_decimal_operands_exchanged:
  "arithmetic L op (V_Float x) (V_BigDecimal n s) = arithmetic L op (V_BigDecimal n s) (V_Float x)"
  by (simp add: arithmetic_def is_temporal_def integer_operand_of_def promote_def is_decimal_def arith_decimal_def)

end
