(* ===== verification/Runtime_Order.thy ===== *)
theory Runtime_Order
  imports Value_Identity Snapshot_Codec Runtime_Arithmetic
begin

text \<open>
  Equality and comparison of dynamic values as expressions see them
  (\<open>Value::three_valued_eq\<close> and \<open>three_valued_cmp\<close> of \<open>src/src/ir/value.rs\<close>, the comparison part of
  \<open>src/src/ir/runtime/expr/binary.rs\<close>): numbers of every type by their decimal value, textual dates
  and intervals by their sort keys, byte strings by their decoded bytes, lists and maps member by
  member, and null as unknown.

  Arrow's scalar comparison, the \<open>bigdecimal\<close> crate and the comparison of typed temporal values
  (\<open>src/src/ir/temporal\<close>) are the fields of \<open>order_lib\<close>, and so is the semantic value of the scalar
  types that \<open>scalar_value\<close> does not spell out.
\<close>

section \<open>Orderings\<close>

datatype ordering = Less | Equal | Greater

definition cmp :: "'a::linorder \<Rightarrow> 'a \<Rightarrow> ordering" where
  "cmp a b = (if a < b then Less else if a = b then Equal else Greater)"

primrec reverse :: "ordering \<Rightarrow> ordering" where
  "reverse Less = Greater"
| "reverse Equal = Equal"
| "reverse Greater = Less"

definition then_with :: "ordering \<Rightarrow> ordering \<Rightarrow> ordering" where
  "then_with o1 o2 = (if o1 = Equal then o2 else o1)"

lemma cmp_simps [simp]:
  "cmp a b = Less \<longleftrightarrow> a < b" "cmp a b = Equal \<longleftrightarrow> a = b" "cmp a b = Greater \<longleftrightarrow> b < a"
  by (auto simp: cmp_def)

lemma cmp_refl [simp]: "cmp a a = Equal"
  by simp

lemma reverse_cmp [simp]: "reverse (cmp a b) = cmp b a"
  by (auto simp: cmp_def)

section \<open>The library\<close>

record order_lib =
  values_of :: value_lib
  scalar_other :: "scalar_value \<Rightarrow> val option"
  scalar_partial_cmp :: "scalar_value \<Rightarrow> scalar_value \<Rightarrow> ordering option"
  decimal_of_f32 :: "f32 \<Rightarrow> decimal option"
  decimal_of_f64 :: "f64 \<Rightarrow> decimal option"
  decimal_cmp :: "decimal \<Rightarrow> decimal \<Rightarrow> ordering"
  temporal_compare :: "temporal \<Rightarrow> temporal \<Rightarrow> ordering option"

definition scalar_semantic_value :: "order_lib \<Rightarrow> scalar_value \<Rightarrow> val option" where
  "scalar_semantic_value L v =
     (case v of
        SV_Null _ \<Rightarrow> Some V_Null
      | SV_Boolean b \<Rightarrow> Some (V_Bool b)
      | SV_Int8 n \<Rightarrow> Some (V_Byte n)
      | SV_Int16 n \<Rightarrow> Some (V_Short n)
      | SV_Int32 n \<Rightarrow> Some (V_Int (scast n))
      | SV_Int64 n \<Rightarrow> Some (V_Int n)
      | SV_UInt8 n \<Rightarrow> Some (V_UInt8 n)
      | SV_UInt16 n \<Rightarrow> Some (V_UInt16 n)
      | SV_UInt32 n \<Rightarrow> Some (V_UInt32 n)
      | SV_UInt64 n \<Rightarrow> Some (V_UInt64 n)
      | SV_Float32 x \<Rightarrow> Some (V_Float32 x)
      | SV_Float64 x \<Rightarrow> Some (V_Float x)
      | SV_Utf8 s \<Rightarrow> Some (V_String s)
      | SV_LargeUtf8 s \<Rightarrow> Some (V_String s)
      | SV_Utf8View s \<Rightarrow> Some (V_String s)
      | _ \<Rightarrow> scalar_other L v)"

text \<open>
  The number of scalars a value exposes.  Every arm of \<open>scalar_semantic_value\<close> builds a value
  without one, which is what makes its callers return; \<open>semantic\<close> is \<open>scalar_semantic_value\<close> with
  that part of the contract of \<open>scalar_other\<close> built in.
\<close>

function (sequential) scalars :: "val \<Rightarrow> nat" where
  "scalars (V_Scalar _) = 1"
| "scalars (V_List xs) = sum_list (map scalars xs)"
| "scalars (V_Set xs) = sum_list (map scalars xs)"
| "scalars (V_BulkSet xs) = sum_list (map scalars xs)"
| "scalars (V_Path xs) = sum_list (map scalars xs)"
| "scalars (V_Map m) = sum_list (map (\<lambda>p. scalars (snd p)) m)"
| "scalars (V_TypedMap m) = sum_list (map (\<lambda>p. scalars (fst p) + scalars (snd p)) m)"
| "scalars (V_MapEntry k v) = scalars k + scalars v"
| "scalars (V_Property _ _ v) = scalars v"
| "scalars _ = 0"
  by pat_completeness auto
termination
  by (relation "measure size") (auto simp: size_val_list size_val_map size_val_entries)

definition semantic :: "order_lib \<Rightarrow> val \<Rightarrow> val option" where
  "semantic L v =
     (case v of
        V_Scalar s \<Rightarrow> (case scalar_semantic_value L s of
            Some w \<Rightarrow> if scalars w = 0 then Some w else None
          | None \<Rightarrow> None)
      | _ \<Rightarrow> None)"

lemma semantic_decreases: "semantic L v = Some w \<Longrightarrow> scalars w < scalars v"
  by (auto simp: semantic_def split: val.splits option.splits if_splits)

lemma semantic_None [simp]: "\<forall>s. v \<noteq> V_Scalar s \<Longrightarrow> semantic L v = None"
  by (auto simp: semantic_def split: val.splits)

lemma scalars_member:
  "x \<in> set xs \<Longrightarrow> scalars x \<le> sum_list (map scalars xs)"
  "p \<in> set m \<Longrightarrow> scalars (snd p) \<le> sum_list (map (\<lambda>p. scalars (snd p)) m)"
  "q \<in> set e \<Longrightarrow> scalars (fst q) + scalars (snd q) \<le> sum_list (map (\<lambda>p. scalars (fst p) + scalars (snd p)) e)"
  by (auto intro!: member_le_sum_list)

section \<open>Sort keys of text\<close>

definition value_temporal_sort_key :: "string \<Rightarrow> int list option" where
  "value_temporal_sort_key value =
     (let inner = (case strip_both ''dt['' '']'' (trim value) of Some s \<Rightarrow> s | None \<Rightarrow> trim value);
          date_time = (case split_once (CHR ''T'') inner of
             Some (date, time) \<Rightarrow> Some (date, time)
           | None \<Rightarrow>
               (case split_once (CHR '' '') inner of
                  Some (date, time) \<Rightarrow>
                    if to_ascii_lowercase time = to_ascii_lowercase ''(BC)'' then None
                    else Some (date, time)
                | None \<Rightarrow> Some (inner, ''00:00:00'')))
      in case date_time of
           None \<Rightarrow> None
         | Some (date, time) \<Rightarrow>
             (case split_on (CHR ''-'') date of
                [y, m, d] \<Rightarrow>
                  (let parts = split_on (CHR '':'') (strip_timezone time);
                       nth_part = (\<lambda>i. if i < length parts then parts ! i else ''0'');
                       second_part = nth_part 2;
                       (second_text, fraction) = (case split_once (CHR ''.'') second_part of
                          Some p \<Rightarrow> p | None \<Rightarrow> (second_part, []))
                   in if 3 < length parts then None
                      else (case (parse_signed 64 y, parse_unsigned 32 m, parse_unsigned 32 d,
                              parse_signed 64 (nth_part 0), parse_signed 64 (nth_part 1),
                              parse_signed 64 second_text, parse_fraction_micros fraction) of
                              (Some year, Some month, Some day, Some hour, Some minute, Some second, Some micros) \<Rightarrow>
                                Some [year, month, day, hour, minute, second, micros]
                            | _ \<Rightarrow> None))
              | _ \<Rightarrow> None))"

text \<open>\<open>parse_interval_time\<close>; \<open>clock_micros\<close> is its chain of checked operations.\<close>

definition value_interval_time :: "string \<Rightarrow> int option" where
  "value_interval_time value =
     (let (sign, text) = (if prefix ''-'' value then (- 1, tl value) else (1, value))
      in case split_on (CHR '':'') text of
           [hours_text, minutes_text, last_text] \<Rightarrow>
             parse_signed 128 hours_text \<bind> (\<lambda>hours.
             parse_signed 128 minutes_text \<bind> (\<lambda>minutes.
             let (seconds_text, fraction) = (case split_once (CHR ''.'') last_text of
                   Some p \<Rightarrow> p | None \<Rightarrow> (last_text, []))
             in parse_signed 128 seconds_text \<bind> (\<lambda>seconds.
                parse_fraction_micros fraction \<bind> (\<lambda>micros.
                clock_micros hours minutes seconds micros sign))))
         | _ \<Rightarrow> None)"

text \<open>The unit words of \<open>interval_sort_key\<close>: the component they count and how much of it.\<close>

definition value_interval_unit :: "string \<Rightarrow> interval_unit option" where
  "value_interval_unit u =
     (if u \<in> {''year'', ''years'', ''y'', ''yr'', ''yrs''} then Some (IU_Months 12)
      else if u \<in> {''month'', ''months'', ''mon'', ''mons''} then Some (IU_Months 1)
      else if u \<in> {''week'', ''weeks''} then Some (IU_Days 7)
      else if u \<in> {''day'', ''days'', ''d''} then Some (IU_Days 1)
      else if u \<in> {''hour'', ''hours'', ''h'', ''hr'', ''hrs''} then Some (IU_Micros 3600000000)
      else if u \<in> {''minute'', ''minutes'', ''m'', ''min'', ''mins''} then Some (IU_Micros 60000000)
      else if u \<in> {''second'', ''seconds'', ''s'', ''sec'', ''secs''} then Some (IU_Micros 1000000)
      else if u \<in> {''millisecond'', ''milliseconds'', ''ms''} then Some (IU_Micros 1000)
      else if u \<in> {''microsecond'', ''microseconds'', ''us'', CHR 0xC2 # CHR 0xB5 # ''s''} then Some (IU_Micros 1)
      else None)"

fun value_interval_words :: "int \<Rightarrow> int \<Rightarrow> int \<Rightarrow> string list \<Rightarrow> (int \<times> int \<times> int) option" where
  "value_interval_words months days micros [] = Some (months, days, micros)"
| "value_interval_words months days micros (part # rest) =
     (case value_interval_time part of
        Some t \<Rightarrow> checked 128 (micros + t) \<bind> (\<lambda>micros. value_interval_words months days micros rest)
      | None \<Rightarrow>
          (case (parse_signed 64 part, rest) of
             (Some amount, unit_text # rest') \<Rightarrow>
               (case value_interval_unit (to_ascii_lowercase unit_text) of
                  None \<Rightarrow> None
                | Some (IU_Months n) \<Rightarrow>
                    checked 64 (amount * n) \<bind> (\<lambda>v. checked 64 (months + v) \<bind> (\<lambda>months.
                      value_interval_words months days micros rest'))
                | Some (IU_Days n) \<Rightarrow>
                    checked 64 (amount * n) \<bind> (\<lambda>v. checked 64 (days + v) \<bind> (\<lambda>days.
                      value_interval_words months days micros rest'))
                | Some (IU_Micros n) \<Rightarrow>
                    checked 128 (amount * n) \<bind> (\<lambda>v. checked 128 (micros + v) \<bind> (\<lambda>micros.
                      value_interval_words months days micros rest')))
           | _ \<Rightarrow> None))"

definition value_interval_sort_key :: "string \<Rightarrow> int list option" where
  "value_interval_sort_key value =
     (let parts = split_whitespace (trim value)
      in if parts = [] then None
         else value_interval_words 0 0 0 parts \<bind> (\<lambda>(months, days, micros).
           checked 64 (months * 30) \<bind> (\<lambda>m. checked 64 (days + m) \<bind> (\<lambda>days. Some [0, days, micros]))))"

definition is_hex_digit :: "char \<Rightarrow> bool" where
  "is_hex_digit c \<longleftrightarrow> is_ascii_digit c \<or> (CHR ''a'' \<le> c \<and> c \<le> CHR ''f'') \<or> (CHR ''A'' \<le> c \<and> c \<le> CHR ''F'')"

definition hex_value :: "char \<Rightarrow> nat" where
  "hex_value c =
     (if is_ascii_digit c then of_char c - 48
      else if CHR ''a'' \<le> c then of_char c - 87 else of_char c - 55)"

fun blob_sort_bytes :: "string \<Rightarrow> bytes option" where
  "blob_sort_bytes [] = Some []"
| "blob_sort_bytes (c # cs) =
     (if 128 \<le> (of_char c :: nat) then None
      else if c = CHR 0x5C \<and> cs \<noteq> [] \<and> hd cs \<in> {CHR ''x'', CHR ''X''} then
        (if length cs < 3 \<or> \<not> is_hex_digit (cs ! 1) \<or> \<not> is_hex_digit (cs ! 2) then None
         else map_option (\<lambda>bs. of_nat (16 * hex_value (cs ! 1) + hex_value (cs ! 2)) # bs)
                (blob_sort_bytes (drop 3 cs)))
      else map_option (\<lambda>bs. of_char c # bs) (blob_sort_bytes cs))"

definition blob_string_ordering :: "string \<Rightarrow> string \<Rightarrow> ordering option" where
  "blob_string_ordering left right =
     (let escaped = (\<lambda>s. sublist (CHR 0x5C # ''x'') s)
      in if \<not> escaped left \<and> \<not> escaped right then None
         else (case (blob_sort_bytes left, blob_sort_bytes right) of
                 (Some a, Some b) \<Rightarrow> Some (cmp a b)
               | _ \<Rightarrow> None))"

section \<open>Three-valued equality\<close>

definition numeric_decimal :: "order_lib \<Rightarrow> val \<Rightarrow> decimal option" where
  "numeric_decimal L v =
     (case v of
        V_Byte n \<Rightarrow> Some (sint n, 0)
      | V_UInt8 n \<Rightarrow> Some (uint n, 0)
      | V_Short n \<Rightarrow> Some (sint n, 0)
      | V_UInt16 n \<Rightarrow> Some (uint n, 0)
      | V_Int n \<Rightarrow> Some (sint n, 0)
      | V_UInt32 n \<Rightarrow> Some (uint n, 0)
      | V_Long n \<Rightarrow> Some (sint n, 0)
      | V_UInt64 n \<Rightarrow> Some (uint n, 0)
      | V_Float32 x \<Rightarrow> decimal_of_f32 L x
      | V_Float x \<Rightarrow> decimal_of_f64 L x
      | V_BigInt n \<Rightarrow> Some (n, 0)
      | V_UInt128 n \<Rightarrow> Some (n, 0)
      | V_BigDecimal n s \<Rightarrow> Some (n, s)
      | _ \<Rightarrow> None)"

definition decimal_eq :: "order_lib \<Rightarrow> decimal \<Rightarrow> decimal \<Rightarrow> bool" where
  "decimal_eq L a b = decimal_same (values_of L) (fst a) (snd a) (fst b) (snd b)"

definition text_eq :: "string \<Rightarrow> string \<Rightarrow> bool" where
  "text_eq a b =
     (case (value_temporal_sort_key a, value_temporal_sort_key b) of
        (Some x, Some y) \<Rightarrow> x = y
      | _ \<Rightarrow> (case (value_interval_sort_key a, value_interval_sort_key b) of
            (Some x, Some y) \<Rightarrow> x = y
          | _ \<Rightarrow> a = b))"

definition datetime_eq :: "string \<Rightarrow> string \<Rightarrow> bool" where
  "datetime_eq a b =
     (case (value_temporal_sort_key a, value_temporal_sort_key b) of
        (Some x, Some y) \<Rightarrow> x = y
      | _ \<Rightarrow> a = b)"

text \<open>Bulk sets: every member of the first takes the first remaining equal member of the second.\<close>

fun take_first :: "('a \<Rightarrow> bool) \<Rightarrow> 'a list \<Rightarrow> 'a list option" where
  "take_first P [] = None"
| "take_first P (x # xs) = (if P x then Some xs else map_option ((#) x) (take_first P xs))"

fun bulk_match :: "value_lib \<Rightarrow> val list \<Rightarrow> val list \<Rightarrow> bool" where
  "bulk_match L [] others = True"
| "bulk_match L (item # items) others =
     (case take_first (value_eq L item) others of
        None \<Rightarrow> False
      | Some others \<Rightarrow> bulk_match L items others)"

definition is_visible_map_key :: "string \<Rightarrow> bool" where
  "is_visible_map_key key \<longleftrightarrow> key \<noteq> STRUCT_ORDER_KEY \<and> key \<noteq> STRUCT_TYPES_KEY \<and> \<not> prefix ''__'' key"

definition visible_map_keys :: "(string \<times> val) list \<Rightarrow> string list" where
  "visible_map_keys m = filter is_visible_map_key (map fst m)"

text \<open>
  The containers, with the recursive call \<open>f\<close> as an argument: \<open>semantic_slice_eq\<close>,
  \<open>semantic_map_eq\<close>, and the typed maps against typed and plain maps.
\<close>

definition semantic_slice_eq :: "(val \<Rightarrow> val \<Rightarrow> bool option) \<Rightarrow> val list \<Rightarrow> val list \<Rightarrow> bool" where
  "semantic_slice_eq f left right \<longleftrightarrow>
     length left = length right \<and> list_all (\<lambda>p. f (fst p) (snd p) = Some True) (zip left right)"

definition semantic_map_eq ::
  "(val \<Rightarrow> val \<Rightarrow> bool option) \<Rightarrow> (string \<times> val) list \<Rightarrow> (string \<times> val) list \<Rightarrow> bool" where
  "semantic_map_eq f left right \<longleftrightarrow>
     length (visible_map_keys left) = length (visible_map_keys right) \<and>
     list_all (\<lambda>p. is_visible_map_key (fst p) \<longrightarrow>
       (case map_of right (fst p) of None \<Rightarrow> False | Some w \<Rightarrow> f (snd p) w = Some True)) left"

definition typed_map_eq ::
  "value_lib \<Rightarrow> (val \<Rightarrow> val \<Rightarrow> bool option) \<Rightarrow> (val \<times> val) list \<Rightarrow> (val \<times> val) list \<Rightarrow> bool" where
  "typed_map_eq L f a b \<longleftrightarrow>
     length a = length b \<and>
     list_all (\<lambda>p. list_ex (\<lambda>q. value_eq L (fst p) (fst q) \<and> f (snd p) (snd q) = Some True) b) a"

definition typed_plain_eq ::
  "(val \<Rightarrow> val \<Rightarrow> bool option) \<Rightarrow> (val \<times> val) list \<Rightarrow> (string \<times> val) list \<Rightarrow> bool" where
  "typed_plain_eq f a b \<longleftrightarrow>
     length a = length b \<and>
     list_all (\<lambda>p. case fst p of
         V_String key \<Rightarrow> (case map_of b key of None \<Rightarrow> False | Some w \<Rightarrow> f (snd p) w = Some True)
       | _ \<Rightarrow> False) a"

lemma semantic_slice_eq_cong [fundef_cong]:
  assumes "xs = xs'" "ys = ys'" "\<And>x y. x \<in> set xs' \<Longrightarrow> y \<in> set ys' \<Longrightarrow> f x y = g x y"
  shows "semantic_slice_eq f xs ys = semantic_slice_eq g xs' ys'"
proof -
  have "f x y = g x y" if "(x, y) \<in> set (zip xs' ys')" for x y
    using that assms(3) by (blast dest: set_zip_leftD set_zip_rightD)
  then show ?thesis
    using assms(1,2) by (auto simp: semantic_slice_eq_def list_all_iff)
qed

lemma semantic_map_eq_cong [fundef_cong]:
  assumes "m = m'" "n = n'"
    and "\<And>k l x y. (k, x) \<in> set m' \<Longrightarrow> (l, y) \<in> set n' \<Longrightarrow> f x y = g x y"
  shows "semantic_map_eq f m n = semantic_map_eq g m' n'"
  using assms by (fastforce simp: semantic_map_eq_def list_all_iff split: option.splits dest: map_of_SomeD)

lemma typed_map_eq_cong [fundef_cong]:
  assumes "m = m'" "n = n'"
    and "\<And>k l x y. (k, x) \<in> set m' \<Longrightarrow> (l, y) \<in> set n' \<Longrightarrow> f x y = g x y"
  shows "typed_map_eq L f m n = typed_map_eq L g m' n'"
  using assms by (fastforce simp: typed_map_eq_def list_all_iff list_ex_iff)

lemma typed_plain_eq_cong [fundef_cong]:
  assumes "m = m'" "n = n'"
    and "\<And>k l x y. (k, x) \<in> set m' \<Longrightarrow> (l, y) \<in> set n' \<Longrightarrow> f x y = g x y"
  shows "typed_plain_eq f m n = typed_plain_eq g m' n'"
proof -
  have "(case fst p of
         V_String key \<Rightarrow> (case map_of n' key of None \<Rightarrow> False | Some w \<Rightarrow> f (snd p) w = Some True)
       | _ \<Rightarrow> False) = (case fst p of
         V_String key \<Rightarrow> (case map_of n' key of None \<Rightarrow> False | Some w \<Rightarrow> g (snd p) w = Some True)
       | _ \<Rightarrow> False)" if "p \<in> set m'" for p
    using that assms(3) [of "fst p" "snd p"]
    by (auto split: val.split option.split dest: map_of_SomeD)
  then show ?thesis
    using assms(1,2) by (simp add: typed_plain_eq_def list_all_iff)
qed

text \<open>
  The arms of \<open>three_valued_eq\<close> for values that are neither null nor numbers.  Of the numeric arms
  of the source only that of two floats is here: the others follow a guard that already takes every
  pair in which one operand has a decimal value, so two non-finite floats are what is left.
\<close>

definition eq_members :: "value_lib \<Rightarrow> (val \<Rightarrow> val \<Rightarrow> bool option) \<Rightarrow> val \<Rightarrow> val \<Rightarrow> bool" where
  "eq_members L f a b =
     (case a of
        V_Float x \<Rightarrow> (case b of V_Float y \<Rightarrow> f64_eq x y | _ \<Rightarrow> False)
      | V_String x \<Rightarrow> (case b of V_String y \<Rightarrow> text_eq x y | V_DateTime y \<Rightarrow> datetime_eq y x | _ \<Rightarrow> False)
      | V_DateTime x \<Rightarrow> (case b of V_DateTime y \<Rightarrow> datetime_eq x y | V_String y \<Rightarrow> datetime_eq x y | _ \<Rightarrow> False)
      | V_InternalId t i \<Rightarrow> (case b of V_InternalId u j \<Rightarrow> t = u \<and> i = j | _ \<Rightarrow> False)
      | V_Bool x \<Rightarrow> (case b of V_Bool y \<Rightarrow> x = y | _ \<Rightarrow> False)
      | V_Node k i \<Rightarrow> (case b of V_Node l j \<Rightarrow> k = l \<and> i = j | _ \<Rightarrow> False)
      | V_Edge k i _ _ _ _ _ \<Rightarrow> (case b of V_Edge l j _ _ _ _ _ \<Rightarrow> k = l \<and> i = j | _ \<Rightarrow> False)
      | V_List x \<Rightarrow> (case b of V_List y \<Rightarrow> semantic_slice_eq f x y | _ \<Rightarrow> False)
      | V_Path x \<Rightarrow> (case b of V_Path y \<Rightarrow> semantic_slice_eq f x y | _ \<Rightarrow> False)
      | V_Set x \<Rightarrow> (case b of V_Set y \<Rightarrow> set_eq L x y | _ \<Rightarrow> False)
      | V_BulkSet x \<Rightarrow> (case b of V_BulkSet y \<Rightarrow> length x = length y \<and> bulk_match L x y | _ \<Rightarrow> False)
      | V_Map x \<Rightarrow> (case b of V_Map y \<Rightarrow> semantic_map_eq f x y | V_TypedMap y \<Rightarrow> typed_plain_eq f y x | _ \<Rightarrow> False)
      | V_Token x \<Rightarrow> (case b of V_Token y \<Rightarrow> x = y | _ \<Rightarrow> False)
      | V_Direction x \<Rightarrow> (case b of V_Direction y \<Rightarrow> x = y | _ \<Rightarrow> False)
      | V_CardinalityValue c x \<Rightarrow>
          (case b of V_CardinalityValue d y \<Rightarrow> c = d \<and> set_member_key L x = set_member_key L y | _ \<Rightarrow> False)
      | V_MapEntry k x \<Rightarrow> (case b of V_MapEntry l y \<Rightarrow> f k l = Some True \<and> f x y = Some True | _ \<Rightarrow> False)
      | V_TypedMap x \<Rightarrow> (case b of V_TypedMap y \<Rightarrow> typed_map_eq L f x y | V_Map y \<Rightarrow> typed_plain_eq f x y | _ \<Rightarrow> False)
      | _ \<Rightarrow> False)"

text \<open>The arms that precede the decimal guard.\<close>

definition eq_identified :: "value_lib \<Rightarrow> val \<Rightarrow> val \<Rightarrow> bool option" where
  "eq_identified L a b =
     (case a of
        V_Temporal x \<Rightarrow> (case b of V_Temporal y \<Rightarrow> Some (x = y) | _ \<Rightarrow> None)
      | V_VertexProperty x _ _ _ \<Rightarrow> (case b of V_VertexProperty y _ _ _ \<Rightarrow> Some (x = y) | _ \<Rightarrow> None)
      | V_Property _ k x \<Rightarrow>
          (case b of V_Property _ l y \<Rightarrow> Some (k = l \<and> set_member_key L x = set_member_key L y) | _ \<Rightarrow> None)
      | _ \<Rightarrow> None)"

definition same_typed_scalars :: "val \<Rightarrow> val \<Rightarrow> bool" where
  "same_typed_scalars a b \<longleftrightarrow>
     (case a of V_Scalar x \<Rightarrow> (case b of V_Scalar y \<Rightarrow> sv_data_type x = sv_data_type y | _ \<Rightarrow> False) | _ \<Rightarrow> False)"

text \<open>The values a comparison descends to: the members of lists, paths, maps and entries.\<close>

definition members :: "val \<Rightarrow> val set" where
  "members v =
     (case v of
        V_List xs \<Rightarrow> set xs | V_Path xs \<Rightarrow> set xs | V_Set xs \<Rightarrow> set xs | V_BulkSet xs \<Rightarrow> set xs
      | V_Map m \<Rightarrow> snd ` set m
      | V_TypedMap m \<Rightarrow> fst ` set m \<union> snd ` set m
      | V_MapEntry k x \<Rightarrow> {k, x}
      | V_Property _ _ x \<Rightarrow> {x}
      | _ \<Rightarrow> {})"

lemma members_smaller:
  assumes "x \<in> members v"
  shows "scalars x \<le> scalars v" "size x < size v"
proof -
  show "scalars x \<le> scalars v"
    using assms scalars_member(1,2) scalars_member(3) [THEN add_leD1] scalars_member(3) [THEN add_leD2]
    by (auto simp: members_def split: val.splits)
  have "size (snd p) < Suc (size_list (size_prod (\<lambda>_. 0) size) m)" if "p \<in> set m" for p :: "string \<times> val" and m
    using that by (rule size_val_map)
  then show "size x < size v"
    using assms by (auto simp: members_def size_val_list split: val.splits
        dest: size_val_entries(1) [of "(_, _)", simplified] size_val_entries(2) [of "(_, _)", simplified])
qed

lemma member_pair_smaller:
  assumes "x \<in> members a" "y \<in> members b"
  shows "scalars x + scalars y < scalars a + scalars b \<or>
    scalars x + scalars y = scalars a + scalars b \<and> size x + size y < size a + size b"
    "scalars y + scalars x < scalars a + scalars b \<or>
    scalars y + scalars x = scalars a + scalars b \<and> size y + size x < size a + size b"
  using members_smaller [OF assms(1)] members_smaller [OF assms(2)] by auto

lemma eq_members_cong [fundef_cong]:
  assumes "L = L'" "a = a'" "b = b'"
    and "\<And>x y. x \<in> members a' \<Longrightarrow> y \<in> members b' \<Longrightarrow> f x y = g x y"
    and "\<And>x y. x \<in> members b' \<Longrightarrow> y \<in> members a' \<Longrightarrow> f x y = g x y"
  shows "eq_members L f a b = eq_members L' g a' b'"
proof -
  have slice: "semantic_slice_eq f x y = semantic_slice_eq g x y"
    if "set x \<subseteq> members a'" "set y \<subseteq> members b'" for x y
    using that assms(4) by (intro semantic_slice_eq_cong) auto
  have maps: "semantic_map_eq f x y = semantic_map_eq g x y"
    if "snd ` set x \<subseteq> members a'" "snd ` set y \<subseteq> members b'" for x y
    using that assms(4) by (intro semantic_map_eq_cong) force+
  have typed: "typed_map_eq L' f x y = typed_map_eq L' g x y"
    if "snd ` set x \<subseteq> members a'" "snd ` set y \<subseteq> members b'" for x y
    using that assms(4) by (intro typed_map_eq_cong) force+
  have plain: "typed_plain_eq f x y = typed_plain_eq g x y"
    if "snd ` set x \<subseteq> members a'" "snd ` set y \<subseteq> members b'" for x y
    using that assms(4) by (intro typed_plain_eq_cong) force+
  have plain': "typed_plain_eq f y x = typed_plain_eq g y x"
    if "snd ` set x \<subseteq> members a'" "snd ` set y \<subseteq> members b'" for x y
    using that assms(5) by (intro typed_plain_eq_cong) force+
  have "eq_members L' f a' b' = eq_members L' g a' b'"
  proof (cases a')
    case (V_List x)
    then show ?thesis using slice [of x] by (cases b') (simp_all add: eq_members_def members_def)
  next
    case (V_Path x)
    then show ?thesis using slice [of x] by (cases b') (simp_all add: eq_members_def members_def)
  next
    case (V_Map x)
    then show ?thesis using maps [of x] plain' [of x] by (cases b') (simp_all add: eq_members_def members_def)
  next
    case (V_TypedMap x)
    then show ?thesis using typed [of x] plain [of x] by (cases b') (simp_all add: eq_members_def members_def)
  next
    case (V_MapEntry k x)
    then show ?thesis using assms(4) by (cases b') (simp_all add: eq_members_def members_def)
  qed (simp_all add: eq_members_def)
  then show ?thesis using assms(1-3) by simp
qed

function three_valued_eq :: "order_lib \<Rightarrow> val \<Rightarrow> val \<Rightarrow> bool option" where
  "three_valued_eq L a b =
     (if same_typed_scalars a b then Some (a = b)
      else case semantic L a of
        Some v \<Rightarrow> three_valued_eq L v b
      | None \<Rightarrow>
     (case semantic L b of
        Some v \<Rightarrow> three_valued_eq L a v
      | None \<Rightarrow>
     (if a = V_Null \<and> b = V_Null then Some True
      else if a = V_Null \<or> b = V_Null then None
      else case eq_identified (values_of L) a b of
        Some r \<Rightarrow> Some r
      | None \<Rightarrow>
          if numeric_decimal L a \<noteq> None \<or> numeric_decimal L b \<noteq> None
          then Some (case (numeric_decimal L a, numeric_decimal L b) of
                  (Some x, Some y) \<Rightarrow> decimal_eq L x y
                | _ \<Rightarrow> False)
          else Some (eq_members (values_of L) (three_valued_eq L) a b))))"
  by pat_completeness auto
termination
  by (relation "measures [\<lambda>(L, a, b). scalars a + scalars b, \<lambda>(L, a, b). size a + size b]")
    (simp_all add: member_pair_smaller semantic_decreases)

declare three_valued_eq.simps [simp del]


section \<open>Three-valued comparison\<close>

text \<open>\<open>three_valued_cmp\<close> has its own \<open>numeric_decimal\<close>, without the unsigned types.\<close>

definition signed_decimal :: "order_lib \<Rightarrow> val \<Rightarrow> decimal option" where
  "signed_decimal L v =
     (case v of
        V_Byte n \<Rightarrow> Some (sint n, 0)
      | V_Short n \<Rightarrow> Some (sint n, 0)
      | V_Int n \<Rightarrow> Some (sint n, 0)
      | V_Long n \<Rightarrow> Some (sint n, 0)
      | V_Float32 x \<Rightarrow> decimal_of_f32 L x
      | V_Float x \<Rightarrow> decimal_of_f64 L x
      | V_BigInt n \<Rightarrow> Some (n, 0)
      | V_BigDecimal n s \<Rightarrow> Some (n, s)
      | _ \<Rightarrow> None)"

text \<open>\<open>f64::partial_cmp\<close> on the bits: sign and magnitude, unordered with a NaN.\<close>

definition f64_order_key :: "f64 \<Rightarrow> int" where
  "f64_order_key x = (if bit x 63 then - uint (take_bit 63 x) else uint x)"

definition f64_partial_cmp :: "f64 \<Rightarrow> f64 \<Rightarrow> ordering option" where
  "f64_partial_cmp x y =
     (if f64_is_nan x \<or> f64_is_nan y then None else Some (cmp (f64_order_key x) (f64_order_key y)))"

definition text_cmp :: "string \<Rightarrow> string \<Rightarrow> ordering" where
  "text_cmp a b =
     (case (value_temporal_sort_key a, value_temporal_sort_key b) of
        (Some x, Some y) \<Rightarrow> cmp x y
      | _ \<Rightarrow>
     (case (value_interval_sort_key a, value_interval_sort_key b) of
        (Some x, Some y) \<Rightarrow> cmp x y
      | _ \<Rightarrow>
     (case blob_string_ordering a b of
        Some ord \<Rightarrow> ord
      | None \<Rightarrow> cmp a b)))"

definition datetime_cmp :: "string \<Rightarrow> string \<Rightarrow> ordering option" where
  "datetime_cmp a b =
     (case (value_temporal_sort_key a, value_temporal_sort_key b) of
        (Some x, Some y) \<Rightarrow> Some (cmp x y)
      | _ \<Rightarrow> None)"

text \<open>
  The comparison of containers, with the comparison \<open>f\<close> of their members as an argument; \<open>None\<close> is
  the early return of \<open>?\<close>.
\<close>

fun nested_slice_cmp :: "('a \<Rightarrow> 'a \<Rightarrow> ordering option) \<Rightarrow> 'a list \<Rightarrow> 'a list \<Rightarrow> ordering option" where
  "nested_slice_cmp f (x # xs) (y # ys) =
     (case f x y of
        None \<Rightarrow> None
      | Some c \<Rightarrow> if c = Equal then nested_slice_cmp f xs ys else Some c)"
| "nested_slice_cmp f xs ys = Some (cmp (length xs) (length ys))"

definition map_field_order :: "(string \<times> val) list \<Rightarrow> string list option" where
  "map_field_order m =
     (case map_of m STRUCT_ORDER_KEY of
        Some (V_List items) \<Rightarrow>
          Some (concat (map (\<lambda>item. case item of
             V_String key \<Rightarrow> if map_of m key \<noteq> None then [key] else []
           | _ \<Rightarrow> []) items))
      | _ \<Rightarrow> None)"

fun nested_fields_cmp ::
  "(val \<Rightarrow> val \<Rightarrow> ordering option) \<Rightarrow> (string \<times> val) list \<Rightarrow> (string \<times> val) list \<Rightarrow> string list \<Rightarrow> ordering option" where
  "nested_fields_cmp f left right [] = Some Equal"
| "nested_fields_cmp f left right (key # keys) =
     (case (map_of left key, map_of right key) of
        (Some x, Some y) \<Rightarrow>
          (case f x y of
             None \<Rightarrow> None
           | Some c \<Rightarrow> if c = Equal then nested_fields_cmp f left right keys else Some c)
      | (Some _, None) \<Rightarrow> Some Greater
      | (None, Some _) \<Rightarrow> Some Less
      | (None, None) \<Rightarrow> nested_fields_cmp f left right keys)"

fun nested_map_entries_cmp ::
  "(val \<Rightarrow> val \<Rightarrow> ordering option) \<Rightarrow> (string \<times> val) list \<Rightarrow> (string \<times> val) list
   \<Rightarrow> string list \<Rightarrow> string list \<Rightarrow> ordering option" where
  "nested_map_entries_cmp f left right (lk # lks) (rk # rks) =
     (if lk \<noteq> rk then Some (cmp lk rk)
      else (case (map_of left lk, map_of right rk) of
              (Some x, Some y) \<Rightarrow>
                (case f x y of
                   None \<Rightarrow> None
                 | Some c \<Rightarrow> if c = Equal then nested_map_entries_cmp f left right lks rks else Some c)
            | _ \<Rightarrow> None))"
| "nested_map_entries_cmp f left right lks rks = Some (cmp (length lks) (length rks))"

definition nested_map_cmp ::
  "(val \<Rightarrow> val \<Rightarrow> ordering option) \<Rightarrow> (string \<times> val) list \<Rightarrow> (string \<times> val) list \<Rightarrow> ordering option" where
  "nested_map_cmp f left right =
     (case (case map_field_order left of Some order \<Rightarrow> Some order | None \<Rightarrow> map_field_order right) of
        Some order \<Rightarrow>
          (case nested_fields_cmp f left right order of
             None \<Rightarrow> None
           | Some c \<Rightarrow>
               if c \<noteq> Equal then Some c
               else nested_map_entries_cmp f left right
                 (filter (\<lambda>key. key \<notin> set order) (visible_map_keys left))
                 (filter (\<lambda>key. key \<notin> set order) (visible_map_keys right)))
      | None \<Rightarrow> nested_map_entries_cmp f left right (visible_map_keys left) (visible_map_keys right))"

lemma nested_slice_cmp_cong [fundef_cong]:
  assumes "xs = xs'" "ys = ys'" "\<And>x y. x \<in> set xs' \<Longrightarrow> y \<in> set ys' \<Longrightarrow> f x y = g x y"
  shows "nested_slice_cmp f xs ys = nested_slice_cmp g xs' ys'"
  using assms
proof (induction g xs' ys' arbitrary: xs ys rule: nested_slice_cmp.induct)
  case (1 g x xs y ys)
  then show ?case by (auto split: option.split)
qed auto

lemma nested_map_cmp_cong [fundef_cong]:
  assumes "m = m'" "n = n'"
    and agree: "\<And>x y. x \<in> snd ` set m' \<Longrightarrow> y \<in> snd ` set n' \<Longrightarrow> f x y = g x y"
  shows "nested_map_cmp f m n = nested_map_cmp g m' n'"
proof -
  have val: "f x y = g x y" if "map_of m' k = Some x" "map_of n' l = Some y" for k l x y
    using that agree by (force dest: map_of_SomeD)
  have "nested_fields_cmp f m' n' ks = nested_fields_cmp g m' n' ks" for ks
    by (induction ks) (auto simp: val split: option.split)
  moreover have "nested_map_entries_cmp f m' n' ks ls = nested_map_entries_cmp g m' n' ks ls" for ks ls
    by (induction ks ls rule: list_induct2') (auto simp: val split: option.split)
  ultimately show ?thesis
    using assms(1,2) by (simp add: nested_map_cmp_def split: option.split)
qed

text \<open>The pairs of containers both comparisons share; the outer \<open>None\<close> is any other pair.\<close>

definition container_cmp :: "(val \<Rightarrow> val \<Rightarrow> ordering option) \<Rightarrow> val \<Rightarrow> val \<Rightarrow> ordering option option" where
  "container_cmp f a b =
     (case a of
        V_List x \<Rightarrow> (case b of V_List y \<Rightarrow> Some (nested_slice_cmp f x y) | _ \<Rightarrow> None)
      | V_Path x \<Rightarrow> (case b of V_Path y \<Rightarrow> Some (nested_slice_cmp f x y) | _ \<Rightarrow> None)
      | V_Map x \<Rightarrow> (case b of V_Map y \<Rightarrow> Some (nested_map_cmp f x y) | _ \<Rightarrow> None)
      | _ \<Rightarrow> None)"

lemma container_cmp_cong [fundef_cong]:
  assumes "a = a'" "b = b'"
    and "\<And>x y. x \<in> members a' \<Longrightarrow> y \<in> members b' \<Longrightarrow> f x y = g x y"
  shows "container_cmp f a b = container_cmp g a' b'"
proof -
  have "container_cmp f a' b' = container_cmp g a' b'"
  proof (cases a')
    case (V_List x)
    then show ?thesis
      using assms(3) by (cases b') (auto simp: container_cmp_def members_def intro: nested_slice_cmp_cong)
  next
    case (V_Path x)
    then show ?thesis
      using assms(3) by (cases b') (auto simp: container_cmp_def members_def intro: nested_slice_cmp_cong)
  next
    case (V_Map x)
    then show ?thesis
      using assms(3) by (cases b') (auto simp: container_cmp_def members_def intro!: nested_map_cmp_cong)
  qed (simp_all add: container_cmp_def)
  then show ?thesis using assms(1,2) by simp
qed

text \<open>The arms after the decimal guard other than containers.\<close>

definition atom_cmp :: "val \<Rightarrow> val \<Rightarrow> ordering option" where
  "atom_cmp a b =
     (case a of
        V_Float x \<Rightarrow> (case b of V_Float y \<Rightarrow> f64_partial_cmp x y | _ \<Rightarrow> None)
      | V_String x \<Rightarrow> (case b of V_String y \<Rightarrow> Some (text_cmp x y) | V_DateTime y \<Rightarrow> datetime_cmp x y | _ \<Rightarrow> None)
      | V_DateTime x \<Rightarrow>
          (case b of
             V_DateTime y \<Rightarrow> (case datetime_cmp x y of Some c \<Rightarrow> Some c | None \<Rightarrow> Some (cmp x y))
           | V_String y \<Rightarrow> datetime_cmp x y
           | _ \<Rightarrow> None)
      | V_InternalId t i \<Rightarrow>
          (case b of
             V_InternalId u j \<Rightarrow> Some (then_with (cmp (sint t) (sint u)) (cmp (sint i) (sint j)))
           | _ \<Rightarrow> None)
      | V_Bool x \<Rightarrow> (case b of V_Bool y \<Rightarrow> Some (cmp x y) | _ \<Rightarrow> None)
      | _ \<Rightarrow> None)"

text \<open>The arms that return early: two scalars of one type, two typed temporal values.\<close>

definition early_cmp :: "order_lib \<Rightarrow> val \<Rightarrow> val \<Rightarrow> ordering option option" where
  "early_cmp L a b =
     (case a of
        V_Scalar x \<Rightarrow>
          (case b of
             V_Scalar y \<Rightarrow> if sv_data_type x = sv_data_type y then Some (scalar_partial_cmp L x y) else None
           | _ \<Rightarrow> None)
      | V_Temporal x \<Rightarrow> (case b of V_Temporal y \<Rightarrow> Some (temporal_compare L x y) | _ \<Rightarrow> None)
      | _ \<Rightarrow> None)"

function three_valued_cmp :: "order_lib \<Rightarrow> val \<Rightarrow> val \<Rightarrow> ordering option"
  and nested_value_cmp :: "order_lib \<Rightarrow> val \<Rightarrow> val \<Rightarrow> ordering option" where
  "three_valued_cmp L a b =
     (case early_cmp L a b of
        Some c \<Rightarrow> c
      | None \<Rightarrow>
     (case semantic L a of
        Some v \<Rightarrow> three_valued_cmp L v b
      | None \<Rightarrow>
     (case semantic L b of
        Some v \<Rightarrow> three_valued_cmp L a v
      | None \<Rightarrow>
     (if a = V_Null \<and> b = V_Null then Some Equal
      else if a = V_Null \<or> b = V_Null then None
      else if signed_decimal L a \<noteq> None \<or> signed_decimal L b \<noteq> None
      then (case (signed_decimal L a, signed_decimal L b) of
              (Some x, Some y) \<Rightarrow> Some (decimal_cmp L x y)
            | _ \<Rightarrow> None)
      else (case container_cmp (nested_value_cmp L) a b of
              Some c \<Rightarrow> c
            | None \<Rightarrow> atom_cmp a b)))))"
| "nested_value_cmp L a b =
     (if a = V_Null \<and> b = V_Null then Some Equal
      else if a = V_Null then Some Greater
      else if b = V_Null then Some Less
      else (case container_cmp (nested_value_cmp L) a b of
              Some c \<Rightarrow> c
            | None \<Rightarrow> three_valued_cmp L a b))"
  by pat_completeness auto
termination
  by (relation "measures
      [\<lambda>p. case p of Inl (L, a, b) \<Rightarrow> scalars a + scalars b | Inr (L, a, b) \<Rightarrow> scalars a + scalars b,
       \<lambda>p. case p of Inl (L, a, b) \<Rightarrow> 2 * (size a + size b) | Inr (L, a, b) \<Rightarrow> Suc (2 * (size a + size b))]")
    (auto simp: semantic_decreases dest: member_pair_smaller)

declare three_valued_cmp.simps [simp del] nested_value_cmp.simps [simp del]


section \<open>The evaluated comparisons\<close>

text \<open>
  \<open>decode_display_number\<close>, \<open>nan_cmp\<close>, \<open>temporal_cmp\<close> and the comparison part of \<open>eval_binary\<close>, on
  operands that are already evaluated.
\<close>

definition decode_display_number :: "arith_lib \<Rightarrow> val \<Rightarrow> val option" where
  "decode_display_number A v =
     (case v of
        V_String s \<Rightarrow>
          if \<not> prefix ''d['' s then None
          else (case split_once (CHR '']'') (drop 2 s) of
                  None \<Rightarrow> None
                | Some (digits, kind) \<Rightarrow>
                    if kind \<notin> {''.i'', ''.l'', ''.s'', ''.b'', ''.n'', ''.d'', ''.f'', ''.m'', []} then None
                    else (case parse_i64 digits of
                            Some n \<Rightarrow> Some (V_Long n)
                          | None \<Rightarrow> map_option V_Float (f_parse A digits)))
      | _ \<Rightarrow> None)"

definition display_number :: "arith_lib \<Rightarrow> val \<Rightarrow> val" where
  "display_number A v = (case decode_display_number A v of Some w \<Rightarrow> w | None \<Rightarrow> v)"

definition as_float :: "arith_lib \<Rightarrow> val \<Rightarrow> f64 option" where
  "as_float A v =
     (case v of
        V_Float x \<Rightarrow> Some x
      | V_Float32 x \<Rightarrow> Some (f_of_f32 A x)
      | V_Byte n \<Rightarrow> Some (f_of_int A (sint n))
      | V_Short n \<Rightarrow> Some (f_of_int A (sint n))
      | V_Int n \<Rightarrow> Some (f_of_int A (sint n))
      | V_Long n \<Rightarrow> Some (f_of_int A (sint n))
      | _ \<Rightarrow> None)"

definition nan_cmp :: "arith_lib \<Rightarrow> val \<Rightarrow> val \<Rightarrow> ordering option" where
  "nan_cmp A lhs rhs =
     (case (as_float A lhs, as_float A rhs) of
        (Some l, Some r) \<Rightarrow> if f64_is_nan l then Some Less else if f64_is_nan r then Some Greater else None
      | _ \<Rightarrow> None)"

definition text_of :: "val \<Rightarrow> string option" where
  "text_of v = (case v of V_DateTime s \<Rightarrow> Some s | V_String s \<Rightarrow> Some s | _ \<Rightarrow> None)"

definition temporal_cmp :: "val \<Rightarrow> val \<Rightarrow> ordering option" where
  "temporal_cmp lhs rhs =
     (case (text_of lhs, text_of rhs) of
        (Some a, Some b) \<Rightarrow>
          (case (temporal_sort_key a, temporal_sort_key b) of
             (Some x, Some y) \<Rightarrow> Some (cmp x y)
           | _ \<Rightarrow> (case (interval_sort_key a, interval_sort_key b) of
                 (Some x, Some y) \<Rightarrow> Some (cmp x y)
               | _ \<Rightarrow> None))
      | _ \<Rightarrow> None)"

definition ordering_holds :: "binary_op \<Rightarrow> ordering \<Rightarrow> bool" where
  "ordering_holds op ord =
     (case op of
        BO_Lt \<Rightarrow> ord = Less
      | BO_Lte \<Rightarrow> ord \<noteq> Greater
      | BO_Gt \<Rightarrow> ord = Greater
      | _ \<Rightarrow> ord \<noteq> Less)"

definition compare_operands :: "order_lib \<Rightarrow> arith_lib \<Rightarrow> binary_op \<Rightarrow> val \<Rightarrow> val \<Rightarrow> val" where
  "compare_operands L A op lhs rhs =
     (let lhs = display_number A lhs; rhs = display_number A rhs
      in case nan_cmp A lhs rhs of
           Some ord \<Rightarrow> V_Bool (ordering_holds op ord)
         | None \<Rightarrow>
             (case (case temporal_cmp lhs rhs of Some ord \<Rightarrow> Some ord | None \<Rightarrow> three_valued_cmp L lhs rhs) of
                Some ord \<Rightarrow> V_Bool (ordering_holds op ord)
              | None \<Rightarrow> V_Null))"

definition equal_operands :: "order_lib \<Rightarrow> val \<Rightarrow> val \<Rightarrow> val" where
  "equal_operands L lhs rhs = (case three_valued_eq L lhs rhs of Some b \<Rightarrow> V_Bool b | None \<Rightarrow> V_Null)"

definition unequal_operands :: "order_lib \<Rightarrow> val \<Rightarrow> val \<Rightarrow> val" where
  "unequal_operands L lhs rhs = (case three_valued_eq L lhs rhs of Some b \<Rightarrow> V_Bool (\<not> b) | None \<Rightarrow> V_Null)"

section \<open>Integers compare by value\<close>

text \<open>What the code relies on from \<open>bigdecimal\<close>: integers (scale 0) compare as numbers.\<close>

definition integers_exact :: "order_lib \<Rightarrow> bool" where
  "integers_exact L \<longleftrightarrow>
     (\<forall>m n. decimal_cmp L (m, 0) (n, 0) = cmp m n \<and> decimal_same (values_of L) m 0 n 0 = (m = n))"

definition is_unsigned :: "val \<Rightarrow> bool" where
  "is_unsigned v \<longleftrightarrow>
     (case v of V_UInt8 _ \<Rightarrow> True | V_UInt16 _ \<Rightarrow> True | V_UInt32 _ \<Rightarrow> True | V_UInt64 _ \<Rightarrow> True
      | V_UInt128 _ \<Rightarrow> True | _ \<Rightarrow> False)"

lemma integer_numeric_decimal:
  "integer_operand_of v = Some i \<Longrightarrow> numeric_decimal L v = Some (io_value i, 0)"
  "integer_operand_of v = Some i \<Longrightarrow> \<not> is_unsigned v \<Longrightarrow> signed_decimal L v = Some (io_value i, 0)"
  by (auto simp: integer_operand_of_def numeric_decimal_def signed_decimal_def is_unsigned_def
      split: val.splits)

lemma integer_not_special:
  assumes "integer_operand_of v = Some i"
  shows "v \<noteq> V_Null" "semantic L v = None" "same_typed_scalars v w = False" "eq_identified K v w = None"
    "early_cmp L v w = None"
  using assms
  by (auto simp: integer_operand_of_def same_typed_scalars_def eq_identified_def early_cmp_def
      split: val.splits)

lemma unsigned_not_special:
  assumes "is_unsigned v"
  shows "v \<noteq> V_Null" "semantic L v = None" "early_cmp L v w = None" "early_cmp L w v = None"
    "signed_decimal L v = None" "container_cmp f v w = None" "container_cmp f w v = None"
    "atom_cmp v w = None" "atom_cmp w v = None"
  using assms
  by (cases v; simp add: is_unsigned_def early_cmp_def signed_decimal_def container_cmp_def atom_cmp_def
      split: val.split)+

lemma three_valued_cmp_unsigned_plain:
  assumes "is_unsigned v" "semantic L w = None"
  shows "three_valued_cmp L v w = None" "three_valued_cmp L w v = None"
  using assms unsigned_not_special [OF assms(1)]
  by (simp_all add: three_valued_cmp.simps [of L v w] three_valued_cmp.simps [of L w v] split: option.split)

lemma semantic_plain: "semantic L w = Some u \<Longrightarrow> semantic L u = None"
  by (auto simp: semantic_def split: val.splits option.splits if_splits)

lemma display_number_plain: "\<forall>s. v \<noteq> V_String s \<Longrightarrow> display_number A v = v"
  by (auto simp: display_number_def decode_display_number_def split: val.splits)

lemma nan_cmp_unsigned:
  "is_unsigned v \<Longrightarrow> nan_cmp A v w = None" "is_unsigned v \<Longrightarrow> nan_cmp A w v = None"
  by (cases v; auto simp: nan_cmp_def as_float_def is_unsigned_def split: option.split)+

lemma temporal_cmp_unsigned:
  "is_unsigned v \<Longrightarrow> temporal_cmp v w = None" "is_unsigned v \<Longrightarrow> temporal_cmp w v = None"
  by (cases v; auto simp: temporal_cmp_def text_of_def is_unsigned_def split: option.split)+

lemma three_valued_cmp_unsigned:
  assumes "is_unsigned v"
  shows "three_valued_cmp L v w = None" "three_valued_cmp L w v = None"
proof -
  have "three_valued_cmp L v w = None \<and> three_valued_cmp L w v = None"
  proof (cases "semantic L w")
    case None
    then show ?thesis
      using three_valued_cmp_unsigned_plain [OF assms] by auto
  next
    case (Some u)
    then have "three_valued_cmp L v u = None" "three_valued_cmp L u v = None"
      using three_valued_cmp_unsigned_plain [OF assms, of L u] semantic_plain by auto
    then show ?thesis
      using Some unsigned_not_special [OF assms]
      by (simp add: three_valued_cmp.simps [of L v w] three_valued_cmp.simps [of L w v])
  qed
  then show "three_valued_cmp L v w = None" "three_valued_cmp L w v = None" by auto
qed

section \<open>A concrete library\<close>

text \<open>Used where a statement is exhibited on concrete data: decimals compare by cross-multiplication.\<close>

definition text_order_lib :: order_lib where
  "text_order_lib = \<lparr>
     values_of = text_lib,
     scalar_other = (\<lambda>_. None),
     scalar_partial_cmp = (\<lambda>_ _. None),
     decimal_of_f32 = (\<lambda>_. None),
     decimal_of_f64 = (\<lambda>_. None),
     decimal_cmp = (\<lambda>a b. cmp (fst a * 10 ^ nat (snd b)) (fst b * 10 ^ nat (snd a))),
     temporal_compare = (\<lambda>_ _. None)\<rparr>"

lemma integers_exact_text [simp]: "integers_exact text_order_lib"
  by (simp add: integers_exact_def text_order_lib_def text_lib_def)

section \<open>Properties\<close>

text \<open>
  Two integers are equal exactly when their values are, whatever their types; two integers of the
  signed types and of arbitrary precision compare by their values.  The library hypothesis is that
  decimals of scale 0 compare as numbers.
\<close>

theorem integers_compare_by_value:
  assumes "integers_exact L" and "integer_operand_of a = Some x" and "integer_operand_of b = Some y"
  shows "three_valued_eq L a b = Some (io_value x = io_value y) \<and>
    (\<not> is_unsigned a \<and> \<not> is_unsigned b \<longrightarrow>
      three_valued_cmp L a b = Some (cmp (io_value x) (io_value y)))"
proof (intro conjI impI)
  note special = integer_not_special [OF assms(2)] integer_not_special [OF assms(3)]
  show "three_valued_eq L a b = Some (io_value x = io_value y)"
    using special assms(1) integer_numeric_decimal(1) [OF assms(2)] integer_numeric_decimal(1) [OF assms(3)]
    by (simp add: three_valued_eq.simps [of L a b] decimal_eq_def integers_exact_def)
  assume "\<not> is_unsigned a \<and> \<not> is_unsigned b"
  then show "three_valued_cmp L a b = Some (cmp (io_value x) (io_value y))"
    using special assms(1) integer_numeric_decimal(2) [OF assms(2)] integer_numeric_decimal(2) [OF assms(3)]
    by (simp add: three_valued_cmp.simps [of L a b] integers_exact_def)
qed

theorem integers_compare_by_value_witness:
  "three_valued_eq text_order_lib (V_UInt8 255) (V_Byte 255) = Some False \<and>
   three_valued_eq text_order_lib (V_UInt8 7) (V_Long 7) = Some True \<and>
   three_valued_cmp text_order_lib (V_Byte 255) (V_Long 3) = Some Less"
  using integers_compare_by_value [of text_order_lib "V_UInt8 255" _ "V_Byte 255"]
    integers_compare_by_value [of text_order_lib "V_UInt8 7" _ "V_Long 7"]
    integers_compare_by_value [of text_order_lib "V_Byte 255" _ "V_Long 3"]
  by (simp add: integer_operand_of_def is_unsigned_def)

text \<open>
  An ordering comparison with an unsigned operand is always null, also between two unsigned
  values of one type: \<open>three_valued_cmp\<close> has no arm for the unsigned types, which
  \<open>three_valued_eq\<close> and \<open>compare_values\<close> do have.
\<close>

theorem unsigned_never_compares:
  assumes "is_unsigned v" and "\<forall>s. w \<noteq> V_String s"
  shows "compare_operands L A op v w = V_Null \<and> compare_operands L A op w v = V_Null"
proof -
  have "\<forall>s. v \<noteq> V_String s"
    using assms(1) by (auto simp: is_unsigned_def)
  then show ?thesis
    using assms by (simp add: compare_operands_def display_number_plain nan_cmp_unsigned
        temporal_cmp_unsigned three_valued_cmp_unsigned)
qed

theorem unsigned_never_compares_witness:
  "compare_operands text_order_lib plain_lib BO_Lt (V_UInt8 1) (V_UInt8 2) = V_Null \<and>
   compare_operands text_order_lib plain_lib BO_Gte (V_Int 2) (V_UInt64 1) = V_Null"
  using unsigned_never_compares [of "V_UInt8 1" "V_UInt8 2" text_order_lib plain_lib BO_Lt]
    unsigned_never_compares [of "V_UInt64 1" "V_Int 2" text_order_lib plain_lib BO_Gte]
  by (simp add: is_unsigned_def)

text \<open>
  The comparison of strings that \<open>ORDER BY\<close> and \<open><\<close> use is cyclic, so it is no order: two texts that
  read as dates compare as dates, every other pair byte by byte.
\<close>

theorem text_order_cyclic:
  "three_valued_cmp L (V_String ''9-1-1'') (V_String ''10-1-1'') = Some Less \<and>
   three_valued_cmp L (V_String ''10-1-1'') (V_String ''5'') = Some Less \<and>
   three_valued_cmp L (V_String ''5'') (V_String ''9-1-1'') = Some Less"
proof -
  have keys: "value_temporal_sort_key ''9-1-1'' = Some [9, 1, 1, 0, 0, 0, 0]"
      "value_temporal_sort_key ''10-1-1'' = Some [10, 1, 1, 0, 0, 0, 0]"
      "value_temporal_sort_key ''5'' = None"
    by code_simp+
  have other: "value_interval_sort_key ''5'' = None" "value_interval_sort_key ''10-1-1'' = None"
      "blob_string_ordering ''10-1-1'' ''5'' = None" "blob_string_ordering ''5'' ''9-1-1'' = None"
    by code_simp+
  have strings: "three_valued_cmp L (V_String s) (V_String t) = Some (text_cmp s t)" for s t
    by (simp add: three_valued_cmp.simps early_cmp_def signed_decimal_def container_cmp_def atom_cmp_def)
  have "''10-1-1'' < ''5''" "''5'' < ''9-1-1''" by code_simp+
  then show ?thesis
    by (simp add: strings text_cmp_def keys other)
qed

end
