(* ===== verification/Expression_Eval.thy ===== *)
theory Expression_Eval
  imports Runtime_Order Graph_Reads
begin

text \<open>
  Expressions and their evaluation: \<open>Lit\<close>, \<open>StringOp\<close> and \<open>IrExpr\<close> of \<open>src/src/ir/expr.rs\<close>, rows
  (\<open>src/src/ir/runtime/mod.rs\<close>), \<open>eval_binary\<close> (\<open>src/src/ir/runtime/expr/binary.rs\<close>), \<open>eval\<close>
  (\<open>src/src/ir/runtime/expr/mod.rs\<close>) and the quantifiers
  (\<open>src/src/ir/runtime/ops/quantifier.rs\<close>).

  An expression reads the bindings of one row and the graph.  The scalar functions it calls by name
  (\<open>eval_call\<close>, \<open>src/src/ir/runtime/scalar\<close>), the components of typed temporal values and the
  reserved properties of graph elements are the fields of \<open>eval_lib\<close>.
\<close>

section \<open>Expressions\<close>

datatype lit =
    Lit_Scalar scalar_value | Lit_Null | Lit_Bool bool | Lit_Int i64 | Lit_Float f64 | Lit_String string

datatype string_op = SO_StartsWith | SO_EndsWith | SO_Contains

datatype property_missing = PM_NullOnMissing | PM_DropUnproductive | PM_Unbound | PM_Error | PM_ProviderDefined

datatype quantifier_kind = Q_All | Q_Any | Q_None | Q_Single

datatype (plugins only: code size) ir_expr =
    E_Lit lit
  | E_Binding string
  | E_Property string string property_missing
  | E_Id string
  | E_Label string
  | E_HasLabel string string
  | E_Binary binary_op ir_expr ir_expr
  | E_Not ir_expr
  | E_StringPredicate string_op ir_expr ir_expr
  | E_IsNull ir_expr
  | E_IsNotNull ir_expr
  | E_IsBound string
  | E_SimplePath string
  | E_List "ir_expr list"
  | E_Quantifier quantifier_kind ir_expr string ir_expr
  | E_ListReduce ir_expr string string ir_expr
  | E_ListTransform ir_expr string ir_expr
  | E_ListFilter ir_expr string ir_expr
  | E_Call string "ir_expr list"
  | E_Case "(ir_expr \<times> ir_expr) list" "ir_expr option"

text \<open>\<open>IrExpr::and\<close>: the conjunction of the parts, associated to the left.\<close>

definition and_expr :: "ir_expr list \<Rightarrow> ir_expr" where
  "and_expr parts =
     (case parts of
        [] \<Rightarrow> E_Lit (Lit_Bool True)
      | first # rest \<Rightarrow> foldl (\<lambda>acc e. E_Binary BO_And acc e) first rest)"

section \<open>Rows\<close>

record row =
  row_bindings :: "(string \<times> val) list"
  row_bulk :: u64

definition row_new :: row where
  "row_new = \<lparr>row_bindings = [], row_bulk = 1\<rparr>"

definition row_bind :: "string \<Rightarrow> val \<Rightarrow> row \<Rightarrow> row" where
  "row_bind key v r = r\<lparr>row_bindings := bt_insert key v (row_bindings r)\<rparr>"

definition row_get :: "row \<Rightarrow> string \<Rightarrow> val" where
  "row_get r key = (case map_of (row_bindings r) key of Some v \<Rightarrow> v | None \<Rightarrow> V_Null)"

definition row_ok :: "row \<Rightarrow> bool" where
  "row_ok r \<longleftrightarrow> bt_ordered (row_bindings r)"

lemma row_ok_new [simp]: "row_ok row_new"
  by (simp add: row_ok_def row_new_def bt_ordered_def)

lemma row_ok_bind [simp]: "row_ok r \<Longrightarrow> row_ok (row_bind k v r)"
  by (simp add: row_ok_def row_bind_def bt_ordered_insert)

lemma row_get_bind: "row_ok r \<Longrightarrow> row_get (row_bind k v r) x = (if x = k then v else row_get r x)"
  by (simp add: row_ok_def row_bind_def row_get_def map_of_bt_insert)

section \<open>The library\<close>

record eval_lib =
  ev_order :: order_lib
  ev_arith :: arith_lib
  ev_graph :: graph_lib
  ev_call :: "property_graph \<Rightarrow> string \<Rightarrow> val list \<Rightarrow> runtime_error + val"
  ev_element_property :: "property_graph \<Rightarrow> val \<Rightarrow> string \<Rightarrow> val"
  ev_component :: "temporal \<Rightarrow> string \<Rightarrow> val"

definition INVALID_TYPE :: nat where
  "INVALID_TYPE = 2"

section \<open>The parts of the evaluator that evaluate nothing further\<close>

definition lit_value :: "lit \<Rightarrow> val" where
  "lit_value l =
     (case l of
        Lit_Scalar s \<Rightarrow> V_Scalar s
      | Lit_Null \<Rightarrow> V_Null
      | Lit_Bool b \<Rightarrow> V_Bool b
      | Lit_Int n \<Rightarrow> V_Int n
      | Lit_Float x \<Rightarrow> V_Float x
      | Lit_String s \<Rightarrow> V_String s)"

text \<open>A field of a map: the exact key, else the first key that differs in case only.\<close>

definition map_field :: "(string \<times> val) list \<Rightarrow> string \<Rightarrow> val" where
  "map_field m name =
     (case map_of m name of
        Some v \<Rightarrow> v
      | None \<Rightarrow>
          (let candidates = (case map_of m STRUCT_ORDER_KEY of
                 Some (V_List items) \<Rightarrow> concat (map (\<lambda>item. case item of V_String key \<Rightarrow> [key] | _ \<Rightarrow> []) items)
               | _ \<Rightarrow> map fst m)
           in case find (\<lambda>key. \<not> prefix ''__'' key \<and> to_ascii_lowercase key = to_ascii_lowercase name) candidates of
                None \<Rightarrow> V_Null
              | Some key \<Rightarrow> (case map_of m key of Some v \<Rightarrow> v | None \<Rightarrow> V_Null)))"

definition reserved_property :: "string \<Rightarrow> bool" where
  "reserved_property name \<longleftrightarrow>
     name \<in> {''_id'', ''_ID'', ''_label'', ''_LABEL'', ''_src'', ''_SRC'', ''_dst'', ''_DST''}"

definition property_value :: "eval_lib \<Rightarrow> property_graph \<Rightarrow> val \<Rightarrow> string \<Rightarrow> val" where
  "property_value L g v name =
     (case v of
        V_Node label i \<Rightarrow>
          if reserved_property name then ev_element_property L g v name
          else node_property (ev_graph L) g label i name
      | V_Edge rel i _ _ _ _ _ \<Rightarrow>
          if reserved_property name then ev_element_property L g v name
          else edge_property (ev_graph L) g rel i name
      | V_InternalId _ _ \<Rightarrow> if reserved_property name then ev_element_property L g v name else V_Null
      | V_VertexProperty _ _ _ _ \<Rightarrow> ev_element_property L g v name
      | V_Property _ _ _ \<Rightarrow> ev_element_property L g v name
      | V_MapEntry k x \<Rightarrow> if name = ''key'' then k else if name = ''value'' then x else V_Null
      | V_Map m \<Rightarrow> map_field m name
      | V_Temporal t \<Rightarrow> ev_component L t name
      | _ \<Rightarrow> V_Null)"

definition eval_property ::
  "eval_lib \<Rightarrow> property_graph \<Rightarrow> string \<Rightarrow> string \<Rightarrow> property_missing \<Rightarrow> row \<Rightarrow> runtime_error + val" where
  "eval_property L g binding name policy r =
     (let resolved = property_value L g (row_get r binding) name
      in if policy = PM_Error \<and> resolved = V_Null
         then Inl (RE_Type (''property `'' @ name @ ''` missing for binding `'' @ binding @ ''`''))
         else Inr resolved)"

definition eval_id :: "string \<Rightarrow> row \<Rightarrow> val" where
  "eval_id binding r =
     (case row_get r binding of
        V_Node _ i \<Rightarrow> element_to_value i
      | V_Edge _ i _ _ _ _ _ \<Rightarrow> element_to_value i
      | _ \<Rightarrow> V_Null)"

definition eval_label :: "string \<Rightarrow> row \<Rightarrow> val" where
  "eval_label binding r =
     (case row_get r binding of
        V_VertexProperty _ _ key _ \<Rightarrow> V_String key
      | V_Node label _ \<Rightarrow> V_String label
      | V_Edge rel _ _ _ _ _ _ \<Rightarrow> V_String rel
      | _ \<Rightarrow> V_Null)"

definition eval_has_label :: "string \<Rightarrow> string \<Rightarrow> row \<Rightarrow> val" where
  "eval_has_label binding label r =
     (case row_get r binding of
        V_Node l _ \<Rightarrow> V_Bool (l = label)
      | V_Edge rel _ _ _ _ _ _ \<Rightarrow> V_Bool (rel = label)
      | _ \<Rightarrow> V_Null)"

definition is_simple_path :: "value_lib \<Rightarrow> val list \<Rightarrow> bool" where
  "is_simple_path L items \<longleftrightarrow>
     \<not> list_ex (\<lambda>i. list_ex (\<lambda>earlier. value_eq L earlier (items ! i)) (take i items)) [0..<length items]"

definition eval_simple_path :: "eval_lib \<Rightarrow> string \<Rightarrow> row \<Rightarrow> val" where
  "eval_simple_path L binding r =
     (case row_get r binding of
        V_Path items \<Rightarrow> V_Bool (is_simple_path (values_of (ev_order L)) items)
      | _ \<Rightarrow> V_Bool True)"

definition eval_not :: "val \<Rightarrow> runtime_error + val" where
  "eval_not v =
     (case v of
        V_Bool b \<Rightarrow> Inr (V_Bool (\<not> b))
      | V_Null \<Rightarrow> Inr V_Null
      | _ \<Rightarrow> Inl (RE_Type (''not on '' @ type_name v)))"

definition string_predicate :: "string_op \<Rightarrow> val \<Rightarrow> val \<Rightarrow> val" where
  "string_predicate op target pattern =
     (case (target, pattern) of
        (V_String t, V_String p) \<Rightarrow>
          V_Bool (case op of SO_StartsWith \<Rightarrow> prefix p t | SO_EndsWith \<Rightarrow> suffix p t | SO_Contains \<Rightarrow> sublist p t)
      | _ \<Rightarrow> V_Null)"

text \<open>\<open>eval_binary\<close> after both operands are evaluated: \<open>AND\<close> and \<open>OR\<close>, and the other operators.\<close>

definition short_circuits :: "binary_op \<Rightarrow> val \<Rightarrow> bool" where
  "short_circuits op lhs \<longleftrightarrow> (op = BO_And \<and> lhs = V_Bool False) \<or> (op = BO_Or \<and> lhs = V_Bool True)"

definition logic_operands :: "binary_op \<Rightarrow> val \<Rightarrow> val \<Rightarrow> val" where
  "logic_operands op lhs rhs =
     (case (lhs, rhs) of
        (V_Bool a, V_Bool b) \<Rightarrow> V_Bool (if op = BO_And then a \<and> b else a \<or> b)
      | (V_Null, V_Bool b) \<Rightarrow>
          if op = BO_And \<and> \<not> b then V_Bool False else if op = BO_Or \<and> b then V_Bool True else V_Null
      | (V_Bool a, V_Null) \<Rightarrow>
          if op = BO_And \<and> \<not> a then V_Bool False else if op = BO_Or \<and> a then V_Bool True else V_Null
      | _ \<Rightarrow> V_Null)"

definition binary_operands :: "eval_lib \<Rightarrow> binary_op \<Rightarrow> val \<Rightarrow> val \<Rightarrow> runtime_error + val" where
  "binary_operands L op lhs rhs =
     (case op of
        BO_Eq \<Rightarrow> Inr (equal_operands (ev_order L) lhs rhs)
      | BO_Neq \<Rightarrow> Inr (unequal_operands (ev_order L) lhs rhs)
      | BO_Lt \<Rightarrow> Inr (compare_operands (ev_order L) (ev_arith L) op lhs rhs)
      | BO_Lte \<Rightarrow> Inr (compare_operands (ev_order L) (ev_arith L) op lhs rhs)
      | BO_Gt \<Rightarrow> Inr (compare_operands (ev_order L) (ev_arith L) op lhs rhs)
      | BO_Gte \<Rightarrow> Inr (compare_operands (ev_order L) (ev_arith L) op lhs rhs)
      | BO_And \<Rightarrow> Inr (logic_operands op lhs rhs)
      | BO_Or \<Rightarrow> Inr (logic_operands op lhs rhs)
      | _ \<Rightarrow> arithmetic (ev_arith L) op lhs rhs)"

definition owned_runtime_list :: "arith_lib \<Rightarrow> val \<Rightarrow> val list option" where
  "owned_runtime_list A source =
     (case source of
        V_List items \<Rightarrow> Some items
      | V_BulkSet items \<Rightarrow> Some items
      | V_Path items \<Rightarrow> Some items
      | _ \<Rightarrow> runtime_list A source)"

section \<open>Quantifiers\<close>

definition quantifier_result :: "quantifier_kind \<Rightarrow> nat \<Rightarrow> nat \<Rightarrow> nat \<Rightarrow> val" where
  "quantifier_result kind items matches nulls =
     (let falses = items - (matches + nulls)
      in case kind of
           Q_All \<Rightarrow>
             if 0 < falses then V_Bool False
             else if nulls = 0 \<and> matches = items then V_Bool True
             else V_Null
         | Q_Any \<Rightarrow>
             if 0 < matches then V_Bool True
             else if nulls = 0 then V_Bool False
             else V_Null
         | Q_None \<Rightarrow>
             if 0 < matches then V_Bool False
             else if nulls = 0 then V_Bool True
             else V_Null
         | Q_Single \<Rightarrow>
             if 1 < matches then V_Bool False
             else if nulls = 0 then V_Bool (matches = 1)
             else V_Null)"

definition quantifier_type_error :: runtime_error where
  "quantifier_type_error = RE_Diagnosed INVALID_TYPE ''Cypher quantifier predicate requires a Boolean or null''"

fun quantifier_counts :: "(val \<Rightarrow> runtime_error + val) \<Rightarrow> val list \<Rightarrow> runtime_error + (nat \<times> nat)" where
  "quantifier_counts test [] = Inr (0, 0)"
| "quantifier_counts test (item # items) =
     bind_res (test item) (\<lambda>v.
       case v of
         V_Bool b \<Rightarrow> bind_res (quantifier_counts test items) (\<lambda>(m, n). Inr (if b then Suc m else m, n))
       | V_Null \<Rightarrow> bind_res (quantifier_counts test items) (\<lambda>(m, n). Inr (m, Suc n))
       | _ \<Rightarrow> Inl quantifier_type_error)"

definition literal_predicate :: "ir_expr \<Rightarrow> bool option option" where
  "literal_predicate predicate =
     (case predicate of
        E_Lit (Lit_Bool b) \<Rightarrow> Some (Some b)
      | E_Lit Lit_Null \<Rightarrow> Some None
      | _ \<Rightarrow> None)"

text \<open>\<open>quantifier_value\<close> on the evaluated list; \<open>test\<close> evaluates the predicate with the item bound.\<close>

definition quantifier_over ::
  "quantifier_kind \<Rightarrow> ir_expr \<Rightarrow> (val \<Rightarrow> runtime_error + val) \<Rightarrow> val \<Rightarrow> runtime_error + val" where
  "quantifier_over kind predicate test input =
     (case input of
        V_List items \<Rightarrow>
          (case literal_predicate predicate of
             Some lit \<Rightarrow>
               Inr (quantifier_result kind (length items)
                 (if lit = Some True then length items else 0)
                 (if lit = None then length items else 0))
           | None \<Rightarrow>
               bind_res (quantifier_counts test items) (\<lambda>(matches, nulls).
                 Inr (quantifier_result kind (length items) matches nulls)))
      | _ \<Rightarrow> Inr V_Null)"

section \<open>The loops of the evaluator\<close>

text \<open>
  Each loop has the evaluation of a subexpression as an argument: collecting a vector of results,
  \<open>list_reduce\<close>, \<open>list_filter\<close>, the arms of \<open>CASE\<close>, and the calls that evaluate their arguments
  lazily.
\<close>

fun collect :: "('a \<Rightarrow> 'e + 'b) \<Rightarrow> 'a list \<Rightarrow> 'e + 'b list" where
  "collect f [] = Inr []"
| "collect f (x # xs) = bind_res (f x) (\<lambda>y. bind_res (collect f xs) (\<lambda>ys. Inr (y # ys)))"

fun reduce_loop :: "(val \<Rightarrow> val \<Rightarrow> runtime_error + val) \<Rightarrow> val \<Rightarrow> val list \<Rightarrow> runtime_error + val" where
  "reduce_loop step acc [] = Inr acc"
| "reduce_loop step acc (v # vs) = bind_res (step acc v) (\<lambda>acc. reduce_loop step acc vs)"

fun filter_loop :: "(val \<Rightarrow> runtime_error + val) \<Rightarrow> val list \<Rightarrow> runtime_error + val list" where
  "filter_loop test [] = Inr []"
| "filter_loop test (v # vs) =
     bind_res (test v) (\<lambda>t.
       case t of
         V_Bool b \<Rightarrow> bind_res (filter_loop test vs) (\<lambda>kept. Inr (if b then v # kept else kept))
       | V_Null \<Rightarrow> filter_loop test vs
       | _ \<Rightarrow> Inl (RE_Type (''list_filter predicate must be boolean, got '' @ type_name t)))"

definition case_type_error :: runtime_error where
  "case_type_error = RE_Diagnosed INVALID_TYPE ''CASE predicate requires a Boolean or null''"

text \<open>\<open>None\<close>: no arm was taken.\<close>

fun case_loop :: "('a \<Rightarrow> runtime_error + val) \<Rightarrow> ('a \<times> 'a) list \<Rightarrow> (runtime_error + val) option" where
  "case_loop f [] = None"
| "case_loop f (arm # arms) =
     (case f (fst arm) of
        Inl e \<Rightarrow> Some (Inl e)
      | Inr v \<Rightarrow>
          (case v of
             V_Bool b \<Rightarrow> if b then Some (f (snd arm)) else case_loop f arms
           | V_Null \<Rightarrow> case_loop f arms
           | _ \<Rightarrow> Some (Inl case_type_error)))"

fun first_non_null :: "('a \<Rightarrow> runtime_error + val) \<Rightarrow> 'a list \<Rightarrow> runtime_error + val" where
  "first_non_null f [] = Inr V_Null"
| "first_non_null f (x # xs) = bind_res (f x) (\<lambda>v. if v \<noteq> V_Null then Inr v else first_non_null f xs)"

definition is_null_value :: "val \<Rightarrow> bool" where
  "is_null_value v = (case v of V_Null \<Rightarrow> True | V_Scalar s \<Rightarrow> sv_is_null s | _ \<Rightarrow> False)"

fun lazy_args :: "('a \<Rightarrow> runtime_error + val) \<Rightarrow> 'a list \<Rightarrow> runtime_error + val list" where
  "lazy_args f [] = Inr []"
| "lazy_args f (x # xs) =
     bind_res (f x) (\<lambda>v.
       if is_null_value v then bind_res (lazy_args f xs) (\<lambda>vs. Inr (v # vs))
       else Inr (v # replicate (length xs) V_Null))"

definition conditional_args :: "('a \<Rightarrow> runtime_error + val) \<Rightarrow> string \<Rightarrow> 'a list \<Rightarrow> runtime_error + val list" where
  "conditional_args f name args =
     (case args of
        [test, on_value, on_null] \<Rightarrow>
          if to_ascii_lowercase name = ''fn.nvl2'' then
            bind_res (f test) (\<lambda>t.
              if is_null_value t then bind_res (f on_null) (\<lambda>v. Inr [t, V_Null, v])
              else bind_res (f on_value) (\<lambda>v. Inr [t, v, V_Null]))
          else lazy_args f args
      | _ \<Rightarrow> lazy_args f args)"

definition is_conditional_call :: "string \<Rightarrow> bool" where
  "is_conditional_call name \<longleftrightarrow>
     to_ascii_lowercase name \<in> {''fn.coalesce'', ''fn.nvl'', ''fn.ifnull'', ''fn.nvl2''}"

lemma collect_cong [fundef_cong]:
  "xs = ys \<Longrightarrow> (\<And>x. x \<in> set ys \<Longrightarrow> f x = g x) \<Longrightarrow> collect f xs = collect g ys"
  by (induction ys arbitrary: xs) auto

lemma case_loop_cong [fundef_cong]:
  assumes "xs = ys"
    and "\<And>c v. (c, v) \<in> set ys \<Longrightarrow> f c = g c" and "\<And>c v. (c, v) \<in> set ys \<Longrightarrow> f v = g v"
  shows "case_loop f xs = case_loop g ys"
  using assms
proof (induction ys arbitrary: xs)
  case (Cons y ys)
  then have "case_loop f ys = case_loop g ys" "f (fst y) = g (fst y)" "f (snd y) = g (snd y)"
    by (auto simp: prod_eq_iff)
  with Cons.prems(1) show ?case by (simp split: sum.split val.split)
qed simp

lemma first_non_null_cong [fundef_cong]:
  "xs = ys \<Longrightarrow> (\<And>x. x \<in> set ys \<Longrightarrow> f x = g x) \<Longrightarrow> first_non_null f xs = first_non_null g ys"
  by (induction ys arbitrary: xs) (auto cong: if_cong)

lemma lazy_args_cong:
  "xs = ys \<Longrightarrow> (\<And>x. x \<in> set ys \<Longrightarrow> f x = g x) \<Longrightarrow> lazy_args f xs = lazy_args g ys"
  by (induction ys arbitrary: xs) (auto cong: if_cong)

lemma conditional_args_cong [fundef_cong]:
  assumes "name = name'" "xs = ys" "\<And>x. x \<in> set ys \<Longrightarrow> f x = g x"
  shows "conditional_args f name xs = conditional_args g name' ys"
proof -
  have "lazy_args f ys = lazy_args g ys"
    using lazy_args_cong [of ys ys f g] assms(3) by blast
  with assms show ?thesis
    by (auto simp del: lazy_args.simps simp: conditional_args_def cong: if_cong split: list.split)
qed


section \<open>Evaluation\<close>

text \<open>
  Termination is by the size of the expression.  The scratch row of a list expression is rebuilt from
  the row in every iteration: the bindings it adds are overwritten in each.
\<close>

lemma size_ir_exprs: "e \<in> set es \<Longrightarrow> size e < Suc (size_list size es)"
  by (induction es) auto

lemma size_ir_arms:
  "(c, v) \<in> set arms \<Longrightarrow> size c < Suc (size_list (size_prod size size) arms + n)"
  "(c, v) \<in> set arms \<Longrightarrow> size v < Suc (size_list (size_prod size size) arms + n)"
  by (induction arms) auto

function eval :: "eval_lib \<Rightarrow> property_graph \<Rightarrow> ir_expr \<Rightarrow> row \<Rightarrow> runtime_error + val" where
  "eval L g (E_Lit l) r = Inr (lit_value l)"
| "eval L g (E_Binding name) r = Inr (row_get r name)"
| "eval L g (E_Property binding name policy) r = eval_property L g binding name policy r"
| "eval L g (E_Id binding) r = Inr (eval_id binding r)"
| "eval L g (E_Label binding) r = Inr (eval_label binding r)"
| "eval L g (E_HasLabel binding label) r = Inr (eval_has_label binding label r)"
| "eval L g (E_Binary op lhs rhs) r =
     bind_res (eval L g lhs r) (\<lambda>a.
       if short_circuits op a then Inr a
       else bind_res (eval L g rhs r) (\<lambda>b. binary_operands L op a b))"
| "eval L g (E_Not inner) r = bind_res (eval L g inner r) eval_not"
| "eval L g (E_StringPredicate op target pattern) r =
     bind_res (eval L g target r) (\<lambda>t.
     bind_res (eval L g pattern r) (\<lambda>p. Inr (string_predicate op t p)))"
| "eval L g (E_IsNull inner) r = bind_res (eval L g inner r) (\<lambda>v. Inr (V_Bool (v = V_Null)))"
| "eval L g (E_IsNotNull inner) r = bind_res (eval L g inner r) (\<lambda>v. Inr (V_Bool (v \<noteq> V_Null)))"
| "eval L g (E_IsBound name) r = Inr (V_Bool (row_get r name \<noteq> V_Null))"
| "eval L g (E_SimplePath name) r = Inr (eval_simple_path L name r)"
| "eval L g (E_List items) r =
     bind_res (collect (\<lambda>e. eval L g e r) items) (\<lambda>vs. Inr (V_List vs))"
| "eval L g (E_Quantifier kind list_expr item predicate) r =
     bind_res (eval L g list_expr r)
       (quantifier_over kind predicate (\<lambda>v. eval L g predicate (row_bind item v r)))"
| "eval L g (E_ListReduce collection accumulator item body) r =
     bind_res (eval L g collection r) (\<lambda>source.
       if source = V_Null then Inr V_Null
       else case (case owned_runtime_list (ev_arith L) source of Some items \<Rightarrow> items | None \<Rightarrow> [source]) of
         [] \<Rightarrow> Inl (RE_Type ''Cannot execute list_reduce on an empty list'')
       | first # rest \<Rightarrow>
           reduce_loop (\<lambda>acc v. eval L g body (row_bind item v (row_bind accumulator acc r))) first rest)"
| "eval L g (E_ListTransform list_expr item body) r =
     bind_res (eval L g list_expr r) (\<lambda>source.
       case owned_runtime_list (ev_arith L) source of
         None \<Rightarrow>
           if source = V_Null then Inr V_Null
           else Inl (RE_Type (''list_transform expects a list, got '' @ type_name source))
       | Some items \<Rightarrow>
           if body = E_Binding item then Inr (V_List items)
           else bind_res (collect (\<lambda>v. eval L g body (row_bind item v r)) items) (\<lambda>vs. Inr (V_List vs)))"
| "eval L g (E_ListFilter list_expr item predicate) r =
     bind_res (eval L g list_expr r) (\<lambda>source.
       case owned_runtime_list (ev_arith L) source of
         None \<Rightarrow>
           if source = V_Null then Inr V_Null
           else Inl (RE_Type (''list_filter expects a list, got '' @ type_name source))
       | Some items \<Rightarrow>
           bind_res (filter_loop (\<lambda>v. eval L g predicate (row_bind item v r)) items) (\<lambda>vs. Inr (V_List vs)))"
| "eval L g (E_Call name args) r =
     (if name = ''cypher_coalesce'' then first_non_null (\<lambda>e. eval L g e r) args
      else if is_conditional_call name then
        bind_res (conditional_args (\<lambda>e. eval L g e r) name args) (ev_call L g name)
      else bind_res (collect (\<lambda>e. eval L g e r) args) (ev_call L g name))"
| "eval L g (E_Case arms otherwise) r =
     (case case_loop (\<lambda>e. eval L g e r) arms of
        Some result \<Rightarrow> result
      | None \<Rightarrow> (case otherwise of None \<Rightarrow> Inr V_Null | Some e \<Rightarrow> eval L g e r))"
  by pat_completeness auto
termination
  by (relation "measure (\<lambda>(L, g, e, r). size e)") (auto simp: size_ir_exprs size_ir_arms)

definition quantifier_value ::
  "eval_lib \<Rightarrow> property_graph \<Rightarrow> quantifier_kind \<Rightarrow> string \<Rightarrow> ir_expr \<Rightarrow> ir_expr \<Rightarrow> row \<Rightarrow> runtime_error + val" where
  "quantifier_value L g kind item input_expr predicate r =
     bind_res (eval L g input_expr r)
       (quantifier_over kind predicate (\<lambda>v. eval L g predicate (row_bind item v r)))"

section \<open>Free bindings\<close>

text \<open>The bindings an expression reads: the item of a list expression is bound in its body only.\<close>

function free_bindings :: "ir_expr \<Rightarrow> string set" where
  "free_bindings (E_Lit _) = {}"
| "free_bindings (E_Binding name) = {name}"
| "free_bindings (E_Property binding _ _) = {binding}"
| "free_bindings (E_Id binding) = {binding}"
| "free_bindings (E_Label binding) = {binding}"
| "free_bindings (E_HasLabel binding _) = {binding}"
| "free_bindings (E_Binary _ lhs rhs) = free_bindings lhs \<union> free_bindings rhs"
| "free_bindings (E_Not inner) = free_bindings inner"
| "free_bindings (E_StringPredicate _ target pattern) = free_bindings target \<union> free_bindings pattern"
| "free_bindings (E_IsNull inner) = free_bindings inner"
| "free_bindings (E_IsNotNull inner) = free_bindings inner"
| "free_bindings (E_IsBound name) = {name}"
| "free_bindings (E_SimplePath name) = {name}"
| "free_bindings (E_List items) = \<Union> (free_bindings ` set items)"
| "free_bindings (E_Quantifier _ list_expr item predicate) = free_bindings list_expr \<union> (free_bindings predicate - {item})"
| "free_bindings (E_ListReduce collection accumulator item body) =
     free_bindings collection \<union> (free_bindings body - {accumulator, item})"
| "free_bindings (E_ListTransform list_expr item body) = free_bindings list_expr \<union> (free_bindings body - {item})"
| "free_bindings (E_ListFilter list_expr item predicate) = free_bindings list_expr \<union> (free_bindings predicate - {item})"
| "free_bindings (E_Call _ args) = \<Union> (free_bindings ` set args)"
| "free_bindings (E_Case arms otherwise) =
     \<Union> ((\<lambda>arm. free_bindings (fst arm) \<union> free_bindings (snd arm)) ` set arms) \<union>
     (case otherwise of None \<Rightarrow> {} | Some e \<Rightarrow> free_bindings e)"
  by pat_completeness auto
termination
  by (relation "measure size") (auto simp: size_ir_exprs size_ir_arms)

definition agree :: "string set \<Rightarrow> row \<Rightarrow> row \<Rightarrow> bool" where
  "agree X r s \<longleftrightarrow> row_ok r \<and> row_ok s \<and> (\<forall>x \<in> X. row_get r x = row_get s x)"

lemma agree_subset: "agree X r s \<Longrightarrow> Y \<subseteq> X \<Longrightarrow> agree Y r s"
  by (auto simp: agree_def)

lemma agree_Un [simp]: "agree (X \<union> Y) r s \<longleftrightarrow> agree X r s \<and> agree Y r s"
  by (auto simp: agree_def)

lemma agree_UN: "agree (\<Union> (f ` S)) r s \<Longrightarrow> x \<in> S \<Longrightarrow> agree (f x) r s"
  by (auto simp: agree_def)

lemma agree_bind: "agree (X - {k}) r s \<Longrightarrow> agree X (row_bind k v r) (row_bind k v s)"
  by (auto simp: agree_def row_get_bind)

lemma agree_get: "agree X r s \<Longrightarrow> x \<in> X \<Longrightarrow> row_get r x = row_get s x"
  by (simp add: agree_def)


lemma agree_bind2:
  assumes "agree (X - {a, k}) r s"
  shows "agree X (row_bind k v (row_bind a u r)) (row_bind k v (row_bind a u s))"
proof -
  have "agree (X - {k} - {a}) r s"
    using assms by (rule agree_subset) auto
  then show ?thesis
    by (intro agree_bind)
qed

lemma eval_agree: "agree (free_bindings e) r s \<Longrightarrow> eval L g e r = eval L g e s"
proof (induction e arbitrary: r s rule: free_bindings.induct)
  case (3 binding name policy)
  then show ?case by (simp add: eval_property_def agree_get)
next
  case (7 op lhs rhs)
  then have "eval L g lhs r = eval L g lhs s" "eval L g rhs r = eval L g rhs s"
    by simp_all
  then show ?case by (simp cong: if_cong)
next
  case (9 op target pattern)
  then have "eval L g target r = eval L g target s" "eval L g pattern r = eval L g pattern s"
    by simp_all
  then show ?case by simp
next
  case (14 items)
  then have "eval L g e r = eval L g e s" if "e \<in> set items" for e
    using that agree_UN [of free_bindings "set items" r s e] by simp
  then have "collect (\<lambda>e. eval L g e r) items = collect (\<lambda>e. eval L g e s) items"
    by (intro collect_cong) auto
  then show ?case by simp
next
  case (15 kind list_expr item predicate)
  then have "eval L g list_expr r = eval L g list_expr s"
    "\<And>v. eval L g predicate (row_bind item v r) = eval L g predicate (row_bind item v s)"
    by (auto intro!: 15(1,2) agree_bind)
  then show ?case by simp
next
  case (16 collection accumulator item body)
  then have "eval L g collection r = eval L g collection s"
    "\<And>u v. eval L g body (row_bind item v (row_bind accumulator u r)) =
       eval L g body (row_bind item v (row_bind accumulator u s))"
    by (auto intro!: 16(1,2) agree_bind2)
  then show ?case by (simp cong: if_cong option.case_cong list.case_cong)
next
  case (17 list_expr item body)
  then have "eval L g list_expr r = eval L g list_expr s"
    "\<And>v. eval L g body (row_bind item v r) = eval L g body (row_bind item v s)"
    by (auto intro!: 17(1,2) agree_bind)
  then show ?case by (simp cong: if_cong option.case_cong list.case_cong)
next
  case (18 list_expr item predicate)
  then have "eval L g list_expr r = eval L g list_expr s"
    "\<And>v. eval L g predicate (row_bind item v r) = eval L g predicate (row_bind item v s)"
    by (auto intro!: 18(1,2) agree_bind)
  then show ?case by (simp cong: if_cong option.case_cong list.case_cong)
next
  case (19 name args)
  then have args: "eval L g e r = eval L g e s" if "e \<in> set args" for e
    using that agree_UN [of free_bindings "set args" r s e] by simp
  have "first_non_null (\<lambda>e. eval L g e r) args = first_non_null (\<lambda>e. eval L g e s) args"
    "conditional_args (\<lambda>e. eval L g e r) name args = conditional_args (\<lambda>e. eval L g e s) name args"
    "collect (\<lambda>e. eval L g e r) args = collect (\<lambda>e. eval L g e s) args"
    by (auto intro!: first_non_null_cong conditional_args_cong collect_cong args)
  then show ?case by simp
next
  case (20 arms otherwise)
  have "agree (free_bindings c) r s" "agree (free_bindings v) r s" if "(c, v) \<in> set arms" for c v
    using 20(4) agree_UN [OF _ that, of "\<lambda>arm. free_bindings (fst arm) \<union> free_bindings (snd arm)" r s] by simp_all
  then have "eval L g c r = eval L g c s \<and> eval L g v r = eval L g v s" if "(c, v) \<in> set arms" for c v
    using 20(1,2) that by fastforce
  then have "case_loop (\<lambda>e. eval L g e r) arms = case_loop (\<lambda>e. eval L g e s) arms"
    by (intro case_loop_cong) blast+
  moreover have "eval L g e r = eval L g e s" if "otherwise = Some e" for e
    using 20(3) [OF that] 20(4) that by simp
  ultimately show ?case by (simp split: option.split)
qed (auto simp: agree_get eval_id_def eval_label_def eval_has_label_def eval_simple_path_def)

section \<open>Three-valued logic\<close>

definition truth_value :: "val \<Rightarrow> bool" where
  "truth_value v \<longleftrightarrow> (case v of V_Bool _ \<Rightarrow> True | V_Null \<Rightarrow> True | _ \<Rightarrow> False)"

lemma truth_value_cases:
  assumes "truth_value v"
  obtains b where "v = V_Bool b" | "v = V_Null"
  using assms by (cases v) (auto simp: truth_value_def)

text \<open>
  The completions of a list of truth values replace every null by true or by false.  A quantifier
  over possibly unknown outcomes is true if it is true of every completion, false if it is true of
  none, and unknown otherwise.
\<close>

definition completions :: "val list \<Rightarrow> bool list set" where
  "completions ts = {bs. list_all2 (\<lambda>t b. t = V_Null \<or> t = V_Bool b) ts bs}"

definition quantifies :: "quantifier_kind \<Rightarrow> bool list \<Rightarrow> bool" where
  "quantifies kind bs =
     (case kind of
        Q_All \<Rightarrow> list_all (\<lambda>b. b) bs
      | Q_Any \<Rightarrow> list_ex (\<lambda>b. b) bs
      | Q_None \<Rightarrow> \<not> list_ex (\<lambda>b. b) bs
      | Q_Single \<Rightarrow> count_list bs True = 1)"

definition supervaluation :: "quantifier_kind \<Rightarrow> val list \<Rightarrow> val" where
  "supervaluation kind ts =
     (if \<forall>bs \<in> completions ts. quantifies kind bs then V_Bool True
      else if \<forall>bs \<in> completions ts. \<not> quantifies kind bs then V_Bool False
      else V_Null)"

definition trues :: "val list \<Rightarrow> nat" where
  "trues ts = length (filter (\<lambda>t. t = V_Bool True) ts)"

definition nulls :: "val list \<Rightarrow> nat" where
  "nulls ts = length (filter (\<lambda>t. t = V_Null) ts)"

text \<open>The completions differ in how many of the unknown outcomes become true: any number.\<close>

lemma completion_counts:
  assumes "list_all truth_value ts"
  shows "(\<lambda>bs. count_list bs True) ` completions ts = {trues ts .. trues ts + nulls ts}"
  using assms
proof (induction ts)
  case Nil
  then show ?case by (auto simp: completions_def trues_def nulls_def)
next
  case (Cons t ts)
  let ?f = "\<lambda>bs. count_list bs True"
  have split: "completions (t # ts) = (\<Union>b \<in> {b. t = V_Null \<or> t = V_Bool b}. (#) b ` completions ts)"
    by (auto simp: completions_def list_all2_Cons1)
  have head: "count_list (b # bs) True = (if b then 1 else 0) + count_list bs True" for b bs
    by simp
  have img: "?f ` completions (t # ts) = (\<Union>b \<in> {b. t = V_Null \<or> t = V_Bool b}. (\<lambda>n. (if b then 1 else 0) + n) ` ?f ` completions ts)"
    unfolding split image_UN image_image by (simp only: head)
  have IH: "?f ` completions ts = {trues ts .. trues ts + nulls ts}"
    using Cons by simp
  from Cons.prems have "truth_value t" by simp
  then show ?case
  proof (cases rule: truth_value_cases)
    case (1 b)
    then show ?thesis
      unfolding img IH by (cases b) (auto simp: trues_def nulls_def image_Suc_atLeastAtMost)
  next
    case 2
    have bools: "{b. t = V_Null \<or> t = V_Bool b} = {True, False}" using 2 by auto
    show ?thesis
      unfolding img IH bools using 2
      by (auto simp: trues_def nulls_def image_Suc_atLeastAtMost)
  qed
qed

lemma completion_length: "bs \<in> completions ts \<Longrightarrow> length bs = length ts"
  by (simp add: completions_def list_all2_lengthD)

lemma quantifies_by_count:
  "quantifies kind bs =
     (case kind of
        Q_All \<Rightarrow> count_list bs True = length bs
      | Q_Any \<Rightarrow> count_list bs True \<noteq> 0
      | Q_None \<Rightarrow> count_list bs True = 0
      | Q_Single \<Rightarrow> count_list bs True = 1)"
proof -
  have "list_all (\<lambda>b. b) bs \<longleftrightarrow> count_list bs True = length bs"
  proof (induction bs)
    case (Cons b bs)
    then show ?case using count_le_length [of bs True] by auto
  qed simp
  moreover have "list_ex (\<lambda>b. b) bs \<longleftrightarrow> count_list bs True \<noteq> 0"
    by (induction bs) auto
  ultimately show ?thesis
    by (auto simp: quantifies_def split: quantifier_kind.split)
qed

lemma interval_constant:
  fixes a b m :: nat
  shows "(\<forall>n \<in> {a .. a + b}. n = m) \<longleftrightarrow> b = 0 \<and> a = m"
    and "(\<forall>n \<in> {a .. a + b}. n \<noteq> m) \<longleftrightarrow> m < a \<or> a + b < m"
proof -
  have "b = 0 \<and> a = m" if "\<forall>n \<in> {a .. a + b}. n = m"
    using that [THEN bspec, of a] that [THEN bspec, of "a + b"] by simp
  then show "(\<forall>n \<in> {a .. a + b}. n = m) \<longleftrightarrow> b = 0 \<and> a = m" by auto
qed auto

lemma quantifier_result_supervaluation:
  assumes "list_all truth_value ts"
  shows "quantifier_result kind (length ts) (trues ts) (nulls ts) = supervaluation kind ts"
proof -
  let ?N = "{trues ts .. trues ts + nulls ts}"
  define P where "P n = (case kind of Q_All \<Rightarrow> n = length ts | Q_Any \<Rightarrow> n \<noteq> 0 | Q_None \<Rightarrow> n = 0 | Q_Single \<Rightarrow> n = 1)" for n
  have quant: "quantifies kind bs = P (count_list bs True)" if "bs \<in> completions ts" for bs
    using completion_length [OF that] by (simp add: quantifies_by_count P_def split: quantifier_kind.split)
  have counts: "(\<forall>bs \<in> completions ts. Q (count_list bs True)) \<longleftrightarrow> (\<forall>n \<in> ?N. Q n)" for Q
    using completion_counts [OF assms] by (metis (no_types, lifting) imageE imageI)
  have sup: "supervaluation kind ts =
      (if \<forall>n \<in> ?N. P n then V_Bool True else if \<forall>n \<in> ?N. \<not> P n then V_Bool False else V_Null)"
    using counts [of P] counts [of "\<lambda>n. \<not> P n"] quant by (simp add: supervaluation_def)
  have bound: "trues ts + nulls ts \<le> length ts"
    by (induction ts) (auto simp: trues_def nulls_def)
  have always: "(\<forall>n \<in> ?N. P n) \<longleftrightarrow> (case kind of
      Q_All \<Rightarrow> nulls ts = 0 \<and> trues ts = length ts | Q_Any \<Rightarrow> 0 < trues ts
    | Q_None \<Rightarrow> nulls ts = 0 \<and> trues ts = 0 | Q_Single \<Rightarrow> nulls ts = 0 \<and> trues ts = 1)"
    by (cases kind) (simp_all only: P_def quantifier_kind.case interval_constant, auto)
  have never: "(\<forall>n \<in> ?N. \<not> P n) \<longleftrightarrow> (case kind of
      Q_All \<Rightarrow> trues ts + nulls ts < length ts | Q_Any \<Rightarrow> nulls ts = 0 \<and> trues ts = 0
    | Q_None \<Rightarrow> 0 < trues ts | Q_Single \<Rightarrow> 1 < trues ts \<or> trues ts + nulls ts = 0)"
    using bound by (cases kind) (simp_all only: P_def quantifier_kind.case interval_constant not_not, auto)
  show ?thesis
    unfolding sup always never quantifier_result_def Let_def using bound by (cases kind) auto
qed

lemma quantifier_counts_truth:
  "collect test items = Inr ts \<Longrightarrow> list_all truth_value ts \<Longrightarrow>
     quantifier_counts test items = Inr (trues ts, nulls ts)"
proof (induction items arbitrary: ts)
  case Nil
  then show ?case by (simp add: trues_def nulls_def)
next
  case (Cons item items)
  from Cons.prems(1) obtain t us where t: "test item = Inr t" and us: "collect test items = Inr us"
    and ts: "ts = t # us"
    by (auto simp: bind_res_eq_Inr)
  from Cons.prems(2) have "truth_value t" "list_all truth_value us" by (simp_all add: ts)
  then show ?case
    using Cons.IH [OF us] by (cases rule: truth_value_cases) (auto simp: t ts trues_def nulls_def)
qed

lemma literal_predicate_eval:
  assumes "literal_predicate predicate = Some l" "collect (\<lambda>v. eval L g predicate (row_bind item v r)) items = Inr ts"
  shows "ts = replicate (length items) (case l of None \<Rightarrow> V_Null | Some b \<Rightarrow> V_Bool b)"
  using assms(2)
proof (induction items arbitrary: ts)
  case (Cons x xs)
  have "eval L g predicate r' = Inr (case l of None \<Rightarrow> V_Null | Some b \<Rightarrow> V_Bool b)" for r'
    using assms(1) by (auto simp: literal_predicate_def lit_value_def split: ir_expr.splits lit.splits)
  with Cons show ?case by (auto simp: bind_res_eq_Inr)
qed simp

section \<open>A concrete library\<close>

definition plain_eval_lib :: eval_lib where
  "plain_eval_lib = \<lparr>
     ev_order = text_order_lib, ev_arith = plain_lib, ev_graph = text_graph_lib,
     ev_call = (\<lambda>_ name _. Inl (RE_Unsupported name)),
     ev_element_property = (\<lambda>_ _ _. V_Null), ev_component = (\<lambda>_ _. V_Null)\<rparr>"

section \<open>Properties\<close>

text \<open>
  C26: evaluation is lexically scoped: an expression depends on the row only through its free
  bindings, where the item of a list quantifier, reduction, transformation or filter is bound in the
  body and nowhere else.  Rows that agree on those give the same value or the same error.
\<close>

theorem evaluation_is_lexical:
  assumes "row_ok r" "row_ok s" "\<forall>x \<in> free_bindings e. row_get r x = row_get s x"
  shows "eval L g e r = eval L g e s"
  using assms by (intro eval_agree) (simp add: agree_def)

theorem evaluation_is_lexical_witness:
  "eval plain_eval_lib new_graph
     (E_Quantifier Q_Any (E_Binding ''xs'') ''x'' (E_Binding ''x'')) (row_bind ''x'' (V_Int 1) row_new) =
   eval plain_eval_lib new_graph
     (E_Quantifier Q_Any (E_Binding ''xs'') ''x'' (E_Binding ''x'')) (row_bind ''x'' (V_Bool True) row_new)"
  by (rule evaluation_is_lexical) (simp_all add: row_get_bind)

text \<open>
  C27: a list quantifier over outcomes that may be unknown returns true if the quantifier holds
  however the unknown outcomes are resolved, false if it fails however they are resolved, and null
  otherwise; so the shortcut for literal predicates and the decision on the three counts are both
  exact.
\<close>

theorem quantifier_supervaluates:
  assumes "eval L g input r = Inr (V_List items)"
    and "collect (\<lambda>v. eval L g predicate (row_bind item v r)) items = Inr ts" and "list_all truth_value ts"
  shows "quantifier_value L g kind item input predicate r = Inr (supervaluation kind ts)"
proof -
  have len: "length ts = length items"
    using assms(2)
  proof (induction items arbitrary: ts)
    case (Cons x xs)
    then show ?case by (auto simp: bind_res_eq_Inr)
  qed simp
  show ?thesis
  proof (cases "literal_predicate predicate")
    case None
    then show ?thesis
      using assms(1) quantifier_counts_truth [OF assms(2,3)] quantifier_result_supervaluation [OF assms(3)] len
      by (simp add: quantifier_value_def quantifier_over_def)
  next
    case (Some l)
    have ts: "ts = replicate (length items) (case l of None \<Rightarrow> V_Null | Some b \<Rightarrow> V_Bool b)"
      using literal_predicate_eval [OF Some assms(2)] .
    then have "trues ts = (if l = Some True then length items else 0)" "nulls ts = (if l = None then length items else 0)"
      by (auto simp: trues_def nulls_def split: option.split)
    then show ?thesis
      using assms(1) quantifier_result_supervaluation [OF assms(3), of kind] len Some
      by (simp add: quantifier_value_def quantifier_over_def)
  qed
qed

theorem quantifier_supervaluates_witness:
  "quantifier_value plain_eval_lib new_graph Q_Single ''x'' (E_Binding ''xs'') (E_Binding ''x'')
     (row_bind ''xs'' (V_List [V_Bool True, V_Null]) row_new) = Inr (supervaluation Q_Single [V_Bool True, V_Null])"
  by (rule quantifier_supervaluates [where items = "[V_Bool True, V_Null]"])
    (simp_all add: row_get_bind truth_value_def)

text \<open>
  De Morgan's law holds of \<open>NOT\<close>, \<open>AND\<close> and \<open>OR\<close> with null operands, with the short-circuit and
  with the errors of the operands: both sides evaluate the same operands in the same order.  The
  operands have truth values where they have a value.
\<close>

theorem de_morgan:
  assumes "\<forall>v. eval L g a r = Inr v \<longrightarrow> truth_value v" and "\<forall>v. eval L g b r = Inr v \<longrightarrow> truth_value v"
  shows "eval L g (E_Not (E_Binary BO_And a b)) r = eval L g (E_Binary BO_Or (E_Not a) (E_Not b)) r"
proof (cases "eval L g a r")
  case (Inr u)
  then have u: "truth_value u" using assms(1) by simp
  show ?thesis
  proof (cases "eval L g b r")
    case (Inl e)
    from u show ?thesis
      by (cases rule: truth_value_cases) (simp_all add: Inr Inl eval_not_def short_circuits_def)
  next
    case b: (Inr v)
    then have "truth_value v" using assms(2) by simp
    with u show ?thesis
      by (elim truth_value_cases) (simp_all add: Inr b eval_not_def short_circuits_def binary_operands_def logic_operands_def)
  qed
qed simp

theorem de_morgan_witness:
  "eval plain_eval_lib new_graph (E_Not (E_Binary BO_And (E_Lit Lit_Null) (E_Lit (Lit_Bool False)))) row_new =
   eval plain_eval_lib new_graph
     (E_Binary BO_Or (E_Not (E_Lit Lit_Null)) (E_Not (E_Lit (Lit_Bool False)))) row_new"
  by (rule de_morgan) (simp_all add: lit_value_def truth_value_def)

end
