(* ===== verification/Row_Keys.thy ===== *)
theory Row_Keys
  imports Expression_Eval
begin

text \<open>
  The byte keys under which rows are compared for \<open>DISTINCT\<close>, grouping and bulking
  (\<open>src/src/ir/runtime/ops/distinct.rs\<close>): the native key of a value, its key under Cypher's
  equivalence (numbers by value, whatever their type, also inside lists and maps), the signatures of
  rows, and the operators that keep the first row of each signature.

  The normalized text of a decimal (\<open>bigdecimal\<close>) is a field of \<open>key_lib\<close>.
\<close>

record key_lib =
  kl_order :: order_lib
  decimal_normal_text :: "decimal \<Rightarrow> string"

abbreviation kl_values :: "key_lib \<Rightarrow> value_lib" where
  "kl_values K \<equiv> values_of (kl_order K)"

section \<open>Native keys\<close>

definition terminated :: "bytes list \<Rightarrow> bytes" where
  "terminated parts = concat (map (\<lambda>b. b @ [0xff]) parts)"

definition counted_parts :: "bytes list \<Rightarrow> bytes" where
  "counted_parts parts = concat (map (\<lambda>p. be_len p @ p) parts)"

definition map_bytes :: "(string \<times> bytes) list \<Rightarrow> bytes" where
  "map_bytes m = 8 # terminated (map (\<lambda>p. str_bytes (fst p) @ 0 # snd p) m)"

text \<open>A typed map with distinct string keys is encoded as the plain map of its entries.\<close>

definition string_entries :: "(val \<times> 'a) list \<Rightarrow> (string \<times> 'a) list option" where
  "string_entries entries =
     (case those (map (\<lambda>p. case fst p of V_String k \<Rightarrow> Some (k, snd p) | _ \<Rightarrow> None) entries) of
        None \<Rightarrow> None
      | Some es \<Rightarrow> if length (bt_of_entries es) = length entries then Some (bt_of_entries es) else None)"

text \<open>\<open>sort\<close> of a vector of pairs: by the first component, then by the second.\<close>

definition sort_pairs :: "(bytes \<times> bytes) list \<Rightarrow> (bytes \<times> bytes) list" where
  "sort_pairs ps = sort_key fst (sort_key snd ps)"

function (sequential) runtime_encode_value :: "value_lib \<Rightarrow> val \<Rightarrow> bytes" where
  "runtime_encode_value L V_Null = [0]"
| "runtime_encode_value L (V_Bool b) = [1, if b then 1 else 0]"
| "runtime_encode_value L (V_Byte n) = [12, n]"
| "runtime_encode_value L (V_UInt8 n) = [18, n]"
| "runtime_encode_value L (V_Short n) = 13 # to_be_bytes n"
| "runtime_encode_value L (V_UInt16 n) = 19 # to_be_bytes n"
| "runtime_encode_value L (V_Int n) = 2 # to_be_bytes n"
| "runtime_encode_value L (V_UInt32 n) = 20 # to_be_bytes n"
| "runtime_encode_value L (V_Long n) = 14 # to_be_bytes n"
| "runtime_encode_value L (V_UInt64 n) = 21 # to_be_bytes n"
| "runtime_encode_value L (V_Float32 x) = 15 # to_be_bytes x"
| "runtime_encode_value L (V_Float x) = 3 # to_be_bytes x"
| "runtime_encode_value L (V_Temporal t) = 30 # str_bytes (temporal_encode L t)"
| "runtime_encode_value L (V_DateTime s) = 16 # str_bytes s"
| "runtime_encode_value L (V_String s) = 4 # str_bytes s"
| "runtime_encode_value L (V_InternalId table offset) = 17 # to_be_bytes table @ 0 # to_be_bytes offset"
| "runtime_encode_value L (V_Node label i) = 5 # str_bytes label @ 0 # eid_encode L i"
| "runtime_encode_value L (V_Edge rel i _ _ _ _ _) = 6 # str_bytes rel @ 0 # eid_encode L i"
| "runtime_encode_value L (V_VertexProperty i _ _ _) = 0x40 # to_be_bytes i"
| "runtime_encode_value L (V_List items) = 7 # terminated (map (runtime_encode_value L) items)"
| "runtime_encode_value L (V_Path items) = 9 # terminated (map (runtime_encode_value L) items)"
| "runtime_encode_value L (V_Map m) = map_bytes (map (\<lambda>p. (fst p, runtime_encode_value L (snd p))) m)"
| "runtime_encode_value L (V_Token s) = 24 # be_len (str_bytes s) @ str_bytes s"
| "runtime_encode_value L (V_Direction s) = 25 # be_len (str_bytes s) @ str_bytes s"
| "runtime_encode_value L (V_MapEntry k v) =
     27 # counted_parts [runtime_encode_value L k, runtime_encode_value L v]"
| "runtime_encode_value L (V_TypedMap entries) =
     (case string_entries (map (\<lambda>p. (fst p, runtime_encode_value L (snd p))) entries) of
        Some m \<Rightarrow> map_bytes m
      | None \<Rightarrow>
          23 # be_len entries @
          concat (map (\<lambda>p. counted_parts [fst p, snd p])
            (sort_pairs (map (\<lambda>p. (runtime_encode_value L (fst p), runtime_encode_value L (snd p))) entries))))"
| "runtime_encode_value L (V_BulkSet items) =
     26 # be_len items @ counted_parts (sort (map (runtime_encode_value L) items))"
| "runtime_encode_value L (V_BigInt n) = 10 # str_bytes (bigint_text L n)"
| "runtime_encode_value L (V_UInt128 n) = 22 # str_bytes (bigint_text L n)"
| "runtime_encode_value L (V_BigDecimal n s) = 11 # str_bytes (decimal_text L n s)"
| "runtime_encode_value L v = set_member_key L v"
  by pat_completeness auto
termination
  by (relation "measure (\<lambda>(L, v). size v)") (auto simp: size_val_list size_val_map size_val_entries)

definition encode_key :: "value_lib \<Rightarrow> val list \<Rightarrow> bytes" where
  "encode_key L vs = concat (map (\<lambda>v. runtime_encode_value L v @ [0]) vs)"

section \<open>Keys under Cypher's equivalence\<close>

definition f64_is_infinite :: "f64 \<Rightarrow> bool" where
  "f64_is_infinite x \<longleftrightarrow> take_bit 63 x = 0x7FF0000000000000"

definition f32_is_infinite :: "f32 \<Rightarrow> bool" where
  "f32_is_infinite x \<longleftrightarrow> take_bit 31 x = 0x7F800000"

definition infinity_text :: "bool \<Rightarrow> string" where
  "infinity_text negative = (if negative then ''-Infinity'' else ''Infinity'')"

text \<open>\<open>Inl\<close>: the bare text of a number that has no decimal value.\<close>

definition cypher_number :: "key_lib \<Rightarrow> val \<Rightarrow> (string + decimal) option" where
  "cypher_number K v =
     (case v of
        V_Float32 x \<Rightarrow>
          if f32_is_nan x then Some (Inl ''NaN'')
          else if f32_is_infinite x then Some (Inl (infinity_text (bit x 31)))
          else map_option Inr (numeric_decimal (kl_order K) v)
      | V_Float x \<Rightarrow>
          if f64_is_nan x then Some (Inl ''NaN'')
          else if f64_is_infinite x then Some (Inl (infinity_text (bit x 63)))
          else map_option Inr (numeric_decimal (kl_order K) v)
      | _ \<Rightarrow> map_option Inr (numeric_decimal (kl_order K) v))"

definition number_bytes :: "key_lib \<Rightarrow> string + decimal \<Rightarrow> bytes" where
  "number_bytes K n =
     (case n of
        Inl text \<Rightarrow> str_bytes text
      | Inr d \<Rightarrow> framed 1 [str_bytes (decimal_normal_text K d)])"

function encode_cypher_equivalence :: "key_lib \<Rightarrow> val \<Rightarrow> bytes" where
  "encode_cypher_equivalence K v =
     (case semantic (kl_order K) v of
        Some w \<Rightarrow> encode_cypher_equivalence K w
      | None \<Rightarrow>
     (case cypher_number K v of
        Some n \<Rightarrow> number_bytes K n
      | None \<Rightarrow>
     (case v of
        V_Null \<Rightarrow> [0]
      | V_Bool b \<Rightarrow> framed 2 [[if b then 1 else 0]]
      | V_List items \<Rightarrow> framed 3 (map (encode_cypher_equivalence K) items)
      | V_Path items \<Rightarrow> framed 4 (map (encode_cypher_equivalence K) items)
      | V_Map m \<Rightarrow>
          framed 6 (sort (map (\<lambda>p. framed 5 [str_bytes (fst p), encode_cypher_equivalence K (snd p)])
            (filter (\<lambda>p. \<not> prefix ''__'' (fst p)) m)))
      | _ \<Rightarrow> framed 255 [runtime_encode_value (kl_values K) v])))"
  by pat_completeness auto
termination
  by (relation "measures [\<lambda>(K, v). scalars v, \<lambda>(K, v). size v]")
    (auto simp: semantic_decreases size_val_list size_val_map scalars_member le_eq_less_or_eq [symmetric]
      intro!: members_smaller)

declare encode_cypher_equivalence.simps [simp del]


section \<open>Equivalence classes\<close>

text \<open>
  The class of a value under Cypher's equivalence: null, truth values and numbers (by their normalized
  decimal; every NaN is one class), lists and paths as sequences, maps as bags of their visible
  entries, and any other value by its native key.
\<close>

function cypher_class :: "key_lib \<Rightarrow> val \<Rightarrow> ident" where
  "cypher_class K v =
     (case semantic (kl_order K) v of
        Some w \<Rightarrow> cypher_class K w
      | None \<Rightarrow>
     (case cypher_number K v of
        Some n \<Rightarrow>
          (case n of Inl text \<Rightarrow> IdRaw (str_bytes text) | Inr d \<Rightarrow> IdAtom 1 [str_bytes (decimal_normal_text K d)])
      | None \<Rightarrow>
     (case v of
        V_Null \<Rightarrow> IdAtom 0 []
      | V_Bool b \<Rightarrow> IdAtom 2 [[if b then 1 else 0]]
      | V_List items \<Rightarrow> IdSeq 3 (map (cypher_class K) items)
      | V_Path items \<Rightarrow> IdSeq 4 (map (cypher_class K) items)
      | V_Map m \<Rightarrow>
          IdBag 6 (mset (map (\<lambda>p. IdTagged 5 (str_bytes (fst p)) (cypher_class K (snd p)))
            (filter (\<lambda>p. \<not> prefix ''__'' (fst p)) m)))
      | _ \<Rightarrow> IdAtom 255 [runtime_encode_value (kl_values K) v])))"
  by pat_completeness auto
termination
  by (relation "measures [\<lambda>(K, v). scalars v, \<lambda>(K, v). size v]")
    (auto simp: semantic_decreases size_val_list size_val_map scalars_member le_eq_less_or_eq [symmetric]
      intro!: members_smaller)

declare cypher_class.simps [simp del]

definition cypher_shape :: "u8 \<Rightarrow> nat" where
  "cypher_shape t =
     (if t \<in> {3, 4} then 1 else if t = 5 then 2 else if t = 6 then 3 else if t \<in> {45, 73, 78} then 4 else 0)"

lemma cypher_shape_simps [simp]:
  "cypher_shape 0 = 0" "cypher_shape 1 = 0" "cypher_shape 2 = 0" "cypher_shape 3 = 1" "cypher_shape 4 = 1"
  "cypher_shape 5 = 2" "cypher_shape 6 = 3" "cypher_shape 45 = 4" "cypher_shape 73 = 4" "cypher_shape 78 = 4"
  "cypher_shape 255 = 0"
  by (simp_all add: cypher_shape_def)

lemma encode_cypher_class: "encode_cypher_equivalence K v = key_of_ident (cypher_class K v)"
proof (induction K v rule: encode_cypher_equivalence.induct)
  case (1 K v)
  show ?case
  proof (cases "semantic (kl_order K) v")
    case (Some w)
    then show ?thesis
      using "1.IH"(4) [OF Some] by (simp add: encode_cypher_equivalence.simps [of K v] cypher_class.simps [of K v])
  next
    case sem: None
    show ?thesis
    proof (cases "cypher_number K v")
      case (Some n)
      then show ?thesis
        by (cases n) (simp_all add: encode_cypher_equivalence.simps [of K v] cypher_class.simps [of K v] sem number_bytes_def)
    next
      case num: None
      note unfold = encode_cypher_equivalence.simps [of K v, unfolded sem num option.case]
        cypher_class.simps [of K v, unfolded sem num option.case]
      note IH = "1.IH"(1-3) [OF sem num]
      show ?thesis
      proof (cases v)
        case (V_List items)
        then show ?thesis
          using IH(1) [of items] unfolding unfold by (simp cong: map_cong)
      next
        case (V_Path items)
        then show ?thesis
          using IH(3) [of items] unfolding unfold by (simp cong: map_cong)
      next
        case (V_Map m)
        let ?m = "filter (\<lambda>p. \<not> prefix ''__'' (fst p)) m"
        have entries: "map (\<lambda>p. framed 5 [str_bytes (fst p), encode_cypher_equivalence K (snd p)]) ?m =
            map (\<lambda>p. framed 5 [str_bytes (fst p), key_of_ident (cypher_class K (snd p))]) ?m"
          using IH(2) [of m] V_Map by (intro map_cong) auto
        show ?thesis
          using V_Map unfolding unfold by (simp add: entries comp_def image_mset.compositionality flip: mset_map)
      qed (unfold unfold, simp_all add: framed_def)
    qed
  qed
qed

lemma ident_ok_cypher_class: "ident_ok cypher_shape (cypher_class K v)"
proof (induction K v rule: cypher_class.induct)
  case (1 K v)
  have special: "cypher_number K v = Some (Inl t) \<Longrightarrow> t \<in> {''NaN'', ''Infinity'', ''-Infinity''}" for t
    by (auto simp: cypher_number_def infinity_text_def split: val.splits if_splits)
  show ?case
  proof (cases "semantic (kl_order K) v")
    case (Some w)
    then show ?thesis using "1.IH"(4) [OF Some] by (simp add: cypher_class.simps [of K v])
  next
    case sem: None
    show ?thesis
    proof (cases "cypher_number K v")
      case (Some n)
      then show ?thesis
        using special by (cases n) (auto simp: cypher_class.simps [of K v] sem str_bytes_def)
    next
      case num: None
      note IH = "1.IH"(1-3) [OF sem num]
      show ?thesis
        unfolding cypher_class.simps [of K v, unfolded sem num option.case]
        using IH by (cases v) (auto simp: list_all_iff)
    qed
  qed
qed

lemma cypher_key_inject:
  assumes "length (encode_cypher_equivalence K v) < 2 ^ 64" "length (encode_cypher_equivalence K w) < 2 ^ 64"
  shows "encode_cypher_equivalence K v = encode_cypher_equivalence K w \<longleftrightarrow> cypher_class K v = cypher_class K w"
  using assms key_of_ident_inject [OF ident_ok_cypher_class ident_ok_cypher_class]
  by (auto simp: encode_cypher_class)

section \<open>Signatures of rows\<close>

definition row_signature :: "value_lib \<Rightarrow> row \<Rightarrow> bytes" where
  "row_signature L r =
     concat (map (\<lambda>p. str_bytes (fst p) @ 0 # runtime_encode_value L (snd p) @ [0xff]) (row_bindings r))"

definition row_signature_with_cypher_equivalence :: "key_lib \<Rightarrow> row \<Rightarrow> bytes" where
  "row_signature_with_cypher_equivalence K r =
     concat (map (\<lambda>p. be_len (str_bytes (fst p)) @ str_bytes (fst p) @
       be_len (encode_cypher_equivalence K (snd p)) @ encode_cypher_equivalence K (snd p)) (row_bindings r))"

definition distinct_signature :: "key_lib \<Rightarrow> string list \<Rightarrow> bool \<Rightarrow> row \<Rightarrow> bytes" where
  "distinct_signature K keys cypher_equivalence r =
     (if keys = [] then
        if cypher_equivalence then row_signature_with_cypher_equivalence K r else row_signature (kl_values K) r
      else if cypher_equivalence then
        concat (map (\<lambda>k. be_len (encode_cypher_equivalence K (row_get r k)) @
          encode_cypher_equivalence K (row_get r k)) keys)
      else concat (map (\<lambda>k. runtime_encode_value (kl_values K) (row_get r k) @ [0]) keys))"

datatype distinct_mode = DM_Row | DM_Traverser | DM_Solution

fun distinct_op_with_seen_and_cypher_equivalence ::
  "key_lib \<Rightarrow> string list \<Rightarrow> distinct_mode \<Rightarrow> bool \<Rightarrow> row list \<Rightarrow> bytes set \<Rightarrow> row list \<times> bytes set" where
  "distinct_op_with_seen_and_cypher_equivalence K keys mode eqv [] seen = ([], seen)"
| "distinct_op_with_seen_and_cypher_equivalence K keys mode eqv (r # rs) seen =
     (let signature = distinct_signature K keys eqv r
      in if signature \<in> seen then distinct_op_with_seen_and_cypher_equivalence K keys mode eqv rs seen
         else let (out, seen') = distinct_op_with_seen_and_cypher_equivalence K keys mode eqv rs (insert signature seen)
              in ((if mode = DM_Traverser then r\<lparr>row_bulk := 1\<rparr> else r) # out, seen'))"

definition distinct_op_with_seen ::
  "key_lib \<Rightarrow> string list \<Rightarrow> distinct_mode \<Rightarrow> row list \<Rightarrow> bytes set \<Rightarrow> row list \<times> bytes set" where
  "distinct_op_with_seen K keys mode rows seen =
     distinct_op_with_seen_and_cypher_equivalence K keys mode False rows seen"

definition distinct_op :: "key_lib \<Rightarrow> string list \<Rightarrow> distinct_mode \<Rightarrow> row list \<Rightarrow> row list" where
  "distinct_op K keys mode rows = fst (distinct_op_with_seen K keys mode rows {})"


section \<open>Distinct rows\<close>

definition reset_bulk :: "distinct_mode \<Rightarrow> row \<Rightarrow> row" where
  "reset_bulk mode r = (if mode = DM_Traverser then r\<lparr>row_bulk := 1\<rparr> else r)"

lemma distinct_keeps_first:
  "fst (distinct_op_with_seen_and_cypher_equivalence K keys mode eqv rows seen) =
     map (reset_bulk mode) (keep_first (distinct_signature K keys eqv) seen rows)"
  by (induction rows arbitrary: seen) (simp_all add: Let_def split_beta reset_bulk_def)

text \<open>What a row is compared by: the classes of the named bindings, or of all its bindings.\<close>

definition row_class :: "key_lib \<Rightarrow> string list \<Rightarrow> row \<Rightarrow> (string \<times> ident) list" where
  "row_class K keys r =
     (if keys = [] then map (\<lambda>p. (fst p, cypher_class K (snd p))) (row_bindings r)
      else map (\<lambda>k. (k, cypher_class K (row_get r k))) keys)"

definition row_sized :: "key_lib \<Rightarrow> row \<Rightarrow> bool" where
  "row_sized K r \<longleftrightarrow>
     (\<forall>p \<in> set (row_bindings r). length (fst p) < 2 ^ 64 \<and> length (encode_cypher_equivalence K (snd p)) < 2 ^ 64)"

lemma encode_null: "encode_cypher_equivalence K V_Null = [0]"
  by (simp add: encode_cypher_equivalence.simps [of K V_Null] cypher_number_def numeric_decimal_def)

lemma row_sized_get: "row_sized K r \<Longrightarrow> length (encode_cypher_equivalence K (row_get r k)) < 2 ^ 64"
  by (fastforce simp: row_get_def row_sized_def encode_null split: option.split dest: map_of_SomeD)

lemma keyed_signature_inject:
  assumes "row_sized K r" "row_sized K s" "keys \<noteq> []"
  shows "distinct_signature K keys True r = distinct_signature K keys True s \<longleftrightarrow> row_class K keys r = row_class K keys s"
proof -
  let ?e = "\<lambda>r k. encode_cypher_equivalence K (row_get r k)"
  have sig: "distinct_signature K keys True r = concat (map (\<lambda>p. be_len p @ p) (map (?e r) keys))" for r
    using assms(3) by (simp add: distinct_signature_def comp_def)
  have "distinct_signature K keys True r = distinct_signature K keys True s \<longleftrightarrow> map (?e r) keys = map (?e s) keys"
    (is "?lhs = ?rhs")
  proof
    assume ?lhs
    then show ?rhs
      unfolding sig by (rule framed_concat_inject) (use row_sized_get assms(1,2) in auto)
  next
    assume ?rhs
    then show ?lhs
      unfolding sig by (rule arg_cong)
  qed
  also have "\<dots> \<longleftrightarrow> row_class K keys r = row_class K keys s"
    using assms cypher_key_inject [OF row_sized_get row_sized_get] by (simp add: row_class_def)
  finally show ?thesis .
qed

definition flat_bindings :: "key_lib \<Rightarrow> (string \<times> val) list \<Rightarrow> bytes list" where
  "flat_bindings K m = concat (map (\<lambda>p. [str_bytes (fst p), encode_cypher_equivalence K (snd p)]) m)"

lemma flat_bindings_inject:
  assumes "\<forall>p \<in> set m. length (encode_cypher_equivalence K (snd p)) < 2 ^ 64"
    and "\<forall>p \<in> set n. length (encode_cypher_equivalence K (snd p)) < 2 ^ 64"
  shows "flat_bindings K m = flat_bindings K n \<longleftrightarrow>
    map (\<lambda>p. (fst p, cypher_class K (snd p))) m = map (\<lambda>p. (fst p, cypher_class K (snd p))) n"
  using assms
proof (induction m arbitrary: n)
  case Nil
  then show ?case by (cases n) (simp_all add: flat_bindings_def)
next
  case (Cons p m)
  show ?case
  proof (cases n)
    case (Cons q n')
    then show ?thesis
      using Cons.prems Cons.IH [of n'] cypher_key_inject [of K "snd p" "snd q"]
      by (auto simp: flat_bindings_def)
  qed (simp add: flat_bindings_def)
qed

lemma whole_signature_inject:
  assumes "row_sized K r" "row_sized K s"
  shows "distinct_signature K [] True r = distinct_signature K [] True s \<longleftrightarrow> row_class K [] r = row_class K [] s"
proof -
  have flat: "concat (map (\<lambda>p. be_len (str_bytes (fst p)) @ str_bytes (fst p) @
      be_len (encode_cypher_equivalence K (snd p)) @ encode_cypher_equivalence K (snd p)) m) =
      concat (map (\<lambda>b. be_len b @ b) (flat_bindings K m))" for m
    by (induction m) (simp_all add: flat_bindings_def)
  have sized: "\<forall>b \<in> set (flat_bindings K (row_bindings r)). length b < 2 ^ 64" if "row_sized K r" for r
    using that by (auto simp: flat_bindings_def row_sized_def length_str_bytes)
  have "distinct_signature K [] True r = distinct_signature K [] True s \<longleftrightarrow>
      flat_bindings K (row_bindings r) = flat_bindings K (row_bindings s)"
    using framed_concat_inject [OF _ sized [OF assms(1)] sized [OF assms(2)]]
    by (auto simp: distinct_signature_def row_signature_with_cypher_equivalence_def flat)
  then show ?thesis
    using assms flat_bindings_inject [of "row_bindings r" K "row_bindings s"]
    by (simp add: row_class_def row_sized_def)
qed

lemma signature_inject:
  assumes "row_sized K r" "row_sized K s"
  shows "distinct_signature K keys True r = distinct_signature K keys True s \<longleftrightarrow> row_class K keys r = row_class K keys s"
  using assms keyed_signature_inject whole_signature_inject by (cases "keys = []") auto

section \<open>Properties\<close>

text \<open>
  The byte key of a value under Cypher's equivalence decides its class: two values have the same
  key exactly when their classes agree, in which numbers are their normalized decimals whatever their
  type, NaN is one class, lists and paths are sequences of classes and maps bags of the classes of
  their visible entries.  Keys shorter than \<open>2^64\<close> bytes, as every in-memory key is.
\<close>

theorem cypher_key_decides_class:
  assumes "length (encode_cypher_equivalence K v) < 2 ^ 64" and "length (encode_cypher_equivalence K w) < 2 ^ 64"
  shows "encode_cypher_equivalence K v = encode_cypher_equivalence K w \<longleftrightarrow> cypher_class K v = cypher_class K w"
  using assms by (rule cypher_key_inject)

definition text_key_lib :: key_lib where
  "text_key_lib = \<lparr>kl_order = text_order_lib, decimal_normal_text = (\<lambda>(n, s). show_int n @ ''e'' @ show_int s)\<rparr>"

lemma text_key_lib_simps [simp]:
  "kl_order text_key_lib = text_order_lib" "decimal_normal_text text_key_lib (n, s) = show_int n @ ''e'' @ show_int s"
  "values_of text_order_lib = text_lib"
  by (simp_all add: text_key_lib_def text_order_lib_def)

lemma encode_text_int:
  "encode_cypher_equivalence text_key_lib (V_Int n) = framed 1 [str_bytes (show_int (sint n) @ ''e'' @ show_int 0)]"
  "encode_cypher_equivalence text_key_lib (V_Byte m) = framed 1 [str_bytes (show_int (sint m) @ ''e'' @ show_int 0)]"
  by (simp_all add: encode_cypher_equivalence.simps [of _ "V_Int n"] encode_cypher_equivalence.simps [of _ "V_Byte m"]
      cypher_number_def numeric_decimal_def number_bytes_def)

theorem cypher_key_decides_class_witness:
  "encode_cypher_equivalence text_key_lib (V_Int 7) = encode_cypher_equivalence text_key_lib (V_Byte 7) \<longleftrightarrow>
   cypher_class text_key_lib (V_Int 7) = cypher_class text_key_lib (V_Byte 7)"
  by (rule cypher_key_decides_class) (simp_all add: encode_text_int framed_def length_str_bytes show_int_def show_nat.simps)

text \<open>
  C28: \<open>DISTINCT\<close> under Cypher's equivalence keeps, in order, exactly the first row of each class of the
  compared bindings (all of them when no key is named), with its bulk reset to 1 in the traverser mode.
\<close>

theorem distinct_first_of_class:
  assumes "\<forall>r \<in> set rows. row_sized K r"
  shows "fst (distinct_op_with_seen_and_cypher_equivalence K keys mode True rows {}) =
    map (reset_bulk mode) (map ((!) rows)
      (filter (\<lambda>i. \<forall>j < i. row_class K keys (rows ! j) \<noteq> row_class K keys (rows ! i)) [0..<length rows]))"
proof -
  have "keep_first (distinct_signature K keys True) {} rows = keep_first (row_class K keys) {} rows"
    using assms signature_inject by (intro keep_first_same_kernel) blast
  then show ?thesis
    by (simp add: distinct_keeps_first keep_first_indices)
qed

theorem distinct_first_of_class_witness:
  "fst (distinct_op_with_seen_and_cypher_equivalence text_key_lib [''x''] DM_Row True
     [row_bind ''x'' (V_Int 7) row_new, row_bind ''x'' (V_Byte 7) row_new] {}) =
   map (reset_bulk DM_Row) (map ((!) [row_bind ''x'' (V_Int 7) row_new, row_bind ''x'' (V_Byte 7) row_new])
     (filter (\<lambda>i. \<forall>j < i.
       row_class text_key_lib [''x''] ([row_bind ''x'' (V_Int 7) row_new, row_bind ''x'' (V_Byte 7) row_new] ! j) \<noteq>
       row_class text_key_lib [''x''] ([row_bind ''x'' (V_Int 7) row_new, row_bind ''x'' (V_Byte 7) row_new] ! i))
     [0..<length [row_bind ''x'' (V_Int 7) row_new, row_bind ''x'' (V_Byte 7) row_new]]))"
  by (rule distinct_first_of_class)
    (simp add: row_sized_def row_bind_def row_new_def encode_text_int framed_def length_str_bytes show_int_def show_nat.simps)

text \<open>
  Without Cypher's equivalence the keys of several bindings are joined by a zero byte that a string
  may contain, so \<open>dedup\<close> by two keys drops a row whose bindings differ from those of every row it
  keeps.
\<close>

theorem native_distinct_conflates:
  "let one = row_bind ''a'' (V_String [CHR ''x'', CHR 0x00, CHR 0x04, CHR ''y'']) (row_bind ''b'' (V_String ''z'') row_new);
       two = row_bind ''a'' (V_String ''x'') (row_bind ''b'' (V_String [CHR ''y'', CHR 0x00, CHR 0x04, CHR ''z'']) row_new)
   in row_get one ''a'' \<noteq> row_get two ''a'' \<and> row_get one ''b'' \<noteq> row_get two ''b'' \<and>
      distinct_op K [''a'', ''b''] DM_Row [one, two] = [one]"
  by (simp add: Let_def row_get_bind distinct_op_def distinct_op_with_seen_def distinct_signature_def str_bytes_def)

end
