(* ===== verification/Property_Records.thy ===== *)
theory Property_Records
  imports Incremental_Records Runtime_Order
begin

text \<open>
  The native property records and public identities of elements
  (\<open>src/src/ir/catalog/properties.rs\<close>, and \<open>source_identity\<close> of \<open>src/src/ir/catalog/keyed.rs\<close>).

  A vertex property has a handle, a value, an optional public identity and meta-properties, and a key
  has as many records as its cardinality allows.  A scalar property becomes a record when it is first
  listed.  Listing and identity lookups hydrate native state, so they return the graph as the writes do.

  Base64, the text of an Arrow type and the conversion of floats and decimals to \<open>i64\<close> are the
  fields of \<open>native_lib\<close>.
\<close>

record native_lib =
  nl_store :: store_lib
  nl_order :: order_lib
  url_safe_base64 :: "bytes \<Rightarrow> string"
  type_text :: "scalar_value \<Rightarrow> string"
  f32_to_i64 :: "f32 \<Rightarrow> i64"
  f64_to_i64 :: "f64 \<Rightarrow> i64"
  decimal_to_i64 :: "int \<Rightarrow> int \<Rightarrow> i64 option"

abbreviation nl_graph :: "native_lib \<Rightarrow> graph_lib" where
  "nl_graph N \<equiv> sl_graph (nl_store N)"

abbreviation nl_values :: "native_lib \<Rightarrow> value_lib" where
  "nl_values N \<equiv> gl_values (nl_graph N)"

section \<open>Records\<close>

datatype cardinality = Card_Single | Card_List | Card_Set

definition put_records :: "addr \<Rightarrow> string \<Rightarrow> vertex_property_record list \<Rightarrow> graph_overlay \<Rightarrow> graph_overlay" where
  "put_records k key rs ov = ov\<lparr>ov_vertex_props := al_upd [] (bt_insert key rs) k (ov_vertex_props ov)\<rparr>"

definition materialized_handle :: "property_graph \<Rightarrow> string \<Rightarrow> element_id \<Rightarrow> string \<Rightarrow> i64 option" where
  "materialized_handle g label i key =
     (case pg_source g of
        Some s \<Rightarrow> if gs_dynamic s then None else Some (gs_property_handle s label i key)
      | None \<Rightarrow> None)"

definition ensure_vertex_property :: "native_lib \<Rightarrow> val \<Rightarrow> string \<Rightarrow> property_graph \<Rightarrow> property_graph" where
  "ensure_vertex_property N owner key g =
     (case owner of
        V_Node label i \<Rightarrow>
          let g = hydrate_native_state False label i g; ov = pg_overlay g; k = (label, i) in
          if vertex_records ov k key \<noteq> None then g
          else let v = node_property (nl_graph N) g label i key in
            mark_node k (g\<lparr>pg_overlay :=
              (if v = V_Null then put_records k key [] ov
               else case materialized_handle g label i key of
                 Some h \<Rightarrow> put_records k key [\<lparr>vp_id = h, vp_value = v, vp_public = None, vp_meta = []\<rparr>] ov
               | None \<Rightarrow> put_records k key
                   [\<lparr>vp_id = ov_next_property_id ov, vp_value = v, vp_public = None, vp_meta = []\<rparr>]
                   (ov\<lparr>ov_next_property_id := ov_next_property_id ov + 1\<rparr>))\<rparr>)
      | _ \<Rightarrow> g)"

section \<open>Listing properties\<close>

definition record_property :: "val \<Rightarrow> string \<Rightarrow> vertex_property_record \<Rightarrow> val" where
  "record_property owner key r = V_VertexProperty (vp_id r) owner key (vp_value r)"

definition node_key_listed :: "bool \<Rightarrow> addr \<Rightarrow> graph_overlay \<Rightarrow> string \<Rightarrow> bool" where
  "node_key_listed jvm_user_keys k ov key \<longleftrightarrow>
     (\<not> prefix ''__'' key \<or> jvm_user_keys \<and> vertex_records ov k key \<noteq> None) \<and>
     (key \<noteq> ''id'' \<or> vertex_records ov k key \<noteq> None)"

fun node_properties_loop ::
  "native_lib \<Rightarrow> val \<Rightarrow> addr \<Rightarrow> bool \<Rightarrow> string list \<Rightarrow> property_graph \<Rightarrow> val list \<times> property_graph" where
  "node_properties_loop N owner k jvm_user_keys [] g = ([], g)"
| "node_properties_loop N owner k jvm_user_keys (key # keys) g =
     (if \<not> node_key_listed jvm_user_keys k (pg_overlay g) key
      then node_properties_loop N owner k jvm_user_keys keys g
      else let g = ensure_vertex_property N owner key g;
               listed = (case vertex_records (pg_overlay g) k key of None \<Rightarrow> [] | Some rs \<Rightarrow> map (record_property owner key) rs);
               (rest, g) = node_properties_loop N owner k jvm_user_keys keys g
           in (listed @ rest, g))"

definition edge_key_listed :: "bool \<Rightarrow> addr \<Rightarrow> graph_overlay \<Rightarrow> string \<Rightarrow> bool" where
  "edge_key_listed jvm_user_keys k ov key \<longleftrightarrow>
     key \<noteq> ''id'' \<and>
     (\<not> prefix ''__'' key \<or>
      jvm_user_keys \<and>
      ((case map_of (ov_inserted_edges ov) k of None \<Rightarrow> False | Some e \<Rightarrow> map_of (ie_props e) key \<noteq> None) \<or>
       (case map_of (ov_edge_overrides ov) k of None \<Rightarrow> False | Some ps \<Rightarrow> map_of ps key \<noteq> None) \<or>
       (case map_of (ov_edge_nulls ov) k of None \<Rightarrow> False | Some ks \<Rightarrow> key \<in> ks)))"

definition edge_properties :: "native_lib \<Rightarrow> val \<Rightarrow> addr \<Rightarrow> bool \<Rightarrow> string list \<Rightarrow> property_graph \<Rightarrow> val list" where
  "edge_properties N owner k jvm_user_keys keys g =
     List.map_filter (\<lambda>key.
       let v = edge_property (nl_graph N) g (fst k) (snd k) key in
       if v \<noteq> V_Null \<or> (case map_of (ov_edge_nulls (pg_overlay g)) k of None \<Rightarrow> False | Some ks \<Rightarrow> key \<in> ks)
       then Some (V_Property owner key v) else None)
     (filter (edge_key_listed jvm_user_keys k (pg_overlay g)) keys)"

definition meta_properties :: "val \<Rightarrow> i64 \<Rightarrow> addr \<Rightarrow> string \<Rightarrow> string list \<Rightarrow> graph_overlay \<Rightarrow> val list" where
  "meta_properties owner i k key keys ov =
     (case vertex_records ov k key of
        None \<Rightarrow> []
      | Some rs \<Rightarrow> map (\<lambda>(name, v). V_Property owner name v)
          (filter (\<lambda>e. keys = [] \<or> fst e \<in> set keys) (concat (map vp_meta (filter (\<lambda>r. vp_id r = i) rs)))))"

definition properties_inner ::
  "native_lib \<Rightarrow> val \<Rightarrow> string list \<Rightarrow> bool \<Rightarrow> property_graph \<Rightarrow> val list \<times> property_graph" where
  "properties_inner N owner keys jvm_user_keys g =
     (let g = hydrate_target owner g in
      case owner of
        V_Node label i \<Rightarrow>
          if \<not> node_is_live g label i then ([], g)
          else node_properties_loop N owner (label, i) jvm_user_keys
                 (if keys = [] then node_property_keys g False label else keys) g
      | V_Edge rel i _ _ _ _ _ \<Rightarrow>
          if \<not> edge_is_live (pg_overlay g) rel i then ([], g)
          else (edge_properties N owner (rel, i) jvm_user_keys
                  (if keys = [] then edge_property_keys g rel else keys) g, g)
      | V_VertexProperty i (V_Node label vi) key _ \<Rightarrow> (meta_properties owner i (label, vi) key keys (pg_overlay g), g)
      | _ \<Rightarrow> ([], g))"

definition properties :: "native_lib \<Rightarrow> val \<Rightarrow> string list \<Rightarrow> property_graph \<Rightarrow> val list \<times> property_graph" where
  "properties N owner keys g = properties_inner N owner keys False g"

definition jvm_properties :: "native_lib \<Rightarrow> val \<Rightarrow> string list \<Rightarrow> property_graph \<Rightarrow> val list \<times> property_graph" where
  "jvm_properties N owner keys g = properties_inner N owner keys True g"


section \<open>Public identities\<close>

definition source_identity :: "property_graph \<Rightarrow> val \<Rightarrow> val option" where
  "source_identity g v =
     (let identity = (\<lambda>i. Some (if 1 < length (eid_components i) then element_to_value i else V_Scalar (eid_scalar i))) in
      if write_mapping g = None \<and> \<not> pg_source_keys g then None
      else case v of
        V_Node _ i \<Rightarrow> identity i
      | V_Edge _ i _ _ _ _ _ \<Rightarrow> identity i
      | _ \<Rightarrow> None)"

text \<open>A mapped column's identity is its owner's typed address and its key.\<close>

definition mapped_property_public_id :: "native_lib \<Rightarrow> string \<Rightarrow> element_id \<Rightarrow> string \<Rightarrow> val" where
  "mapped_property_public_id N label owner key =
     V_String (''orchid:property:v1:'' @ url_safe_base64 N (encode_value_bytes (nl_values N)
       (V_List [V_String label,
          V_List (map (\<lambda>c. V_List [V_String (type_text N c), element_to_value (ElementId c)]) (eid_components owner)),
          V_String key])))"

definition default_public_id :: "native_lib \<Rightarrow> property_graph \<Rightarrow> element_addr \<Rightarrow> val" where
  "default_public_id N g a =
     (let (edge, name, i) = a;
          legacy = (if edge then edge_property (nl_graph N) g name i ''id''
                    else node_property (nl_graph N) g name i ''id'')
      in if legacy \<noteq> V_Null then legacy else V_String (name @ ''#'' @ id_text (nl_graph N) i))"

definition address_public_id :: "native_lib \<Rightarrow> property_graph \<Rightarrow> element_addr \<Rightarrow> val" where
  "address_public_id N g a =
     (case map_of (ov_public_ids (pg_overlay g)) a of Some v \<Rightarrow> v | None \<Rightarrow> default_public_id N g a)"

definition vertex_property_public_id :: "native_lib \<Rightarrow> property_graph \<Rightarrow> i64 \<Rightarrow> val \<Rightarrow> string \<Rightarrow> val" where
  "vertex_property_public_id N g i owner key =
     (case owner of
        V_Node label vi \<Rightarrow>
          let records = vertex_records (pg_overlay g) (label, vi) key in
          (case Option.bind (Option.bind records (find (\<lambda>r. vp_id r = i))) vp_public of
             Some p \<Rightarrow> p
           | None \<Rightarrow>
               if source_identity g owner \<noteq> None \<and> (case records of Some [r] \<Rightarrow> vp_id r = i | _ \<Rightarrow> False)
               then mapped_property_public_id N label vi key else V_Long i)
      | _ \<Rightarrow> V_Long i)"

definition element_public_id :: "native_lib \<Rightarrow> val \<Rightarrow> property_graph \<Rightarrow> val \<times> property_graph" where
  "element_public_id N element g =
     (let g = hydrate_target element g in
      (case source_identity g element of
         Some i \<Rightarrow> i
       | None \<Rightarrow>
           (case element of
              V_Node label i \<Rightarrow> address_public_id N g (False, label, i)
            | V_Edge rel i _ _ _ _ _ \<Rightarrow> address_public_id N g (True, rel, i)
            | V_VertexProperty i owner key _ \<Rightarrow> vertex_property_public_id N g i owner key
            | _ \<Rightarrow> V_Null), g))"

definition element_at :: "property_graph \<Rightarrow> element_addr \<Rightarrow> val option" where
  "element_at g a =
     (let (edge, name, i) = a in
      if edge then
        (if \<not> edge_is_live (pg_overlay g) name i then None
         else case edge_endpoints g name i of
           None \<Rightarrow> None
         | Some (sl, s, dl, d) \<Rightarrow> Some (V_Edge name i sl s dl d None))
      else if node_is_live g name i then Some (V_Node name i) else None)"

definition keyed_addresses :: "bool \<Rightarrow> property_graph \<Rightarrow> element_addr list" where
  "keyed_addresses edge g =
     concat (map (\<lambda>(name, ids). map (\<lambda>i. (edge, name, i)) ids) (if edge then pg_edge_keys g else pg_node_keys g))"

definition public_addresses :: "native_lib \<Rightarrow> val \<Rightarrow> bool \<Rightarrow> property_graph \<Rightarrow> element_addr list" where
  "public_addresses N public_id edge g =
     (case pg_source g of
        None \<Rightarrow> []
      | Some s \<Rightarrow> gs_public_addresses s public_id edge @
          (case element_of_value (nl_graph N) public_id of
             Inl _ \<Rightarrow> []
           | Inr e \<Rightarrow> List.map_filter (\<lambda>name.
               case map_of (pg_key_types g) (edge, name) of
                 None \<Rightarrow> None
               | Some kind \<Rightarrow>
                   (case element_cast (nl_graph N) e kind of Inl _ \<Rightarrow> None | Inr key \<Rightarrow> Some (edge, name, key)))
               (if edge then rel_types g else graph_labels g))) @
     filter (\<lambda>a. fst a = edge) (al_default [] (ov_public_lookup (pg_overlay g)) (public_id_key (nl_store N) public_id)) @
     filter (\<lambda>a. fst a = edge) (sort_by (element_addr_le (nl_graph N)) (ov_unassigned (pg_overlay g))) @
     keyed_addresses edge g"

fun find_among ::
  "native_lib \<Rightarrow> val \<Rightarrow> element_addr list \<Rightarrow> property_graph \<Rightarrow> val option \<times> property_graph" where
  "find_among N public_id [] g = (None, g)"
| "find_among N public_id (a # as) g =
     (case element_at g a of
        None \<Rightarrow> find_among N public_id as g
      | Some v \<Rightarrow>
          let (p, g) = element_public_id N v g in
          if three_valued_eq (nl_order N) p public_id = Some True then (Some v, g)
          else find_among N public_id as g)"

definition find_element_by_public_id ::
  "native_lib \<Rightarrow> val \<Rightarrow> bool \<Rightarrow> property_graph \<Rightarrow> val option \<times> property_graph" where
  "find_element_by_public_id N public_id edge g = find_among N public_id (public_addresses N public_id edge g) g"

definition taken_by_other :: "native_lib \<Rightarrow> val \<Rightarrow> val option \<Rightarrow> bool" where
  "taken_by_other N element found =
     (case found of None \<Rightarrow> False | Some other \<Rightarrow> \<not> value_eq (nl_values N) other element)"

definition element_address :: "val \<Rightarrow> element_addr option" where
  "element_address v =
     (case v of
        V_Node label i \<Rightarrow> Some (False, label, i)
      | V_Edge rel i _ _ _ _ _ \<Rightarrow> Some (True, rel, i)
      | _ \<Rightarrow> None)"

definition mark_element :: "element_addr \<Rightarrow> property_graph \<Rightarrow> property_graph" where
  "mark_element a g = (if fst a then mark_edge (snd a) g else mark_node (snd a) g)"

definition assign_public_id :: "native_lib \<Rightarrow> element_addr \<Rightarrow> val \<Rightarrow> graph_overlay \<Rightarrow> graph_overlay" where
  "assign_public_id N a public_id ov =
     (let lookup = (case map_of (ov_public_ids ov) a of
            None \<Rightarrow> ov_public_lookup ov
          | Some old \<Rightarrow>
              (case map_of (ov_public_lookup ov) (public_id_key (nl_store N) old) of
                 None \<Rightarrow> ov_public_lookup ov
               | Some entries \<Rightarrow> AList.update (public_id_key (nl_store N) old)
                   (filter (\<lambda>e. e \<noteq> a) entries) (ov_public_lookup ov)))
      in ov\<lparr>ov_public_ids := AList.update a public_id (ov_public_ids ov),
            ov_unassigned := filter (\<lambda>e. e \<noteq> a) (ov_unassigned ov),
            ov_public_lookup := al_upd [] (\<lambda>es. es @ [a]) (public_id_key (nl_store N) public_id) lookup\<rparr>)"

definition set_element_public_id :: "native_lib \<Rightarrow> val \<Rightarrow> val \<Rightarrow> property_graph \<Rightarrow> unit act" where
  "set_element_public_id N element public_id g =
     (let g = hydrate_target element g in
      case source_identity g element of
        Some key \<Rightarrow>
          (if three_valued_eq (nl_order N) key public_id = Some True then (Inr (), g)
           else (Inl (Schema ''mapped identities are the source primary keys''), g))
      | None \<Rightarrow>
          if (case public_id of V_Null \<Rightarrow> True | V_List _ \<Rightarrow> True | V_Map _ \<Rightarrow> True | _ \<Rightarrow> False)
          then (Inl (Schema ''Invalid element id''), g)
          else (case element_address element of
              None \<Rightarrow> (Inl (Schema ''Element id requires a vertex or edge''), g)
            | Some a \<Rightarrow>
                let (found, g) = find_element_by_public_id N public_id (fst a) g in
                if taken_by_other N element found
                then (Inl (Schema (''Element with id '' @ debug_text (nl_store N) public_id @ '' already exists'')), g)
                else (Inr (), upd_overlay (assign_public_id N a public_id) (mark_element a g))))"


text \<open>
  The loop of \<open>assign_generated_public_id\<close> is bounded by fuel; running out of it is \<open>None\<close>.  The
  suffix is counted without bound.
\<close>

definition generated_id :: "native_lib \<Rightarrow> string \<Rightarrow> element_id \<Rightarrow> nat \<Rightarrow> string" where
  "generated_id N name i n = name @ ''#'' @ id_text (nl_graph N) i @ (if n = 0 then [] else ''_'' @ show_nat n)"

fun generated_candidate ::
  "nat \<Rightarrow> native_lib \<Rightarrow> val \<Rightarrow> element_addr \<Rightarrow> nat \<Rightarrow> property_graph \<Rightarrow> (val \<times> property_graph) option" where
  "generated_candidate 0 N element a n g = None"
| "generated_candidate (Suc fuel) N element a n g =
     (let candidate = V_String (generated_id N (fst (snd a)) (snd (snd a)) n);
          (found, g) = find_element_by_public_id N candidate (fst a) g
      in if taken_by_other N element found then generated_candidate fuel N element a (Suc n) g
         else Some (candidate, g))"

definition assign_generated_public_id :: "nat \<Rightarrow> native_lib \<Rightarrow> val \<Rightarrow> property_graph \<Rightarrow> unit act option" where
  "assign_generated_public_id fuel N element g =
     (if source_identity g element \<noteq> None then Some (Inr (), g)
      else case element_address element of
        None \<Rightarrow> Some (Inl (Schema ''Expected element''), g)
      | Some a \<Rightarrow>
          (case generated_candidate fuel N element a 0 g of
             None \<Rightarrow> None
           | Some (candidate, g) \<Rightarrow>
               (case set_element_public_id N element candidate g of
                  (Inl e, g) \<Rightarrow> Some (Inl e, g)
                | (Inr _, g) \<Rightarrow>
                    Some (Inr (), if \<not> fst a \<and> node_property (nl_graph N) g (fst (snd a)) (snd (snd a)) ''id'' \<noteq> V_Null
                                  then ensure_vertex_property N element ''id'' g else g))))"

section \<open>Writing vertex properties\<close>

definition val_as_i64 :: "native_lib \<Rightarrow> val \<Rightarrow> i64 option" where
  "val_as_i64 N v =
     (let exact = (\<lambda>n :: int. if - (2 ^ 63) \<le> n \<and> n < 2 ^ 63 then Some (word_of_int n :: i64) else None) in
      case v of
        V_Byte n \<Rightarrow> Some (scast n)
      | V_UInt8 n \<Rightarrow> Some (ucast n)
      | V_Short n \<Rightarrow> Some (scast n)
      | V_UInt16 n \<Rightarrow> Some (ucast n)
      | V_Int n \<Rightarrow> Some n
      | V_UInt32 n \<Rightarrow> Some (ucast n)
      | V_Long n \<Rightarrow> Some n
      | V_UInt64 n \<Rightarrow> exact (uint n)
      | V_Float32 x \<Rightarrow> Some (f32_to_i64 N x)
      | V_Float x \<Rightarrow> Some (f64_to_i64 N x)
      | V_BigInt n \<Rightarrow> exact n
      | V_UInt128 n \<Rightarrow> exact n
      | V_BigDecimal n s \<Rightarrow> decimal_to_i64 N n s
      | _ \<Rightarrow> None)"

definition same_member :: "native_lib \<Rightarrow> val \<Rightarrow> vertex_property_record \<Rightarrow> bool" where
  "same_member N v r \<longleftrightarrow> set_member_key (nl_values N) (vp_value r) = set_member_key (nl_values N) v"

definition merge_meta :: "bool \<Rightarrow> props \<Rightarrow> vertex_property_record \<Rightarrow> vertex_property_record" where
  "merge_meta allow_null meta r = fold (\<lambda>e. meta_set allow_null (fst e) (snd e)) meta r"

definition written_records ::
  "bool \<Rightarrow> cardinality \<Rightarrow> vertex_property_record \<Rightarrow> vertex_property_record list \<Rightarrow> vertex_property_record list" where
  "written_records allow_null kind r rs =
     (let kept = (if kind = Card_Single then [] else rs) in
      if vp_value r \<noteq> V_Null \<or> allow_null then kept @ [r] else kept)"

definition first_value :: "vertex_property_record list \<Rightarrow> val" where
  "first_value rs = (case rs of [] \<Rightarrow> V_Null | r # _ \<Rightarrow> vp_value r)"

definition store_vertex_property ::
  "native_lib \<Rightarrow> addr \<Rightarrow> string \<Rightarrow> val \<Rightarrow> cardinality \<Rightarrow> props \<Rightarrow> property_graph \<Rightarrow> val act" where
  "store_vertex_property N k key v kind meta g =
     (let owner = V_Node (fst k) (snd k); ov = pg_overlay g; allow_null = ov_allow_null ov;
          records = (case vertex_records ov k key of None \<Rightarrow> [] | Some rs \<Rightarrow> rs)
      in case (if kind = Card_Set then find (same_member N v) records else None) of
           Some r \<Rightarrow>
             (Inr (record_property owner key r),
              mark_node k (upd_overlay (upd_records k key (update_first (same_member N v) (merge_meta allow_null meta))) g))
         | None \<Rightarrow>
             let new = \<lparr>vp_id = ov_next_property_id ov, vp_value = v, vp_public = None,
                        vp_meta = filter (\<lambda>e. allow_null \<or> snd e \<noteq> V_Null) meta\<rparr>;
                 written = written_records allow_null kind new records;
                 g = upd_overlay (\<lambda>ov. put_records k key written (ov\<lparr>ov_next_property_id := ov_next_property_id ov + 1\<rparr>)) g
             in (case set_property_scalar owner key (first_value written) g of
                   (Inl e, g) \<Rightarrow> (Inl e, g)
                 | (Inr _, g) \<Rightarrow>
                     (Inr (record_property owner key new),
                      mark_node k (upd_overlay (\<lambda>ov. ov\<lparr>ov_override_node_keys := note_key (fst k) key (ov_override_node_keys ov)\<rparr>) g))))"

definition fix_public_id :: "native_lib \<Rightarrow> val \<Rightarrow> string \<Rightarrow> property_graph \<Rightarrow> unit act" where
  "fix_public_id N owner key g =
     (if key = ''id'' then let (p, g) = element_public_id N owner g in set_element_public_id N owner p g
      else (Inr (), g))"

definition set_vertex_property_inner ::
  "native_lib \<Rightarrow> val \<Rightarrow> string \<Rightarrow> val \<Rightarrow> cardinality \<Rightarrow> props \<Rightarrow> bool \<Rightarrow> property_graph \<Rightarrow> val act" where
  "set_vertex_property_inner N owner key v kind meta jvm_user_keys g =
     (if contains_cardinality_value v \<or> list_ex (\<lambda>e. contains_cardinality_value (snd e)) meta
      then (Inl cardinality_error, g)
      else case owner of
        V_Node label i \<Rightarrow>
          (case fix_public_id N owner key g of
             (Inl e, g) \<Rightarrow> (Inl e, g)
           | (Inr _, g) \<Rightarrow>
               let g = (if jvm_user_keys \<and> prefix ''__'' key
                        then upd_overlay (\<lambda>ov. ov\<lparr>ov_vertex_props := al_upd [] (bt_or_insert key []) (label, i) (ov_vertex_props ov)\<rparr>) g
                        else g)
               in store_vertex_property N (label, i) key v kind meta (ensure_vertex_property N owner key g))
      | _ \<Rightarrow> (Inl (Schema ''Vertex property requires a vertex''), g))"

definition set_vertex_property ::
  "native_lib \<Rightarrow> val \<Rightarrow> string \<Rightarrow> val \<Rightarrow> cardinality \<Rightarrow> props \<Rightarrow> property_graph \<Rightarrow> val act" where
  "set_vertex_property N owner key v kind meta g = set_vertex_property_inner N owner key v kind meta False g"

definition set_jvm_vertex_property ::
  "native_lib \<Rightarrow> val \<Rightarrow> string \<Rightarrow> val \<Rightarrow> cardinality \<Rightarrow> props \<Rightarrow> property_graph \<Rightarrow> val act" where
  "set_jvm_vertex_property N owner key v kind meta g = set_vertex_property_inner N owner key v kind meta True g"

definition put_edge_null :: "addr \<Rightarrow> string \<Rightarrow> graph_overlay \<Rightarrow> graph_overlay" where
  "put_edge_null k key ov = ov\<lparr>ov_edge_nulls := al_upd {} (insert key) k (ov_edge_nulls ov),
     ov_override_edge_keys := note_key (fst k) key (ov_override_edge_keys ov)\<rparr>"

definition set_gremlin_property :: "native_lib \<Rightarrow> val \<Rightarrow> string \<Rightarrow> val \<Rightarrow> property_graph \<Rightarrow> unit act" where
  "set_gremlin_property N target key v g =
     (case target of
        V_Node _ _ \<Rightarrow>
          (case set_vertex_property N target key v Card_Single [] g of (Inl e, g) \<Rightarrow> (Inl e, g) | (Inr _, g) \<Rightarrow> (Inr (), g))
      | V_VertexProperty _ _ _ _ \<Rightarrow> set_meta_property target key v g
      | V_Edge rel i _ _ _ _ _ \<Rightarrow>
          let is_null = v = V_Null \<and> ov_allow_null (pg_overlay g) in
          (case set_property_scalar target key v g of
             (Inl e, g) \<Rightarrow> (Inl e, g)
           | (Inr _, g) \<Rightarrow>
               (Inr (), if is_null \<and> edge_is_live (pg_overlay g) rel i then upd_overlay (put_edge_null (rel, i) key) g else g))
      | _ \<Rightarrow> (Inl (Schema ''Property requires an element''), g))"

definition enable_null_property_values :: "native_lib \<Rightarrow> bool \<Rightarrow> property_graph \<Rightarrow> property_graph" where
  "enable_null_property_values N enabled g =
     (if ov_allow_null (pg_overlay g) = enabled then g
      else let g = upd_overlay (\<lambda>ov. ov\<lparr>ov_allow_null := enabled\<rparr>) g;
               nodes = concat (map (\<lambda>label. case node_ids (nl_graph N) g label of Inl _ \<Rightarrow> [] | Inr ids \<Rightarrow> map (Pair label) ids) (graph_labels g));
               edges = concat (map (\<lambda>rel. map (Pair rel) (edge_ids (nl_graph N) g rel)) (rel_types g))
           in fold mark_edge edges (fold mark_node nodes g))"

section \<open>Identities of vertex properties\<close>

definition property_id_taken :: "native_lib \<Rightarrow> i64 \<Rightarrow> val \<Rightarrow> graph_overlay \<Rightarrow> bool" where
  "property_id_taken N i public_id ov \<longleftrightarrow>
     list_ex (\<lambda>r. vp_id r \<noteq> i \<and>
         three_valued_eq (nl_order N) (case vp_public r of Some p \<Rightarrow> p | None \<Rightarrow> V_Long (vp_id r)) public_id = Some True)
       (concat (map (\<lambda>e. concat (map snd (snd e))) (ov_vertex_props ov)))"

definition next_handle_after :: "native_lib \<Rightarrow> val \<Rightarrow> i64 \<Rightarrow> i64" where
  "next_handle_after N public_id n =
     (case val_as_i64 N public_id of
        Some p \<Rightarrow> if sint p + 1 < 2 ^ 63 \<and> n <s p + 1 then p + 1 else n
      | None \<Rightarrow> n)"

definition set_vertex_property_public_id :: "native_lib \<Rightarrow> val \<Rightarrow> val \<Rightarrow> property_graph \<Rightarrow> unit act" where
  "set_vertex_property_public_id N target public_id g =
     (case target of
        V_VertexProperty i (V_Node label vi) key _ \<Rightarrow>
          let ov = pg_overlay g; k = (label, vi) in
          if property_id_taken N i public_id ov then (Inl (Schema ''Vertex property id already exists''), g)
          else if \<not> list_ex (\<lambda>r. vp_id r = i) (case vertex_records ov k key of None \<Rightarrow> [] | Some rs \<Rightarrow> rs)
          then (Inl (Schema ''Vertex property no longer exists''), g)
          else (Inr (), mark_node k (upd_overlay (\<lambda>ov.
            (upd_records k key (update_first (\<lambda>r. vp_id r = i) (\<lambda>r. r\<lparr>vp_public := Some public_id\<rparr>)) ov)
              \<lparr>ov_next_property_id := next_handle_after N public_id (ov_next_property_id ov)\<rparr>) g))
      | V_VertexProperty _ _ _ _ \<Rightarrow> (Inl (Schema ''Expected vertex owner''), g)
      | _ \<Rightarrow> (Inl (Schema ''Expected vertex property''), g))"

definition stabilized :: "native_lib \<Rightarrow> addr \<Rightarrow> string \<times> vertex_property_record list \<Rightarrow> string \<times> vertex_property_record list" where
  "stabilized N k e =
     (case snd e of
        [r] \<Rightarrow> (fst e, [if vp_public r = None then r\<lparr>vp_public := Some (mapped_property_public_id N (fst k) (snd k) (fst e))\<rparr> else r])
      | _ \<Rightarrow> e)"

definition stabilize_mapped_property_ids :: "native_lib \<Rightarrow> val \<Rightarrow> property_graph \<Rightarrow> property_graph" where
  "stabilize_mapped_property_ids N owner g =
     (case owner of
        V_Node label i \<Rightarrow>
          upd_overlay (\<lambda>ov. case map_of (ov_vertex_props ov) (label, i) of
              None \<Rightarrow> ov
            | Some m \<Rightarrow> ov\<lparr>ov_vertex_props := AList.update (label, i) (map (stabilized N (label, i)) m) (ov_vertex_props ov)\<rparr>)
            (snd (properties N owner [] g))
      | _ \<Rightarrow> g)"


section \<open>Records of a graph without a source\<close>

lemma hydrate_no_source [simp]:
  "pg_source g = None \<Longrightarrow> hydrate_native_state edge name i g = g"
  "pg_source g = None \<Longrightarrow> hydrate_target v g = g"
  by (simp_all add: hydrate_native_state_def hydrate_target_def split: val.split)

lemma vertex_records_put [simp]:
  "vertex_records (put_records k key rs ov) k' key' =
     (if k' = k \<and> key' = key then Some rs else vertex_records ov k' key')"
  by (auto simp: put_records_def vertex_records_def al_default_def split: option.split)

lemma vertex_records_upd:
  "vertex_records (upd_records k key f ov) k' key' =
     (if k' = k \<and> key' = key then map_option f (vertex_records ov k key) else vertex_records ov k' key')"
  by (auto simp: upd_records_def vertex_records_def update_conv' split: option.split)

lemma vertex_records_cong: "ov_vertex_props ov' = ov_vertex_props ov \<Longrightarrow> vertex_records ov' = vertex_records ov"
  by (intro ext) (simp add: vertex_records_def)

lemma vertex_records_fields [simp]:
  "vertex_records (ov\<lparr>ov_next_property_id := n\<rparr>) = vertex_records ov"
  "vertex_records (ov\<lparr>ov_override_node_keys := ks\<rparr>) = vertex_records ov"
  "vertex_records (set_node_scalar k key v ov) = vertex_records ov"
  by (rule vertex_records_cong, simp add: set_node_scalar_def split: option.split)+

lemma put_records_fields [simp]:
  "ov_allow_null (put_records k key rs ov) = ov_allow_null ov"
  "ov_next_property_id (put_records k key rs ov) = ov_next_property_id ov"
  "ov_inserted_nodes (put_records k key rs ov) = ov_inserted_nodes ov"
  "ov_deleted_nodes (put_records k key rs ov) = ov_deleted_nodes ov"
  "read_fields (put_records k key rs ov) = read_fields ov"
  by (simp_all add: put_records_def)

text \<open>The records a key has once it is listed: its own, or the one its scalar value becomes.\<close>

definition listed_records :: "native_lib \<Rightarrow> addr \<Rightarrow> string \<Rightarrow> property_graph \<Rightarrow> vertex_property_record list" where
  "listed_records N k key g =
     (case vertex_records (pg_overlay g) k key of
        Some rs \<Rightarrow> rs
      | None \<Rightarrow>
          let v = node_property (nl_graph N) g (fst k) (snd k) key in
          if v = V_Null then []
          else [\<lparr>vp_id = ov_next_property_id (pg_overlay g), vp_value = v, vp_public = None, vp_meta = []\<rparr>])"

lemma ensure_records:
  assumes "pg_source g = None"
  shows "vertex_records (pg_overlay (ensure_vertex_property N (V_Node label i) key g)) k' key' =
    (if k' = (label, i) \<and> key' = key then Some (listed_records N (label, i) key g)
     else vertex_records (pg_overlay g) k' key')"
  using assms
  by (simp add: ensure_vertex_property_def listed_records_def materialized_handle_def Let_def split: option.split)

lemma ensure_fields [simp]:
  assumes "pg_source g = None"
  shows "pg_source (ensure_vertex_property N owner key g) = None"
    "base_of (ensure_vertex_property N owner key g) = base_of g"
    "ov_allow_null (pg_overlay (ensure_vertex_property N owner key g)) = ov_allow_null (pg_overlay g)"
    "read_fields (pg_overlay (ensure_vertex_property N owner key g)) = read_fields (pg_overlay g)"
  using assms
  by (simp_all add: ensure_vertex_property_def materialized_handle_def Let_def split: val.split option.split)

lemma node_is_live_reads:
  "read_fields (pg_overlay h) = read_fields (pg_overlay g) \<Longrightarrow> base_of h = base_of g \<Longrightarrow>
   node_is_live h label i = node_is_live g label i"
  using node_reads_cong(2) [of h g label i] views_read_fields [of "pg_overlay h" "pg_overlay g"] by simp

lemma properties_one_key:
  assumes "pg_source g = None" "node_is_live g label i" "\<not> prefix ''__'' key" "key \<noteq> ''id''"
  shows "fst (properties N (V_Node label i) [key] g) = map (record_property (V_Node label i) key) (listed_records N (label, i) key g)"
  using assms by (simp add: properties_def properties_inner_def node_key_listed_def ensure_records)


section \<open>What a vertex property write stores\<close>

lemma map_update_first: "(\<And>x. P x \<Longrightarrow> f (h x) = f x) \<Longrightarrow> map f (update_first P h xs) = map f xs"
  by (induction xs) auto

lemma merge_meta_fields [simp]:
  "vp_id (merge_meta allow_null meta r) = vp_id r"
  "vp_value (merge_meta allow_null meta r) = vp_value r"
  "vp_public (merge_meta allow_null meta r) = vp_public r"
proof -
  have "vp_id (fold (\<lambda>e. meta_set allow_null (fst e) (snd e)) meta r) = vp_id r \<and>
      vp_value (fold (\<lambda>e. meta_set allow_null (fst e) (snd e)) meta r) = vp_value r \<and>
      vp_public (fold (\<lambda>e. meta_set allow_null (fst e) (snd e)) meta r) = vp_public r"
    by (induction meta arbitrary: r) (simp_all add: meta_set_def)
  then show "vp_id (merge_meta allow_null meta r) = vp_id r"
    "vp_value (merge_meta allow_null meta r) = vp_value r"
    "vp_public (merge_meta allow_null meta r) = vp_public r"
    by (simp_all add: merge_meta_def)
qed

lemma scalar_write_frame:
  assumes "set_property_scalar (V_Node label i) key v g = (Inr u, g')"
  shows "vertex_records (pg_overlay g') = vertex_records (pg_overlay g)"
    "pg_source g' = pg_source g" "node_is_live g' = node_is_live g"
  using assms
  by (auto simp: set_property_scalar_def node_is_live_def set_node_scalar_fields fun_eq_iff
      split: if_splits option.splits)

text \<open>How the listing of a key changes, per cardinality: a set keeps one property per member.\<close>

definition holds_member :: "native_lib \<Rightarrow> val \<Rightarrow> val \<Rightarrow> bool" where
  "holds_member N v q \<longleftrightarrow>
     (case q of V_VertexProperty _ _ _ w \<Rightarrow> set_member_key (nl_values N) w = set_member_key (nl_values N) v | _ \<Rightarrow> False)"

definition listed_after :: "native_lib \<Rightarrow> cardinality \<Rightarrow> val \<Rightarrow> val \<Rightarrow> val list \<Rightarrow> val list" where
  "listed_after N kind v p before =
     (case kind of
        Card_Single \<Rightarrow> [p]
      | Card_List \<Rightarrow> before @ [p]
      | Card_Set \<Rightarrow> if list_ex (holds_member N v) before then before else before @ [p])"

lemma holds_member_record: "holds_member N v (record_property owner key r) = same_member N v r"
  by (simp add: holds_member_def record_property_def same_member_def)

lemma find_None_iff_list_ex: "find P xs = None \<longleftrightarrow> \<not> list_ex P xs"
  by (induction xs) auto

lemma store_vertex_property_cases:
  assumes "store_vertex_property N k key v kind meta g = (Inr p, g')" "vertex_records (pg_overlay g) k key = Some rs"
  obtains (member) r where "kind = Card_Set" "find (same_member N v) rs = Some r"
      "p = record_property (V_Node (fst k) (snd k)) key r"
      "g' = mark_node k (upd_overlay (upd_records k key
         (update_first (same_member N v) (merge_meta (ov_allow_null (pg_overlay g)) meta))) g)"
  | (fresh) new u g1 where "\<not> (kind = Card_Set \<and> list_ex (same_member N v) rs)"
      "vp_value new = v" "p = record_property (V_Node (fst k) (snd k)) key new"
      "vp_id new = ov_next_property_id (pg_overlay g)"
      "set_property_scalar (V_Node (fst k) (snd k)) key
         (first_value (written_records (ov_allow_null (pg_overlay g)) kind new rs))
         (upd_overlay (\<lambda>ov. put_records k key (written_records (ov_allow_null (pg_overlay g)) kind new rs)
            (ov\<lparr>ov_next_property_id := ov_next_property_id ov + 1\<rparr>)) g) = (Inr u, g1)"
      "g' = mark_node k (upd_overlay (\<lambda>ov. ov\<lparr>ov_override_node_keys := note_key (fst k) key (ov_override_node_keys ov)\<rparr>) g1)"
proof (cases "if kind = Card_Set then find (same_member N v) rs else None")
  case None
  then have plain: "\<not> (kind = Card_Set \<and> list_ex (same_member N v) rs)"
    by (auto simp: find_None_iff_list_ex split: if_splits)
  define new where "new = \<lparr>vp_id = ov_next_property_id (pg_overlay g), vp_value = v, vp_public = None,
    vp_meta = filter (\<lambda>e. ov_allow_null (pg_overlay g) \<or> snd e \<noteq> V_Null) meta\<rparr>"
  obtain res g1 where scalar: "set_property_scalar (V_Node (fst k) (snd k)) key
         (first_value (written_records (ov_allow_null (pg_overlay g)) kind new rs))
         (upd_overlay (\<lambda>ov. put_records k key (written_records (ov_allow_null (pg_overlay g)) kind new rs)
            (ov\<lparr>ov_next_property_id := ov_next_property_id ov + 1\<rparr>)) g) = (res, g1)"
    by fastforce
  have stored: "(case res of Inl e \<Rightarrow> (Inl e, g1) | Inr _ \<Rightarrow>
      (Inr (record_property (V_Node (fst k) (snd k)) key new), mark_node k
        (upd_overlay (\<lambda>ov. ov\<lparr>ov_override_node_keys := note_key (fst k) key (ov_override_node_keys ov)\<rparr>) g1))) = (Inr p, g')"
    using assms(1) unfolding store_vertex_property_def Let_def assms(2) option.case None new_def [symmetric] scalar prod.case .
  then obtain u where "res = Inr u" by (cases res) auto
  with plain scalar stored show thesis
    by (intro fresh [of new u g1]) (simp_all add: new_def)
next
  case (Some r)
  then have set: "kind = Card_Set" "find (same_member N v) rs = Some r" by (auto split: if_splits)
  show thesis
    using assms(1) unfolding store_vertex_property_def Let_def assms(2) option.case Some
    by (intro member [OF set]) auto
qed

lemma member_write_frame:
  assumes "g' = mark_node k (upd_overlay (upd_records k key (update_first P (merge_meta allow_null meta))) g)"
    "vertex_records (pg_overlay g) k key = Some rs"
  shows "\<exists>rs'. vertex_records (pg_overlay g') k key = Some rs' \<and>
      map (record_property owner key) rs' = map (record_property owner key) rs"
    and "(k', key') \<noteq> (k, key) \<Longrightarrow> vertex_records (pg_overlay g') k' key' = vertex_records (pg_overlay g) k' key'"
    and "pg_source g' = pg_source g" "node_is_live g' = node_is_live g"
proof -
  show "\<exists>rs'. vertex_records (pg_overlay g') k key = Some rs' \<and>
      map (record_property owner key) rs' = map (record_property owner key) rs"
    using assms by (simp add: vertex_records_upd map_update_first record_property_def)
  show "(k', key') \<noteq> (k, key) \<Longrightarrow> vertex_records (pg_overlay g') k' key' = vertex_records (pg_overlay g) k' key'"
    using assms by (auto simp: vertex_records_upd)
  show "pg_source g' = pg_source g" using assms by simp
  show "node_is_live g' = node_is_live g"
    using assms by (auto simp: node_is_live_def upd_records_def fun_eq_iff split: option.splits)
qed


lemma fresh_write_frame:
  assumes "set_property_scalar (V_Node label i) key w
      (upd_overlay (\<lambda>ov. put_records (label, i) key rs' (ov\<lparr>ov_next_property_id := ov_next_property_id ov + 1\<rparr>)) g) = (Inr u, g1)"
    "g' = mark_node (label, i) (upd_overlay (\<lambda>ov. ov\<lparr>ov_override_node_keys := ks ov\<rparr>) g1)"
  shows "vertex_records (pg_overlay g') k' key' =
      (if k' = (label, i) \<and> key' = key then Some rs' else vertex_records (pg_overlay g) k' key')"
    and "pg_source g' = pg_source g" "node_is_live g' = node_is_live g"
proof -
  note frame = scalar_write_frame [OF assms(1)]
  show "vertex_records (pg_overlay g') k' key' =
      (if k' = (label, i) \<and> key' = key then Some rs' else vertex_records (pg_overlay g) k' key')"
    using frame(1) assms(2) by simp
  show "pg_source g' = pg_source g" using frame(2) assms(2) by simp
  have "node_is_live g' = node_is_live g1"
    using assms(2) by (intro ext node_is_live_reads) (simp_all add: read_fields_def)
  also have "\<dots> = node_is_live g"
    unfolding frame(3) by (intro ext node_is_live_reads) (simp_all add: read_fields_def put_records_def)
  finally show "node_is_live g' = node_is_live g" .
qed

lemma listed_after_member:
  "find (same_member N v) rs = Some r \<Longrightarrow>
   listed_after N Card_Set v p (map (record_property owner key) rs) = map (record_property owner key) rs"
  using find_None_iff_list_ex [of "same_member N v" rs]
  by (auto simp: listed_after_def list_ex_iff holds_member_record)

lemma listed_after_written:
  assumes "\<not> (kind = Card_Set \<and> list_ex (same_member N v) rs)" "vp_value new = v" "v \<noteq> V_Null \<or> allow_null"
  shows "map (record_property owner key) (written_records allow_null kind new rs) =
    listed_after N kind v (record_property owner key new) (map (record_property owner key) rs)"
  using assms by (cases kind) (auto simp: listed_after_def written_records_def list_ex_iff holds_member_record)

lemma listed_after_fresh:
  "\<not> (kind = Card_Set \<and> list_ex (same_member N v) rs) \<Longrightarrow>
   p \<in> set (listed_after N kind v p (map (record_property owner key) rs))"
  by (cases kind) (auto simp: listed_after_def list_ex_iff holds_member_record)

lemma store_vertex_property_listed:
  assumes "store_vertex_property N (label, i) key v kind meta g = (Inr p, g')"
    "vertex_records (pg_overlay g) (label, i) key = Some rs" "v \<noteq> V_Null \<or> ov_allow_null (pg_overlay g)"
  shows "\<exists>rs'. vertex_records (pg_overlay g') (label, i) key = Some rs' \<and>
      map (record_property (V_Node label i) key) rs' =
        listed_after N kind v p (map (record_property (V_Node label i) key) rs)"
    and "(k', key') \<noteq> ((label, i), key) \<Longrightarrow> vertex_records (pg_overlay g') k' key' = vertex_records (pg_overlay g) k' key'"
    and "pg_source g' = pg_source g" "node_is_live g' = node_is_live g" "holds_member N v p"
    "p \<in> set (listed_after N kind v p (map (record_property (V_Node label i) key) rs))"
proof -
  have "(\<exists>rs'. vertex_records (pg_overlay g') (label, i) key = Some rs' \<and>
      map (record_property (V_Node label i) key) rs' =
        listed_after N kind v p (map (record_property (V_Node label i) key) rs)) \<and>
    ((k', key') \<noteq> ((label, i), key) \<longrightarrow> vertex_records (pg_overlay g') k' key' = vertex_records (pg_overlay g) k' key') \<and>
    pg_source g' = pg_source g \<and> node_is_live g' = node_is_live g \<and> holds_member N v p \<and>
    p \<in> set (listed_after N kind v p (map (record_property (V_Node label i) key) rs))"
    using assms(1,2)
  proof (cases rule: store_vertex_property_cases)
    case (member r)
    then have "same_member N v r \<and> r \<in> set rs" by (auto simp: find_Some_iff)
    then show ?thesis
      using member member_write_frame [OF member(4) assms(2)]
      by (auto simp: listed_after_member holds_member_record)
  next
    case (fresh new u g1)
    note frame = fresh_write_frame [OF fresh(5) [unfolded fst_conv snd_conv] fresh(6) [unfolded fst_conv snd_conv]]
    show ?thesis
      using fresh(1-3) frame listed_after_written [OF fresh(1,2) assms(3), of "V_Node label i" key]
      by (simp add: holds_member_record same_member_def listed_after_fresh)
  qed
  then show "\<exists>rs'. vertex_records (pg_overlay g') (label, i) key = Some rs' \<and>
      map (record_property (V_Node label i) key) rs' =
        listed_after N kind v p (map (record_property (V_Node label i) key) rs)"
    "(k', key') \<noteq> ((label, i), key) \<Longrightarrow> vertex_records (pg_overlay g') k' key' = vertex_records (pg_overlay g) k' key'"
    "pg_source g' = pg_source g" "node_is_live g' = node_is_live g" "holds_member N v p"
    "p \<in> set (listed_after N kind v p (map (record_property (V_Node label i) key) rs))"
    by blast+
qed


section \<open>Identities of an unmapped graph\<close>

definition unmapped :: "property_graph \<Rightarrow> bool" where
  "unmapped g \<longleftrightarrow> pg_source g = None \<and> pg_mapping g = None \<and> \<not> pg_source_keys g"

lemma unmapped_simps [simp]:
  assumes "unmapped g"
  shows "pg_source g = None" "source_identity g v = None" "hydrate_target v g = g" "snd (element_public_id N v g) = g"
  using assms by (simp_all add: unmapped_def source_identity_def write_mapping_def element_public_id_def)

lemma element_at_address: "element_at g a = Some v \<Longrightarrow> element_address v = Some a"
  by (auto simp: element_at_def element_address_def split: prod.splits if_splits option.splits)

lemma public_id_at:
  "unmapped g \<Longrightarrow> element_address v = Some a \<Longrightarrow> fst (element_public_id N v g) = address_public_id N g a"
  by (auto simp: element_public_id_def element_address_def split: val.splits)

definition has_public_id :: "native_lib \<Rightarrow> property_graph \<Rightarrow> val \<Rightarrow> val \<Rightarrow> bool" where
  "has_public_id N g public_id v \<longleftrightarrow> three_valued_eq (nl_order N) (fst (element_public_id N v g)) public_id = Some True"

lemma find_among_unmapped:
  "unmapped g \<Longrightarrow> find_among N public_id as g = (find (has_public_id N g public_id) (List.map_filter (element_at g) as), g)"
proof (induction as)
  case (Cons a as)
  then show ?case
    by (cases "element_at g a") (auto simp: has_public_id_def List.map_filter_simps case_prod_beta prod_eq_iff)
qed (simp add: List.map_filter_simps)

lemma find_by_public_id_unmapped:
  "unmapped g \<Longrightarrow> find_element_by_public_id N public_id edge g =
     (find (has_public_id N g public_id) (List.map_filter (element_at g) (public_addresses N public_id edge g)), g)"
  by (simp add: find_element_by_public_id_def find_among_unmapped)

lemma set_map_filter: "set (List.map_filter f xs) = {y. \<exists>x \<in> set xs. f x = Some y}"
  by (force simp: List.map_filter_def)

lemma find_only:
  assumes "x \<in> set xs" "P x" "\<And>y. y \<in> set xs \<Longrightarrow> P y \<Longrightarrow> y = x"
  shows "find P xs = Some x"
proof (cases "find P xs")
  case None
  then show ?thesis using assms(1,2) by (simp add: find_None_iff)
next
  case (Some y)
  then have "y \<in> set xs" "P y" by (auto simp: find_Some_iff)
  then show ?thesis using assms(3) Some by simp
qed

lemma assign_frame [simp]:
  "read_fields (assign_public_id N a p ov) = read_fields ov"
  "ov_public_ids (assign_public_id N a p ov) = AList.update a p (ov_public_ids ov)"
  "ov_unassigned (assign_public_id N a p ov) = filter (\<lambda>e. e \<noteq> a) (ov_unassigned ov)"
  by (simp_all add: assign_public_id_def read_fields_def Let_def)

lemma assign_lookup:
  "a \<in> set (al_default [] (ov_public_lookup (assign_public_id N a p ov)) (public_id_key (nl_store N) p))"
  "b \<in> set (al_default [] (ov_public_lookup (assign_public_id N a p ov)) key) \<Longrightarrow>
     b = a \<or> b \<in> set (al_default [] (ov_public_lookup ov) key)"
  by (auto simp: assign_public_id_def Let_def al_default_def update_conv' split: option.splits if_splits)

text \<open>The graph after the identity of \<open>a\<close> is assigned: the same elements, and only \<open>a\<close> has another identity.\<close>

definition assigned :: "native_lib \<Rightarrow> element_addr \<Rightarrow> val \<Rightarrow> property_graph \<Rightarrow> property_graph" where
  "assigned N a p g = upd_overlay (assign_public_id N a p) (mark_element a g)"

lemma mark_element_fields [simp]:
  "pg_overlay (mark_element a g) = pg_overlay g" "base_of (mark_element a g) = base_of g"
  by (simp_all add: mark_element_def)

lemma assigned_overlay [simp]: "pg_overlay (assigned N a p g) = assign_public_id N a p (pg_overlay g)"
  by (simp add: assigned_def)

lemma assigned_reads:
  shows "base_of (assigned N a p g) = base_of g"
    "read_fields (pg_overlay (assigned N a p g)) = read_fields (pg_overlay g)"
  by simp_all (simp add: assigned_def)

lemma element_at_reads:
  assumes "base_of h = base_of g" "read_fields (pg_overlay h) = read_fields (pg_overlay g)"
  shows "element_at h = element_at g" "default_public_id N h = default_public_id N g"
proof -
  note views = views_read_fields [OF assms(2)]
  note node = node_reads_cong [OF assms(1) arg_cong [OF views(1), of "\<lambda>f. f _"]]
  note edge = edge_reads_cong [OF assms(1) arg_cong [OF views(2), of "\<lambda>f. f _"]]
  have live: "edge_is_live (pg_overlay h) = edge_is_live (pg_overlay g)"
    using assms(2) by (simp add: edge_is_live_def read_fields_def fun_eq_iff)
  show "element_at h = element_at g" "default_public_id N h = default_public_id N g"
    by (simp_all add: fun_eq_iff element_at_def default_public_id_def node edge live)
qed

lemma unmapped_assigned: "unmapped (assigned N a p g) = unmapped g"
  using base_of_fields [OF assigned_reads(1), of N a p g] by (simp add: unmapped_def)

lemma assigned_public_id:
  "address_public_id N (assigned N a p g) b = (if b = a then p else address_public_id N g b)"
  using element_at_reads(2) [OF assigned_reads, of N N a p g]
  by (simp add: address_public_id_def update_conv' split: option.split)

lemma assigned_addresses:
  assumes "unmapped g"
  shows "a \<in> set (public_addresses N p (fst a) (assigned N a p g))"
    "b \<in> set (public_addresses N p edge (assigned N a p g)) \<Longrightarrow> b = a \<or> b \<in> set (public_addresses N p edge g)"
proof -
  have "pg_source (assigned N a p g) = None" "pg_source g = None"
    using assms unmapped_assigned [of N a p g] by (simp_all add: unmapped_def)
  moreover have "keyed_addresses e (assigned N a p g) = keyed_addresses e g" for e
    using base_of_fields [OF assigned_reads(1), of N a p g] by (simp add: keyed_addresses_def)
  ultimately show "a \<in> set (public_addresses N p (fst a) (assigned N a p g))"
    "b \<in> set (public_addresses N p edge (assigned N a p g)) \<Longrightarrow> b = a \<or> b \<in> set (public_addresses N p edge g)"
    using assign_lookup(1) [of a N p "pg_overlay g"] assign_lookup(2) [of b N a p "pg_overlay g"]
    by (auto simp: public_addresses_def)
qed

lemma set_public_id_unmapped:
  assumes "unmapped g" "element_address v = Some a" "\<not> (case p of V_Null \<Rightarrow> True | V_List _ \<Rightarrow> True | V_Map _ \<Rightarrow> True | _ \<Rightarrow> False)"
  shows "set_element_public_id N v p g =
    (if taken_by_other N v (fst (find_element_by_public_id N p (fst a) g))
     then (Inl (Schema (''Element with id '' @ debug_text (nl_store N) p @ '' already exists'')), g)
     else (Inr (), assigned N a p g))"
  using assms by (simp add: set_element_public_id_def find_by_public_id_unmapped assigned_def)

lemma assigned_found:
  assumes "unmapped g" "element_at g a = Some v" "three_valued_eq (nl_order N) p p = Some True"
    "fst (find_element_by_public_id N p (fst a) g) = None"
  shows "fst (find_element_by_public_id N p (fst a) (assigned N a p g)) = Some v"
proof -
  let ?h = "assigned N a p g"
  have h: "unmapped ?h" using assms(1) unmapped_assigned by simp
  note same = element_at_reads(1) [OF assigned_reads, of N a p g]
  have v: "has_public_id N ?h p v"
    using assms(3) public_id_at [OF h element_at_address [OF assms(2)], of N] assigned_public_id [of N a p g a]
    by (simp add: has_public_id_def)
  have only: "w = v" if w: "b \<in> set (public_addresses N p (fst a) ?h)" "element_at g b = Some w" "has_public_id N ?h p w" for b w
  proof (rule ccontr)
    assume "w \<noteq> v"
    then have b: "b \<noteq> a" using w(2) assms(2) by auto
    then have "b \<in> set (public_addresses N p (fst a) g)" using w(1) assigned_addresses(2) [OF assms(1)] by blast
    moreover have "has_public_id N g p w"
      using w(3) b assigned_public_id [of N a p g b] public_id_at [OF h element_at_address [OF w(2)], of N]
        public_id_at [OF assms(1) element_at_address [OF w(2)], of N]
      by (simp add: has_public_id_def)
    ultimately show False
      using assms(4) w(2) by (auto simp: find_by_public_id_unmapped [OF assms(1)] find_None_iff set_map_filter)
  qed
  have "find (has_public_id N ?h p) (List.map_filter (element_at ?h) (public_addresses N p (fst a) ?h)) = Some v"
  proof (rule find_only)
    show "v \<in> set (List.map_filter (element_at ?h) (public_addresses N p (fst a) ?h))"
      using assigned_addresses(1) [OF assms(1), of a N p] assms(2) unfolding set_map_filter same by blast
    show "has_public_id N ?h p v" by (rule v)
    show "w = v" if "w \<in> set (List.map_filter (element_at ?h) (public_addresses N p (fst a) ?h))"
      "has_public_id N ?h p w" for w
      using that only unfolding set_map_filter same by blast
  qed
  then show ?thesis by (simp add: find_by_public_id_unmapped [OF h])
qed

lemma ensure_public_ids [simp]:
  "pg_source g = None \<Longrightarrow> ov_public_ids (pg_overlay (ensure_vertex_property N owner key g)) = ov_public_ids (pg_overlay g)"
  by (simp add: ensure_vertex_property_def materialized_handle_def put_records_def Let_def split: val.split option.split)

lemma ensured_public_id:
  assumes "unmapped g" "element_address v = Some a"
  shows "fst (element_public_id N v (ensure_vertex_property M owner key g)) = fst (element_public_id N v g)"
proof -
  let ?h = "ensure_vertex_property M owner key g"
  have source: "pg_source g = None" using assms(1) by simp
  have base: "base_of ?h = base_of g" using source by simp
  have h: "unmapped ?h" using base_of_fields [OF base] assms(1) by (simp add: unmapped_def)
  have "default_public_id N ?h = default_public_id N g"
    using source by (intro element_at_reads(2)) simp_all
  then show ?thesis
    using public_id_at [OF h assms(2), of N] public_id_at [OF assms, of N] source by (simp add: address_public_id_def split: option.split)
qed


section \<open>Generated identities\<close>

text \<open>The text behind an identity, and when equality with a text is equality of texts.\<close>

definition text_behind :: "order_lib \<Rightarrow> val \<Rightarrow> string option" where
  "text_behind L p = text_of (case semantic L p of Some w \<Rightarrow> w | None \<Rightarrow> p)"

definition plain_text :: "string \<Rightarrow> bool" where
  "plain_text s \<longleftrightarrow> value_temporal_sort_key s = None \<and> value_interval_sort_key s = None"

lemma eq_plain_text_unwrapped:
  assumes "three_valued_eq L p (V_String c) = Some True" "plain_text c" "semantic L p = None"
  shows "text_of p = Some c"
proof -
  have "eq_members (values_of L) (three_valued_eq L) p (V_String c)"
    using assms(1,3) three_valued_eq.simps [of L p "V_String c"]
    by (auto simp: same_typed_scalars_def numeric_decimal_def eq_identified_def split: val.splits if_splits option.splits)
  then show ?thesis
    using assms(2) by (cases p) (simp_all add: eq_members_def text_of_def plain_text_def text_eq_def datetime_eq_def split: option.splits)
qed

lemma eq_plain_text:
  assumes "three_valued_eq L p (V_String c) = Some True" "plain_text c"
  shows "text_behind L p = Some c"
proof (cases "semantic L p")
  case None
  then show ?thesis using eq_plain_text_unwrapped [OF assms] by (simp add: text_behind_def)
next
  case (Some w)
  have "\<not> same_typed_scalars p (V_String c)" by (simp add: same_typed_scalars_def split: val.split)
  then have "three_valued_eq L w (V_String c) = Some True"
    using assms(1) Some by (simp add: three_valued_eq.simps [of L p])
  from eq_plain_text_unwrapped [OF this assms(2) semantic_plain [OF Some]] Some
  show ?thesis by (simp add: text_behind_def)
qed

lemma show_nat_inject: "show_nat m = show_nat n \<longleftrightarrow> m = n"
  using parse_digits_show_nat [of m] parse_digits_show_nat [of n] by (metis option.inject)

lemma inj_generated_id: "inj (generated_id N name i)"
  by (rule injI) (simp add: generated_id_def show_nat_inject split: if_splits)

text \<open>Every element a search for an identity can meet: those of the indexes of the graph.\<close>

definition known_elements :: "bool \<Rightarrow> property_graph \<Rightarrow> val set" where
  "known_elements edge g =
     (\<lambda>a. the (element_at g a)) ` (\<Union> (set ` snd ` set (ov_public_lookup (pg_overlay g))) \<union>
       set (ov_unassigned (pg_overlay g)) \<union> set (keyed_addresses edge g))"

lemma finite_known_elements: "finite (known_elements edge g)"
  by (simp add: known_elements_def)

lemma al_default_subset: "set (al_default [] m key) \<subseteq> \<Union> (set ` snd ` set m)"
proof (cases "map_of m key")
  case (Some xs)
  then have "xs \<in> snd ` set m" using map_of_SomeD [OF Some] by force
  then show ?thesis using Some by (simp add: al_default_def) blast
qed (simp add: al_default_def)

lemma found_is_known:
  assumes "unmapped g" "fst (find_element_by_public_id N p edge g) = Some w"
  shows "w \<in> known_elements edge g" "has_public_id N g p w"
proof -
  have w: "w \<in> set (List.map_filter (element_at g) (public_addresses N p edge g))" "has_public_id N g p w"
    using assms by (auto simp: find_by_public_id_unmapped find_Some_iff)
  then obtain a where a: "a \<in> set (public_addresses N p edge g)" "element_at g a = Some w"
    by (auto simp: set_map_filter)
  have "a \<in> \<Union> (set ` snd ` set (ov_public_lookup (pg_overlay g))) \<union> set (ov_unassigned (pg_overlay g)) \<union> set (keyed_addresses edge g)"
    using a(1) al_default_subset [of "ov_public_lookup (pg_overlay g)"]
    unfolding public_addresses_def unmapped_simps(1) [OF assms(1)] by auto
  then show "w \<in> known_elements edge g"
    unfolding known_elements_def using a(2) by (intro image_eqI [of _ _ a]) simp_all
  show "has_public_id N g p w" by (rule w(2))
qed

lemma some_candidate_free:
  assumes "unmapped g" "\<And>n. plain_text (generated_id N name i n)"
  shows "\<exists>n. fst (find_element_by_public_id N (V_String (generated_id N name i n)) edge g) = None"
proof (rule ccontr)
  assume taken: "\<nexists>n. fst (find_element_by_public_id N (V_String (generated_id N name i n)) edge g) = None"
  let ?text = "\<lambda>w. text_behind (nl_order N) (fst (element_public_id N w g))"
  have "Some (generated_id N name i n) \<in> ?text ` known_elements edge g" for n
  proof -
    obtain w where "fst (find_element_by_public_id N (V_String (generated_id N name i n)) edge g) = Some w"
      using taken by (meson not_None_eq)
    from found_is_known [OF assms(1) this] eq_plain_text [OF _ assms(2)]
    show ?thesis by (force simp: has_public_id_def)
  qed
  then have "range (\<lambda>n. Some (generated_id N name i n)) \<subseteq> ?text ` known_elements edge g" by blast
  then have "finite (range (\<lambda>n. Some (generated_id N name i n)))"
    by (rule finite_subset) (simp add: finite_known_elements)
  moreover have "inj (\<lambda>n. Some (generated_id N name i n))"
    using inj_generated_id [of N name i] by (simp add: inj_def)
  ultimately show False by (simp add: finite_image_iff)
qed

lemma candidate_reached:
  assumes "unmapped g" "\<not> taken_by_other N v (fst (find_element_by_public_id N (V_String (generated_id N (fst (snd a)) (snd (snd a)) (n + d))) (fst a) g))"
  shows "\<exists>fuel m. generated_candidate fuel N v a n g = Some (V_String (generated_id N (fst (snd a)) (snd (snd a)) m), g) \<and>
    \<not> taken_by_other N v (fst (find_element_by_public_id N (V_String (generated_id N (fst (snd a)) (snd (snd a)) m)) (fst a) g))"
  using assms(2)
proof (induction d arbitrary: n)
  let ?free = "\<lambda>n. \<not> taken_by_other N v (fst (find_element_by_public_id N (V_String (generated_id N (fst (snd a)) (snd (snd a)) n)) (fst a) g))"
  let ?found = "\<lambda>fuel n m. generated_candidate fuel N v a n g = Some (V_String (generated_id N (fst (snd a)) (snd (snd a)) m), g)"
  have now: "?found (Suc 0) n n" if "?free n" for n
    using that by (simp add: find_by_public_id_unmapped [OF assms(1)])
  {
    case 0
    then show ?case using now [of n] by (intro exI [of _ "Suc 0"] exI [of _ n]) simp
  next
    case (Suc d)
    show ?case
    proof (cases "?free n")
      case True
      then show ?thesis using now [of n] by blast
    next
      case False
      from Suc.IH [of "Suc n"] Suc.prems obtain fuel m where "?found fuel (Suc n) m" "?free m" by auto
      then show ?thesis
        using False by (intro exI [of _ "Suc fuel"] exI [of _ m]) (simp add: find_by_public_id_unmapped [OF assms(1)])
    qed
  }
qed


section \<open>Properties of a vertex\<close>



definition text_native_lib :: native_lib where
  "text_native_lib = \<lparr>
     nl_store = \<lparr>sl_graph = text_graph_lib, sha256 = (\<lambda>_. replicate 32 0), f32_decimal = (\<lambda>_. None),
       f64_decimal = (\<lambda>_. None), normalized_text = (\<lambda>n _. show_int n), debug_text = type_name\<rparr>,
     nl_order = text_order_lib, url_safe_base64 = bytes_str, type_text = (\<lambda>_. ''Int64''),
     f32_to_i64 = (\<lambda>_. 0), f64_to_i64 = (\<lambda>_. 0), decimal_to_i64 = (\<lambda>_ _. None)\<rparr>"

definition one_node :: "string \<Rightarrow> property_graph" where
  "one_node label = new_graph\<lparr>pg_overlay := empty_overlay\<lparr>ov_inserted_nodes := [((label, eid_of_i64 0), [])],
     ov_unassigned := [(False, label, eid_of_i64 0)]\<rparr>\<rparr>"

lemma one_node_simps [simp]:
  "pg_source (one_node label) = None" "node_is_live (one_node label) label (eid_of_i64 0)"
  "node_property G (one_node label) label (eid_of_i64 0) key = V_Null"
  "vertex_records (pg_overlay (one_node label)) k key = None" "ov_public_ids (pg_overlay (one_node label)) = []"
  by (simp_all add: vertex_records_def one_node_def new_graph_def empty_overlay_def node_is_live_def node_property_def
      map_property_value_def map_property_value_if_present_def only_def)



text \<open>
  C31: a public identity that no element uses can be given to any live element of an unmapped graph.
  Afterwards the element has that identity and is what a search for it returns, and every other element
  keeps its own.  When the search finds another element first, the assignment is refused and the graph
  stays as it was.  The identity is one that equals itself (not a NaN).
\<close>

theorem public_id_assigned:
  assumes "unmapped g" "element_at g a = Some v" "three_valued_eq (nl_order N) p p = Some True"
    "\<not> (case p of V_Null \<Rightarrow> True | V_List _ \<Rightarrow> True | V_Map _ \<Rightarrow> True | _ \<Rightarrow> False)"
  shows "case fst (find_element_by_public_id N p (fst a) g) of
      None \<Rightarrow>
        (let g' = snd (set_element_public_id N v p g)
         in fst (set_element_public_id N v p g) = Inr () \<and>
            fst (element_public_id N v g') = p \<and>
            fst (find_element_by_public_id N p (fst a) g') = Some v \<and>
            element_at g' = element_at g \<and>
            (\<forall>b w. element_at g b = Some w \<and> b \<noteq> a \<longrightarrow> fst (element_public_id N w g') = fst (element_public_id N w g)))
    | Some w \<Rightarrow> \<not> value_eq (nl_values N) w v \<longrightarrow>
        snd (set_element_public_id N v p g) = g \<and> (\<exists>e. fst (set_element_public_id N v p g) = Inl e)"
proof (cases "fst (find_element_by_public_id N p (fst a) g)")
  case None
  have v: "element_address v = Some a" by (rule element_at_address [OF assms(2)])
  have set: "set_element_public_id N v p g = (Inr (), assigned N a p g)"
    using set_public_id_unmapped [OF assms(1) v assms(4), of N] None by (simp add: taken_by_other_def)
  have h: "unmapped (assigned N a p g)" using assms(1) unmapped_assigned by simp
  have "fst (element_public_id N w (assigned N a p g)) = fst (element_public_id N w g)"
    if "element_at g b = Some w" "b \<noteq> a" for b w
    using public_id_at [OF h element_at_address [OF that(1)], of N] public_id_at [OF assms(1) element_at_address [OF that(1)], of N]
      assigned_public_id [of N a p g b] that(2) by simp
  moreover have "fst (element_public_id N v (assigned N a p g)) = p"
    using public_id_at [OF h v, of N] assigned_public_id [of N a p g a] by simp
  ultimately show ?thesis
    using None set assigned_found [OF assms(1-3) None] element_at_reads(1) [OF assigned_reads, of N a p g]
    by (simp add: Let_def) blast
next
  case (Some w)
  then show ?thesis
    using set_public_id_unmapped [OF assms(1) element_at_address [OF assms(2)] assms(4), of N]
    by (simp add: taken_by_other_def)
qed

lemma unmapped_one_node [simp]: "unmapped (one_node label)"
  by (simp add: unmapped_def one_node_def new_graph_def)

lemma addresses_one_node:
  "public_addresses N p False (one_node label) = [(False, label, eid_of_i64 0)]"
  by (simp add: public_addresses_def keyed_addresses_def one_node_def new_graph_def empty_overlay_def al_default_def sort_by_def)

lemma show_i64_0: "show_i64 0 = ''0''"
  by code_simp

lemma text_native_id: "id_text (nl_graph text_native_lib) (eid_of_i64 n) = show_i64 n"
  by (simp add: text_native_lib_def text_graph_lib_def eid_of_i64_def eid_as_i64_def)

theorem public_id_assigned_witness:
  "let n = V_Node ''P'' (eid_of_i64 0); g' = snd (set_element_public_id text_native_lib n (V_Int 7) (one_node ''P''))
   in fst (set_element_public_id text_native_lib n (V_Int 7) (one_node ''P'')) = Inr () \<and>
      fst (find_element_by_public_id text_native_lib (V_Int 7) False g') = Some n"
proof -
  let ?n = "V_Node ''P'' (eid_of_i64 0)" let ?a = "(False, ''P'', eid_of_i64 0)"
  have at: "element_at (one_node ''P'') ?a = Some ?n" by (simp add: element_at_def)
  have eq: "three_valued_eq (nl_order text_native_lib) (V_Int 7) (V_Int 7) = Some True"
    by (simp add: three_valued_eq.simps [of _ "V_Int 7"] same_typed_scalars_def eq_identified_def numeric_decimal_def decimal_eq_def
        text_native_lib_def text_order_lib_def text_lib_def)
  have id: "fst (element_public_id text_native_lib ?n (one_node ''P'')) = V_String ''P#0''"
    using public_id_at [OF unmapped_one_node element_at_address [OF at], of text_native_lib]
    by (simp add: address_public_id_def default_public_id_def text_native_id show_i64_0)
  have "three_valued_eq (nl_order text_native_lib) (V_String ''P#0'') (V_Int 7) \<noteq> Some True"
    by (simp add: three_valued_eq.simps [of _ "V_String ''P#0''"] same_typed_scalars_def eq_identified_def numeric_decimal_def)
  then have "fst (find_element_by_public_id text_native_lib (V_Int 7) False (one_node ''P'')) = None"
    using at id by (simp add: find_by_public_id_unmapped addresses_one_node List.map_filter_simps has_public_id_def)
  then show ?thesis
    using public_id_assigned [OF unmapped_one_node at eq] by (simp add: Let_def)
qed

text \<open>
  C34: \<open>assign_generated_public_id\<close> returns on an unmapped graph, for every live element whose candidate
  identities do not read as dates or intervals: some candidate is free, the loop reaches it, and the
  element then has the generated identity.
\<close>

theorem generated_id_assigned:
  assumes "unmapped g" "element_address v = Some (edge, name, i)" "\<And>n. plain_text (generated_id N name i n)"
  shows "\<exists>fuel g' n. assign_generated_public_id fuel N v g = Some (Inr (), g') \<and>
    fst (element_public_id N v g') = V_String (generated_id N name i n)"
proof -
  let ?a = "(edge, name, i)"
  obtain n where "fst (find_element_by_public_id N (V_String (generated_id N name i n)) edge g) = None"
    using some_candidate_free [OF assms(1,3)] by blast
  then have "\<not> taken_by_other N v (fst (find_element_by_public_id N (V_String (generated_id N name i (0 + n))) edge g))"
    by (simp add: taken_by_other_def)
  then obtain fuel m where m: "generated_candidate fuel N v ?a 0 g = Some (V_String (generated_id N name i m), g)"
    "\<not> taken_by_other N v (fst (find_element_by_public_id N (V_String (generated_id N name i m)) edge g))"
    using candidate_reached [OF assms(1), of N v ?a 0 n] by auto
  let ?h = "assigned N ?a (V_String (generated_id N name i m)) g"
  have h: "unmapped ?h" using assms(1) unmapped_assigned by simp
  have set: "set_element_public_id N v (V_String (generated_id N name i m)) g = (Inr (), ?h)"
    using set_public_id_unmapped [OF assms(1,2), of "V_String (generated_id N name i m)" N] m(2) by simp
  have id: "fst (element_public_id N v ?h) = V_String (generated_id N name i m)"
    using public_id_at [OF h assms(2), of N] by (simp add: assigned_public_id)
  have "fst (element_public_id N v (ensure_vertex_property N v ''id'' ?h)) = V_String (generated_id N name i m)"
    using ensured_public_id [OF h assms(2), of N N v "''id''"] id by simp
  then show ?thesis
    using m(1) set id assms(1,2) by (intro exI [of _ fuel]) (auto simp: assign_generated_public_id_def)
qed


lemma graphic_generated:
  assumes "list_all graphic s"
  shows "list_all graphic (s @ (if n = 0 then [] else ''_'' @ show_nat n))"
proof -
  have "graphic c" if "c \<in> set (show_nat n)" for c
    using show_nat_chars [OF that] by (simp add: graphic_def)
  then show ?thesis using assms by (auto simp: list_all_iff graphic_def [of "CHR ''_''"])
qed

lemma no_char_generated:
  "c \<notin> set s \<Longrightarrow> (of_char c :: nat) < 48 \<or> 57 < (of_char c :: nat) \<Longrightarrow> c \<noteq> CHR ''_'' \<Longrightarrow>
   c \<notin> set (s @ (if n = 0 then [] else ''_'' @ show_nat n))"
  using show_nat_chars [of c n] by auto

lemma split_once_absent: "c \<notin> set s \<Longrightarrow> split_once c s = None"
  by (induction s) auto

text \<open>A word without the marks of a date or a clock is plain; a clock takes any text after its fraction.\<close>

lemma word_not_temporal:
  assumes "list_all graphic w" "w \<noteq> []" "CHR ''-'' \<notin> set w" "CHR ''T'' \<notin> set w" "\<not> prefix ''dt['' w"
  shows "value_temporal_sort_key w = None"
proof -
  have "CHR '' '' \<notin> set w" using assms(1) by (auto simp: list_all_iff graphic_def)
  moreover have "trim w = w"
    using assms(1,2) by (intro trim_tight tight_graphic) (auto simp: list_all_iff)
  moreover have "strip_both ''dt['' '']'' w = None" using assms(5) by (simp add: strip_both_def)
  ultimately show ?thesis
    using assms(3,4) by (simp add: value_temporal_sort_key_def split_once_absent split_on_last)
qed

lemma word_interval:
  assumes "list_all graphic w" "w \<noteq> []"
  shows "value_interval_sort_key w = value_interval_words 0 0 0 [w] \<bind> (\<lambda>(months, days, micros).
    checked 64 (months * 30) \<bind> (\<lambda>m. checked 64 (days + m) \<bind> (\<lambda>days. Some [0, days, micros])))"
proof -
  have "trim w = w"
    using assms by (intro trim_tight tight_graphic) (auto simp: list_all_iff)
  then show ?thesis using assms by (simp add: value_interval_sort_key_def split_whitespace_last)
qed

lemma plain_word:
  assumes "list_all graphic w" "w \<noteq> []" "CHR ''-'' \<notin> set w" "CHR ''T'' \<notin> set w" "\<not> prefix ''dt['' w" "CHR '':'' \<notin> set w"
  shows "plain_text w"
proof -
  have "\<not> prefix ''-'' w" using assms(3) by (cases w) auto
  then have "value_interval_time w = None"
    using assms(6) by (simp add: value_interval_time_def split_on_last)
  then show ?thesis
    using word_not_temporal [OF assms(1-5)] word_interval [OF assms(1,2)] by (simp add: plain_text_def split: option.split)
qed

lemma clock_word_time:
  assumes "CHR '':'' \<notin> set t"
  shows "value_interval_time (''0:0:0.000001#'' @ t) = Some 1"
proof -
  have "split_on (CHR '':'') (''0:0:0.000001#'' @ t) = [''0'', ''0'', ''0.000001#'' @ t]"
    using assms by (simp add: split_on_last)
  moreover have "split_once (CHR ''.'') (''0.000001#'' @ t) = Some (''0'', ''000001#'' @ t)" by simp
  moreover have "takeWhile is_ascii_digit (''000001#'' @ t) = ''000001''" by (simp add: is_ascii_digit_def)
  then have "parse_fraction_micros (''000001#'' @ t) = parse_signed 64 ''000001''"
    by (simp add: parse_fraction_micros_def numeral_eq_Suc)
  moreover have "parse_signed 64 ''000001'' = Some 1" by code_simp
  moreover have "parse_signed 128 ''0'' = Some 0" by code_simp
  moreover have "clock_micros 0 0 0 1 1 = Some 1" by code_simp
  ultimately show ?thesis by (simp add: value_interval_time_def)
qed


lemma clock_word:
  assumes "list_all graphic t" "CHR ''-'' \<notin> set t" "CHR ''T'' \<notin> set t" "CHR '':'' \<notin> set t"
  shows "value_temporal_sort_key (''0:0:0.000001#'' @ t) = None" "value_interval_sort_key (''0:0:0.000001#'' @ t) = Some [0, 0, 1]"
proof -
  have "list_all graphic (''0:0:0.000001#'' @ t)" using assms(1) by (simp add: graphic_def list_all_iff)
  note w = this
  show "value_temporal_sort_key (''0:0:0.000001#'' @ t) = None"
    using assms(2,3) by (intro word_not_temporal w) auto
  have "checked 128 1 = Some 1" "checked 64 0 = Some 0" by code_simp+
  then show "value_interval_sort_key (''0:0:0.000001#'' @ t) = Some [0, 0, 1]"
    using word_interval [OF w] clock_word_time [OF assms(4)] by simp
qed


lemma generated_id_plain:
  "plain_text (generated_id text_native_lib ''P'' (eid_of_i64 0) n)"
proof -
  have "generated_id text_native_lib ''P'' (eid_of_i64 0) n = ''P#0'' @ (if n = 0 then [] else ''_'' @ show_nat n)"
    by (simp add: generated_id_def text_native_id show_i64_0)
  moreover have "list_all graphic (''P#0'' @ (if n = 0 then [] else ''_'' @ show_nat n))"
    by (rule graphic_generated) (simp add: graphic_def)
  moreover have "c \<notin> set (''P#0'' @ (if n = 0 then [] else ''_'' @ show_nat n))"
    if "c \<in> {CHR ''-'', CHR ''T'', CHR '':''}" for c
    using that by (intro no_char_generated) auto
  moreover have "\<not> prefix ''dt['' (''P#0'' @ (if n = 0 then [] else ''_'' @ show_nat n))" by simp
  ultimately show ?thesis by (simp only:) (rule plain_word; simp)
qed

theorem generated_id_assigned_witness:
  "\<exists>fuel g' n. assign_generated_public_id fuel text_native_lib (V_Node ''P'' (eid_of_i64 0)) (one_node ''P'') = Some (Inr (), g') \<and>
     fst (element_public_id text_native_lib (V_Node ''P'' (eid_of_i64 0)) g') =
       V_String (generated_id text_native_lib ''P'' (eid_of_i64 0) n)"
  by (rule generated_id_assigned [OF unmapped_one_node, of _ False])
    (simp_all add: element_address_def generated_id_plain)

text \<open>Text with no mark of a date or a clock.\<close>

definition unmarked :: "string \<Rightarrow> bool" where
  "unmarked t \<longleftrightarrow> list_all graphic t \<and> CHR ''-'' \<notin> set t \<and> CHR ''T'' \<notin> set t \<and> CHR '':'' \<notin> set t"

lemma unmarked_suffix: "unmarked t \<Longrightarrow> unmarked (t @ (if n = 0 then [] else ''_'' @ show_nat n))"
  unfolding unmarked_def by (intro conjI graphic_generated no_char_generated) auto

lemma three_valued_eq_strings: "three_valued_eq L (V_String s) (V_String t) = Some (text_eq s t)"
  by (simp add: three_valued_eq.simps [of L "V_String s"] same_typed_scalars_def eq_identified_def numeric_decimal_def eq_members_def)

lemma clock_ids_equal:
  assumes "unmarked s" "unmarked t"
  shows "three_valued_eq L (V_String (''0:0:0.000001#'' @ s)) (V_String (''0:0:0.000001#'' @ t)) = Some True"
  using clock_word [of s] clock_word [of t] assms unfolding three_valued_eq_strings text_eq_def unmarked_def by simp

lemma found_node:
  assumes "unmapped g" "fst (find_element_by_public_id N p False g) = Some x"
  shows "\<exists>l m. x = V_Node l m"
proof -
  have "x \<in> set (List.map_filter (element_at g) (public_addresses N p False g))"
    using assms by (auto simp: find_by_public_id_unmapped find_Some_iff)
  then obtain a where a: "a \<in> set (public_addresses N p False g)" "element_at g a = Some x"
    by (auto simp: set_map_filter)
  have "fst a = False"
    using a(1) assms(1) by (auto simp: public_addresses_def keyed_addresses_def)
  then show ?thesis using a(2) by (auto simp: element_at_def split: prod.splits if_splits)
qed

text \<open>
  The loop of \<open>assign_generated_public_id\<close> need not end.  The label below reads as an interval, and
  so does every candidate identity made from it: a clock time, whose fraction ends at the first
  character that is not a digit.  All of them are equal to the default identity of another node of the
  label, so a node of that label with an identity of its own is never given a generated one.
\<close>

theorem generated_id_never_assigned:
  assumes "unmapped g" "i \<noteq> j" "unmarked (id_text (nl_graph N) i)" "unmarked (id_text (nl_graph N) j)"
    "map_of (ov_public_ids (pg_overlay g)) (False, ''0:0:0.000001'', i) = Some (V_Int k)"
    "(False, ''0:0:0.000001'', j) \<in> set (ov_unassigned (pg_overlay g))"
    "node_is_live g ''0:0:0.000001'' j"
    "address_public_id N g (False, ''0:0:0.000001'', j) = V_String (''0:0:0.000001#'' @ id_text (nl_graph N) j)"
  shows "assign_generated_public_id fuel N (V_Node ''0:0:0.000001'' i) g = None"
proof -
  let ?label = "''0:0:0.000001''" let ?v = "V_Node ?label i" let ?w = "V_Node ?label j"
  let ?found = "\<lambda>n. fst (find_element_by_public_id N (V_String (generated_id N ?label i n)) False g)"
  have taken: "taken_by_other N ?v (?found n)" for n
  proof -
    let ?c = "V_String (generated_id N ?label i n)"
    have c: "generated_id N ?label i n = ''0:0:0.000001#'' @ (id_text (nl_graph N) i @ (if n = 0 then [] else ''_'' @ show_nat n))"
      by (simp add: generated_id_def)
    have at: "element_at g (False, ?label, j) = Some ?w" using assms(7) by (simp add: element_at_def)
    have "has_public_id N g ?c ?w"
      using public_id_at [OF assms(1) element_at_address [OF at], of N] assms(8)
        clock_ids_equal [OF assms(4) unmarked_suffix [OF assms(3)], of "nl_order N" n]
      unfolding has_public_id_def c by simp
    moreover have "(False, ?label, j) \<in> set (public_addresses N ?c False g)"
      using assms(6) by (simp add: public_addresses_def)
    then have "?w \<in> set (List.map_filter (element_at g) (public_addresses N ?c False g))"
      using at by (auto simp: set_map_filter)
    ultimately obtain x where x: "?found n = Some x"
      by (cases "?found n") (auto simp: find_by_public_id_unmapped [OF assms(1)] find_None_iff)
    then have "has_public_id N g ?c x" by (rule found_is_known(2) [OF assms(1)])
    moreover have "\<not> has_public_id N g ?c ?v"
      using public_id_at [OF assms(1), of ?v "(False, ?label, i)" N] assms(5)
      by (simp add: element_address_def address_public_id_def has_public_id_def three_valued_eq.simps [of _ "V_Int k"]
          same_typed_scalars_def eq_identified_def numeric_decimal_def)
    ultimately have "x \<noteq> ?v" by blast
    moreover have "\<exists>l m. x = V_Node l m" using found_node [OF assms(1) x] .
    ultimately show ?thesis using x by (auto simp: taken_by_other_def)
  qed
  have "generated_candidate fuel N ?v (False, ?label, i) n g = None" for n
  proof (induction fuel arbitrary: n)
    case (Suc fuel)
    then show ?case using taken [of n] by (simp add: find_by_public_id_unmapped [OF assms(1)])
  qed simp
  then show ?thesis
    using assms(1) by (simp add: assign_generated_public_id_def element_address_def)
qed


definition clock_graph :: property_graph where
  "clock_graph = new_graph\<lparr>pg_overlay := empty_overlay\<lparr>
     ov_inserted_nodes := [((''0:0:0.000001'', eid_of_i64 0), []), ((''0:0:0.000001'', eid_of_i64 1), [(''id'', V_Int 5)])],
     ov_node_counts := [(''0:0:0.000001'', 2)],
     ov_unassigned := [(False, ''0:0:0.000001'', eid_of_i64 0)],
     ov_public_ids := [((False, ''0:0:0.000001'', eid_of_i64 1), V_Int 5)],
     ov_public_lookup := [(public_id_key (nl_store text_native_lib) (V_Int 5), [(False, ''0:0:0.000001'', eid_of_i64 1)])]\<rparr>\<rparr>"

theorem generated_id_never_assigned_witness:
  "\<forall>fuel. assign_generated_public_id fuel text_native_lib (V_Node ''0:0:0.000001'' (eid_of_i64 1)) clock_graph = None"
proof
  fix fuel
  have ids: "eid_of_i64 1 \<noteq> eid_of_i64 0" by (simp add: eid_of_i64_def)
  have "show_i64 1 = ''1''" by code_simp
  then have texts: "unmarked (id_text (nl_graph text_native_lib) (eid_of_i64 1))" "unmarked (id_text (nl_graph text_native_lib) (eid_of_i64 0))"
    by (simp_all add: text_native_id show_i64_0 unmarked_def graphic_def)
  show "assign_generated_public_id fuel text_native_lib (V_Node ''0:0:0.000001'' (eid_of_i64 1)) clock_graph = None"
    by (rule generated_id_never_assigned [OF _ ids texts, of _ 5])
      (use ids in \<open>simp_all add: clock_graph_def unmapped_def new_graph_def empty_overlay_def node_is_live_def address_public_id_def
        default_public_id_def node_property_def map_property_value_def map_property_value_if_present_def only_def\<close>)
qed

end
