(* ===== verification/Row_Operators.thy ===== *)
theory Row_Operators
  imports Row_Keys Property_Records
begin

text \<open>
  The native operators on rows (\<open>src/src/ir/runtime/ops\<close>): slices, projection, selection, joins, list
  fan-out, list comprehensions, quantifiers, and the merging of equal traversers at a barrier.

  A row stands for as many logical traversers as its bulk says; \<open>expand\<close> lists them, and the operators
  are specified on that list.  The conversion of floats to \<open>u64\<close> is a field of
  \<open>row_lib\<close> beside the libraries of the evaluator and of the property records.
\<close>

record row_lib =
  rl_eval :: eval_lib
  f32_to_bound :: "f32 \<Rightarrow> u64 option"
  f64_to_bound :: "f64 \<Rightarrow> u64 option"
  rl_native :: native_lib

section \<open>Logical traversers\<close>

definition expand :: "row list \<Rightarrow> (string \<times> val) list list" where
  "expand rows = concat (map (\<lambda>r. replicate (unat (row_bulk r)) (row_bindings r)) rows)"

definition total_bulk :: "row list \<Rightarrow> nat" where
  "total_bulk rows = sum_list (map (\<lambda>r. unat (row_bulk r)) rows)"

lemma expand_simps [simp]:
  "expand [] = []"
  "expand (r # rs) = replicate (unat (row_bulk r)) (row_bindings r) @ expand rs"
  "expand (rs @ ss) = expand rs @ expand ss"
  by (simp_all add: expand_def)

lemma length_expand: "length (expand rows) = total_bulk rows"
  by (induction rows) (simp_all add: total_bulk_def)

lemma expand_rev: "expand (rev rows) = rev (expand rows)"
  by (induction rows) simp_all

section \<open>Slices\<close>

record slice =
  sl_offset :: u64
  sl_fetch :: "u64 option"
  sl_tail :: "u64 option"

fun slice_loop :: "u64 \<Rightarrow> u64 \<Rightarrow> row list \<Rightarrow> row list" where
  "slice_loop skip budget [] = []"
| "slice_loop skip budget (r # rs) =
     (if budget = 0 then []
      else if row_bulk r \<le> skip then slice_loop (skip - row_bulk r) budget rs
      else let kept = min (row_bulk r - skip) budget;
               rest = slice_loop 0 (budget - kept) rs
           in if 0 < kept then r\<lparr>row_bulk := kept\<rparr> # rest else rest)"

definition slice_bulk :: "row list \<Rightarrow> u64 \<Rightarrow> u64 option \<Rightarrow> row list" where
  "slice_bulk rows skip fetch = slice_loop skip (case fetch of None \<Rightarrow> - 1 | Some n \<Rightarrow> n) rows"

definition slice_op :: "slice \<Rightarrow> row list \<Rightarrow> row list" where
  "slice_op s rows =
     (case sl_tail s of
        Some tail \<Rightarrow> rev (slice_bulk (rev rows) 0 (Some tail))
      | None \<Rightarrow> slice_bulk rows (sl_offset s) (sl_fetch s))"

definition bound_error :: "string \<Rightarrow> string" where
  "bound_error name = name @ '' expression must evaluate to a non-negative integer''"

definition signed_bound :: "string \<Rightarrow> val \<Rightarrow> int \<Rightarrow> runtime_error + u64" where
  "signed_bound name v n =
     (if 0 \<le> n then Inr (of_int n) else Inl (RE_Type (bound_error name @ '', got '' @ type_name v)))"

definition evaluate_slice_bound :: "row_lib \<Rightarrow> property_graph \<Rightarrow> string \<Rightarrow> ir_expr \<Rightarrow> runtime_error + u64" where
  "evaluate_slice_bound R g name e =
     bind_res (eval (rl_eval R) g e row_new) (\<lambda>v.
       let got = Inl (RE_Type (bound_error name @ '', got '' @ type_name v))
       in case v of
            V_Byte n \<Rightarrow> signed_bound name v (sint n)
          | V_Short n \<Rightarrow> signed_bound name v (sint n)
          | V_Int n \<Rightarrow> signed_bound name v (sint n)
          | V_Long n \<Rightarrow> signed_bound name v (sint n)
          | V_Float x \<Rightarrow> (case f64_to_bound R x of Some n \<Rightarrow> Inr n | None \<Rightarrow> got)
          | V_Float32 x \<Rightarrow> (case f32_to_bound R x of Some n \<Rightarrow> Inr n | None \<Rightarrow> got)
          | V_BigInt n \<Rightarrow> if 0 \<le> n \<and> n < 2 ^ 64 then Inr (of_int n) else Inl (RE_Type (bound_error name))
          | V_Null \<Rightarrow> Inr (- 1)
          | _ \<Rightarrow> got)"

definition optional_bound ::
  "row_lib \<Rightarrow> property_graph \<Rightarrow> string \<Rightarrow> ir_expr option \<Rightarrow> runtime_error + u64 option" where
  "optional_bound R g name e =
     (case e of None \<Rightarrow> Inr None | Some e \<Rightarrow> bind_res (evaluate_slice_bound R g name e) (\<lambda>n. Inr (Some n)))"

definition slice_expr_op ::
  "row_lib \<Rightarrow> property_graph \<Rightarrow> ir_expr option \<Rightarrow> ir_expr option \<Rightarrow> row list \<Rightarrow> runtime_error + row list" where
  "slice_expr_op R g offset fetch rows =
     bind_res (optional_bound R g ''SKIP'' offset) (\<lambda>offset.
     bind_res (optional_bound R g ''LIMIT'' fetch) (\<lambda>fetch.
       Inr (slice_op \<lparr>sl_offset = (case offset of None \<Rightarrow> 0 | Some n \<Rightarrow> n), sl_fetch = fetch, sl_tail = None\<rparr> rows)))"

section \<open>Projection, selection and joins\<close>

datatype project_mode = PJ_PreserveVisible | PJ_ReplaceScope | PJ_ReplaceCurrent

fun project_items ::
  "(ir_expr \<Rightarrow> runtime_error + val) \<Rightarrow> (string \<times> ir_expr) list \<Rightarrow> (string \<times> val) list \<Rightarrow> runtime_error + (string \<times> val) list" where
  "project_items f [] projected = Inr projected"
| "project_items f ((alias, e) # items) projected =
     bind_res (f e) (\<lambda>v. project_items f items (bt_insert alias v projected))"

definition project_row ::
  "row_lib \<Rightarrow> property_graph \<Rightarrow> project_mode \<Rightarrow> (string \<times> ir_expr) list \<Rightarrow> row \<Rightarrow> runtime_error + row" where
  "project_row R g mode items r =
     bind_res (project_items (\<lambda>e. eval (rl_eval R) g e r) items []) (\<lambda>projected.
       Inr (if mode = PJ_ReplaceScope then r\<lparr>row_bindings := projected\<rparr>
            else r\<lparr>row_bindings := fold (\<lambda>p. bt_insert (fst p) (snd p)) projected (row_bindings r)\<rparr>))"

definition project_op ::
  "row_lib \<Rightarrow> property_graph \<Rightarrow> project_mode \<Rightarrow> (string \<times> ir_expr) list \<Rightarrow> row list \<Rightarrow> runtime_error + row list" where
  "project_op R g mode items rows = collect (project_row R g mode items) rows"

text \<open>The value that \<open>current_project_op\<close> reads from a map directly, if the expression is such a read.\<close>

definition direct_property :: "ir_expr \<Rightarrow> row \<Rightarrow> (val \<times> string) option" where
  "direct_property e r =
     (case e of
        E_Property binding name policy \<Rightarrow>
          if policy = PM_DropUnproductive
          then map_option (\<lambda>owner. (owner, name)) (map_of (row_bindings r) binding)
          else None
      | _ \<Rightarrow> None)"

definition direct_map_value :: "(val \<times> string) option \<Rightarrow> val option" where
  "direct_map_value d =
     (case d of
        Some (V_Map m, name) \<Rightarrow> Some (case map_of m name of Some v \<Rightarrow> v | None \<Rightarrow> V_Null)
      | Some (V_TypedMap entries, name) \<Rightarrow>
          Some (case find (\<lambda>p. fst p = V_String name) entries of Some p \<Rightarrow> snd p | None \<Rightarrow> V_Null)
      | _ \<Rightarrow> None)"

text \<open>
  Listing the properties of the owner may hydrate it and create its records, so the operator threads the
  graph through the rows.
\<close>

definition productive_null :: "row_lib \<Rightarrow> (val \<times> string) option \<Rightarrow> property_graph \<Rightarrow> bool \<times> property_graph" where
  "productive_null R direct g =
     (case direct of
        None \<Rightarrow> (False, g)
      | Some (owner, name) \<Rightarrow> let (vs, g) = properties (rl_native R) owner [name] g in (vs \<noteq> [], g))"

definition current_project_row ::
  "row_lib \<Rightarrow> ir_expr \<Rightarrow> row \<Rightarrow> property_graph \<Rightarrow> (runtime_error + row list) \<times> property_graph" where
  "current_project_row R e r g =
     (let direct = direct_property e r;
          from_map = direct_map_value direct
      in case (case from_map of Some v \<Rightarrow> Inr v | None \<Rightarrow> eval (rl_eval R) g e r) of
           Inl err \<Rightarrow> (Inl err, g)
         | Inr v \<Rightarrow>
             let (kept, g) = (if v = V_Null \<and> from_map = None then productive_null R direct g else (True, g))
             in (Inr (if kept then [row_bind ''current'' v r] else []), g))"

fun current_project_op ::
  "row_lib \<Rightarrow> ir_expr \<Rightarrow> row list \<Rightarrow> property_graph \<Rightarrow> (runtime_error + row list) \<times> property_graph" where
  "current_project_op R e [] g = (Inr [], g)"
| "current_project_op R e (r # rows) g =
     (case current_project_row R e r g of
        (Inl err, g) \<Rightarrow> (Inl err, g)
      | (Inr out, g) \<Rightarrow>
          (case current_project_op R e rows g of
             (Inl err, g) \<Rightarrow> (Inl err, g)
           | (Inr outs, g) \<Rightarrow> (Inr (out @ outs), g)))"

definition select_row :: "string list \<Rightarrow> string list \<Rightarrow> row \<Rightarrow> row" where
  "select_row labels outputs r =
     r\<lparr>row_bindings := fold (\<lambda>(label, output) m.
         case map_of (row_bindings r) label of Some v \<Rightarrow> bt_insert output v m | None \<Rightarrow> m) (zip labels outputs) []\<rparr>"

definition select_op :: "string list \<Rightarrow> string list \<Rightarrow> row list \<Rightarrow> row list" where
  "select_op labels outputs rows = map (select_row labels outputs) rows"

definition combine_rows :: "row \<Rightarrow> row \<Rightarrow> row" where
  "combine_rows l r = l\<lparr>row_bindings := fold (\<lambda>p. bt_or_insert (fst p) (snd p)) (row_bindings r) (row_bindings l)\<rparr>"

definition join_pair ::
  "row_lib \<Rightarrow> property_graph \<Rightarrow> ir_expr option \<Rightarrow> row \<times> row \<Rightarrow> runtime_error + row list" where
  "join_pair R g condition p =
     (let combined = combine_rows (fst p) (snd p)
      in case condition of
           None \<Rightarrow> Inr [combined]
         | Some e \<Rightarrow>
             bind_res (eval (rl_eval R) g e combined) (\<lambda>v. Inr (if v = V_Bool True then [combined] else [])))"

definition join_op ::
  "row_lib \<Rightarrow> property_graph \<Rightarrow> row list \<Rightarrow> row list \<Rightarrow> ir_expr option \<Rightarrow> runtime_error + row list" where
  "join_op R g left right condition =
     bind_res (collect (join_pair R g condition) (List.product left right)) (\<lambda>rss. Inr (concat rss))"

section \<open>Lists of a row\<close>

definition append_rows :: "row \<Rightarrow> string \<Rightarrow> val list \<Rightarrow> row list" where
  "append_rows r target vs = map (\<lambda>v. row_bind target v r) vs"

definition entry_map :: "val \<Rightarrow> val \<Rightarrow> val" where
  "entry_map k v = V_Map [(''key'', k), (''value'', v)]"

definition unwind_values :: "bool \<Rightarrow> val \<Rightarrow> val list" where
  "unwind_values outer v =
     (let members = (\<lambda>items. if items = [] \<and> outer then [V_Null] else items)
      in case v of
           V_List items \<Rightarrow> members items
         | V_BulkSet items \<Rightarrow> members items
         | V_Set items \<Rightarrow> members items
         | V_TypedMap entries \<Rightarrow> map (\<lambda>p. entry_map (fst p) (snd p)) entries
         | V_Map m \<Rightarrow> map (\<lambda>p. entry_map (V_String (fst p)) (snd p)) m
         | V_Null \<Rightarrow> if outer then [V_Null] else []
         | _ \<Rightarrow> [v])"

definition unwind_row ::
  "row_lib \<Rightarrow> property_graph \<Rightarrow> ir_expr \<Rightarrow> string \<Rightarrow> bool \<Rightarrow> row \<Rightarrow> runtime_error + row list" where
  "unwind_row R g e target outer r =
     bind_res (eval (rl_eval R) g e r) (\<lambda>v.
       Inr (append_rows (r\<lparr>row_bindings := bt_remove target (row_bindings r)\<rparr>) target (unwind_values outer v)))"

definition unwind_op ::
  "row_lib \<Rightarrow> property_graph \<Rightarrow> ir_expr \<Rightarrow> string \<Rightarrow> bool \<Rightarrow> row list \<Rightarrow> runtime_error + row list" where
  "unwind_op R g e target outer rows =
     bind_res (collect (unwind_row R g e target outer) rows) (\<lambda>rss. Inr (concat rss))"

fun comprehension_items ::
  "(val \<Rightarrow> runtime_error + val) option \<Rightarrow> (val \<Rightarrow> runtime_error + val) option \<Rightarrow> val list \<Rightarrow> runtime_error + val list" where
  "comprehension_items test body [] = Inr []"
| "comprehension_items test body (v # vs) =
     bind_res (case test of None \<Rightarrow> Inr (V_Bool True) | Some t \<Rightarrow> t v) (\<lambda>keep.
       if keep \<noteq> V_Bool True then comprehension_items test body vs
       else bind_res (case body of None \<Rightarrow> Inr v | Some b \<Rightarrow> b v) (\<lambda>mapped.
            bind_res (comprehension_items test body vs) (\<lambda>rest. Inr (mapped # rest))))"

definition list_comprehension_row ::
  "row_lib \<Rightarrow> property_graph \<Rightarrow> ir_expr \<Rightarrow> string \<Rightarrow> ir_expr option \<Rightarrow> ir_expr option \<Rightarrow> string \<Rightarrow> row
   \<Rightarrow> runtime_error + row" where
  "list_comprehension_row R g input item condition body alias r =
     bind_res (eval (rl_eval R) g input r) (\<lambda>source.
       if source = V_Null then Inr (row_bind alias V_Null r)
       else let items = (case source of V_List items \<Rightarrow> items | _ \<Rightarrow> [source]);
                at = (\<lambda>e v. eval (rl_eval R) g e (row_bind item v r))
            in bind_res (comprehension_items (map_option at condition) (map_option at body) items)
                 (\<lambda>collected. Inr (row_bind alias (V_List collected) r)))"

definition list_comprehension_op ::
  "row_lib \<Rightarrow> property_graph \<Rightarrow> ir_expr \<Rightarrow> string \<Rightarrow> ir_expr option \<Rightarrow> ir_expr option \<Rightarrow> string \<Rightarrow> row list
   \<Rightarrow> runtime_error + row list" where
  "list_comprehension_op R g input item condition body alias rows =
     collect (list_comprehension_row R g input item condition body alias) rows"

definition quantifier_op ::
  "row_lib \<Rightarrow> property_graph \<Rightarrow> quantifier_kind \<Rightarrow> string \<Rightarrow> ir_expr \<Rightarrow> ir_expr \<Rightarrow> string \<Rightarrow> row list
   \<Rightarrow> runtime_error + row list" where
  "quantifier_op R g kind item input predicate output rows =
     collect (\<lambda>r. bind_res (quantifier_value (rl_eval R) g kind item input predicate r)
       (\<lambda>v. Inr (row_bind output v r))) rows"


section \<open>Barriers\<close>

text \<open>\<open>partition_rows\<close>: the rows of each key in order, the keys in the order they first occur.\<close>

fun push_group :: "'k \<Rightarrow> 'a \<Rightarrow> ('k \<times> 'a list) list \<Rightarrow> ('k \<times> 'a list) list" where
  "push_group k r [] = [(k, [r])]"
| "push_group k r ((k', rs) # groups) =
     (if k = k' then (k', rs @ [r]) # groups else (k', rs) # push_group k r groups)"

definition partition_key :: "value_lib \<Rightarrow> string list \<Rightarrow> row \<Rightarrow> bytes" where
  "partition_key L keys r = encode_key L (map (row_get r) keys)"

definition partition_rows :: "value_lib \<Rightarrow> string list \<Rightarrow> row list \<Rightarrow> row list list" where
  "partition_rows L keys rows =
     map snd (fold (\<lambda>r. push_group (partition_key L keys r) r) rows [])"

definition bulk_overflow :: runtime_error where
  "bulk_overflow = RE_ExecutionLimit ''traverser bulk overflow''"

definition add_bulk :: "row \<Rightarrow> u64 \<Rightarrow> runtime_error + row" where
  "add_bulk r n =
     (if unat (row_bulk r) + unat n < 2 ^ 64 then Inr (r\<lparr>row_bulk := row_bulk r + n\<rparr>) else Inl bulk_overflow)"

text \<open>\<open>merge_equal_traversers\<close>: the bulk of a later row is added to the first row of its signature.\<close>

fun merge_into :: "bytes \<Rightarrow> row \<Rightarrow> (bytes \<times> row) list \<Rightarrow> runtime_error + (bytes \<times> row) list" where
  "merge_into k r [] = Inr [(k, r)]"
| "merge_into k r ((k', s) # acc) =
     (if k = k' then bind_res (add_bulk s (row_bulk r)) (\<lambda>s'. Inr ((k', s') # acc))
      else bind_res (merge_into k r acc) (\<lambda>acc'. Inr ((k', s) # acc')))"

fun merge_loop :: "value_lib \<Rightarrow> (bytes \<times> row) list \<Rightarrow> row list \<Rightarrow> runtime_error + (bytes \<times> row) list" where
  "merge_loop L acc [] = Inr acc"
| "merge_loop L acc (r # rs) = bind_res (merge_into (row_signature L r) r acc) (\<lambda>acc'. merge_loop L acc' rs)"

definition merge_equal_traversers :: "value_lib \<Rightarrow> row list \<Rightarrow> runtime_error + row list" where
  "merge_equal_traversers L rows = bind_res (merge_loop L [] rows) (\<lambda>acc. Inr (map snd acc))"

definition history_prefix :: string where
  "history_prefix = ''__gremlin_select_history_''"

definition compact_gremlin_row :: "row \<Rightarrow> row" where
  "compact_gremlin_row r =
     (let labels = map (drop (length history_prefix)) (filter (prefix history_prefix) (map fst (row_bindings r)));
          keep_path = (map_of (row_bindings r) ''__gremlin_bulk_safe'' \<noteq> Some (V_Bool True));
          on_edge = (case map_of (row_bindings r) ''current'' of Some (V_Edge _ _ _ _ _ _ _) \<Rightarrow> True | _ \<Rightarrow> False)
      in r\<lparr>row_bindings := filter (\<lambda>p. let key = fst p in
           key = ''current'' \<or> key \<in> set labels \<or>
           (prefix ''__'' key \<and> (keep_path \<or> (key \<noteq> ''__path'' \<and> key \<noteq> ''__path_labels'')) \<and>
            (on_edge \<or> key \<noteq> ''__edge_other''))) (row_bindings r)\<rparr>)"

definition compact_repeat_frontier :: "value_lib \<Rightarrow> row list \<Rightarrow> runtime_error + row list" where
  "compact_repeat_frontier L rows =
     (case rows of
        [] \<Rightarrow> Inr rows
      | r # _ \<Rightarrow>
          if map_of (row_bindings r) ''__gremlin_bulk_safe'' \<noteq> Some (V_Bool True) \<or>
             map_of (row_bindings r) ''__bulk_enabled'' = Some (V_Bool False) \<or>
             map_of (row_bindings r) ''__sack'' \<noteq> None
          then Inr rows
          else merge_equal_traversers L (map compact_gremlin_row rows))"

definition sack_apply :: "row_lib \<Rightarrow> property_graph \<Rightarrow> val \<Rightarrow> val \<Rightarrow> string \<Rightarrow> runtime_error + val" where
  "sack_apply R g a b op = ev_call (rl_eval R) g ''sack_apply'' [a, b, V_String op]"

definition bulk_disabled :: "row \<Rightarrow> bool" where
  "bulk_disabled r \<longleftrightarrow> map_of (row_bindings r) ''__bulk_enabled'' = Some (V_Bool False)"

definition merge_operator :: "row \<Rightarrow> string option" where
  "merge_operator r = (case map_of (row_bindings r) ''__sack_merge'' of Some (V_String op) \<Rightarrow> Some op | _ \<Rightarrow> None)"

definition barrier_merge :: "row_lib \<Rightarrow> property_graph \<Rightarrow> row \<Rightarrow> row \<Rightarrow> runtime_error + row" where
  "barrier_merge R g r previous =
     bind_res (case (map_of (row_bindings r) ''__sack'', merge_operator r) of
         (Some sack, Some op) \<Rightarrow>
           bind_res (sack_apply R g (row_get previous ''__sack'') sack op) (\<lambda>v. Inr (row_bind ''__sack'' v previous))
       | _ \<Rightarrow> Inr previous) (\<lambda>previous.
     if bulk_disabled r then Inr previous else add_bulk previous (row_bulk r))"

text \<open>Rows that may not be bulked have no key.\<close>

fun barrier_into ::
  "row_lib \<Rightarrow> property_graph \<Rightarrow> bytes \<Rightarrow> row \<Rightarrow> (bytes option \<times> row) list \<Rightarrow> runtime_error + (bytes option \<times> row) list" where
  "barrier_into R g k r [] = Inr [(Some k, r)]"
| "barrier_into R g k r ((k', s) # acc) =
     (if k' = Some k then bind_res (barrier_merge R g r s) (\<lambda>s'. Inr ((k', s') # acc))
      else bind_res (barrier_into R g k r acc) (\<lambda>acc'. Inr ((k', s) # acc')))"

definition barrier_step ::
  "row_lib \<Rightarrow> property_graph \<Rightarrow> (bytes option \<times> row) list \<Rightarrow> row \<Rightarrow> runtime_error + (bytes option \<times> row) list" where
  "barrier_step R g acc r0 =
     (let r = compact_gremlin_row r0
      in if merge_operator r = None \<and> (map_of (row_bindings r) ''__sack'' \<noteq> None \<or> bulk_disabled r)
         then Inr (acc @ [(None, r)])
         else let key_row = (if merge_operator r \<noteq> None then r\<lparr>row_bindings := bt_remove ''__sack'' (row_bindings r)\<rparr> else r)
              in barrier_into R g (row_signature (values_of (ev_order (rl_eval R))) key_row) r acc)"

fun barrier_loop ::
  "row_lib \<Rightarrow> property_graph \<Rightarrow> (bytes option \<times> row) list \<Rightarrow> row list \<Rightarrow> runtime_error + (bytes option \<times> row) list" where
  "barrier_loop R g acc [] = Inr acc"
| "barrier_loop R g acc (r # rs) = bind_res (barrier_step R g acc r) (\<lambda>acc'. barrier_loop R g acc' rs)"

definition weighted_sack :: "row_lib \<Rightarrow> property_graph \<Rightarrow> row \<Rightarrow> runtime_error + val" where
  "weighted_sack R g r = sack_apply R g (row_get r ''__sack'') (V_Long (row_bulk r)) ''mult''"

fun sack_total :: "row_lib \<Rightarrow> property_graph \<Rightarrow> val \<Rightarrow> row list \<Rightarrow> runtime_error + val" where
  "sack_total R g acc [] = Inr acc"
| "sack_total R g acc (r # rs) =
     bind_res (weighted_sack R g r) (\<lambda>w. bind_res (sack_apply R g acc w ''sum'') (\<lambda>acc'. sack_total R g acc' rs))"

definition gremlin_barrier :: "row_lib \<Rightarrow> property_graph \<Rightarrow> row list \<Rightarrow> bool \<Rightarrow> runtime_error + row list" where
  "gremlin_barrier R g rows normalized =
     bind_res (barrier_loop R g [] rows) (\<lambda>acc.
       let out = map snd acc
       in if \<not> normalized then Inr out
          else bind_res (sack_total R g (V_Float 0) out) (\<lambda>sum.
            collect (\<lambda>r. bind_res (weighted_sack R g r) (\<lambda>w.
              bind_res (sack_apply R g w sum ''div'') (\<lambda>v. Inr (row_bind ''__sack'' v r)))) out))"


section \<open>Slices select logical traversers\<close>

lemma drop_replicate_append: "drop s (replicate n x @ ys) = replicate (n - s) x @ drop (s - n) ys"
  by simp

lemma take_replicate_append: "take s (replicate n x @ ys) = replicate (min s n) x @ take (s - n) ys"
  by simp

lemma expand_slice_loop:
  "expand (slice_loop skip budget rows) = take (unat budget) (drop (unat skip) (expand rows))"
proof (induction skip budget rows rule: slice_loop.induct)
  case (2 skip budget r rs)
  show ?case
  proof (cases "budget = 0")
    case False
    note budget = this
    show ?thesis
    proof (cases "row_bulk r \<le> skip")
      case True
      then have "unat (row_bulk r) \<le> unat skip" "unat (skip - row_bulk r) = unat skip - unat (row_bulk r)"
        by (simp_all add: word_le_nat_alt unat_sub)
      then show ?thesis
        using budget True "2.IH"(1) by simp
    next
      case False
      define kept where "kept = min (row_bulk r - skip) budget"
      have skip: "unat skip < unat (row_bulk r)" "unat (row_bulk r - skip) = unat (row_bulk r) - unat skip"
        using False by (simp_all add: word_le_nat_alt unat_sub not_le)
      have kept: "unat kept = min (unat (row_bulk r) - unat skip) (unat budget)"
        using skip by (simp add: kept_def min_def word_le_nat_alt)
      have rest: "unat (budget - kept) = unat budget - unat kept"
        by (rule unat_sub) (simp add: kept_def)
      have pos: "0 < kept"
        using skip budget by (simp add: word_less_nat_alt kept unat_gt_0)
      have IH: "expand (slice_loop 0 (budget - kept) rs) = take (unat budget - unat kept) (expand rs)"
        using "2.IH"(2) [OF budget False kept_def] rest by simp
      have eq: "slice_loop skip budget (r # rs) = r\<lparr>row_bulk := kept\<rparr> # slice_loop 0 (budget - kept) rs"
        using budget False pos by (simp add: Let_def flip: kept_def)
      show ?thesis
        unfolding eq using skip(1) by (simp add: IH kept min_def)
    qed
  qed simp
qed simp

lemma expand_slice_bulk:
  "expand (slice_bulk rows skip fetch) =
     take (case fetch of None \<Rightarrow> 2 ^ 64 - 1 | Some n \<Rightarrow> unat n) (drop (unat skip) (expand rows))"
proof -
  have "unat (- 1 :: u64) = 2 ^ 64 - 1"
    by (simp add: unsigned_minus_1_eq_mask mask_eq_exp_minus_1)
  then show ?thesis
    by (cases fetch) (simp_all add: slice_bulk_def expand_slice_loop)
qed

section \<open>Merging keeps the traversers of every signature\<close>

definition bulk_of :: "(row \<Rightarrow> 'k) \<Rightarrow> 'k \<Rightarrow> row list \<Rightarrow> nat" where
  "bulk_of sig k rows = total_bulk (filter (\<lambda>r. sig r = k) rows)"

definition merged_row :: "(row \<Rightarrow> 'k) \<Rightarrow> row list \<Rightarrow> row \<Rightarrow> row" where
  "merged_row sig rows r = r\<lparr>row_bulk := of_nat (bulk_of sig (sig r) rows)\<rparr>"

definition merged :: "(row \<Rightarrow> 'k) \<Rightarrow> row list \<Rightarrow> row list" where
  "merged sig rows = map (merged_row sig rows) (keep_first sig {} rows)"

lemma bulk_of_append: "bulk_of sig k (xs @ ys) = bulk_of sig k xs + bulk_of sig k ys"
  by (simp add: bulk_of_def total_bulk_def)

lemma bulk_of_single: "bulk_of sig k [r] = (if sig r = k then unat (row_bulk r) else 0)"
  by (simp add: bulk_of_def total_bulk_def)

lemma keep_first_snoc:
  "keep_first k seen (xs @ [x]) = keep_first k seen xs @ (if k x \<in> seen \<union> k ` set xs then [] else [x])"
  by (induction xs arbitrary: seen) auto

lemma bulk_of_absent: "k \<notin> sig ` set rows \<Longrightarrow> bulk_of sig k rows = 0"
  by (induction rows) (auto simp: bulk_of_def total_bulk_def)

text \<open>The accumulator of the loop after a prefix of the rows.\<close>

definition tagged :: "(row \<Rightarrow> 'k) \<Rightarrow> row list \<Rightarrow> ('k \<times> row) list" where
  "tagged sig rows = map (\<lambda>r. (sig r, merged_row sig rows r)) (keep_first sig {} rows)"

lemma merge_into_absent: "k \<notin> fst ` set acc \<Longrightarrow> merge_into k r acc = Inr (acc @ [(k, r)])"
  by (induction acc) auto

lemma merge_into_present:
  assumes "distinct (map fst acc)" "(k, s) \<in> set acc"
  shows "merge_into k r acc =
    (if unat (row_bulk s) + unat (row_bulk r) < 2 ^ 64
     then Inr (map (\<lambda>p. if fst p = k then (k, s\<lparr>row_bulk := row_bulk s + row_bulk r\<rparr>) else p) acc)
     else Inl bulk_overflow)"
  using assms
proof (induction acc)
  case (Cons p acc)
  show ?case
  proof (cases "fst p = k")
    case True
    then have "p = (k, s)" "k \<notin> fst ` set acc"
      using Cons.prems by (auto simp: image_iff)
    moreover have "map (\<lambda>p. if fst p = k then (k, s\<lparr>row_bulk := row_bulk s + row_bulk r\<rparr>) else p) acc = acc"
      using \<open>k \<notin> fst ` set acc\<close> by (intro map_idI) auto
    ultimately show ?thesis by (simp add: add_bulk_def)
  next
    case False
    then obtain k' s' where p: "p = (k', s')" "k' \<noteq> k" by (cases p) auto
    then show ?thesis using Cons by auto
  qed
qed simp

lemma distinct_tagged: "distinct (map fst (tagged sig rows))"
  using keep_first_distinct [of sig "{}" rows] by (simp add: tagged_def comp_def)

lemma fst_tagged: "fst ` set (tagged sig rows) = sig ` set rows"
  by (simp add: tagged_def image_image keep_first_keys)

lemma merged_row_other: "sig r \<noteq> sig s \<Longrightarrow> merged_row sig (pre @ [r]) s = merged_row sig pre s"
  by (simp add: merged_row_def bulk_of_append bulk_of_single)

lemma merge_into_tagged:
  assumes "\<forall>k. bulk_of sig k pre < 2 ^ 64"
  shows "merge_into (sig r) r (tagged sig pre) =
    (if bulk_of sig (sig r) (pre @ [r]) < 2 ^ 64 then Inr (tagged sig (pre @ [r])) else Inl bulk_overflow)"
proof (cases "sig r \<in> sig ` set pre")
  case False
  have others: "merged_row sig (pre @ [r]) s = merged_row sig pre s" if "s \<in> set (keep_first sig {} pre)" for s
    using that False keep_first_subset [of sig "{}" pre] by (intro merged_row_other) auto
  have "tagged sig (pre @ [r]) = tagged sig pre @ [(sig r, r)]"
    using False others bulk_of_absent [OF False]
    by (simp add: tagged_def keep_first_snoc merged_row_def bulk_of_append bulk_of_single)
  moreover have "bulk_of sig (sig r) (pre @ [r]) < 2 ^ 64"
    using bulk_of_absent [OF False] unsigned_less [of "row_bulk r"] by (simp add: bulk_of_append bulk_of_single)
  ultimately show ?thesis
    using False by (simp add: merge_into_absent fst_tagged)
next
  case True
  then obtain s where s: "s \<in> set (keep_first sig {} pre)" "sig s = sig r"
    using keep_first_keys [of sig "{}" pre] by (metis (no_types, lifting) Diff_empty imageE)
  let ?s = "merged_row sig pre s"
  have mem: "(sig r, ?s) \<in> set (tagged sig pre)"
    unfolding tagged_def set_map by (rule image_eqI [of _ _ s]) (use s in simp_all)
  have bulk: "unat (row_bulk ?s) = bulk_of sig (sig r) pre"
    using assms s(2) by (simp add: merged_row_def unat_of_nat)
  have total: "bulk_of sig (sig r) (pre @ [r]) = bulk_of sig (sig r) pre + unat (row_bulk r)"
    by (simp add: bulk_of_append bulk_of_single)
  have "t = s" if "t \<in> set (keep_first sig {} pre)" "sig t = sig r" for t
    using that s keep_first_distinct [of sig "{}" pre] by (auto simp: distinct_map inj_on_def)
  then have step: "(if sig t = sig r then (sig r, ?s\<lparr>row_bulk := row_bulk ?s + row_bulk r\<rparr>) else (sig t, merged_row sig pre t)) =
      (sig t, merged_row sig (pre @ [r]) t)" if "t \<in> set (keep_first sig {} pre)" for t
    using that by (auto simp: merged_row_def bulk_of_append bulk_of_single)
  have "map (\<lambda>p. if fst p = sig r then (sig r, ?s\<lparr>row_bulk := row_bulk ?s + row_bulk r\<rparr>) else p) (tagged sig pre) =
      tagged sig (pre @ [r])"
    using True step by (simp add: tagged_def keep_first_snoc comp_def cong: map_cong)
  then show ?thesis
    unfolding merge_into_present [OF distinct_tagged mem] bulk total by simp
qed

lemma merge_loop_tagged:
  assumes "\<forall>k. bulk_of (row_signature L) k pre < 2 ^ 64"
  shows "merge_loop L (tagged (row_signature L) pre) rows =
    (if \<forall>k. bulk_of (row_signature L) k (pre @ rows) < 2 ^ 64 then Inr (tagged (row_signature L) (pre @ rows))
     else Inl bulk_overflow)"
  using assms
proof (induction rows arbitrary: pre)
  case (Cons r rows)
  let ?sig = "row_signature L"
  note step = merge_into_tagged [OF Cons.prems, of r]
  show ?case
  proof (cases "bulk_of ?sig (?sig r) (pre @ [r]) < 2 ^ 64")
    case True
    have "bulk_of ?sig k (pre @ [r]) < 2 ^ 64" for k
      using True Cons.prems by (cases "k = ?sig r") (auto simp: bulk_of_append bulk_of_single)
    then show ?thesis
      using Cons.IH [of "pre @ [r]"] step True by simp
  next
    case False
    then have "\<not> bulk_of ?sig (?sig r) (pre @ r # rows) < 2 ^ 64"
      using bulk_of_append [of ?sig "?sig r" "pre @ [r]" rows] by simp
    then show ?thesis
      using step False by auto
  qed
qed simp

lemma merge_equal_traversers_eq:
  "merge_equal_traversers L rows =
    (if \<forall>k. bulk_of (row_signature L) k rows < 2 ^ 64 then Inr (merged (row_signature L) rows) else Inl bulk_overflow)"
proof -
  have "tagged (row_signature L) [] = []" "\<forall>k. bulk_of (row_signature L) k [] < 2 ^ 64"
    by (simp_all add: tagged_def bulk_of_def total_bulk_def)
  then show ?thesis
    using merge_loop_tagged [of L "[]" rows]
    by (simp add: merge_equal_traversers_def merged_def tagged_def comp_def)
qed

lemma slice_loop_positive: "r \<in> set (slice_loop skip budget rows) \<Longrightarrow> 0 < row_bulk r"
  by (induction skip budget rows rule: slice_loop.induct) (auto simp: Let_def split: if_splits)

lemma expand_empty: "\<forall>r \<in> set rows. 0 < row_bulk r \<Longrightarrow> expand rows = [] \<Longrightarrow> rows = []"
  by (cases rows) (auto simp: word_less_nat_alt)

lemma evaluate_null_bound: "evaluate_slice_bound R g name (E_Lit Lit_Null) = Inr (- 1)"
  by (simp add: evaluate_slice_bound_def lit_value_def)


section \<open>Bulking is transparent\<close>

text \<open>
  A row-local operator treats each row by itself and copies its bulk: its interface is a function from
  a row to the rows it becomes.  Such an operator does the same to a row of bulk \<open>n\<close> as to \<open>n\<close> rows of
  bulk 1.
\<close>

definition with_bulk :: "u64 \<Rightarrow> row \<Rightarrow> row" where
  "with_bulk n r = r\<lparr>row_bulk := n\<rparr>"

definition unbulk :: "row list \<Rightarrow> row list" where
  "unbulk rows = map (\<lambda>b. \<lparr>row_bindings = b, row_bulk = 1\<rparr>) (expand rows)"

definition flat_collect :: "(row \<Rightarrow> runtime_error + row list) \<Rightarrow> row list \<Rightarrow> runtime_error + row list" where
  "flat_collect f rows = bind_res (collect f rows) (\<lambda>rss. Inr (concat rss))"

definition same_traversers :: "runtime_error + row list \<Rightarrow> runtime_error + row list \<Rightarrow> bool" where
  "same_traversers a b =
     (case (a, b) of
        (Inl e, Inl e') \<Rightarrow> e = e'
      | (Inr xs, Inr ys) \<Rightarrow> mset (expand xs) = mset (expand ys)
      | _ \<Rightarrow> False)"

definition rows_ok :: "row list \<Rightarrow> bool" where
  "rows_ok rows \<longleftrightarrow> (\<forall>r \<in> set rows. row_ok r \<and> 0 < row_bulk r)"

lemma unbulk_simps [simp]:
  "unbulk [] = []"
  "unbulk (r # rs) = replicate (unat (row_bulk r)) (with_bulk 1 r) @ unbulk rs"
  by (simp_all add: unbulk_def map_replicate with_bulk_def)

lemma flat_collect_append:
  "flat_collect f (xs @ ys) = bind_res (flat_collect f xs) (\<lambda>as. bind_res (flat_collect f ys) (\<lambda>bs. Inr (as @ bs)))"
proof (induction xs)
  case Nil
  then show ?case by (cases "flat_collect f ys") (simp_all add: flat_collect_def)
next
  case (Cons x xs)
  then show ?case
    by (cases "f x"; cases "collect f xs"; cases "collect f ys"; cases "collect f (xs @ ys)")
      (auto simp: flat_collect_def)
qed

lemma flat_collect_Cons:
  "flat_collect f (x # xs) = bind_res (f x) (\<lambda>as. bind_res (flat_collect f xs) (\<lambda>bs. Inr (as @ bs)))"
  by (cases "f x"; cases "collect f xs") (simp_all add: flat_collect_def)

lemma flat_collect_replicate:
  "f x = Inr us \<Longrightarrow> flat_collect f (replicate n x) = Inr (concat (replicate n us))"
proof (induction n)
  case 0
  then show ?case by (simp add: flat_collect_def)
next
  case (Suc n)
  then show ?case by (simp add: flat_collect_Cons)
qed

lemma flat_collect_replicate_error:
  "f x = Inl e \<Longrightarrow> 0 < n \<Longrightarrow> flat_collect f (replicate n x) = Inl e"
  by (cases n) (simp_all add: flat_collect_Cons)

lemma expand_with_bulk:
  "mset (expand (map (with_bulk n) us)) = repeat_mset (unat n) (mset (map row_bindings us))"
  by (induction us) (simp_all add: with_bulk_def)

lemma expand_units:
  "(\<forall>u \<in> set us. row_bulk u = 1) \<Longrightarrow> expand us = map row_bindings us"
  by (induction us) simp_all

lemma mset_concat_replicate: "mset (concat (replicate n xs)) = repeat_mset n (mset xs)"
  by (induction n) simp_all

locale row_local =
  fixes f :: "row \<Rightarrow> runtime_error + row list"
  assumes bulk_copied: "row_ok r \<Longrightarrow>
    f r = bind_res (f (with_bulk 1 r)) (\<lambda>us. Inr (map (with_bulk (row_bulk r)) us))"
begin

lemma unit_row:
  assumes "row_ok r" "f (with_bulk 1 r) = Inr us"
  shows "\<forall>u \<in> set us. row_bulk u = 1"
proof -
  have "row_ok (with_bulk 1 r)"
    using assms(1) by (simp add: row_ok_def with_bulk_def)
  from bulk_copied [OF this] have "us = map (with_bulk 1) us"
    using assms(2) by (simp add: with_bulk_def)
  then show ?thesis
    by (metis (no_types, lifting) ex_map_conv row.select_convs(2) row.surjective row.update_convs(2) with_bulk_def)
qed

lemma transparent:
  assumes "rows_ok rows"
  shows "same_traversers (flat_collect f rows) (flat_collect f (unbulk rows))"
  using assms
proof (induction rows)
  case Nil
  then show ?case by (simp add: same_traversers_def flat_collect_def)
next
  case (Cons r rows)
  then have r: "row_ok r" "0 < unat (row_bulk r)" and IH: "same_traversers (flat_collect f rows) (flat_collect f (unbulk rows))"
    by (auto simp: rows_ok_def word_less_nat_alt)
  show ?case
  proof (cases "f (with_bulk 1 r)")
    case (Inl e)
    then show ?thesis
      using bulk_copied [OF r(1)] flat_collect_replicate_error [of f "with_bulk 1 r", OF Inl r(2)]
      by (simp add: same_traversers_def flat_collect_Cons flat_collect_append)
  next
    case (Inr us)
    have "expand (concat (replicate n us)) = concat (replicate n (map row_bindings us))" for n
      using expand_units [OF unit_row [OF r(1) Inr]] by (induction n) simp_all
    then have "mset (expand (map (with_bulk (row_bulk r)) us)) = mset (expand (concat (replicate (unat (row_bulk r)) us)))"
      by (simp only: expand_with_bulk mset_concat_replicate)
    then show ?thesis
      using IH bulk_copied [OF r(1)] Inr flat_collect_replicate [of f "with_bulk 1 r", OF Inr, of "unat (row_bulk r)"]
      by (auto simp: same_traversers_def flat_collect_Cons flat_collect_append split: sum.splits)
  qed
qed

end


lemma with_bulk_simps [simp]:
  "row_bindings (with_bulk n r) = row_bindings r" "row_bulk (with_bulk n r) = n"
  "with_bulk n (with_bulk m r) = with_bulk n r" "with_bulk (row_bulk r) r = r"
  "row_get (with_bulk n r) = row_get r" "row_ok (with_bulk n r) = row_ok r"
  "row_bind k v (with_bulk n r) = with_bulk n (row_bind k v r)"
  "row_bulk (row_bind k v r) = row_bulk r"
  "(with_bulk n r)\<lparr>row_bindings := b\<rparr> = with_bulk n (r\<lparr>row_bindings := b\<rparr>)"
  by (simp_all add: with_bulk_def row_get_def row_ok_def row_bind_def fun_eq_iff)

lemma with_bulk_bind: "with_bulk (row_bulk r) (row_bind k v r) = row_bind k v r"
    "with_bulk (row_bulk r) (row_bind k v (r\<lparr>row_bindings := b\<rparr>)) = row_bind k v (r\<lparr>row_bindings := b\<rparr>)"
  by (simp_all add: with_bulk_def row_bind_def)

lemma eval_with_bulk [simp]: "row_ok r \<Longrightarrow> eval L g e (with_bulk n r) = eval L g e r"
  by (rule eval_agree) (simp add: agree_def)

lemma singleton_collect: "collect f rows = flat_collect (\<lambda>r. bind_res (f r) (\<lambda>s. Inr [s])) rows"
proof (induction rows)
  case (Cons r rows)
  then show ?case by (cases "f r"; cases "collect f rows") (simp_all add: flat_collect_Cons)
qed (simp add: flat_collect_def)

lemma join_flat:
  "join_op R g left right condition =
     flat_collect (\<lambda>l. bind_res (collect (join_pair R g condition) (map (Pair l) right)) (\<lambda>rss. Inr (concat rss))) left"
proof (induction left)
  case (Cons l left)
  have app: "collect h (xs @ ys) = bind_res (collect h xs) (\<lambda>as. bind_res (collect h ys) (\<lambda>bs. Inr (as @ bs)))"
    for h :: "row \<times> row \<Rightarrow> runtime_error + row list" and xs ys
  proof (induction xs)
    case Nil
    then show ?case by (cases "collect h ys") simp_all
  next
    case (Cons x xs)
    then show ?case by (cases "h x"; cases "collect h xs"; cases "collect h ys") simp_all
  qed
  show ?case
    unfolding flat_collect_Cons Cons [symmetric]
    by (cases "collect (join_pair R g condition) (map (Pair l) right)";
        cases "collect (join_pair R g condition) (List.product left right)")
      (simp_all add: join_op_def app)
qed (simp add: join_op_def flat_collect_def)

interpretation projection: row_local "\<lambda>r. bind_res (project_row R g mode items r) (\<lambda>s. Inr [s])" for R g mode items
proof
  fix r :: row
  assume "row_ok r"
  then have "(\<lambda>e. eval (rl_eval R) g e (with_bulk 1 r)) = (\<lambda>e. eval (rl_eval R) g e r)"
    by (simp add: fun_eq_iff)
  then show "bind_res (project_row R g mode items r) (\<lambda>s. Inr [s]) =
      bind_res (bind_res (project_row R g mode items (with_bulk 1 r)) (\<lambda>s. Inr [s]))
        (\<lambda>us. Inr (map (with_bulk (row_bulk r)) us))"
    by (cases "project_items (\<lambda>e. eval (rl_eval R) g e r) items []")
      (simp_all add: project_row_def with_bulk_def)
qed

interpretation selection: row_local "\<lambda>r. Inr [select_row labels outputs r]" for labels outputs
  by unfold_locales (simp add: select_row_def with_bulk_def)

interpretation unwinding: row_local "unwind_row R g e x outer" for R g e x outer
proof
  fix r :: row
  assume "row_ok r"
  then show "unwind_row R g e x outer r =
      bind_res (unwind_row R g e x outer (with_bulk 1 r)) (\<lambda>us. Inr (map (with_bulk (row_bulk r)) us))"
    by (cases "eval (rl_eval R) g e r")
      (simp_all add: unwind_row_def append_rows_def comp_def with_bulk_bind)
qed

interpretation comprehension: row_local
    "\<lambda>r. bind_res (list_comprehension_row R g input item condition body target r) (\<lambda>s. Inr [s])"
  for R g input item condition body target
proof
  fix r :: row
  assume ok: "row_ok r"
  have "(\<lambda>e v. eval (rl_eval R) g e (row_bind item v (with_bulk 1 r))) = (\<lambda>e v. eval (rl_eval R) g e (row_bind item v r))"
    using ok by (simp add: fun_eq_iff)
  with ok show "bind_res (list_comprehension_row R g input item condition body target r) (\<lambda>s. Inr [s]) =
      bind_res (bind_res (list_comprehension_row R g input item condition body target (with_bulk 1 r)) (\<lambda>s. Inr [s]))
        (\<lambda>us. Inr (map (with_bulk (row_bulk r)) us))"
    by (simp add: list_comprehension_row_def Let_def bind_res_def with_bulk_bind split: sum.split)
qed

interpretation quantification: row_local
    "\<lambda>r. bind_res (bind_res (quantifier_value (rl_eval R) g kind item input predicate r) (\<lambda>v. Inr (row_bind target v r))) (\<lambda>s. Inr [s])"
  for R g kind item input predicate target
proof
  fix r :: row
  assume ok: "row_ok r"
  have "quantifier_value (rl_eval R) g kind item input predicate (with_bulk 1 r) =
      quantifier_value (rl_eval R) g kind item input predicate r"
    using ok by (simp add: quantifier_value_def)
  then show "bind_res (bind_res (quantifier_value (rl_eval R) g kind item input predicate r) (\<lambda>v. Inr (row_bind target v r))) (\<lambda>s. Inr [s]) =
      bind_res (bind_res (bind_res (quantifier_value (rl_eval R) g kind item input predicate (with_bulk 1 r))
        (\<lambda>v. Inr (row_bind target v (with_bulk 1 r)))) (\<lambda>s. Inr [s])) (\<lambda>us. Inr (map (with_bulk (row_bulk r)) us))"
    by (simp add: bind_res_def with_bulk_bind split: sum.split)
qed

lemma row_ok_combine: "row_ok l \<Longrightarrow> row_ok (combine_rows l r)"
proof -
  have "bt_ordered m \<Longrightarrow> bt_ordered (fold (\<lambda>p. bt_or_insert (fst p) (snd p)) es m)" for es m
    by (induction es arbitrary: m) (auto simp: bt_or_insert_def bt_ordered_insert split: option.split)
  then show "row_ok l \<Longrightarrow> row_ok (combine_rows l r)"
    by (simp add: row_ok_def combine_rows_def)
qed

interpretation joining: row_local
    "\<lambda>l. bind_res (collect (join_pair R g condition) (map (Pair l) right)) (\<lambda>rss. Inr (concat rss))"
  for R g condition right
proof
  fix l :: row
  assume ok: "row_ok l"
  have one: "join_pair R g condition (l, r) =
      bind_res (join_pair R g condition (with_bulk 1 l, r)) (\<lambda>us. Inr (map (with_bulk (row_bulk l)) us))" for r
  proof -
    have c: "combine_rows (with_bulk 1 l) r = with_bulk 1 (combine_rows l r)"
      and b: "with_bulk (row_bulk l) (combine_rows l r) = combine_rows l r"
      by (simp_all add: combine_rows_def with_bulk_def)
    show ?thesis
      using row_ok_combine [OF ok, of r]
      by (simp add: join_pair_def Let_def bind_res_def c b split: option.split sum.split)
  qed
  have "bind_res (collect (join_pair R g condition) (map (Pair l) rs)) (\<lambda>rss. Inr (concat rss)) =
      bind_res (bind_res (collect (join_pair R g condition) (map (Pair (with_bulk 1 l)) rs)) (\<lambda>rss. Inr (concat rss)))
        (\<lambda>us. Inr (map (with_bulk (row_bulk l)) us))" for rs
  proof (induction rs)
    case (Cons r rs)
    then show ?case
      using one [of r]
      by (cases "join_pair R g condition (with_bulk 1 l, r)";
          cases "collect (join_pair R g condition) (map (Pair (with_bulk 1 l)) rs)";
          cases "collect (join_pair R g condition) (map (Pair l) rs)") auto
  qed simp
  then show "bind_res (collect (join_pair R g condition) (map (Pair l) right)) (\<lambda>rss. Inr (concat rss)) =
      bind_res (bind_res (collect (join_pair R g condition) (map (Pair (with_bulk 1 l)) right)) (\<lambda>rss. Inr (concat rss)))
        (\<lambda>us. Inr (map (with_bulk (row_bulk l)) us))" .
qed


section \<open>Properties\<close>

text \<open>
  C12: slicing rows slices the logical traversers they stand for: a tail keeps the last ones, an offset
  and a fetch bound skip and then take, where rows at either end are split by their bulk.
\<close>

theorem slice_selects_traversers:
  "expand (slice_op s rows) =
     (case sl_tail s of
        Some n \<Rightarrow> drop (length (expand rows) - unat n) (expand rows)
      | None \<Rightarrow>
          take (case sl_fetch s of None \<Rightarrow> 2 ^ 64 - 1 | Some n \<Rightarrow> unat n) (drop (unat (sl_offset s)) (expand rows)))"
  by (cases "sl_tail s") (simp_all add: slice_op_def expand_slice_bulk expand_rev rev_take)

text \<open>
  \<open>SKIP NULL\<close> drops every row and \<open>LIMIT NULL\<close> drops none, of fewer than \<open>2^64\<close> traversers: both
  bounds read null as the greatest \<open>u64\<close>.  The comment in the code says that both are no-ops.
\<close>

theorem null_bounds:
  assumes "total_bulk rows < 2 ^ 64"
  shows "slice_expr_op R g (Some (E_Lit Lit_Null)) None rows = Inr [] \<and>
    (\<exists>out. slice_expr_op R g None (Some (E_Lit Lit_Null)) rows = Inr out \<and> expand out = expand rows)"
proof -
  have max: "unat (- 1 :: u64) = 2 ^ 64 - 1"
    by (simp add: unsigned_minus_1_eq_mask mask_eq_exp_minus_1)
  have len: "length (expand rows) \<le> 2 ^ 64 - 1"
    using assms by (simp add: length_expand)
  have "expand (slice_bulk rows (- 1) None) = []"
    using len by (simp add: expand_slice_bulk max)
  then have "slice_bulk rows (- 1) None = []"
    by (rule expand_empty [rotated]) (auto simp: slice_bulk_def dest: slice_loop_positive)
  moreover have "expand (slice_bulk rows 0 (Some (- 1))) = expand rows"
    using len by (simp add: expand_slice_bulk max)
  ultimately show ?thesis
    by (simp add: slice_expr_op_def optional_bound_def evaluate_null_bound slice_op_def)
qed

definition plain_row_lib :: row_lib where
  "plain_row_lib = \<lparr>rl_eval = plain_eval_lib, f32_to_bound = (\<lambda>_. None), f64_to_bound = (\<lambda>_. None),
     rl_native = text_native_lib\<rparr>"

theorem null_bounds_witness:
  "slice_expr_op plain_row_lib new_graph (Some (E_Lit Lit_Null)) None [row_new, row_new] = Inr []"
  using null_bounds [of "[row_new, row_new]" plain_row_lib new_graph] by (simp add: total_bulk_def row_new_def)



text \<open>
  Merging equal traversers keeps the first row of each signature, in order, with the bulks of all
  rows of that signature added up; it fails exactly when one of these sums does not fit a \<open>u64\<close>.
\<close>

theorem merging_adds_bulks:
  "merge_equal_traversers L rows =
    (if \<forall>k. bulk_of (row_signature L) k rows < 2 ^ 64 then Inr (merged (row_signature L) rows) else Inl bulk_overflow)"
  by (rule merge_equal_traversers_eq)

section \<open>Property projection\<close>

text \<open>A vertex has a property when it has a record of it or a value, which may be null.\<close>

definition has_record :: "row_lib \<Rightarrow> property_graph \<Rightarrow> string \<Rightarrow> val \<Rightarrow> bool" where
  "has_record R g key v =
     (case v of V_Node label i \<Rightarrow> listed_records (rl_native R) (label, i) key g \<noteq> [] | _ \<Rightarrow> False)"

lemma same_read_fields:
  assumes "read_fields (pg_overlay h) = read_fields (pg_overlay g)" "base_of h = base_of g"
  shows "node_property G h label i = node_property G g label i" "node_is_live h label i = node_is_live g label i"
  by (rule node_reads_cong [OF assms(2)]; simp add: views_read_fields [OF assms(1)])+

lemma listing_one_key:
  assumes "pg_source g = None" "node_is_live g label i" "\<not> prefix ''__'' key" "key \<noteq> ''id''"
  shows "properties N (V_Node label i) [key] g =
    (map (record_property (V_Node label i) key) (listed_records N (label, i) key g), ensure_vertex_property N (V_Node label i) key g)"
  using assms by (simp add: properties_def properties_inner_def node_key_listed_def ensure_records)

lemma listing_keeps_reads:
  assumes "pg_source g = None"
  shows "node_property G (ensure_vertex_property N (V_Node label i) key g) = node_property G g"
    "node_is_live (ensure_vertex_property N (V_Node label i) key g) = node_is_live g"
  using assms by (auto intro!: ext simp: same_read_fields [of "ensure_vertex_property N (V_Node label i) key g" g])

lemma listing_keeps_presence:
  assumes "pg_source g = None"
  shows "has_record R (ensure_vertex_property (rl_native R) (V_Node label i) key g) key v = has_record R g key v"
proof (cases "\<exists>l j. v = V_Node l j")
  case True
  then obtain l j where v: "v = V_Node l j" by blast
  show ?thesis
    using assms v
    by (simp add: has_record_def listed_records_def ensure_records listing_keeps_reads Let_def split: option.split)
qed (simp add: has_record_def split: val.split)

lemma current_project_node:
  assumes "pg_source g = None" "\<not> prefix ''__'' key" "key \<noteq> ''id''" "\<not> reserved_property key"
    and "row_get r b = V_Node label i" "node_is_live g label i"
  shows "\<exists>h. current_project_row R (E_Property b key PM_DropUnproductive) r g =
      (Inr (if property_value (rl_eval R) g (row_get r b) key = V_Null \<and> \<not> has_record R g key (row_get r b) then []
            else [row_bind ''current'' (property_value (rl_eval R) g (row_get r b) key) r]), h) \<and>
      (h = g \<or> h = ensure_vertex_property (rl_native R) (V_Node label i) key g)"
proof -
  have "map_of (row_bindings r) b = Some (V_Node label i)"
    using assms(5) by (simp add: row_get_def split: option.splits)
  then show ?thesis
    using assms
    by (simp add: current_project_row_def direct_property_def direct_map_value_def eval_property_def productive_null_def
        listing_one_key has_record_def)
qed

text \<open>
  C32: projecting a property of vertices keeps, in order, the rows whose vertex has the property, with its
  value; a property that is present with a null value keeps its row and a missing one drops it.  The
  records that the projection creates change no property read.
\<close>

theorem projection_keeps_present:
  assumes "pg_source g = None" "\<not> prefix ''__'' key" "key \<noteq> ''id''" "\<not> reserved_property key"
    and "\<And>r. r \<in> set rows \<Longrightarrow> \<exists>label i. row_get r b = V_Node label i \<and> node_is_live g label i"
  shows "fst (current_project_op R (E_Property b key PM_DropUnproductive) rows g) =
      Inr (map (\<lambda>r. row_bind ''current'' (property_value (rl_eval R) g (row_get r b) key) r)
        (filter (\<lambda>r. property_value (rl_eval R) g (row_get r b) key \<noteq> V_Null \<or> has_record R g key (row_get r b)) rows)) \<and>
    node_property G (snd (current_project_op R (E_Property b key PM_DropUnproductive) rows g)) = node_property G g"
  using assms
proof (induction rows arbitrary: g)
  case (Cons r rows)
  obtain label i where r: "row_get r b = V_Node label i" "node_is_live g label i"
    using Cons.prems(5) by force
  obtain h where h: "current_project_row R (E_Property b key PM_DropUnproductive) r g =
      (Inr (if property_value (rl_eval R) g (row_get r b) key = V_Null \<and> \<not> has_record R g key (row_get r b) then []
            else [row_bind ''current'' (property_value (rl_eval R) g (row_get r b) key) r]), h)"
      "h = g \<or> h = ensure_vertex_property (rl_native R) (V_Node label i) key g"
    using current_project_node [OF Cons.prems(1-4) r] by blast
  have same: "pg_source h = None" "node_property G h = node_property G g" "node_is_live h = node_is_live g"
    "has_record R h key v = has_record R g key v" for G v
    using h(2) Cons.prems(1) by (auto simp: listing_keeps_reads listing_keeps_presence)
  have read_same: "property_value (rl_eval R) h (row_get s b) key = property_value (rl_eval R) g (row_get s b) key"
    if "s \<in> set rows" for s
    using Cons.prems(5) [of s] that Cons.prems(4) same(2) by (auto simp: property_value_def)
  have "fst (current_project_op R (E_Property b key PM_DropUnproductive) rows h) =
      Inr (map (\<lambda>r. row_bind ''current'' (property_value (rl_eval R) h (row_get r b) key) r)
        (filter (\<lambda>r. property_value (rl_eval R) h (row_get r b) key \<noteq> V_Null \<or> has_record R h key (row_get r b)) rows)) \<and>
    node_property G (snd (current_project_op R (E_Property b key PM_DropUnproductive) rows h)) = node_property G h"
    by (rule Cons.IH) (use Cons.prems same in auto)
  moreover have "map (\<lambda>r. row_bind ''current'' (property_value (rl_eval R) h (row_get r b) key) r)
        (filter (\<lambda>r. property_value (rl_eval R) h (row_get r b) key \<noteq> V_Null \<or> has_record R h key (row_get r b)) rows) =
      map (\<lambda>r. row_bind ''current'' (property_value (rl_eval R) g (row_get r b) key) r)
        (filter (\<lambda>r. property_value (rl_eval R) g (row_get r b) key \<noteq> V_Null \<or> has_record R g key (row_get r b)) rows)"
    using read_same same(4) by (auto intro!: map_cong filter_cong)
  ultimately show ?case
    using h(1) same(2) by (cases "current_project_op R (E_Property b key PM_DropUnproductive) rows h") auto
qed simp

theorem projection_keeps_present_witness:
  "fst (current_project_op plain_row_lib (E_Property ''x'' ''name'' PM_DropUnproductive)
     [row_bind ''x'' (V_Node ''P'' (eid_of_i64 0)) row_new] (one_node ''P'')) = Inr []"
  using projection_keeps_present [of "one_node ''P''" "''name''" "[row_bind ''x'' (V_Node ''P'' (eid_of_i64 0)) row_new]" "''x''" plain_row_lib]
  by (simp add: row_get_def row_bind_def row_new_def reserved_property_def has_record_def listed_records_def property_value_def)

end
