(* ===== verification/Value_Order.thy ===== *)
theory Value_Order
  imports Row_Operators
begin

text \<open>
  The total orders that sorting uses (\<open>src/src/ir/runtime/expr/compare.rs\<close>,
  \<open>src/src/ir/runtime/scalar/cypher/order.rs\<close>, \<open>src/src/ir/gremlin_semantics.rs\<close>) and the operators
  that sort: \<open>ORDER BY\<close>, ordered collection and the barrier (\<open>src/src/ir/runtime/ops/sort.rs\<close>,
  \<open>collect.rs\<close>, \<open>barrier.rs\<close>).

  The order of Arrow types, the decoding of dictionary scalars, the rounding of \<open>f64\<close> to \<open>f32\<close> and the
  decimal spelling of a float are the fields of \<open>sort_lib\<close> beside the library of the row operators.
  \<open>slice::sort_by\<close> is the stable sort with \<open>cmp \<noteq> Greater\<close>; it is specified for total orders only.
\<close>

record sort_lib =
  st_rows :: row_lib
  data_type_cmp :: "scalar_value \<Rightarrow> scalar_value \<Rightarrow> ordering"
  transport_other :: "scalar_value \<Rightarrow> val option"
  f64_to_f32 :: "f64 \<Rightarrow> f32"
  spelled_decimal :: "f64 \<Rightarrow> decimal option"

abbreviation st_eval :: "sort_lib \<Rightarrow> eval_lib" where
  "st_eval S \<equiv> rl_eval (st_rows S)"

abbreviation st_order :: "sort_lib \<Rightarrow> order_lib" where
  "st_order S \<equiv> ev_order (st_eval S)"

abbreviation st_arith :: "sort_lib \<Rightarrow> arith_lib" where
  "st_arith S \<equiv> ev_arith (st_eval S)"

abbreviation st_values :: "sort_lib \<Rightarrow> value_lib" where
  "st_values S \<equiv> values_of (st_order S)"

section \<open>Sorting with a comparison\<close>

definition sort_cmp :: "('a \<Rightarrow> 'a \<Rightarrow> ordering) \<Rightarrow> 'a list \<Rightarrow> 'a list" where
  "sort_cmp c xs = sort_by (\<lambda>a b. c a b \<noteq> Greater) xs"

lemma set_sort_cmp [simp]: "set (sort_cmp c xs) = set xs"
  by (simp add: sort_cmp_def)

lemma sort_cmp_Nil [simp]: "sort_cmp c [] = []"
  by (simp add: sort_cmp_def)

lemma sort_cmp_Cons: "sort_cmp c (x # xs) = insert_by (\<lambda>a b. c a b \<noteq> Greater) x (sort_cmp c xs)"
  by (simp add: sort_cmp_def sort_by_def)

lemma insert_by_cong:
  "(\<And>y. y \<in> set ys \<Longrightarrow> p x y = q x y) \<Longrightarrow> insert_by p x ys = insert_by q x ys"
  by (induction ys) auto

lemma sort_cmp_cong [fundef_cong]:
  assumes "xs = ys" "\<And>x y. x \<in> set ys \<Longrightarrow> y \<in> set ys \<Longrightarrow> c x y = d x y"
  shows "sort_cmp c xs = sort_cmp d ys"
proof -
  have "sort_cmp c ys = sort_cmp d ys"
    using assms(2)
  proof (induction ys)
    case (Cons y ys)
    then have ih: "sort_cmp c ys = sort_cmp d ys" by simp
    show ?case
      unfolding sort_cmp_Cons ih by (rule insert_by_cong) (use Cons.prems in auto)
  qed simp
  with assms(1) show ?thesis by simp
qed

text \<open>The stable sort by a key of a linear order is the sort of the library.\<close>

lemma sort_cmp_sort_key:
  assumes "\<And>x y. x \<in> set xs \<Longrightarrow> y \<in> set xs \<Longrightarrow> c x y = cmp (f x) (f y)"
  shows "sort_cmp c xs = sort_key f xs"
  using assms
proof (induction xs)
  case (Cons x xs)
  then have "sort_cmp c xs = sort_key f xs" by simp
  moreover have "insert_by (\<lambda>a b. c a b \<noteq> Greater) x ys = insort_key f x ys" if "set ys \<subseteq> set xs" for ys
    using that Cons.prems by (induction ys) (auto simp: not_less)
  ultimately show ?case by (simp add: sort_cmp_Cons)
qed simp


section \<open>The order of values\<close>

definition orderability_tag :: "val \<Rightarrow> nat" where
  "orderability_tag v =
     (case v of
        V_Scalar _ \<Rightarrow> 18
      | V_Null \<Rightarrow> 0
      | V_Bool _ \<Rightarrow> 1
      | V_Byte _ \<Rightarrow> 2 | V_UInt8 _ \<Rightarrow> 2 | V_Short _ \<Rightarrow> 2 | V_UInt16 _ \<Rightarrow> 2 | V_Int _ \<Rightarrow> 2 | V_UInt32 _ \<Rightarrow> 2
      | V_Long _ \<Rightarrow> 2 | V_UInt64 _ \<Rightarrow> 2 | V_Float32 _ \<Rightarrow> 2 | V_Float _ \<Rightarrow> 2 | V_BigInt _ \<Rightarrow> 2 | V_UInt128 _ \<Rightarrow> 2
      | V_BigDecimal _ _ \<Rightarrow> 2
      | V_Temporal _ \<Rightarrow> 12
      | V_DateTime _ \<Rightarrow> 3
      | V_InternalId _ _ \<Rightarrow> 4
      | V_String _ \<Rightarrow> 5
      | V_List _ \<Rightarrow> 6
      | V_Map _ \<Rightarrow> 7 | V_TypedMap _ \<Rightarrow> 7
      | V_Token _ \<Rightarrow> 11
      | V_Direction _ \<Rightarrow> 12
      | V_BulkSet _ \<Rightarrow> 13
      | V_Set _ \<Rightarrow> 15
      | V_MapEntry _ _ \<Rightarrow> 14
      | V_CardinalityValue _ _ \<Rightarrow> 18
      | V_VertexProperty _ _ _ _ \<Rightarrow> 16
      | V_Property _ _ _ \<Rightarrow> 17
      | V_Node _ _ \<Rightarrow> 8
      | V_Edge _ _ _ _ _ _ _ \<Rightarrow> 9
      | V_Path _ \<Rightarrow> 10)"

text \<open>The same comparison of texts as the one of \<open>binary.rs\<close>.\<close>

definition temporal_value_ordering :: "val \<Rightarrow> val \<Rightarrow> ordering option" where
  "temporal_value_ordering a b = temporal_cmp a b"

definition f64_is_finite :: "f64 \<Rightarrow> bool" where
  "f64_is_finite x \<longleftrightarrow> x AND 0x7FFFFFFFFFFFFFFF < 0x7FF0000000000000"

definition non_finite_rank :: "sort_lib \<Rightarrow> val \<Rightarrow> nat option" where
  "non_finite_rank S v =
     (let rank = (\<lambda>x. if f64_is_finite x then None
                      else if x = 0xFFF0000000000000 then Some 0
                      else if x = 0x7FF0000000000000 then Some 2
                      else Some 3)
      in case v of
           V_Float32 x \<Rightarrow> rank (f_of_f32 (st_arith S) x)
         | V_Float x \<Rightarrow> rank x
         | _ \<Rightarrow> None)"

definition compare_numeric_values :: "sort_lib \<Rightarrow> val \<Rightarrow> val \<Rightarrow> ordering" where
  "compare_numeric_values S a b =
     (case (non_finite_rank S a, non_finite_rank S b) of
        (Some x, Some y) \<Rightarrow> cmp x y
      | (Some x, None) \<Rightarrow> if x = 0 then Less else Greater
      | (None, Some y) \<Rightarrow> if y = 0 then Greater else Less
      | (None, None) \<Rightarrow>
          (case (numeric_decimal (st_order S) a, numeric_decimal (st_order S) b) of
             (Some x, Some y) \<Rightarrow> decimal_cmp (st_order S) x y
           | _ \<Rightarrow> Equal))"

text \<open>The containers, with the comparison \<open>f\<close> of their members as an argument.\<close>

fun compare_slices :: "('a \<Rightarrow> 'a \<Rightarrow> ordering) \<Rightarrow> 'a list \<Rightarrow> 'a list \<Rightarrow> ordering" where
  "compare_slices f (x # xs) (y # ys) = (if f x y \<noteq> Equal then f x y else compare_slices f xs ys)"
| "compare_slices f xs ys = cmp (length xs) (length ys)"

definition is_field :: "string \<times> val \<Rightarrow> bool" where
  "is_field p \<longleftrightarrow> fst p \<noteq> STRUCT_ORDER_KEY \<and> fst p \<noteq> STRUCT_TYPES_KEY"

definition ordered_map_keys :: "(string \<times> val) list \<Rightarrow> string list" where
  "ordered_map_keys m =
     (case map_field_order m of
        Some keys \<Rightarrow> if keys \<noteq> [] then keys else map fst (filter is_field m)
      | None \<Rightarrow> map fst (filter is_field m))"

fun compare_fields ::
  "(val \<Rightarrow> val \<Rightarrow> ordering) \<Rightarrow> (string \<times> val) list \<Rightarrow> (string \<times> val) list \<Rightarrow> string list \<Rightarrow> string list \<Rightarrow> ordering" where
  "compare_fields f a b (ak # aks) (bk # bks) =
     (if ak \<noteq> bk then cmp ak bk
      else case map_of a ak of
        None \<Rightarrow> Less
      | Some av \<Rightarrow>
          (case map_of b bk of
             None \<Rightarrow> Greater
           | Some bv \<Rightarrow> if f av bv \<noteq> Equal then f av bv else compare_fields f a b aks bks))"
| "compare_fields f a b aks bks = cmp (length aks) (length bks)"

definition compare_maps ::
  "(val \<Rightarrow> val \<Rightarrow> ordering) \<Rightarrow> (string \<times> val) list \<Rightarrow> (string \<times> val) list \<Rightarrow> ordering" where
  "compare_maps f a b = compare_fields f a b (ordered_map_keys a) (ordered_map_keys b)"

definition map_entries :: "(string \<times> val) list \<Rightarrow> (val \<times> val) list" where
  "map_entries m = map (\<lambda>p. (V_String (fst p), snd p)) (filter is_field m)"

definition item_cmp :: "(val \<Rightarrow> val \<Rightarrow> ordering) \<Rightarrow> (val \<Rightarrow> bytes) \<Rightarrow> val \<Rightarrow> val \<Rightarrow> ordering" where
  "item_cmp f key a b = then_with (f a b) (cmp (key a) (key b))"

definition entry_cmp ::
  "(val \<Rightarrow> val \<Rightarrow> ordering) \<Rightarrow> (val \<Rightarrow> bytes) \<Rightarrow> val \<times> val \<Rightarrow> val \<times> val \<Rightarrow> ordering" where
  "entry_cmp f key a b = then_with (item_cmp f key (fst a) (fst b)) (f (snd a) (snd b))"

definition compare_items :: "(val \<Rightarrow> val \<Rightarrow> ordering) \<Rightarrow> (val \<Rightarrow> bytes) \<Rightarrow> val list \<Rightarrow> val list \<Rightarrow> ordering" where
  "compare_items f key x y =
     compare_slices (item_cmp f key) (sort_cmp (item_cmp f key) x) (sort_cmp (item_cmp f key) y)"

definition compare_typed_maps ::
  "(val \<Rightarrow> val \<Rightarrow> ordering) \<Rightarrow> (val \<Rightarrow> bytes) \<Rightarrow> (val \<times> val) list \<Rightarrow> (val \<times> val) list \<Rightarrow> ordering" where
  "compare_typed_maps f key x y =
     compare_slices (entry_cmp f key) (sort_cmp (entry_cmp f key) x) (sort_cmp (entry_cmp f key) y)"

text \<open>\<open>None\<close> is a pair that is not a pair of containers.\<close>

definition compare_containers :: "value_lib \<Rightarrow> (val \<Rightarrow> val \<Rightarrow> ordering) \<Rightarrow> val \<Rightarrow> val \<Rightarrow> ordering option" where
  "compare_containers L f a b =
     (case a of
        V_List x \<Rightarrow> (case b of V_List y \<Rightarrow> Some (compare_slices f x y) | _ \<Rightarrow> None)
      | V_Path x \<Rightarrow> (case b of V_Path y \<Rightarrow> Some (compare_slices f x y) | _ \<Rightarrow> None)
      | V_BulkSet x \<Rightarrow> (case b of V_BulkSet y \<Rightarrow> Some (compare_items f (runtime_encode_value L) x y) | _ \<Rightarrow> None)
      | V_Set x \<Rightarrow> (case b of V_Set y \<Rightarrow> Some (compare_items f (set_member_key L) x y) | _ \<Rightarrow> None)
      | V_Property _ k x \<Rightarrow> (case b of V_Property _ l y \<Rightarrow> Some (then_with (cmp k l) (f x y)) | _ \<Rightarrow> None)
      | V_MapEntry k x \<Rightarrow> (case b of V_MapEntry l y \<Rightarrow> Some (then_with (f k l) (f x y)) | _ \<Rightarrow> None)
      | V_Map x \<Rightarrow>
          (case b of
             V_Map y \<Rightarrow> Some (compare_maps f x y)
           | V_TypedMap y \<Rightarrow> Some (compare_typed_maps f (runtime_encode_value L) (map_entries x) y)
           | _ \<Rightarrow> None)
      | V_TypedMap x \<Rightarrow>
          (case b of
             V_TypedMap y \<Rightarrow> Some (compare_typed_maps f (runtime_encode_value L) x y)
           | V_Map y \<Rightarrow> Some (compare_typed_maps f (runtime_encode_value L) x (map_entries y))
           | _ \<Rightarrow> None)
      | _ \<Rightarrow> None)"

definition id_cmp :: "graph_lib \<Rightarrow> element_id \<Rightarrow> element_id \<Rightarrow> ordering" where
  "id_cmp G i j = (if id_le G i j then if id_le G j i then Equal else Less else Greater)"

definition compare_atoms :: "sort_lib \<Rightarrow> val \<Rightarrow> val \<Rightarrow> ordering" where
  "compare_atoms S a b =
     (let G = ev_graph (st_eval S) in
      case a of
        V_Scalar x \<Rightarrow>
          (case b of
             V_Scalar y \<Rightarrow> then_with (data_type_cmp S x y)
               (case scalar_partial_cmp (st_order S) x y of Some c \<Rightarrow> c | None \<Rightarrow> Equal)
           | _ \<Rightarrow> Equal)
      | V_Temporal x \<Rightarrow>
          (case b of
             V_Temporal y \<Rightarrow>
               (case temporal_compare (st_order S) x y of
                  Some c \<Rightarrow> c
                | None \<Rightarrow> then_with (cmp (temporal_kind x) (temporal_kind y))
                    (cmp (temporal_encode (st_values S) x) (temporal_encode (st_values S) y)))
           | _ \<Rightarrow> Equal)
      | V_String x \<Rightarrow>
          (case b of
             V_String y \<Rightarrow> (case blob_string_ordering x y of Some c \<Rightarrow> c | None \<Rightarrow> cmp x y)
           | _ \<Rightarrow> Equal)
      | V_DateTime x \<Rightarrow> (case b of V_DateTime y \<Rightarrow> cmp x y | _ \<Rightarrow> Equal)
      | V_Token x \<Rightarrow> (case b of V_Token y \<Rightarrow> cmp x y | _ \<Rightarrow> Equal)
      | V_Direction x \<Rightarrow> (case b of V_Direction y \<Rightarrow> cmp x y | _ \<Rightarrow> Equal)
      | V_InternalId t i \<Rightarrow>
          (case b of
             V_InternalId u j \<Rightarrow> then_with (cmp (sint t) (sint u)) (cmp (sint i) (sint j))
           | _ \<Rightarrow> Equal)
      | V_Bool x \<Rightarrow> (case b of V_Bool y \<Rightarrow> cmp x y | _ \<Rightarrow> Equal)
      | V_VertexProperty i _ _ _ \<Rightarrow> (case b of V_VertexProperty j _ _ _ \<Rightarrow> cmp (sint i) (sint j) | _ \<Rightarrow> Equal)
      | V_CardinalityValue _ _ \<Rightarrow>
          (case b of
             V_CardinalityValue _ _ \<Rightarrow> cmp (set_member_key (st_values S) a) (set_member_key (st_values S) b)
           | _ \<Rightarrow> Equal)
      | V_Node l i \<Rightarrow> (case b of V_Node m j \<Rightarrow> then_with (cmp l m) (id_cmp G i j) | _ \<Rightarrow> Equal)
      | V_Edge t i sl s dl d _ \<Rightarrow>
          (case b of
             V_Edge u j sl' s' dl' d' _ \<Rightarrow>
               then_with (cmp t u) (then_with (id_cmp G i j) (then_with (cmp sl sl') (then_with (id_cmp G s s')
                 (then_with (cmp dl dl') (id_cmp G d d')))))
           | _ \<Rightarrow> Equal)
      | _ \<Rightarrow> Equal)"


text \<open>
  The values that a comparison of containers compares: the members of either container, and the keys of
  a map as strings.  Each is below its container, so the comparison ends.
\<close>

definition parts :: "val \<Rightarrow> val set" where
  "parts v = members v \<union> (case v of V_Map m \<Rightarrow> (\<lambda>p. V_String (fst p)) ` set m | _ \<Rightarrow> {})"

definition below :: "(val \<times> val) set" where
  "below = inv_image (less_than <*lex*> less_than) (\<lambda>v. (scalars v, size v))"

lemma wf_below: "wf below"
  unfolding below_def by (intro wf_inv_image wf_lex_prod wf_less_than)

lemma trans_below: "trans below"
  by (auto simp: below_def intro!: trans_inv_image trans_lex_prod)

lemma parts_below:
  assumes "x \<in> parts v"
  shows "(x, v) \<in> below"
proof (cases "x \<in> members v")
  case True
  then show ?thesis using members_smaller [OF True] by (auto simp: below_def)
next
  case False
  then show ?thesis using assms by (auto simp: parts_def below_def split: val.splits)
qed

lemma semantic_below: "semantic L v = Some w \<Longrightarrow> (w, v) \<in> below"
  by (simp add: below_def semantic_decreases)

lemma parts_pair:
  assumes "x \<in> parts a \<union> parts b" "y \<in> parts a \<union> parts b"
  shows "({#x, y#}, {#a, b#}) \<in> mult below"
proof -
  have "\<forall>k \<in># {#x, y#}. \<exists>j \<in># {#a, b#}. (k, j) \<in> below"
    using assms parts_below by auto
  then show ?thesis
    using one_step_implies_mult [of "{#a, b#}" "{#x, y#}" below "{#}"] by simp
qed

lemma semantic_pair:
  assumes "semantic L v = Some w"
  shows "({#w, b#}, {#v, b#}) \<in> mult below" "({#b, w#}, {#b, v#}) \<in> mult below"
  using one_step_implies_mult [of "{#v#}" "{#w#}" below "{#b#}"] semantic_below [OF assms]
  by (simp_all add: add_mset_commute)

lemma compare_slices_cong [fundef_cong]:
  assumes "xs = xs'" "ys = ys'" "\<And>x y. x \<in> set xs' \<Longrightarrow> y \<in> set ys' \<Longrightarrow> f x y = g x y"
  shows "compare_slices f xs ys = compare_slices g xs' ys'"
  unfolding assms(1,2) using assms(3) by (induction xs' ys' rule: list_induct2') auto

lemma compare_sorted_cong:
  assumes "\<And>x y. x \<in> set xs \<union> set ys \<Longrightarrow> y \<in> set xs \<union> set ys \<Longrightarrow> f x y = g x y"
  shows "compare_slices f (sort_cmp f xs) (sort_cmp f ys) = compare_slices g (sort_cmp g xs) (sort_cmp g ys)"
  by (intro compare_slices_cong sort_cmp_cong) (use assms in auto)

lemma compare_maps_cong:
  assumes "\<And>x y. x \<in> snd ` set a \<Longrightarrow> y \<in> snd ` set b \<Longrightarrow> f x y = g x y"
  shows "compare_maps f a b = compare_maps g a b"
proof -
  have same: "f x y = g x y" if "map_of a k = Some x" "map_of b l = Some y" for k l x y
    using that assms by (force dest: map_of_SomeD)
  have "compare_fields f a b ks ls = compare_fields g a b ks ls" for ks ls
    by (induction ks ls rule: list_induct2') (auto simp: same split: option.split)
  then show ?thesis by (simp add: compare_maps_def)
qed

lemma map_entries_parts: "fst ` set (map_entries m) \<union> snd ` set (map_entries m) \<subseteq> parts (V_Map m)"
  by (force simp: map_entries_def parts_def members_def)

lemma compare_typed_maps_cong:
  assumes "\<And>x y. x \<in> P \<Longrightarrow> y \<in> P \<Longrightarrow> f x y = g x y"
    and "fst ` set a \<union> snd ` set a \<subseteq> P" "fst ` set b \<union> snd ` set b \<subseteq> P"
  shows "compare_typed_maps f key a b = compare_typed_maps g key a b"
proof -
  have "fst p \<in> P \<and> snd p \<in> P" if "p \<in> set a \<union> set b" for p
    using that assms(2,3) by auto
  then show ?thesis
    unfolding compare_typed_maps_def
    by (intro compare_sorted_cong) (simp add: entry_cmp_def item_cmp_def assms(1))
qed

lemma compare_containers_cong [fundef_cong]:
  assumes "L = L'" "a = a'" "b = b'"
    and agree: "\<And>x y. x \<in> parts a' \<union> parts b' \<Longrightarrow> y \<in> parts a' \<union> parts b' \<Longrightarrow> f x y = g x y"
  shows "compare_containers L f a b = compare_containers L' g a' b'"
proof -
  have slices: "compare_slices f x y = compare_slices g x y" if "set x \<subseteq> parts a'" "set y \<subseteq> parts b'" for x y
    by (rule compare_slices_cong) (use that agree in auto)
  have items: "compare_items f key x y = compare_items g key x y" if "set x \<subseteq> parts a'" "set y \<subseteq> parts b'" for key x y
    unfolding compare_items_def
  proof (rule compare_sorted_cong)
    fix u w assume "u \<in> set x \<union> set y" "w \<in> set x \<union> set y"
    with that have "f u w = g u w" by (intro agree) auto
    then show "item_cmp f key u w = item_cmp g key u w" by (simp add: item_cmp_def)
  qed
  have maps: "compare_maps f x y = compare_maps g x y"
    if "snd ` set x \<subseteq> parts a'" "snd ` set y \<subseteq> parts b'" for x y
    by (rule compare_maps_cong) (use that agree in blast)
  have typed: "compare_typed_maps f key x y = compare_typed_maps g key x y"
    if "fst ` set x \<union> snd ` set x \<subseteq> parts a'" "fst ` set y \<union> snd ` set y \<subseteq> parts b'" for key x y
    by (rule compare_typed_maps_cong [where P = "parts a' \<union> parts b'", OF agree]) (use that in auto)
  have "compare_containers L' f a' b' = compare_containers L' g a' b'"
  proof (cases a')
    case (V_List x)
    then show ?thesis using slices by (cases b') (simp_all add: compare_containers_def parts_def members_def)
  next
    case (V_Path x)
    then show ?thesis using slices by (cases b') (simp_all add: compare_containers_def parts_def members_def)
  next
    case (V_BulkSet x)
    then show ?thesis using items by (cases b') (simp_all add: compare_containers_def parts_def members_def)
  next
    case (V_Set x)
    then show ?thesis using items by (cases b') (simp_all add: compare_containers_def parts_def members_def)
  next
    case (V_Property o1 k x)
    then show ?thesis using agree by (cases b') (simp_all add: compare_containers_def parts_def members_def)
  next
    case (V_MapEntry k x)
    then show ?thesis using agree by (cases b') (simp_all add: compare_containers_def parts_def members_def)
  next
    case (V_Map x)
    then show ?thesis
      using maps typed map_entries_parts by (cases b') (simp_all add: compare_containers_def parts_def members_def)
  next
    case (V_TypedMap x)
    then show ?thesis
      using typed map_entries_parts by (cases b') (simp_all add: compare_containers_def parts_def members_def)
  qed (simp_all add: compare_containers_def)
  then show ?thesis using assms(1-3) by simp
qed

function compare_values :: "sort_lib \<Rightarrow> val \<Rightarrow> val \<Rightarrow> ordering" where
  "compare_values S a b =
     (case semantic (st_order S) a of
        Some v \<Rightarrow> compare_values S v b
      | None \<Rightarrow>
     (case semantic (st_order S) b of
        Some v \<Rightarrow> compare_values S a v
      | None \<Rightarrow>
     (case temporal_value_ordering a b of
        Some c \<Rightarrow> c
      | None \<Rightarrow>
     (if orderability_tag a \<noteq> orderability_tag b then cmp (orderability_tag a) (orderability_tag b)
      else if orderability_tag a = 2 then compare_numeric_values S a b
      else case compare_containers (st_values S) (compare_values S) a b of
             Some c \<Rightarrow> c
           | None \<Rightarrow> compare_atoms S a b))))"
  by pat_completeness auto
termination
  by (relation "inv_image (mult below) (\<lambda>(S, a, b). {#a, b#})")
    (auto simp: wf_mult wf_below intro: parts_pair semantic_pair)

declare compare_values.simps [simp del]


section \<open>The comparison of Cypher's \<open>ORDER BY\<close>\<close>

definition cypher_rank :: "val \<Rightarrow> nat" where
  "cypher_rank v =
     (case v of
        V_Map _ \<Rightarrow> 0
      | V_Node _ _ \<Rightarrow> 1
      | V_Edge _ _ _ _ _ _ _ \<Rightarrow> 2
      | V_List _ \<Rightarrow> 3
      | V_Path _ \<Rightarrow> 4
      | V_Temporal _ \<Rightarrow> 5 | V_DateTime _ \<Rightarrow> 5
      | V_String _ \<Rightarrow> 6
      | V_Bool _ \<Rightarrow> 7
      | V_Null \<Rightarrow> 9
      | _ \<Rightarrow> 8)"

definition val_is_nan :: "val \<Rightarrow> bool" where
  "val_is_nan v = (case v of V_Float x \<Rightarrow> f64_is_nan x | V_Float32 x \<Rightarrow> f32_is_nan x | _ \<Rightarrow> False)"

definition compare_or_order :: "sort_lib \<Rightarrow> val \<Rightarrow> val \<Rightarrow> ordering" where
  "compare_or_order S a b =
     (case three_valued_cmp (st_order S) a b of Some c \<Rightarrow> c | None \<Rightarrow> compare_values S a b)"

definition sequence_items :: "val \<Rightarrow> val \<Rightarrow> (val list \<times> val list) option" where
  "sequence_items a b =
     (case a of
        V_List x \<Rightarrow> (case b of V_List y \<Rightarrow> Some (x, y) | _ \<Rightarrow> None)
      | V_Path x \<Rightarrow> (case b of V_Path y \<Rightarrow> Some (x, y) | _ \<Rightarrow> None)
      | _ \<Rightarrow> None)"

lemma sequence_items_size:
  assumes "sequence_items a b = Some (xs, ys)" "x \<in> set xs" "y \<in> set ys"
  shows "size x + size y < size a + size b"
proof -
  have "x \<in> members a" "y \<in> members b"
    using assms by (auto simp: sequence_items_def members_def split: val.splits)
  then show ?thesis using members_smaller(2) by (simp add: add_strict_mono)
qed

function compare_cypher_order :: "sort_lib \<Rightarrow> val \<Rightarrow> val \<Rightarrow> ordering" where
  "compare_cypher_order S a b =
     (if cypher_rank a \<noteq> cypher_rank b then cmp (cypher_rank a) (cypher_rank b)
      else case sequence_items a b of
        Some (xs, ys) \<Rightarrow> compare_slices (compare_cypher_order S) xs ys
      | None \<Rightarrow>
          (if val_is_nan a then if val_is_nan b then Equal else Greater
           else if val_is_nan b then Less
           else compare_or_order S a b))"
  by pat_completeness auto
termination
  by (relation "measure (\<lambda>(S, a, b). size a + size b)") (auto intro: sequence_items_size)

declare compare_cypher_order.simps [simp del]

section \<open>Gremlin comparison\<close>

definition transport_scalar :: "sort_lib \<Rightarrow> val \<Rightarrow> val option" where
  "transport_scalar S v =
     (case v of
        V_Scalar s \<Rightarrow>
          Option.bind (case s of
              SV_Int64 n \<Rightarrow> Some (V_Long n)
            | SV_Other _ _ \<Rightarrow> transport_other S s
            | _ \<Rightarrow> scalar_semantic_value (st_order S) s)
            (\<lambda>w. if scalars w = 0 then Some w else None)
      | _ \<Rightarrow> None)"

lemma transport_below: "transport_scalar S v = Some w \<Longrightarrow> (w, v) \<in> below"
  by (auto simp: transport_scalar_def below_def split: val.splits bind_splits if_splits)

text \<open>The value that the numeric functions look at; a decoded scalar is never a scalar again.\<close>

definition transported :: "sort_lib \<Rightarrow> val \<Rightarrow> val" where
  "transported S v = (case transport_scalar S v of Some w \<Rightarrow> w | None \<Rightarrow> v)"

definition numeric_width :: "sort_lib \<Rightarrow> val \<Rightarrow> (nat \<times> bool) option" where
  "numeric_width S v =
     (case transported S v of
        V_Byte _ \<Rightarrow> Some (8, False) | V_UInt8 _ \<Rightarrow> Some (8, False)
      | V_Short _ \<Rightarrow> Some (16, False) | V_UInt16 _ \<Rightarrow> Some (16, False)
      | V_Int _ \<Rightarrow> Some (32, False) | V_UInt32 _ \<Rightarrow> Some (32, False)
      | V_Long _ \<Rightarrow> Some (64, False) | V_UInt64 _ \<Rightarrow> Some (64, False)
      | V_BigInt _ \<Rightarrow> Some (128, False) | V_UInt128 _ \<Rightarrow> Some (128, False)
      | V_Float32 _ \<Rightarrow> Some (32, True)
      | V_Float _ \<Rightarrow> Some (64, True)
      | V_BigDecimal _ _ \<Rightarrow> Some (128, True)
      | _ \<Rightarrow> None)"

definition gremlin_decimal :: "sort_lib \<Rightarrow> val \<Rightarrow> decimal option" where
  "gremlin_decimal S v =
     (case transported S v of
        V_Byte n \<Rightarrow> Some (sint n, 0) | V_UInt8 n \<Rightarrow> Some (uint n, 0)
      | V_Short n \<Rightarrow> Some (sint n, 0) | V_UInt16 n \<Rightarrow> Some (uint n, 0)
      | V_Int n \<Rightarrow> Some (sint n, 0) | V_Long n \<Rightarrow> Some (sint n, 0)
      | V_UInt32 n \<Rightarrow> Some (uint n, 0) | V_UInt64 n \<Rightarrow> Some (uint n, 0)
      | V_BigInt n \<Rightarrow> Some (n, 0) | V_UInt128 n \<Rightarrow> Some (n, 0)
      | V_BigDecimal n s \<Rightarrow> Some (n, s)
      | V_Float32 x \<Rightarrow> spelled_decimal S (f_of_f32 (st_arith S) x)
      | V_Float x \<Rightarrow> spelled_decimal S x
      | _ \<Rightarrow> None)"

definition gremlin_double :: "sort_lib \<Rightarrow> val \<Rightarrow> f64 option" where
  "gremlin_double S v =
     (case transported S v of
        V_Float x \<Rightarrow> Some x
      | V_Float32 x \<Rightarrow> Some (f_of_f32 (st_arith S) x)
      | _ \<Rightarrow> Option.bind (gremlin_decimal S v) (decimal_to_f64 (st_arith S)))"

definition gremlin_is_nan :: "sort_lib \<Rightarrow> val \<Rightarrow> bool" where
  "gremlin_is_nan S v \<longleftrightarrow> val_is_nan (transported S v)"

text \<open>\<open>total_cmp\<close>: the bits as a signed integer, with the magnitude bits of a negative one flipped.\<close>

definition f64_total_key :: "f64 \<Rightarrow> int" where
  "f64_total_key x = sint (if bit x 63 then x XOR 0x7FFFFFFFFFFFFFFF else x)"

definition f32_total_key :: "f32 \<Rightarrow> int" where
  "f32_total_key x = sint (if bit x 31 then x XOR 0x7FFFFFFF else x)"

definition infinite_order :: "sort_lib \<Rightarrow> val \<Rightarrow> ordering option" where
  "infinite_order S v =
     (case gremlin_double S v of
        None \<Rightarrow> None
      | Some x \<Rightarrow>
          if x AND 0x7FFFFFFFFFFFFFFF = 0x7FF0000000000000 \<and> (case v of V_Float _ \<Rightarrow> True | V_Float32 _ \<Rightarrow> True | _ \<Rightarrow> False)
          then Some (if bit x 63 then Less else Greater) else None)"

definition both :: "('a \<Rightarrow> 'a \<Rightarrow> 'b) \<Rightarrow> 'a option \<Rightarrow> 'a option \<Rightarrow> 'b option" where
  "both f x y = Option.bind x (\<lambda>a. Option.bind y (\<lambda>b. Some (f a b)))"

definition numeric_cmp :: "sort_lib \<Rightarrow> val \<Rightarrow> val \<Rightarrow> ordering option" where
  "numeric_cmp S left right =
     (case (numeric_width S left, numeric_width S right) of
        (Some (lb, lf), Some (rb, rf)) \<Rightarrow>
          if gremlin_is_nan S left \<or> gremlin_is_nan S right then None
          else let bits = max lb rb in
            if (lf \<or> rf) \<and> bits \<le> 32
            then both (\<lambda>a b. cmp (f32_total_key (f64_to_f32 S a)) (f32_total_key (f64_to_f32 S b)))
              (gremlin_double S left) (gremlin_double S right)
            else if (lf \<or> rf) \<and> bits \<le> 64
            then both (\<lambda>a b. cmp (f64_total_key a) (f64_total_key b)) (gremlin_double S left) (gremlin_double S right)
            else (case infinite_order S left of
                Some c \<Rightarrow> Some c
              | None \<Rightarrow>
                  (case infinite_order S right of
                     Some c \<Rightarrow> Some (reverse c)
                   | None \<Rightarrow> both (decimal_cmp (st_order S)) (gremlin_decimal S left) (gremlin_decimal S right)))
      | _ \<Rightarrow> None)"


fun match_removing :: "('a \<Rightarrow> 'b \<Rightarrow> bool) \<Rightarrow> 'a list \<Rightarrow> 'b list \<Rightarrow> bool" where
  "match_removing f [] left_over = True"
| "match_removing f (x # xs) left_over =
     (case take_first (f x) left_over of None \<Rightarrow> False | Some rest \<Rightarrow> match_removing f xs rest)"

definition string_entries_equal :: "(val \<Rightarrow> val \<Rightarrow> bool) \<Rightarrow> (val \<times> val) list \<Rightarrow> (string \<times> val) list \<Rightarrow> bool" where
  "string_entries_equal f entries m \<longleftrightarrow>
     length entries = length m \<and>
     list_all (\<lambda>e. case fst e of
         V_String key \<Rightarrow> (case map_of m key of Some other \<Rightarrow> f (snd e) other | None \<Rightarrow> False)
       | _ \<Rightarrow> False) entries"

text \<open>The pairs of containers, with the equality \<open>f\<close> of members; \<open>None\<close> is any other pair.\<close>

definition equal_containers :: "(val \<Rightarrow> val \<Rightarrow> bool) \<Rightarrow> val \<Rightarrow> val \<Rightarrow> bool option" where
  "equal_containers f a b =
     (case a of
        V_Set x \<Rightarrow> (case b of V_Set y \<Rightarrow> Some (length x = length y \<and> match_removing f x y) | _ \<Rightarrow> None)
      | V_List x \<Rightarrow> (case b of V_List y \<Rightarrow> Some (list_all2 f x y) | _ \<Rightarrow> None)
      | V_Path x \<Rightarrow> (case b of V_Path y \<Rightarrow> Some (list_all2 f x y) | _ \<Rightarrow> None)
      | V_Map x \<Rightarrow>
          (case b of
             V_Map y \<Rightarrow> Some (length x = length y \<and>
               list_all (\<lambda>p. case map_of y (fst p) of Some other \<Rightarrow> f (snd p) other | None \<Rightarrow> False) x)
           | V_TypedMap y \<Rightarrow> Some (string_entries_equal f y x)
           | _ \<Rightarrow> None)
      | V_TypedMap x \<Rightarrow>
          (case b of
             V_TypedMap y \<Rightarrow> Some (length x = length y \<and>
               list_all (\<lambda>p. list_ex (\<lambda>q. f (fst p) (fst q) \<and> f (snd p) (snd q)) y) x)
           | V_Map y \<Rightarrow> Some (string_entries_equal f x y)
           | _ \<Rightarrow> None)
      | V_MapEntry k x \<Rightarrow> (case b of V_MapEntry l y \<Rightarrow> Some (f k l \<and> f x y) | _ \<Rightarrow> None)
      | _ \<Rightarrow> None)"

lemma take_first_cong: "(\<And>y. y \<in> set ys \<Longrightarrow> p y = q y) \<Longrightarrow> take_first p ys = take_first q ys"
  by (induction ys) auto

lemma take_first_subset: "take_first p ys = Some zs \<Longrightarrow> set zs \<subseteq> set ys"
  by (induction ys arbitrary: zs) (auto split: if_splits)

lemma match_removing_cong:
  "(\<And>x y. x \<in> set xs \<Longrightarrow> y \<in> set ys \<Longrightarrow> f x y = g x y) \<Longrightarrow> match_removing f xs ys = match_removing g xs ys"
proof (induction xs arbitrary: ys)
  case (Cons x xs)
  have "take_first (f x) ys = take_first (g x) ys"
    by (rule take_first_cong) (use Cons.prems in simp)
  moreover have "match_removing f xs zs = match_removing g xs zs" if "take_first (g x) ys = Some zs" for zs
    using take_first_subset [OF that] by (intro Cons.IH) (use Cons.prems in auto)
  ultimately show ?case by (simp split: option.split)
qed simp

lemma string_entries_equal_cong:
  "(\<And>x y. x \<in> snd ` set es \<Longrightarrow> y \<in> snd ` set m \<Longrightarrow> f x y = g x y) \<Longrightarrow>
   string_entries_equal f es m = string_entries_equal g es m"
  unfolding string_entries_equal_def
  by (intro conj_cong refl list.pred_cong) (force split: val.split option.split dest: map_of_SomeD)


lemma equal_containers_cong [fundef_cong]:
  assumes "a = a'" "b = b'"
    and agree: "\<And>x y. x \<in> parts a' \<union> parts b' \<Longrightarrow> y \<in> parts a' \<union> parts b' \<Longrightarrow> f x y = g x y"
  shows "equal_containers f a b = equal_containers g a' b'"
proof -
  have slices: "list_all2 f x y = list_all2 g x y" if "set x \<subseteq> parts a'" "set y \<subseteq> parts b'" for x y
    by (rule list.rel_cong) (use that agree in auto)
  have sets: "match_removing f x y = match_removing g x y" if "set x \<subseteq> parts a'" "set y \<subseteq> parts b'" for x y
    by (rule match_removing_cong) (use that agree in auto)
  have strings: "string_entries_equal f es m = string_entries_equal g es m"
    if "snd ` set es \<subseteq> parts a' \<union> parts b'" "snd ` set m \<subseteq> parts a' \<union> parts b'" for es m
    by (rule string_entries_equal_cong) (use that agree in blast)
  have "equal_containers f a' b' = equal_containers g a' b'"
  proof (cases a')
    case (V_List x)
    then show ?thesis using slices by (cases b') (simp_all add: equal_containers_def parts_def members_def)
  next
    case (V_Path x)
    then show ?thesis using slices by (cases b') (simp_all add: equal_containers_def parts_def members_def)
  next
    case (V_Set x)
    then show ?thesis using sets by (cases b') (simp_all add: equal_containers_def parts_def members_def)
  next
    case (V_MapEntry k x)
    then show ?thesis using agree by (cases b') (simp_all add: equal_containers_def parts_def members_def)
  next
    case (V_Map x)
    have mapped: "f u w = g u w" if "b' = V_Map y" "(k, u) \<in> set x" "map_of y l = Some w" for y k l u w
      by (rule agree) (use that V_Map in \<open>force simp: parts_def members_def dest: map_of_SomeD\<close>)+
    have "list_all (\<lambda>p. case map_of y (fst p) of Some other \<Rightarrow> f (snd p) other | None \<Rightarrow> False) x =
        list_all (\<lambda>p. case map_of y (fst p) of Some other \<Rightarrow> g (snd p) other | None \<Rightarrow> False) x" if "b' = V_Map y" for y
      by (rule list.pred_cong [OF refl]) (use mapped [OF that] in \<open>auto split: option.split\<close>)
    then show ?thesis
      using strings [of _ x] V_Map by (cases b') (auto simp: equal_containers_def parts_def members_def)
  next
    case (V_TypedMap x)
    have entry: "f (fst p) (fst q) = g (fst p) (fst q)" "f (snd p) (snd q) = g (snd p) (snd q)"
      if "b' = V_TypedMap y" "p \<in> set x" "q \<in> set y" for y p q
      by (rule agree; use that V_TypedMap in \<open>simp add: parts_def members_def\<close>)+
    then have "list_all (\<lambda>p. list_ex (\<lambda>q. f (fst p) (fst q) \<and> f (snd p) (snd q)) y) x =
        list_all (\<lambda>p. list_ex (\<lambda>q. g (fst p) (fst q) \<and> g (snd p) (snd q)) y) x" if "b' = V_TypedMap y" for y
      using that by (simp add: list_all_iff list_ex_iff)
    then show ?thesis
      using strings [of x] V_TypedMap by (cases b') (auto simp: equal_containers_def parts_def members_def)
  qed (simp_all add: equal_containers_def)
  then show ?thesis using assms(1,2) by simp
qed

lemma transport_pair:
  assumes "transport_scalar S v = Some w"
  shows "({#w, b#}, {#v, b#}) \<in> mult below" "({#b, w#}, {#b, v#}) \<in> mult below"
  using one_step_implies_mult [of "{#v#}" "{#w#}" below "{#b#}"] transport_below [OF assms]
  by (simp_all add: add_mset_commute)

function gremlin_equals :: "sort_lib \<Rightarrow> val \<Rightarrow> val \<Rightarrow> bool" where
  "gremlin_equals S a b =
     (case transport_scalar S a of
        Some v \<Rightarrow> gremlin_equals S v b
      | None \<Rightarrow>
     (case transport_scalar S b of
        Some v \<Rightarrow> gremlin_equals S a v
      | None \<Rightarrow>
     (if numeric_width S a \<noteq> None \<or> numeric_width S b \<noteq> None then numeric_cmp S a b = Some Equal
      else case equal_containers (gremlin_equals S) a b of
        Some r \<Rightarrow> r
      | None \<Rightarrow>
          (case a of
             V_String x \<Rightarrow>
               (case b of V_String y \<Rightarrow> x = y | _ \<Rightarrow> three_valued_eq (st_order S) a b = Some True)
           | _ \<Rightarrow> three_valued_eq (st_order S) a b = Some True))))"
  by pat_completeness auto
termination
  by (relation "inv_image (mult below) (\<lambda>(S, a, b). {#a, b#})")
    (auto simp: wf_mult wf_below intro: parts_pair transport_pair)

declare gremlin_equals.simps [simp del]

definition gremlin_predicate :: "sort_lib \<Rightarrow> string \<Rightarrow> val \<Rightarrow> val \<Rightarrow> val" where
  "gremlin_predicate S op left right =
     (let left = transported S left; right = transported S right in
      if op = ''eq'' \<or> op = ''neq'' then V_Bool (gremlin_equals S left right = (op = ''eq''))
      else case (if numeric_width S left \<noteq> None \<or> numeric_width S right \<noteq> None then numeric_cmp S left right
                 else three_valued_cmp (st_order S) left right) of
             None \<Rightarrow> V_Null
           | Some ord \<Rightarrow> V_Bool (
               if op = ''lt'' then ord = Less
               else if op = ''lte'' then ord \<noteq> Greater
               else if op = ''gt'' then ord = Greater
               else if op = ''gte'' then ord \<noteq> Less
               else False))"

definition list_items :: "val \<Rightarrow> val \<Rightarrow> (val list \<times> val list) option" where
  "list_items a b = (case a of V_List x \<Rightarrow> (case b of V_List y \<Rightarrow> Some (x, y) | _ \<Rightarrow> None) | _ \<Rightarrow> None)"

lemma list_items_sequence: "list_items a b = Some p \<Longrightarrow> sequence_items a b = Some p"
  by (auto simp: list_items_def sequence_items_def split: val.splits)

function compare_order_keys :: "sort_lib \<Rightarrow> val \<Rightarrow> val \<Rightarrow> ordering" where
  "compare_order_keys S a b =
     (if numeric_width S a \<noteq> None \<and> numeric_width S b \<noteq> None
      then (if gremlin_is_nan S a then if gremlin_is_nan S b then Equal else Greater
            else if gremlin_is_nan S b then Less
            else case numeric_cmp S a b of Some c \<Rightarrow> c | None \<Rightarrow> Equal)
      else case list_items a b of
        Some (xs, ys) \<Rightarrow> compare_slices (compare_order_keys S) xs ys
      | None \<Rightarrow> compare_values S a b)"
  by pat_completeness auto
termination
  by (relation "measure (\<lambda>(S, a, b). size a + size b)") (auto intro: sequence_items_size dest: list_items_sequence)

declare compare_order_keys.simps [simp del]

section \<open>Sorting rows\<close>

datatype sort_dir = SD_Asc | SD_Desc

datatype nulls_order = NO_First | NO_Last | NO_ProviderDefined

record order_key =
  sk_expr :: ir_expr
  sk_dir :: sort_dir
  sk_nulls :: nulls_order

text \<open>The order of a null before a value that is not null.\<close>

definition null_before :: "order_key \<Rightarrow> ordering" where
  "null_before k =
     (case sk_nulls k of
        NO_First \<Rightarrow> Less
      | NO_Last \<Rightarrow> Greater
      | NO_ProviderDefined \<Rightarrow> (case sk_dir k of SD_Asc \<Rightarrow> Less | SD_Desc \<Rightarrow> Greater))"

definition calls :: "string \<Rightarrow> ir_expr \<Rightarrow> bool" where
  "calls f e = (case e of E_Call name _ \<Rightarrow> name = f | _ \<Rightarrow> False)"

definition compare_for_sort :: "sort_lib \<Rightarrow> order_key \<Rightarrow> val \<Rightarrow> val \<Rightarrow> ordering" where
  "compare_for_sort S k lhs rhs =
     (if lhs = V_Null \<and> rhs = V_Null then Equal
      else if lhs = V_Null then null_before k
      else if rhs = V_Null then reverse (null_before k)
      else let c = (if calls ''gremlin_order_key'' (sk_expr k) then compare_order_keys S lhs rhs
                    else if calls ''cypher_order_key'' (sk_expr k) then compare_cypher_order S lhs rhs
                    else compare_or_order S lhs rhs)
           in case sk_dir k of SD_Asc \<Rightarrow> c | SD_Desc \<Rightarrow> reverse c)"

fun compare_keys :: "sort_lib \<Rightarrow> order_key list \<Rightarrow> val list \<Rightarrow> val list \<Rightarrow> ordering" where
  "compare_keys S (k # ks) (a # as) (b # bs) =
     (if compare_for_sort S k a b \<noteq> Equal then compare_for_sort S k a b else compare_keys S ks as bs)"
| "compare_keys S ks as bs = Equal"

definition key_values :: "sort_lib \<Rightarrow> property_graph \<Rightarrow> order_key list \<Rightarrow> row \<Rightarrow> runtime_error + val list" where
  "key_values S g keys r = collect (\<lambda>k. eval (st_eval S) g (sk_expr k) r) keys"

definition sort_op :: "sort_lib \<Rightarrow> property_graph \<Rightarrow> order_key list \<Rightarrow> row list \<Rightarrow> runtime_error + row list" where
  "sort_op S g keys rows =
     bind_res (collect (\<lambda>r. bind_res (key_values S g keys r) (\<lambda>vs. Inr (vs, r))) rows)
       (\<lambda>decorated. Inr (map snd (sort_cmp (\<lambda>a b. compare_keys S keys (fst a) (fst b)) decorated)))"

fun first_of_keys :: "(val \<Rightarrow> bytes) \<Rightarrow> bytes set \<Rightarrow> val list \<Rightarrow> val list" where
  "first_of_keys key seen [] = []"
| "first_of_keys key seen (v # vs) =
     (if key v \<in> seen then first_of_keys key seen vs else v # first_of_keys key (insert (key v) seen) vs)"

definition collect_op ::
  "sort_lib \<Rightarrow> property_graph \<Rightarrow> ir_expr \<Rightarrow> bool \<Rightarrow> order_key list \<Rightarrow> string \<Rightarrow> row list \<Rightarrow> runtime_error + row list" where
  "collect_op S g e dist keys name rows =
     (let listed = (\<lambda>vs. [row_bind name (V_List (if dist then first_of_keys (runtime_encode_value (st_values S)) {} vs else vs)) row_new])
      in if keys = [] then bind_res (collect (eval (st_eval S) g e) rows) (\<lambda>vs. Inr (listed vs))
         else bind_res (collect (\<lambda>r. bind_res (eval (st_eval S) g e r) (\<lambda>v. bind_res (key_values S g keys r) (\<lambda>vs. Inr (vs, v)))) rows)
           (\<lambda>decorated. Inr (listed (map snd (sort_cmp (\<lambda>a b. compare_keys S keys (fst a) (fst b)) decorated)))))"

datatype barrier_bulk_policy = BP_PreserveAndMerge | BP_ResetToOne | BP_ProviderDefined | BP_Gremlin bool

definition barrier_group :: "sort_lib \<Rightarrow> property_graph \<Rightarrow> order_key list \<Rightarrow> slice \<Rightarrow> row list \<Rightarrow> runtime_error + row list" where
  "barrier_group S g keys s rows =
     bind_res (if keys = [] then Inr rows else sort_op S g keys rows) (\<lambda>ordered. Inr (slice_op s ordered))"

definition barrier_op ::
  "sort_lib \<Rightarrow> property_graph \<Rightarrow> string list \<Rightarrow> order_key list \<Rightarrow> slice \<Rightarrow> barrier_bulk_policy \<Rightarrow> row list
   \<Rightarrow> runtime_error + row list" where
  "barrier_op S g by_keys keys s policy rows =
     bind_res (collect (barrier_group S g keys s)
         (if by_keys = [] then [rows] else partition_rows (st_values S) by_keys rows)) (\<lambda>groups.
       let out = concat groups in
       case policy of
         BP_ResetToOne \<Rightarrow> Inr (map (\<lambda>r. r\<lparr>row_bulk := 1\<rparr>) out)
       | BP_PreserveAndMerge \<Rightarrow> merge_equal_traversers (st_values S) out
       | BP_ProviderDefined \<Rightarrow> Inr out
       | BP_Gremlin normalized \<Rightarrow> gremlin_barrier (st_rows S) g out normalized)"


section \<open>Sorting is a stable sort by rank\<close>

text \<open>Booleans before numbers, both by value.\<close>

definition sort_rank :: "val \<Rightarrow> int list option" where
  "sort_rank v =
     (case v of
        V_Bool b \<Rightarrow> Some [0, if b then 1 else 0]
      | _ \<Rightarrow> map_option (\<lambda>i. [1, io_value i]) (integer_operand_of v))"

definition key_rank :: "order_key \<Rightarrow> val \<Rightarrow> int list" where
  "key_rank k v =
     (if v = V_Null then [if null_before k = Less then - 1 else 1, 0, 0]
      else 0 # map (\<lambda>n. if sk_dir k = SD_Asc then n else - n) (the (sort_rank v)))"

definition sortable :: "val \<Rightarrow> bool" where
  "sortable v \<longleftrightarrow> v = V_Null \<or> sort_rank v \<noteq> None"

definition value_at :: "sort_lib \<Rightarrow> property_graph \<Rightarrow> order_key \<Rightarrow> row \<Rightarrow> val" where
  "value_at S g k r = (case eval (st_eval S) g (sk_expr k) r of Inr v \<Rightarrow> v | Inl _ \<Rightarrow> V_Null)"

lemma sort_rank_cases:
  assumes "sort_rank v = Some n"
  obtains b where "v = V_Bool b" "n = [0, if b then 1 else 0]"
  | i where "integer_operand_of v = Some i" "n = [1, io_value i]" "\<And>b. v \<noteq> V_Bool b"
  using assms by (auto simp: sort_rank_def split: val.splits)

lemma cmp_Cons: "cmp (x # xs) (y # ys) = then_with (cmp x y) (cmp xs ys)" for xs ys :: "'a::linorder list"
  by (auto simp: cmp_def then_with_def)

lemma cmp_append:
  "length xs = length ys \<Longrightarrow> cmp (xs @ us) (ys @ vs) = then_with (cmp xs ys) (cmp us vs)"
  for xs ys us vs :: "'a::linorder list"
  by (induction xs ys rule: list_induct2) (simp_all add: cmp_Cons, auto simp: then_with_def)


text \<open>Integers of every type compare by value under each of the three comparisons.\<close>

lemma integer_plain:
  assumes "integer_operand_of v = Some i"
  shows "orderability_tag v = 2" "cypher_rank v = 8" "\<not> val_is_nan v"
    "list_items v w = None" "sequence_items v w = None" "temporal_value_ordering v w = None"
  using assms
  by (cases v; simp add: integer_operand_of_def orderability_tag_def cypher_rank_def val_is_nan_def
      list_items_def sequence_items_def temporal_value_ordering_def temporal_cmp_def text_of_def split: option.split; fail)+

lemma integer_plain_lib:
  assumes "integer_operand_of v = Some i"
  shows "non_finite_rank S v = None" "transported S v = v" "infinite_order S v = None"
    "gremlin_decimal S v = Some (io_value i, 0)" "\<exists>n. numeric_width S v = Some (n, False)"
  using assms
  by (cases v; auto simp: integer_operand_of_def non_finite_rank_def
      transported_def transport_scalar_def infinite_order_def gremlin_decimal_def numeric_width_def Let_def split: option.split)+

lemma compare_values_integers:
  assumes "integers_exact (st_order S)" "integer_operand_of a = Some i" "integer_operand_of b = Some j"
  shows "compare_values S a b = cmp (io_value i) (io_value j)"
  using assms integer_plain [OF assms(2)] integer_plain [OF assms(3)] integer_plain_lib [OF assms(2), of S] integer_plain_lib [OF assms(3), of S]
    integer_not_special(2) [OF assms(2)] integer_not_special(2) [OF assms(3)] integer_numeric_decimal(1)
  by (simp add: compare_values.simps [of S a b] compare_numeric_values_def integers_exact_def)

lemma compare_or_order_integers:
  assumes "integers_exact (st_order S)" "integer_operand_of a = Some i" "integer_operand_of b = Some j"
  shows "compare_or_order S a b = cmp (io_value i) (io_value j)"
proof (cases "is_unsigned a \<or> is_unsigned b")
  case True
  then have "three_valued_cmp (st_order S) a b = None"
    using three_valued_cmp_unsigned by blast
  then show ?thesis by (simp add: compare_or_order_def compare_values_integers [OF assms])
next
  case False
  then show ?thesis
    using assms integer_not_special [OF assms(2)] integer_not_special [OF assms(3)] integer_numeric_decimal(2)
    by (simp add: compare_or_order_def three_valued_cmp.simps [of "st_order S" a b] integers_exact_def)
qed

lemma compare_order_keys_integers:
  assumes "integers_exact (st_order S)" "integer_operand_of a = Some i" "integer_operand_of b = Some j"
  shows "compare_order_keys S a b = cmp (io_value i) (io_value j)"
proof -
  obtain m n where "numeric_width S a = Some (m, False)" "numeric_width S b = Some (n, False)"
    using integer_plain_lib(5) [OF assms(2)] integer_plain_lib(5) [OF assms(3)] by blast
  then show ?thesis
    using assms(1) integer_plain [OF assms(2)] integer_plain [OF assms(3)] integer_plain_lib [OF assms(2), of S] integer_plain_lib [OF assms(3), of S]
    by (simp add: compare_order_keys.simps [of S a b] numeric_cmp_def gremlin_is_nan_def both_def integers_exact_def)
qed

lemma compare_cypher_order_integers:
  assumes "integers_exact (st_order S)" "integer_operand_of a = Some i" "integer_operand_of b = Some j"
  shows "compare_cypher_order S a b = cmp (io_value i) (io_value j)"
  using integer_plain [OF assms(2)] integer_plain [OF assms(3)] integer_plain_lib [OF assms(2), of S] integer_plain_lib [OF assms(3), of S] compare_or_order_integers [OF assms]
  by (simp add: compare_cypher_order.simps [of S a b])

definition chosen_cmp :: "sort_lib \<Rightarrow> order_key \<Rightarrow> val \<Rightarrow> val \<Rightarrow> ordering" where
  "chosen_cmp S k a b =
     (if calls ''gremlin_order_key'' (sk_expr k) then compare_order_keys S a b
      else if calls ''cypher_order_key'' (sk_expr k) then compare_cypher_order S a b
      else compare_or_order S a b)"

lemma bool_plain:
  "semantic L (V_Bool b) = None" "transported S (V_Bool b) = V_Bool b" "numeric_width S (V_Bool b) = None"
  "cypher_rank (V_Bool b) = 7" "orderability_tag (V_Bool b) = 1" "sequence_items (V_Bool b) w = None"
  "sequence_items w (V_Bool b) = None" "list_items (V_Bool b) w = None" "list_items w (V_Bool b) = None"
  "temporal_value_ordering (V_Bool b) w = None" "temporal_value_ordering w (V_Bool b) = None"
  "early_cmp L (V_Bool b) w = None" "early_cmp L w (V_Bool b) = None" "signed_decimal L (V_Bool b) = None"
  "val_is_nan (V_Bool b) = False"
  by (simp_all add: semantic_def transported_def transport_scalar_def numeric_width_def cypher_rank_def orderability_tag_def
      sequence_items_def list_items_def temporal_value_ordering_def temporal_cmp_def text_of_def early_cmp_def
      signed_decimal_def val_is_nan_def split: val.split option.split)

lemma bool_integer_cmp:
  assumes "integer_operand_of v = Some i"
  shows "chosen_cmp S k (V_Bool b) v = Less" "chosen_cmp S k v (V_Bool b) = Greater"
proof -
  have cmp2: "compare_values S (V_Bool b) v = Less" "compare_values S v (V_Bool b) = Greater"
    using integer_plain [OF assms] integer_plain_lib [OF assms, of S] integer_not_special(2) [OF assms] bool_plain
    by (simp_all add: compare_values.simps [of S "V_Bool b"] compare_values.simps [of S v])
  have "three_valued_cmp L (V_Bool b) v = None \<and> three_valued_cmp L v (V_Bool b) = None" for L
  proof (cases "is_unsigned v")
    case True
    then show ?thesis using three_valued_cmp_unsigned by blast
  next
    case False
    then show ?thesis
      using integer_not_special [OF assms] integer_numeric_decimal(2) [OF assms False] bool_plain
      by (simp add: three_valued_cmp.simps [of L "V_Bool b"] three_valued_cmp.simps [of L v])
  qed
  then have "compare_or_order S (V_Bool b) v = Less" "compare_or_order S v (V_Bool b) = Greater"
    by (simp_all add: compare_or_order_def cmp2)
  then show "chosen_cmp S k (V_Bool b) v = Less" "chosen_cmp S k v (V_Bool b) = Greater"
    using cmp2 integer_plain [OF assms] integer_plain_lib [OF assms, of S] bool_plain
    by (simp_all add: chosen_cmp_def compare_order_keys.simps [of S "V_Bool b"] compare_order_keys.simps [of S v]
        compare_cypher_order.simps [of S "V_Bool b"] compare_cypher_order.simps [of S v])
qed

lemma bool_cmp: "chosen_cmp S k (V_Bool a) (V_Bool b) = cmp a b"
proof -
  have "three_valued_cmp L (V_Bool a) (V_Bool b) = Some (cmp a b)" for L
    using bool_plain
    by (simp add: three_valued_cmp.simps [of L "V_Bool a"] container_cmp_def atom_cmp_def)
  moreover have "compare_values S (V_Bool a) (V_Bool b) = cmp a b"
    using bool_plain
    by (simp add: compare_values.simps [of S "V_Bool a"] compare_containers_def compare_atoms_def)
  ultimately show ?thesis
    using bool_plain
    by (simp add: chosen_cmp_def compare_or_order_def compare_order_keys.simps [of S "V_Bool a"]
        compare_cypher_order.simps [of S "V_Bool a"])
qed


lemma chosen_cmp_rank:
  assumes "integers_exact (st_order S)" "sort_rank a = Some m" "sort_rank b = Some n"
  shows "chosen_cmp S k a b = cmp m n"
  using assms(2)
proof (cases rule: sort_rank_cases)
  case a: (1 x)
  show ?thesis
    using assms(3)
  proof (cases rule: sort_rank_cases)
    case b: (1 y)
    show ?thesis using a b by (cases x; cases y) (simp_all add: bool_cmp cmp_Cons then_with_def cmp_def)
  next
    case b: (2 j)
    show ?thesis using a b bool_integer_cmp(1) [OF b(1)] by (simp add: cmp_Cons then_with_def cmp_def)
  qed
next
  case a: (2 i)
  show ?thesis
    using assms(3)
  proof (cases rule: sort_rank_cases)
    case b: (1 y)
    show ?thesis using a b bool_integer_cmp(2) [OF a(1)] by (simp add: cmp_Cons then_with_def cmp_def)
  next
    case b: (2 j)
    have "chosen_cmp S k a b = cmp (io_value i) (io_value j)"
      unfolding chosen_cmp_def
      using compare_order_keys_integers [OF assms(1) a(1) b(1)] compare_cypher_order_integers [OF assms(1) a(1) b(1)]
        compare_or_order_integers [OF assms(1) a(1) b(1)] by simp
    then show ?thesis using a b by (simp add: cmp_Cons then_with_def)
  qed
qed

lemma cmp_uminus: "cmp (- x) (- y) = cmp y x" for x y :: int
  by (auto simp: cmp_def)

lemma sort_rank_length: "sort_rank v = Some n \<Longrightarrow> \<exists>x y. n = [x, y]"
  by (auto elim: sort_rank_cases)

lemma compare_for_sort_rank:
  assumes "integers_exact (st_order S)" "sortable a" "sortable b"
  shows "compare_for_sort S k a b = cmp (key_rank k a) (key_rank k b)"
proof -
  have null: "null_before k = Less \<or> null_before k = Greater"
    by (simp add: null_before_def split: nulls_order.split sort_dir.split)
  show ?thesis
  proof (cases "a = V_Null \<or> b = V_Null")
    case True
    then show ?thesis
      using null by (auto simp: compare_for_sort_def key_rank_def cmp_Cons then_with_def cmp_def)
  next
    case False
    then obtain m n where r: "sort_rank a = Some m" "sort_rank b = Some n"
      using assms(2,3) by (auto simp: sortable_def)
    obtain m1 m2 n1 n2 where "m = [m1, m2]" "n = [n1, n2]"
      using sort_rank_length r by blast
    then show ?thesis
      using False r chosen_cmp_rank [OF assms(1) r, of k]
      by (cases "sk_dir k"; simp add: compare_for_sort_def key_rank_def cmp_Cons cmp_uminus flip: chosen_cmp_def)
        (auto simp: then_with_def cmp_def)
  qed
qed

lemma key_rank_length: "sortable v \<Longrightarrow> length (key_rank k v) = 3"
  using sort_rank_length [of v] by (auto simp: sortable_def key_rank_def)

lemma compare_keys_rank:
  assumes "integers_exact (st_order S)" "list_all sortable as" "list_all sortable bs"
    "length as = length ks" "length bs = length ks"
  shows "compare_keys S ks as bs = cmp (concat (map2 key_rank ks as)) (concat (map2 key_rank ks bs))"
  using assms(2-5)
proof (induction ks arbitrary: as bs)
  case (Cons k ks)
  obtain a as' b bs' where e: "as = a # as'" "bs = b # bs'"
    using Cons.prems(3,4) by (cases as; cases bs) auto
  then have "compare_for_sort S k a b = cmp (key_rank k a) (key_rank k b)"
    "compare_keys S ks as' bs' = cmp (concat (map2 key_rank ks as')) (concat (map2 key_rank ks bs'))"
    using Cons compare_for_sort_rank [OF assms(1)] by auto
  then show ?case
    using Cons.prems e by (simp add: cmp_append key_rank_length then_with_def)
qed simp

lemma collect_all:
  assumes "\<And>x. x \<in> set xs \<Longrightarrow> f x = Inr (h x)"
  shows "collect f xs = Inr (map h xs)"
  using assms by (induction xs) auto

lemma sort_key_map: "map f (sort_key (\<lambda>x. h (f x)) xs) = sort_key h (map f xs)"
proof (induction xs)
  case (Cons x xs)
  have "map f (insort_key (\<lambda>x. h (f x)) x ys) = insort_key h (f x) (map f ys)" for ys
    by (induction ys) auto
  then show ?case using Cons by simp
qed simp

text \<open>
  C33: \<open>ORDER BY\<close> on keys that are Booleans, integers of any type or null is the stable sort of the rows
  by the ranks of their keys, taken in turn: Booleans before integers, integers by value, a descending
  key reversed, and nulls where the key puts them, whichever of the three comparisons the key uses.  The
  library hypothesis is that decimals of scale 0 compare as numbers.
\<close>

theorem order_by_is_stable_sort:
  assumes "integers_exact (st_order S)"
    and "\<And>r k. r \<in> set rows \<Longrightarrow> k \<in> set keys \<Longrightarrow>
      \<exists>v. eval (st_eval S) g (sk_expr k) r = Inr v \<and> sortable v"
  shows "sort_op S g keys rows =
    Inr (sort_key (\<lambda>r. concat (map (\<lambda>k. key_rank k (value_at S g k r)) keys)) rows)"
proof -
  let ?vs = "\<lambda>r. map (\<lambda>k. value_at S g k r) keys"
  have at: "eval (st_eval S) g (sk_expr k) r = Inr (value_at S g k r)" "sortable (value_at S g k r)"
    if "r \<in> set rows" "k \<in> set keys" for r k
    using assms(2) [OF that] by (auto simp: value_at_def)
  have "key_values S g keys r = Inr (?vs r)" if "r \<in> set rows" for r
    unfolding key_values_def by (rule collect_all) (use at that in simp)
  then have "collect (\<lambda>r. bind_res (key_values S g keys r) (\<lambda>vs. Inr (vs, r))) rows = Inr (map (\<lambda>r. (?vs r, r)) rows)"
    by (intro collect_all) simp
  moreover have "sort_cmp (\<lambda>a b. compare_keys S keys (fst a) (fst b)) (map (\<lambda>r. (?vs r, r)) rows) =
      sort_key (\<lambda>d. concat (map2 key_rank keys (fst d))) (map (\<lambda>r. (?vs r, r)) rows)"
    by (rule sort_cmp_sort_key) (use at in \<open>auto simp: list_all_iff intro!: compare_keys_rank [OF assms(1)]\<close>)
  moreover have "map snd (sort_key (\<lambda>d. concat (map2 key_rank keys (fst d))) (map (\<lambda>r. (?vs r, r)) rows)) =
      sort_key (\<lambda>r. concat (map (\<lambda>k. key_rank k (value_at S g k r)) keys)) rows"
  proof -
    have "map2 key_rank keys (map (\<lambda>k. value_at S g k r) keys) = map (\<lambda>k. key_rank k (value_at S g k r)) keys" for r
      by (induction keys) auto
    then show ?thesis
      by (simp add: comp_def flip: sort_key_map [of "\<lambda>r. (?vs r, r)"])
  qed
  ultimately show ?thesis by (simp add: sort_op_def)
qed

definition plain_sort_lib :: sort_lib where
  "plain_sort_lib = \<lparr>st_rows = plain_row_lib, data_type_cmp = (\<lambda>_ _. Equal), transport_other = (\<lambda>_. None),
     f64_to_f32 = (\<lambda>_. 0), spelled_decimal = (\<lambda>_. None)\<rparr>"

theorem order_by_is_stable_sort_witness:
  "sort_op plain_sort_lib new_graph [\<lparr>sk_expr = E_Binding ''x'', sk_dir = SD_Desc, sk_nulls = NO_Last\<rparr>]
     [row_bind ''x'' (V_UInt8 1) row_new, row_new, row_bind ''x'' (V_Int 2) row_new] =
   Inr [row_bind ''x'' (V_Int 2) row_new, row_bind ''x'' (V_UInt8 1) row_new, row_new]"
proof -
  let ?rows = "[row_bind ''x'' (V_UInt8 1) row_new, row_new, row_bind ''x'' (V_Int 2) row_new]"
  let ?k = "\<lparr>sk_expr = E_Binding ''x'', sk_dir = SD_Desc, sk_nulls = NO_Last\<rparr>"
  note defs = value_at_def key_rank_def sort_rank_def integer_operand_of_def row_get_def row_bind_def row_new_def null_before_def
  have exact: "integers_exact (st_order plain_sort_lib)"
    by (simp add: plain_sort_lib_def plain_row_lib_def plain_eval_lib_def)
  have "\<exists>v. eval (st_eval plain_sort_lib) new_graph (sk_expr k) r = Inr v \<and> sortable v"
    if "r \<in> set ?rows" "k \<in> set [?k]" for r k
    using that by (auto simp: defs sortable_def)
  from order_by_is_stable_sort [of plain_sort_lib ?rows "[?k]" new_graph, OF exact this]
  have "sort_op plain_sort_lib new_graph [?k] ?rows =
      Inr (sort_key (\<lambda>r. concat (map (\<lambda>k. key_rank k (value_at plain_sort_lib new_graph k r)) [?k])) ?rows)" .
  then show ?thesis by (simp add: defs)
qed


text \<open>
  The order of Gremlin sort keys is not transitive: an integer and a double compare as doubles, so two
  integers that round to the same double are equal to it and not to each other.
\<close>

lemma gremlin_order_intransitive:
  assumes "integers_exact (st_order S)" "m <s n" "\<not> f64_is_nan x"
    and "decimal_to_f64 (st_arith S) (sint m, 0) = Some x" "decimal_to_f64 (st_arith S) (sint n, 0) = Some x"
  shows "compare_order_keys S (V_Long m) (V_Float x) = Equal \<and> compare_order_keys S (V_Float x) (V_Long n) = Equal \<and>
    compare_order_keys S (V_Long m) (V_Long n) = Less"
proof -
  have "compare_order_keys S (V_Long m) (V_Long n) = Less"
    using compare_order_keys_integers [OF assms(1), of "V_Long m" _ "V_Long n"] assms(2)
    by (simp add: integer_operand_of_def word_sless_alt)
  then show ?thesis
    using assms
    by (simp add: compare_order_keys.simps [of S "V_Long m" "V_Float x"] compare_order_keys.simps [of S "V_Float x"]
        numeric_width_def transported_def transport_scalar_def gremlin_is_nan_def val_is_nan_def numeric_cmp_def both_def
        gremlin_double_def gremlin_decimal_def)
qed

end
