(* ===== verification/Row_Aggregation.thy ===== *)
theory Row_Aggregation
  imports Value_Order
begin

text \<open>
  Aggregation of rows (\<open>src/src/ir/runtime/ops/aggregate.rs\<close>): grouping by key, and the aggregate
  functions with bulks as weights.

  The float functions beyond the arithmetic of the evaluator, the sum of a list of floats and the
  aggregates of the database engine are the fields of \<open>agg_lib\<close>.  An index out of bounds, which panics,
  is the error \<open>index_panic\<close>.
\<close>

record agg_lib =
  ag_sort :: sort_lib
  ag_keys :: key_lib
  f_sum :: "f64 list \<Rightarrow> f64"
  f_sqrt :: "f64 \<Rightarrow> f64"
  f_floor :: "f64 \<Rightarrow> nat"
  f_ceil :: "f64 \<Rightarrow> nat"
  engine_aggregate :: "string \<Rightarrow> ir_expr list \<Rightarrow> row list \<Rightarrow> property_graph \<Rightarrow> bool \<Rightarrow> runtime_error + val"

abbreviation ag_eval :: "agg_lib \<Rightarrow> eval_lib" where
  "ag_eval G \<equiv> st_eval (ag_sort G)"

abbreviation ag_arith :: "agg_lib \<Rightarrow> arith_lib" where
  "ag_arith G \<equiv> st_arith (ag_sort G)"

abbreviation ag_order :: "agg_lib \<Rightarrow> order_lib" where
  "ag_order G \<equiv> st_order (ag_sort G)"

datatype agg_kind =
    AK_EngineFunction | AK_CountRows | AK_CountBulk | AK_CountDistinct | AK_CountIf
  | AK_Sum | AK_Avg | AK_Min | AK_Max | AK_SumOrZero | AK_AvgOrZero | AK_AvgOrNull | AK_MinOrNull | AK_MaxOrNull
  | AK_StDev | AK_StDevP | AK_PercentileCont | AK_PercentileDisc
  | AK_CollectRows | AK_CollectNonNull | AK_CollectTraversers

record agg_call =
  ag_kind :: agg_kind
  ag_name :: string
  ag_arg :: "ir_expr option"
  ag_distinct :: bool

definition agg_identity :: "agg_kind \<Rightarrow> val" where
  "agg_identity k =
     (case k of
        AK_CountRows \<Rightarrow> V_Long 0 | AK_CountBulk \<Rightarrow> V_Long 0 | AK_CountDistinct \<Rightarrow> V_Long 0 | AK_CountIf \<Rightarrow> V_Long 0
      | AK_Sum \<Rightarrow> V_Int 0 | AK_SumOrZero \<Rightarrow> V_Int 0
      | AK_AvgOrZero \<Rightarrow> V_Float 0
      | AK_AvgOrNull \<Rightarrow> V_Null
      | AK_StDev \<Rightarrow> V_Float 0 | AK_StDevP \<Rightarrow> V_Float 0
      | AK_CollectRows \<Rightarrow> V_List [] | AK_CollectNonNull \<Rightarrow> V_List [] | AK_CollectTraversers \<Rightarrow> V_List []
      | _ \<Rightarrow> V_Null)"

section \<open>The values an aggregate reads\<close>

definition value_key :: "agg_lib \<Rightarrow> bool \<Rightarrow> val \<Rightarrow> bytes" where
  "value_key G cypher v =
     (if cypher then encode_cypher_equivalence (ag_keys G) v else runtime_encode_value (kl_values (ag_keys G)) v)"

text \<open>\<open>aggregate_weighted_values\<close>; \<open>seen\<close> holds the keys of the values already read when \<open>dist\<close> asks for that.\<close>

fun weighted_loop ::
  "agg_lib \<Rightarrow> property_graph \<Rightarrow> ir_expr \<Rightarrow> bool \<Rightarrow> bool \<Rightarrow> bytes set \<Rightarrow> row list \<Rightarrow> runtime_error + (val \<times> u64) list" where
  "weighted_loop G g e dist cypher seen [] = Inr []"
| "weighted_loop G g e dist cypher seen (r # rows) =
     (if row_bulk r = 0 then weighted_loop G g e dist cypher seen rows
      else bind_res (eval (ag_eval G) g e r) (\<lambda>v.
        if v = V_Null then weighted_loop G g e dist cypher seen rows
        else if dist \<and> value_key G cypher v \<in> seen then weighted_loop G g e dist cypher seen rows
        else bind_res (weighted_loop G g e dist cypher (if dist then insert (value_key G cypher v) seen else seen) rows)
          (\<lambda>vs. Inr ((v, if dist then 1 else row_bulk r) # vs))))"

definition aggregate_weighted_values ::
  "agg_lib \<Rightarrow> property_graph \<Rightarrow> ir_expr \<Rightarrow> bool \<Rightarrow> bool \<Rightarrow> row list \<Rightarrow> runtime_error + (val \<times> u64) list" where
  "aggregate_weighted_values G g e dist cypher rows = weighted_loop G g e dist cypher {} rows"

definition aggregate_values ::
  "agg_lib \<Rightarrow> property_graph \<Rightarrow> ir_expr \<Rightarrow> bool \<Rightarrow> bool \<Rightarrow> row list \<Rightarrow> runtime_error + val list" where
  "aggregate_values G g e dist cypher rows =
     bind_res (aggregate_weighted_values G g e dist cypher rows) (\<lambda>vs. Inr (map fst vs))"

definition numeric_f64 :: "agg_lib \<Rightarrow> val \<Rightarrow> f64 option" where
  "numeric_f64 G v =
     (case v of
        V_Byte n \<Rightarrow> Some (f_of_int (ag_arith G) (sint n))
      | V_Short n \<Rightarrow> Some (f_of_int (ag_arith G) (sint n))
      | V_Int n \<Rightarrow> Some (f_of_int (ag_arith G) (sint n))
      | V_Long n \<Rightarrow> Some (f_of_int (ag_arith G) (sint n))
      | V_Float32 x \<Rightarrow> Some (f_of_f32 (ag_arith G) x)
      | V_Float x \<Rightarrow> Some x
      | V_BigInt n \<Rightarrow> bigint_to_f64 (ag_arith G) n
      | V_BigDecimal n s \<Rightarrow> decimal_to_f64 (ag_arith G) (n, s)
      | _ \<Rightarrow> None)"

definition numeric_aggregate_values ::
  "agg_lib \<Rightarrow> property_graph \<Rightarrow> ir_expr \<Rightarrow> bool \<Rightarrow> bool \<Rightarrow> row list \<Rightarrow> runtime_error + f64 list" where
  "numeric_aggregate_values G g e dist cypher rows =
     bind_res (aggregate_values G g e dist cypher rows) (\<lambda>vs. Inr (List.map_filter (numeric_f64 G) vs))"

definition aggregate_truthy :: "agg_lib \<Rightarrow> val \<Rightarrow> bool" where
  "aggregate_truthy G v =
     (case v of
        V_Bool b \<Rightarrow> b
      | V_Byte n \<Rightarrow> n \<noteq> 0 | V_UInt8 n \<Rightarrow> n \<noteq> 0 | V_Short n \<Rightarrow> n \<noteq> 0 | V_UInt16 n \<Rightarrow> n \<noteq> 0
      | V_Int n \<Rightarrow> n \<noteq> 0 | V_Long n \<Rightarrow> n \<noteq> 0 | V_UInt32 n \<Rightarrow> n \<noteq> 0 | V_UInt64 n \<Rightarrow> n \<noteq> 0
      | V_Float32 x \<Rightarrow> \<not> f32_is_nan x \<and> \<not> f32_eq x 0
      | V_Float x \<Rightarrow> \<not> f64_is_nan x \<and> \<not> f64_eq x 0
      | V_BigInt n \<Rightarrow> n \<noteq> 0 | V_UInt128 n \<Rightarrow> n \<noteq> 0
      | V_BigDecimal n s \<Rightarrow> \<not> decimal_is_zero (ag_arith G) (n, s)
      | _ \<Rightarrow> False)"

section \<open>Counts\<close>

text \<open>A row whose argument fails to evaluate is not counted.\<close>

definition count_rows :: "agg_lib \<Rightarrow> property_graph \<Rightarrow> ir_expr option \<Rightarrow> row list \<Rightarrow> nat" where
  "count_rows G g e rows =
     (case e of
        None \<Rightarrow> length rows
      | Some e \<Rightarrow> length (filter (\<lambda>r. case eval (ag_eval G) g e r of Inr v \<Rightarrow> v \<noteq> V_Null | Inl _ \<Rightarrow> False) rows))"

definition aggregate_bulk_overflow :: runtime_error where
  "aggregate_bulk_overflow = RE_ExecutionLimit ''aggregate traverser bulk overflow''"

fun checked_bulk_loop :: "nat \<Rightarrow> row list \<Rightarrow> runtime_error + nat" where
  "checked_bulk_loop acc [] = Inr acc"
| "checked_bulk_loop acc (r # rows) =
     (if acc + unat (row_bulk r) < 2 ^ 64 then checked_bulk_loop (acc + unat (row_bulk r)) rows
      else Inl aggregate_bulk_overflow)"

definition checked_bulk_total :: "row list \<Rightarrow> runtime_error + nat" where
  "checked_bulk_total rows = checked_bulk_loop 0 rows"

fun count_distinct :: "agg_lib \<Rightarrow> property_graph \<Rightarrow> ir_expr \<Rightarrow> bool \<Rightarrow> bytes set \<Rightarrow> row list \<Rightarrow> runtime_error + nat" where
  "count_distinct G g e cypher seen [] = Inr 0"
| "count_distinct G g e cypher seen (r # rows) =
     bind_res (eval (ag_eval G) g e r) (\<lambda>v.
       if v = V_Null \<or> value_key G cypher v \<in> seen then count_distinct G g e cypher seen rows
       else bind_res (count_distinct G g e cypher (insert (value_key G cypher v) seen) rows) (\<lambda>n. Inr (Suc n)))"

fun count_if :: "agg_lib \<Rightarrow> property_graph \<Rightarrow> ir_expr \<Rightarrow> bool \<Rightarrow> bool \<Rightarrow> bytes set \<Rightarrow> row list \<Rightarrow> runtime_error + nat" where
  "count_if G g e dist cypher seen [] = Inr 0"
| "count_if G g e dist cypher seen (r # rows) =
     bind_res (eval (ag_eval G) g e r) (\<lambda>v.
       if dist \<and> value_key G cypher v \<in> seen then count_if G g e dist cypher seen rows
       else bind_res (count_if G g e dist cypher (if dist then insert (value_key G cypher v) seen else seen) rows)
         (\<lambda>n. Inr (if aggregate_truthy G v then Suc n else n)))"


section \<open>Sums and averages\<close>

record sum_state =
  ss_int :: int
  ss_bigint :: int
  ss_decimal :: decimal
  ss_float :: f64
  ss_have_bigint :: bool
  ss_have_decimal :: bool
  ss_have_float :: bool

text \<open>The product and the sum are computed in \<open>i128\<close>, which holds them (\<open>weighted_fits_i128\<close>).\<close>

definition add_weighted_integer :: "int \<Rightarrow> int \<Rightarrow> u64 \<Rightarrow> runtime_error + int" where
  "add_weighted_integer acc n weight =
     (let s = acc + n * uint weight in
      if - (2 ^ 63) \<le> s \<and> s < 2 ^ 63 then Inr s else Inl (RE_Runtime ''integer sum overflow''))"

definition add_float :: "agg_lib \<Rightarrow> f64 \<Rightarrow> f64 \<Rightarrow> u64 \<Rightarrow> f64" where
  "add_float G acc x weight =
     f_arith (ag_arith G) BO_Add acc (f_arith (ag_arith G) BO_Mul x (f_of_int (ag_arith G) (uint weight)))"

definition sum_step :: "agg_lib \<Rightarrow> sum_state \<Rightarrow> val \<Rightarrow> u64 \<Rightarrow> runtime_error + sum_state" where
  "sum_step G s v weight =
     (let A = ag_arith G;
          integer = (\<lambda>n. bind_res (add_weighted_integer (ss_int s) n weight) (\<lambda>t. Inr (s\<lparr>ss_int := t\<rparr>)))
      in case v of
           V_Byte n \<Rightarrow> integer (sint n)
         | V_Short n \<Rightarrow> integer (sint n)
         | V_Int n \<Rightarrow> integer (sint n)
         | V_Long n \<Rightarrow> integer (sint n)
         | V_Float32 x \<Rightarrow> Inr (s\<lparr>ss_have_float := True, ss_float := add_float G (ss_float s) (f_of_f32 A x) weight\<rparr>)
         | V_Float x \<Rightarrow> Inr (s\<lparr>ss_have_float := True, ss_float := add_float G (ss_float s) x weight\<rparr>)
         | V_BigInt n \<Rightarrow> Inr (s\<lparr>ss_have_bigint := True, ss_bigint := ss_bigint s + n * uint weight\<rparr>)
         | V_BigDecimal n d \<Rightarrow> Inr (s\<lparr>ss_have_decimal := True,
             ss_decimal := decimal_arith A BO_Add (ss_decimal s)
               (decimal_arith A BO_Mul (n, d) (decimal_of_int A (uint weight)))\<rparr>)
         | _ \<Rightarrow> Inr s)"

fun sum_loop :: "agg_lib \<Rightarrow> sum_state \<Rightarrow> (val \<times> u64) list \<Rightarrow> runtime_error + sum_state" where
  "sum_loop G s [] = Inr s"
| "sum_loop G s (p # ps) = bind_res (sum_step G s (fst p) (snd p)) (\<lambda>s. sum_loop G s ps)"

definition sum_start :: "agg_lib \<Rightarrow> sum_state" where
  "sum_start G = \<lparr>ss_int = 0, ss_bigint = 0, ss_decimal = decimal_of_int (ag_arith G) 0, ss_float = 0,
     ss_have_bigint = False, ss_have_decimal = False, ss_have_float = False\<rparr>"

definition sum_result :: "agg_lib \<Rightarrow> sum_state \<Rightarrow> val" where
  "sum_result G s =
     (let A = ag_arith G; or_zero = (\<lambda>x. case x of Some y \<Rightarrow> y | None \<Rightarrow> 0) in
      if ss_have_float s then
        V_Float (f_arith A BO_Add (f_arith A BO_Add (f_arith A BO_Add (ss_float s) (f_of_int A (ss_int s)))
          (or_zero (bigint_to_f64 A (ss_bigint s)))) (or_zero (decimal_to_f64 A (ss_decimal s))))
      else if ss_have_decimal s then
        (case decimal_arith A BO_Add (decimal_arith A BO_Add (ss_decimal s) (decimal_of_int A (ss_bigint s)))
            (decimal_of_int A (ss_int s)) of (n, d) \<Rightarrow> V_BigDecimal n d)
      else if ss_have_bigint s then V_BigInt (ss_bigint s + ss_int s)
      else V_Int (word_of_int (ss_int s)))"

definition aggregate_sum :: "agg_lib \<Rightarrow> (val \<times> u64) list \<Rightarrow> runtime_error + val" where
  "aggregate_sum G ps = bind_res (sum_loop G (sum_start G) ps) (\<lambda>s. Inr (sum_result G s))"

definition avg_operand :: "agg_lib \<Rightarrow> val \<Rightarrow> f64 option" where
  "avg_operand G v =
     (case v of
        V_Byte n \<Rightarrow> Some (f_of_int (ag_arith G) (sint n))
      | V_Short n \<Rightarrow> Some (f_of_int (ag_arith G) (sint n))
      | V_Int n \<Rightarrow> Some (f_of_int (ag_arith G) (sint n))
      | V_Long n \<Rightarrow> Some (f_of_int (ag_arith G) (sint n))
      | V_Float32 x \<Rightarrow> Some (f_of_f32 (ag_arith G) x)
      | V_Float x \<Rightarrow> Some x
      | _ \<Rightarrow> None)"

fun avg_loop :: "agg_lib \<Rightarrow> f64 \<Rightarrow> nat \<Rightarrow> (val \<times> u64) list \<Rightarrow> runtime_error + (f64 \<times> nat)" where
  "avg_loop G s n [] = Inr (s, n)"
| "avg_loop G s n (p # ps) =
     (case avg_operand G (fst p) of
        None \<Rightarrow> avg_loop G s n ps
      | Some x \<Rightarrow>
          if n + unat (snd p) < 2 ^ 64 then avg_loop G (add_float G s x (snd p)) (n + unat (snd p)) ps
          else Inl (RE_Runtime ''aggregate bulk overflow''))"

definition aggregate_avg :: "agg_lib \<Rightarrow> agg_kind \<Rightarrow> (val \<times> u64) list \<Rightarrow> runtime_error + val" where
  "aggregate_avg G kind ps =
     bind_res (avg_loop G 0 0 ps) (\<lambda>(s, n).
       Inr (if n = 0 then if kind = AK_AvgOrZero then V_Float 0 else V_Null
            else V_Float (f_arith (ag_arith G) BO_Div s (f_of_int (ag_arith G) (int n)))))"

section \<open>Extremes\<close>

definition extreme_rank :: "val \<Rightarrow> nat" where
  "extreme_rank v =
     (case v of
        V_Map _ \<Rightarrow> 0
      | V_Node _ _ \<Rightarrow> 1
      | V_Edge _ _ _ _ _ _ _ \<Rightarrow> 2
      | V_List _ \<Rightarrow> 3 | V_Path _ \<Rightarrow> 3
      | V_DateTime _ \<Rightarrow> 4
      | V_String _ \<Rightarrow> 5
      | V_Bool _ \<Rightarrow> 6
      | _ \<Rightarrow> 7)"

definition extreme_cmp :: "order_lib \<Rightarrow> val \<Rightarrow> val \<Rightarrow> ordering option" where
  "extreme_cmp L a b =
     (case three_valued_cmp L a b of
        Some c \<Rightarrow> Some c
      | None \<Rightarrow> if a = V_Null \<or> b = V_Null then None else Some (cmp (extreme_rank a) (extreme_rank b)))"

definition extreme_step :: "order_lib \<Rightarrow> bool \<Rightarrow> val option \<Rightarrow> val \<Rightarrow> val option" where
  "extreme_step L least current v =
     (case current of
        None \<Rightarrow> Some v
      | Some e \<Rightarrow> if extreme_cmp L e v = Some (if least then Greater else Less) then Some v else Some e)"

definition aggregate_extreme :: "order_lib \<Rightarrow> bool \<Rightarrow> val list \<Rightarrow> val" where
  "aggregate_extreme L least vs =
     (case foldl (extreme_step L least) None vs of Some v \<Rightarrow> v | None \<Rightarrow> V_Null)"

section \<open>Deviations and percentiles\<close>

definition stddev :: "agg_lib \<Rightarrow> f64 list \<Rightarrow> bool \<Rightarrow> f64" where
  "stddev G xs sample =
     (let A = ag_arith G; n = length xs in
      if n = 0 \<or> sample \<and> n = 1 then 0
      else let mean = f_arith A BO_Div (f_sum G xs) (f_of_int A (int n));
               squares = map (\<lambda>x. let d = f_arith A BO_Sub x mean in f_arith A BO_Mul d d) xs
           in f_sqrt G (f_arith A BO_Div (f_sum G squares) (f_of_int A (int (if sample then n - 1 else n)))))"

definition f64_clamp_unit :: "f64 \<Rightarrow> f64" where
  "f64_clamp_unit x =
     (if f64_partial_cmp x 0 = Some Less then 0
      else if f64_partial_cmp x 0x3FF0000000000000 = Some Greater then 0x3FF0000000000000 else x)"

definition percentile_value :: "agg_lib \<Rightarrow> property_graph \<Rightarrow> ir_expr \<Rightarrow> row list \<Rightarrow> runtime_error + f64 option" where
  "percentile_value G g e rows =
     bind_res (eval (ag_eval G) g e (case rows of r # _ \<Rightarrow> r | [] \<Rightarrow> row_new))
       (\<lambda>v. Inr (map_option f64_clamp_unit (numeric_f64 G v)))"

definition index_panic :: runtime_error where
  "index_panic = RE_Runtime ''index out of bounds''"

definition value_at_index :: "'a list \<Rightarrow> nat \<Rightarrow> runtime_error + 'a" where
  "value_at_index xs i = (if i < length xs then Inr (xs ! i) else Inl index_panic)"

definition percentile_cont :: "agg_lib \<Rightarrow> f64 list \<Rightarrow> f64 \<Rightarrow> runtime_error + f64" where
  "percentile_cont G xs p =
     (if length xs = 1 then Inr (xs ! 0)
      else let A = ag_arith G;
               rank = f_arith A BO_Mul p (f_of_int A (int (length xs - 1)));
               lower = f_floor G rank; upper = f_ceil G rank
           in if lower = upper then value_at_index xs lower
              else bind_res (value_at_index xs lower) (\<lambda>x. bind_res (value_at_index xs upper) (\<lambda>y.
                Inr (f_arith A BO_Add x (f_arith A BO_Mul (f_arith A BO_Sub y x)
                  (f_arith A BO_Sub rank (f_of_int A (int lower))))))))"

definition percentile_disc_value :: "agg_lib \<Rightarrow> val list \<Rightarrow> f64 \<Rightarrow> val" where
  "percentile_disc_value G vs p =
     (let sorted = sort_cmp (compare_cypher_order (ag_sort G)) vs;
          i = f_ceil G (f_arith (ag_arith G) BO_Mul p (f_of_int (ag_arith G) (int (length vs)))) - 1
      in sorted ! min i (length vs - 1))"

definition f64_sort :: "f64 list \<Rightarrow> f64 list" where
  "f64_sort xs = sort_cmp (\<lambda>a b. case f64_partial_cmp a b of Some c \<Rightarrow> c | None \<Rightarrow> Equal) xs"

definition aggregate_percentile ::
  "agg_lib \<Rightarrow> property_graph \<Rightarrow> agg_call \<Rightarrow> bool \<Rightarrow> ir_expr \<Rightarrow> row list \<Rightarrow> runtime_error + val" where
  "aggregate_percentile G g agg cypher e rows =
     (case e of
        E_List [value_expr, percentile_expr] \<Rightarrow>
          bind_res (percentile_value G g percentile_expr rows) (\<lambda>q.
            case q of
              None \<Rightarrow> Inr V_Null
            | Some p \<Rightarrow>
                if ag_kind agg = AK_PercentileDisc then
                  bind_res (aggregate_values G g value_expr (ag_distinct agg) cypher rows) (\<lambda>vs.
                    let vs = filter (\<lambda>v. numeric_f64 G v \<noteq> None) vs
                    in Inr (if vs = [] then V_Null else percentile_disc_value G vs p))
                else
                  bind_res (numeric_aggregate_values G g value_expr (ag_distinct agg) cypher rows) (\<lambda>xs.
                    if xs = [] then Inr V_Null
                    else bind_res (percentile_cont G (f64_sort xs) p) (\<lambda>x. Inr (V_Float x))))
      | _ \<Rightarrow> Inl (RE_Type ''percentile aggregate requires value and percentile arguments''))"


section \<open>Collection\<close>

definition dropped_null :: "agg_kind \<Rightarrow> ir_expr \<Rightarrow> val \<Rightarrow> bool" where
  "dropped_null kind e v \<longleftrightarrow>
     v = V_Null \<and>
     (kind = AK_CollectRows \<or> kind = AK_CollectNonNull \<or>
      (case e of E_Property _ _ policy \<Rightarrow> policy = PM_DropUnproductive | _ \<Rightarrow> False))"

fun collect_loop ::
  "agg_lib \<Rightarrow> property_graph \<Rightarrow> agg_kind \<Rightarrow> ir_expr \<Rightarrow> bool \<Rightarrow> bool \<Rightarrow> bytes set \<Rightarrow> row list \<Rightarrow> runtime_error + val list" where
  "collect_loop G g kind e dist cypher seen [] = Inr []"
| "collect_loop G g kind e dist cypher seen (r # rows) =
     bind_res (eval (ag_eval G) g e r) (\<lambda>v.
       if dropped_null kind e v \<or> dist \<and> value_key G cypher v \<in> seen
       then collect_loop G g kind e dist cypher seen rows
       else bind_res (collect_loop G g kind e dist cypher (if dist then insert (value_key G cypher v) seen else seen) rows)
         (\<lambda>vs. Inr ((if kind = AK_CollectTraversers then replicate (unat (row_bulk r)) v else [v]) @ vs)))"

definition aggregate_collect ::
  "agg_lib \<Rightarrow> property_graph \<Rightarrow> agg_call \<Rightarrow> bool \<Rightarrow> ir_expr \<Rightarrow> row list \<Rightarrow> runtime_error + val" where
  "aggregate_collect G g agg cypher e rows =
     bind_res (collect_loop G g (ag_kind agg) e (ag_distinct agg) cypher {} rows) (\<lambda>vs.
       Inr (if ag_kind agg = AK_CollectRows \<and> rows \<noteq> [] \<and> vs = [] then V_Null else V_List vs))"

section \<open>The aggregates\<close>

definition long_of_nat :: "nat \<Rightarrow> val" where
  "long_of_nat n = V_Long (of_nat n)"

definition requires_argument :: "agg_call \<Rightarrow> string \<Rightarrow> (ir_expr \<Rightarrow> runtime_error + val) \<Rightarrow> runtime_error + val" where
  "requires_argument agg message f =
     (case ag_arg agg of None \<Rightarrow> Inl (RE_Type message) | Some e \<Rightarrow> f e)"

definition compute_aggregate_with_cypher_equivalence ::
  "agg_lib \<Rightarrow> property_graph \<Rightarrow> agg_call \<Rightarrow> bool \<Rightarrow> row list \<Rightarrow> runtime_error + val" where
  "compute_aggregate_with_cypher_equivalence G g agg cypher rows =
     (let weighted = (\<lambda>f message. requires_argument agg message (\<lambda>e.
            bind_res (aggregate_weighted_values G g e (ag_distinct agg) cypher rows) f));
          extreme = (\<lambda>least. requires_argument agg ''min/max requires an argument'' (\<lambda>e.
            bind_res (aggregate_values G g e (ag_distinct agg) cypher rows) (\<lambda>vs.
              Inr (aggregate_extreme (ag_order G) least vs))));
          deviation = (\<lambda>sample. requires_argument agg ''stDev requires an argument'' (\<lambda>e.
            bind_res (numeric_aggregate_values G g e (ag_distinct agg) cypher rows) (\<lambda>xs.
              Inr (V_Float (stddev G xs sample)))));
          average = weighted (aggregate_avg G (ag_kind agg)) ''avg requires an argument'';
          percentile = requires_argument agg ''percentile aggregate requires arguments''
            (\<lambda>e. aggregate_percentile G g agg cypher e rows);
          collected = requires_argument agg ''collect requires an argument''
            (\<lambda>e. aggregate_collect G g agg cypher e rows)
      in case ag_kind agg of
           AK_EngineFunction \<Rightarrow>
             (case ag_arg agg of
                Some (E_Call name args) \<Rightarrow> engine_aggregate G name args rows g (ag_distinct agg)
              | _ \<Rightarrow> Inl (RE_Type ''Missing DuckDB aggregate call''))
         | AK_CountRows \<Rightarrow> Inr (long_of_nat (count_rows G g (ag_arg agg) rows))
         | AK_CountBulk \<Rightarrow> bind_res (checked_bulk_total rows) (\<lambda>n. Inr (long_of_nat n))
         | AK_CountDistinct \<Rightarrow> requires_argument agg ''count(distinct ?) requires arg'' (\<lambda>e.
             bind_res (count_distinct G g e cypher {} rows) (\<lambda>n. Inr (long_of_nat n)))
         | AK_CountIf \<Rightarrow> requires_argument agg ''count_if requires an argument'' (\<lambda>e.
             bind_res (count_if G g e (ag_distinct agg) cypher {} rows) (\<lambda>n. Inr (long_of_nat n)))
         | AK_Sum \<Rightarrow> weighted (aggregate_sum G) ''sum requires an argument''
         | AK_SumOrZero \<Rightarrow> weighted (aggregate_sum G) ''sum requires an argument''
         | AK_Avg \<Rightarrow> average | AK_AvgOrZero \<Rightarrow> average | AK_AvgOrNull \<Rightarrow> average
         | AK_Min \<Rightarrow> extreme True | AK_MinOrNull \<Rightarrow> extreme True
         | AK_Max \<Rightarrow> extreme False | AK_MaxOrNull \<Rightarrow> extreme False
         | AK_StDev \<Rightarrow> deviation True | AK_StDevP \<Rightarrow> deviation False
         | AK_PercentileCont \<Rightarrow> percentile | AK_PercentileDisc \<Rightarrow> percentile
         | AK_CollectRows \<Rightarrow> collected | AK_CollectNonNull \<Rightarrow> collected | AK_CollectTraversers \<Rightarrow> collected)"

definition compute_aggregate :: "agg_lib \<Rightarrow> property_graph \<Rightarrow> agg_call \<Rightarrow> row list \<Rightarrow> runtime_error + val" where
  "compute_aggregate G g agg rows = compute_aggregate_with_cypher_equivalence G g agg False rows"

section \<open>Groups\<close>

definition group_key :: "agg_lib \<Rightarrow> bool \<Rightarrow> val list \<Rightarrow> bytes" where
  "group_key G cypher vs =
     (if cypher then counted_parts (map (encode_cypher_equivalence (ag_keys G)) vs)
      else encode_key (kl_values (ag_keys G)) vs)"

definition group_values :: "agg_lib \<Rightarrow> property_graph \<Rightarrow> (string \<times> ir_expr) list \<Rightarrow> row \<Rightarrow> runtime_error + val list" where
  "group_values G g items r = collect (\<lambda>i. eval (ag_eval G) g (snd i) r) items"

definition push_row ::
  "bytes \<Rightarrow> val list \<Rightarrow> row \<Rightarrow> (bytes \<times> val list \<times> row list) list \<Rightarrow> (bytes \<times> val list \<times> row list) list" where
  "push_row k vs r groups =
     (case map_of groups k of
        None \<Rightarrow> bt_insert k (vs, [r]) groups
      | Some (ws, rs) \<Rightarrow> bt_insert k (ws, rs @ [r]) groups)"

fun group_rows ::
  "agg_lib \<Rightarrow> property_graph \<Rightarrow> (string \<times> ir_expr) list \<Rightarrow> bool \<Rightarrow> row list
   \<Rightarrow> (bytes \<times> val list \<times> row list) list \<Rightarrow> runtime_error + (bytes \<times> val list \<times> row list) list" where
  "group_rows G g items cypher [] groups = Inr groups"
| "group_rows G g items cypher (r # rows) groups =
     bind_res (group_values G g items r) (\<lambda>vs.
       group_rows G g items cypher rows (push_row (group_key G cypher vs) vs r groups))"

definition bind_aggregates ::
  "agg_lib \<Rightarrow> property_graph \<Rightarrow> bool \<Rightarrow> agg_call list \<Rightarrow> row list \<Rightarrow> row \<Rightarrow> runtime_error + row" where
  "bind_aggregates G g cypher aggs rows out =
     bind_res (collect (\<lambda>agg. bind_res (compute_aggregate_with_cypher_equivalence G g agg cypher rows)
         (\<lambda>v. Inr (ag_name agg, v))) aggs)
       (\<lambda>bound. Inr (fold (\<lambda>b. row_bind (fst b) (snd b)) bound out))"

definition group_row ::
  "agg_lib \<Rightarrow> property_graph \<Rightarrow> (string \<times> ir_expr) list \<Rightarrow> bool \<Rightarrow> agg_call list \<Rightarrow> val list \<times> row list \<Rightarrow> runtime_error + row" where
  "group_row G g items cypher aggs p =
     bind_aggregates G g cypher aggs (snd p) (fold (\<lambda>(i, v). row_bind (fst i) v) (zip items (fst p)) row_new)"

definition drops_on_empty :: "agg_kind \<Rightarrow> bool" where
  "drops_on_empty k \<longleftrightarrow> k \<in> {AK_Sum, AK_Min, AK_Max, AK_Avg}"

text \<open>The row of an ungrouped aggregate over no rows.\<close>

definition identity_row :: "agg_lib \<Rightarrow> property_graph \<Rightarrow> bool \<Rightarrow> agg_call list \<Rightarrow> runtime_error + row" where
  "identity_row G g cypher aggs =
     bind_res (collect (\<lambda>agg. bind_res
         (if ag_kind agg = AK_EngineFunction then compute_aggregate_with_cypher_equivalence G g agg cypher []
          else Inr (agg_identity (ag_kind agg))) (\<lambda>v. Inr (ag_name agg, v))) aggs)
       (\<lambda>bound. Inr (fold (\<lambda>b. row_bind (fst b) (snd b)) bound row_new))"

definition aggregate_op_with_cypher_equivalence ::
  "agg_lib \<Rightarrow> property_graph \<Rightarrow> (string \<times> ir_expr) list \<Rightarrow> agg_call list \<Rightarrow> bool \<Rightarrow> row list \<Rightarrow> runtime_error + row list" where
  "aggregate_op_with_cypher_equivalence G g items aggs cypher rows =
     bind_res (group_rows G g items cypher rows []) (\<lambda>groups.
       if items = [] \<and> groups = [] then
         if aggs \<noteq> [] \<and> list_all (\<lambda>agg. drops_on_empty (ag_kind agg)) aggs then Inr []
         else bind_res (identity_row G g cypher aggs) (\<lambda>r. Inr [r])
       else collect (\<lambda>p. group_row G g items cypher aggs (snd p)) groups)"

definition aggregate_op ::
  "agg_lib \<Rightarrow> property_graph \<Rightarrow> (string \<times> ir_expr) list \<Rightarrow> agg_call list \<Rightarrow> row list \<Rightarrow> runtime_error + row list" where
  "aggregate_op G g items aggs rows = aggregate_op_with_cypher_equivalence G g items aggs False rows"

definition unwrap_single_group_value :: "val \<Rightarrow> val" where
  "unwrap_single_group_value v = (case v of V_List [x] \<Rightarrow> x | _ \<Rightarrow> v)"

definition flatten_group_lists :: "val \<Rightarrow> val" where
  "flatten_group_lists v =
     (case v of
        V_List items \<Rightarrow> V_List (concat (map (\<lambda>i. case i of V_List nested \<Rightarrow> nested | _ \<Rightarrow> [i]) items))
      | _ \<Rightarrow> v)"


section \<open>Bulks are weights\<close>

lemma weighted_fits_i128:
  assumes "- (2 ^ 63) \<le> acc" "acc < 2 ^ 63" "- (2 ^ 63) \<le> n" "n < 2 ^ 63"
  shows "- (2 ^ 127) \<le> acc + n * uint (w :: u64)" "acc + n * uint w < 2 ^ 127"
proof -
  have w: "0 \<le> uint w" "uint w \<le> 2 ^ 64 - 1"
    using uint_lt2p [of w] by simp_all
  have "- (2 ^ 63) * (2 ^ 64 - 1) \<le> - (2 ^ 63) * uint w"
    using w by simp
  also have "\<dots> \<le> n * uint w"
    by (rule mult_right_mono) (use assms w in auto)
  finally have low: "- (2 ^ 63) * (2 ^ 64 - 1) \<le> n * uint w" .
  have "n * uint w \<le> 2 ^ 63 * uint w"
    by (rule mult_right_mono) (use assms w in auto)
  also have "\<dots> \<le> 2 ^ 63 * (2 ^ 64 - 1)"
    using w by simp
  finally have high: "n * uint w \<le> 2 ^ 63 * (2 ^ 64 - 1)" .
  show "- (2 ^ 127) \<le> acc + n * uint w" "acc + n * uint w < 2 ^ 127"
    using low high assms by simp_all
qed

text \<open>The weighted values spelled out one by one.\<close>

definition spread :: "(val \<times> u64) list \<Rightarrow> (val \<times> u64) list" where
  "spread ps = concat (map (\<lambda>p. replicate (unat (snd p)) (fst p, 1)) ps)"

lemma spread_simps [simp]:
  "spread [] = []" "spread (p # ps) = replicate (unat (snd p)) (fst p, 1) @ spread ps"
  by (simp_all add: spread_def)

lemma weighted_copies:
  assumes "row_ok r"
  shows "weighted_loop G g e False cypher seen (replicate n (with_bulk 1 r) @ rows) =
    (if n = 0 then weighted_loop G g e False cypher seen rows
     else bind_res (eval (ag_eval G) g e r) (\<lambda>v.
       if v = V_Null then weighted_loop G g e False cypher seen rows
       else bind_res (weighted_loop G g e False cypher seen rows) (\<lambda>vs. Inr (replicate n (v, 1) @ vs))))"
proof (induction n)
  case (Suc n)
  then show ?case
    using assms
    by (cases "eval (ag_eval G) g e r"; cases n; cases "weighted_loop G g e False cypher seen rows") auto
qed simp

lemma weighted_copies_distinct:
  assumes "row_ok r" "0 < n"
  shows "weighted_loop G g e True cypher seen (replicate n (with_bulk 1 r) @ rows) =
    weighted_loop G g e True cypher seen (with_bulk 1 r # rows)"
proof -
  have seen: "weighted_loop G g e True cypher (insert (value_key G cypher v) seen) (replicate m (with_bulk 1 r) @ rows) =
      weighted_loop G g e True cypher (insert (value_key G cypher v) seen) rows"
    if "eval (ag_eval G) g e r = Inr v" for m v seen
    using that assms(1) by (induction m) auto
  have again: "weighted_loop G g e True cypher seen (replicate m (with_bulk 1 r) @ rows) =
      weighted_loop G g e True cypher seen rows"
    if "eval (ag_eval G) g e r = Inr v" "v = V_Null \<or> value_key G cypher v \<in> seen" for m v
    using that assms(1) by (induction m) auto
  obtain m where "n = Suc m" using assms(2) by (cases n) auto
  then show ?thesis
    using seen again assms(1) by (cases "eval (ag_eval G) g e r") auto
qed

lemma weighted_unbulk:
  assumes "rows_ok rows"
  shows "weighted_loop G g e dist cypher seen (unbulk rows) =
    bind_res (weighted_loop G g e dist cypher seen rows) (\<lambda>ps. Inr (spread ps))"
  using assms
proof (induction rows arbitrary: seen)
  case (Cons r rows)
  then have r: "row_ok r" "0 < row_bulk r" and rest: "rows_ok rows"
    by (auto simp: rows_ok_def)
  have n: "0 < unat (row_bulk r)" "row_bulk r \<noteq> 0"
    using r(2) by (auto simp: unat_gt_0 word_gt_0)
  note ih = Cons.IH [OF rest]
  show ?case
  proof (cases dist)
    case True
    then show ?thesis
      using weighted_copies_distinct [OF r(1) n(1)] r n ih
      by (cases "eval (ag_eval G) g e r"; cases "weighted_loop G g e True cypher seen rows";
          cases "weighted_loop G g e True cypher (insert (value_key G cypher (projr (eval (ag_eval G) g e r))) seen) rows")
        simp_all
  next
    case False
    then show ?thesis
      using weighted_copies [OF r(1)] r n ih
      by (cases "eval (ag_eval G) g e r"; cases "weighted_loop G g e False cypher seen rows") auto
  qed
qed simp


text \<open>A summand other than a float or a decimal, whose sum is exact.\<close>

definition exact_summand :: "val \<Rightarrow> bool" where
  "exact_summand v \<longleftrightarrow>
     (case v of V_Float32 _ \<Rightarrow> False | V_Float _ \<Rightarrow> False | V_BigDecimal _ _ \<Rightarrow> False | _ \<Rightarrow> True)"

definition signed_summand :: "val \<Rightarrow> int option" where
  "signed_summand v =
     (case v of
        V_Byte n \<Rightarrow> Some (sint n) | V_Short n \<Rightarrow> Some (sint n)
      | V_Int n \<Rightarrow> Some (sint n) | V_Long n \<Rightarrow> Some (sint n)
      | _ \<Rightarrow> None)"

definition in_i64 :: "int \<Rightarrow> bool" where
  "in_i64 n \<longleftrightarrow> - (2 ^ 63) \<le> n \<and> n < 2 ^ 63"

lemma sum_step_signed:
  "signed_summand v = Some n \<Longrightarrow> sum_step G s v w =
    (if in_i64 (ss_int s + n * uint w) then Inr (s\<lparr>ss_int := ss_int s + n * uint w\<rparr>)
     else Inl (RE_Runtime ''integer sum overflow''))"
  by (auto simp: signed_summand_def sum_step_def add_weighted_integer_def in_i64_def Let_def split: val.splits)

lemma sum_step_other:
  assumes "exact_summand v" "signed_summand v = None"
  shows "(\<exists>n. v = V_BigInt n) \<or> (\<forall>s w. sum_step G s v w = Inr s)"
  using assms by (cases v) (simp_all add: exact_summand_def signed_summand_def sum_step_def)

lemma sum_loop_append: "sum_loop G s (ps @ qs) = bind_res (sum_loop G s ps) (\<lambda>t. sum_loop G t qs)"
proof (induction ps arbitrary: s)
  case (Cons p ps)
  then show ?case by (cases "sum_step G s (fst p) (snd p)") simp_all
qed simp

lemma between_in_i64:
  assumes "in_i64 a" "in_i64 (a + n * int k)" "j \<le> k"
  shows "in_i64 (a + n * int j)"
proof -
  have "0 \<le> n \<Longrightarrow> 0 \<le> n * int j \<and> n * int j \<le> n * int k"
    using assms(3) by (simp add: mult_left_mono)
  moreover have "n < 0 \<Longrightarrow> n * int j \<le> 0 \<and> n * int k \<le> n * int j"
    using assms(3) by (simp add: mult_left_mono_neg mult_nonpos_nonneg)
  ultimately show ?thesis
    using assms(1,2) unfolding in_i64_def by (cases "0 \<le> n") linarith+
qed

lemma sum_loop_copies:
  assumes "in_i64 (ss_int s)"
  shows "signed_summand v = Some n \<Longrightarrow> sum_loop G s (replicate k (v, 1)) =
    (if in_i64 (ss_int s + n * int k) then Inr (s\<lparr>ss_int := ss_int s + n * int k\<rparr>)
     else Inl (RE_Runtime ''integer sum overflow''))"
proof (induction k)
  case (Suc k)
  have step: "replicate (Suc k) (v, 1 :: u64) = replicate k (v, 1) @ [(v, 1)]"
    by (simp add: replicate_append_same)
  have "ss_int s + n * int k + n = ss_int s + n * int (Suc k)"
    by (simp add: algebra_simps)
  then show ?case
    using Suc assms between_in_i64 [OF assms, of n "Suc k" k]
    unfolding step by (auto simp: sum_loop_append sum_step_signed algebra_simps)
qed (use assms in simp)

lemma sum_step_spread:
  assumes "in_i64 (ss_int s)" "exact_summand v" "0 < w"
  shows "sum_loop G s (replicate (unat w) (v, 1)) = sum_step G s v w"
proof (cases "signed_summand v")
  case (Some n)
  then show ?thesis
    using sum_loop_copies [OF assms(1) Some] sum_step_signed [OF Some] by simp
next
  case None
  from sum_step_other [OF assms(2) None, of G] show ?thesis
  proof
    assume "\<exists>n. v = V_BigInt n"
    then obtain n where v: "v = V_BigInt n" by blast
    have "sum_loop G s (replicate k (v, 1)) =
        Inr (if k = 0 then s else s\<lparr>ss_have_bigint := True, ss_bigint := ss_bigint s + n * int k\<rparr>)" for k
      by (induction k arbitrary: s) (auto simp: v sum_step_def algebra_simps)
    then show ?thesis
      using assms(3) unat_gt_0 [of w] by (simp add: v sum_step_def word_gt_0)
  next
    assume "\<forall>s w. sum_step G s v w = Inr s"
    then have "sum_loop G s (replicate k (v, 1)) = Inr s" for k
      by (induction k) simp_all
    with \<open>\<forall>s w. sum_step G s v w = Inr s\<close> show ?thesis by simp
  qed
qed


lemma sum_step_in_i64:
  assumes "in_i64 (ss_int s)" "sum_step G s v w = Inr t"
  shows "in_i64 (ss_int t)"
proof (cases "signed_summand v")
  case (Some n)
  then show ?thesis using assms by (auto simp: sum_step_signed split: if_splits)
next
  case None
  then show ?thesis using assms by (auto simp: signed_summand_def sum_step_def Let_def split: val.splits)
qed

lemma sum_loop_spread:
  assumes "in_i64 (ss_int s)" "\<forall>p \<in> set ps. exact_summand (fst p) \<and> 0 < snd p"
  shows "sum_loop G s (spread ps) = sum_loop G s ps"
  using assms
proof (induction ps arbitrary: s)
  case (Cons p ps)
  then show ?case
    using sum_step_in_i64 [of s G "fst p" "snd p"]
    by (cases "sum_step G s (fst p) (snd p)") (auto simp: sum_loop_append sum_step_spread)
qed simp

lemma extreme_step_idem: "extreme_step L least (extreme_step L least c v) v = extreme_step L least c v"
  by (auto simp: extreme_step_def split: option.split)

lemma extreme_copies: "0 < n \<Longrightarrow> foldl (extreme_step L least) c (replicate n v) = extreme_step L least c v"
proof (induction n arbitrary: c)
  case (Suc n)
  then show ?case by (cases n) (simp_all add: extreme_step_idem)
qed simp

lemma extreme_spread:
  assumes "\<forall>p \<in> set ps. 0 < snd p"
  shows "foldl (extreme_step L least) c (map fst (spread ps)) = foldl (extreme_step L least) c (map fst ps)"
  using assms by (induction ps arbitrary: c) (auto simp: extreme_copies unat_gt_0 word_gt_0)

lemma weighted_positive:
  "weighted_loop G g e dist cypher seen rows = Inr ps \<Longrightarrow> p \<in> set ps \<Longrightarrow>
   0 < snd p \<and> (\<exists>r \<in> set rows. eval (ag_eval G) g e r = Inr (fst p))"
proof (induction rows arbitrary: seen ps)
  case (Cons r rows)
  have "weighted_loop G g e dist cypher seen rows = Inr ps \<or>
      (\<exists>v qs seen'. eval (ag_eval G) g e r = Inr v \<and> row_bulk r \<noteq> 0 \<and> ps = (v, if dist then 1 else row_bulk r) # qs \<and>
        weighted_loop G g e dist cypher seen' rows = Inr qs)"
  proof (cases "eval (ag_eval G) g e r")
    case (Inr v)
    then show ?thesis
      using Cons.prems(1)
      by (cases "weighted_loop G g e dist cypher (if dist then insert (value_key G cypher v) seen else seen) rows")
        (auto split: if_splits)
  qed (use Cons.prems(1) in \<open>auto split: if_splits\<close>)
  then show ?case
  proof
    assume "weighted_loop G g e dist cypher seen rows = Inr ps"
    from Cons.IH [OF this Cons.prems(2)] show ?thesis by auto
  next
    assume "\<exists>v qs seen'. eval (ag_eval G) g e r = Inr v \<and> row_bulk r \<noteq> 0 \<and> ps = (v, if dist then 1 else row_bulk r) # qs \<and>
        weighted_loop G g e dist cypher seen' rows = Inr qs"
    then obtain v qs seen' where v: "eval (ag_eval G) g e r = Inr v" "row_bulk r \<noteq> 0"
      "ps = (v, if dist then 1 else row_bulk r) # qs" "weighted_loop G g e dist cypher seen' rows = Inr qs"
      by blast
    show ?thesis
    proof (cases "p \<in> set qs")
      case True
      from Cons.IH [OF v(4) True] show ?thesis by auto
    next
      case False
      then show ?thesis using v Cons.prems(2) by (auto simp: word_gt_0)
    qed
  qed
qed simp

lemma checked_copies:
  assumes "acc < 2 ^ 64"
  shows "checked_bulk_loop acc (replicate n (with_bulk 1 r) @ rows) =
    (if acc + n < 2 ^ 64 then checked_bulk_loop (acc + n) rows else Inl aggregate_bulk_overflow)"
  using assms by (induction n arbitrary: acc) auto

lemma checked_unbulk: "acc < 2 ^ 64 \<Longrightarrow> checked_bulk_loop acc (unbulk rows) = checked_bulk_loop acc rows"
proof (induction rows arbitrary: acc)
  case (Cons r rows)
  then show ?case by (simp add: checked_copies)
qed simp

lemma count_distinct_copies:
  assumes "row_ok r" "0 < n"
  shows "count_distinct G g e cypher seen (replicate n (with_bulk 1 r) @ rows) = count_distinct G g e cypher seen (r # rows)"
proof -
  have again: "count_distinct G g e cypher seen (replicate m (with_bulk 1 r) @ rows) = count_distinct G g e cypher seen rows"
    if "eval (ag_eval G) g e r = Inr v" "v = V_Null \<or> value_key G cypher v \<in> seen" for m v seen
    using that assms(1) by (induction m) auto
  obtain m where "n = Suc m" using assms(2) by (cases n) auto
  then show ?thesis
    using again assms(1) by (cases "eval (ag_eval G) g e r") auto
qed

lemma count_distinct_unbulk:
  "rows_ok rows \<Longrightarrow> count_distinct G g e cypher seen (unbulk rows) = count_distinct G g e cypher seen rows"
proof (induction rows arbitrary: seen)
  case (Cons r rows)
  then have "row_ok r" "0 < unat (row_bulk r)" "rows_ok rows"
    by (auto simp: rows_ok_def unat_gt_0 word_gt_0)
  then show ?case
    using Cons.IH by (cases "eval (ag_eval G) g e r") (auto simp: count_distinct_copies)
qed simp

lemma collect_copies:
  assumes "row_ok r" "0 < n"
  shows "collect_loop G g AK_CollectTraversers e False cypher seen (replicate n (with_bulk 1 r) @ rows) =
    bind_res (eval (ag_eval G) g e r) (\<lambda>v.
      if dropped_null AK_CollectTraversers e v then collect_loop G g AK_CollectTraversers e False cypher seen rows
      else bind_res (collect_loop G g AK_CollectTraversers e False cypher seen rows) (\<lambda>vs. Inr (replicate n v @ vs)))"
  using assms(2)
proof (induction n)
  case (Suc n)
  then show ?case
    using assms(1)
    by (cases "eval (ag_eval G) g e r"; cases n; cases "collect_loop G g AK_CollectTraversers e False cypher seen rows") auto
qed simp

lemma collect_unbulk:
  "rows_ok rows \<Longrightarrow> collect_loop G g AK_CollectTraversers e False cypher seen (unbulk rows) =
    collect_loop G g AK_CollectTraversers e False cypher seen rows"
proof (induction rows)
  case (Cons r rows)
  then have "row_ok r" "0 < unat (row_bulk r)" "rows_ok rows"
    by (auto simp: rows_ok_def unat_gt_0 word_gt_0)
  then show ?case
    using Cons.IH by (cases "eval (ag_eval G) g e r") (simp_all add: collect_copies)
qed simp

text \<open>
  The aggregates that read a row of bulk \<open>n\<close> as \<open>n\<close> traversers: all but those that count or list rows
  (\<open>CountRows\<close>, \<open>CountIf\<close>, \<open>CollectRows\<close>, \<open>CollectNonNull\<close>), the deviations and percentiles, which
  serve languages without bulks, and the averages, which are floats.
\<close>

definition weighs_bulk :: "agg_call \<Rightarrow> bool" where
  "weighs_bulk agg \<longleftrightarrow>
     ag_kind agg \<in> {AK_CountBulk, AK_CountDistinct, AK_Sum, AK_SumOrZero, AK_Min, AK_Max, AK_MinOrNull, AK_MaxOrNull} \<or>
     ag_kind agg = AK_CollectTraversers \<and> \<not> ag_distinct agg"


lemma in_i64_0 [simp]: "in_i64 0"
  by (simp add: in_i64_def)

lemma aggregate_sum_unbulk:
  assumes "rows_ok rows"
    and "\<And>r v. r \<in> set rows \<Longrightarrow> eval (ag_eval G) g e r = Inr v \<Longrightarrow> exact_summand v"
  shows "bind_res (aggregate_weighted_values G g e dist cypher (unbulk rows)) (aggregate_sum G) =
    bind_res (aggregate_weighted_values G g e dist cypher rows) (aggregate_sum G)"
proof (cases "weighted_loop G g e dist cypher {} rows")
  case (Inr ps)
  have "exact_summand (fst p) \<and> 0 < snd p" if "p \<in> set ps" for p
    using weighted_positive [OF Inr that] assms(2) by blast
  then have "sum_loop G (sum_start G) (spread ps) = sum_loop G (sum_start G) ps"
    by (intro sum_loop_spread) (auto simp: sum_start_def)
  then show ?thesis
    using Inr weighted_unbulk [OF assms(1)] by (simp add: aggregate_weighted_values_def aggregate_sum_def)
qed (use weighted_unbulk [OF assms(1)] in \<open>simp add: aggregate_weighted_values_def\<close>)

lemma aggregate_extreme_unbulk:
  assumes "rows_ok rows"
  shows "bind_res (aggregate_values G g e dist cypher (unbulk rows)) (\<lambda>vs. Inr (aggregate_extreme L least vs)) =
    bind_res (aggregate_values G g e dist cypher rows) (\<lambda>vs. Inr (aggregate_extreme L least vs))"
proof (cases "weighted_loop G g e dist cypher {} rows")
  case (Inr ps)
  then have "\<forall>p \<in> set ps. 0 < snd p"
    using weighted_positive by blast
  then show ?thesis
    using Inr weighted_unbulk [OF assms]
    by (simp add: aggregate_values_def aggregate_weighted_values_def aggregate_extreme_def extreme_spread)
qed (use weighted_unbulk [OF assms] in \<open>simp add: aggregate_values_def aggregate_weighted_values_def\<close>)

text \<open>
  C34: an aggregate that weighs bulk gives on rows what it gives on the same traversers spelled out one
  by one: the same value, or the same overflow or evaluation error.  Sums are over values other than
  floats and decimals, whose addition rounds.
\<close>

theorem aggregates_weigh_bulk:
  assumes "rows_ok rows" "weighs_bulk agg"
    and "\<And>e r v. ag_kind agg \<in> {AK_Sum, AK_SumOrZero} \<Longrightarrow> ag_arg agg = Some e \<Longrightarrow> r \<in> set rows \<Longrightarrow>
      eval (ag_eval G) g e r = Inr v \<Longrightarrow> exact_summand v"
  shows "compute_aggregate_with_cypher_equivalence G g agg cypher (unbulk rows) =
    compute_aggregate_with_cypher_equivalence G g agg cypher rows"
proof (cases "ag_arg agg")
  case None
  then show ?thesis
    using assms(2)
    by (auto simp: compute_aggregate_with_cypher_equivalence_def requires_argument_def weighs_bulk_def
        checked_bulk_total_def checked_unbulk)
next
  case (Some e)
  have sums: "bind_res (aggregate_weighted_values G g e (ag_distinct agg) cypher (unbulk rows)) (aggregate_sum G) =
      bind_res (aggregate_weighted_values G g e (ag_distinct agg) cypher rows) (aggregate_sum G)"
    if "ag_kind agg \<in> {AK_Sum, AK_SumOrZero}"
    by (rule aggregate_sum_unbulk [OF assms(1)]) (use assms(3) [OF that Some] in blast)
  have "unbulk rows = [] \<longleftrightarrow> rows = []"
    using assms(1) by (cases rows) (auto simp: rows_ok_def word_gt_0 unsigned_eq_0_iff)
  then show ?thesis
    using assms(2) Some sums
    by (auto simp: compute_aggregate_with_cypher_equivalence_def requires_argument_def weighs_bulk_def
        checked_bulk_total_def checked_unbulk count_distinct_unbulk [OF assms(1)] aggregate_extreme_unbulk [OF assms(1)]
        aggregate_collect_def collect_unbulk [OF assms(1)])
qed


definition plain_agg_lib :: agg_lib where
  "plain_agg_lib = \<lparr>ag_sort = plain_sort_lib, ag_keys = text_key_lib, f_sum = (\<lambda>_. 0), f_sqrt = (\<lambda>x. x),
     f_floor = (\<lambda>_. 0), f_ceil = (\<lambda>_. 0), engine_aggregate = (\<lambda>name _ _ _ _. Inl (RE_Unsupported name))\<rparr>"

theorem aggregates_weigh_bulk_witness:
  "compute_aggregate_with_cypher_equivalence plain_agg_lib new_graph
     \<lparr>ag_kind = AK_Sum, ag_name = ''s'', ag_arg = Some (E_Binding ''x''), ag_distinct = False\<rparr> False
     (unbulk [with_bulk 2 (row_bind ''x'' (V_Int 5) row_new)]) =
   compute_aggregate_with_cypher_equivalence plain_agg_lib new_graph
     \<lparr>ag_kind = AK_Sum, ag_name = ''s'', ag_arg = Some (E_Binding ''x''), ag_distinct = False\<rparr> False
     [with_bulk 2 (row_bind ''x'' (V_Int 5) row_new)]"
proof (rule aggregates_weigh_bulk)
  show "rows_ok [with_bulk 2 (row_bind ''x'' (V_Int 5) row_new)]"
    by (simp add: rows_ok_def)
qed (auto simp: weighs_bulk_def row_get_def row_bind_def row_new_def with_bulk_def exact_summand_def)

section \<open>Integer sums\<close>

definition summand :: "agg_lib \<Rightarrow> property_graph \<Rightarrow> ir_expr \<Rightarrow> row \<Rightarrow> int" where
  "summand G g e r =
     (case eval (ag_eval G) g e r of
        Inr v \<Rightarrow> (case signed_summand v of Some n \<Rightarrow> n | None \<Rightarrow> 0)
      | Inl _ \<Rightarrow> 0)"

definition weighted_total :: "agg_lib \<Rightarrow> property_graph \<Rightarrow> ir_expr \<Rightarrow> row list \<Rightarrow> int" where
  "weighted_total G g e rows = sum_list (map (\<lambda>r. summand G g e r * uint (row_bulk r)) rows)"

lemma weighted_total_simps [simp]:
  "weighted_total G g e [] = 0"
  "weighted_total G g e (r # rows) = summand G g e r * uint (row_bulk r) + weighted_total G g e rows"
  by (simp_all add: weighted_total_def)

definition summable :: "agg_lib \<Rightarrow> property_graph \<Rightarrow> ir_expr \<Rightarrow> row \<Rightarrow> bool" where
  "summable G g e r \<longleftrightarrow> (\<exists>v. eval (ag_eval G) g e r = Inr v \<and> (v = V_Null \<or> signed_summand v \<noteq> None))"

lemma prefixes_Cons:
  "(\<forall>k \<le> length (r # rows). P (take k (r # rows))) \<longleftrightarrow> P [] \<and> (\<forall>k \<le> length rows. P (r # take k rows))"
proof
  assume left: "\<forall>k \<le> length (r # rows). P (take k (r # rows))"
  show "P [] \<and> (\<forall>k \<le> length rows. P (r # take k rows))"
    using left [rule_format, of 0] left [rule_format, of "Suc _"] by simp
next
  assume right: "P [] \<and> (\<forall>k \<le> length rows. P (r # take k rows))"
  show "\<forall>k \<le> length (r # rows). P (take k (r # rows))"
  proof (intro allI impI)
    fix k assume "k \<le> length (r # rows)"
    then show "P (take k (r # rows))" using right by (cases k) auto
  qed
qed

lemma summable_loop:
  assumes "\<forall>r \<in> set rows. summable G g e r"
  shows "\<exists>ps. weighted_loop G g e False cypher seen rows = Inr ps"
  using assms
proof (induction rows)
  case (Cons r rows)
  then show ?case by (auto simp: summable_def)
qed simp

lemma sum_loop_exact:
  assumes "in_i64 (ss_int s)" "\<forall>r \<in> set rows. summable G g e r"
  shows "bind_res (weighted_loop G g e False cypher seen rows) (sum_loop G s) =
    (if \<forall>k \<le> length rows. in_i64 (ss_int s + weighted_total G g e (take k rows))
     then Inr (s\<lparr>ss_int := ss_int s + weighted_total G g e rows\<rparr>)
     else Inl (RE_Runtime ''integer sum overflow''))"
  using assms
proof (induction rows arbitrary: s)
  case (Cons r rows)
  obtain v where v: "eval (ag_eval G) g e r = Inr v" "v = V_Null \<or> signed_summand v \<noteq> None"
    using Cons.prems(2) by (auto simp: summable_def)
  obtain ps where ps: "weighted_loop G g e False cypher seen rows = Inr ps"
    using summable_loop Cons.prems(2) by (metis list.set_intros(2))
  note split = prefixes_Cons [of r rows "\<lambda>rs. in_i64 (ss_int s + weighted_total G g e rs)"]
  show ?case
  proof (cases "row_bulk r = 0 \<or> v = V_Null")
    case True
    then have zero: "summand G g e r * uint (row_bulk r) = 0"
      using v by (auto simp: summand_def signed_summand_def)
    then show ?thesis
      using Cons.IH [of s] Cons.prems True v ps zero unfolding split by auto
  next
    case False
    then obtain n where n: "signed_summand v = Some n" "summand G g e r = n"
      using v by (auto simp: summand_def)
    let ?t = "ss_int s + n * uint (row_bulk r)"
    show ?thesis
    proof (cases "in_i64 ?t")
      case True
      then show ?thesis
        using Cons.IH [of "s\<lparr>ss_int := ?t\<rparr>"] Cons.prems False v n ps unfolding split
        by (simp add: sum_step_signed add.assoc)
    next
      case over: False
      then have "\<not> (\<forall>k \<le> length rows. in_i64 (ss_int s + weighted_total G g e (r # take k rows)))"
        using n by (auto intro: exI [of _ 0])
      then show ?thesis
        using over False v n ps unfolding split by (simp add: sum_step_signed)
    qed
  qed
qed simp

text \<open>
  C35: the sum of signed integers is their sum weighted by the bulks, exactly, whenever the sums over
  the rows read so far stay in the range of \<open>i64\<close>, and an overflow error otherwise; nulls are skipped.
\<close>

theorem integer_sum_exact:
  assumes "\<forall>r \<in> set rows. summable G g e r"
  shows "compute_aggregate G g \<lparr>ag_kind = AK_Sum, ag_name = x, ag_arg = Some e, ag_distinct = False\<rparr> rows =
    (if \<forall>k \<le> length rows. in_i64 (weighted_total G g e (take k rows))
     then Inr (V_Int (word_of_int (weighted_total G g e rows)))
     else Inl (RE_Runtime ''integer sum overflow''))"
proof -
  obtain ps where ps: "weighted_loop G g e False False {} rows = Inr ps"
    using summable_loop assms by blast
  have "sum_loop G (sum_start G) ps = (if \<forall>k \<le> length rows. in_i64 (weighted_total G g e (take k rows))
     then Inr ((sum_start G)\<lparr>ss_int := weighted_total G g e rows\<rparr>) else Inl (RE_Runtime ''integer sum overflow''))"
    using sum_loop_exact [of "sum_start G" rows G g e False "{}"] assms ps by (simp add: sum_start_def)
  then show ?thesis
    using ps
    by (simp add: compute_aggregate_def compute_aggregate_with_cypher_equivalence_def requires_argument_def
        aggregate_weighted_values_def aggregate_sum_def sum_result_def sum_start_def)
qed

theorem integer_sum_exact_witness:
  "compute_aggregate plain_agg_lib new_graph
     \<lparr>ag_kind = AK_Sum, ag_name = ''s'', ag_arg = Some (E_Binding ''x''), ag_distinct = False\<rparr>
     [with_bulk 3 (row_bind ''x'' (V_Int 5) row_new), row_bind ''x'' (V_Byte 4) row_new] = Inr (V_Int 19)"
proof -
  let ?rows = "[with_bulk 3 (row_bind ''x'' (V_Int 5) row_new), row_bind ''x'' (V_Byte 4) row_new]"
  note defs = summable_def summand_def signed_summand_def row_get_def row_bind_def row_new_def with_bulk_def
  have "\<forall>r \<in> set ?rows. summable plain_agg_lib new_graph (E_Binding ''x'') r"
    by (simp add: defs)
  from integer_sum_exact [OF this, of "''s''"]
  have "compute_aggregate plain_agg_lib new_graph
      \<lparr>ag_kind = AK_Sum, ag_name = ''s'', ag_arg = Some (E_Binding ''x''), ag_distinct = False\<rparr> ?rows =
    (if \<forall>k \<le> length ?rows. in_i64 (weighted_total plain_agg_lib new_graph (E_Binding ''x'') (take k ?rows))
     then Inr (V_Int (word_of_int (weighted_total plain_agg_lib new_graph (E_Binding ''x'') ?rows)))
     else Inl (RE_Runtime ''integer sum overflow''))" .
  moreover have "\<forall>k \<le> length ?rows. in_i64 (weighted_total plain_agg_lib new_graph (E_Binding ''x'') (take k ?rows))"
    by (auto simp: le_Suc_eq defs in_i64_def)
  ultimately show ?thesis by (simp add: defs)
qed


section \<open>Unsigned summands\<close>

lemma unsigned_summand:
  assumes "is_unsigned v"
  shows "sum_step G s v w = Inr s" "avg_operand G v = None" "v \<noteq> V_Null" "extreme_rank v = 7"
  using assms by (cases v; simp add: is_unsigned_def sum_step_def avg_operand_def extreme_rank_def)+

lemma unsigned_weighted:
  assumes "\<forall>r \<in> set rows. row_bulk r \<noteq> 0 \<and> is_unsigned (h r) \<and> eval (ag_eval G) g e r = Inr (h r)"
  shows "weighted_loop G g e False cypher seen rows = Inr (map (\<lambda>r. (h r, row_bulk r)) rows)"
  using assms by (induction rows) (auto simp: unsigned_summand)

lemma unsigned_sum: "\<forall>p \<in> set ps. is_unsigned (fst p) \<Longrightarrow> sum_loop G s ps = Inr s"
  by (induction ps) (auto simp: unsigned_summand)

lemma unsigned_avg: "\<forall>p \<in> set ps. is_unsigned (fst p) \<Longrightarrow> avg_loop G s n ps = Inr (s, n)"
  by (induction ps) (auto simp: unsigned_summand)

lemma unsigned_extreme:
  assumes "is_unsigned a" "\<forall>v \<in> set vs. is_unsigned v"
  shows "foldl (extreme_step L least) (Some a) vs = Some a"
  using assms(2)
proof (induction vs)
  case (Cons v vs)
  then show ?case
    using assms(1) three_valued_cmp_unsigned(1) [OF assms(1), of L v] unsigned_summand(3,4)
    by (simp add: extreme_step_def extreme_cmp_def)
qed simp

text \<open>
  The aggregates do not read the unsigned integer types: the sum of unsigned values is 0, their
  average null, and their minimum and maximum both the first value.
\<close>

theorem unsigned_not_aggregated:
  assumes "rows \<noteq> []"
    and "\<forall>r \<in> set rows. row_bulk r \<noteq> 0 \<and> is_unsigned (h r) \<and> eval (ag_eval G) g e r = Inr (h r)"
  shows "compute_aggregate G g \<lparr>ag_kind = AK_Sum, ag_name = x, ag_arg = Some e, ag_distinct = False\<rparr> rows = Inr (V_Int 0) \<and>
    compute_aggregate G g \<lparr>ag_kind = AK_Avg, ag_name = x, ag_arg = Some e, ag_distinct = False\<rparr> rows = Inr V_Null \<and>
    compute_aggregate G g \<lparr>ag_kind = AK_Min, ag_name = x, ag_arg = Some e, ag_distinct = False\<rparr> rows = Inr (h (hd rows)) \<and>
    compute_aggregate G g \<lparr>ag_kind = AK_Max, ag_name = x, ag_arg = Some e, ag_distinct = False\<rparr> rows = Inr (h (hd rows))"
proof -
  obtain r rs where rows: "rows = r # rs" using assms(1) by (cases rows) auto
  have all: "\<forall>p \<in> set (map (\<lambda>r. (h r, row_bulk r)) rows). is_unsigned (fst p)"
    using assms(2) by auto
  have "foldl (extreme_step L least) None (map h rows) = Some (h r)" for L least
    using assms(2) unsigned_extreme [of "h r" "map h rs" L least] by (simp add: rows extreme_step_def)
  then show ?thesis
    using unsigned_weighted [OF assms(2)] unsigned_sum [OF all] unsigned_avg [OF all]
    by (simp add: compute_aggregate_def compute_aggregate_with_cypher_equivalence_def requires_argument_def
        aggregate_weighted_values_def aggregate_values_def aggregate_sum_def aggregate_avg_def aggregate_extreme_def
        sum_result_def sum_start_def comp_def) (simp add: rows)
qed

theorem unsigned_not_aggregated_witness:
  "compute_aggregate plain_agg_lib new_graph
     \<lparr>ag_kind = AK_Sum, ag_name = ''s'', ag_arg = Some (E_Binding ''x''), ag_distinct = False\<rparr>
     [row_bind ''x'' (V_UInt32 7) row_new] = Inr (V_Int 0)"
  using unsigned_not_aggregated [of "[row_bind ''x'' (V_UInt32 7) row_new]" "\<lambda>_. V_UInt32 7" plain_agg_lib new_graph
      "E_Binding ''x''" "''s''"]
  by (simp add: row_get_def row_bind_def row_new_def is_unsigned_def)

section \<open>Groups are classes\<close>

definition key_row :: "agg_lib \<Rightarrow> property_graph \<Rightarrow> (string \<times> ir_expr) list \<Rightarrow> row \<Rightarrow> val list" where
  "key_row G g items r = (case group_values G g items r of Inr vs \<Rightarrow> vs | Inl _ \<Rightarrow> [])"

definition groups_of ::
  "agg_lib \<Rightarrow> property_graph \<Rightarrow> (string \<times> ir_expr) list \<Rightarrow> bool \<Rightarrow> row list \<Rightarrow> bytes \<Rightarrow> (val list \<times> row list) option" where
  "groups_of G g items cypher rows k =
     (let rs = filter (\<lambda>r. group_key G cypher (key_row G g items r) = k) rows
      in if rs = [] then None else Some (key_row G g items (hd rs), rs))"

lemma groups_of_snoc:
  "groups_of G g items cypher (rows @ [r]) =
    (groups_of G g items cypher rows)(group_key G cypher (key_row G g items r) \<mapsto>
      (case groups_of G g items cypher rows (group_key G cypher (key_row G g items r)) of
         None \<Rightarrow> (key_row G g items r, [r]) | Some (vs, rs) \<Rightarrow> (vs, rs @ [r])))"
  by (rule ext) (auto simp: groups_of_def Let_def)

lemma push_row_groups:
  assumes "bt_ordered groups" "map_of groups = groups_of G g items cypher before"
  shows "bt_ordered (push_row (group_key G cypher (key_row G g items r)) (key_row G g items r) r groups)"
    "map_of (push_row (group_key G cypher (key_row G g items r)) (key_row G g items r) r groups) =
      groups_of G g items cypher (before @ [r])"
  using assms by (simp_all add: push_row_def bt_ordered_insert map_of_bt_insert groups_of_snoc split: option.split)

lemma group_rows_spec:
  assumes "bt_ordered groups" "map_of groups = groups_of G g items cypher before"
    and "group_rows G g items cypher rows groups = Inr groups'"
  shows "bt_ordered groups' \<and> map_of groups' = groups_of G g items cypher (before @ rows)"
  using assms
proof (induction rows arbitrary: before groups)
  case (Cons r rows)
  obtain vs where vs: "group_values G g items r = Inr vs" "key_row G g items r = vs"
    using Cons.prems(3) by (cases "group_values G g items r") (auto simp: key_row_def)
  show ?case
    using Cons.IH [OF push_row_groups [OF Cons.prems(1,2), of r]] Cons.prems(3) vs by simp
qed simp


definition class_row :: "agg_lib \<Rightarrow> property_graph \<Rightarrow> (string \<times> ir_expr) list \<Rightarrow> row \<Rightarrow> ident list" where
  "class_row G g items r = map (cypher_class (ag_keys G)) (key_row G g items r)"

definition keys_sized :: "agg_lib \<Rightarrow> property_graph \<Rightarrow> (string \<times> ir_expr) list \<Rightarrow> row \<Rightarrow> bool" where
  "keys_sized G g items r \<longleftrightarrow>
     (\<forall>v \<in> set (key_row G g items r). length (encode_cypher_equivalence (ag_keys G) v) < 2 ^ 64)"

lemma group_key_class:
  assumes "keys_sized G g items r" "keys_sized G g items s"
  shows "group_key G True (key_row G g items r) = group_key G True (key_row G g items s) \<longleftrightarrow>
    class_row G g items r = class_row G g items s"
proof -
  let ?e = "encode_cypher_equivalence (ag_keys G)"
  have "map ?e vs = map ?e ws \<longleftrightarrow> map (cypher_class (ag_keys G)) vs = map (cypher_class (ag_keys G)) ws"
    if "\<forall>v \<in> set vs. length (?e v) < 2 ^ 64" "\<forall>v \<in> set ws. length (?e v) < 2 ^ 64" for vs ws
    using that
  proof (induction vs arbitrary: ws)
    case (Cons v vs)
    then show ?case by (cases ws) (simp_all add: cypher_key_inject)
  qed simp
  moreover have "group_key G True (key_row G g items r) = group_key G True (key_row G g items s) \<longleftrightarrow>
      map ?e (key_row G g items r) = map ?e (key_row G g items s)" (is "?lhs = ?rhs")
  proof
    assume ?lhs
    then show ?rhs
      unfolding group_key_def counted_parts_def if_True
      by (rule framed_concat_inject) (use assms in \<open>auto simp: keys_sized_def\<close>)
  qed (simp add: group_key_def)
  ultimately show ?thesis
    using assms by (simp add: class_row_def keys_sized_def)
qed

text \<open>
  C36: grouping under Cypher's equivalence splits the rows into the classes of their key values: every
  row is in exactly one group, and a group holds, in order, exactly the rows whose key values are
  equivalent to those of its first row, which it is labelled with.  Keys shorter than \<open>2^64\<close> bytes.
\<close>

theorem groups_are_classes:
  assumes "group_rows G g items True rows [] = Inr groups"
    and sized: "\<forall>r \<in> set rows. keys_sized G g items r"
  shows "(\<forall>r \<in> set rows. \<exists>!p. p \<in> set groups \<and> r \<in> set (snd (snd p))) \<and>
    (\<forall>p \<in> set groups. snd (snd p) \<noteq> [] \<and> fst (snd p) = key_row G g items (hd (snd (snd p))) \<and>
      snd (snd p) = filter (\<lambda>r. class_row G g items r = class_row G g items (hd (snd (snd p)))) rows)"
proof -
  let ?k = "\<lambda>r. group_key G True (key_row G g items r)"
  have spec: "bt_ordered groups" "map_of groups = groups_of G g items True rows"
    using group_rows_spec [of "[]" G g items True "[]" rows groups, OF _ _ assms(1)]
    by (auto simp: bt_ordered_def groups_of_def fun_eq_iff)
  have dist: "distinct (map fst groups)"
    using spec(1) by (auto simp: bt_ordered_def strict_sorted_iff)
  have group: "p \<in> set groups \<longleftrightarrow> groups_of G g items True rows (fst p) = Some (snd p)" for p
    using spec(2) map_of_eq_Some_iff [OF dist, of "fst p" "snd p"] by simp
  have entry: "rs = filter (\<lambda>r. ?k r = k) rows \<and> rs \<noteq> [] \<and> vs = key_row G g items (hd rs)"
    if "(k, vs, rs) \<in> set groups" for k vs rs
    using that by (auto simp: group groups_of_def Let_def split: if_splits)
  have rows_of: "snd (snd p) = filter (\<lambda>r. ?k r = fst p) rows" "snd (snd p) \<noteq> []"
    "fst (snd p) = key_row G g items (hd (snd (snd p)))" if "p \<in> set groups" for p
    using entry [of "fst p" "fst (snd p)" "snd (snd p)"] that unfolding prod.collapse by blast+
  have "\<exists>!p. p \<in> set groups \<and> r \<in> set (snd (snd p))" if r: "r \<in> set rows" for r
  proof (rule ex1I)
    let ?rs = "filter (\<lambda>s. ?k s = ?k r) rows"
    have "?rs \<noteq> []" using r by (auto simp: filter_empty_conv)
    then have "(?k r, key_row G g items (hd ?rs), ?rs) \<in> set groups"
      by (simp add: group groups_of_def Let_def)
    then show "(?k r, key_row G g items (hd ?rs), ?rs) \<in> set groups \<and>
        r \<in> set (snd (snd (?k r, key_row G g items (hd ?rs), ?rs)))"
      using r by simp
    fix p assume p: "p \<in> set groups \<and> r \<in> set (snd (snd p))"
    then have "fst p = ?k r"
      using rows_of(1) [of p] by auto
    with p rows_of [of p] show "p = (?k r, key_row G g items (hd ?rs), ?rs)"
      by (intro prod_eqI) auto
  qed
  moreover have "snd (snd p) = filter (\<lambda>r. class_row G g items r = class_row G g items (hd (snd (snd p)))) rows"
    if p: "p \<in> set groups" for p
  proof -
    have "hd (snd (snd p)) \<in> set (filter (\<lambda>r. ?k r = fst p) rows)"
      using rows_of(1,2) [OF p] by (metis hd_in_set)
    then have h: "hd (snd (snd p)) \<in> set rows" "?k (hd (snd (snd p))) = fst p"
      by auto
    then have "?k r = fst p \<longleftrightarrow> class_row G g items r = class_row G g items (hd (snd (snd p)))" if "r \<in> set rows" for r
      using group_key_class [of G g items r "hd (snd (snd p))"] sized that by simp
    then have "filter (\<lambda>r. ?k r = fst p) rows =
        filter (\<lambda>r. class_row G g items r = class_row G g items (hd (snd (snd p)))) rows"
      by (intro filter_cong) auto
    then show ?thesis using rows_of(1) [OF p] by simp
  qed
  ultimately show ?thesis using rows_of(2,3) by blast
qed

theorem groups_are_classes_witness:
  "\<exists>groups. group_rows plain_agg_lib new_graph [(''k'', E_Binding ''x'')] True
       [row_bind ''x'' (V_Int 7) row_new, row_bind ''x'' (V_Byte 7) row_new] [] = Inr groups \<and>
     (\<forall>r \<in> set [row_bind ''x'' (V_Int 7) row_new, row_bind ''x'' (V_Byte 7) row_new].
        \<exists>!p. p \<in> set groups \<and> r \<in> set (snd (snd p)))"
proof -
  let ?rows = "[row_bind ''x'' (V_Int 7) row_new, row_bind ''x'' (V_Byte 7) row_new]"
  let ?items = "[(''k'', E_Binding ''x'')]"
  have keyed: "group_values plain_agg_lib new_graph ?items (row_bind ''x'' v row_new) = Inr [v]" for v
    by (simp add: group_values_def row_get_bind)
  then obtain groups where groups: "group_rows plain_agg_lib new_graph ?items True ?rows [] = Inr groups"
    by simp
  have "keys_sized plain_agg_lib new_graph ?items r" if "r \<in> set ?rows" for r
    using that keyed
    by (auto simp: keys_sized_def key_row_def plain_agg_lib_def encode_text_int framed_def length_str_bytes show_int_def show_nat.simps)
  then show ?thesis
    using groups_are_classes [OF groups] groups by blast
qed

end
