(* ===== verification/Pattern_Expansion.thy ===== *)
theory Pattern_Expansion
  imports Row_Operators
begin

text \<open>
  The expansion of a pattern along relationships (\<open>src/src/ir/runtime/ops/expand.rs\<close>), with the step
  counter of \<open>src/src/ir/runtime/context.rs\<close>.

  The operator walks from the source node of a row in breadth-first order: a walker carries its node, the
  history and path of its row, and the relationships it has used.  Matching labels may hydrate a node,
  so the graph is part of the state, with the number of steps charged.  The check of the Java bridge,
  which may stop a statement at any charge, and the step limit are the fields of \<open>exec_lib\<close>; the
  prefetch of adjacency lists only fills the cache of a source and is left out.
\<close>

section \<open>Steps that may fail\<close>

type_synonym ('s, 'a) exec = "'s \<Rightarrow> (runtime_error + 'a) \<times> 's"

definition ret_exec :: "'a \<Rightarrow> ('s, 'a) exec" where
  "ret_exec a s = (Inr a, s)"

definition fail_exec :: "runtime_error \<Rightarrow> ('s, 'a) exec" where
  "fail_exec e s = (Inl e, s)"

definition bind_exec :: "('s, 'a) exec \<Rightarrow> ('a \<Rightarrow> ('s, 'b) exec) \<Rightarrow> ('s, 'b) exec" where
  "bind_exec m f s = (case m s of (Inl e, t) \<Rightarrow> (Inl e, t) | (Inr a, t) \<Rightarrow> f a t)"

fun collect_exec :: "('a \<Rightarrow> ('s, 'b) exec) \<Rightarrow> 'a list \<Rightarrow> ('s, 'b list) exec" where
  "collect_exec f [] = ret_exec []"
| "collect_exec f (x # xs) = bind_exec (f x) (\<lambda>y. bind_exec (collect_exec f xs) (\<lambda>ys. ret_exec (y # ys)))"

lemma exec_simps:
  "ret_exec a s = (Inr a, s)" "fail_exec e s = (Inl e, s)"
  by (simp_all add: ret_exec_def fail_exec_def)

record exec_state =
  xs_graph :: property_graph
  xs_steps :: u64

record exec_lib =
  step_limit :: "u64 option"
  jvm_check :: "u64 \<Rightarrow> runtime_error option"

definition saturating_add :: "u64 \<Rightarrow> u64 \<Rightarrow> u64" where
  "saturating_add a b = (if a \<le> a + b then a + b else - 1)"

definition charge :: "exec_lib \<Rightarrow> u64 \<Rightarrow> (exec_state, unit) exec" where
  "charge X n s =
     (case jvm_check X (xs_steps s) of
        Some e \<Rightarrow> (Inl e, s)
      | None \<Rightarrow>
          let steps = saturating_add (xs_steps s) n; s = s\<lparr>xs_steps := steps\<rparr> in
          (case step_limit X of
             Some limit \<Rightarrow>
               if limit < steps
               then (Inl (RE_ExecutionLimit (''ORCHIDDB_EXECUTION_MAX_STEPS exceeded after '' @ show_nat (unat steps) @ '' execution steps'')), s)
               else (Inr (), s)
           | None \<Rightarrow> (Inr (), s)))"

definition matches_labels :: "string \<Rightarrow> element_id \<Rightarrow> label_expr \<Rightarrow> (exec_state, bool) exec" where
  "matches_labels label i e s =
     (let (b, g) = node_matches_labels label i e (xs_graph s) in (Inr b, s\<lparr>xs_graph := g\<rparr>))"

section \<open>Bindings\<close>

text \<open>The expression of a binding is evaluated in an empty graph.\<close>

definition bind_op :: "row_lib \<Rightarrow> string \<Rightarrow> ir_expr option \<Rightarrow> row list \<Rightarrow> runtime_error + row list" where
  "bind_op R b e rows =
     (case e of
        None \<Rightarrow> Inr rows
      | Some e \<Rightarrow> collect (\<lambda>r. bind_res (eval (rl_eval R) new_graph e r) (\<lambda>v. Inr (row_bind b v r))) rows)"

section \<open>Expansion\<close>

datatype language = L_Cypher | L_Gql | L_Sparql | L_Gremlin

datatype path_mode = PMo_None | PMo_Walk | PMo_Trail | PMo_Simple | PMo_Acyclic | PMo_TraverserHistory

datatype match_mode = MM_None | MM_DifferentRelationships | MM_RepeatableElements | MM_ProviderDefined

datatype direction = D_Out | D_In | D_Both

datatype target_mode = TM_BindNew | TM_ReplaceCurrent | TM_ReplaceCurrentAndBindLabel | TM_Existing | TM_BindNewOrReplaceCurrent

text \<open>The arguments of \<open>expand_op\<close>; the bounds of the length are \<open>u32\<close> in the source.\<close>

record expansion =
  xp_language :: language
  xp_source :: string
  xp_target :: string
  xp_target_mode :: target_mode
  xp_target_labels :: label_expr
  xp_rel_binding :: "string option"
  xp_rel_types :: label_expr
  xp_dir :: direction
  xp_min :: nat
  xp_max :: "nat option"
  xp_history :: "string option"
  xp_path :: "string option"
  xp_path_mode :: path_mode
  xp_match_mode :: match_mode

datatype path_step = PS_Node | PS_Edge | PS_EdgeAndNode

definition path_step_of :: "language \<Rightarrow> string option \<Rightarrow> bool \<Rightarrow> string \<Rightarrow> path_step" where
  "path_step_of lang path has_edge_binding target =
     (if lang = L_Cypher then if path \<noteq> None then PS_EdgeAndNode else PS_Node
      else if path \<noteq> None \<and> path \<noteq> Some ''__path'' then PS_EdgeAndNode
      else if has_edge_binding \<and> target = ''__edge_other'' then PS_Edge
      else PS_Node)"

fun label_matches :: "string \<Rightarrow> label_expr \<Rightarrow> bool" where
  "label_matches label LE_Any \<longleftrightarrow> True"
| "label_matches label (LE_AnyOf names) \<longleftrightarrow> label \<in> set names"
| "label_matches label (LE_AllOf names) \<longleftrightarrow> list_all (\<lambda>n. n = label) names"
| "label_matches label (LE_Not e) \<longleftrightarrow> \<not> label_matches label e"

definition rel_filter :: "label_expr \<Rightarrow> string list" where
  "rel_filter e =
     (case e of
        LE_AnyOf names \<Rightarrow> remdups_adj (sort names)
      | LE_AllOf names \<Rightarrow> remdups_adj (sort names)
      | _ \<Rightarrow> [])"

definition enforces_edges :: "expansion \<Rightarrow> bool" where
  "enforces_edges X \<longleftrightarrow>
     xp_match_mode X = MM_DifferentRelationships \<or> xp_path_mode X \<in> {PMo_Trail, PMo_Simple, PMo_Acyclic}"

definition enforces_nodes :: "expansion \<Rightarrow> bool" where
  "enforces_nodes X \<longleftrightarrow> xp_path_mode X \<in> {PMo_Simple, PMo_Acyclic}"

record walker =
  wk_label :: string
  wk_id :: element_id
  wk_history :: "val list"
  wk_path :: "val list"
  wk_visited :: "addr list"

type_synonym incidence = "direction \<times> endpoints"

definition incident_edges :: "expansion \<Rightarrow> property_graph \<Rightarrow> walker \<Rightarrow> incidence list" where
  "incident_edges X g w =
     (let outs = map (Pair D_Out) (out_edges g (wk_label w) (wk_id w) (rel_filter (xp_rel_types X)));
          ins = map (Pair D_In) (in_edges g (wk_label w) (wk_id w) (rel_filter (xp_rel_types X)))
      in case xp_dir X of D_Out \<Rightarrow> outs | D_In \<Rightarrow> ins | D_Both \<Rightarrow> outs @ ins)"

definition second_loop_side :: "expansion \<Rightarrow> walker \<Rightarrow> incidence \<Rightarrow> bool" where
  "second_loop_side X w e \<longleftrightarrow>
     (case e of (d, rel, i, label, n) \<Rightarrow>
        xp_dir X = D_Both \<and> d = D_In \<and> xp_match_mode X = MM_DifferentRelationships \<and>
        wk_label w = label \<and> wk_id w = n)"

text \<open>The checks on an edge after its step is charged.\<close>

definition admits :: "expansion \<Rightarrow> addr \<Rightarrow> walker \<Rightarrow> incidence \<Rightarrow> bool" where
  "admits X start w e \<longleftrightarrow>
     (case e of (d, rel, i, label, n) \<Rightarrow>
        label_matches rel (xp_rel_types X) \<and>
        \<not> (enforces_edges X \<and> (rel, i) \<in> set (wk_visited w)) \<and>
        \<not> (enforces_nodes X \<and> V_Node label n \<in> set (wk_path w) \<and>
            \<not> (xp_path_mode X = PMo_Simple \<and> start = (label, n))))"

definition closes_simple :: "expansion \<Rightarrow> addr \<Rightarrow> incidence \<Rightarrow> bool" where
  "closes_simple X start e \<longleftrightarrow> (case e of (d, rel, i, label, n) \<Rightarrow> xp_path_mode X = PMo_Simple \<and> start = (label, n))"

definition edge_value :: "walker \<Rightarrow> incidence \<Rightarrow> val" where
  "edge_value w e =
     (case e of (d, rel, i, label, n) \<Rightarrow>
        if d = D_In then V_Edge rel i label n (wk_label w) (wk_id w) None
        else V_Edge rel i (wk_label w) (wk_id w) label n None)"

definition advance :: "expansion \<Rightarrow> walker \<Rightarrow> incidence \<Rightarrow> walker" where
  "advance X w e =
     (case e of (d, rel, i, label, n) \<Rightarrow>
        \<lparr>wk_label = label, wk_id = n,
         wk_history = (if xp_history X \<noteq> None then wk_history w @ [edge_value w e] else wk_history w),
         wk_path = wk_path w @
           (case path_step_of (xp_language X) (xp_path X) (xp_rel_binding X \<noteq> None) (xp_target X) of
              PS_EdgeAndNode \<Rightarrow> [edge_value w e, V_Node label n]
            | PS_Edge \<Rightarrow> [edge_value w e]
            | PS_Node \<Rightarrow> if xp_path X \<noteq> None \<or> enforces_nodes X then [V_Node label n] else []),
         wk_visited = (if enforces_edges X then wk_visited w @ [(rel, i)] else wk_visited w)\<rparr>)"

definition lands_on :: "expansion \<Rightarrow> row \<Rightarrow> string \<Rightarrow> element_id \<Rightarrow> bool" where
  "lands_on X r label i \<longleftrightarrow>
     xp_target_mode X = TM_Existing \<longrightarrow> map_of (row_bindings r) (xp_target X) = Some (V_Node label i)"

definition bind_opt :: "string option \<Rightarrow> val \<Rightarrow> row \<Rightarrow> row" where
  "bind_opt b v r = (case b of Some k \<Rightarrow> row_bind k v r | None \<Rightarrow> r)"

definition result_row :: "expansion \<Rightarrow> row \<Rightarrow> walker \<Rightarrow> val option \<Rightarrow> row" where
  "result_row X r w edge =
     bind_opt (xp_history X) (V_Path (wk_history w)) (bind_opt (xp_path X) (V_Path (wk_path w))
       ((case edge of Some v \<Rightarrow> bind_opt (xp_rel_binding X) v | None \<Rightarrow> id)
         (if xp_target_mode X = TM_Existing then r else row_bind (xp_target X) (V_Node (wk_label w) (wk_id w)) r)))"

definition within_max :: "expansion \<Rightarrow> nat \<Rightarrow> bool" where
  "within_max X hop \<longleftrightarrow> (case xp_max X of Some m \<Rightarrow> hop < m | None \<Rightarrow> True)"

text \<open>The rows of a walker that may be at the target after \<open>hop\<close> hops.\<close>

definition emit_target ::
  "exec_lib \<Rightarrow> expansion \<Rightarrow> row \<Rightarrow> nat \<Rightarrow> walker \<Rightarrow> val option \<Rightarrow> (exec_state, row list) exec" where
  "emit_target L X r hop u edge =
     (if hop < xp_min X then ret_exec []
      else bind_exec (matches_labels (wk_label u) (wk_id u) (xp_target_labels X)) (\<lambda>ok.
        if ok \<and> lands_on X r (wk_label u) (wk_id u)
        then bind_exec (charge L 1) (\<lambda>_. ret_exec [result_row X r u edge])
        else ret_exec []))"

definition expand_edge ::
  "exec_lib \<Rightarrow> expansion \<Rightarrow> addr \<Rightarrow> row \<Rightarrow> nat \<Rightarrow> walker \<Rightarrow> incidence \<Rightarrow> (exec_state, row list \<times> walker list) exec" where
  "expand_edge L X start r hop w e =
     (if second_loop_side X w e then ret_exec ([], [])
      else bind_exec (charge L 1) (\<lambda>_.
        if \<not> admits X start w e then ret_exec ([], [])
        else let u = advance X w e in
          bind_exec (emit_target L X r hop u (Some (edge_value w e))) (\<lambda>out.
            if \<not> closes_simple X start e \<and> within_max X hop
            then bind_exec (charge L 1) (\<lambda>_. ret_exec (out, [u]))
            else ret_exec (out, []))))"

definition expand_walker ::
  "exec_lib \<Rightarrow> expansion \<Rightarrow> addr \<Rightarrow> row \<Rightarrow> nat \<Rightarrow> walker \<Rightarrow> (exec_state, row list \<times> walker list) exec" where
  "expand_walker L X start r hop w =
     bind_exec (charge L 1) (\<lambda>_ s.
       bind_exec (collect_exec (expand_edge L X start r hop w) (incident_edges X (xs_graph s) w))
         (\<lambda>ps. ret_exec (concat (map fst ps), concat (map snd ps))) s)"

function expand_hops ::
  "exec_lib \<Rightarrow> expansion \<Rightarrow> addr \<Rightarrow> row \<Rightarrow> nat \<Rightarrow> walker list \<Rightarrow> (exec_state, row list) exec" where
  "expand_hops L X start r hop frontier =
     (if frontier = [] \<or> \<not> within_max X hop then ret_exec []
      else if \<not> hop + 1 < 2 ^ 64 then fail_exec (RE_ExecutionLimit ''hop counter overflow'')
      else bind_exec (collect_exec (expand_walker L X start r (hop + 1)) frontier) (\<lambda>ps.
        bind_exec (expand_hops L X start r (hop + 1) (concat (map snd ps))) (\<lambda>rest.
          ret_exec (concat (map fst ps) @ rest))))"
  by pat_completeness auto
termination
  by (relation "measure (\<lambda>(L, X, start, r, hop, frontier). 2 ^ 64 - hop)") auto

declare expand_hops.simps [simp del]

definition bound_path :: "string option \<Rightarrow> row \<Rightarrow> val list option" where
  "bound_path b r =
     (case Option.bind b (map_of (row_bindings r)) of Some (V_Path items) \<Rightarrow> Some items | _ \<Rightarrow> None)"

definition edge_address :: "val \<Rightarrow> addr option" where
  "edge_address v = (case v of V_Edge rel i _ _ _ _ _ \<Rightarrow> Some (rel, i) | _ \<Rightarrow> None)"

definition first_walker :: "expansion \<Rightarrow> row \<Rightarrow> string \<Rightarrow> element_id \<Rightarrow> walker" where
  "first_walker X r label i =
     (let history = (case bound_path (xp_history X) r of Some items \<Rightarrow> items | None \<Rightarrow> []);
          path = (case bound_path (xp_path X) r of Some items \<Rightarrow> items | None \<Rightarrow> [V_Node label i])
      in \<lparr>wk_label = label, wk_id = i, wk_history = history, wk_path = path,
          wk_visited = List.map_filter edge_address (history @ path)\<rparr>)"

definition expand_row :: "exec_lib \<Rightarrow> expansion \<Rightarrow> row \<Rightarrow> (exec_state, row list) exec" where
  "expand_row L X r =
     bind_exec (charge L 1) (\<lambda>_.
       case map_of (row_bindings r) (xp_source X) of
         Some (V_Node label i) \<Rightarrow>
           let w = first_walker X r label i in
           bind_exec (emit_target L X r 0 w None) (\<lambda>here.
             bind_exec (expand_hops L X (label, i) r 0 [w]) (\<lambda>rest. ret_exec (here @ rest)))
       | _ \<Rightarrow> ret_exec [])"

definition expand_op :: "exec_lib \<Rightarrow> expansion \<Rightarrow> row list \<Rightarrow> (exec_state, row list) exec" where
  "expand_op L X rows =
     (if (case xp_max X of Some m \<Rightarrow> m < xp_min X | None \<Rightarrow> False)
      then fail_exec (RE_Unsupported (''expand length '' @ show_nat (xp_min X) @ ''..'' @
        (case xp_max X of Some m \<Rightarrow> show_nat m | None \<Rightarrow> []) @ '' invalid''))
      else bind_exec (collect_exec (expand_row L X) rows) (\<lambda>outs. ret_exec (concat outs)))"


section \<open>Expansion without interruption\<close>

text \<open>No step limit and no interruption by the Java bridge.\<close>

definition quiet :: "exec_lib \<Rightarrow> bool" where
  "quiet L \<longleftrightarrow> step_limit L = None \<and> (\<forall>n. jvm_check L n = None)"

text \<open>In graph \<open>g\<close> the step returns \<open>a\<close> and changes nothing but the step count.\<close>

definition returns_in :: "property_graph \<Rightarrow> (exec_state, 'a) exec \<Rightarrow> 'a \<Rightarrow> bool" where
  "returns_in g m a \<longleftrightarrow> (\<forall>s. xs_graph s = g \<longrightarrow> (\<exists>n. m s = (Inr a, s\<lparr>xs_steps := n\<rparr>)))"

lemma returns_ret [intro]: "returns_in g (ret_exec a) a"
  unfolding returns_in_def by (metis exec_simps(1) exec_state.surjective exec_state.update_convs(2))

lemma returns_bind:
  assumes "returns_in g m a" "returns_in g (f a) b"
  shows "returns_in g (bind_exec m f) b"
  unfolding returns_in_def
proof (intro allI impI)
  fix s :: exec_state assume s: "xs_graph s = g"
  obtain n where n: "m s = (Inr a, s\<lparr>xs_steps := n\<rparr>)" using assms(1) s by (auto simp: returns_in_def)
  obtain k where "f a (s\<lparr>xs_steps := n\<rparr>) = (Inr b, (s\<lparr>xs_steps := n\<rparr>)\<lparr>xs_steps := k\<rparr>)"
    using assms(2) [unfolded returns_in_def, rule_format, of "s\<lparr>xs_steps := n\<rparr>"] s by auto
  then show "\<exists>n. bind_exec m f s = (Inr b, s\<lparr>xs_steps := n\<rparr>)"
    using n by (auto simp: bind_exec_def)
qed

lemma returns_charge: "quiet L \<Longrightarrow> returns_in g (charge L n) ()"
  by (auto simp: returns_in_def quiet_def charge_def Let_def)

lemma returns_collect:
  assumes "\<And>x. x \<in> set xs \<Longrightarrow> returns_in g (f x) (h x)"
  shows "returns_in g (collect_exec f xs) (map h xs)"
  using assms by (induction xs) (auto intro!: returns_bind)

lemma returns_state: "returns_in g (m g) a \<Longrightarrow> returns_in g (\<lambda>s. m (xs_graph s) s) a"
  by (simp add: returns_in_def)

lemma labels_in_memory: "pg_source g = None \<Longrightarrow> snd (node_matches_labels label i e g) = g"
  by (induction e) (simp_all add: node_labels_def case_prod_beta Let_def)

lemma returns_labels:
  assumes "pg_source g = None"
  shows "returns_in g (matches_labels label i e) (fst (node_matches_labels label i e g))"
  unfolding returns_in_def
proof (intro allI impI)
  fix s :: exec_state assume s: "xs_graph s = g"
  show "\<exists>n. matches_labels label i e s = (Inr (fst (node_matches_labels label i e g)), s\<lparr>xs_steps := n\<rparr>)"
    using s labels_in_memory [OF assms, of label i e]
    by (intro exI [of _ "xs_steps s"]) (auto simp: matches_labels_def case_prod_beta Let_def)
qed

lemmas returns_intros = returns_ret returns_bind returns_charge

definition follows :: "expansion \<Rightarrow> property_graph \<Rightarrow> addr \<Rightarrow> walker \<Rightarrow> incidence \<Rightarrow> bool" where
  "follows X g start w e \<longleftrightarrow> e \<in> set (incident_edges X g w) \<and> \<not> second_loop_side X w e \<and> admits X start w e"

definition matches_at :: "expansion \<Rightarrow> property_graph \<Rightarrow> row \<Rightarrow> nat \<Rightarrow> walker \<Rightarrow> bool" where
  "matches_at X g r hop u \<longleftrightarrow>
     xp_min X \<le> hop \<and> fst (node_matches_labels (wk_label u) (wk_id u) (xp_target_labels X) g) \<and>
     lands_on X r (wk_label u) (wk_id u)"

definition edge_outcome ::
  "expansion \<Rightarrow> property_graph \<Rightarrow> addr \<Rightarrow> row \<Rightarrow> nat \<Rightarrow> walker \<Rightarrow> incidence \<Rightarrow> row list \<times> walker list" where
  "edge_outcome X g start r hop w e =
     (if second_loop_side X w e \<or> \<not> admits X start w e then ([], [])
      else (if matches_at X g r hop (advance X w e) then [result_row X r (advance X w e) (Some (edge_value w e))] else [],
            if \<not> closes_simple X start e \<and> within_max X hop then [advance X w e] else []))"

lemma returns_emit:
  assumes "quiet L" "pg_source g = None"
  shows "returns_in g (emit_target L X r hop u edge) (if matches_at X g r hop u then [result_row X r u edge] else [])"
  unfolding emit_target_def matches_at_def
  by (auto intro!: returns_bind [OF returns_labels [OF assms(2)]] returns_bind [OF returns_charge [OF assms(1)]])

lemma returns_edge:
  assumes "quiet L" "pg_source g = None"
  shows "returns_in g (expand_edge L X start r hop w e) (edge_outcome X g start r hop w e)"
  unfolding expand_edge_def edge_outcome_def Let_def
  by (auto intro!: returns_bind [OF returns_charge [OF assms(1)]] returns_bind [OF returns_emit [OF assms]])

lemma returns_walker:
  assumes "quiet L" "pg_source g = None"
  shows "returns_in g (expand_walker L X start r hop w)
    (concat (map (\<lambda>e. fst (edge_outcome X g start r hop w e)) (incident_edges X g w)),
     concat (map (\<lambda>e. snd (edge_outcome X g start r hop w e)) (incident_edges X g w)))"
proof -
  let ?m = "\<lambda>h. bind_exec (collect_exec (expand_edge L X start r hop w) (incident_edges X h w))
    (\<lambda>ps. ret_exec (concat (map fst ps), concat (map snd ps)))"
  have "returns_in g (?m g)
    (concat (map fst (map (edge_outcome X g start r hop w) (incident_edges X g w))),
     concat (map snd (map (edge_outcome X g start r hop w) (incident_edges X g w))))"
    by (rule returns_bind [OF returns_collect]) (auto intro: returns_edge [OF assms])
  then show ?thesis
    unfolding expand_walker_def
    by (intro returns_bind [OF returns_charge [OF assms(1)]]) (simp add: returns_state [where m = ?m] comp_def)
qed


section \<open>What an expansion matches\<close>

text \<open>One hop of a walker that may go on.\<close>

definition wstep :: "expansion \<Rightarrow> property_graph \<Rightarrow> addr \<Rightarrow> walker \<Rightarrow> walker \<Rightarrow> bool" where
  "wstep X g start w u \<longleftrightarrow> (\<exists>e. follows X g start w e \<and> \<not> closes_simple X start e \<and> u = advance X w e)"

text \<open>The rows for the last hop of a walk, the \<open>hop\<close>-th.\<close>

definition arrivals :: "expansion \<Rightarrow> property_graph \<Rightarrow> addr \<Rightarrow> row \<Rightarrow> nat \<Rightarrow> walker \<Rightarrow> row set" where
  "arrivals X g start r hop w =
     {result_row X r (advance X w e) (Some (edge_value w e)) | e. follows X g start w e \<and> matches_at X g r hop (advance X w e)}"

definition arrivals_from :: "expansion \<Rightarrow> property_graph \<Rightarrow> addr \<Rightarrow> row \<Rightarrow> nat \<Rightarrow> walker set \<Rightarrow> row set" where
  "arrivals_from X g start r hop F =
     (\<Union>k. \<Union>w \<in> {w. \<exists>v \<in> F. (wstep X g start ^^ k) v w \<and> within_max X (hop + k)}. arrivals X g start r (hop + k + 1) w)"

lemma outcome_sets:
  "set (concat (map (\<lambda>e. fst (edge_outcome X g start r hop w e)) (incident_edges X g w))) = arrivals X g start r hop w"
  "set (concat (map (\<lambda>e. snd (edge_outcome X g start r hop w e)) (incident_edges X g w))) =
     {u. wstep X g start w u \<and> within_max X hop}"
  by (auto simp: edge_outcome_def arrivals_def wstep_def follows_def split: if_splits; blast)+

lemma within_max_mono: "within_max X (m + n) \<Longrightarrow> within_max X m"
  by (auto simp: within_max_def split: option.splits)

lemma arrivals_from_step:
  assumes "within_max X hop"
  shows "arrivals_from X g start r hop F =
    (\<Union>w \<in> F. arrivals X g start r (hop + 1) w) \<union>
    arrivals_from X g start r (hop + 1) {u. \<exists>w \<in> F. wstep X g start w u \<and> within_max X (hop + 1)}"
    (is "?lhs = ?now \<union> ?later")
proof
  show "?lhs \<subseteq> ?now \<union> ?later"
  proof
    fix x assume "x \<in> ?lhs"
    then obtain k v w where w: "v \<in> F" "(wstep X g start ^^ k) v w" "within_max X (hop + k)"
      "x \<in> arrivals X g start r (hop + k + 1) w"
      by (auto simp: arrivals_from_def)
    show "x \<in> ?now \<union> ?later"
    proof (cases k)
      case 0
      then show ?thesis using w by auto
    next
      case (Suc j)
      then obtain u where u: "wstep X g start v u" "(wstep X g start ^^ j) u w"
        using w(2) by (blast elim: relpowp_Suc_E2)
      have "within_max X (hop + 1)"
        using w(3) within_max_mono [of X "hop + 1" j] Suc by simp
      then have "u \<in> {u. \<exists>w \<in> F. wstep X g start w u \<and> within_max X (hop + 1)}"
        using u(1) w(1) by blast
      moreover have "within_max X (hop + 1 + j)" "x \<in> arrivals X g start r (hop + 1 + j + 1) w"
        using w Suc by simp_all
      ultimately have "x \<in> ?later"
        using u(2) unfolding arrivals_from_def by blast
      then show ?thesis ..
    qed
  qed
next
  show "?now \<union> ?later \<subseteq> ?lhs"
  proof
    fix x assume "x \<in> ?now \<union> ?later"
    then consider w where "w \<in> F" "x \<in> arrivals X g start r (hop + 1) w"
      | k v u w where "v \<in> F" "wstep X g start v u" "(wstep X g start ^^ k) u w" "within_max X (hop + 1 + k)"
        "x \<in> arrivals X g start r (hop + 1 + k + 1) w"
      by (auto simp: arrivals_from_def)
    then show "x \<in> ?lhs"
    proof cases
      case (1 w)
      then have "(wstep X g start ^^ 0) w w \<and> within_max X (hop + 0)" "x \<in> arrivals X g start r (hop + 0 + 1) w"
        using assms by auto
      with 1(1) show ?thesis unfolding arrivals_from_def by blast
    next
      case (2 k v u w)
      then have "(wstep X g start ^^ Suc k) v w"
        by (blast intro: relpowp_Suc_I2)
      moreover have "within_max X (hop + Suc k)" "x \<in> arrivals X g start r (hop + Suc k + 1) w"
        using 2 by simp_all
      ultimately show ?thesis
        using 2(1) unfolding arrivals_from_def by blast
    qed
  qed
qed

text \<open>The expansion from \<open>F\<close> at \<open>hop\<close> ends by hop \<open>n\<close>: it is bounded by \<open>n\<close>, or no walk is that long.\<close>

definition ends_by :: "expansion \<Rightarrow> property_graph \<Rightarrow> addr \<Rightarrow> nat \<Rightarrow> walker set \<Rightarrow> nat \<Rightarrow> bool" where
  "ends_by X g start hop F n \<longleftrightarrow>
     hop \<le> n \<and> n < 2 ^ 64 \<and>
     ((\<exists>m \<le> n. xp_max X = Some m) \<or> (\<forall>v \<in> F. \<forall>u. \<not> (wstep X g start ^^ (n - hop)) v u))"

lemma hops_return:
  assumes "quiet L" "pg_source g = None" "ends_by X g start hop (set F) n"
  shows "\<exists>rows. returns_in g (expand_hops L X start r hop F) rows \<and> set rows = arrivals_from X g start r hop (set F)"
  using assms(3)
proof (induction "n - hop" arbitrary: hop F)
  case 0
  then have "hop = n" by (simp add: ends_by_def)
  then have "F = [] \<or> \<not> within_max X hop"
    using 0 by (cases F) (auto simp: ends_by_def within_max_def)
  moreover from this have "arrivals_from X g start r hop (set F) = {}"
    by (auto simp: arrivals_from_def dest: within_max_mono)
  ultimately show ?case
    by (intro exI [of _ "[]"]) (auto simp: expand_hops.simps [of L X start r hop F])
next
  case (Suc d)
  show ?case
  proof (cases "F = [] \<or> \<not> within_max X hop")
    case True
    moreover from this have "arrivals_from X g start r hop (set F) = {}"
      by (auto simp: arrivals_from_def dest: within_max_mono)
    ultimately show ?thesis
      by (intro exI [of _ "[]"]) (auto simp: expand_hops.simps [of L X start r hop F])
  next
    case False
    let ?out = "\<lambda>w. concat (map (\<lambda>e. fst (edge_outcome X g start r (hop + 1) w e)) (incident_edges X g w))"
    let ?next = "\<lambda>w. concat (map (\<lambda>e. snd (edge_outcome X g start r (hop + 1) w e)) (incident_edges X g w))"
    let ?F = "concat (map ?next F)"
    have F: "set ?F = {u. \<exists>w \<in> set F. wstep X g start w u \<and> within_max X (hop + 1)}"
      using outcome_sets(2) [of X g start r "hop + 1"] by auto
    have "ends_by X g start (hop + 1) (set ?F) n"
    proof -
      have "\<not> (wstep X g start ^^ (n - (hop + 1))) u v"
        if short: "\<forall>v \<in> set F. \<forall>u. \<not> (wstep X g start ^^ (n - hop)) v u" and u: "u \<in> set ?F" for u v
      proof
        assume walk: "(wstep X g start ^^ (n - (hop + 1))) u v"
        obtain w where w: "w \<in> set F" "wstep X g start w u" using u unfolding F by blast
        have "n - hop = Suc (n - (hop + 1))" using Suc(2) by simp
        then have "(wstep X g start ^^ (n - hop)) w v"
          using relpowp_Suc_I2 [of "wstep X g start", OF w(2) walk] by (simp only:)
        then show False using short w(1) by blast
      qed
      then show ?thesis
        using Suc(2,3) unfolding ends_by_def by auto
    qed
    moreover have "d = n - (hop + 1)" using Suc(2) by simp
    ultimately obtain rest where
      rest: "returns_in g (expand_hops L X start r (hop + 1) ?F) rest" "set rest = arrivals_from X g start r (hop + 1) (set ?F)"
      using Suc(1) [of "hop + 1" ?F] by blast
    have walkers: "returns_in g (collect_exec (expand_walker L X start r (hop + 1)) F) (map (\<lambda>w. (?out w, ?next w)) F)"
      by (rule returns_collect) (rule returns_walker [OF assms(1,2)])
    have "\<not> \<not> hop + 1 < 2 ^ 64"
    proof -
      have "hop + 1 \<le> n" using Suc(2) by linarith
      moreover have "n < 2 ^ 64" using Suc(3) by (simp add: ends_by_def)
      ultimately show ?thesis by linarith
    qed
    then have loop: "expand_hops L X start r hop F =
        bind_exec (collect_exec (expand_walker L X start r (hop + 1)) F) (\<lambda>ps.
          bind_exec (expand_hops L X start r (hop + 1) (concat (map snd ps))) (\<lambda>rest.
            ret_exec (concat (map fst ps) @ rest)))"
      using False by (subst expand_hops.simps) (simp only: if_False)
    have pairs: "map snd (map (\<lambda>w. (?out w, ?next w)) F) = map ?next F"
      "map fst (map (\<lambda>w. (?out w, ?next w)) F) = map ?out F"
      by simp_all
    have "returns_in g (expand_hops L X start r hop F) (concat (map ?out F) @ rest)"
      unfolding loop
      by (rule returns_bind [OF walkers], unfold pairs, rule returns_bind [OF rest(1)], rule returns_ret)
    moreover have "set (concat (map ?out F) @ rest) = arrivals_from X g start r hop (set F)"
      using arrivals_from_step [of X hop g start r "set F"] False outcome_sets(1) [of X g start r "hop + 1"] rest(2) F by auto
    ultimately show ?thesis by blast
  qed
qed


section \<open>Trails of live relationships\<close>

definition wk_at :: "walker \<Rightarrow> addr" where
  "wk_at w = (wk_label w, wk_id w)"

fun rel_of :: "incidence \<Rightarrow> addr" where
  "rel_of (d, rel, i, label, n) = (rel, i)"

fun far :: "incidence \<Rightarrow> addr" where
  "far (d, rel, i, label, n) = (label, n)"

text \<open>
  A live relationship of a matching type leads from node \<open>a\<close> to the far end; when relationships have
  to differ, a self-loop of an undirected expansion has one orientation.
\<close>

fun crosses :: "expansion \<Rightarrow> property_graph \<Rightarrow> addr \<Rightarrow> incidence \<Rightarrow> bool" where
  "crosses X g a (d, rel, i, label, n) \<longleftrightarrow>
     label_matches rel (xp_rel_types X) \<and>
     (d = D_Out \<and> xp_dir X \<noteq> D_In \<and> live_edge_endpoints g rel i = Some (fst a, snd a, label, n) \<or>
      d = D_In \<and> xp_dir X \<noteq> D_Out \<and> live_edge_endpoints g rel i = Some (label, n, fst a, snd a) \<and>
        \<not> (xp_dir X = D_Both \<and> xp_match_mode X = MM_DifferentRelationships \<and> a = (label, n)))"

fun chain :: "expansion \<Rightarrow> property_graph \<Rightarrow> addr \<Rightarrow> incidence list \<Rightarrow> bool" where
  "chain X g a [] \<longleftrightarrow> True"
| "chain X g a (e # es) \<longleftrightarrow> crosses X g a e \<and> chain X g (far e) es"

text \<open>No node of the path again, but the start of a simple path as its last node.\<close>

fun nodes_ok :: "expansion \<Rightarrow> addr \<Rightarrow> walker \<Rightarrow> incidence list \<Rightarrow> bool" where
  "nodes_ok X start w [] \<longleftrightarrow> True"
| "nodes_ok X start w (e # es) \<longleftrightarrow>
     (if xp_path_mode X = PMo_Simple \<and> far e = start then es = []
      else enforces_nodes X \<longrightarrow> V_Node (fst (far e)) (snd (far e)) \<notin> set (wk_path w)) \<and>
     nodes_ok X start (advance X w e) es"

definition trail :: "expansion \<Rightarrow> property_graph \<Rightarrow> addr \<Rightarrow> walker \<Rightarrow> incidence list \<Rightarrow> bool" where
  "trail X g start w es \<longleftrightarrow>
     chain X g (wk_at w) es \<and> nodes_ok X start w es \<and>
     (enforces_edges X \<longrightarrow> distinct (map rel_of es) \<and> rel_of ` set es \<inter> set (wk_visited w) = {})"

definition last_edge :: "expansion \<Rightarrow> walker \<Rightarrow> incidence list \<Rightarrow> val option" where
  "last_edge X w es = (if es = [] then None else Some (edge_value (foldl (advance X) w (butlast es)) (last es)))"

definition matched_rows :: "expansion \<Rightarrow> property_graph \<Rightarrow> row \<Rightarrow> row set" where
  "matched_rows X g r =
     (case map_of (row_bindings r) (xp_source X) of
        Some (V_Node label i) \<Rightarrow>
          let w = first_walker X r label i in
          {result_row X r (foldl (advance X) w es) (last_edge X w es) | es.
             trail X g (label, i) w es \<and> (\<forall>m. xp_max X = Some m \<longrightarrow> length es \<le> m) \<and>
             matches_at X g r (length es) (foldl (advance X) w es)}
      | _ \<Rightarrow> {})"

subsection \<open>Incident edges are live relationships\<close>

lemma base_neighbors_filter:
  assumes "session_base g" "adj = pg_out_adj g \<or> adj = pg_in_adj g"
  shows "(r, i, l, n) \<in> set (base_neighbors g adj a s rels) \<longleftrightarrow>
    (rels = [] \<or> r \<in> set rels) \<and> (r, i, l, n) \<in> set (base_neighbors g adj a s [])"
proof -
  have "r \<in> fst ` set (pg_edges g)"
    if "x \<in> set (al_default [] adj (a, s, r))" for x
    using that assms base_edge_type(1) [OF assms(1), of r "er_row x"] by (auto simp: session_base_def base_wf_def)
  then show ?thesis
    by (force simp: base_neighbors_def)
qed

lemma inserted_neighbors_filter:
  "(r, i, l, n) \<in> set (inserted_neighbors g adj other a rels) \<longleftrightarrow>
    (rels = [] \<or> r \<in> set rels) \<and> (r, i, l, n) \<in> set (inserted_neighbors g adj other a [])"
proof -
  have h: "x \<in> set (concat (map (\<lambda>(rel, row). if rels \<noteq> [] \<and> rel \<notin> set rels then [] else h rel row) xs)) \<longleftrightarrow>
      (rels = [] \<or> fst x \<in> set rels) \<and> x \<in> set (concat (map (\<lambda>(rel, row). h rel row) xs))"
    if "\<And>rel row x. x \<in> set (h rel row) \<Longrightarrow> fst x = rel"
    for h :: "string \<Rightarrow> element_id \<Rightarrow> endpoints list" and xs x
  proof (induction xs)
    case (Cons p xs)
    then show ?case using that [of x "fst p" "snd p"] by (auto simp: case_prod_beta)
  qed simp
  show ?thesis
    unfolding inserted_neighbors_def by (subst h) (auto split: option.splits if_splits)
qed

lemma neighbours_filter:
  assumes "graph_inv g"
  shows "(r, i, l, n) \<in> set (out_edges g a s rels) \<longleftrightarrow>
      (rels = [] \<or> r \<in> set rels) \<and> live_edge_endpoints g r i = Some (a, s, l, n)"
    "(r, i, l, n) \<in> set (in_edges g a s rels) \<longleftrightarrow>
      (rels = [] \<or> r \<in> set rels) \<and> live_edge_endpoints g r i = Some (l, n, a, s)"
proof -
  have base: "session_base g" using assms by (simp add: graph_inv_def)
  then have src: "source_neighbors g b a s rels = []" for b rels
    by (simp add: session_base_def source_neighbors_def)
  show "(r, i, l, n) \<in> set (out_edges g a s rels) \<longleftrightarrow>
      (rels = [] \<or> r \<in> set rels) \<and> live_edge_endpoints g r i = Some (a, s, l, n)"
    unfolding out_edges_live [OF assms, symmetric] out_edges_def src
    using base_neighbors_filter [OF base, of "pg_out_adj g" r i l n a s rels]
      inserted_neighbors_filter [of r i l n g "ov_out_adj (pg_overlay g)" ie_dst "(a, s)" rels] by auto
  show "(r, i, l, n) \<in> set (in_edges g a s rels) \<longleftrightarrow>
      (rels = [] \<or> r \<in> set rels) \<and> live_edge_endpoints g r i = Some (l, n, a, s)"
    unfolding in_edges_live [OF assms, symmetric] in_edges_def src
    using base_neighbors_filter [OF base, of "pg_in_adj g" r i l n a s rels]
      inserted_neighbors_filter [of r i l n g "ov_in_adj (pg_overlay g)" ie_src "(a, s)" rels] by auto
qed

lemma label_matches_filter: "label_matches rel e \<Longrightarrow> rel_filter e = [] \<or> rel \<in> set (rel_filter e)"
proof (cases e)
  case (LE_AllOf names)
  then show "label_matches rel e \<Longrightarrow> rel_filter e = [] \<or> rel \<in> set (rel_filter e)"
    by (cases names) (auto simp: rel_filter_def set_insort_key)
qed (auto simp: rel_filter_def)

lemma follows_iff:
  assumes "graph_inv g"
  shows "follows X g start w e \<longleftrightarrow>
    crosses X g (wk_at w) e \<and> (enforces_edges X \<longrightarrow> rel_of e \<notin> set (wk_visited w)) \<and>
    (enforces_nodes X \<longrightarrow> V_Node (fst (far e)) (snd (far e)) \<notin> set (wk_path w) \<or> xp_path_mode X = PMo_Simple \<and> far e = start)"
proof -
  obtain d rel i label n where e: "e = (d, rel, i, label, n)" by (cases e) auto
  show ?thesis
    unfolding e follows_def incident_edges_def admits_def second_loop_side_def wk_at_def
    using label_matches_filter [of rel "xp_rel_types X"]
    by (cases "xp_dir X") (auto simp: neighbours_filter [OF assms] Let_def)
qed


subsection \<open>The walks of the operator are the trails\<close>

lemma advance_simps [simp]:
  "wk_at (advance X w e) = far e"
  "wk_visited (advance X w e) = (if enforces_edges X then wk_visited w @ [rel_of e] else wk_visited w)"
  by (cases e; simp add: advance_def wk_at_def)+

lemma closes_simple_iff: "closes_simple X start e \<longleftrightarrow> xp_path_mode X = PMo_Simple \<and> far e = start"
  by (cases e) (auto simp: closes_simple_def)

lemma trail_Nil [simp]: "trail X g start w []"
  by (simp add: trail_def)

lemma trail_Cons:
  assumes "graph_inv g"
  shows "trail X g start w (e # es) \<longleftrightarrow>
    follows X g start w e \<and> (es \<noteq> [] \<longrightarrow> \<not> closes_simple X start e) \<and> trail X g start (advance X w e) es"
  unfolding follows_iff [OF assms] closes_simple_iff trail_def
  by (cases "xp_path_mode X = PMo_Simple \<and> far e = start") auto

lemma walk_trail:
  assumes "graph_inv g"
  shows "(wstep X g start ^^ k) v w \<and> follows X g start w e \<longleftrightarrow>
    (\<exists>es. length es = k \<and> trail X g start v (es @ [e]) \<and> w = foldl (advance X) v es)"
proof (induction k arbitrary: v)
  case 0
  then show ?case by (auto simp: trail_Cons [OF assms])
next
  case (Suc k)
  have "(wstep X g start ^^ Suc k) v w \<and> follows X g start w e \<longleftrightarrow>
      (\<exists>u. wstep X g start v u \<and> (wstep X g start ^^ k) u w \<and> follows X g start w e)"
    by (meson relpowp_Suc_D2 relpowp_Suc_I2)
  also have "\<dots> \<longleftrightarrow> (\<exists>a es. follows X g start v a \<and> \<not> closes_simple X start a \<and> length es = k \<and>
      trail X g start (advance X v a) (es @ [e]) \<and> w = foldl (advance X) (advance X v a) es)"
    unfolding Suc wstep_def by blast
  also have "\<dots> \<longleftrightarrow> (\<exists>a es. length es = k \<and> trail X g start v ((a # es) @ [e]) \<and> w = foldl (advance X) v (a # es))"
    by (simp add: trail_Cons [OF assms] del: split_paired_Ex) blast
  also have "\<dots> \<longleftrightarrow> (\<exists>es. length es = Suc k \<and> trail X g start v (es @ [e]) \<and> w = foldl (advance X) v es)"
    (is "(\<exists>a es. ?Q a es) \<longleftrightarrow> ?S")
  proof
    assume ?S
    then obtain es where "length es = Suc k" "trail X g start v (es @ [e])" "w = foldl (advance X) v es" by blast
    moreover then obtain a xs where "es = a # xs" by (cases es) auto
    ultimately have "?Q a xs" by simp
    then show "\<exists>a es. ?Q a es" by blast
  next
    assume "\<exists>a es. ?Q a es"
    then obtain a es where "?Q a es" by blast
    then show ?S by (intro exI [of _ "a # es"]) simp
  qed
  finally show ?case .
qed

lemma arrivals_from_trails:
  assumes "graph_inv g"
  shows "arrivals_from X g start r 0 {v} =
    {result_row X r (foldl (advance X) v es) (last_edge X v es) | es.
       es \<noteq> [] \<and> trail X g start v es \<and> (\<forall>m. xp_max X = Some m \<longrightarrow> length es \<le> m) \<and>
       matches_at X g r (length es) (foldl (advance X) v es)}" (is "_ = ?R")
proof -
  have bound: "within_max X k \<longleftrightarrow> (\<forall>m. xp_max X = Some m \<longrightarrow> Suc k \<le> m)" for k
    by (auto simp: within_max_def split: option.split)
  have "x \<in> arrivals_from X g start r 0 {v} \<longleftrightarrow>
      (\<exists>k w e. ((wstep X g start ^^ k) v w \<and> follows X g start w e) \<and> within_max X k \<and>
        matches_at X g r (k + 1) (advance X w e) \<and> x = result_row X r (advance X w e) (Some (edge_value w e)))" for x
    unfolding arrivals_from_def arrivals_def by (simp del: split_paired_Ex) blast
  also have "\<dots> x \<longleftrightarrow> (\<exists>es e. trail X g start v (es @ [e]) \<and> within_max X (length es) \<and>
        matches_at X g r (length (es @ [e])) (foldl (advance X) v (es @ [e])) \<and>
        x = result_row X r (foldl (advance X) v (es @ [e])) (last_edge X v (es @ [e])))" for x
    unfolding walk_trail [OF assms] by (simp add: last_edge_def del: split_paired_Ex) blast
  also have "\<dots> x \<longleftrightarrow> x \<in> ?R" for x
  proof
    assume "x \<in> ?R"
    then obtain es where es: "es \<noteq> []" "trail X g start v es" "\<forall>m. xp_max X = Some m \<longrightarrow> length es \<le> m"
      "matches_at X g r (length es) (foldl (advance X) v es)" "x = result_row X r (foldl (advance X) v es) (last_edge X v es)"
      by blast
    moreover have "Suc (length (butlast es)) = length es" "butlast es @ [last es] = es" using es(1) by simp_all
    ultimately show "\<exists>es e. trail X g start v (es @ [e]) \<and> within_max X (length es) \<and>
        matches_at X g r (length (es @ [e])) (foldl (advance X) v (es @ [e])) \<and>
        x = result_row X r (foldl (advance X) v (es @ [e])) (last_edge X v (es @ [e]))"
      by (intro exI [of _ "butlast es"] exI [of _ "last es"]) (simp add: bound)
  next
    assume "\<exists>es e. trail X g start v (es @ [e]) \<and> within_max X (length es) \<and>
        matches_at X g r (length (es @ [e])) (foldl (advance X) v (es @ [e])) \<and>
        x = result_row X r (foldl (advance X) v (es @ [e])) (last_edge X v (es @ [e]))"
    then obtain es e where "trail X g start v (es @ [e])" "\<forall>m. xp_max X = Some m \<longrightarrow> length (es @ [e]) \<le> m"
      "matches_at X g r (length (es @ [e])) (foldl (advance X) v (es @ [e]))"
      "x = result_row X r (foldl (advance X) v (es @ [e])) (last_edge X v (es @ [e]))"
      unfolding bound by auto
    then show "x \<in> ?R" by blast
  qed
  finally show ?thesis by blast
qed

lemma row_matches:
  assumes "graph_inv g" "quiet L"
    "\<And>label i. map_of (row_bindings r) (xp_source X) = Some (V_Node label i) \<Longrightarrow>
      ends_by X g (label, i) 0 {first_walker X r label i} n"
  shows "\<exists>out. returns_in g (expand_row L X r) out \<and> set out = matched_rows X g r"
proof -
  have src: "pg_source g = None" using graph_inv_parts [OF assms(1)] by simp
  show ?thesis
  proof (cases "\<exists>label i. map_of (row_bindings r) (xp_source X) = Some (V_Node label i)")
    case False
    then have "expand_row L X r = bind_exec (charge L 1) (\<lambda>_. ret_exec [])" "matched_rows X g r = {}"
      unfolding expand_row_def matched_rows_def by (auto split: option.splits val.splits)
    then show ?thesis
      by (metis returns_bind returns_charge [OF assms(2)] returns_ret empty_set)
  next
    case True
    then obtain label i where node: "map_of (row_bindings r) (xp_source X) = Some (V_Node label i)" by blast
    let ?w = "first_walker X r label i"
    let ?here = "if matches_at X g r 0 ?w then [result_row X r ?w None] else []"
    obtain rest where rest: "returns_in g (expand_hops L X (label, i) r 0 [?w]) rest"
      "set rest = arrivals_from X g (label, i) r 0 {?w}"
      using hops_return [OF assms(2) src, of X "(label, i)" 0 "[?w]" n r] assms(3) [OF node] by auto
    have "returns_in g (expand_row L X r) (?here @ rest)"
      unfolding expand_row_def node option.case val.case Let_def
      by (intro returns_bind [OF returns_charge [OF assms(2)]] returns_bind [OF returns_emit [OF assms(2) src]]
        returns_bind [OF rest(1)] returns_ret)
    moreover have "set (?here @ rest) = matched_rows X g r"
    proof -
      define f where "f es = result_row X r (foldl (advance X) ?w es) (last_edge X ?w es)" for es
      define P where "P es \<longleftrightarrow> trail X g (label, i) ?w es \<and> (\<forall>m. xp_max X = Some m \<longrightarrow> length es \<le> m) \<and>
          matches_at X g r (length es) (foldl (advance X) ?w es)" for es
      have rows: "matched_rows X g r = {f es | es. P es}"
        unfolding matched_rows_def node Let_def f_def P_def by simp
      have "set rest = {f es | es. es \<noteq> [] \<and> P es}"
        unfolding rest(2) arrivals_from_trails [OF assms(1)] f_def P_def by simp
      moreover have "set ?here = {f es | es. es = [] \<and> P es}"
        by (simp add: f_def P_def last_edge_def)
      ultimately show ?thesis unfolding rows set_append by blast
    qed
    ultimately show ?thesis by blast
  qed
qed


subsection \<open>Trails end\<close>

text \<open>A bound on the number of live relationships: what the overlay inserted and what the base has.\<close>

definition stored_edges :: "property_graph \<Rightarrow> nat" where
  "stored_edges g = length (ov_inserted_edges (pg_overlay g)) + length (pg_edge_locations g)"

lemma live_edges_bounded:
  assumes "graph_inv g" "distinct ks" "\<And>r i. (r, i) \<in> set ks \<Longrightarrow> live_edge_endpoints g r i \<noteq> None"
  shows "length ks \<le> stored_edges g"
proof -
  note p = graph_inv_parts [OF assms(1)]
  have "k \<in> fst ` set (ov_inserted_edges (pg_overlay g)) \<union> fst ` set (pg_edge_locations g)" if "k \<in> set ks" for k
  proof -
    obtain r i where k: "k = (r, i)" by (cases k)
    then have "edge_endpoints g r i \<noteq> None"
      using assms(3) [of r i] that by (auto simp: live_edge_endpoints_def split: if_splits)
    then consider q where "ends (pg_overlay g) k = Some q" | q where "base_endpoints g r i = Some q"
      by (auto simp: edge_endpoints_ends [OF p(6)] k split: option.splits)
    then show ?thesis
    proof cases
      case 1
      then show ?thesis by (auto simp: ends_def intro: map_of_SomeD rev_image_eqI)
    next
      case 2
      then have "map_of (pg_edge_locations g) k \<noteq> None" using base_edge_type(2) [OF p(1)] k by blast
      then show ?thesis by (simp add: map_of_eq_None_iff)
    qed
  qed
  then have "card (set ks) \<le> card (set (map fst (ov_inserted_edges (pg_overlay g)) @ map fst (pg_edge_locations g)))"
    by (intro card_mono) auto
  also have "\<dots> \<le> stored_edges g"
    unfolding stored_edges_def by (rule order_trans [OF card_length]) simp
  finally show ?thesis using assms(2) by (simp add: distinct_card)
qed

lemma chain_live: "chain X g a es \<Longrightarrow> (r, i) \<in> rel_of ` set es \<Longrightarrow> live_edge_endpoints g r i \<noteq> None"
  by (induction X g a es rule: chain.induct) auto

lemma trail_bounded:
  assumes "graph_inv g" "enforces_edges X" "trail X g start w es"
  shows "length es \<le> stored_edges g"
  using live_edges_bounded [OF assms(1), of "map rel_of es"] assms(2,3) chain_live [of X g "wk_at w" es]
  by (auto simp: trail_def)

lemma trails_end:
  assumes "graph_inv g" "enforces_edges X \<or> (\<exists>m < 2 ^ 32. xp_max X = Some m)" "stored_edges g + 1 < 2 ^ 64"
  shows "\<exists>n. \<forall>start F. ends_by X g start 0 F n"
proof (cases "enforces_edges X")
  case True
  have "\<not> (wstep X g start ^^ (stored_edges g + 1)) v u" for start v u
  proof
    assume "(wstep X g start ^^ (stored_edges g + 1)) v u"
    then obtain w e where "(wstep X g start ^^ stored_edges g) v w \<and> follows X g start w e"
      by (auto simp: wstep_def simp del: split_paired_Ex)
    then obtain es where "length es = stored_edges g" "trail X g start v (es @ [e])"
      unfolding walk_trail [OF assms(1)] by blast
    then show False using trail_bounded [OF assms(1) True] by fastforce
  qed
  then have "\<forall>start F. ends_by X g start 0 F (stored_edges g + 1)"
    using assms(3) by (simp add: ends_by_def)
  then show ?thesis ..
next
  case False
  then obtain m where "m < 2 ^ 32" "xp_max X = Some m" using assms(2) by blast
  then have "\<forall>start F. ends_by X g start 0 F m" by (auto simp: ends_by_def)
  then show ?thesis ..
qed

lemma expand_returns:
  assumes "graph_inv g" "quiet L" "enforces_edges X \<or> (\<exists>m < 2 ^ 32. xp_max X = Some m)" "stored_edges g + 1 < 2 ^ 64"
    "\<forall>m. xp_max X = Some m \<longrightarrow> xp_min X \<le> m"
  shows "\<exists>out. returns_in g (expand_op L X rows) out \<and> set out = (\<Union>r \<in> set rows. matched_rows X g r)"
proof -
  obtain n where "\<forall>start F. ends_by X g start 0 F n"
    using trails_end [OF assms(1,3,4)] by blast
  then have "\<exists>out. returns_in g (expand_row L X r) out \<and> set out = matched_rows X g r" for r
    using row_matches [OF assms(1,2), of r X n] by blast
  then obtain h where h: "\<And>r. returns_in g (expand_row L X r) (h r)" "\<And>r. set (h r) = matched_rows X g r"
    by metis
  have "returns_in g (expand_op L X rows) (concat (map h rows))"
    unfolding expand_op_def using assms(5)
    by (auto split: option.splits intro!: returns_bind [OF returns_collect [of _ g _ h]] h(1))
  then show ?thesis by (intro exI [of _ "concat (map h rows)"]) (auto simp: h(2))
qed

text \<open>
  C13: In every graph a session of native writes reaches, an expansion whose relationships have to differ (or
  whose length is bounded) always ends, and the rows it returns are exactly those of the trails: the chains
  of live relationships of matching types in the direction of the expansion from the source node of a row,
  with no relationship used twice and, for simple and acyclic paths, no node used twice, whose length is
  within the bounds and whose last node has the labels of the target.
\<close>

theorem expansion_finds_the_trails:
  assumes "reachable G g" "quiet L" "enforces_edges X \<or> (\<exists>m < 2 ^ 32. xp_max X = Some m)"
    "stored_edges g + 1 < 2 ^ 64" "\<forall>m. xp_max X = Some m \<longrightarrow> xp_min X \<le> m"
  shows "\<exists>out. set out = (\<Union>r \<in> set rows. matched_rows X g r) \<and>
    (\<forall>n. \<exists>k. expand_op L X rows \<lparr>xs_graph = g, xs_steps = n\<rparr> = (Inr out, \<lparr>xs_graph = g, xs_steps = k\<rparr>))"
proof -
  obtain out where out: "returns_in g (expand_op L X rows) out" "set out = (\<Union>r \<in> set rows. matched_rows X g r)"
    using expand_returns [OF reachable_inv [OF assms(1)] assms(2-5)] by blast
  show ?thesis
  proof (intro exI [of _ out] conjI allI)
    show "\<exists>k. expand_op L X rows \<lparr>xs_graph = g, xs_steps = n\<rparr> = (Inr out, \<lparr>xs_graph = g, xs_steps = k\<rparr>)" for n
      using out(1) [unfolded returns_in_def, rule_format, of "\<lparr>xs_graph = g, xs_steps = n\<rparr>"] by simp
  qed (rule out(2))
qed


text \<open>Two people, one of whom knows the other, and the trails of any length from the first.\<close>

definition demo_expansion :: expansion where
  "demo_expansion =
     \<lparr>xp_language = L_Cypher, xp_source = ''a'', xp_target = ''b'', xp_target_mode = TM_BindNew, xp_target_labels = LE_Any,
      xp_rel_binding = None, xp_rel_types = LE_AnyOf [''K''], xp_dir = D_Both, xp_min = 1, xp_max = None, xp_history = None,
      xp_path = None, xp_path_mode = PMo_Trail, xp_match_mode = MM_DifferentRelationships\<rparr>"

lemma xp_demo: "xp_match_mode demo_expansion = MM_DifferentRelationships" "xp_max demo_expansion = None"
  by (simp_all add: demo_expansion_def)

definition demo_source :: row where
  "demo_source = row_bind ''a'' (V_Node ''P'' (eid_of_i64 0)) row_new"

lemma demo_trail:
  "row_bind ''b'' (V_Node ''P'' (eid_of_i64 1)) demo_source \<in> matched_rows demo_expansion (demo_write 3) demo_source"
proof -
  let ?w = "first_walker demo_expansion demo_source ''P'' (eid_of_i64 0)"
  let ?e = "(D_Out, ''K'', eid_of_i64 0, ''P'', eid_of_i64 1) :: incidence"
  have w: "wk_at ?w = (''P'', eid_of_i64 0)" "wk_visited ?w = []"
    by (simp_all add: wk_at_def first_walker_def demo_expansion_def bound_path_def List.map_filter_def edge_address_def)
  have src: "map_of (row_bindings demo_source) (xp_source demo_expansion) = Some (V_Node ''P'' (eid_of_i64 0))"
    by (simp add: demo_source_def demo_expansion_def row_bind_def row_new_def)
  have "trail demo_expansion (demo_write 3) (''P'', eid_of_i64 0) ?w [?e]"
    using demo_edge by (simp add: trail_def w) (simp add: demo_expansion_def enforces_nodes_def)
  moreover have "matches_at demo_expansion (demo_write 3) demo_source 1 (advance demo_expansion ?w ?e)"
    by (simp add: matches_at_def demo_expansion_def lands_on_def)
  moreover have "row_bind ''b'' (V_Node ''P'' (eid_of_i64 1)) demo_source =
      result_row demo_expansion demo_source (foldl (advance demo_expansion) ?w [?e]) (last_edge demo_expansion ?w [?e])"
    by (simp add: result_row_def demo_expansion_def advance_def bind_opt_def last_edge_def)
  ultimately show ?thesis
    unfolding matched_rows_def src by (auto simp: Let_def demo_expansion_def simp del: split_paired_Ex intro!: exI [of _ "[?e]"])
qed

theorem expansion_finds_the_trails_witness:
  "\<exists>out k. expand_op \<lparr>step_limit = None, jvm_check = (\<lambda>_. None)\<rparr> demo_expansion [demo_source]
      \<lparr>xs_graph = demo_write 3, xs_steps = 0\<rparr> = (Inr out, \<lparr>xs_graph = demo_write 3, xs_steps = k\<rparr>) \<and>
    row_bind ''b'' (V_Node ''P'' (eid_of_i64 1)) demo_source \<in> set out"
proof -
  let ?L = "\<lparr>step_limit = None, jvm_check = (\<lambda>_. None)\<rparr>"
  have room: "stored_edges (demo_write 3) = 1" by code_simp
  obtain out where "set out = (\<Union>r \<in> set [demo_source]. matched_rows demo_expansion (demo_write 3) r)"
    "\<forall>n. \<exists>k. expand_op ?L demo_expansion [demo_source] \<lparr>xs_graph = demo_write 3, xs_steps = n\<rparr> =
      (Inr out, \<lparr>xs_graph = demo_write 3, xs_steps = k\<rparr>)"
    using expansion_finds_the_trails [OF reachable_demo, of ?L demo_expansion "[demo_source]"] room
    by (auto simp: quiet_def enforces_edges_def xp_demo)
  moreover from this(1) have "row_bind ''b'' (V_Node ''P'' (eid_of_i64 1)) demo_source \<in> set out"
    using demo_trail by simp
  ultimately show ?thesis by blast
qed


section \<open>The step limit\<close>

text \<open>A step that returns \<open>a\<close> under the limit has charged at least \<open>f a\<close> and stayed under it.\<close>

definition pays :: "u64 \<Rightarrow> ('a \<Rightarrow> nat) \<Rightarrow> (exec_state, 'a) exec \<Rightarrow> bool" where
  "pays limit f m \<longleftrightarrow> (\<forall>s a t. m s = (Inr a, t) \<longrightarrow> xs_steps s \<le> limit \<longrightarrow>
     unat (xs_steps s) + f a \<le> unat (xs_steps t) \<and> xs_steps t \<le> limit)"

lemma pays_ret: "f a = 0 \<Longrightarrow> pays limit f (ret_exec a)"
  by (simp add: pays_def exec_simps)

lemma pays_fail: "pays limit f (fail_exec e)"
  by (simp add: pays_def exec_simps)

lemma pays_bind:
  assumes "pays limit h m" "\<And>a. pays limit (\<lambda>b. f b - h a) (k a)"
  shows "pays limit f (bind_exec m k)"
  unfolding pays_def
proof (intro allI impI)
  fix s b t assume run: "bind_exec m k s = (Inr b, t)" and small: "xs_steps s \<le> limit"
  then obtain a u where m: "m s = (Inr a, u)" and k: "k a u = (Inr b, t)"
    by (auto simp: bind_exec_def split: prod.splits sum.splits)
  have "unat (xs_steps s) + h a \<le> unat (xs_steps u)" "xs_steps u \<le> limit"
    using assms(1) m small unfolding pays_def by blast+
  moreover from this have "unat (xs_steps u) + (f b - h a) \<le> unat (xs_steps t)" "xs_steps t \<le> limit"
    using assms(2) [of a] k unfolding pays_def by blast+
  ultimately show "unat (xs_steps s) + f b \<le> unat (xs_steps t) \<and> xs_steps t \<le> limit" by linarith
qed

lemma pays_less: "pays limit h m \<Longrightarrow> (\<And>a. f a \<le> h a) \<Longrightarrow> pays limit f m"
  unfolding pays_def by (meson add_left_mono order_trans)

lemma pays_charge:
  assumes "step_limit L = Some limit" "unat limit < 2 ^ 64 - 1"
  shows "pays limit (\<lambda>_. 1) (charge L 1)"
proof -
  have "unat a + 1 \<le> unat (saturating_add a 1)" if "saturating_add a 1 \<le> limit" for a
  proof (cases "a \<le> a + 1")
    case True
    then have "unat (a + 1) = unat a + 1"
      using unsigned_less [where ?'a = nat, of a]
      by (cases "unat a = 2 ^ 64 - 1") (auto simp: word_le_nat_alt unat_word_ariths)
    with True show ?thesis by (simp add: saturating_add_def)
  next
    case False
    then have "saturating_add a 1 = - 1" by (simp add: saturating_add_def)
    then have "unat (saturating_add a 1) = 2 ^ 64 - 1" by (simp add: unsigned_minus_1_eq_mask mask_eq_exp_minus_1)
    with that assms(2) show ?thesis by (simp add: word_le_nat_alt)
  qed
  then show ?thesis
    using assms(1) by (auto simp: pays_def charge_def Let_def split: option.splits if_splits)
qed

lemma pays_collect:
  assumes "\<And>x. pays limit f (g x)"
  shows "pays limit (\<lambda>ys. sum_list (map f ys)) (collect_exec g xs)"
  by (induction xs) (auto intro!: pays_ret pays_bind [OF assms] pays_bind)

lemma pays_labels: "pays limit (\<lambda>_. 0) (matches_labels label i e)"
  by (auto simp: pays_def matches_labels_def case_prod_beta Let_def)

lemma pays_emit:
  assumes "step_limit L = Some limit" "unat limit < 2 ^ 64 - 1"
  shows "pays limit length (emit_target L X r hop u edge)"
  unfolding emit_target_def
  by (auto intro!: pays_ret pays_bind [OF pays_labels] pays_bind [OF pays_charge [OF assms]])

lemma pays_edge:
  assumes "step_limit L = Some limit" "unat limit < 2 ^ 64 - 1"
  shows "pays limit (\<lambda>p. length (fst p)) (expand_edge L X start r hop w e)"
proof -
  note pay = pays_less [OF pays_charge [OF assms], of "\<lambda>_. 0"]
  show ?thesis
    unfolding expand_edge_def Let_def
    by (auto intro!: pays_ret pays_bind [OF pay] pays_bind [OF pays_emit [OF assms]])
qed

lemma pays_walker:
  assumes "step_limit L = Some limit" "unat limit < 2 ^ 64 - 1"
  shows "pays limit (\<lambda>p. length (fst p)) (expand_walker L X start r hop w)"
proof -
  note pay = pays_less [OF pays_charge [OF assms], of "\<lambda>_. 0"]
  have "pays limit (\<lambda>p. length (fst p)) (bind_exec (collect_exec (expand_edge L X start r hop w) es)
      (\<lambda>ps. ret_exec (concat (map fst ps), concat (map snd ps))))" for es
    by (rule pays_bind [OF pays_collect [OF pays_edge [OF assms]]])
      (auto intro!: pays_ret simp: length_concat comp_def)
  then have "pays limit (\<lambda>p. length (fst p)) (\<lambda>s. bind_exec (collect_exec (expand_edge L X start r hop w) (f s))
      (\<lambda>ps. ret_exec (concat (map fst ps), concat (map snd ps))) s)" for f
    unfolding pays_def by blast
  then show ?thesis
    unfolding expand_walker_def by (intro pays_bind [OF pay]) simp_all
qed

lemma pays_hops:
  assumes "step_limit L = Some limit" "unat limit < 2 ^ 64 - 1"
  shows "pays limit length (expand_hops L X start r hop F)"
proof (induction "2 ^ 64 - hop" arbitrary: hop F rule: less_induct)
  case less
  show ?case
  proof (cases "F = [] \<or> \<not> within_max X hop \<or> \<not> hop + 1 < 2 ^ 64")
    case True
    then show ?thesis
      by (subst expand_hops.simps) (auto intro: pays_ret pays_fail)
  next
    case False
    then have "pays limit length (expand_hops L X start r (hop + 1) G)" for G
      by (intro less) auto
    then have rest: "pays limit (\<lambda>out. length out - sum_list (map (\<lambda>p. length (fst p)) ps))
        (bind_exec (expand_hops L X start r (hop + 1) (concat (map snd ps))) (\<lambda>rest. ret_exec (concat (map fst ps) @ rest)))"
      for ps :: "(row list \<times> walker list) list"
      by (rule pays_bind) (auto intro!: pays_ret simp: length_concat comp_def)
    show ?thesis
      using False rest by (subst expand_hops.simps) (auto intro!: pays_bind [OF pays_collect [OF pays_walker [OF assms]]])
  qed
qed

lemma pays_row:
  assumes "step_limit L = Some limit" "unat limit < 2 ^ 64 - 1"
  shows "pays limit length (expand_row L X r)"
proof -
  note pay = pays_less [OF pays_charge [OF assms], of "\<lambda>_. 0"]
  show ?thesis
    unfolding expand_row_def Let_def
    by (intro pays_bind [OF pay])
      (auto split: option.split val.split intro!: pays_ret pays_bind [OF pays_emit [OF assms]] pays_bind [OF pays_hops [OF assms]])
qed

text \<open>
  C37: Under a step limit an expansion returns only rows it has charged for: it charges at least one step for
  every row it returns, and an expansion that returns has stayed within the limit. So no
  expansion, however many walks the graph has, returns more rows than the limit allows.
\<close>

theorem expansion_pays_for_rows:
  assumes "step_limit L = Some limit" "unat limit < 2 ^ 64 - 1" "xs_steps s \<le> limit"
    "expand_op L X rows s = (Inr out, t)"
  shows "unat (xs_steps s) + length out \<le> unat (xs_steps t) \<and> xs_steps t \<le> limit"
proof -
  have "pays limit length (expand_op L X rows)"
    unfolding expand_op_def
    by (auto intro!: pays_fail pays_bind [OF pays_collect [OF pays_row [OF assms(1,2)]]] pays_ret simp: length_concat)
  then show ?thesis using assms(3,4) unfolding pays_def by blast
qed

theorem expansion_pays_for_rows_witness:
  "\<exists>out t. expand_op \<lparr>step_limit = Some 2, jvm_check = (\<lambda>_. None)\<rparr> (demo_expansion\<lparr>xp_min := 0, xp_max := Some 0\<rparr>) [demo_source]
      \<lparr>xs_graph = demo_write 3, xs_steps = 0\<rparr> = (Inr out, t) \<and> out \<noteq> [] \<and> length out \<le> 2"
proof -
  let ?L = "\<lparr>step_limit = Some 2, jvm_check = (\<lambda>_. None)\<rparr>" and ?s = "\<lparr>xs_graph = demo_write 3, xs_steps = 0\<rparr>"
    and ?X = "demo_expansion\<lparr>xp_min := 0, xp_max := Some 0\<rparr>"
  have "case fst (expand_op ?L ?X [demo_source] ?s) of Inl _ \<Rightarrow> False | Inr out \<Rightarrow> out \<noteq> []" by code_simp
  then obtain out t where run: "expand_op ?L ?X [demo_source] ?s = (Inr out, t)" "out \<noteq> []"
    by (cases "expand_op ?L ?X [demo_source] ?s") (auto split: sum.splits)
  have "length out \<le> 2"
    using expansion_pays_for_rows [OF _ _ _ run(1), of 2] by (simp add: word_le_nat_alt)
  with run show ?thesis by blast
qed

end
