(* ===== verification/Row_Mutations.thy ===== *)
theory Row_Mutations
  imports Pattern_Expansion
begin

text \<open>
  The operators that start a plan and those that write to the graph
  (\<open>src/src/ir/runtime/ops/source.rs\<close>, \<open>mutation.rs\<close>): value rows, relationship scans, \<open>CREATE\<close>,
  \<open>SET\<close> and \<open>DELETE\<close>.

  The graph is the state of a step: an expression sees the writes of the items before it, and the
  writes before an error stay in the graph, for the statement to be rolled back by the engine.
\<close>

section \<open>Sources\<close>

definition value_row :: "string list \<Rightarrow> val list \<Rightarrow> u64 option \<Rightarrow> runtime_error + row" where
  "value_row bindings vs b =
     (if length vs \<noteq> length bindings
      then Inl (RE_Type (''GraphValues row width '' @ show_nat (length vs) @ '' != bindings '' @ show_nat (length bindings)))
      else let r = fold (\<lambda>(k, v). row_bind k v) (zip bindings vs) row_new
           in Inr (case b of Some n \<Rightarrow> r\<lparr>row_bulk := n\<rparr> | None \<Rightarrow> r))"

fun value_rows :: "string list \<Rightarrow> u64 list \<Rightarrow> val list list \<Rightarrow> runtime_error + row list" where
  "value_rows bindings bulks [] = Inr []"
| "value_rows bindings bulks (vs # rows) =
     bind_res (value_row bindings vs (case bulks of [] \<Rightarrow> None | b # _ \<Rightarrow> Some b)) (\<lambda>r.
       bind_res (value_rows bindings (drop 1 bulks) rows) (\<lambda>rs. Inr (r # rs)))"

definition values_op :: "string list \<Rightarrow> val list list \<Rightarrow> u64 list option \<Rightarrow> runtime_error + row list" where
  "values_op bindings rows bulk = value_rows bindings (case bulk of Some bs \<Rightarrow> bs | None \<Rightarrow> []) rows"

definition dynamic_labels :: "property_graph \<Rightarrow> string \<Rightarrow> bool" where
  "dynamic_labels g label \<longleftrightarrow>
     (case pg_mapping g of
        None \<Rightarrow> False
      | Some m \<Rightarrow> (case mapping_node m label of Some n \<Rightarrow> nm_labels_column n \<noteq> None | None \<Rightarrow> False))"

definition matching_labels :: "label_expr \<Rightarrow> property_graph \<Rightarrow> string list" where
  "matching_labels e g =
     (case e of
        LE_AnyOf names \<Rightarrow> filter (\<lambda>l. l \<in> set names \<or> dynamic_labels g l) (graph_labels g)
      | LE_AllOf names \<Rightarrow>
          if pg_mapping g \<noteq> None then filter (\<lambda>l. list_all (\<lambda>n. n = l) names \<or> dynamic_labels g l) (graph_labels g)
          else graph_labels g
      | _ \<Rightarrow> graph_labels g)"

fun matching_rel_types :: "label_expr \<Rightarrow> property_graph \<Rightarrow> string list" where
  "matching_rel_types LE_Any g = rel_types g"
| "matching_rel_types (LE_AnyOf names) g = filter (\<lambda>t. t \<in> set names) (rel_types g)"
| "matching_rel_types (LE_AllOf names) g =
     (case names of [n] \<Rightarrow> filter (\<lambda>t. t = n) (rel_types g) | _ \<Rightarrow> [])"
| "matching_rel_types (LE_Not e) g = filter (\<lambda>t. t \<notin> set (matching_rel_types e g)) (rel_types g)"

text \<open>The check of the source of a mapped graph is \<open>check_source\<close>, the message of its error.\<close>

definition scan_edge :: "string option \<Rightarrow> property_graph \<Rightarrow> string \<Rightarrow> string \<Rightarrow> element_id \<Rightarrow> runtime_error + row" where
  "scan_edge check_source g b rel i =
     (case edge_endpoints g rel i of
        None \<Rightarrow> Inl (RE_Runtime (case check_source of Some m \<Rightarrow> m | None \<Rightarrow> ''missing mapped edge endpoints''))
      | Some (sl, s, dl, d) \<Rightarrow> Inr (row_bind b (V_Edge rel i sl s dl d None) row_new))"

definition rel_scan :: "graph_lib \<Rightarrow> string option \<Rightarrow> string \<Rightarrow> label_expr \<Rightarrow> property_graph \<Rightarrow> runtime_error + row list" where
  "rel_scan G check_source b types g =
     collect (\<lambda>(rel, i). scan_edge check_source g b rel i)
       (concat (map (\<lambda>rel. map (Pair rel) (edge_ids G g rel)) (matching_rel_types types g)))"

section \<open>Writes\<close>

type_synonym 'a graph_exec = "(property_graph, 'a) exec"

fun catalog_text :: "catalog_error \<Rightarrow> string" where
  "catalog_text (UnknownLabel s) = ''unknown node label `'' @ s @ ''`''"
| "catalog_text (UnknownRelType s) = ''unknown relationship type `'' @ s @ ''`''"
| "catalog_text (Schema s) = ''schema mismatch: '' @ s"
| "catalog_text (DeleteIntegrity s) = ''delete integrity: '' @ s"

definition catalog_exec :: "(string \<Rightarrow> runtime_error) \<Rightarrow> (property_graph \<Rightarrow> 'a act) \<Rightarrow> 'a graph_exec" where
  "catalog_exec E m g = (case m g of (Inl e, h) \<Rightarrow> (Inl (E (catalog_text e)), h) | (Inr a, h) \<Rightarrow> (Inr a, h))"

definition res_exec :: "runtime_error + 'a \<Rightarrow> ('s, 'a) exec" where
  "res_exec x s = (x, s)"

definition eval_exec :: "row_lib \<Rightarrow> ir_expr \<Rightarrow> row \<Rightarrow> val graph_exec" where
  "eval_exec R e r g = (eval (rl_eval R) g e r, g)"

fun fold_exec :: "('a \<Rightarrow> 'b \<Rightarrow> ('s, 'b) exec) \<Rightarrow> 'a list \<Rightarrow> 'b \<Rightarrow> ('s, 'b) exec" where
  "fold_exec f [] b = ret_exec b"
| "fold_exec f (x # xs) b = bind_exec (f x b) (fold_exec f xs)"

definition map_value :: "val \<Rightarrow> runtime_error + props" where
  "map_value v =
     (case v of V_Map m \<Rightarrow> Inr m | V_Null \<Rightarrow> Inr []
      | _ \<Rightarrow> Inl (RE_Type (''expected a map of properties, got '' @ type_name v)))"

definition created_properties :: "row_lib \<Rightarrow> ir_expr option \<Rightarrow> row \<Rightarrow> props graph_exec" where
  "created_properties R e r =
     (case e of Some e \<Rightarrow> bind_exec (eval_exec R e r) (\<lambda>v. res_exec (map_value v)) | None \<Rightarrow> ret_exec [])"

record create_node =
  cn_labels :: "string list option"
  cn_bind :: "string option"
  cn_label :: string
  cn_properties :: "ir_expr option"

record create_edge =
  ce_bind :: "string option"
  ce_rel_type :: string
  ce_src :: string
  ce_dst :: string
  ce_properties :: "ir_expr option"

definition create_one_node :: "row_lib \<Rightarrow> create_node \<Rightarrow> row \<Rightarrow> row graph_exec" where
  "create_one_node R c r =
     bind_exec (created_properties R (cn_properties c) r) (\<lambda>ps.
       bind_exec (catalog_exec RE_Catalog (try_insert_node_with_key (ev_graph (rl_eval R)) (cn_label c) ps None)) (\<lambda>v.
         bind_exec (case cn_labels c of Some ls \<Rightarrow> catalog_exec RE_Catalog (set_node_labels v ls) | None \<Rightarrow> ret_exec ()) (\<lambda>_.
           ret_exec (bind_opt (cn_bind c) v r))))"

definition endpoint :: "row \<Rightarrow> string \<Rightarrow> string \<Rightarrow> runtime_error + val" where
  "endpoint r b rel =
     (case map_of (row_bindings r) b of
        Some v \<Rightarrow> Inr v
      | None \<Rightarrow> Inl (RE_Type (''CREATE relationship `'' @ rel @ ''` endpoint `'' @ b @ ''` is not bound'')))"

definition create_one_edge :: "row_lib \<Rightarrow> create_edge \<Rightarrow> row \<Rightarrow> row graph_exec" where
  "create_one_edge R c r =
     bind_exec (created_properties R (ce_properties c) r) (\<lambda>ps.
       bind_exec (res_exec (endpoint r (ce_src c) (ce_rel_type c))) (\<lambda>src.
         bind_exec (res_exec (endpoint r (ce_dst c) (ce_rel_type c))) (\<lambda>dst.
           bind_exec (catalog_exec RE_Type (insert_edge_with_key (ev_graph (rl_eval R)) (ce_rel_type c) src dst ps None)) (\<lambda>v.
             ret_exec (bind_opt (ce_bind c) v r)))))"

definition create_row :: "row_lib \<Rightarrow> create_node list \<Rightarrow> create_edge list \<Rightarrow> row \<Rightarrow> row graph_exec" where
  "create_row R nodes edges r =
     bind_exec (fold_exec (create_one_node R) nodes r) (fold_exec (create_one_edge R) edges)"

definition create_op :: "row_lib \<Rightarrow> create_node list \<Rightarrow> create_edge list \<Rightarrow> row list \<Rightarrow> row list graph_exec" where
  "create_op R nodes edges rows = collect_exec (create_row R nodes edges) rows"

datatype set_mode = SM_AddLabels | SM_RemoveLabels | SM_Property | SM_Replace | SM_Merge

record set_property_item =
  si_target :: ir_expr
  si_key :: string
  si_mode :: set_mode
  si_value :: ir_expr

fun relabel :: "bool \<Rightarrow> val list \<Rightarrow> string list \<Rightarrow> runtime_error + string list" where
  "relabel add [] ls = Inr ls"
| "relabel add (V_String n # vs) ls = relabel add vs (if add then List.insert n ls else removeAll n ls)"
| "relabel add (_ # vs) ls = Inl (RE_Type ''Label must be a string'')"

definition update_labels :: "bool \<Rightarrow> val \<Rightarrow> val \<Rightarrow> unit graph_exec" where
  "update_labels add target v =
     (case target of
        V_Null \<Rightarrow> ret_exec ()
      | V_Node label i \<Rightarrow>
          (case v of
             V_List names \<Rightarrow> (\<lambda>g.
               let (ls, g) = node_labels label i g in
               bind_exec (res_exec (relabel add names ls)) (\<lambda>ls. catalog_exec RE_Catalog (set_node_labels target ls)) g)
           | _ \<Rightarrow> fail_exec (RE_Type ''Label update requires a list''))
      | _ \<Rightarrow> fail_exec (RE_Type ''Label update requires a node''))"

definition set_item :: "row_lib \<Rightarrow> row \<Rightarrow> set_property_item \<Rightarrow> unit graph_exec" where
  "set_item R r c =
     bind_exec (eval_exec R (si_target c) r) (\<lambda>target.
       bind_exec (eval_exec R (si_value c) r) (\<lambda>v.
         case si_mode c of
           SM_AddLabels \<Rightarrow> update_labels True target v
         | SM_RemoveLabels \<Rightarrow> update_labels False target v
         | SM_Property \<Rightarrow> catalog_exec RE_Catalog (set_property target (si_key c) v)
         | mode \<Rightarrow> bind_exec (res_exec (map_value v)) (\<lambda>ps.
             catalog_exec RE_Catalog (set_properties target ps (mode = SM_Replace)))))"

definition set_property_op :: "row_lib \<Rightarrow> set_property_item list \<Rightarrow> row list \<Rightarrow> row list graph_exec" where
  "set_property_op R items rows =
     bind_exec (collect_exec (\<lambda>r. collect_exec (set_item R r) items) rows) (\<lambda>_. ret_exec rows)"

definition deleted_values :: "row_lib \<Rightarrow> ir_expr list \<Rightarrow> row \<Rightarrow> val list graph_exec" where
  "deleted_values R targets r =
     bind_exec (collect_exec (\<lambda>e. eval_exec R e r) targets) (\<lambda>vs.
       ret_exec (concat (map (\<lambda>v. case v of V_Path items \<Rightarrow> items | _ \<Rightarrow> [v]) vs)))"

definition is_edge :: "val \<Rightarrow> bool" where
  "is_edge v \<longleftrightarrow> (case v of V_Edge _ _ _ _ _ _ _ \<Rightarrow> True | _ \<Rightarrow> False)"

definition delete_all :: "graph_lib \<Rightarrow> bool \<Rightarrow> val list \<Rightarrow> unit graph_exec" where
  "delete_all G detach vs =
     fold_exec (\<lambda>v _. catalog_exec RE_Catalog (delete_value G v detach)) vs ()"

definition delete_op :: "row_lib \<Rightarrow> ir_expr list \<Rightarrow> bool \<Rightarrow> row list \<Rightarrow> row list graph_exec" where
  "delete_op R targets detach rows =
     bind_exec (collect_exec (deleted_values R targets) rows) (\<lambda>vss.
       let vs = concat vss in
       bind_exec (delete_all (ev_graph (rl_eval R)) detach (filter is_edge vs)) (\<lambda>_.
         bind_exec (delete_all (ev_graph (rl_eval R)) detach (filter (\<lambda>v. \<not> is_edge v) vs)) (\<lambda>_. ret_exec rows)))"

section \<open>Writes are marked\<close>

definition marks :: "'a graph_exec \<Rightarrow> bool" where
  "marks m \<longleftrightarrow> (\<forall>g. touches g (snd (m g)))"

lemma marks_pure [simp]: "marks (ret_exec a)" "marks (fail_exec e)" "marks (res_exec x)" "marks (eval_exec R x1 r)"
  by (simp_all add: marks_def exec_simps res_exec_def eval_exec_def)

lemma marks_bind: "marks m \<Longrightarrow> (\<And>a. marks (f a)) \<Longrightarrow> marks (bind_exec m f)"
  unfolding marks_def bind_exec_def by (auto split: prod.split sum.split) (metis snd_conv touches_trans)+

lemma marks_collect: "(\<And>x. marks (f x)) \<Longrightarrow> marks (collect_exec f xs)"
  by (induction xs) (auto intro!: marks_bind)

lemma marks_fold: "(\<And>x b. marks (f x b)) \<Longrightarrow> marks (fold_exec f xs b)"
  by (induction xs arbitrary: b) (auto intro!: marks_bind)

lemma marks_catalog: "(\<And>g. touches g (snd (m g))) \<Longrightarrow> marks (catalog_exec E m)"
  unfolding marks_def catalog_exec_def by (auto split: prod.split sum.split) (metis snd_conv)+

lemmas marks_intros = marks_bind marks_collect marks_fold marks_catalog

lemma marks_labels: "marks (update_labels add target v)"
proof -
  have labels: "marks (\<lambda>g. case node_labels label i g of (ls, g) \<Rightarrow> m ls g)" if "\<And>ls. marks (m ls)"
    for label i and m :: "string list \<Rightarrow> unit graph_exec"
    using that unfolding marks_def node_labels_def
    by (auto simp: Let_def case_prod_beta intro: touches_trans [OF touches_hydrate(2)])
  show ?thesis
    unfolding update_labels_def Let_def
    by (auto split: val.split intro!: labels marks_bind marks_catalog touches_set_labels)
qed

lemma marks_create_node: "marks (create_one_node R c r)"
  unfolding create_one_node_def created_properties_def
  by (auto split: option.split intro!: marks_intros touches_insert_node touches_set_labels)

lemma marks_create_edge: "marks (create_one_edge R c r)"
  unfolding create_one_edge_def created_properties_def
  by (auto split: option.split intro!: marks_intros touches_insert_edge)

lemma marks_set_item: "marks (set_item R r c)"
  unfolding set_item_def
  by (cases "si_mode c") (auto intro!: marks_labels marks_intros touches_set_property touches_set_properties)



section \<open>Deletion as one operation\<close>

definition deletable :: "val \<Rightarrow> bool" where
  "deletable v \<longleftrightarrow> (case v of V_Node _ _ \<Rightarrow> True | V_Edge _ _ _ _ _ _ _ \<Rightarrow> True | V_Null \<Rightarrow> True | _ \<Rightarrow> False)"

definition nodes_in :: "val list \<Rightarrow> addr set" where
  "nodes_in vs = {k. V_Node (fst k) (snd k) \<in> set vs}"

definition edges_in :: "val list \<Rightarrow> addr set" where
  "edges_in vs = set (List.map_filter edge_address vs)"

text \<open>The graph without the nodes of \<open>N\<close>, the relationships of \<open>E\<close>, and those that meet a node of \<open>N\<close>.\<close>

definition without :: "addr set \<Rightarrow> addr set \<Rightarrow> abstract_graph \<Rightarrow> abstract_graph" where
  "without N E a = \<lparr>ag_nodes = ag_nodes a - N,
     ag_edges = (\<lambda>e. if e \<in> E \<or> (\<exists>k \<in> N. meets k (ag_edges a e)) then None else ag_edges a e)\<rparr>"

definition same_known :: "property_graph \<Rightarrow> property_graph \<Rightarrow> bool" where
  "same_known g h \<longleftrightarrow> counters_ok h = counters_ok g \<and> target_known h = target_known g"

lemma same_knownI:
  assumes "graph_inv g" "base_of h = base_of g" "pg_overlay h = (pg_overlay g)\<lparr>ov_deleted_edges := D, ov_deleted_nodes := N\<rparr>"
  shows "same_known g h"
proof -
  have n: "has_node (pg_overlay h) = has_node (pg_overlay g)" by (simp add: assms(3) has_node_def fun_eq_iff)
  have "ends (pg_overlay h) = ends (pg_overlay g)" by (simp add: assms(3) ends_def fun_eq_iff)
  then have e: "edge_endpoints h = edge_endpoints g"
    by (rule edges_cong [OF assms(2) graph_inv_parts(6) [OF assms(1)]])
  show ?thesis
    using base_of_fields [OF assms(2)]
    by (simp add: same_known_def counters_ok_def rows_cong [OF assms(2)] assms(3) target_known_def n [unfolded assms(3)] e fun_eq_iff
        split: write_op.split val.split)
qed

lemma delete_same_known:
  assumes "graph_inv g" "deletable v"
  shows "same_known g (snd (delete_value G v detach g))"
proof -
  have id: "same_known g g" by (simp add: same_known_def)
  show ?thesis
  proof (cases v)
    case (V_Node l i)
    show ?thesis
    proof (cases "\<not> detach \<and> (out_edges g l i [] \<noteq> [] \<or> in_edges g l i [] \<noteq> [])")
      case False
      then show ?thesis
        by (intro same_knownI [OF assms(1)]) (auto simp: V_Node delete_value_def Let_def delete_edges_base delete_edges_overlay)
    qed (use id in \<open>simp add: V_Node delete_value_def Let_def\<close>)
  next
    case (V_Edge r i sl s dl d q)
    then show ?thesis
      by (intro same_knownI [OF assms(1), where D = "insert (r, i) (ov_deleted_edges (pg_overlay g))" and
            N = "ov_deleted_nodes (pg_overlay g)"]) (simp_all add: delete_value_def)
  qed (use assms(2) id in \<open>simp_all add: deletable_def delete_value_def\<close>)
qed

lemma delete_step:
  assumes "reachable G g" "counters_ok g" "deletable v" "target_known g (W_Delete v detach)"
  defines "h \<equiv> snd (delete_value G v detach g)"
  shows "reachable G h" "same_known g h"
    "abstract_delete v detach (unit_outcome (fst (delete_value G v detach g))) (graph_abs g) (graph_abs h)"
  using reach_write [OF assms(1,2,4)] delete_same_known [OF reachable_inv [OF assms(1)] assms(3)]
    write_refines [OF reachable_inv [OF assms(1)] assms(2,4), of G]
  by (simp_all add: h_def)

lemma delete_all_Cons:
  "fst (delete_value G v detach g) = Inr () \<Longrightarrow>
    delete_all G detach (v # vs) g = delete_all G detach vs (snd (delete_value G v detach g))"
  "fst (delete_value G v detach g) = Inl e \<Longrightarrow>
    delete_all G detach (v # vs) g = (Inl (RE_Catalog (catalog_text e)), snd (delete_value G v detach g))"
  by (auto simp: delete_all_def bind_exec_def catalog_exec_def split: prod.split sum.split)

lemma delete_all_Nil: "delete_all G detach [] g = (Inr (), g)"
  by (simp add: delete_all_def exec_simps)

definition known_deletable :: "property_graph \<Rightarrow> bool \<Rightarrow> val list \<Rightarrow> bool" where
  "known_deletable g detach vs \<longleftrightarrow> (\<forall>v \<in> set vs. deletable v \<and> target_known g (W_Delete v detach))"

lemma delete_edges_statement:
  assumes "reachable G g" "counters_ok g" "known_deletable g detach vs" "list_all is_edge vs"
  shows "\<exists>h. delete_all G detach vs g = (Inr (), h) \<and> reachable G h \<and> same_known g h \<and>
    graph_abs h = without {} (edges_in vs) (graph_abs g)"
  using assms
proof (induction vs arbitrary: g)
  case Nil
  then show ?case by (simp add: delete_all_Nil same_known_def without_def edges_in_def map_filter_simps)
next
  case (Cons v vs)
  obtain r i sl s dl d q where v: "v = V_Edge r i sl s dl d q"
    using Cons.prems(4) by (auto simp: is_edge_def split: val.splits)
  let ?g = "snd (delete_value G v detach g)"
  note step = delete_step [OF Cons.prems(1,2), of v detach]
  have ok: "deletable v" "target_known g (W_Delete v detach)" using Cons.prems(3) by (simp_all add: known_deletable_def)
  have run: "fst (delete_value G v detach g) = Inr ()" by (simp add: v delete_value_def)
  have abs: "graph_abs ?g = (graph_abs g)\<lparr>ag_edges := (ag_edges (graph_abs g))((r, i) := None)\<rparr>"
    using step(3) [OF ok] by (simp add: v abstract_delete_def)
  obtain h where h: "delete_all G detach vs ?g = (Inr (), h)" "reachable G h" "same_known ?g h"
    "graph_abs h = without {} (edges_in vs) (graph_abs ?g)"
    using Cons.IH [OF step(1) [OF ok]] Cons.prems step(2) [OF ok] by (auto simp: known_deletable_def same_known_def)
  have "edges_in (v # vs) = insert (r, i) (edges_in vs)" by (simp add: edges_in_def v map_filter_simps edge_address_def)
  then have "graph_abs h = without {} (edges_in (v # vs)) (graph_abs g)"
    by (auto simp: h(4) abs without_def fun_eq_iff)
  moreover have "delete_all G detach (v # vs) g = (Inr (), h)"
    using h(1) by (simp add: delete_all_Cons(1) [OF run])
  ultimately show ?case using h(2,3) step(2) [OF ok] by (auto simp: same_known_def)
qed

definition free_of :: "addr set \<Rightarrow> abstract_graph \<Rightarrow> bool" where
  "free_of N a \<longleftrightarrow> (\<forall>k \<in> N. \<forall>e. \<not> meets k (ag_edges a e))"

lemma delete_nodes_statement:
  assumes "reachable G g" "counters_ok g" "known_deletable g detach vs" "list_all (\<lambda>v. \<not> is_edge v) vs"
  shows "if detach \<or> free_of (nodes_in vs) (graph_abs g)
    then \<exists>h. delete_all G detach vs g = (Inr (), h) \<and> reachable G h \<and> graph_abs h = without (nodes_in vs) {} (graph_abs g)
    else \<exists>m h. delete_all G detach vs g = (Inl (RE_Catalog m), h)"
  using assms
proof (induction vs arbitrary: g)
  case Nil
  then show ?case by (simp add: delete_all_Nil without_def nodes_in_def free_of_def)
next
  case (Cons v vs)
  let ?g = "snd (delete_value G v detach g)"
  have ok: "deletable v" "target_known g (W_Delete v detach)" using Cons.prems(3) by (simp_all add: known_deletable_def)
  note step = delete_step [OF Cons.prems(1,2) ok]
  have IH: "if detach \<or> free_of (nodes_in vs) (graph_abs ?g)
    then \<exists>h. delete_all G detach vs ?g = (Inr (), h) \<and> reachable G h \<and> graph_abs h = without (nodes_in vs) {} (graph_abs ?g)
    else \<exists>m h. delete_all G detach vs ?g = (Inl (RE_Catalog m), h)"
    using Cons.IH [OF step(1)] Cons.prems step(2) by (auto simp: known_deletable_def same_known_def)
  consider (null) "v = V_Null" | (node) l i where "v = V_Node l i"
    using ok(1) Cons.prems(4) by (auto simp: deletable_def is_edge_def split: val.splits)
  then show ?case
  proof cases
    case null
    then have "delete_value G v detach g = (Inr (), g)" "nodes_in (v # vs) = nodes_in vs"
      by (simp_all add: delete_value_def nodes_in_def)
    moreover from this have "delete_all G detach (v # vs) g = delete_all G detach vs g" "?g = g" by (simp_all add: delete_all_Cons(1))
    ultimately show ?thesis using IH by (simp only: )
  next
    case (node l i)
    have N: "nodes_in (v # vs) = insert (l, i) (nodes_in vs)" by (auto simp: nodes_in_def node)
    show ?thesis
    proof (cases "detach \<or> free_of {(l, i)} (graph_abs g)")
      case True
      then have abs: "fst (delete_value G v detach g) = Inr ()" "graph_abs ?g = without {(l, i)} {} (graph_abs g)"
        using step(3) by (auto simp: node abstract_delete_def without_def free_of_def unit_outcome_def split: sum.splits)
      have "without (nodes_in vs) {} (graph_abs ?g) = without (nodes_in (v # vs)) {} (graph_abs g)"
        by (auto simp: abs(2) N without_def fun_eq_iff meets_def)
      moreover have "detach \<or> free_of (nodes_in vs) (graph_abs ?g) \<longleftrightarrow> detach \<or> free_of (nodes_in (v # vs)) (graph_abs g)"
        using True by (auto simp: abs(2) N without_def free_of_def meets_def)
      ultimately show ?thesis using IH by (simp only: delete_all_Cons(1) [OF abs(1)])
    next
      case False
      then have busy: "\<not> (detach \<or> (\<forall>e. \<not> meets (l, i) (ag_edges (graph_abs g) e)))" by (simp add: free_of_def)
      have "\<exists>m. unit_outcome (fst (delete_value G v detach g)) = Inl (DeleteIntegrity m)"
        using step(3) unfolding node abstract_delete_def val.case if_not_P [OF busy] by (rule conjunct1)
      then obtain m where "unit_outcome (fst (delete_value G v detach g)) = Inl (DeleteIntegrity m)" ..
      then have m: "fst (delete_value G v detach g) = Inl (DeleteIntegrity m)"
        by (simp add: unit_outcome_def split: sum.splits)
      have "\<not> (detach \<or> free_of (nodes_in (v # vs)) (graph_abs g))" using False by (auto simp: N free_of_def)
      then show ?thesis by (simp add: delete_all_Cons(2) [OF m] del: de_Morgan_disj)
    qed
  qed
qed

lemma deleted_values_state: "snd (collect_exec (deleted_values R targets) rows g) = g"
proof -
  have one: "snd (collect_exec (\<lambda>e. eval_exec R e r) es g) = g" for r es
    by (induction es) (auto simp: exec_simps bind_exec_def eval_exec_def split: prod.split sum.split)
  have "snd (deleted_values R targets r g) = g" for r
    using one [of r targets] by (auto simp: deleted_values_def bind_exec_def exec_simps split: prod.split sum.split)
  then show ?thesis
    by (induction rows) (auto simp: exec_simps bind_exec_def split: prod.split sum.split; metis snd_conv)+
qed

text \<open>
  C14: \<open>DELETE\<close> treats its targets as one operation. In a session, a statement whose targets are nodes and
  relationships, also those on paths, removes exactly the selected nodes, the selected relationships and,
  when detaching, the relationships that meet a selected node. Without \<open>DETACH\<close> it succeeds if and only if every
  live relationship of a selected node is selected too, in whatever order the rows name them.
\<close>

theorem delete_is_one_operation:
  fixes R detach g
  defines "G \<equiv> ev_graph (rl_eval R)" and "a \<equiv> graph_abs g"
  assumes "reachable G g" "counters_ok g" "fst (collect_exec (deleted_values R targets) rows g) = Inr vss"
    "known_deletable g detach (concat vss)"
  shows "if detach \<or> (\<forall>k \<in> nodes_in (concat vss). \<forall>e. meets k (ag_edges a e) \<longrightarrow> e \<in> edges_in (concat vss))
    then \<exists>h. delete_op R targets detach rows g = (Inr rows, h) \<and> reachable G h \<and>
      graph_abs h = without (nodes_in (concat vss)) (edges_in (concat vss)) a
    else \<exists>m h. delete_op R targets detach rows g = (Inl (RE_Catalog m), h)"
proof -
  let ?vs = "concat vss"
  let ?es = "filter is_edge ?vs" and ?ns = "filter (\<lambda>v. \<not> is_edge v) ?vs"
  have parts: "nodes_in ?ns = nodes_in ?vs" "edges_in ?es = edges_in ?vs"
    by (auto simp: nodes_in_def edges_in_def is_edge_def List.map_filter_def edge_address_def split: val.splits)
  have known: "known_deletable g detach ?es" "known_deletable g detach ?ns"
    using assms(6) by (auto simp: known_deletable_def)
  obtain u where u: "delete_all G detach ?es g = (Inr (), u)" "reachable G u" "same_known g u"
    "graph_abs u = without {} (edges_in ?vs) a"
    using delete_edges_statement [OF assms(3,4) known(1)] by (auto simp: parts a_def list_all_iff)
  have run: "delete_op R targets detach rows g = bind_exec (delete_all G detach ?ns) (\<lambda>_. ret_exec rows) u"
  proof -
    have "collect_exec (deleted_values R targets) rows g = (Inr vss, g)"
      using assms(5) deleted_values_state [of R targets rows g] by (metis prod.collapse)
    then show ?thesis using u(1) by (simp add: delete_op_def bind_exec_def G_def Let_def)
  qed
  have free: "free_of (nodes_in ?vs) (graph_abs u) \<longleftrightarrow> (\<forall>k \<in> nodes_in ?vs. \<forall>e. meets k (ag_edges a e) \<longrightarrow> e \<in> edges_in ?vs)"
  proof -
    have "\<not> meets k None" for k by (simp add: meets_def)
    then show ?thesis by (simp add: free_of_def u(4) without_def del: split_paired_All) blast
  qed
  have abs: "without (nodes_in ?vs) {} (graph_abs u) = without (nodes_in ?vs) (edges_in ?vs) a"
    by (auto simp: u(4) without_def fun_eq_iff meets_def)
  have "counters_ok u" "known_deletable u detach ?ns"
    using u(3) assms(4) known(2) by (simp_all add: same_known_def known_deletable_def)
  from delete_nodes_statement [OF u(2) this] show ?thesis
    unfolding run free [symmetric] parts abs
    by (cases "detach \<or> free_of (nodes_in ?vs) (graph_abs u)")
      (auto simp: list_all_iff bind_exec_def exec_simps parts abs)
qed


text \<open>A path with both nodes and the relationship between them.\<close>

definition demo_path_row :: row where
  "demo_path_row = row_bind ''p'' (V_Path [V_Node ''P'' (eid_of_i64 0),
     V_Edge ''K'' (eid_of_i64 0) ''P'' (eid_of_i64 0) ''P'' (eid_of_i64 1) None, V_Node ''P'' (eid_of_i64 1)]) row_new"

lemma demo_only_edge:
  assumes "live_edge_endpoints (demo_write 3) r i \<noteq> None"
  shows "(r, i) = (''K'', eid_of_i64 0)"
proof (rule ccontr)
  assume "(r, i) \<noteq> (''K'', eid_of_i64 0)"
  then have "length [(r, i), (''K'', eid_of_i64 0)] \<le> stored_edges (demo_write 3)"
    using assms demo_edge by (intro live_edges_bounded [OF reachable_inv [OF reachable_demo]]) auto
  moreover have "stored_edges (demo_write 3) = 1" by code_simp
  ultimately show False by simp
qed

theorem delete_is_one_operation_witness:
  "\<exists>h. delete_op plain_row_lib [E_Binding ''p''] False [demo_path_row] (demo_write 3) = (Inr [demo_path_row], h) \<and>
    (''P'', eid_of_i64 0) \<notin> ag_nodes (graph_abs h) \<and> ag_edges (graph_abs h) (''K'', eid_of_i64 0) = None"
proof -
  let ?n = "\<lambda>i. V_Node ''P'' (eid_of_i64 i)"
  let ?vs = "[?n 0, V_Edge ''K'' (eid_of_i64 0) ''P'' (eid_of_i64 0) ''P'' (eid_of_i64 1) None, ?n 1]"
  have lib: "ev_graph (rl_eval plain_row_lib) = text_graph_lib" by (simp add: plain_row_lib_def plain_eval_lib_def)
  have vs: "fst (collect_exec (deleted_values plain_row_lib [E_Binding ''p'']) [demo_path_row] (demo_write 3)) = Inr [?vs]"
    by (simp add: deleted_values_def eval_exec_def bind_exec_def exec_simps demo_path_row_def plain_row_lib_def row_get_bind)
  have counters: "counters_ok (demo_write 3)" by (rule counters_okI; code_simp)
  have known: "known_deletable (demo_write 3) False (concat [?vs])"
    using demo_edge
    by (auto simp: known_deletable_def deletable_def target_known_def live_edge_endpoints_def split: if_splits)
      (code_simp)+
  have E: "edges_in ?vs = {(''K'', eid_of_i64 0)}" "(''P'', eid_of_i64 0) \<in> nodes_in ?vs"
    by (simp_all add: edges_in_def nodes_in_def List.map_filter_def edge_address_def)
  have "e \<in> edges_in (concat [?vs])" if "meets k (ag_edges (graph_abs (demo_write 3)) e)" for k e
    using that demo_only_edge [of "fst e" "snd e"] by (auto simp: E meets_def graph_abs_def split: option.splits)
  then obtain h where "delete_op plain_row_lib [E_Binding ''p''] False [demo_path_row] (demo_write 3) = (Inr [demo_path_row], h)"
    "graph_abs h = without (nodes_in (concat [?vs])) (edges_in (concat [?vs])) (graph_abs (demo_write 3))"
    using delete_is_one_operation [OF reachable_demo [folded lib] counters vs known] by auto
  then show ?thesis by (auto simp: without_def E)
qed


section \<open>Creation\<close>

text \<open>The counters can number \<open>j\<close> more elements; \<open>counters_ok\<close> is room for one.\<close>

definition room :: "nat \<Rightarrow> property_graph \<Rightarrow> bool" where
  "room j g \<longleftrightarrow>
     (\<forall>l. node_rows g l + unat (al_default 0 (ov_node_counts (pg_overlay g)) l) + j < 2 ^ 64) \<and>
     (\<forall>r. edge_rows g r + unat (al_default 0 (ov_edge_counts (pg_overlay g)) r) + j < 2 ^ 64)"

lemma room_mono: "room k g \<Longrightarrow> j \<le> k \<Longrightarrow> room j g"
  by (meson add_left_mono le_less_trans room_def)

lemma room_counters: "room (Suc j) g \<Longrightarrow> counters_ok g"
  using room_mono [of "Suc j" g 1] by (simp add: room_def counters_ok_def)

lemma room_used:
  assumes "room (Suc j) g" "base_of h = base_of g"
    "\<And>l. al_default 0 (ov_node_counts (pg_overlay h)) l = al_default 0 (ov_node_counts (pg_overlay g)) l + (if P l then 1 else 0)"
    "\<And>r. al_default 0 (ov_edge_counts (pg_overlay h)) r = al_default 0 (ov_edge_counts (pg_overlay g)) r + (if Q r then 1 else 0)"
  shows "room j h"
proof -
  have bump: "unat ((c :: i64) + (if b then 1 else 0)) \<le> unat c + 1" for c b
    by (auto simp: unat_word_ariths intro: order_trans [OF mod_less_eq_dividend])
  have step: "n + unat ((c :: i64) + (if b then 1 else 0)) + j < 2 ^ 64" if "n + unat c + Suc j < 2 ^ 64" for n c b
    using that bump [of c b] by linarith
  show ?thesis
    using assms(1) unfolding room_def assms(3,4) rows_cong [OF assms(2)]
    by (intro conjI allI; elim conjE) (rule step; blast)+
qed

lemma room_writes:
  assumes "graph_inv g" "room (Suc j) g"
  shows "room j (apply_write G (W_InsertNode l ps key) g)" "room j (apply_write G (W_InsertEdge r src dst ps key) g)"
proof -
  have keep: "room j g" by (rule room_mono [OF assms(2)]) simp
  show "room j (apply_write G (W_InsertNode l ps key) g)"
  proof (cases rule: insert_node_native [OF assms(1), of G l ps key, case_names rejected stored])
    case (stored c ps')
    then show ?thesis
      by (intro room_used [OF assms(2), of _ "\<lambda>k. k = l" "\<lambda>_. False"]) (simp_all add: store_node_skeleton)
  qed (simp add: keep)
  show "room j (apply_write G (W_InsertEdge r src dst ps key) g)"
  proof (cases rule: insert_edge_native [OF assms(1), of G r src dst ps key, case_names rejected stored])
    case (stored sl s dl d c ps')
    then show ?thesis
      by (intro room_used [OF assms(2), of _ "\<lambda>_. False" "\<lambda>k. k = r"]) (simp_all add: store_edge_skeleton)
  qed (simp add: keep)
qed

lemma room_same:
  assumes "same_structure g h"
  shows "room j h = room j g"
proof -
  have "base_of h = base_of g" "skeleton (pg_overlay h) = skeleton (pg_overlay g)"
    using assms by (simp_all add: same_structure_def)
  then show ?thesis
    unfolding room_def by (simp only: rows_cong [of h g] skeleton_fields(7,8) [of "pg_overlay h" "pg_overlay g"])
qed

text \<open>Exactly \<open>n\<close> nodes and \<open>m\<close> relationships more, and nothing less.\<close>

definition grows :: "nat \<Rightarrow> nat \<Rightarrow> abstract_graph \<Rightarrow> abstract_graph \<Rightarrow> bool" where
  "grows n m a b \<longleftrightarrow>
     ag_nodes a \<subseteq> ag_nodes b \<and> finite (ag_nodes b - ag_nodes a) \<and> card (ag_nodes b - ag_nodes a) = n \<and>
     ag_edges a \<subseteq>\<^sub>m ag_edges b \<and> finite (dom (ag_edges b) - dom (ag_edges a)) \<and>
     card (dom (ag_edges b) - dom (ag_edges a)) = m"

lemma grows_refl [simp]: "grows 0 0 a a"
  by (simp add: grows_def)

lemma grows_trans:
  assumes "grows n m a b" "grows n' m' b c"
  shows "grows (n + n') (m + m') a c"
proof -
  have card: "finite (C - A) \<and> card (C - A) = card (B - A) + card (C - B)"
    if "A \<subseteq> B" "B \<subseteq> C" "finite (B - A)" "finite (C - B)" for A B C :: "addr set"
  proof -
    have "C - A = (B - A) \<union> (C - B)" "(B - A) \<inter> (C - B) = {}" using that by blast+
    then show ?thesis using that by (simp add: card_Un_disjoint)
  qed
  have "dom (ag_edges a) \<subseteq> dom (ag_edges b)" "dom (ag_edges b) \<subseteq> dom (ag_edges c)"
    using assms unfolding grows_def by (metis map_le_implies_dom_le)+
  then show ?thesis
    using assms card [of "ag_nodes a" "ag_nodes b" "ag_nodes c"] card [of "dom (ag_edges a)" "dom (ag_edges b)" "dom (ag_edges c)"]
    by (auto simp: grows_def intro: map_le_trans)
qed

text \<open>A step that, if it returns, has kept the session and added \<open>n\<close> nodes and \<open>m\<close> relationships.\<close>

definition builds :: "graph_lib \<Rightarrow> nat \<Rightarrow> nat \<Rightarrow> 'a graph_exec \<Rightarrow> bool" where
  "builds G n m x \<longleftrightarrow> (\<forall>g j a h. reachable G g \<longrightarrow> room (n + m + j + 1) g \<longrightarrow> x g = (Inr a, h) \<longrightarrow>
     reachable G h \<and> room (j + 1) h \<and> grows n m (graph_abs g) (graph_abs h))"

lemma buildsD:
  assumes "builds G n m x" "reachable G g" "room (n + m + j + 1) g" "x g = (Inr a, h)"
  shows "reachable G h" "room (j + 1) h" "grows n m (graph_abs g) (graph_abs h)"
  using assms unfolding builds_def by blast+

lemma builds_pure: "builds G 0 0 (ret_exec a)" "builds G 0 0 (res_exec y)" "builds G 0 0 (eval_exec R e r)"
  by (auto simp: builds_def exec_simps res_exec_def eval_exec_def)

lemma builds_bind:
  assumes "builds G n m x" "\<And>a. builds G n' m' (f a)"
  shows "builds G (n + n') (m + m') (bind_exec x f)"
  unfolding builds_def
proof (intro allI impI)
  fix g j b h assume g: "reachable G g" "room (n + n' + (m + m') + j + 1) g" and run: "bind_exec x f g = (Inr b, h)"
  then obtain a u where u: "x g = (Inr a, u)" and h: "f a u = (Inr b, h)"
    by (auto simp: bind_exec_def split: prod.splits sum.splits)
  have "room (n + m + (n' + m' + j) + 1) g" by (rule room_mono [OF g(2)]) simp
  note one = buildsD [OF assms(1) g(1) this u]
  note two = buildsD [OF assms(2) one(1) one(2) h]
  show "reachable G h \<and> room (j + 1) h \<and> grows (n + n') (m + m') (graph_abs g) (graph_abs h)"
    using two grows_trans [OF one(3) two(3)] by blast
qed

lemma builds_fold:
  assumes "\<And>x b. builds G n m (f x b)"
  shows "builds G (length xs * n) (length xs * m) (fold_exec f xs b)"
proof (induction xs arbitrary: b)
  case (Cons x xs)
  show ?case using builds_bind [OF assms Cons.IH] by simp
qed (simp add: builds_pure)

lemma builds_collect:
  assumes "\<And>x. builds G n m (f x)"
  shows "builds G (length xs * n) (length xs * m) (collect_exec f xs)"
proof (induction xs)
  case (Cons x xs)
  have "builds G (length xs * n + 0) (length xs * m + 0) (bind_exec (collect_exec f xs) (\<lambda>ys. ret_exec (y # ys)))" for y
    by (rule builds_bind [OF Cons.IH builds_pure(1)])
  then have rest: "builds G (length xs * n) (length xs * m) (bind_exec (collect_exec f xs) (\<lambda>ys. ret_exec (y # ys)))" for y
    by simp
  have "builds G (n + length xs * n) (m + length xs * m) (collect_exec f (x # xs))"
    unfolding collect_exec.simps by (rule builds_bind [OF assms rest])
  then show ?case by simp
qed (simp add: builds_pure)


lemma catalog_exec_Inr: "catalog_exec E x g = (Inr a, h) \<longleftrightarrow> x g = (Inr a, h)"
  by (auto simp: catalog_exec_def split: prod.split sum.split)

lemma builds_insert_node: "builds G 1 0 (catalog_exec E (try_insert_node_with_key G label ps None))"
  unfolding builds_def catalog_exec_Inr
proof (intro allI impI)
  fix g j v h
  assume g: "reachable G g" "room (1 + 0 + j + 1) g" and run: "try_insert_node_with_key G label ps None g = (Inr v, h)"
  let ?op = "W_InsertNode label ps None"
  have small: "room (Suc (j + 1)) g" "target_known g ?op" using g(2) by (simp_all add: target_known_def)
  have h: "apply_write G ?op g = h" "write_outcome G ?op g = Inr v" using run by simp_all
  obtain i where "(label, i) \<notin> ag_nodes (graph_abs g)"
    "graph_abs h = (graph_abs g)\<lparr>ag_nodes := insert (label, i) (ag_nodes (graph_abs g))\<rparr>"
    using write_refines [OF reachable_inv [OF g(1)] room_counters [OF small(1)] small(2), of G, unfolded h abstract_write.simps sum.case] by blast
  then have "grows 1 0 (graph_abs g) (graph_abs h)" by (auto simp: grows_def insert_Diff_if)
  then show "reachable G h \<and> room (j + 1) h \<and> grows 1 0 (graph_abs g) (graph_abs h)"
    using reach_write [OF g(1) room_counters [OF small(1)] small(2)] room_writes(1) [OF reachable_inv [OF g(1)] small(1)]
    by (metis h(1))
qed

lemma builds_insert_edge: "builds G 0 1 (catalog_exec E (insert_edge_with_key G rel src dst ps None))"
  unfolding builds_def catalog_exec_Inr
proof (intro allI impI)
  fix g j v h
  assume g: "reachable G g" "room (0 + 1 + j + 1) g" and run: "insert_edge_with_key G rel src dst ps None g = (Inr v, h)"
  let ?op = "W_InsertEdge rel src dst ps None"
  have small: "room (Suc (j + 1)) g" "target_known g ?op" using g(2) by (simp_all add: target_known_def)
  have h: "apply_write G ?op g = h" "write_outcome G ?op g = Inr v" using run by simp_all
  obtain i q where new: "ag_edges (graph_abs g) (rel, i) = None"
    "graph_abs h = (graph_abs g)\<lparr>ag_edges := (ag_edges (graph_abs g))((rel, i) \<mapsto> q)\<rparr>"
    using write_refines [OF reachable_inv [OF g(1)] room_counters [OF small(1)] small(2), of G, unfolded h abstract_write.simps sum.case] by blast
  have "dom (ag_edges (graph_abs h)) - dom (ag_edges (graph_abs g)) = {(rel, i)}" using new by auto
  then have "grows 0 1 (graph_abs g) (graph_abs h)" using new by (auto simp: grows_def map_le_def)
  then show "reachable G h \<and> room (j + 1) h \<and> grows 0 1 (graph_abs g) (graph_abs h)"
    using reach_write [OF g(1) room_counters [OF small(1)] small(2)] room_writes(2) [OF reachable_inv [OF g(1)] small(1)]
    by (metis h(1))
qed

lemma builds_set_labels: "builds G 0 0 (catalog_exec E (set_node_labels v ls))"
  unfolding builds_def catalog_exec_Inr
proof (intro allI impI)
  fix g j a h
  assume g: "reachable G g" "room (0 + 0 + j + 1) g" and run: "set_node_labels v ls g = (Inr a, h)"
  let ?op = "W_SetLabels v ls"
  have small: "room (Suc j) g" "target_known g ?op" using g(2) by (simp_all add: target_known_def)
  have h: "apply_write G ?op g = h" using run by simp
  have same: "same_structure g h" using same_structure_labels [of g v ls] run by simp
  show "reachable G h \<and> room (j + 1) h \<and> grows 0 0 (graph_abs g) (graph_abs h)"
    using reach_write [OF g(1) room_counters [OF small(1)] small(2)] small(1)
      graph_abs_cong [OF same reachable_inv [OF g(1)]] room_same [OF same] h by simp
qed

lemma builds_properties: "builds G 0 0 (created_properties R e r)"
  unfolding created_properties_def
  using builds_bind [OF builds_pure(3) builds_pure(2), of G R _ r map_value] by (auto split: option.split intro: builds_pure)

lemma builds_create_node: "builds (ev_graph (rl_eval R)) 1 0 (create_one_node R c r)"
proof -
  let ?G = "ev_graph (rl_eval R)"
  have labels: "builds ?G 0 0 (case cn_labels c of Some ls \<Rightarrow> catalog_exec RE_Catalog (set_node_labels v ls) | None \<Rightarrow> ret_exec ())" for v
    by (auto split: option.split intro: builds_set_labels builds_pure)
  have "builds ?G (0 + (1 + (0 + 0))) (0 + (0 + (0 + 0))) (create_one_node R c r)"
    unfolding create_one_node_def
    by (intro builds_bind builds_properties builds_insert_node labels builds_pure)
  then show ?thesis by simp
qed

lemma builds_create_edge: "builds (ev_graph (rl_eval R)) 0 1 (create_one_edge R c r)"
proof -
  have "builds (ev_graph (rl_eval R)) (0 + (0 + (0 + (0 + 0)))) (0 + (0 + (0 + (1 + 0)))) (create_one_edge R c r)"
    unfolding create_one_edge_def
    by (intro builds_bind builds_properties builds_insert_edge builds_pure)
  then show ?thesis by simp
qed

lemma collect_length: "collect_exec f xs s = (Inr ys, t) \<Longrightarrow> length ys = length xs"
  by (induction xs arbitrary: s ys) (auto simp: exec_simps bind_exec_def split: prod.splits sum.splits)



definition demo_node :: "string \<Rightarrow> create_node" where
  "demo_node b = \<lparr>cn_labels = None, cn_bind = Some b, cn_label = ''P'', cn_properties = None\<rparr>"

definition demo_link :: create_edge where
  "demo_link = \<lparr>ce_bind = None, ce_rel_type = ''K'', ce_src = ''a'', ce_dst = ''b'', ce_properties = None\<rparr>"

lemma demo_inserts:
  "try_insert_node_with_key text_graph_lib ''P'' [] None new_graph = (Inr (V_Node ''P'' (eid_of_i64 0)), demo_write 1)"
  "try_insert_node_with_key text_graph_lib ''P'' [] None (demo_write 1) = (Inr (V_Node ''P'' (eid_of_i64 1)), demo_write 2)"
  "insert_edge_with_key text_graph_lib ''K'' (V_Node ''P'' (eid_of_i64 0)) (V_Node ''P'' (eid_of_i64 1)) [] None (demo_write 2) =
     (Inr (V_Edge ''K'' (eid_of_i64 0) ''P'' (eid_of_i64 0) ''P'' (eid_of_i64 1) None), demo_write 3)"
proof -
  have "fst (try_insert_node_with_key text_graph_lib ''P'' [] None new_graph) = Inr (V_Node ''P'' (eid_of_i64 0))"
    "fst (try_insert_node_with_key text_graph_lib ''P'' [] None (demo_write 1)) = Inr (V_Node ''P'' (eid_of_i64 1))"
    "fst (insert_edge_with_key text_graph_lib ''K'' (V_Node ''P'' (eid_of_i64 0)) (V_Node ''P'' (eid_of_i64 1)) [] None (demo_write 2)) =
     Inr (V_Edge ''K'' (eid_of_i64 0) ''P'' (eid_of_i64 0) ''P'' (eid_of_i64 1) None)"
    by code_simp+
  moreover have "snd (try_insert_node_with_key text_graph_lib ''P'' [] None new_graph) = demo_write 1"
    "snd (try_insert_node_with_key text_graph_lib ''P'' [] None (demo_write 1)) = demo_write 2"
    "snd (insert_edge_with_key text_graph_lib ''K'' (V_Node ''P'' (eid_of_i64 0)) (V_Node ''P'' (eid_of_i64 1)) [] None (demo_write 2)) = demo_write 3"
    by (simp_all add: demo_write_def take_Cons')
  ultimately show
    "try_insert_node_with_key text_graph_lib ''P'' [] None new_graph = (Inr (V_Node ''P'' (eid_of_i64 0)), demo_write 1)"
    "try_insert_node_with_key text_graph_lib ''P'' [] None (demo_write 1) = (Inr (V_Node ''P'' (eid_of_i64 1)), demo_write 2)"
    "insert_edge_with_key text_graph_lib ''K'' (V_Node ''P'' (eid_of_i64 0)) (V_Node ''P'' (eid_of_i64 1)) [] None (demo_write 2) =
     (Inr (V_Edge ''K'' (eid_of_i64 0) ''P'' (eid_of_i64 0) ''P'' (eid_of_i64 1) None), demo_write 3)"
    by (simp_all add: prod_eq_iff)
qed


section \<open>Labels\<close>

lemma relabel_strings:
  "\<exists>ls'. relabel add (map V_String ns) ls = Inr ls' \<and> set ls' = (if add then set ls \<union> set ns else set ls - set ns)"
proof (induction ns arbitrary: ls)
  case (Cons n ns)
  obtain ls' where "relabel add (map V_String ns) (if add then List.insert n ls else removeAll n ls) = Inr ls'"
    "set ls' = (if add then set (if add then List.insert n ls else removeAll n ls) \<union> set ns
      else set (if add then List.insert n ls else removeAll n ls) - set ns)"
    using Cons.IH by blast
  then show ?case by (intro exI [of _ ls']) auto
qed simp

lemma labels_of_memory:
  "pg_source g = None \<Longrightarrow> node_labels l i g =
    ((case map_of (ov_label_sets (pg_overlay g)) (l, i) of Some ls \<Rightarrow> sorted_list_of_set ls | None \<Rightarrow> [l]), g)"
  by (simp add: node_labels_def)

text \<open>
  \<open>SET n:A:B\<close> gives a live node exactly the labels it had and the new ones, \<open>REMOVE n:A:B\<close> exactly
  those it had without the named ones, and every other node keeps its labels.
\<close>

theorem label_update_exact:
  fixes g l i
  defines "labels_of \<equiv> \<lambda>g m k. set (fst (node_labels m k g))"
  assumes "pg_source g = None" "node_is_live g l i"
  shows "\<exists>h. update_labels add (V_Node l i) (V_List (map V_String ns)) g = (Inr (), h) \<and>
    labels_of h l i = (if add then labels_of g l i \<union> set ns else labels_of g l i - set ns) \<and>
    (\<forall>m k. (m, k) \<noteq> (l, i) \<longrightarrow> labels_of h m k = labels_of g m k)"
proof -
  define old where "old = fst (node_labels l i g)"
  obtain ls where ls: "relabel add (map V_String ns) old = Inr ls" "set ls = (if add then set old \<union> set ns else set old - set ns)"
    using relabel_strings by blast
  let ?h = "mark_node (l, i) (upd_overlay (\<lambda>ov. ov\<lparr>ov_label_sets := AList.update (l, i) (set ls) (ov_label_sets ov)\<rparr>) g)"
  have same: "node_labels l i g = (old, g)" by (simp add: old_def labels_of_memory [OF assms(2)])
  have "update_labels add (V_Node l i) (V_List (map V_String ns)) g = (Inr (), ?h)"
    unfolding update_labels_def val.case same prod.case Let_def using assms(3)
    by (simp add: bind_exec_def res_exec_def catalog_exec_def set_node_labels_def ls(1))
  moreover have "labels_of ?h m k = (if (m, k) = (l, i) then set ls else labels_of g m k)" for m k
    using assms(2) by (simp add: labels_of_def labels_of_memory update_conv')
  ultimately show ?thesis using ls(2) by (auto simp: labels_of_def old_def)
qed

theorem label_update_exact_witness:
  "\<exists>h. update_labels True (V_Node ''P'' (eid_of_i64 0)) (V_List (map V_String [''Q''])) (demo_write 3) = (Inr (), h) \<and>
    set (fst (node_labels ''P'' (eid_of_i64 0) h)) = {''P'', ''Q''}"
proof -
  have "pg_source (demo_write 3) = None" by (rule graph_inv_parts(6) [OF reachable_inv [OF reachable_demo]])
  moreover have "node_is_live (demo_write 3) ''P'' (eid_of_i64 0)" by code_simp
  moreover have "set (fst (node_labels ''P'' (eid_of_i64 0) (demo_write 3))) = {''P''}" by code_simp
  ultimately show ?thesis
    using label_update_exact [of "demo_write 3" "''P''" "eid_of_i64 0" True "[''Q'']"] by auto
qed

section \<open>Scans\<close>

lemma edge_ids_live:
  assumes "graph_inv g"
  shows "i \<in> set (edge_ids G g rel) \<longleftrightarrow> live_edge_endpoints g rel i \<noteq> None"
proof -
  note p = graph_inv_parts [OF assms]
  have w: "base_wf g" "keys_wf g" using p(1) by (simp_all add: session_base_def)
  have base: "i \<in> set (al_default [] (pg_edge_keys g) rel) \<longleftrightarrow> base_endpoints g rel i \<noteq> None"
    using keys_wfD(2) [OF w(2), of rel i] w(1) by (auto simp: base_wf_def base_endpoints_def)
  have ins: "i \<in> set (map snd (filter (\<lambda>k. fst k = rel) (map fst (ov_inserted_edges (pg_overlay g))))) \<longleftrightarrow>
      map_of (ov_inserted_edges (pg_overlay g)) (rel, i) \<noteq> None"
    by (force simp: map_of_eq_None_iff)
  have ends: "edge_endpoints g rel i = None \<longleftrightarrow>
      map_of (ov_inserted_edges (pg_overlay g)) (rel, i) = None \<and> base_endpoints g rel i = None"
    by (auto simp: edge_endpoints_ends [OF p(6)] ends_def split: option.split prod.split)
  have "i \<in> set (edge_ids G g rel) \<longleftrightarrow> edge_is_live (pg_overlay g) rel i \<and>
      (i \<in> set (al_default [] (pg_edge_keys g) rel) \<and> map_of (ov_inserted_edges (pg_overlay g)) (rel, i) = None \<or>
       i \<in> set (map snd (filter (\<lambda>k. fst k = rel) (map fst (ov_inserted_edges (pg_overlay g))))))"
    unfolding edge_ids_def p(6) option.case set_append set_filter [of _ "sort_by _ _"] set_sort_by set_filter [of _ "al_default _ _ _"] by blast
  then show ?thesis
    unfolding base ins live_edge_endpoints_def using ends by (cases "edge_is_live (pg_overlay g) rel i") (simp only: if_True if_False; blast)+
qed

lemma set_note_keys: "set (fold (\<lambda>k out. note_key_list out (f k)) ks out) = set out \<union> f ` set ks"
  by (induction ks arbitrary: out) auto

lemma rel_types_live:
  assumes "graph_inv g" "live_edge_endpoints g rel i \<noteq> None"
  shows "rel \<in> set (rel_types g)"
proof -
  note p = graph_inv_parts [OF assms(1)]
  have "edge_endpoints g rel i \<noteq> None" using assms(2) by (simp add: live_edge_endpoints_def split: if_splits)
  then consider e where "map_of (ov_inserted_edges (pg_overlay g)) (rel, i) = Some e" | q where "base_endpoints g rel i = Some q"
    by (auto simp: edge_endpoints_ends [OF p(6)] ends_def split: option.splits)
  then show ?thesis
  proof cases
    case 1
    from map_of_SomeD [OF this] show ?thesis unfolding rel_types_def set_sort set_note_keys by force
  next
    case 2
    from base_edge_type(1) [OF p(1) this] show ?thesis unfolding rel_types_def set_sort set_note_keys by auto
  qed
qed

fun single_names :: "label_expr \<Rightarrow> bool" where
  "single_names (LE_AllOf names) \<longleftrightarrow> length names = 1"
| "single_names (LE_Not e) \<longleftrightarrow> single_names e"
| "single_names _ \<longleftrightarrow> True"

lemma matching_rel_types_iff:
  "single_names e \<Longrightarrow> rel \<in> set (matching_rel_types e g) \<longleftrightarrow> rel \<in> set (rel_types g) \<and> label_matches rel e"
  by (induction e) (auto simp: length_Suc_conv)

lemma collect_Inr:
  assumes "\<And>x. x \<in> set xs \<Longrightarrow> f x = Inr (h x)"
  shows "collect f xs = Inr (map h xs)"
  using assms by (induction xs) auto



end
