(* ===== verification/Spec2Isabelle.thy ===== *)
theory Spec2Isabelle
  imports Managed_Engine Debug_Values Row_Aggregation Row_Mutations
begin

text \<open>
  \<^bold>\<open>OrchidDB: the graph store, its durable formats and its native runtime.\<close>

  OrchidDB is a property-graph engine.  Queries in Cypher and Gremlin are compiled to a logical
  plan (\<open>src/src/language\<close>, \<open>src/src/ir/plan.rs\<close>), lowered to SQL regions and graph
  boundaries (\<open>src/src/ir/rel\<close>) and executed against a property graph
  (\<open>src/src/ir/catalog.rs\<close> and \<open>src/src/ir/catalog/\<close>).  The graph is a set of
  immutable base tables with indexes, and a session overlay that holds every write.  A managed
  engine (\<open>src/src/engine.rs\<close>) stores a checkpoint (a snapshot of the whole graph) and, per
  commit, the incremental records of the elements the session touched; opening the database
  decodes the checkpoint and applies the records.

  This development models the store (the values it holds, the byte formats it writes, the overlay
  with its reads and writes, the recovery from records), the managed engine around it, and the part
  of the native runtime (\<open>src/src/ir/runtime\<close>) that evaluates expressions on rows: comparison,
  arithmetic, textual dates and intervals, and the operators that work row by row or on keys of rows.

  \<^bold>\<open>Theories and the source they model.\<close>

  \<^item> \<open>Orchid_Prelude\<close>: machine integers and byte strings, results (\<open>bind_res\<close>), decimal
    text, ordered association lists (\<open>BTreeMap\<close>), the named collections of the library.
  \<^item> \<open>Wire_Reader\<close>: the writers and the bounded reader of \<open>catalog/snapshot/binary.rs\<close>,
    as a reader monad; the locale \<open>wire_format\<close> is the contract of an encoder with its decoder.
  \<^item> \<open>Graph_Values\<close>: Arrow scalars, \<open>ElementId\<close> (\<open>ir/identity.rs\<close>),
    \<open>TemporalValue\<close> (\<open>ir/temporal/value.rs\<close>), \<open>Value\<close> (\<open>ir/value.rs\<close>).
  \<^item> \<open>Value_Identity\<close>: member keys of native sets, set construction, shared equality and the
    element key codec (\<open>ir/value.rs\<close>, \<open>ir/identity.rs\<close>).
  \<^item> \<open>Snapshot_Codec\<close>: \<open>encode_value\<close> and \<open>decode_value\<close> with the normalisation of
    struct metadata; it interprets \<open>wire_format\<close>.
  \<^item> \<open>Debug_Values\<close>: \<open>parse_debug_value\<close> of \<open>catalog/values.rs\<close>, which reads values
    back from the derived \<open>Debug\<close> text of a column.
  \<^item> \<open>Graph_Mapping\<close>: keys as values, casts, and the relational mapping the writes consult
    (\<open>ir/rel/mapping.rs\<close>).
  \<^item> \<open>Graph_Store\<close>: the graph, its overlay and the construction of base tables
    (\<open>catalog.rs\<close>, \<open>catalog/keyed.rs\<close>, \<open>catalog/source.rs\<close>).
  \<^item> \<open>Graph_Reads\<close>: liveness, endpoints, neighbours, properties, identities and keys.
  \<^item> \<open>Graph_Writes\<close>: insertion, property writes, labels, deletion, hydration of native state
    (\<open>catalog/mutations.rs\<close>, \<open>catalog/properties.rs\<close>, \<open>catalog/keyed.rs\<close>).
  \<^item> \<open>Graph_Properties\<close>: what a property write changes and what it leaves alone; every write
    marks what it touches.
  \<^item> \<open>Graph_Session\<close>: the invariant of an in-memory session, the interface \<open>graph_view\<close>
    its clients rely on, and the refinement of every write to an abstract graph.
  \<^item> \<open>Incremental_Records\<close>: the record format of \<open>catalog/incremental.rs\<close>.
  \<^item> \<open>Session_Replay\<close>: recovery of a session from its checkpoint and its records.
  \<^item> \<open>Record_Table\<close>: the table of records that the engine keeps in its database, with the
    statements that write it.
  \<^item> \<open>Managed_Engine\<close>: the statements, transactions, checkpoints and imports of a
    \<open>GraphEngine\<close> over its own tables (\<open>engine.rs\<close>), with any statement of the database
    failing and other connections committing between the steps.
  \<^item> \<open>Property_Records\<close>: vertex property records, cardinalities, meta-properties and public
    identities (\<open>catalog/properties.rs\<close>).
  \<^item> \<open>Orchid_Text\<close>, \<open>Civil_Calendar\<close>, \<open>Interval_Text\<close>, \<open>Temporal_Text\<close>: scanning of
    text, the proleptic calendar, and the text forms of intervals, dates and timestamps
    (\<open>ir/runtime/scalar/interval.rs\<close>, \<open>ir/runtime/scalar/temporal.rs\<close>).
  \<^item> \<open>Runtime_Arithmetic\<close>: the arithmetic operators (\<open>ir/runtime/expr/arithmetic.rs\<close>).
  \<^item> \<open>Runtime_Order\<close>: three-valued equality and ordering of values (\<open>ir/value.rs\<close>) and the
    comparison operators (\<open>ir/runtime/expr/binary.rs\<close>).
  \<^item> \<open>Expression_Eval\<close>: expressions and their evaluation on a row (\<open>ir/expr.rs\<close>,
    \<open>ir/runtime/expr/mod.rs\<close>, \<open>ir/runtime/ops/quantifier.rs\<close>).
  \<^item> \<open>Row_Keys\<close>: native and Cypher keys of values and rows, and DISTINCT
    (\<open>ir/runtime/ops/distinct.rs\<close>).
  \<^item> \<open>Row_Operators\<close>: slices, projection, selection, joins, list fan-out, comprehensions,
    quantifiers and the merging of equal traversers; the locale \<open>row_local\<close> is the contract of an
    operator that treats each row alone.
  \<^item> \<open>Value_Order\<close>: the total order of values, Cypher's order and Gremlin's numeric promotion
    (\<open>ir/runtime/expr/compare.rs\<close>, \<open>ir/runtime/scalar/cypher/order.rs\<close>,
    \<open>ir/gremlin_semantics.rs\<close>), with \<open>ORDER BY\<close>, ordered collection and the barrier.
  \<^item> \<open>Row_Aggregation\<close>: grouping and the aggregate functions (\<open>ir/runtime/ops/aggregate.rs\<close>).
  \<^item> \<open>Pattern_Expansion\<close>: the breadth-first expansion of a pattern with its step counter
    (\<open>ir/runtime/ops/expand.rs\<close>, \<open>charge\<close> of \<open>ir/runtime/context.rs\<close>).
  \<^item> \<open>Row_Mutations\<close>: value rows, relationship scans, \<open>CREATE\<close>, \<open>SET\<close> and \<open>DELETE\<close>
    (\<open>ir/runtime/ops/source.rs\<close>, \<open>ir/runtime/ops/mutation.rs\<close>).

  \<^bold>\<open>How state and operations correspond.\<close>  A struct is a record, an enum a datatype with the
  source's constructors, a machine integer a word, a float its bit pattern, a string a list of
  bytes (as characters).  A \<open>HashMap\<close> is an association list; where the source iterates one
  the model iterates the list, one of the orders the source may take.  A \<open>BTreeMap\<close> with
  string keys is kept in key order; one keyed by addresses is sorted where it is iterated.
  \<open>Result\<close> is a sum with the error on the left.  A method that writes through \<open>&self\<close>
  returns the graph it leaves behind, on its error paths too.  The functions of other crates
  (Arrow IPC and casts, big decimals, chrono, SHA-256, the derived \<open>Debug\<close> text) are the
  fields of \<open>value_lib\<close>, \<open>graph_lib\<close> and \<open>store_lib\<close>, which are arguments; what the
  code relies on is stated as \<open>ipc_ok\<close>, \<open>temporal_ok\<close>, \<open>snapshot_ok\<close>, \<open>sha_ok\<close>.

  \<^bold>\<open>What the lemmas show.\<close>  The codecs return what was written, are unambiguous, and reject
  truncated input and left-over bytes; any decoded value is well formed.  The byte key of a
  value decides its typed identity, and native sets are determined by the keys of their members.
  A property write is read back and changes no other element; an element that is not in the
  pending set is unchanged.  In a session the neighbour lists are exactly the live
  relationships, no relationship dangles, identities are never reused, and every write has its
  abstract effect.  A record restores the entry of its element and nothing else, is bound to its
  identity by the checksum, and the records of a session give back its graph.
  In every reachable state of the engine the graph it holds is the one its tables decode to or is
  reloaded before use; a committed statement survives, a failed one leaves no trace.  A vertex
  property write respects its cardinality, and an assigned or generated identity finds its element.
  Dates and intervals read back from the text they print as; the calendar counts days one by one.
  Integer arithmetic is exact or fails; signed integers compare by value.  Evaluation depends only on
  the free bindings of an expression, and quantifiers over unknown predicates answer what every
  completion agrees on.  DISTINCT keeps the first row of each class, slices select the traversers that
  the expanded list has at those places, and the row operators and aggregates do not see how
  traversers are bulked.  \<open>ORDER BY\<close> is a stable sort, integer sums are exact, and groups are the
  classes of their keys.  An expansion ends and finds exactly the trails of live relationships, paying a
  step for every row; \<open>CREATE\<close> adds its pattern once per row, \<open>DELETE\<close> removes its targets as one
  operation, and all three mutation operators mark what they change.

  \<^bold>\<open>Bounds and fuel.\<close>  The value decoder passes fuel: one unit per nested value, starting with
  one more than there are bytes left; every value starts with a tag byte, so it never runs out
  (\<open>decode_value_total\<close>).  Lengths are bounded by \<open>2 ^ 64\<close> where the format writes a
  64-bit length, and allocation counters by the range of their type (\<open>counters_ok\<close>).
  The search for a free generated identity passes fuel, because it need not end: one attempt more
  than there are addresses is enough where generated texts compare as plain texts
  (\<open>generated_id_assigned\<close>), and no fuel is enough for the labels of
  \<open>generated_id_never_assigned\<close>.

  \<^bold>\<open>Not modelled.\<close>  The parsers (generated from the grammars) and the language front ends; the
  lowering of plans to SQL and its execution by DuckDB and DataFusion; the named runtime functions,
  which are a parameter of the evaluator; path patterns and sampling; the arithmetic of typed temporal values, which rests on chrono
  and time-zone data; the sections of the snapshot file around the value codec (Arrow IPC batches);
  the engine over caller-owned tables; federation, streaming, the Java bridge, the policy agent and
  the clients.  They are compilers to, or drivers of, systems whose code is not part of the
  repository, or work on data this development does not need.
\<close>

end
